(* ===== verification/Prelude.thy ===== *)
theory Prelude
  imports Complex_Main "HOL-Library.Word" "HOL-Library.Sublist" "HOL-Library.List_Lexorder" "HOL-Library.Char_ord"
begin

text \<open>
  Shared vocabulary of the development.

  A C++ function that throws is modelled with the result type
  \<open>'a throws\<close>: \<open>Inl msg\<close> is the exception with its message, \<open>Inr x\<close> the value.
  A member function that changes its object returns the pair of its result and of
  the new object, so that what happened before an exception is visible.
  The collections \<open>model_defs\<close> (unfolding of small operations), \<open>inv_intros\<close>
  (preservation of invariants) and \<open>res_simps\<close> (rules on results) are filled
  by the component theories.
\<close>

named_theorems model_defs "definitions of small operations"
named_theorems inv_intros "preservation of the invariants"
named_theorems res_simps "simplification of results and their projections"

section \<open>Results\<close>

type_synonym exn = string
type_synonym 'a throws = "exn + 'a"

definition is_ok :: "'e + 'a \<Rightarrow> bool" where
  "is_ok r = (case r of Inl _ \<Rightarrow> False | Inr _ \<Rightarrow> True)"

definition bindE :: "'e + 'a \<Rightarrow> ('a \<Rightarrow> 'e + 'b) \<Rightarrow> 'e + 'b" where
  "bindE m f = (case m of Inl e \<Rightarrow> Inl e | Inr x \<Rightarrow> f x)"

definition guardE :: "bool \<Rightarrow> 'e \<Rightarrow> 'e + unit" where
  "guardE b e = (if b then Inr () else Inl e)"

lemma is_ok_simps [simp, res_simps]:
  "is_ok (Inr x)" "\<not> is_ok (Inl e)"
  by (simp_all add: is_ok_def)

lemma is_ok_iff: "is_ok r \<longleftrightarrow> (\<exists>x. r = Inr x)"
  by (cases r) auto

lemma not_is_ok_iff: "\<not> is_ok r \<longleftrightarrow> (\<exists>e. r = Inl e)"
  by (cases r) auto

lemma bindE_simps [simp, res_simps]:
  "bindE (Inr x) f = f x" "bindE (Inl e) f = Inl e"
  by (simp_all add: bindE_def)

lemma bindE_Inr_iff [res_simps]:
  "bindE m f = Inr y \<longleftrightarrow> (\<exists>x. m = Inr x \<and> f x = Inr y)"
  by (cases m) auto

lemma bindE_assoc: "bindE (bindE m f) g = bindE m (\<lambda>x. bindE (f x) g)"
  by (cases m) auto

lemma guardE_simps [simp, res_simps]:
  "guardE True e = Inr ()" "guardE False e = Inl e"
  "guardE b e = Inr u \<longleftrightarrow> b" "guardE b e = Inl e' \<longleftrightarrow> \<not> b \<and> e' = e"
  by (auto simp: guardE_def)

text \<open>Running a fallible function over a list, stopping at the first error.\<close>

fun mapE :: "('a \<Rightarrow> 'e + 'b) \<Rightarrow> 'a list \<Rightarrow> 'e + 'b list" where
  "mapE f [] = Inr []"
| "mapE f (x # xs) = bindE (f x) (\<lambda>y. bindE (mapE f xs) (\<lambda>ys. Inr (y # ys)))"

fun foldE :: "('a \<Rightarrow> 's \<Rightarrow> 'e + 's) \<Rightarrow> 'a list \<Rightarrow> 's \<Rightarrow> 'e + 's" where
  "foldE f [] s = Inr s"
| "foldE f (x # xs) s = bindE (f x s) (foldE f xs)"

lemma mapE_Inr_iff:
  "mapE f xs = Inr ys \<longleftrightarrow> list_all2 (\<lambda>x y. f x = Inr y) xs ys"
proof (induction xs arbitrary: ys)
  case Nil
  then show ?case by auto
next
  case (Cons x xs)
  then show ?case by (cases ys) (auto simp: bindE_Inr_iff)
qed

lemma mapE_length: "mapE f xs = Inr ys \<Longrightarrow> length ys = length xs"
  by (auto simp: mapE_Inr_iff dest: list_all2_lengthD)

lemma mapE_total: "(\<And>x. x \<in> set xs \<Longrightarrow> f x = Inr (g x)) \<Longrightarrow> mapE f xs = Inr (map g xs)"
  by (induction xs) auto

lemma foldE_append: "foldE f (xs @ ys) s = bindE (foldE f xs s) (foldE f ys)"
  by (induction xs arbitrary: s) (auto simp: bindE_def split: sum.splits)

lemma foldE_invariant:
  assumes "foldE f xs s = Inr s'" "P s"
    and "\<And>x s s'. x \<in> set xs \<Longrightarrow> P s \<Longrightarrow> f x s = Inr s' \<Longrightarrow> P s'"
  shows "P s'"
  using assms
proof (induction xs arbitrary: s)
  case (Cons x xs)
  then show ?case by (auto simp: bindE_Inr_iff)
qed simp

section \<open>Operations on a state\<close>

text \<open>An operation that may throw halfway: the state as far as it had come is part of the result.\<close>

type_synonym ('s, 'a) action = "'s \<Rightarrow> 'a throws \<times> 's"

definition returnX :: "'a \<Rightarrow> ('s, 'a) action" where "returnX x s = (Inr x, s)"

definition throwX :: "exn \<Rightarrow> ('s, 'a) action" where "throwX e s = (Inl e, s)"

definition bindX :: "('s, 'a) action \<Rightarrow> ('a \<Rightarrow> ('s, 'b) action) \<Rightarrow> ('s, 'b) action" where
  "bindX m k s = (case m s of (Inl e, s') \<Rightarrow> (Inl e, s') | (Inr x, s') \<Rightarrow> k x s')"

fun forX :: "'x list \<Rightarrow> ('x \<Rightarrow> ('s, unit) action) \<Rightarrow> ('s, unit) action" where
  "forX [] f = returnX ()"
| "forX (x # xs) f = bindX (f x) (\<lambda>_. forX xs f)"

definition getX :: "('s \<Rightarrow> 'a) \<Rightarrow> ('s, 'a) action" where "getX f s = (Inr (f s), s)"

definition modifyX :: "('s \<Rightarrow> 's) \<Rightarrow> ('s, unit) action" where "modifyX f s = (Inr (), f s)"

definition liftX :: "'a throws \<Rightarrow> ('s, 'a) action" where "liftX r s = (r, s)"

lemma actionX_simps [simp]:
  "returnX x s = (Inr x, s)" "throwX e s = (Inl e, s)" "getX f s = (Inr (f s), s)" "modifyX g s = (Inr (), g s)"
  "liftX r s = (r, s)"
  by (simp_all add: returnX_def throwX_def getX_def modifyX_def liftX_def)

lemma bindX_Inr: "m s = (Inr x, s') \<Longrightarrow> bindX m k s = k x s'"
  by (simp add: bindX_def)

lemma bindX_Inl: "m s = (Inl e, s') \<Longrightarrow> bindX m k s = (Inl e, s')"
  by (simp add: bindX_def)

lemma bindX_Inr_iff: "bindX m k s = (Inr y, s') \<longleftrightarrow> (\<exists>x s1. m s = (Inr x, s1) \<and> k x s1 = (Inr y, s'))"
  by (auto simp: bindX_def split: prod.splits sum.splits)

text \<open>A loop of actions each of which succeeds and keeps an invariant; the invariant may speak of the elements done.\<close>

lemma forX_succeeds:
  assumes "P [] s"
    and "\<And>xs1 x xs2 s. xs = xs1 @ x # xs2 \<Longrightarrow> P xs1 s \<Longrightarrow> \<exists>s'. f x s = (Inr (), s') \<and> P (xs1 @ [x]) s'"
  shows "\<exists>s'. forX xs f s = (Inr (), s') \<and> P xs s'"
proof -
  have "\<exists>s'. forX xs2 f s = (Inr (), s') \<and> P xs s'" if "xs = xs1 @ xs2" "P xs1 s" for xs1 xs2 s
    using that
  proof (induction xs2 arbitrary: xs1 s)
    case (Cons x xs2)
    from assms(2) [OF Cons.prems] obtain s1 where s1: "f x s = (Inr (), s1)" "P (xs1 @ [x]) s1" by blast
    have "xs = (xs1 @ [x]) @ xs2" using Cons.prems(1) by simp
    from Cons.IH [OF this s1(2)] show ?case using s1(1) by (simp add: bindX_Inr)
  qed simp
  from this [of "[]" xs s] assms(1) show ?thesis by simp
qed

section \<open>Lists and maps\<close>

lemma distinct_map_append_single:
  "distinct (map f (xs @ [x])) \<longleftrightarrow> distinct (map f xs) \<and> f x \<notin> f ` set xs"
  by auto

lemma distinct_map_tl: "distinct (map f xs) \<Longrightarrow> distinct (map f (tl xs))"
  by (cases xs) auto

lemma set_tl_distinct_map:
  assumes "distinct (map f xs)" "xs \<noteq> []"
  shows "f ` set (tl xs) = f ` set xs - {f (hd xs)}"
  using assms by (cases xs) auto

lemma dom_map_upd_card:
  assumes "finite (dom m)" "k \<notin> dom m"
  shows "card (dom (m(k \<mapsto> v))) = Suc (card (dom m))"
  using assms by simp

lemma finite_dom_upd: "finite (dom m) \<Longrightarrow> finite (dom (m(k := v)))"
  by (cases v) auto

lemma last_in_set_appendI: "x \<in> set (xs @ [x])"
  by simp

text \<open>Membership of one list in the first elements of another: prefix tests on strings.\<close>

definition starts_with :: "string \<Rightarrow> string \<Rightarrow> bool" where
  "starts_with s p = prefix p s"

lemma starts_with_code [code]: "starts_with s p = (take (length p) s = p)"
  by (metis append_eq_conv_conj append_take_drop_id prefix_def starts_with_def)

lemma starts_with_append [simp]: "starts_with (p @ s) p"
  by (simp add: starts_with_def)

lemma starts_with_eq: "starts_with s p \<Longrightarrow> s = p @ drop (length p) s"
  by (auto simp: starts_with_def prefix_def)

end
