(* ===== verification/Service_Types.thy ===== *)
theory Service_Types
  imports Prelude
begin

text \<open>
  The data of \<open>planning_service/service/types\<close>: the error codes and errors of
  \<open>error.h\<close> and the requests, results and job types of \<open>types.h\<close>.
  A request is an extensible record whose root is \<open>request_adapter\<close>, as
  every request class of the source derives from \<open>RequestAdapter\<close>.
\<close>

section \<open>error.h\<close>

datatype service_error_code =
    NONE | UNKNOWN | QUEUE_EMPTY | QUEUE_CAPACITY_REACHED | DUPLICATE_ID
  | JOB_CAPACITY_REACHED | JOB_START_FAILED | CONTEXT_NOT_FOUND | CONTEXT_INVALID
  | RESULT_NOT_READY | RESULT_NOT_FOUND | IRIS_GENERATION_FAILED
  | UNKNOWN_PLANNING_FAILURE | START_IN_VIOLATION | GOAL_IN_VIOLATION
  | JOB_THREAD_INVALIDATED | JOB_THREAD_EXCEPTION | JOB_TYPE_UNSUPPORTED
  | DEPRECATED_API

record service_error =
  err_code :: service_error_code
  err_msg :: string

definition ServiceError :: "service_error_code \<Rightarrow> string \<Rightarrow> service_error" where
  "ServiceError code msg = \<lparr> err_code = code, err_msg = msg \<rparr>"

type_synonym 'a expected = "service_error + 'a"

lemma ServiceError_sel [simp, res_simps]:
  "err_code (ServiceError c m) = c" "err_msg (ServiceError c m) = m"
  by (simp_all add: ServiceError_def)

section \<open>types.h\<close>

type_synonym request_id = string
type_synonym context_id = "64 word"

record request_adapter =
  req_id :: request_id

datatype iris_build_job_type =
    IrisNone | IRIS_FROM_CONFIGS | IRIS_FROM_EDGES | IRIS_FROM_ROADMAP | IRIS_FROM_PROBLEMS

datatype update_roadmap_job_type =
    UpdateNone | UPDATE_FROM_SAVED_PROBLEMS | UPDATE_FROM_PASSED_PROBLEMS | UPDATE_FROM_SAMPLES

end
