(* ===== verification/File_System.thy ===== *)
theory File_System
  imports Service_Types "HOL-Library.AList"
begin

text \<open>
  The strings and files of \<open>planning_service/common\<close>: \<open>string_utils.cc\<close>, \<open>file_utils.cc\<close> and the
  transaction ids of \<open>logging.cc\<close>.  The file system is an association list from absolute paths (lists of
  components, the root is \<open>[]\<close>) to directories and regular files with their bytes.
  The operations of \<open>std::filesystem\<close> follow their documented behaviour;
  failures of the device (a full disk, missing permissions) are not modelled.
\<close>

section \<open>string_utils.cc\<close>

definition to_lower_char :: "char \<Rightarrow> char" where
  "to_lower_char c = (if CHR ''A'' \<le> c \<and> c \<le> CHR ''Z'' then char_of (of_char c + 32 :: nat) else c)"

definition to_upper_char :: "char \<Rightarrow> char" where
  "to_upper_char c = (if CHR ''a'' \<le> c \<and> c \<le> CHR ''z'' then char_of (of_char c - 32 :: nat) else c)"

definition to_lower :: "string \<Rightarrow> string" where "to_lower s = map to_lower_char s"
definition to_upper :: "string \<Rightarrow> string" where "to_upper s = map to_upper_char s"

fun join_strings :: "string list \<Rightarrow> string \<Rightarrow> string" where
  "join_strings [] sep = []"
| "join_strings [x] sep = x"
| "join_strings (x # y # xs) sep = x @ sep @ join_strings (y # xs) sep"

text \<open>The loop over \<open>std::getline\<close>: a token up to each delimiter; what follows the last
  delimiter is a token only if it is not empty.\<close>

function split_string :: "string \<Rightarrow> char \<Rightarrow> string list" where
  "split_string s d = (if s = [] then []
     else takeWhile (\<lambda>c. c \<noteq> d) s # split_string (tl (dropWhile (\<lambda>c. c \<noteq> d) s)) d)"
  by pat_completeness auto
termination
proof (relation "measure (\<lambda>(s, d). length s)")
  fix s :: string and d
  assume "s \<noteq> []"
  then show "((tl (dropWhile (\<lambda>c. c \<noteq> d) s), d), (s, d)) \<in> measure (\<lambda>(s, d). length s)"
    using length_dropWhile_le [of "\<lambda>c. c \<noteq> d" s] by (cases s) auto
qed simp

declare split_string.simps [simp del]

definition string_includes :: "string \<Rightarrow> string \<Rightarrow> bool" where
  "string_includes s sub = sublist sub s"

lemma split_string_Nil [simp]: "split_string [] d = []"
  by (simp add: split_string.simps)

lemma split_string_token:
  assumes "d \<notin> set t"
  shows "split_string (t @ d # s) d = t # split_string s d"
    and "t \<noteq> [] \<Longrightarrow> split_string t d = [t]"
proof -
  have tw: "takeWhile (\<lambda>c. c \<noteq> d) (t @ d # s) = t" "dropWhile (\<lambda>c. c \<noteq> d) (t @ d # s) = d # s"
    using assms by (induction t) auto
  then show "split_string (t @ d # s) d = t # split_string s d"
    by (subst split_string.simps) simp
  have e: "takeWhile (\<lambda>c. c \<noteq> d) t = t" "dropWhile (\<lambda>c. c \<noteq> d) t = []"
    using assms by (induction t) auto
  show "split_string t d = [t]" if "t \<noteq> []"
    using that by (subst split_string.simps) (simp only: e if_False list.sel split_string_Nil)
qed

text \<open>Splitting undoes joining for tokens without the delimiter whose last one is not empty.\<close>

lemma split_join:
  assumes "\<forall>t \<in> set ts. d \<notin> set t" "ts = [] \<or> last ts \<noteq> []"
  shows "split_string (join_strings ts [d]) d = ts"
  using assms
  by (induction ts "[d]" rule: join_strings.induct) (auto simp: split_string_token)

lemma to_lower_idem: "to_lower (to_lower s) = to_lower s"
proof -
  have "to_lower_char (to_lower_char c) = to_lower_char c" for c
    by (auto simp: to_lower_char_def less_eq_char_def)
  then show ?thesis by (simp add: to_lower_def)
qed

section \<open>Paths\<close>

type_synonym path = "string list"

datatype node = Dir | File string

type_synonym fs = "(path \<times> node) list"

definition parent_path :: "path \<Rightarrow> path" where "parent_path p = butlast p"

lemma parent_path_snoc [simp]: "parent_path (d @ [n]) = d"
  by (simp add: parent_path_def)

text \<open>\<open>stem()\<close> and \<open>extension()\<close> of the last component: the split is at the last dot that is not the
  first character.\<close>

definition fs_extension :: "string \<Rightarrow> string" where
  "fs_extension n = (if CHR ''.'' \<in> set (tl n)
     then CHR ''.'' # rev (takeWhile (\<lambda>c. c \<noteq> CHR ''.'') (rev n)) else [])"

definition fs_stem :: "string \<Rightarrow> string" where
  "fs_stem n = take (length n - length (fs_extension n)) n"

definition fs_exists :: "fs \<Rightarrow> path \<Rightarrow> bool" where
  "fs_exists f p = (p = [] \<or> map_of f p \<noteq> None)"

definition fs_is_directory :: "fs \<Rightarrow> path \<Rightarrow> bool" where
  "fs_is_directory f p = (p = [] \<or> map_of f p = Some Dir)"

definition fs_is_regular_file :: "fs \<Rightarrow> path \<Rightarrow> bool" where
  "fs_is_regular_file f p = (p \<noteq> [] \<and> (case map_of f p of Some (File _) \<Rightarrow> True | _ \<Rightarrow> False))"

definition fs_read :: "fs \<Rightarrow> path \<Rightarrow> string option" where
  "fs_read f p = (if p = [] then None else case map_of f p of Some (File c) \<Rightarrow> Some c | _ \<Rightarrow> None)"

text \<open>\<open>create_directories\<close>: every prefix becomes a directory; it throws at a file in the way.\<close>

fun make_dirs :: "path \<Rightarrow> path \<Rightarrow> fs \<Rightarrow> fs throws" where
  "make_dirs done [] f = Inr f"
| "make_dirs done (n # ns) f =
     (case map_of f (done @ [n]) of
        Some (File _) \<Rightarrow> Inl ''filesystem_error: create_directories''
      | Some Dir \<Rightarrow> make_dirs (done @ [n]) ns f
      | None \<Rightarrow> make_dirs (done @ [n]) ns (AList.update (done @ [n]) Dir f))"

definition fs_create_directories :: "path \<Rightarrow> fs \<Rightarrow> fs throws" where
  "fs_create_directories p f = make_dirs [] p f"

text \<open>Opening a file for writing and writing it: \<open>None\<close> when the stream is in a failed state.\<close>

definition fs_write :: "path \<Rightarrow> string \<Rightarrow> fs \<Rightarrow> fs option" where
  "fs_write p c f = (if fs_is_directory f (parent_path p) \<and> \<not> fs_is_directory f p
     then Some (AList.update p (File c) f) else None)"

definition fs_remove_all :: "path \<Rightarrow> fs \<Rightarrow> fs" where
  "fs_remove_all p f = filter (\<lambda>(q, _). \<not> prefix p q) f"

definition fs_remove :: "path \<Rightarrow> fs \<Rightarrow> fs throws" where
  "fs_remove p f = (if fs_is_directory f p \<and> (\<exists>(q, _) \<in> set f. strict_prefix p q)
     then Inl ''filesystem_error: remove: directory not empty'' else Inr (AList.delete p f))"

definition fs_copy_file :: "path \<Rightarrow> path \<Rightarrow> fs \<Rightarrow> fs throws" where
  "fs_copy_file src dst f = (case fs_read f src of
     None \<Rightarrow> Inl ''filesystem_error: copy''
   | Some c \<Rightarrow> (case fs_write dst c f of None \<Rightarrow> Inl ''filesystem_error: copy'' | Some f' \<Rightarrow> Inr f'))"

text \<open>\<open>rename\<close> of a directory: the target must not exist or be an empty directory.\<close>

definition fs_rename_dir :: "path \<Rightarrow> path \<Rightarrow> fs \<Rightarrow> fs throws" where
  "fs_rename_dir p q f =
     (if \<not> fs_is_directory f p \<or> \<not> fs_is_directory f (parent_path q) \<or> strict_prefix p q
       \<or> (fs_exists f q \<and> p \<noteq> q \<and> (\<not> fs_is_directory f q \<or> (\<exists>(r, _) \<in> set f. strict_prefix q r)))
      then Inl ''filesystem_error: rename''
      else if p = q then Inr f
      else Inr (map (\<lambda>(r, n). (if prefix p r then q @ drop (length p) r else r, n)) (AList.delete q f)))"

definition directory_entries :: "path \<Rightarrow> fs \<Rightarrow> path list" where
  "directory_entries d f = filter (\<lambda>p. p \<noteq> [] \<and> parent_path p = d) (map fst f)"

section \<open>file_utils.cc\<close>

text \<open>The bytes are read in full, and the result is built from \<open>c_str()\<close>: it ends at the first NUL.\<close>

definition FileToString :: "path \<Rightarrow> fs \<Rightarrow> string throws" where
  "FileToString p f = (if \<not> fs_exists f p then Inl ''FileToString: File does not exist!''
     else Inr (takeWhile (\<lambda>c. c \<noteq> CHR 0x00) (case fs_read f p of None \<Rightarrow> [] | Some c \<Rightarrow> c)))"

definition SaveToFile :: "path \<Rightarrow> string \<Rightarrow> bool \<Rightarrow> fs \<Rightarrow> bool \<times> fs" where
  "SaveToFile p contents overwrite_existing f =
     (if \<not> fs_is_directory f (parent_path p) then (False, f)
      else if fs_is_regular_file f p \<and> \<not> overwrite_existing then (True, f)
      else case fs_write p contents f of None \<Rightarrow> (False, f) | Some f' \<Rightarrow> (True, f'))"

definition SaveJsonToFile :: "('j \<Rightarrow> string) \<Rightarrow> path \<Rightarrow> 'j \<Rightarrow> bool \<Rightarrow> fs \<Rightarrow> bool \<times> fs" where
  "SaveJsonToFile dump p j overwrite_existing f =
     (if fs_extension (last p) \<noteq> ''.json'' then (False, f)
      else SaveToFile p (dump j) overwrite_existing f)"

text \<open>\<open>LoadJsonFromFile\<close> reports success and leaves its argument unchanged on failure.\<close>

definition LoadJsonFromFile :: "(string \<Rightarrow> 'j throws) \<Rightarrow> path \<Rightarrow> fs \<Rightarrow> 'j \<Rightarrow> bool \<times> 'j" where
  "LoadJsonFromFile parse p f j =
     (if \<not> fs_exists f p then (False, j)
      else if fs_extension (last p) \<noteq> ''.json'' then (False, j)
      else case parse (case fs_read f p of None \<Rightarrow> [] | Some c \<Rightarrow> c) of
          Inl _ \<Rightarrow> (False, j) | Inr j' \<Rightarrow> (True, j'))"

definition StringInFile :: "path \<Rightarrow> string \<Rightarrow> fs \<Rightarrow> bool throws" where
  "StringInFile p s f =
     (if \<not> fs_is_regular_file f p then Inl ''File does not exist''
      else case fs_read f p of
          None \<Rightarrow> Inl ''Failed to open file''
        | Some c \<Rightarrow> Inr (list_ex (\<lambda>line. string_includes line s) (split_string c (CHR 0x0A))))"

section \<open>Lemmas on files\<close>

lemma fs_read_update [simp]:
  "fs_read (AList.update p (File c) f) q = (if q = p \<and> p \<noteq> [] then Some c else fs_read f q)"
  by (auto simp: fs_read_def update_conv')

lemma fs_read_regular: "fs_is_regular_file f p \<longleftrightarrow> (\<exists>c. fs_read f p = Some c)"
  by (auto simp: fs_is_regular_file_def fs_read_def split: option.splits node.splits)

lemma fs_directory_update [simp]:
  "fs_is_directory (AList.update p (File c) f) q \<longleftrightarrow> fs_is_directory f q \<and> (q \<noteq> p \<or> q = [])"
  by (auto simp: fs_is_directory_def update_conv')

lemma SaveToFile_read:
  assumes "SaveToFile p c ow f = (True, f')"
  shows "fs_read f' p = (if fs_is_regular_file f p \<and> \<not> ow then fs_read f p else Some c)"
    and "q \<noteq> p \<Longrightarrow> map_of f' q = map_of f q"
  using assms
  by (auto simp: SaveToFile_def fs_write_def update_conv' fs_is_directory_def
      split: if_splits option.splits)

lemma SaveToFile_dirs:
  assumes "SaveToFile p c ow f = (b, f')" "fs_is_directory f q"
  shows "fs_is_directory f' q"
  using assms by (auto simp: SaveToFile_def fs_write_def split: if_splits option.splits)

lemma SaveToFile_overwrites:
  assumes "fs_is_directory f (parent_path p)" "\<not> fs_is_directory f p"
  shows "SaveToFile p c True f = (True, AList.update p (File c) f)"
  using assms by (simp add: SaveToFile_def fs_write_def)

lemma make_dirs_keeps:
  assumes "make_dirs d ns f = Inr f'" "map_of f q = Some x"
  shows "map_of f' q = Some x"
  using assms
proof (induction ns arbitrary: d f)
  case (Cons n ns)
  show ?case
  proof (cases "map_of f (d @ [n])")
    case None
    with Cons.prems have "q \<noteq> d @ [n]" by auto
    with None Cons show ?thesis by (auto simp: update_conv')
  next
    case (Some y)
    with Cons show ?thesis by (auto split: node.splits)
  qed
qed simp

lemma make_dirs_dir:
  assumes "make_dirs d ns f = Inr f'" "fs_is_directory f d" "prefix q ns"
  shows "fs_is_directory f' (d @ q)"
  using assms
proof (induction ns arbitrary: d f q)
  case (Cons n ns)
  obtain f1 where rec: "make_dirs (d @ [n]) ns f1 = Inr f'" and dn: "fs_is_directory f1 (d @ [n])"
    using Cons.prems(1)
    by (auto simp: fs_is_directory_def update_conv' split: option.splits node.splits)
  have d: "fs_is_directory f' d"
    using make_dirs_keeps [OF Cons.prems(1)] Cons.prems(2) by (auto simp: fs_is_directory_def)
  show ?case
  proof (cases q)
    case (Cons a q')
    then show ?thesis using Cons.IH [OF rec dn, of q'] Cons.prems(3) by simp
  qed (simp add: d)
qed simp

lemma make_dirs_other:
  assumes "make_dirs d ns f = Inr f'" "\<not> prefix q (d @ ns)"
  shows "map_of f' q = map_of f q"
  using assms
proof (induction ns arbitrary: d f)
  case (Cons n ns)
  have "q \<noteq> d @ [n]" using Cons.prems(2) by (auto simp: prefix_def)
  with Cons show ?case by (auto simp: update_conv' split: option.splits node.splits)
qed simp

lemma create_directories_other:
  "fs_create_directories p f = Inr f' \<Longrightarrow> \<not> prefix q p \<Longrightarrow> map_of f' q = map_of f q"
  using make_dirs_other [of "[]" p f f' q] by (simp add: fs_create_directories_def)

lemma create_directories_dir:
  assumes "fs_create_directories p f = Inr f'"
  shows "fs_is_directory f' p"
  using make_dirs_dir [of "[]" p f f' p] assms
  by (simp add: fs_create_directories_def fs_is_directory_def)

lemma remove_all_gone: "prefix p q \<Longrightarrow> p \<noteq> [] \<Longrightarrow> \<not> fs_exists (fs_remove_all p f) q"
  by (auto simp: fs_exists_def fs_remove_all_def map_of_eq_None_iff)

lemma remove_all_keeps: "\<not> prefix p q \<Longrightarrow> map_of (fs_remove_all p f) q = map_of f q"
  by (induction f) (auto simp: fs_remove_all_def)

lemma fs_remove_gone: "fs_remove p f = Inr f' \<Longrightarrow> p \<noteq> [] \<Longrightarrow> \<not> fs_exists f' p"
  by (auto simp: fs_remove_def fs_exists_def delete_conv split: if_splits)

section \<open>Transaction ids of logging.cc\<close>

text \<open>The random draws are the arguments; the five groups printed in hexadecimal are the result.\<close>

unbundle bit_operations_syntax

definition transaction_b :: "32 word \<Rightarrow> 32 word" where
  "transaction_b r = (r AND 0xFFFF0FFF) OR 0x00004000"

definition transaction_c :: "32 word \<Rightarrow> 32 word" where
  "transaction_c r = (r AND 0x3FFFFFFF) OR 0x80000000"

definition generate_transaction_groups ::
  "32 word \<Rightarrow> 32 word \<Rightarrow> 32 word \<Rightarrow> 32 word \<Rightarrow> 32 word \<Rightarrow> 32 word list" where
  "generate_transaction_groups ra rb rc rd re =
     [ra, (drop_bit 16 (transaction_b rb)) AND 0xFFFF, transaction_b rb AND 0xFFFF,
      (drop_bit 16 (transaction_c rc)) AND 0xFFFF, rd AND 0xFFFF, re]"

text \<open>A thread's id is generated on first use and then kept.\<close>

definition set_transaction_id :: "string \<Rightarrow> string \<Rightarrow> string" where
  "set_transaction_id generated i = (if i = [] then generated else i)"

definition get_transaction_id :: "string \<Rightarrow> string \<Rightarrow> string" where
  "get_transaction_id generated tl_id = (if tl_id = [] then generated else tl_id)"

lemma transaction_version_4:
  "drop_bit 12 (transaction_b r AND 0xFFFF) = 4"
  by (simp add: transaction_b_def drop_bit_and drop_bit_or bit.conj_disj_distrib2 and.assoc)

end
