(* ===== verification/Constraint_Adapters.thy ===== *)
theory Constraint_Adapters
  imports Prelude
begin

text \<open>
  \<open>motion/constraints_adapters.h\<close>: the constraints of a robot as they come from a file, and their \<open>Serialize\<close> functions.  An infinite bound
  of a joint is \<open>None\<close>, and all other numbers are finite.  Drake's archives turn what \<open>Serialize\<close> visits into a tree of YAML and back: the writer leaves out an optional without
  a value, and the reader takes a missing key for one, and refuses any other missing key and every key that is not visited.
\<close>

section \<open>Adapters\<close>

record penalty_params =
  mv_m :: real
  mv_gamma :: real
  mv_x0 :: real

definition MinimumValuePenaltyParams :: penalty_params where
  "MinimumValuePenaltyParams = \<lparr> mv_m = 1, mv_gamma = 1, mv_x0 = 1 / 100 \<rparr>"

record checker_adapter =
  cc_groups :: "string list option"
  cc_pairs :: "(string \<times> string) list option"
  cc_paddings :: "((string \<times> string) \<times> real) list option"
  cc_penalty :: "penalty_params option"

record position_adapter =
  pa_frame_A :: string
  pa_frame_B :: string
  pa_BQ :: "real list"
  pa_lower :: "real list"
  pa_upper :: "real list"
  pa_color :: "real list option"
  pa_penalty :: "penalty_params option"

record angle_adapter =
  aa_frame_A :: string
  aa_frame_B :: string
  aa_a :: "real list"
  aa_b :: "real list"
  aa_lower :: real
  aa_upper :: real
  aa_penalty :: "penalty_params option"

record joint_box_adapter =
  jb_entity :: string
  jb_lower :: "real option list"
  jb_upper :: "real option list"
  jb_penalty :: "penalty_params option"

record constraints_adapter =
  cn_plan_name :: string
  cn_position :: "position_adapter list option"
  cn_angle :: "angle_adapter list option"
  cn_checker :: "checker_adapter option"
  cn_joints :: "joint_box_adapter list option"

text \<open>The values of the members of a new \<open>ConstraintsAdapter\<close> and a new \<open>CollisionCheckerAdapter\<close>.\<close>

definition CollisionCheckerAdapter :: checker_adapter where
  "CollisionCheckerAdapter = \<lparr> cc_groups = None, cc_pairs = None, cc_paddings = None, cc_penalty = None \<rparr>"

definition ConstraintsAdapter :: constraints_adapter where
  "ConstraintsAdapter = \<lparr> cn_plan_name = [], cn_position = None, cn_angle = None, cn_checker = None, cn_joints = None \<rparr>"

section \<open>Writing\<close>

datatype yaml = YString string | YNumber "real option" | YList "yaml list" | YMap "(string \<times> yaml) list"

definition visit_optional :: "string \<Rightarrow> ('a \<Rightarrow> yaml) \<Rightarrow> 'a option \<Rightarrow> (string \<times> yaml) list" where
  "visit_optional k w x = (case x of None \<Rightarrow> [] | Some a \<Rightarrow> [(k, w a)])"

definition write_list :: "('a \<Rightarrow> yaml) \<Rightarrow> 'a list \<Rightarrow> yaml" where "write_list w xs = YList (map w xs)"

definition write_real :: "real \<Rightarrow> yaml" where "write_real x = YNumber (Some x)"

definition write_pair :: "string \<times> string \<Rightarrow> yaml" where "write_pair p = YList [YString (fst p), YString (snd p)]"

definition write_params :: "penalty_params \<Rightarrow> yaml" where
  "write_params p = YMap [(''m'', write_real (mv_m p)), (''gamma'', write_real (mv_gamma p)), (''x0'', write_real (mv_x0 p))]"

definition write_padding :: "(string \<times> string) \<times> real \<Rightarrow> yaml" where
  "write_padding p = YMap [(''pair'', write_pair (fst p)), (''distance'', write_real (snd p))]"

definition write_checker :: "checker_adapter \<Rightarrow> yaml" where
  "write_checker a = YMap (visit_optional ''filtered_groups'' (write_list YString) (cc_groups a) @ visit_optional ''filtered_pairs'' (write_list write_pair) (cc_pairs a)
     @ visit_optional ''paddings'' (write_list write_padding) (cc_paddings a) @ visit_optional ''minimum_value_penalty_params'' write_params (cc_penalty a))"

definition write_color :: "real list \<Rightarrow> yaml" where "write_color c = YMap [(''rgba'', write_list write_real c)]"

definition write_position :: "position_adapter \<Rightarrow> yaml" where
  "write_position a = YMap ([(''frame_A'', YString (pa_frame_A a)), (''frame_B'', YString (pa_frame_B a)), (''position_BQ'', write_list write_real (pa_BQ a)),
       (''position_AQ_lower'', write_list write_real (pa_lower a)), (''position_AQ_upper'', write_list write_real (pa_upper a))]
     @ visit_optional ''color'' write_color (pa_color a) @ visit_optional ''minimum_value_penalty_params'' write_params (pa_penalty a))"

definition write_angle :: "angle_adapter \<Rightarrow> yaml" where
  "write_angle a = YMap ([(''frame_A'', YString (aa_frame_A a)), (''frame_B'', YString (aa_frame_B a)), (''a_A'', write_list write_real (aa_a a)),
       (''b_B'', write_list write_real (aa_b a)), (''angle_lower'', write_real (aa_lower a)), (''angle_upper'', write_real (aa_upper a))]
     @ visit_optional ''minimum_value_penalty_params'' write_params (aa_penalty a))"

text \<open>The penalty parameters of a joint box are not visited.\<close>

definition write_joint_box :: "joint_box_adapter \<Rightarrow> yaml" where
  "write_joint_box a = YMap [(''multibody_entity_name'', YString (jb_entity a)), (''lower_bounds'', write_list YNumber (jb_lower a)),
     (''upper_bounds'', write_list YNumber (jb_upper a))]"

definition write_constraints :: "constraints_adapter \<Rightarrow> yaml" where
  "write_constraints c = YMap ([(''plan_name'', YString (cn_plan_name c))] @ visit_optional ''position_constraints'' (write_list write_position) (cn_position c)
     @ visit_optional ''angle_constraints'' (write_list write_angle) (cn_angle c) @ visit_optional ''collision_checker'' write_checker (cn_checker c)
     @ visit_optional ''joint_position_box_constraints'' (write_list write_joint_box) (cn_joints c))"

section \<open>Reading\<close>

definition read_map :: "string list \<Rightarrow> yaml \<Rightarrow> (string \<times> yaml) list throws" where
  "read_map ks y = (case y of YMap m \<Rightarrow> if list_all (\<lambda>(k, _). k \<in> set ks) m then Inr m else Inl ''YAML: unknown key'' | _ \<Rightarrow> Inl ''YAML: not a mapping'')"

definition read_key :: "string \<Rightarrow> (yaml \<Rightarrow> 'a throws) \<Rightarrow> (string \<times> yaml) list \<Rightarrow> 'a throws" where
  "read_key k rd m = (case map_of m k of None \<Rightarrow> Inl ''YAML: missing key'' | Some y \<Rightarrow> rd y)"

definition read_optional :: "string \<Rightarrow> (yaml \<Rightarrow> 'a throws) \<Rightarrow> (string \<times> yaml) list \<Rightarrow> 'a option throws" where
  "read_optional k rd m = (case map_of m k of None \<Rightarrow> Inr None | Some y \<Rightarrow> bindE (rd y) (\<lambda>a. Inr (Some a)))"

definition read_string :: "yaml \<Rightarrow> string throws" where "read_string y = (case y of YString s \<Rightarrow> Inr s | _ \<Rightarrow> Inl ''YAML: not a string'')"

definition read_bound :: "yaml \<Rightarrow> real option throws" where "read_bound y = (case y of YNumber x \<Rightarrow> Inr x | _ \<Rightarrow> Inl ''YAML: not a number'')"

definition read_real :: "yaml \<Rightarrow> real throws" where "read_real y = (case y of YNumber (Some x) \<Rightarrow> Inr x | _ \<Rightarrow> Inl ''YAML: not a number'')"

definition read_list :: "(yaml \<Rightarrow> 'a throws) \<Rightarrow> yaml \<Rightarrow> 'a list throws" where
  "read_list rd y = (case y of YList ys \<Rightarrow> mapE rd ys | _ \<Rightarrow> Inl ''YAML: not a sequence'')"

text \<open>A list of a fixed length.\<close>

definition read_vector :: "nat \<Rightarrow> (yaml \<Rightarrow> 'a throws) \<Rightarrow> yaml \<Rightarrow> 'a list throws" where
  "read_vector n rd y = bindE (read_list rd y) (\<lambda>xs. if length xs = n then Inr xs else Inl ''YAML: wrong size'')"

definition read_pair :: "yaml \<Rightarrow> (string \<times> string) throws" where
  "read_pair y = bindE (read_vector 2 read_string y) (\<lambda>xs. Inr (xs ! 0, xs ! 1))"

definition read_params :: "yaml \<Rightarrow> penalty_params throws" where
  "read_params y = bindE (read_map [''m'', ''gamma'', ''x0''] y) (\<lambda>m. bindE (read_key ''m'' read_real m) (\<lambda>a. bindE (read_key ''gamma'' read_real m) (\<lambda>b.
     bindE (read_key ''x0'' read_real m) (\<lambda>c. Inr \<lparr> mv_m = a, mv_gamma = b, mv_x0 = c \<rparr>))))"

definition read_padding :: "yaml \<Rightarrow> ((string \<times> string) \<times> real) throws" where
  "read_padding y = bindE (read_map [''pair'', ''distance''] y) (\<lambda>m. bindE (read_key ''pair'' read_pair m) (\<lambda>p.
     bindE (read_key ''distance'' read_real m) (\<lambda>d. Inr (p, d))))"

definition read_checker :: "yaml \<Rightarrow> checker_adapter throws" where
  "read_checker y = bindE (read_map [''filtered_groups'', ''filtered_pairs'', ''paddings'', ''minimum_value_penalty_params''] y) (\<lambda>m.
     bindE (read_optional ''filtered_groups'' (read_list read_string) m) (\<lambda>g. bindE (read_optional ''filtered_pairs'' (read_list read_pair) m) (\<lambda>p.
     bindE (read_optional ''paddings'' (read_list read_padding) m) (\<lambda>d. bindE (read_optional ''minimum_value_penalty_params'' read_params m) (\<lambda>v.
       Inr \<lparr> cc_groups = g, cc_pairs = p, cc_paddings = d, cc_penalty = v \<rparr>)))))"

definition read_color :: "yaml \<Rightarrow> real list throws" where
  "read_color y = bindE (read_map [''rgba''] y) (read_key ''rgba'' (read_vector 4 read_real))"

definition read_position :: "yaml \<Rightarrow> position_adapter throws" where
  "read_position y = bindE (read_map [''frame_A'', ''frame_B'', ''position_BQ'', ''position_AQ_lower'', ''position_AQ_upper'', ''color'', ''minimum_value_penalty_params''] y) (\<lambda>m.
     bindE (read_key ''frame_A'' read_string m) (\<lambda>fA. bindE (read_key ''frame_B'' read_string m) (\<lambda>fB.
     bindE (read_key ''position_BQ'' (read_vector 3 read_real) m) (\<lambda>x. bindE (read_key ''position_AQ_lower'' (read_vector 3 read_real) m) (\<lambda>l.
     bindE (read_key ''position_AQ_upper'' (read_vector 3 read_real) m) (\<lambda>u. bindE (read_optional ''color'' read_color m) (\<lambda>c.
     bindE (read_optional ''minimum_value_penalty_params'' read_params m) (\<lambda>v.
       Inr \<lparr> pa_frame_A = fA, pa_frame_B = fB, pa_BQ = x, pa_lower = l, pa_upper = u, pa_color = c, pa_penalty = v \<rparr>))))))))"

definition read_angle :: "yaml \<Rightarrow> angle_adapter throws" where
  "read_angle y = bindE (read_map [''frame_A'', ''frame_B'', ''a_A'', ''b_B'', ''angle_lower'', ''angle_upper'', ''minimum_value_penalty_params''] y) (\<lambda>m.
     bindE (read_key ''frame_A'' read_string m) (\<lambda>fA. bindE (read_key ''frame_B'' read_string m) (\<lambda>fB.
     bindE (read_key ''a_A'' (read_vector 3 read_real) m) (\<lambda>a. bindE (read_key ''b_B'' (read_vector 3 read_real) m) (\<lambda>b.
     bindE (read_key ''angle_lower'' read_real m) (\<lambda>l. bindE (read_key ''angle_upper'' read_real m) (\<lambda>u.
     bindE (read_optional ''minimum_value_penalty_params'' read_params m) (\<lambda>v.
       Inr \<lparr> aa_frame_A = fA, aa_frame_B = fB, aa_a = a, aa_b = b, aa_lower = l, aa_upper = u, aa_penalty = v \<rparr>))))))))"

definition read_joint_box :: "yaml \<Rightarrow> joint_box_adapter throws" where
  "read_joint_box y = bindE (read_map [''multibody_entity_name'', ''lower_bounds'', ''upper_bounds''] y) (\<lambda>m.
     bindE (read_key ''multibody_entity_name'' read_string m) (\<lambda>k. bindE (read_key ''lower_bounds'' (read_list read_bound) m) (\<lambda>l.
     bindE (read_key ''upper_bounds'' (read_list read_bound) m) (\<lambda>u. Inr \<lparr> jb_entity = k, jb_lower = l, jb_upper = u, jb_penalty = None \<rparr>))))"

definition read_constraints :: "yaml \<Rightarrow> constraints_adapter throws" where
  "read_constraints y = bindE (read_map [''plan_name'', ''position_constraints'', ''angle_constraints'', ''collision_checker'', ''joint_position_box_constraints''] y) (\<lambda>m.
     bindE (read_key ''plan_name'' read_string m) (\<lambda>n. bindE (read_optional ''position_constraints'' (read_list read_position) m) (\<lambda>p.
     bindE (read_optional ''angle_constraints'' (read_list read_angle) m) (\<lambda>a. bindE (read_optional ''collision_checker'' read_checker m) (\<lambda>c.
     bindE (read_optional ''joint_position_box_constraints'' (read_list read_joint_box) m) (\<lambda>j.
       Inr \<lparr> cn_plan_name = n, cn_position = p, cn_angle = a, cn_checker = c, cn_joints = j \<rparr>))))))"

section \<open>What is read is what was written\<close>

named_theorems reading

lemma read_list_write: "(\<And>x. x \<in> set xs \<Longrightarrow> rd (w x) = Inr (f x)) \<Longrightarrow> read_list rd (write_list w xs) = Inr (map f xs)"
  by (induction xs) (simp_all add: read_list_def write_list_def)

lemma read_list_write_id: "(\<And>x. x \<in> set xs \<Longrightarrow> rd (w x) = Inr x) \<Longrightarrow> read_list rd (write_list w xs) = Inr xs"
  using read_list_write [of xs rd w "\<lambda>x. x"] by simp

lemma read_scalars [reading]: "read_string (YString s) = Inr s" "read_real (write_real x) = Inr x" "read_bound (YNumber b) = Inr b"
  by (simp_all add: read_string_def read_real_def read_bound_def write_real_def)

lemma read_vector_write [reading]: "length xs = n \<Longrightarrow> read_vector n read_real (write_list write_real xs) = Inr xs"
  by (simp add: read_vector_def read_list_write_id reading)

lemma read_bounds [reading]: "read_list read_bound (write_list YNumber xs) = Inr xs" "read_list read_string (write_list YString ss) = Inr ss"
  by (simp_all add: read_list_write_id reading)

lemma read_pair_write [reading]: "read_pair (write_pair p) = Inr p"
  by (simp add: read_pair_def write_pair_def read_vector_def read_list_def reading)

lemma read_params_write [reading]: "read_params (write_params p) = Inr p"
  by (simp add: read_params_def write_params_def read_map_def read_key_def reading)

lemma read_padding_write [reading]: "read_padding (write_padding p) = Inr p"
  by (simp add: read_padding_def write_padding_def read_map_def read_key_def reading)

lemma read_color_write [reading]: "length c = 4 \<Longrightarrow> read_color (write_color c) = Inr c"
  by (simp add: read_color_def write_color_def read_map_def read_key_def reading)

text \<open>The fixed sizes of Eigen's types.\<close>

definition position_sizes :: "position_adapter \<Rightarrow> bool" where
  "position_sizes a \<longleftrightarrow> length (pa_BQ a) = 3 \<and> length (pa_lower a) = 3 \<and> length (pa_upper a) = 3 \<and> (\<forall>c. pa_color a = Some c \<longrightarrow> length c = 4)"

definition angle_sizes :: "angle_adapter \<Rightarrow> bool" where "angle_sizes a \<longleftrightarrow> length (aa_a a) = 3 \<and> length (aa_b a) = 3"

definition sizes_ok :: "constraints_adapter \<Rightarrow> bool" where
  "sizes_ok c \<longleftrightarrow> (\<forall>ps. cn_position c = Some ps \<longrightarrow> (\<forall>a \<in> set ps. position_sizes a)) \<and> (\<forall>as. cn_angle c = Some as \<longrightarrow> (\<forall>a \<in> set as. angle_sizes a))"

text \<open>What a file keeps of the constraints: all but the penalty parameters of the joint boxes.\<close>

definition without_penalty :: "joint_box_adapter \<Rightarrow> joint_box_adapter" where "without_penalty a = a\<lparr> jb_penalty := None \<rparr>"

definition as_saved :: "constraints_adapter \<Rightarrow> constraints_adapter" where
  "as_saved c = c\<lparr> cn_joints := map_option (map without_penalty) (cn_joints c) \<rparr>"

lemmas read_write_defs = read_map_def read_key_def read_optional_def visit_optional_def

lemma read_checker_write [reading]: "read_checker (write_checker a) = Inr a"
proof -
  have "read_list read_pair (write_list write_pair ps) = Inr ps" "read_list read_padding (write_list write_padding ds) = Inr ds" for ps ds
    by (simp_all add: read_list_write_id reading)
  then show ?thesis by (cases a; cases "cc_groups a"; cases "cc_pairs a"; cases "cc_paddings a"; cases "cc_penalty a")
    (simp_all add: read_checker_def write_checker_def read_write_defs reading)
qed

lemma read_position_write: "position_sizes a \<Longrightarrow> read_position (write_position a) = Inr a"
  by (cases a; cases "pa_color a"; cases "pa_penalty a") (simp_all add: read_position_def write_position_def read_write_defs reading position_sizes_def)

lemma read_angle_write: "angle_sizes a \<Longrightarrow> read_angle (write_angle a) = Inr a"
  by (cases a; cases "aa_penalty a") (simp_all add: read_angle_def write_angle_def read_write_defs reading angle_sizes_def)

lemma read_joint_box_write: "read_joint_box (write_joint_box a) = Inr (without_penalty a)"
  by (cases a) (simp add: read_joint_box_def write_joint_box_def read_write_defs reading without_penalty_def)

lemma read_constraints_write:
  assumes "sizes_ok c"
  shows "read_constraints (write_constraints c) = Inr (as_saved c)"
proof -
  have p: "read_list read_position (write_list write_position ps) = Inr ps" if "cn_position c = Some ps" for ps
    by (rule read_list_write_id, rule read_position_write) (use assms that in \<open>simp add: sizes_ok_def\<close>)
  have a: "read_list read_angle (write_list write_angle as) = Inr as" if "cn_angle c = Some as" for as
    by (rule read_list_write_id, rule read_angle_write) (use assms that in \<open>simp add: sizes_ok_def\<close>)
  have j: "read_list read_joint_box (write_list write_joint_box js) = Inr (map without_penalty js)" for js
    by (rule read_list_write, rule read_joint_box_write)
  show ?thesis by (cases "cn_position c"; cases "cn_angle c"; cases "cn_checker c"; cases "cn_joints c")
    (simp_all add: read_constraints_def write_constraints_def read_write_defs reading as_saved_def p a j)
qed

end
