(* ===== verification/Context_Store.thy ===== *)
theory Context_Store
  imports File_System Constraint_Adapters
begin

text \<open>
  \<open>service/utils/utils.cc\<close>: plan contexts on disk.  A context is a directory named by its 64-bit id,
  with the model directives, the constraints and the metadata in files of their own; the URDFs
  and meshes of the models go below the \<open>urdf\<close> directory of the system.

  The record \<open>codec\<close> stands for the third-party code: Drake's reader and writer of model
  directives \<open>'dmd\<close> and of YAML documents, nlohmann's JSON for the metadata objects
  (key/value lists with values \<open>'j\<close>), and the parser and hash of the robot.
  \<open>codec_ok\<close> is what the code relies on: reading what was written gives it back.  What of the
  constraints is written is in \<open>Constraint_Adapters\<close>.
\<close>

section \<open>Numbers in decimal\<close>

fun decimal :: "nat \<Rightarrow> string" where
  "decimal n = (if n < 10 then [char_of (48 + n)] else decimal (n div 10) @ [char_of (48 + n mod 10)])"

declare decimal.simps [simp del]

definition is_digit :: "char \<Rightarrow> bool" where
  "is_digit c = (48 \<le> (of_char c :: nat) \<and> (of_char c :: nat) \<le> 57)"

definition digits_value :: "string \<Rightarrow> nat" where
  "digits_value s = fold (\<lambda>c n. 10 * n + (of_char c - 48)) s 0"

definition is_space :: "char \<Rightarrow> bool" where
  "is_space c = (c \<in> {CHR '' '', CHR 0x09, CHR 0x0A, CHR 0x0B, CHR 0x0C, CHR 0x0D})"

text \<open>\<open>std::to_string\<close> and \<open>std::stoull\<close> (leading blanks, one sign, then as many digits as there
  are; no digit and overflow throw; a minus sign negates modulo \<open>2 ^ 64\<close>).\<close>

definition to_string :: "context_id \<Rightarrow> string" where
  "to_string w = decimal (unat w)"

definition stoull :: "string \<Rightarrow> context_id throws" where
  "stoull s = (let s1 = dropWhile is_space s;
      neg = (s1 \<noteq> [] \<and> hd s1 = CHR ''-'');
      s2 = (if s1 \<noteq> [] \<and> (hd s1 = CHR ''-'' \<or> hd s1 = CHR ''+'') then tl s1 else s1);
      ds = takeWhile is_digit s2
    in if ds = [] then Inl ''stoull: invalid_argument''
       else if digits_value ds \<ge> 2 ^ 64 then Inl ''stoull: out_of_range''
       else Inr (if neg then - word_of_nat (digits_value ds) else word_of_nat (digits_value ds)))"

lemma decimal_digits: "\<forall>c \<in> set (decimal n). is_digit c"
  by (induction n rule: decimal.induct) (subst decimal.simps, auto simp: is_digit_def)

lemma decimal_nonempty: "decimal n \<noteq> []"
  by (subst decimal.simps) simp

lemma digits_value_decimal: "digits_value (decimal n) = n"
proof (induction n rule: decimal.induct)
  case (1 n)
  show ?case
  proof (cases "n < 10")
    case True
    then show ?thesis by (subst decimal.simps) (simp add: digits_value_def)
  next
    case False
    have "digits_value (decimal n) = 10 * digits_value (decimal (n div 10)) + n mod 10"
      using False by (subst decimal.simps) (simp add: digits_value_def)
    with 1 False show ?thesis by simp
  qed
qed

lemma digit_no_space: "is_digit c \<Longrightarrow> \<not> is_space c \<and> c \<noteq> CHR ''-'' \<and> c \<noteq> CHR ''+'' \<and> c \<noteq> CHR ''.''"
  by (auto simp: is_digit_def is_space_def)

lemma stoull_to_string: "stoull (to_string w) = Inr w"
proof -
  let ?s = "to_string w"
  have d: "\<forall>c \<in> set ?s. is_digit c" and ne: "?s \<noteq> []"
    by (simp_all add: to_string_def decimal_digits decimal_nonempty)
  from ne d have h: "is_digit (hd ?s)" by simp
  have "dropWhile is_space ?s = ?s" using ne digit_no_space [OF h] by (cases ?s) auto
  moreover have tw: "takeWhile is_digit ?s = ?s" using d by (simp add: takeWhile_eq_all_conv)
  moreover have "digits_value ?s = unat w" by (simp add: to_string_def digits_value_decimal)
  moreover have "unat w < 2 ^ 64" using unsigned_less [of w] by simp
  ultimately show ?thesis using ne digit_no_space [OF h]
    by (simp add: stoull_def Let_def tw del: takeWhile_eq_all_conv)
qed

lemma to_string_inj: "to_string v = to_string w \<longleftrightarrow> v = w"
  by (metis stoull_to_string sum.inject(2))

lemma stem_to_string: "fs_stem (to_string w) = to_string w"
proof -
  have "CHR ''.'' \<notin> set (to_string w)"
    using decimal_digits digit_no_space by (auto simp: to_string_def)
  then have "CHR ''.'' \<notin> set (tl (to_string w))" by (metis list.set_sel(2) list.sel(2))
  then show ?thesis by (simp add: fs_stem_def fs_extension_def)
qed

section \<open>Data\<close>

text \<open>A parent path given by a client is relative (\<open>rel_path True\<close>) or absolute, uncanonicalised.\<close>

record mesh_file =
  mesh_name :: string
  mesh_extension :: string
  mesh_parent :: "bool \<times> path"
  mesh_collision :: bool
  mesh_content :: string

datatype model_format = URDF

record model_file =
  mf_name :: string
  mf_format :: model_format
  mf_package_name :: string
  mf_parent :: "bool \<times> path"
  mf_content :: string

record model =
  model_name :: string
  model_file :: model_file
  model_meshes :: "mesh_file list"

type_synonym 'j json_obj = "(string \<times> 'j) list"

record ('dmd, 'j) plan_context =
  pc_name :: string
  pc_directive :: 'dmd
  pc_models :: "model list"
  pc_constraints :: constraints_adapter
  pc_id :: "context_id option"
  pc_context_dir :: path
  pc_urdf_dir :: path
  pc_metadata :: "'j json_obj"

record ('dmd, 'j) codec =
  load_dmd :: "string \<Rightarrow> 'dmd throws"
  save_dmd :: "'dmd \<Rightarrow> string"
  yaml_parse :: "string \<Rightarrow> yaml throws"
  yaml_emit :: "yaml \<Rightarrow> string"
  json_parse :: "string \<Rightarrow> 'j json_obj throws"
  json_dump :: "'j json_obj \<Rightarrow> string"
  json_of_string :: "string \<Rightarrow> 'j"
  json_to_string :: "'j \<Rightarrow> string throws"
  add_model_names :: "'dmd \<Rightarrow> string list"
  empty_dmd :: 'dmd
  robot_hash :: "fs \<Rightarrow> path \<Rightarrow> 'dmd \<Rightarrow> constraints_adapter \<Rightarrow> context_id throws"

definition codec_ok :: "('dmd, 'j) codec \<Rightarrow> bool" where
  "codec_ok C \<longleftrightarrow> (\<forall>d. load_dmd C (save_dmd C d) = Inr d)
     \<and> (\<forall>j. json_parse C (json_dump C j) = Inr j) \<and> (\<forall>s. json_to_string C (json_of_string C s) = Inr s)"

text \<open>\<open>LoadYamlFile<ConstraintsAdapter>\<close> and \<open>SaveYamlFile\<close>, on what is in the file.\<close>

definition load_ca :: "('dmd, 'j) codec \<Rightarrow> string \<Rightarrow> constraints_adapter throws" where "load_ca C s = bindE (yaml_parse C s) read_constraints"

definition save_ca :: "('dmd, 'j) codec \<Rightarrow> constraints_adapter \<Rightarrow> string" where "save_ca C c = yaml_emit C (write_constraints c)"

text \<open>What the code relies on for a document: that YAML reads it as it was written.\<close>

definition yaml_reads_back :: "('dmd, 'j) codec \<Rightarrow> yaml \<Rightarrow> bool" where "yaml_reads_back C y \<longleftrightarrow> yaml_parse C (yaml_emit C y) = Inr y"

abbreviation CONTEXT_DMD_FILE :: string where "CONTEXT_DMD_FILE \<equiv> ''dmd.yaml''"
abbreviation CONTEXT_CONSTRAINTS_FILE :: string where "CONTEXT_CONSTRAINTS_FILE \<equiv> ''constraints.yaml''"
abbreviation CONTEXT_METADATA_FILE :: string where "CONTEXT_METADATA_FILE \<equiv> ''metadata.json''"
abbreviation IRIS_REGIONS_FILE :: string where "IRIS_REGIONS_FILE \<equiv> ''iris_regions.yaml''"
abbreviation THUNDER_ROADMAP_FILE :: string where "THUNDER_ROADMAP_FILE \<equiv> ''thunder_prm.dat''"

text \<open>The constructor \<open>PlanContext(uint64_t)\<close>.\<close>

definition context_of_id :: "('dmd, 'j) codec \<Rightarrow> context_id \<Rightarrow> ('dmd, 'j) plan_context" where
  "context_of_id C i = \<lparr> pc_name = [], pc_directive = empty_dmd C, pc_models = [],
     pc_constraints = ConstraintsAdapter, pc_id = Some i, pc_context_dir = [], pc_urdf_dir = [], pc_metadata = [] \<rparr>"

section \<open>LoadContext and SaveContext\<close>

definition load_yaml :: "(string \<Rightarrow> 'a throws) \<Rightarrow> path \<Rightarrow> fs \<Rightarrow> 'a throws" where
  "load_yaml load p f = (case fs_read f p of
     None \<Rightarrow> Inl ''Failed to open YAML file'' | Some c \<Rightarrow> load c)"

definition save_yaml :: "path \<Rightarrow> string \<Rightarrow> fs \<Rightarrow> fs throws" where
  "save_yaml p c f = (case fs_write p c f of
     None \<Rightarrow> Inl ''Failed to open YAML file for writing'' | Some f' \<Rightarrow> Inr f')"

definition default_metadata :: "('dmd, 'j) codec \<Rightarrow> context_id \<Rightarrow> 'j json_obj" where
  "default_metadata C i = [(''scene_name'', json_of_string C (''unnamed_context-'' @ to_string i))]"

text \<open>What is read from the metadata file: nothing if it is missing or does not parse.\<close>

definition read_metadata :: "('dmd, 'j) codec \<Rightarrow> path \<Rightarrow> fs \<Rightarrow> 'j json_obj" where
  "read_metadata C p f = (if fs_is_regular_file f p
     then (case json_parse C (the (fs_read f p)) of Inl _ \<Rightarrow> [] | Inr j \<Rightarrow> j) else [])"

text \<open>The result is the \<open>bool\<close>, or the exception that leaves the function: a directory name that is
  no number, or metadata whose \<open>scene_name\<close> is missing or not a string (the members assigned
  before it are then set).\<close>

definition LoadContext ::
  "('dmd, 'j) codec \<Rightarrow> path option \<Rightarrow> path \<Rightarrow> ('dmd, 'j) plan_context \<Rightarrow> fs
   \<Rightarrow> bool throws \<times> ('dmd, 'j) plan_context \<times> fs" where
  "LoadContext C urdf_base_dir base ctx f =
     (if pc_id ctx = None \<and> pc_context_dir ctx = [] then (Inr False, ctx, f)
      else let dir = (case pc_id ctx of Some i \<Rightarrow> base @ [to_string i] | None \<Rightarrow> pc_context_dir ctx)
      in case (case pc_id ctx of Some i \<Rightarrow> Inr i | None \<Rightarrow> stoull (fs_stem (last (pc_context_dir ctx)))) of
        Inl e \<Rightarrow> (Inl e, ctx, f)
      | Inr i \<Rightarrow>
        (case bindE (load_yaml (load_dmd C) (dir @ [CONTEXT_DMD_FILE]) f) (\<lambda>d.
              bindE (load_yaml (load_ca C) (dir @ [CONTEXT_CONSTRAINTS_FILE]) f) (\<lambda>c. Inr (d, c))) of
          Inl _ \<Rightarrow> (Inr False, ctx, f)
        | Inr (d, c) \<Rightarrow>
          (let mfile = dir @ [CONTEXT_METADATA_FILE];
               m0 = read_metadata C mfile f;
               (m, f1) = (if m0 = [] then (default_metadata C i,
                            snd (SaveJsonToFile (json_dump C) mfile (default_metadata C i) True f))
                          else (m0, f));
               ctx1 = ctx\<lparr> pc_urdf_dir := (case urdf_base_dir of Some u \<Rightarrow> u
                              | None \<Rightarrow> parent_path (parent_path dir) @ [''urdf'']),
                           pc_context_dir := dir, pc_id := Some i, pc_directive := d,
                           pc_constraints := c, pc_metadata := m \<rparr>
           in case map_of m ''scene_name'' of
                None \<Rightarrow> (Inl ''json type_error: type must be string, but is null'', ctx1, f1)
              | Some j \<Rightarrow> (case json_to_string C j of
                    Inl e \<Rightarrow> (Inl e, ctx1, f1)
                  | Inr n \<Rightarrow> (Inr True, ctx1\<lparr> pc_name := n \<rparr>, f1)))))"

text \<open>The loop over the new metadata: an existing creation date stays.\<close>

definition merge_metadata :: "'j json_obj \<Rightarrow> 'j json_obj \<Rightarrow> 'j json_obj" where
  "merge_metadata new old = fold (\<lambda>(k, v) m.
     if k = ''creation_date'' \<and> k \<in> fst ` set m then m else AList.update k v m) new old"

definition save_metadata :: "('dmd, 'j) codec \<Rightarrow> path \<Rightarrow> 'j json_obj \<Rightarrow> fs \<Rightarrow> fs" where
  "save_metadata C mfile new f =
     (if new = [] then f
      else snd (SaveJsonToFile (json_dump C) mfile
        (merge_metadata new
          (if fs_is_regular_file f mfile then snd (LoadJsonFromFile (json_parse C) mfile f []) else [])) True f))"

definition SaveContext ::
  "('dmd, 'j) codec \<Rightarrow> path \<Rightarrow> ('dmd, 'j) plan_context \<Rightarrow> fs
   \<Rightarrow> bool \<times> ('dmd, 'j) plan_context \<times> fs" where
  "SaveContext C base ctx f = (case pc_id ctx of
     None \<Rightarrow> (False, ctx, f)
   | Some i \<Rightarrow>
     (let dir = base @ [to_string i] in
      case (if fs_exists f dir then Inr f else fs_create_directories dir f) of
        Inl _ \<Rightarrow> (False, ctx, f)
      | Inr f1 \<Rightarrow> (case save_yaml (dir @ [CONTEXT_DMD_FILE]) (save_dmd C (pc_directive ctx)) f1 of
          Inl _ \<Rightarrow> (False, ctx, f1)
        | Inr f2 \<Rightarrow> (case save_yaml (dir @ [CONTEXT_CONSTRAINTS_FILE]) (save_ca C (pc_constraints ctx)) f2 of
            Inl _ \<Rightarrow> (False, ctx, f2)
          | Inr f3 \<Rightarrow> (True, ctx\<lparr> pc_context_dir := dir \<rparr>,
              save_metadata C (dir @ [CONTEXT_METADATA_FILE]) (pc_metadata ctx) f3)))))"

section \<open>Models on disk\<close>

text \<open>\<open>weakly_canonical(base / parent / name)\<close>: an absolute parent replaces the base, dots are
  resolved.\<close>

fun canon :: "path \<Rightarrow> path \<Rightarrow> path" where
  "canon acc [] = acc"
| "canon acc (n # ns) =
     (if n = ''.'' \<or> n = [] then canon acc ns
      else if n = ''..'' then canon (butlast acc) ns
      else canon (acc @ [n]) ns)"

definition model_path :: "path \<Rightarrow> bool \<times> path \<Rightarrow> string \<Rightarrow> path" where
  "model_path base parent n = canon [] ((if fst parent then base @ snd parent else snd parent) @ [n])"

definition SaveModelFile :: "model_file \<Rightarrow> path \<Rightarrow> bool \<Rightarrow> fs \<Rightarrow> bool throws \<times> fs" where
  "SaveModelFile mf base overwrite f =
     (let p = model_path base (mf_parent mf) (mf_name mf @ (case mf_format mf of URDF \<Rightarrow> ''.urdf''))
      in case fs_create_directories (parent_path p) f of
           Inl e \<Rightarrow> (Inl e, f)
         | Inr f1 \<Rightarrow> (case SaveToFile p (mf_content mf) overwrite f1 of (b, f2) \<Rightarrow> (Inr b, f2)))"

definition SaveMeshFile :: "mesh_file \<Rightarrow> path \<Rightarrow> bool \<Rightarrow> fs \<Rightarrow> bool throws \<times> fs" where
  "SaveMeshFile m base overwrite f =
     (let p = model_path base (mesh_parent m) (mesh_name m @ mesh_extension m)
      in case fs_create_directories (parent_path p) f of
           Inl e \<Rightarrow> (Inl e, f)
         | Inr f1 \<Rightarrow> (case SaveToFile p (mesh_content m) overwrite f1 of (b, f2) \<Rightarrow> (Inr b, f2)))"

definition package_xml :: "string \<Rightarrow> string" where
  "package_xml n = ''<?xml version=\"1.0\"?>'' @ [CHR 0x0A] @ ''<package format=\"2\">'' @ [CHR 0x0A]
     @ ''  <name>'' @ n @ ''</name>'' @ [CHR 0x0A] @ ''  <version>0.0.1</version>'' @ [CHR 0x0A]
     @ ''</package>'' @ [CHR 0x0A]"

definition SavePackageToXml :: "string \<Rightarrow> path \<Rightarrow> bool \<Rightarrow> fs \<Rightarrow> bool \<times> fs" where
  "SavePackageToXml n base overwrite f =
     SaveToFile (canon [] (base @ [''package.xml''])) (package_xml n) overwrite f"

section \<open>Registration\<close>

text \<open>The early returns, then the three checks of \<open>ContextIsValid\<close>; the sets are sets of names.\<close>

definition ContextIsValid :: "('dmd, 'j) codec \<Rightarrow> ('dmd, 'j) plan_context \<Rightarrow> bool" where
  "ContextIsValid C ctx =
     (if pc_models ctx = [] then False
      else if list_ex (\<lambda>m. mf_content (model_file m) = []) (pc_models ctx) then False
      else card (set (map (\<lambda>m. mf_package_name (model_file m)) (pc_models ctx))) = 1
         \<and> set (add_model_names C (pc_directive ctx)) = set (map model_name (pc_models ctx))
         \<and> cn_checker (pc_constraints ctx) \<noteq> None)"

fun save_meshes :: "mesh_file list \<Rightarrow> path \<Rightarrow> fs \<Rightarrow> bool throws \<times> fs" where
  "save_meshes [] base f = (Inr True, f)"
| "save_meshes (m # ms) base f = (case SaveMeshFile m base True f of
     (Inr True, f1) \<Rightarrow> save_meshes ms base f1 | r \<Rightarrow> r)"

fun save_models :: "model list \<Rightarrow> path \<Rightarrow> fs \<Rightarrow> bool throws \<times> fs" where
  "save_models [] base f = (Inr True, f)"
| "save_models (m # ms) base f = (case SaveModelFile (model_file m) base True f of
     (Inr True, f1) \<Rightarrow> (case save_meshes (model_meshes m) base f1 of
         (Inr True, f2) \<Rightarrow> save_models ms base f2 | r \<Rightarrow> r)
   | r \<Rightarrow> r)"

definition utils_RegisterPlanContext ::
  "('dmd, 'j) codec \<Rightarrow> ('dmd, 'j) plan_context \<Rightarrow> path \<Rightarrow> fs
   \<Rightarrow> context_id option throws \<times> fs" where
  "utils_RegisterPlanContext C ctx urdf_dir f =
     (if \<not> ContextIsValid C ctx then (Inr None, f)
      else case (if fs_exists f urdf_dir then Inr f else fs_create_directories urdf_dir f) of
        Inl e \<Rightarrow> (Inl e, f)
      | Inr f1 \<Rightarrow>
        (case SavePackageToXml (mf_package_name (model_file (hd (pc_models ctx)))) urdf_dir True f1 of
          (False, f2) \<Rightarrow> (Inr None, f2)
        | (True, f2) \<Rightarrow> (case save_models (pc_models ctx) urdf_dir f2 of
            (Inr True, f3) \<Rightarrow>
              (case robot_hash C f3 (urdf_dir @ [''package.xml'']) (pc_directive ctx) (pc_constraints ctx) of
                 Inl _ \<Rightarrow> (Inr None, f3) | Inr i \<Rightarrow> (Inr (Some i), f3))
          | (_, f3) \<Rightarrow> (Inr None, f3))))"

section \<open>Lemmas\<close>

lemma codec_okD:
  assumes "codec_ok C"
  shows "load_dmd C (save_dmd C d) = Inr d"
    "json_parse C (json_dump C j) = Inr j" "json_to_string C (json_of_string C s) = Inr s"
  using assms by (auto simp: codec_ok_def)

lemma metadata_extension [simp]: "fs_extension CONTEXT_METADATA_FILE = ''.json''"
  by (simp add: fs_extension_def)

lemma LoadJson_read_metadata:
  assumes "fs_is_regular_file f (d @ [CONTEXT_METADATA_FILE])"
  shows "snd (LoadJsonFromFile (json_parse C) (d @ [CONTEXT_METADATA_FILE]) f [])
    = read_metadata C (d @ [CONTEXT_METADATA_FILE]) f"
  using assms
  by (auto simp: LoadJsonFromFile_def read_metadata_def metadata_extension fs_read_def
      fs_is_regular_file_def fs_exists_def split: option.splits node.splits sum.splits)

lemma merge_metadata_lookup:
  assumes "distinct (map fst new)"
  shows "map_of (merge_metadata new old) k =
    (if k = ''creation_date'' \<and> map_of old k \<noteq> None then map_of old k
     else case map_of new k of None \<Rightarrow> map_of old k | Some v \<Rightarrow> Some v)"
  using assms
proof (induction new arbitrary: old)
  case Nil
  then show ?case by (simp add: merge_metadata_def)
next
  case (Cons p new)
  obtain k1 v1 where p: "p = (k1, v1)" by force
  let ?old = "if k1 = ''creation_date'' \<and> k1 \<in> fst ` set old then old else AList.update k1 v1 old"
  have step: "merge_metadata ((k1, v1) # new) old = merge_metadata new ?old"
    by (simp add: merge_metadata_def)
  have k1: "map_of new k1 = None" using Cons.prems p by (simp add: map_of_eq_None_iff)
  have dom: "(k \<in> fst ` set old) = (map_of old k \<noteq> None)" for k by (simp add: map_of_eq_None_iff)
  have "map_of (merge_metadata new ?old) k =
    (if k = ''creation_date'' \<and> map_of ?old k \<noteq> None then map_of ?old k
     else case map_of new k of None \<Rightarrow> map_of ?old k | Some v \<Rightarrow> Some v)"
    using Cons.IH [of ?old] Cons.prems by (simp add: p)
  then show ?case unfolding p step
    by (cases "k = k1") (auto simp: k1 dom update_conv' split: option.splits)
qed

lemma save_yaml_fields:
  assumes "save_yaml p c f = Inr f'"
  shows "f' = AList.update p (File c) f" "fs_is_directory f (parent_path p)" "\<not> fs_is_directory f p"
  using assms by (auto simp: save_yaml_def fs_write_def split: if_splits)

text \<open>What a successful \<open>SaveContext\<close> leaves on disk.\<close>

lemma load_saved_constraints:
  "yaml_reads_back C (write_constraints c) \<Longrightarrow> sizes_ok c \<Longrightarrow> load_ca C (save_ca C c) = Inr (as_saved c)"
  by (simp add: load_ca_def save_ca_def yaml_reads_back_def read_constraints_write)

lemma SaveContext_disk:
  assumes "codec_ok C" "pc_id ctx = Some i" "SaveContext C base ctx f = (True, ctx1, f1)"
    and "\<not> fs_is_directory f (base @ [to_string i, CONTEXT_METADATA_FILE])"
  defines "dir \<equiv> base @ [to_string i]"
  shows "load_yaml (load_dmd C) (dir @ [CONTEXT_DMD_FILE]) f1 = Inr (pc_directive ctx)"
    and "load_yaml (load_ca C) (dir @ [CONTEXT_CONSTRAINTS_FILE]) f1 = load_ca C (save_ca C (pc_constraints ctx))"
    and "read_metadata C (dir @ [CONTEXT_METADATA_FILE]) f1 =
      (if pc_metadata ctx = [] then read_metadata C (dir @ [CONTEXT_METADATA_FILE]) f
       else merge_metadata (pc_metadata ctx) (read_metadata C (dir @ [CONTEXT_METADATA_FILE]) f))"
proof -
  let ?md = "dir @ [CONTEXT_METADATA_FILE]"
  obtain f0 where f0: "(if fs_exists f dir then Inr f else fs_create_directories dir f) = Inr f0"
    and f0': "SaveContext C base ctx f = (case save_yaml (dir @ [CONTEXT_DMD_FILE]) (save_dmd C (pc_directive ctx)) f0 of
          Inl _ \<Rightarrow> (False, ctx, f0)
        | Inr f2 \<Rightarrow> (case save_yaml (dir @ [CONTEXT_CONSTRAINTS_FILE]) (save_ca C (pc_constraints ctx)) f2 of
            Inl _ \<Rightarrow> (False, ctx, f2)
          | Inr f3 \<Rightarrow> (True, ctx\<lparr> pc_context_dir := dir \<rparr>, save_metadata C ?md (pc_metadata ctx) f3)))"
    using assms(2,3) unfolding dir_def by (auto simp: SaveContext_def Let_def split: sum.splits)
  obtain f2 f3 where y: "save_yaml (dir @ [CONTEXT_DMD_FILE]) (save_dmd C (pc_directive ctx)) f0 = Inr f2"
      "save_yaml (dir @ [CONTEXT_CONSTRAINTS_FILE]) (save_ca C (pc_constraints ctx)) f2 = Inr f3"
    and f1: "f1 = save_metadata C ?md (pc_metadata ctx) f3"
    using assms(3) f0' by (auto split: sum.splits)
  note f2 = save_yaml_fields [OF y(1)] and f3 = save_yaml_fields [OF y(2)]
  have r3: "fs_read f3 (dir @ [CONTEXT_DMD_FILE]) = Some (save_dmd C (pc_directive ctx))"
      "fs_read f3 (dir @ [CONTEXT_CONSTRAINTS_FILE]) = Some (save_ca C (pc_constraints ctx))"
    using f2(1) f3(1) by simp_all
  have "map_of f0 ?md = map_of f ?md"
    using f0 create_directories_other [of dir f f0 ?md] by (auto split: if_splits)
  then have same: "map_of f3 ?md = map_of f ?md"
    using f2(1) f3(1) by (simp add: update_conv')
  then have rm: "read_metadata C ?md f3 = read_metadata C ?md f"
    and nd: "\<not> fs_is_directory f3 ?md"
    using assms(4) by (simp_all add: read_metadata_def fs_is_regular_file_def fs_read_def fs_is_directory_def dir_def)
  have pd: "fs_is_directory f3 (parent_path ?md)"
    using f2 f3 by simp
  let ?m = "merge_metadata (pc_metadata ctx) (read_metadata C ?md f)"
  have "(if fs_is_regular_file f3 ?md then snd (LoadJsonFromFile (json_parse C) ?md f3 []) else [])
      = read_metadata C ?md f"
    using LoadJson_read_metadata [of f3 dir C] rm by (auto simp: read_metadata_def)
  then have f1': "f1 = (if pc_metadata ctx = [] then f3 else AList.update ?md (File (json_dump C ?m)) f3)"
    by (auto simp: f1 save_metadata_def SaveJsonToFile_def metadata_extension SaveToFile_overwrites [OF pd nd])
  then have r1: "fs_read f1 (dir @ [n]) = (if n = CONTEXT_METADATA_FILE \<and> pc_metadata ctx \<noteq> []
      then Some (json_dump C ?m) else fs_read f3 (dir @ [n]))" for n by auto
  show "load_yaml (load_dmd C) (dir @ [CONTEXT_DMD_FILE]) f1 = Inr (pc_directive ctx)"
    "load_yaml (load_ca C) (dir @ [CONTEXT_CONSTRAINTS_FILE]) f1 = load_ca C (save_ca C (pc_constraints ctx))"
    using r1 r3 by (simp_all add: load_yaml_def codec_okD [OF assms(1)])
  show "read_metadata C ?md f1 = (if pc_metadata ctx = [] then read_metadata C ?md f else ?m)"
  proof (cases "pc_metadata ctx = []")
    case True
    then show ?thesis using f1' rm by simp
  next
    case False
    then have "fs_read f1 ?md = Some (json_dump C ?m)" using r1 by simp
    then have "read_metadata C ?md f1 = ?m"
      using fs_read_regular [of f1 ?md] by (simp add: read_metadata_def codec_okD [OF assms(1)])
    with False show ?thesis by simp
  qed
qed

lemma LoadContext_by_id:
  assumes "pc_id ctx = Some i" "dir = base @ [to_string i]"
    and "load_yaml (load_dmd C) (dir @ [CONTEXT_DMD_FILE]) f = Inr d"
    and "load_yaml (load_ca C) (dir @ [CONTEXT_CONSTRAINTS_FILE]) f = Inr c"
    and "read_metadata C (dir @ [CONTEXT_METADATA_FILE]) f = m" "m \<noteq> []"
  shows "\<exists>ctx'. LoadContext C u base ctx f =
      ((case map_of m ''scene_name'' of
          None \<Rightarrow> Inl ''json type_error: type must be string, but is null''
        | Some j \<Rightarrow> (case json_to_string C j of Inl e \<Rightarrow> Inl e | Inr n \<Rightarrow> Inr True)), ctx', f)
    \<and> pc_id ctx' = Some i \<and> pc_context_dir ctx' = dir \<and> pc_directive ctx' = d
    \<and> pc_constraints ctx' = c \<and> pc_metadata ctx' = m
    \<and> (\<forall>j n. map_of m ''scene_name'' = Some j \<and> json_to_string C j = Inr n \<longrightarrow> pc_name ctx' = n)"
  using assms by (auto simp: LoadContext_def Let_def split: option.splits sum.splits)

section \<open>Properties\<close>

text \<open>C12: A saved plan context is loaded back: if \<open>SaveContext\<close> succeeds and the metadata on disk then names
  the scene, \<open>LoadContext\<close> by id succeeds, changes nothing on disk, and returns the directives that were saved, the merged
  metadata, the scene name as the context's name, and all of the constraints but the penalty parameters of the joint boxes: their
  \<open>Serialize\<close> does not write them, so \<open>as_saved\<close>, which clears them, is what comes back.  Drake is relied on to read the directives and
  the YAML document of the constraints as it wrote them, and nlohmann the metadata.\<close>
theorem context_save_load_roundtrip:
  assumes "codec_ok C" "pc_id ctx = Some i" "pc_metadata ctx \<noteq> []"
    and "SaveContext C base ctx f = (True, ctx1, f1)"
    and "\<not> fs_is_directory f (base @ [to_string i, CONTEXT_METADATA_FILE])"
    and "m = merge_metadata (pc_metadata ctx)
            (read_metadata C (base @ [to_string i, CONTEXT_METADATA_FILE]) f)"
    and "map_of m ''scene_name'' = Some j" "json_to_string C j = Inr n" "pc_id ctx0 = Some i"
    and "yaml_reads_back C (write_constraints (pc_constraints ctx))" "sizes_ok (pc_constraints ctx)"
  shows "\<exists>ctx2. LoadContext C u base ctx0 f1 = (Inr True, ctx2, f1)
    \<and> pc_directive ctx2 = pc_directive ctx \<and> pc_constraints ctx2 = as_saved (pc_constraints ctx)
    \<and> pc_metadata ctx2 = m \<and> pc_name ctx2 = n \<and> pc_id ctx2 = Some i
    \<and> pc_context_dir ctx2 = pc_context_dir ctx1"
proof -
  note d = SaveContext_disk [OF assms(1,2,4,5)]
  have "read_metadata C ((base @ [to_string i]) @ [CONTEXT_METADATA_FILE]) f1 = m"
    using d(3) assms(3,6) by simp
  moreover have "m \<noteq> []" using assms(7) by auto
  moreover have "pc_context_dir ctx1 = base @ [to_string i]"
    using assms(2,4) by (auto simp: SaveContext_def Let_def split: sum.splits)
  ultimately show ?thesis
    using LoadContext_by_id [OF assms(9) refl d(1) trans [OF d(2) load_saved_constraints [OF assms(10,11)]]] assms(7,8) by fastforce
qed

text \<open>Saving a context again updates its metadata key by key: the creation date on disk is
  never overwritten, every other key of the new metadata takes its new value, and keys that
  are only on disk stay.\<close>
theorem context_metadata_merge:
  assumes "codec_ok C" "pc_id ctx = Some i" "pc_metadata ctx \<noteq> []" "distinct (map fst (pc_metadata ctx))"
    and "SaveContext C base ctx f = (True, ctx1, f1)"
    and "\<not> fs_is_directory f (base @ [to_string i, CONTEXT_METADATA_FILE])"
    and "old = map_of (read_metadata C (base @ [to_string i, CONTEXT_METADATA_FILE]) f)"
    and "new = map_of (read_metadata C (base @ [to_string i, CONTEXT_METADATA_FILE]) f1)"
  shows "(\<forall>v. old ''creation_date'' = Some v \<longrightarrow> new ''creation_date'' = Some v)
    \<and> (\<forall>k v. map_of (pc_metadata ctx) k = Some v \<and> (k \<noteq> ''creation_date'' \<or> old k = None)
         \<longrightarrow> new k = Some v)
    \<and> (\<forall>k. map_of (pc_metadata ctx) k = None \<longrightarrow> new k = old k)"
  using SaveContext_disk(3) [OF assms(1,2,5,6)] assms(3,7,8)
  by (auto simp: merge_metadata_lookup [OF assms(4)])

text \<open>A context whose metadata do not name the scene can be saved but not loaded: \<open>SaveContext\<close>
  succeeds, and the next \<open>LoadContext\<close> of its id leaves with a JSON type error.  (The scan of
  the available contexts does not catch it.)\<close>
theorem context_without_scene_name_unloadable:
  assumes "codec_ok C" "pc_id ctx = Some i" "pc_metadata ctx = [(k, v)]" "k \<noteq> ''scene_name''"
    and "SaveContext C base ctx f = (True, ctx1, f1)"
    and "\<not> fs_exists f (base @ [to_string i, CONTEXT_METADATA_FILE])"
    and "pc_id ctx0 = Some i" "yaml_reads_back C (write_constraints (pc_constraints ctx))" "sizes_ok (pc_constraints ctx)"
  shows "\<exists>e. fst (LoadContext C u base ctx0 f1) = Inl e"
proof -
  have nd: "\<not> fs_is_directory f (base @ [to_string i, CONTEXT_METADATA_FILE])"
    and old: "read_metadata C (base @ [to_string i, CONTEXT_METADATA_FILE]) f = []"
    using assms(6) by (auto simp: fs_exists_def fs_is_directory_def read_metadata_def fs_is_regular_file_def)
  note d = SaveContext_disk [OF assms(1,2,5) nd]
  have "read_metadata C ((base @ [to_string i]) @ [CONTEXT_METADATA_FILE]) f1 = [(k, v)]"
    using d(3) old assms(3) by (simp add: merge_metadata_def)
  from LoadContext_by_id [OF assms(7) refl d(1) trans [OF d(2) load_saved_constraints [OF assms(8,9)]] this, of u] assms(4) show ?thesis by auto
qed


section \<open>Witnesses\<close>

text \<open>A small instance of the third-party code: directives are strings written as they are, one
  YAML document has a name, metadata values are strings, and a metadata object is written as its
  keys and values with a length in front of each.\<close>

fun sample_dump :: "string json_obj \<Rightarrow> string" where
  "sample_dump [] = []"
| "sample_dump ((k, v) # m) = replicate (length k) CHR 0x01 @ [CHR 0x00] @ k
     @ replicate (length v) CHR 0x01 @ [CHR 0x00] @ v @ sample_dump m"

definition sample_take :: "string \<Rightarrow> string \<times> string" where
  "sample_take s = (let n = length (takeWhile (\<lambda>c. c = CHR 0x01) s); r = drop (Suc n) s
     in (take n r, drop n r))"

lemma sample_take_replicate: "sample_take (replicate (length k) CHR 0x01 @ CHR 0x00 # k @ r) = (k, r)"
proof -
  have t: "takeWhile (\<lambda>c. c = CHR 0x01) (replicate n CHR 0x01 @ CHR 0x00 # xs) = replicate n CHR 0x01" for n xs
    by (induction n) auto
  show ?thesis by (simp only: sample_take_def t Let_def) simp
qed

fun sample_parse :: "nat \<Rightarrow> string \<Rightarrow> string json_obj" where
  "sample_parse 0 s = []"
| "sample_parse (Suc n) s = (if s = [] then [] else
     let (k, r) = sample_take s; (v, r') = sample_take r in (k, v) # sample_parse n r')"

lemma sample_parse_dump: "length m \<le> n \<Longrightarrow> sample_parse n (sample_dump m) = m"
proof (induction m arbitrary: n)
  case Nil
  then show ?case by (cases n) auto
next
  case (Cons p m)
  obtain k v where p: "p = (k, v)" by force
  from Cons.prems obtain n' where n: "n = Suc n'" "length m \<le> n'" by (cases n) auto
  have "sample_take (sample_dump (p # m)) = (k, replicate (length v) CHR 0x01 @ CHR 0x00 # v @ sample_dump m)"
    using sample_take_replicate [of k] by (simp add: p)
  then show ?case using Cons.IH [OF n(2)] sample_take_replicate [of v "sample_dump m"]
    by (simp add: n(1) p)
qed

lemma sample_dump_length: "length m \<le> length (sample_dump m)"
  by (induction m rule: sample_dump.induct) auto

text \<open>An arm whose first joint is kept between zero and one, with a steeper penalty than usual.\<close>

definition sample_constraints :: constraints_adapter where
  "sample_constraints = ConstraintsAdapter\<lparr> cn_checker := Some CollisionCheckerAdapter,
     cn_joints := Some [\<lparr> jb_entity = ''arm'', jb_lower = [Some 0], jb_upper = [Some 1],
       jb_penalty = Some (MinimumValuePenaltyParams\<lparr> mv_gamma := 2 \<rparr>) \<rparr>] \<rparr>"

definition sample_document :: yaml where "sample_document = write_constraints sample_constraints"

definition sample_codec :: "(string, string) codec" where
  "sample_codec = \<lparr> load_dmd = Inr, save_dmd = id,
     yaml_parse = (\<lambda>s. if s = ''c'' then Inr sample_document else Inl ''YAML''), yaml_emit = (\<lambda>y. if y = sample_document then ''c'' else []),
     json_parse = (\<lambda>s. Inr (sample_parse (length s) s)), json_dump = sample_dump,
     json_of_string = id, json_to_string = Inr, add_model_names = (\<lambda>d. [d]),
     empty_dmd = [], robot_hash = (\<lambda>f p d c. Inr 7) \<rparr>"

lemma sample_codec_ok: "codec_ok sample_codec"
  by (simp add: codec_ok_def sample_codec_def sample_parse_dump sample_dump_length)

lemma json_strings: "json_to_string sample_codec s = Inr s"
  by (simp add: sample_codec_def)

lemma sample_yaml: "yaml_reads_back sample_codec (write_constraints sample_constraints)" "sizes_ok sample_constraints"
  by (simp_all add: yaml_reads_back_def sample_codec_def sample_document_def sizes_ok_def sample_constraints_def ConstraintsAdapter_def)

definition sample_context :: "string json_obj \<Rightarrow> (string, string) plan_context" where
  "sample_context m = \<lparr> pc_name = ''s'', pc_directive = ''arm'', pc_models = [], pc_constraints = sample_constraints,
     pc_id = Some 7, pc_context_dir = [], pc_urdf_dir = [], pc_metadata = m \<rparr>"

lemma to_string_7: "to_string 7 = ''7''"
proof -
  have "decimal 7 = ''7''" by code_simp
  then show ?thesis by (simp add: to_string_def)
qed

lemma sample_save:
  "\<exists>ctx1 f1. SaveContext sample_codec [''d''] (sample_context m) [] = (True, ctx1, f1)"
  by (simp add: SaveContext_def sample_context_def to_string_7 fs_exists_def fs_create_directories_def
      save_yaml_def fs_write_def fs_is_directory_def parent_path_def Let_def)

theorem context_save_load_roundtrip_witness:
  "\<exists>ctx1 f1 ctx2. SaveContext sample_codec [''d''] (sample_context [(''scene_name'', ''kitchen'')]) [] = (True, ctx1, f1)
     \<and> LoadContext sample_codec None [''d''] ((sample_context [])\<lparr> pc_directive := [], pc_constraints := ConstraintsAdapter \<rparr>) f1
       = (Inr True, ctx2, f1)
     \<and> pc_directive ctx2 = ''arm'' \<and> pc_name ctx2 = ''kitchen'' \<and> pc_constraints ctx2 = as_saved sample_constraints
     \<and> as_saved sample_constraints \<noteq> sample_constraints"
proof -
  let ?ctx = "sample_context [(''scene_name'', ''kitchen'')]"
  obtain ctx1 f1 where s: "SaveContext sample_codec [''d''] ?ctx [] = (True, ctx1, f1)"
    using sample_save by blast
  have id: "pc_id ?ctx = Some 7" "pc_metadata ?ctx \<noteq> []" by (simp_all add: sample_context_def)
  have nd: "\<not> fs_is_directory [] ([''d''] @ [to_string 7, CONTEXT_METADATA_FILE])"
    by (simp add: fs_is_directory_def)
  have "map_of (merge_metadata (pc_metadata ?ctx) (read_metadata sample_codec ([''d''] @ [to_string 7, CONTEXT_METADATA_FILE]) []))
      ''scene_name'' = Some ''kitchen''"
    by (simp add: merge_metadata_def sample_context_def read_metadata_def fs_is_regular_file_def)
  from context_save_load_roundtrip [OF sample_codec_ok id s nd refl this, of "''kitchen''"
      "(sample_context [])\<lparr> pc_directive := [], pc_constraints := ConstraintsAdapter \<rparr>" None] s sample_yaml
  obtain ctx2 where "LoadContext sample_codec None [''d''] ((sample_context [])\<lparr> pc_directive := [], pc_constraints := ConstraintsAdapter \<rparr>) f1 = (Inr True, ctx2, f1)"
    "pc_directive ctx2 = ''arm''" "pc_constraints ctx2 = as_saved sample_constraints" "pc_name ctx2 = ''kitchen''"
    by (auto simp: sample_context_def json_strings)
  moreover have "as_saved sample_constraints \<noteq> sample_constraints" by (simp add: as_saved_def sample_constraints_def without_penalty_def ConstraintsAdapter_def)
  ultimately show ?thesis using s by blast
qed

theorem context_metadata_merge_witness:
  "\<exists>ctx1 f1. SaveContext sample_codec [''d''] (sample_context [(''scene_name'', ''kitchen'')]) [] = (True, ctx1, f1)
     \<and> map_of (read_metadata sample_codec ([''d''] @ [to_string 7, CONTEXT_METADATA_FILE]) f1) ''scene_name'' = Some ''kitchen''"
proof -
  let ?ctx = "sample_context [(''scene_name'', ''kitchen'')]"
  obtain ctx1 f1 where s: "SaveContext sample_codec [''d''] ?ctx [] = (True, ctx1, f1)"
    using sample_save by blast
  have id: "pc_id ?ctx = Some 7" "pc_metadata ?ctx \<noteq> []" "distinct (map fst (pc_metadata ?ctx))"
    by (simp_all add: sample_context_def)
  have nd: "\<not> fs_is_directory [] ([''d''] @ [to_string 7, CONTEXT_METADATA_FILE])"
    by (simp add: fs_is_directory_def)
  from context_metadata_merge [OF sample_codec_ok id s nd refl refl] s
  show ?thesis by (fastforce simp: sample_context_def)
qed

theorem context_without_scene_name_unloadable_witness:
  "\<exists>ctx1 f1 e. SaveContext sample_codec [''d''] (sample_context [(''author'', ''x'')]) [] = (True, ctx1, f1)
     \<and> fst (LoadContext sample_codec None [''d''] (sample_context []) f1) = Inl e"
proof -
  let ?ctx = "sample_context [(''author'', ''x'')]"
  obtain ctx1 f1 where s: "SaveContext sample_codec [''d''] ?ctx [] = (True, ctx1, f1)"
    using sample_save by blast
  have h: "pc_id ?ctx = Some 7" "pc_metadata ?ctx = [(''author'', ''x'')]" "''author'' \<noteq> ''scene_name''"
      "pc_id (sample_context []) = Some 7" "pc_constraints ?ctx = sample_constraints"
    by (simp_all add: sample_context_def)
  have ne: "\<not> fs_exists [] ([''d''] @ [to_string 7, CONTEXT_METADATA_FILE])" by (simp add: fs_exists_def)
  from context_without_scene_name_unloadable [OF sample_codec_ok h(1-3) s ne h(4), of None] s h(5) sample_yaml
  show ?thesis by fastforce
qed

end
