(* ===== verification/Resource_Registry.thy ===== *)
theory Resource_Registry
  imports Context_Store
begin

text \<open>
  \<open>service/utils/resource_registry.h\<close>/\<open>.cc\<close> and the two functions of \<open>service/utils/utils.cc\<close> it
  loads from disk with.  The registry maps context ids to Draco planners \<open>'d\<close> and to the contexts they
  were built from.  The record \<open>planner_api\<close> holds what is done with a planner: its
  construction from an adapter (motion planning on Drake and OMPL), its computed hash and the two artifact
  operations used by a migration.  Parameter files are YAML documents \<open>'y\<close>.

  A mutating operation takes and returns the registry and the file system.  The HTML thread of
  the registry only reads the map and is left out.  Loading in parallel is modelled in the order of
  the listing: \<open>AddDraco\<close> stores under one mutex.
\<close>

section \<open>Options and adapters\<close>

record resource_options =
  draco_is_builder :: bool
  require_parameters :: bool
  make_draco_visualizers :: bool
  require_all_resources :: bool
  load_resources_on_init :: bool
  update_resource_ids :: bool
  dry_run :: bool
  dmd_contains_names :: "string list option"
  data_path_root_override :: "path option"

definition default_resource_options :: resource_options where
  "default_resource_options = \<lparr> draco_is_builder = True, require_parameters = False,
     make_draco_visualizers = True, require_all_resources = False, load_resources_on_init = True,
     update_resource_ids = False, dry_run = False, dmd_contains_names = None,
     data_path_root_override = None \<rparr>"

definition MakeBuilderOptions :: "resource_options \<Rightarrow> resource_options" where
  "MakeBuilderOptions opts = opts\<lparr> draco_is_builder := True \<rparr>"

record ('dmd, 'y) draco_adapter =
  da_system :: string
  da_context_dir :: path
  da_xml_file :: path
  da_dmd :: 'dmd
  da_constraints :: constraints_adapter
  da_meshcat_params :: "'y option"
  da_spline_params :: 'y
  da_thunder_params :: 'y
  da_iris_builder_options :: 'y
  da_gcs_options :: 'y
  da_dynamic_limits :: "('y \<times> 'y) option"
  da_iris_regions :: "'y option"
  da_iris_regions_file :: path
  da_thunder_dat_file :: path
  da_options :: "'y option"
  da_visualizer_mode :: "bool option"

record 'y param_io =
  load_doc :: "string \<Rightarrow> string \<Rightarrow> 'y throws"
  default_doc :: "string \<Rightarrow> string"

abbreviation SPLINE_PARAMS_FILE :: string where "SPLINE_PARAMS_FILE \<equiv> ''time_optimal_spline_params.yaml''"
abbreviation DYNAMIC_LIMITS_FILE :: string where "DYNAMIC_LIMITS_FILE \<equiv> ''dynamic_limits.yaml''"
abbreviation IRIS_BUILDER_OPTIONS_FILE :: string where "IRIS_BUILDER_OPTIONS_FILE \<equiv> ''iris_builder_options.yaml''"
abbreviation THUNDER_PARAMS_FILE :: string where "THUNDER_PARAMS_FILE \<equiv> ''thunder_params.yaml''"
abbreviation GCS_OPTIONS_FILE :: string where "GCS_OPTIONS_FILE \<equiv> ''gcs_options.yaml''"
abbreviation VIZ_OPTIONS_FILE :: string where "VIZ_OPTIONS_FILE \<equiv> ''visualizer_options.yaml''"
abbreviation DRACO_OPTIONS_FILE :: string where "DRACO_OPTIONS_FILE \<equiv> ''draco_options.yaml''"

definition load_file :: "'y param_io \<Rightarrow> path \<Rightarrow> string \<Rightarrow> fs \<Rightarrow> 'y throws" where
  "load_file P dir n f = load_yaml (load_doc P n) (dir @ [n]) f"

definition load_if_file :: "'y param_io \<Rightarrow> path \<Rightarrow> string \<Rightarrow> fs \<Rightarrow> 'y option throws" where
  "load_if_file P dir n f = (if fs_is_regular_file f (dir @ [n])
     then bindE (load_file P dir n f) (\<lambda>y. Inr (Some y)) else Inr None)"

definition save_default :: "'y param_io \<Rightarrow> path \<Rightarrow> string \<Rightarrow> bool \<Rightarrow> fs \<Rightarrow> fs throws" where
  "save_default P dir n found f = (if found then Inr f else save_yaml (dir @ [n]) (default_doc P n) f)"

text \<open>The part of \<open>MakeDracoAdapterFromContext\<close> inside its \<open>try\<close>: write the missing defaults, then load.\<close>

definition load_parameters ::
  "'y param_io \<Rightarrow> path \<Rightarrow> fs \<Rightarrow> ('y option \<times> ('y \<times> 'y \<times> 'y \<times> 'y) \<times> ('y \<times> 'y) option \<times> fs) throws" where
  "load_parameters P dir f =
     (let found = (\<lambda>n. fs_is_regular_file f (dir @ [n])) in
      bindE (load_if_file P dir VIZ_OPTIONS_FILE f) (\<lambda>viz.
      bindE (save_default P dir SPLINE_PARAMS_FILE (found SPLINE_PARAMS_FILE) f) (\<lambda>f1.
      bindE (save_default P dir THUNDER_PARAMS_FILE (found THUNDER_PARAMS_FILE) f1) (\<lambda>f2.
      bindE (save_default P dir GCS_OPTIONS_FILE (found GCS_OPTIONS_FILE) f2) (\<lambda>f3.
      bindE (save_default P dir IRIS_BUILDER_OPTIONS_FILE (found IRIS_BUILDER_OPTIONS_FILE) f3) (\<lambda>f4.
      bindE (load_file P dir SPLINE_PARAMS_FILE f4) (\<lambda>spline.
      bindE (load_file P dir THUNDER_PARAMS_FILE f4) (\<lambda>thunder.
      bindE (load_file P dir IRIS_BUILDER_OPTIONS_FILE f4) (\<lambda>iris.
      bindE (load_file P dir GCS_OPTIONS_FILE f4) (\<lambda>gcs.
      bindE (if found DYNAMIC_LIMITS_FILE
             then bindE (load_yaml (load_doc P ''joint_limits'') (dir @ [DYNAMIC_LIMITS_FILE]) f4) (\<lambda>a.
                  bindE (load_yaml (load_doc P ''cartesian_limits'') (dir @ [DYNAMIC_LIMITS_FILE]) f4) (\<lambda>b.
                  Inr (Some (a, b))))
             else Inr None) (\<lambda>limits.
      Inr (viz, (spline, thunder, iris, gcs), limits, f4))))))))))))"

definition MakeDracoAdapterFromContext ::
  "'y param_io \<Rightarrow> string \<Rightarrow> ('dmd, 'j) plan_context \<Rightarrow> bool \<Rightarrow> bool option \<Rightarrow> path option
   \<Rightarrow> fs \<Rightarrow> (('dmd, 'y) draco_adapter \<times> fs) throws" where
  "MakeDracoAdapterFromContext P system ctx require_params vis_mode options_base f =
     (let dir = (case options_base of Some d \<Rightarrow> d | None \<Rightarrow> parent_path (parent_path (pc_context_dir ctx)));
          all_found = list_all (\<lambda>n. fs_is_regular_file f (dir @ [n]))
            [SPLINE_PARAMS_FILE, DYNAMIC_LIMITS_FILE, THUNDER_PARAMS_FILE, IRIS_BUILDER_OPTIONS_FILE, GCS_OPTIONS_FILE]
      in if \<not> all_found \<and> require_params
         then Inl ''Data directory does not have all expected files present!''
         else case load_parameters P dir f of
           Inl e \<Rightarrow> Inl (''Attempted to load parameters from disk, but failed due to exception: '' @ e)
         | Inr (viz, (spline, thunder, iris, gcs), limits, f1) \<Rightarrow>
             bindE (load_if_file P (pc_context_dir ctx) IRIS_REGIONS_FILE f1) (\<lambda>regions.
             bindE (load_if_file P dir DRACO_OPTIONS_FILE f1) (\<lambda>options.
             Inr (\<lparr> da_system = system, da_context_dir = pc_context_dir ctx,
                    da_xml_file = pc_urdf_dir ctx @ [''package.xml''], da_dmd = pc_directive ctx,
                    da_constraints = pc_constraints ctx, da_meshcat_params = viz,
                    da_spline_params = spline, da_thunder_params = thunder,
                    da_iris_builder_options = iris, da_gcs_options = gcs, da_dynamic_limits = limits,
                    da_iris_regions = regions,
                    da_iris_regions_file = pc_context_dir ctx @ [IRIS_REGIONS_FILE],
                    da_thunder_dat_file = pc_context_dir ctx @ [THUNDER_ROADMAP_FILE],
                    da_options = options, da_visualizer_mode = vis_mode \<rparr>, f1))))"

section \<open>LoadAvailableContexts\<close>

fun load_entries ::
  "('dmd, 'j) codec \<Rightarrow> string list option \<Rightarrow> path \<Rightarrow> path list \<Rightarrow> fs
   \<Rightarrow> ('dmd, 'j) plan_context list throws \<times> fs" where
  "load_entries C names base [] f = (Inr [], f)"
| "load_entries C names base (p # ps) f =
     (if \<not> fs_is_directory f p then load_entries C names base ps f
      else if fs_stem (last p) = ''visualization'' then load_entries C names base ps f
      else case stoull (fs_stem (last p)) of
        Inl e \<Rightarrow> (Inl e, f)
      | Inr i \<Rightarrow> (case LoadContext C None base (context_of_id C i) f of
          (Inl e, _, f1) \<Rightarrow> (Inl e, f1)
        | (Inr False, _, f1) \<Rightarrow> load_entries C names base ps f1
        | (Inr True, ctx, f1) \<Rightarrow>
            (if (case names of None \<Rightarrow> True
                 | Some ns \<Rightarrow> list_all (string_includes (save_dmd C (pc_directive ctx))) ns)
             then (case load_entries C names base ps f1 of
                 (Inl e, f2) \<Rightarrow> (Inl e, f2) | (Inr cs, f2) \<Rightarrow> (Inr (ctx # cs), f2))
             else load_entries C names base ps f1)))"

definition LoadAvailableContexts ::
  "('dmd, 'j) codec \<Rightarrow> path \<Rightarrow> resource_options \<Rightarrow> fs
   \<Rightarrow> ('dmd, 'j) plan_context list throws \<times> fs" where
  "LoadAvailableContexts C base opts f =
     load_entries C (dmd_contains_names opts) base (directory_entries base f) f"

section \<open>The registry\<close>

record ('d, 'dmd, 'y) planner_api =
  make_planner :: "('dmd, 'y) draco_adapter \<Rightarrow> bool \<Rightarrow> fs \<Rightarrow> 'd throws"
  computed_hash :: "'d \<Rightarrow> context_id"
  load_validate_save :: "'d \<Rightarrow> path \<Rightarrow> path \<Rightarrow> bool \<Rightarrow> fs \<Rightarrow> unit throws \<times> 'd \<times> fs"
  repair_regions :: "'d \<Rightarrow> int \<Rightarrow> fs \<Rightarrow> unit throws \<times> 'd \<times> fs"

record ('d, 'dmd, 'j) resource_registry =
  system_name :: string
  rr_options :: resource_options
  data_path_root :: path
  draco_map :: "context_id \<Rightarrow> 'd option"
  active_contexts_map :: "context_id \<Rightarrow> ('dmd, 'j) plan_context option"

record ('d, 'dmd, 'j, 'y) rr_env =
  env_codec :: "('dmd, 'j) codec"
  env_params :: "'y param_io"
  env_api :: "('d, 'dmd, 'y) planner_api"

definition context_base_path :: "('d, 'dmd, 'j) resource_registry \<Rightarrow> path" where
  "context_base_path r = data_path_root r @ [system_name r, ''contexts'']"

definition HasDraco :: "('d, 'dmd, 'j) resource_registry \<Rightarrow> context_id \<Rightarrow> bool" where
  "HasDraco r i = (draco_map r i \<noteq> None)"

definition rr_GetDraco :: "('d, 'dmd, 'j) resource_registry \<Rightarrow> context_id \<Rightarrow> 'd throws" where
  "rr_GetDraco r i = (case draco_map r i of
     None \<Rightarrow> Inl (''Draco '' @ to_string i @ '' was requested, but does not exist!'') | Some d \<Rightarrow> Inr d)"

text \<open>\<open>std::map::emplace\<close> keeps an existing entry.\<close>

definition emplace :: "'k \<Rightarrow> 'v \<Rightarrow> ('k \<Rightarrow> 'v option) \<Rightarrow> ('k \<Rightarrow> 'v option)" where
  "emplace k v m = (if m k = None then m(k \<mapsto> v) else m)"

definition AddDraco ::
  "('d, 'dmd, 'j, 'y) rr_env \<Rightarrow> context_id \<Rightarrow> ('dmd, 'j) plan_context
   \<Rightarrow> ('d, 'dmd, 'j) resource_registry \<Rightarrow> fs
   \<Rightarrow> unit throws \<times> ('d, 'dmd, 'j) resource_registry \<times> fs" where
  "AddDraco E i ctx r f =
     (case MakeDracoAdapterFromContext (env_params E) (system_name r) ctx
         (require_parameters (rr_options r))
         (if make_draco_visualizers (rr_options r) then Some True else None) None f of
       Inl e \<Rightarrow> (Inl e, r, f)
     | Inr (adapter, f1) \<Rightarrow>
       (case make_planner (env_api E) adapter (draco_is_builder (rr_options r)) f1 of
         Inl e \<Rightarrow> (Inl e, r, f1)
       | Inr d \<Rightarrow>
         (let h = computed_hash (env_api E) d in
          case (if h \<noteq> i then
                  (if \<not> update_resource_ids (rr_options r)
                   then Inl ''Assigned hash != computed''
                   else fs_rename_dir (pc_context_dir ctx) (parent_path (pc_context_dir ctx) @ [to_string h]) f1)
                else Inr f1) of
            Inl e \<Rightarrow> (Inl e, r, f1)
          | Inr f2 \<Rightarrow>
            (if dry_run (rr_options r) then (Inr (), r, f2)
             else (Inr (), r\<lparr> draco_map := emplace h d (draco_map r),
                              active_contexts_map := emplace h ctx (active_contexts_map r) \<rparr>, f2)))))"

definition RemoveDraco ::
  "context_id \<Rightarrow> ('d, 'dmd, 'j) resource_registry
   \<Rightarrow> unit throws \<times> ('d, 'dmd, 'j) resource_registry" where
  "RemoveDraco i r = (if draco_map r i = None
     then (Inl ''Hash requested for removal is not present!'', r)
     else (Inr (), r\<lparr> active_contexts_map := (active_contexts_map r)(i := None),
                      draco_map := (draco_map r)(i := None) \<rparr>))"

text \<open>The constructor: an error of one context is recorded under its id (the first one counts) and fatal
  only if all resources are required.\<close>

fun add_contexts ::
  "('d, 'dmd, 'j, 'y) rr_env \<Rightarrow> ('dmd, 'j) plan_context list
   \<Rightarrow> (context_id \<Rightarrow> exn option) \<Rightarrow> ('d, 'dmd, 'j) resource_registry \<Rightarrow> fs
   \<Rightarrow> (context_id \<Rightarrow> exn option) \<times> ('d, 'dmd, 'j) resource_registry \<times> fs" where
  "add_contexts E [] errs r f = (errs, r, f)"
| "add_contexts E (c # cs) errs r f = (case pc_id c of
     None \<Rightarrow> add_contexts E cs errs r f
   | Some i \<Rightarrow> (case AddDraco E i c r f of
       (Inl e, r1, f1) \<Rightarrow> add_contexts E cs (emplace i e errs) r1 f1
     | (Inr _, r1, f1) \<Rightarrow> add_contexts E cs errs r1 f1))"

definition ResourceRegistry ::
  "('d, 'dmd, 'j, 'y) rr_env \<Rightarrow> string \<Rightarrow> resource_options \<Rightarrow> fs
   \<Rightarrow> ('d, 'dmd, 'j) resource_registry throws \<times> fs" where
  "ResourceRegistry E system opts f =
     (let root = (case data_path_root_override opts of Some d \<Rightarrow> d | None \<Rightarrow> [''data'']);
          r = \<lparr> system_name = system, rr_options = opts, data_path_root = root,
                draco_map = (\<lambda>_. None), active_contexts_map = (\<lambda>_. None) \<rparr>;
          base = context_base_path r
      in case (if fs_is_directory f base then Inr f else fs_create_directories base f) of
           Inl e \<Rightarrow> (Inl e, f)
         | Inr f1 \<Rightarrow>
           (if \<not> load_resources_on_init opts then (Inr r, f1)
            else case LoadAvailableContexts (env_codec E) base opts f1 of
                (Inl e, f2) \<Rightarrow> (Inl e, f2)
              | (Inr cs, f2) \<Rightarrow>
                (case add_contexts E cs (\<lambda>_. None) r f2 of
                   (errs, r1, f3) \<Rightarrow>
                     (if errs \<noteq> (\<lambda>_. None) \<and> require_all_resources opts
                      then (Inl ''Failed to load some Draco instances'', f3)
                      else (Inr r1, f3)))))"

text \<open>The first half of \<open>RegisterPlanContext\<close>: a new context is given its id and saved, a known one is
  loaded; either the answer of the call or the id with the context to enable.\<close>

definition context_invalid :: "string \<Rightarrow> context_id expected throws" where
  "context_invalid m = Inr (Inl (ServiceError CONTEXT_INVALID m))"

definition prepare_context ::
  "('dmd, 'j) codec \<Rightarrow> path \<Rightarrow> ('dmd, 'j) plan_context \<Rightarrow> fs
   \<Rightarrow> (context_id expected throws + context_id \<times> ('dmd, 'j) plan_context) \<times> fs" where
  "prepare_context C data_path ctx f = (case pc_id ctx of
     None \<Rightarrow>
       (case utils_RegisterPlanContext C ctx (data_path @ [''urdf'']) f of
          (Inl e, f1) \<Rightarrow> (Inl (Inl e), f1)
        | (Inr None, f1) \<Rightarrow> (Inl (context_invalid ''Failed to compute context ID!''), f1)
        | (Inr (Some i), f1) \<Rightarrow>
            (case SaveContext C (data_path @ [''contexts''])
                (ctx\<lparr> pc_id := Some i, pc_urdf_dir := data_path @ [''urdf''] \<rparr>) f1 of
               (False, _, f2) \<Rightarrow> (Inl (context_invalid ''Failed to save context to disk!''), f2)
             | (True, ctx1, f2) \<Rightarrow> (Inr (i, ctx1), f2)))
   | Some i \<Rightarrow>
       (case LoadContext C None (data_path @ [''contexts'']) ctx f of
          (Inl e, _, f1) \<Rightarrow> (Inl (Inl e), f1)
        | (Inr False, _, f1) \<Rightarrow> (Inl (context_invalid ''Failed to load context from disk!''), f1)
        | (Inr True, ctx1, f1) \<Rightarrow> (Inr (i, ctx1), f1)))"

definition rr_RegisterPlanContext ::
  "('d, 'dmd, 'j, 'y) rr_env \<Rightarrow> string \<Rightarrow> ('dmd, 'j) plan_context
   \<Rightarrow> ('d, 'dmd, 'j) resource_registry \<Rightarrow> fs
   \<Rightarrow> context_id expected throws \<times> ('d, 'dmd, 'j) resource_registry \<times> fs" where
  "rr_RegisterPlanContext E system ctx r f =
     (case prepare_context (env_codec E) (data_path_root r @ [system]) ctx f of
        (Inl res, f1) \<Rightarrow> (res, r, f1)
      | (Inr (i, ctx1), f1) \<Rightarrow>
          (if system \<noteq> system_name r then (Inr (Inr i), r, f1)
           else if HasDraco r i then (Inr (Inr i), r, f1)
           else case AddDraco E i ctx1 r f1 of
               (Inl e, r1, f2) \<Rightarrow>
                 (context_invalid (''Failed to create Draco instance due to exception: '' @ e), r1, f2)
             | (Inr _, r1, f2) \<Rightarrow> (Inr (Inr i), r1, f2)))"

definition rr_RemovePlanContext ::
  "string \<Rightarrow> context_id \<Rightarrow> bool \<Rightarrow> ('d, 'dmd, 'j) resource_registry \<Rightarrow> fs
   \<Rightarrow> context_id expected throws \<times> ('d, 'dmd, 'j) resource_registry \<times> fs" where
  "rr_RemovePlanContext system i erase r f =
     (if system \<noteq> system_name r
      then (Inr (Inl (ServiceError CONTEXT_INVALID ''Context is not part of the active system'')), r, f)
      else if \<not> HasDraco r i
      then (Inr (Inl (ServiceError CONTEXT_NOT_FOUND ''Context not found in active system'')), r, f)
      else let p = context_base_path r @ [to_string i] in
        if erase \<and> \<not> fs_is_directory f p
        then (Inr (Inl (ServiceError CONTEXT_NOT_FOUND ''Context path not found on disk'')), r, f)
        else let f1 = (if erase then fs_remove_all p f else f) in
          case RemoveDraco i r of
            (Inl e, r1) \<Rightarrow> (Inl e, r1, f1)
          | (Inr _, r1) \<Rightarrow>
              (Inr (Inr i), r1\<lparr> active_contexts_map := (active_contexts_map r1)(i := None) \<rparr>, f1))"

text \<open>An operation of the artifact builder of one planner.\<close>

definition on_planner ::
  "('d \<Rightarrow> fs \<Rightarrow> unit throws \<times> 'd \<times> fs) \<Rightarrow> context_id \<Rightarrow> ('d, 'dmd, 'j) resource_registry \<Rightarrow> fs
   \<Rightarrow> unit throws \<times> ('d, 'dmd, 'j) resource_registry \<times> fs" where
  "on_planner op i r f = (case rr_GetDraco r i of
     Inl e \<Rightarrow> (Inl e, r, f)
   | Inr d \<Rightarrow> (case op d f of (x, d', f') \<Rightarrow> (x, r\<lparr> draco_map := (draco_map r)(i \<mapsto> d') \<rparr>, f')))"

text \<open>Sequencing of steps that may throw on the registry and the file system.\<close>

definition then_step ::
  "unit throws \<times> 'r \<times> fs \<Rightarrow> ('r \<Rightarrow> fs \<Rightarrow> 'e throws \<times> 'r \<times> fs) \<Rightarrow> 'e throws \<times> 'r \<times> fs" where
  "then_step a k = (case a of (Inl e, r, f) \<Rightarrow> (Inl e, r, f) | (Inr _, r, f) \<Rightarrow> k r f)"

definition fs_step :: "(fs \<Rightarrow> fs throws) \<Rightarrow> 'r \<Rightarrow> fs \<Rightarrow> unit throws \<times> 'r \<times> fs" where
  "fs_step op r f = (case op f of Inl e \<Rightarrow> (Inl e, r, f) | Inr f' \<Rightarrow> (Inr (), r, f'))"

definition with_ctx :: "'c \<Rightarrow> 'e throws \<times> 'r \<times> fs \<Rightarrow> 'e throws \<times> ('r \<times> 'c) \<times> fs" where
  "with_ctx c a = (case a of (x, r, f) \<Rightarrow> (x, (r, c), f))"

text \<open>\<open>utils::LoadContext\<close> as used by the migration: its answer is ignored, only an exception stops; the
  context object is reused.\<close>

definition load_and_add ::
  "('d, 'dmd, 'j, 'y) rr_env \<Rightarrow> context_id \<Rightarrow> ('dmd, 'j) plan_context
   \<Rightarrow> ('d, 'dmd, 'j) resource_registry \<Rightarrow> fs
   \<Rightarrow> unit throws \<times> (('d, 'dmd, 'j) resource_registry \<times> ('dmd, 'j) plan_context) \<times> fs" where
  "load_and_add E i ctx r f = (case LoadContext (env_codec E) None (context_base_path r) ctx f of
     (Inl e, ctx1, f1) \<Rightarrow> (Inl e, (r, ctx1), f1)
   | (Inr _, ctx1, f1) \<Rightarrow> with_ctx ctx1 (AddDraco E i ctx1 r f1))"

definition remove_step ::
  "context_id \<Rightarrow> ('d, 'dmd, 'j) resource_registry \<Rightarrow> fs
   \<Rightarrow> unit throws \<times> ('d, 'dmd, 'j) resource_registry \<times> fs" where
  "remove_step i r f = (case RemoveDraco i r of (x, r') \<Rightarrow> (x, r', f))"

text \<open>After the checks: everything from the copy of the regions file on.\<close>

definition migrate_steps ::
  "('d, 'dmd, 'j, 'y) rr_env \<Rightarrow> context_id \<Rightarrow> context_id \<Rightarrow> int \<Rightarrow> bool
   \<Rightarrow> ('d, 'dmd, 'j) resource_registry \<Rightarrow> fs
   \<Rightarrow> unit throws \<times> (('d, 'dmd, 'j) resource_registry \<times> ('dmd, 'j) plan_context) \<times> fs" where
  "migrate_steps E from_id to_id num_samples repair r f =
     (let base = context_base_path r;
          from_path = base @ [to_string from_id]; to_path = base @ [to_string to_id];
          ctx0 = context_of_id (env_codec E) to_id
      in
      then_step (with_ctx ctx0
        (if from_id \<noteq> to_id \<and> fs_is_regular_file f (from_path @ [IRIS_REGIONS_FILE])
         then fs_step (fs_copy_file (from_path @ [IRIS_REGIONS_FILE]) (to_path @ [IRIS_REGIONS_FILE])) r f
         else (Inr (), r, f))) (\<lambda>(r, c) f.
      then_step (with_ctx c (if HasDraco r to_id then remove_step to_id r f else (Inr (), r, f))) (\<lambda>(r, c) f.
      then_step (load_and_add E to_id c r f) (\<lambda>(r, c) f.
      then_step (with_ctx c (fs_step (fs_remove (to_path @ [THUNDER_ROADMAP_FILE])) r f)) (\<lambda>(r, c) f.
      then_step (with_ctx c (on_planner (\<lambda>d. load_validate_save (env_api E) d (from_path @ [THUNDER_ROADMAP_FILE])
                    (to_path @ [THUNDER_ROADMAP_FILE]) repair) to_id r f)) (\<lambda>(r, c) f.
      then_step (with_ctx c (if repair then
                   then_step (fs_step (fs_remove (to_path @ [IRIS_REGIONS_FILE])) r f)
                     (on_planner (\<lambda>d. repair_regions (env_api E) d num_samples) to_id)
                 else (Inr (), r, f))) (\<lambda>(r, c) f.
      then_step (with_ctx c (remove_step to_id r f)) (\<lambda>(r, c) f.
      load_and_add E to_id c r f))))))))"

definition MigratePlanningArtifacts ::
  "('d, 'dmd, 'j, 'y) rr_env \<Rightarrow> context_id \<Rightarrow> context_id \<Rightarrow> int \<Rightarrow> bool
   \<Rightarrow> ('d, 'dmd, 'j) resource_registry \<Rightarrow> fs
   \<Rightarrow> (string + unit) throws \<times> ('d, 'dmd, 'j) resource_registry \<times> fs" where
  "MigratePlanningArtifacts E from_id to_id num_samples repair r f =
     (let base = context_base_path r
      in if \<not> draco_is_builder (rr_options r)
         then (Inr (Inl ''This ResourceRegistry was not initialized as a builder.''), r, f)
         else if \<not> fs_is_directory f (base @ [to_string from_id])
         then (Inr (Inl ''Directory for source does not exist!''), r, f)
         else if \<not> HasDraco r from_id
         then (Inr (Inl ''No Draco instance found for source!''), r, f)
         else if \<not> fs_is_directory f (base @ [to_string to_id])
         then (Inr (Inl ''Directory for target does not exist!''), r, f)
         else case migrate_steps E from_id to_id num_samples repair r f of
             (Inl e, (r', _), f') \<Rightarrow> (Inl e, r', f')
           | (Inr _, (r', _), f') \<Rightarrow> (Inr (Inr ()), r', f'))"

definition NewProblemDirectory ::
  "path \<Rightarrow> string \<Rightarrow> string \<Rightarrow> context_id \<Rightarrow> string \<Rightarrow> fs \<Rightarrow> path throws \<times> fs" where
  "NewProblemDirectory log_path date datetime i plan_id f =
     (let p = log_path @ [''problems'', date, to_string i,
                (if plan_id = [] then ''unidentified'' else plan_id) @ ''-'' @ datetime]
      in if fs_is_directory f p then (Inr p, f)
         else case fs_create_directories p f of Inl e \<Rightarrow> (Inl e, f) | Inr f1 \<Rightarrow> (Inr p, f1))"

section \<open>The invariant\<close>

text \<open>The artifact operations do not change the hash of a planner.\<close>

definition api_ok :: "('d, 'dmd, 'y) planner_api \<Rightarrow> bool" where
  "api_ok A \<longleftrightarrow> (\<forall>d p q b f. computed_hash A (fst (snd (load_validate_save A d p q b f))) = computed_hash A d)
     \<and> (\<forall>d n f. computed_hash A (fst (snd (repair_regions A d n f))) = computed_hash A d)"

text \<open>Every planner is stored under its own hash, and exactly the stored planners have contexts.\<close>

definition rr_inv :: "('d, 'dmd, 'j, 'y) rr_env \<Rightarrow> ('d, 'dmd, 'j) resource_registry \<Rightarrow> bool" where
  "rr_inv E r \<longleftrightarrow> (\<forall>i d. draco_map r i = Some d \<longrightarrow> computed_hash (env_api E) d = i)
     \<and> (\<forall>i. draco_map r i = None \<longleftrightarrow> active_contexts_map r i = None)"

lemma emplace_None [simp]: "emplace k v m i = None \<longleftrightarrow> i \<noteq> k \<and> m i = None"
  by (auto simp: emplace_def)

lemma emplace_SomeD: "emplace k v m i = Some x \<Longrightarrow> m i = Some x \<or> (i = k \<and> x = v)"
  by (auto simp: emplace_def split: if_splits)

text \<open>\<open>AddDraco\<close> leaves the registry alone or stores one planner, under its hash; the id it was
  called with, unless ids may be updated.\<close>

lemma AddDraco_cases:
  assumes "AddDraco E i ctx r f = (x, r', f')"
  obtains (same) "r' = r" "(\<exists>e. x = Inl e) \<or> dry_run (rr_options r)"
  | (stored) d where "x = Inr ()" "\<not> dry_run (rr_options r)"
      "r' = r\<lparr> draco_map := emplace (computed_hash (env_api E) d) d (draco_map r),
              active_contexts_map := emplace (computed_hash (env_api E) d) ctx (active_contexts_map r) \<rparr>"
      "computed_hash (env_api E) d \<noteq> i \<longrightarrow> update_resource_ids (rr_options r)"
proof (cases "MakeDracoAdapterFromContext (env_params E) (system_name r) ctx
         (require_parameters (rr_options r))
         (if make_draco_visualizers (rr_options r) then Some True else None) None f")
  case (Inl e)
  with assms show ?thesis by (intro same) (auto simp: AddDraco_def)
next
  case (Inr af)
  obtain a f1 where a: "af = (a, f1)" by force
  show ?thesis
  proof (cases "make_planner (env_api E) a (draco_is_builder (rr_options r)) f1")
    case (Inl e)
    with assms Inr a show ?thesis by (intro same) (auto simp: AddDraco_def)
  next
    case d: (Inr d)
    let ?h = "computed_hash (env_api E) d"
    let ?ren = "if ?h \<noteq> i then (if \<not> update_resource_ids (rr_options r)
                   then Inl ''Assigned hash != computed''
                   else fs_rename_dir (pc_context_dir ctx) (parent_path (pc_context_dir ctx) @ [to_string ?h]) f1)
                else Inr f1"
    have A: "AddDraco E i ctx r f = (case ?ren of
            Inl e \<Rightarrow> (Inl e, r, f1)
          | Inr f2 \<Rightarrow>
            (if dry_run (rr_options r) then (Inr (), r, f2)
             else (Inr (), r\<lparr> draco_map := emplace ?h d (draco_map r),
                              active_contexts_map := emplace ?h ctx (active_contexts_map r) \<rparr>, f2)))"
      using Inr a d by (simp add: AddDraco_def Let_def)
    show ?thesis
    proof (cases ?ren)
      case (Inl e)
      with assms A show ?thesis by (intro same) auto
    next
      case ok: (Inr f2)
      then have u: "?h \<noteq> i \<longrightarrow> update_resource_ids (rr_options r)" by (auto split: if_splits)
      show ?thesis
      proof (cases "dry_run (rr_options r)")
        case True
        with assms A ok show ?thesis by (intro same) auto
      next
        case False
        with assms A ok u show ?thesis by (intro stored [of d]) auto
      qed
    qed
  qed
qed

lemma AddDraco_inv [inv_intros]:
  assumes "rr_inv E r" "AddDraco E i ctx r f = (x, r', f')" shows "rr_inv E r'"
  using assms(2)
proof (cases rule: AddDraco_cases)
  case (stored d)
  with assms(1) show ?thesis by (auto simp: rr_inv_def dest!: emplace_SomeD)
qed (simp add: assms(1))

lemma RemoveDraco_inv [inv_intros]:
  "rr_inv E r \<Longrightarrow> RemoveDraco i r = (x, r') \<Longrightarrow> rr_inv E r'"
  by (auto simp: rr_inv_def RemoveDraco_def split: if_splits)

lemma remove_step_inv [inv_intros]:
  "rr_inv E r \<Longrightarrow> remove_step i r f = (x, r', f') \<Longrightarrow> rr_inv E r'"
  by (auto simp: remove_step_def split: prod.splits intro: RemoveDraco_inv)

lemma on_planner_inv [inv_intros]:
  assumes "rr_inv E r" "on_planner op i r f = (x, r', f')"
    and "\<And>d f. computed_hash (env_api E) (fst (snd (op d f))) = computed_hash (env_api E) d"
  shows "rr_inv E r'"
proof (cases "draco_map r i")
  case None
  with assms(1,2) show ?thesis by (simp add: on_planner_def rr_GetDraco_def)
next
  case (Some d)
  with assms(2) obtain d' where d': "r' = r\<lparr> draco_map := (draco_map r)(i \<mapsto> d') \<rparr>" "op d f = (x, d', f')"
    by (auto simp: on_planner_def rr_GetDraco_def split: prod.splits)
  have "computed_hash (env_api E) d' = computed_hash (env_api E) d" using assms(3) [of d f] d'(2) by simp
  moreover have "active_contexts_map r i \<noteq> None"
    using assms(1) Some by (metis rr_inv_def option.distinct(1))
  ultimately show ?thesis using assms(1) Some d'(1) by (auto simp: rr_inv_def)
qed

lemma fs_step_state: "fs_step op r f = (x, r', f') \<Longrightarrow> r' = r"
  by (auto simp: fs_step_def split: sum.splits)

lemma then_step_keeps:
  assumes "P (fst (snd a))" "\<And>r f. P r \<Longrightarrow> P (fst (snd (k r f)))"
  shows "P (fst (snd (then_step a k)))"
  using assms by (cases a) (auto simp: then_step_def split: sum.split)

lemma with_ctx_state [simp]: "fst (snd (with_ctx c a)) = (fst (snd a), c)"
  by (simp add: with_ctx_def split: prod.splits)

lemma load_and_add_inv:
  assumes "rr_inv E r" "load_and_add E i c r f = (x, (r', c'), f')" shows "rr_inv E r'"
  using assms
  by (auto simp: load_and_add_def with_ctx_def split: prod.splits sum.splits intro: AddDraco_inv)

lemma migrate_steps_inv:
  assumes "rr_inv E r" "api_ok (env_api E)" "migrate_steps E a b n rep r f = (x, (r', c'), f')"
  shows "rr_inv E r'"
proof -
  have add: "rr_inv E (fst (fst (snd (load_and_add E i c r f))))" if "rr_inv E r" for i c r f
    using load_and_add_inv [OF that, of i c f] by (metis prod.collapse)
  have rem: "rr_inv E (fst (snd (remove_step i r f)))" if "rr_inv E r" for i r f
    using remove_step_inv [OF that, of i f] by (metis prod.collapse)
  have lvs: "rr_inv E (fst (snd (on_planner (\<lambda>d. load_validate_save (env_api E) d p q y) i r f)))"
    if "rr_inv E r" for p q y i r f
    using on_planner_inv [OF that, of "\<lambda>d. load_validate_save (env_api E) d p q y" i f] assms(2)
    by (metis api_ok_def prod.collapse)
  have rep: "rr_inv E (fst (snd (on_planner (\<lambda>d. repair_regions (env_api E) d m) i r f)))"
    if "rr_inv E r" for m i r f
    using on_planner_inv [OF that, of "\<lambda>d. repair_regions (env_api E) d m" i f] assms(2)
    by (metis api_ok_def prod.collapse)
  have fst_fs: "fst (snd (fs_step op r f)) = r" for op f and r :: "('a, 'b, 'c) resource_registry"
    by (simp add: fs_step_def split: sum.split)
  have repair: "rr_inv E (fst (snd (then_step (fs_step op r f)
      (on_planner (\<lambda>d. repair_regions (env_api E) d m) i))))" if "rr_inv E r" for op m i r f
    by (rule then_step_keeps) (simp_all add: fst_fs that rep)
  have "rr_inv E (fst (fst (snd (migrate_steps E a b n rep r f))))"
    unfolding migrate_steps_def Let_def split_beta
    by (intro then_step_keeps [where P = "\<lambda>s. rr_inv E (fst s)"])
      (simp_all add: fst_fs assms(1) add rem lvs rep repair)
  then show ?thesis by (simp add: assms(3))
qed

lemma MigratePlanningArtifacts_inv [inv_intros]:
  assumes "rr_inv E r" "api_ok (env_api E)" "MigratePlanningArtifacts E a b n rep r f = (x, r', f')"
  shows "rr_inv E r'"
  using assms(3) migrate_steps_inv [OF assms(1,2), of a b n rep f] assms(1)
  by (auto simp: MigratePlanningArtifacts_def Let_def split: if_splits prod.splits sum.splits)

text \<open>A registration leaves the registry alone, or its outcome is that of \<open>AddDraco\<close> for an id
  that was not there.\<close>

lemma prepare_context_error:
  "prepare_context C d ctx f = (Inl x, f') \<Longrightarrow> (\<exists>e. x = Inl e) \<or> (\<exists>m. x = context_invalid m)"
  by (auto simp: prepare_context_def split: option.splits prod.splits sum.splits bool.splits)

lemma rr_RegisterPlanContext_cases:
  assumes "rr_RegisterPlanContext E system ctx r f = (x, r', f')"
  obtains (failed) "r' = r" "(\<exists>e. x = Inl e) \<or> (\<exists>m. x = context_invalid m)"
  | (known) i where "r' = r" "x = Inr (Inr i)" "system \<noteq> system_name r \<or> HasDraco r i"
  | (added) i ctx1 f1 y where "system = system_name r" "\<not> HasDraco r i"
      "AddDraco E i ctx1 r f1 = (y, r', f')"
      "x = (case y of Inl e \<Rightarrow> context_invalid (''Failed to create Draco instance due to exception: '' @ e)
            | Inr _ \<Rightarrow> Inr (Inr i))"
proof (cases "prepare_context (env_codec E) (data_path_root r @ [system]) ctx f")
  case (Pair z f1)
  show ?thesis
  proof (cases z)
    case (Inl res)
    with assms Pair prepare_context_error [OF Pair [unfolded Inl]] show ?thesis
      by (intro failed) (auto simp: rr_RegisterPlanContext_def)
  next
    case (Inr p)
    obtain i ctx1 where p: "p = (i, ctx1)" by force
    show ?thesis
    proof (cases "system \<noteq> system_name r \<or> HasDraco r i")
      case True
      with assms Pair Inr p show ?thesis
        by (intro known [of i]) (auto simp: rr_RegisterPlanContext_def split: if_splits)
    next
      case False
      obtain y r1 f2 where a: "AddDraco E i ctx1 r f1 = (y, r1, f2)" by (metis prod.collapse)
      with assms Pair Inr p False show ?thesis
        by (intro added [of i ctx1 f1 y]) (auto simp: rr_RegisterPlanContext_def split: sum.splits)
    qed
  qed
qed

lemma rr_RegisterPlanContext_inv [inv_intros]:
  assumes "rr_inv E r" "rr_RegisterPlanContext E system ctx r f = (x, r', f')" shows "rr_inv E r'"
  using assms(2)
  by (cases rule: rr_RegisterPlanContext_cases) (use assms(1) AddDraco_inv in auto)

lemma rr_RemovePlanContext_cases:
  assumes "rr_inv E r" "rr_RemovePlanContext system i erase r f = (x, r', f')"
  obtains (refused) e where "x = Inr (Inl e)" "r' = r" "f' = f"
      "err_code e = (if system \<noteq> system_name r then CONTEXT_INVALID else CONTEXT_NOT_FOUND)"
      "system \<noteq> system_name r \<or> \<not> HasDraco r i
        \<or> (erase \<and> \<not> fs_is_directory f (context_base_path r @ [to_string i]))"
  | (removed) "x = Inr (Inr i)" "system = system_name r" "HasDraco r i"
      "r' = r\<lparr> active_contexts_map := (active_contexts_map r)(i := None), draco_map := (draco_map r)(i := None) \<rparr>"
      "f' = (if erase then fs_remove_all (context_base_path r @ [to_string i]) f else f)"
proof (cases "system \<noteq> system_name r \<or> \<not> HasDraco r i
        \<or> (erase \<and> \<not> fs_is_directory f (context_base_path r @ [to_string i]))")
  case True
  with assms(2) show ?thesis
    by (auto simp: rr_RemovePlanContext_def Let_def split: if_splits intro: refused)
next
  case False
  with assms(2) show ?thesis
    by (intro removed) (auto simp: rr_RemovePlanContext_def RemoveDraco_def HasDraco_def Let_def)
qed

lemma rr_RemovePlanContext_inv [inv_intros]:
  assumes "rr_inv E r" "rr_RemovePlanContext system i erase r f = (x, r', f')" shows "rr_inv E r'"
  using assms
proof (cases rule: rr_RemovePlanContext_cases)
  case removed
  with assms(1) show ?thesis by (auto simp: rr_inv_def)
qed (simp add: assms(1))

lemma add_contexts_inv:
  assumes "rr_inv E r" "add_contexts E cs errs r f = (errs', r', f')" shows "rr_inv E r'"
  using assms
  by (induction cs arbitrary: errs r f)
    (auto split: option.splits prod.splits sum.splits dest: AddDraco_inv)

lemma ResourceRegistry_inv [inv_intros]:
  assumes "ResourceRegistry E system opts f = (Inr r, f')" shows "rr_inv E r"
proof -
  have "rr_inv E \<lparr> system_name = system, rr_options = opts, data_path_root = p,
      draco_map = (\<lambda>_. None), active_contexts_map = (\<lambda>_. None) \<rparr>" for p
    by (simp add: rr_inv_def)
  with assms show ?thesis
    by (auto simp: ResourceRegistry_def Let_def split: sum.splits prod.splits if_splits
        intro: add_contexts_inv)
qed

section \<open>Sequences of calls\<close>

datatype ('dmd, 'j) rr_call =
  CallRegister string "('dmd, 'j) plan_context" | CallRemove string context_id bool
  | CallMigrate context_id context_id int bool

definition rr_call ::
  "('d, 'dmd, 'j, 'y) rr_env \<Rightarrow> ('dmd, 'j) rr_call
   \<Rightarrow> ('d, 'dmd, 'j) resource_registry \<times> fs \<Rightarrow> ('d, 'dmd, 'j) resource_registry \<times> fs" where
  "rr_call E c s = (case s of (r, f) \<Rightarrow> (case c of
     CallRegister system ctx \<Rightarrow> snd (rr_RegisterPlanContext E system ctx r f)
   | CallRemove system i erase \<Rightarrow> snd (rr_RemovePlanContext system i erase r f)
   | CallMigrate a b n rep \<Rightarrow> snd (MigratePlanningArtifacts E a b n rep r f)))"

lemma rr_call_inv:
  assumes "rr_inv E (fst s)" "api_ok (env_api E)" shows "rr_inv E (fst (rr_call E c s))"
proof (cases s)
  case (Pair r f)
  then have r: "rr_inv E r" using assms(1) by simp
  show ?thesis
    using rr_RegisterPlanContext_inv [OF r] rr_RemovePlanContext_inv [OF r]
      MigratePlanningArtifacts_inv [OF r assms(2)]
    by (cases c) (simp_all add: rr_call_def Pair, (metis prod.collapse)+)
qed

lemma rr_calls_inv:
  "rr_inv E (fst s) \<Longrightarrow> api_ok (env_api E) \<Longrightarrow> rr_inv E (fst (fold (rr_call E) cs s))"
  by (induction cs arbitrary: s) (simp_all add: rr_call_inv)

section \<open>Properties\<close>

text \<open>C3: After any sequence of registrations, removals and migrations on a constructed registry, successful or
  not, every stored planner is stored under the hash computed from its own model and constraints,
  and a context is active exactly if its planner is stored.\<close>
theorem registry_consistent:
  assumes "ResourceRegistry E system opts f = (Inr r0, f0)" "api_ok (env_api E)"
  defines "r \<equiv> \<lambda>cs. fst (fold (rr_call E) cs (r0, f0))"
  shows "(\<forall>i d. draco_map (r cs) i = Some d \<longrightarrow> computed_hash (env_api E) d = i)
    \<and> dom (draco_map (r cs)) = dom (active_contexts_map (r cs))"
proof -
  have "rr_inv E (r cs)" unfolding r_def
    using rr_calls_inv [of E "(r0, f0)" cs] ResourceRegistry_inv [OF assms(1)] assms(2) by simp
  then show ?thesis by (auto simp: rr_inv_def dom_def)
qed

text \<open>A successful registration makes the context available exactly when it belongs to the active
  system: then (unless the registry only does dry runs or reassigns ids) its planner is stored under the returned id; for
  another system nothing is stored.  Planners that were there before are never replaced, and a
  failed registration leaves the registry unchanged.\<close>
theorem register_plan_context_outcome:
  assumes "rr_RegisterPlanContext E system ctx r f = (x, r', f')"
  shows "(\<forall>i. x = Inr (Inr i) \<and> system = system_name r \<and> \<not> dry_run (rr_options r)
            \<and> \<not> update_resource_ids (rr_options r) \<longrightarrow> HasDraco r' i)
    \<and> (\<forall>k d. draco_map r k = Some d \<longrightarrow> draco_map r' k = Some d)
    \<and> ((system \<noteq> system_name r \<or> (\<forall>i. x \<noteq> Inr (Inr i))) \<longrightarrow> r' = r)"
  using assms
proof (cases rule: rr_RegisterPlanContext_cases)
  case failed
  then show ?thesis by (auto simp: context_invalid_def)
next
  case (known i)
  then show ?thesis by auto
next
  case (added i ctx1 f1 y)
  from added(3) show ?thesis
  proof (cases rule: AddDraco_cases)
    case same
    with added show ?thesis by (auto simp: context_invalid_def split: sum.splits)
  next
    case (stored d)
    with added show ?thesis by (auto simp: HasDraco_def emplace_def)
  qed
qed

text \<open>Removing a plan context is refused, with nothing changed, exactly if it belongs to another
  system, has no planner, or is to be erased and has no directory; otherwise its planner and
  context are dropped, all others stay, and with \<open>erase\<close> every file below its directory is gone
  and no other.\<close>
theorem remove_plan_context_outcome:
  assumes "rr_inv E r" "rr_RemovePlanContext system i erase r f = (x, r', f')"
  defines "dir \<equiv> context_base_path r @ [to_string i]"
  shows "((\<exists>e. x = Inr (Inl e)) \<longleftrightarrow>
        system \<noteq> system_name r \<or> \<not> HasDraco r i \<or> (erase \<and> \<not> fs_is_directory f dir))
    \<and> ((\<exists>e. x = Inr (Inl e)) \<and> r' = r \<and> f' = f
      \<or> x = Inr (Inr i) \<and> \<not> HasDraco r' i \<and> (\<forall>k. k \<noteq> i \<longrightarrow> draco_map r' k = draco_map r k)
      \<and> (\<forall>p. \<not> prefix dir p \<longrightarrow> map_of f' p = map_of f p)
      \<and> (erase \<longrightarrow> (\<forall>p. prefix dir p \<longrightarrow> \<not> fs_exists f' p)))"
  using assms(1,2)
proof (cases rule: rr_RemovePlanContext_cases)
  case (refused e)
  then show ?thesis unfolding dir_def by blast
next
  case removed
  have "\<not> (erase \<and> \<not> fs_is_directory f (context_base_path r @ [to_string i]))"
    using assms(2) removed by (auto simp: rr_RemovePlanContext_def Let_def split: if_splits)
  with removed show ?thesis unfolding dir_def
    by (auto simp: HasDraco_def remove_all_keeps remove_all_gone)
qed

lemma then_step_InrE:
  assumes "then_step a k = (Inr y, s)"
  obtains u r f where "a = (Inr u, r, f)" "k r f = (Inr y, s)"
  using assms by (cases a) (auto simp: then_step_def split: sum.splits)

lemma with_ctx_fs_step_InrD: "with_ctx c (fs_step op r f) = (Inr u, s, f') \<Longrightarrow> op f = Inr f'"
  by (auto simp: with_ctx_def fs_step_def split: sum.splits)

lemma with_ctx_InrD: "with_ctx c a = (Inr u, s, f') \<Longrightarrow> fst a = Inr u"
  by (auto simp: with_ctx_def split: prod.splits)

text \<open>A context whose artifacts are migrated onto itself (to repair them) loses its roadmap before it
  is read: the target's roadmap file is removed first, and then the source's, which is the same
  file, is loaded; so if loading a missing roadmap throws, such a migration never succeeds.\<close>
theorem self_migration_reads_removed_roadmap:
  assumes "\<And>d p q b f. \<not> fs_exists f p \<Longrightarrow> \<exists>e. fst (load_validate_save (env_api E) d p q b f) = Inl e"
  shows "fst (MigratePlanningArtifacts E i i n rep r f) \<noteq> Inr (Inr ())"
proof -
  have err: "\<exists>e. fst (on_planner (\<lambda>d. load_validate_save (env_api E) d p p rep) i r f') = Inl e"
    if "fs_remove p f = Inr f'" "p \<noteq> []" for p r f f'
    using assms [OF fs_remove_gone [OF that]]
    by (auto simp: on_planner_def rr_GetDraco_def split: option.splits prod.splits) (metis fst_conv)
  have no: False
    if "with_ctx c (fs_step (fs_remove p) r0 f0) = (Inr u, s1, f1)"
      "with_ctx c' (on_planner (\<lambda>d. load_validate_save (env_api E) d p p rep) i r1 f1) = (Inr v, s2, f2)"
      "p \<noteq> []"
    for c p f0 u s1 f1 c' r1 v s2 f2 r0
    using err [OF with_ctx_fs_step_InrD [OF that(1)] that(3), of r1] with_ctx_InrD [OF that(2)] by auto
  have "migrate_steps E i i n rep r f \<noteq> (Inr (), s)" for s
  proof
    assume "migrate_steps E i i n rep r f = (Inr (), s)"
    then show False
      unfolding migrate_steps_def Let_def split_beta
      by (elim then_step_InrE) (erule (1) no, simp)
  qed
  then show ?thesis
    by (auto simp: MigratePlanningArtifacts_def Let_def split: sum.splits prod.splits if_splits)
qed

section \<open>Witnesses\<close>

text \<open>A registry whose planners are their own hashes.\<close>

definition sample_env :: "(context_id, string, string, string) rr_env" where
  "sample_env = \<lparr> env_codec = sample_codec,
     env_params = \<lparr> load_doc = (\<lambda>n s. Inr s), default_doc = (\<lambda>n. ''default'') \<rparr>,
     env_api = \<lparr> make_planner = (\<lambda>a b f. Inr 7), computed_hash = (\<lambda>d. d),
       load_validate_save = (\<lambda>d p q b f. (if fs_exists f p then Inr () else Inl ''no roadmap'', d, f)),
       repair_regions = (\<lambda>d n f. (Inr (), d, f)) \<rparr> \<rparr>"

lemma sample_env_ok: "api_ok (env_api sample_env)"
  by (simp add: api_ok_def sample_env_def)

definition sample_options :: resource_options where
  "sample_options = default_resource_options\<lparr> load_resources_on_init := False,
     data_path_root_override := Some [''d''] \<rparr>"

definition sample_registry :: "(context_id, string, string) resource_registry" where
  "sample_registry = \<lparr> system_name = ''arm'', rr_options = sample_options, data_path_root = [''d''],
     draco_map = (\<lambda>_. None), active_contexts_map = (\<lambda>_. None) \<rparr>"

definition sample_new_context :: "(string, string) plan_context" where
  "sample_new_context = (sample_context [(''scene_name'', ''kitchen'')])\<lparr> pc_id := None,
     pc_models := [\<lparr> model_name = ''arm'', model_file = \<lparr> mf_name = ''arm'', mf_format = URDF,
       mf_package_name = ''p'', mf_parent = (True, [''urdf'']), mf_content = ''<robot/>'' \<rparr>, model_meshes = [] \<rparr>] \<rparr>"

lemma sample_registration:
  "fst (rr_RegisterPlanContext sample_env ''arm'' sample_new_context sample_registry []) = Inr (Inr 7)"
  by code_simp

theorem registry_consistent_witness:
  "\<exists>r0 f0. ResourceRegistry sample_env ''arm'' sample_options [] = (Inr r0, f0)
     \<and> dom (draco_map (fst (fold (rr_call sample_env) [CallRegister ''arm'' sample_new_context] (r0, f0))))
       = dom (active_contexts_map (fst (fold (rr_call sample_env) [CallRegister ''arm'' sample_new_context] (r0, f0))))"
proof -
  obtain r0 f0 where r: "ResourceRegistry sample_env ''arm'' sample_options [] = (Inr r0, f0)"
    by (simp add: ResourceRegistry_def sample_options_def default_resource_options_def Let_def
        fs_create_directories_def context_base_path_def fs_is_directory_def)
  from registry_consistent [OF r sample_env_ok, of "[CallRegister ''arm'' sample_new_context]"] r
  show ?thesis by blast
qed

theorem register_plan_context_outcome_witness:
  "HasDraco (fst (snd (rr_RegisterPlanContext sample_env ''arm'' sample_new_context sample_registry []))) 7"
proof -
  obtain r' f' where r: "rr_RegisterPlanContext sample_env ''arm'' sample_new_context sample_registry []
      = (Inr (Inr 7), r', f')"
    using sample_registration by (metis prod.collapse)
  from register_plan_context_outcome [OF r] r show ?thesis
    by (simp add: sample_registry_def sample_options_def default_resource_options_def)
qed

theorem remove_plan_context_outcome_witness:
  "\<exists>e. fst (rr_RemovePlanContext ''arm'' 7 True
     (sample_registry\<lparr> draco_map := [7 \<mapsto> 7], active_contexts_map := [7 \<mapsto> sample_new_context] \<rparr>) []) = Inr (Inl e)"
proof -
  let ?r = "sample_registry\<lparr> draco_map := [7 \<mapsto> 7], active_contexts_map := [7 \<mapsto> sample_new_context] \<rparr>"
  have i: "rr_inv sample_env ?r" by (simp add: rr_inv_def sample_env_def)
  obtain x r' f' where r: "rr_RemovePlanContext ''arm'' 7 True ?r [] = (x, r', f')" by (metis prod.collapse)
  from remove_plan_context_outcome [OF i r] r show ?thesis
    by (simp add: fs_is_directory_def context_base_path_def)
qed

theorem self_migration_reads_removed_roadmap_witness:
  "fst (MigratePlanningArtifacts sample_env 7 7 0 True
     (sample_registry\<lparr> draco_map := [7 \<mapsto> 7], active_contexts_map := [7 \<mapsto> sample_new_context] \<rparr>)
     [([''d''], Dir), ([''d'', ''arm''], Dir), ([''d'', ''arm'', ''contexts''], Dir),
      ([''d'', ''arm'', ''contexts'', ''7''], Dir),
      ([''d'', ''arm'', ''contexts'', ''7'', THUNDER_ROADMAP_FILE], File ''roadmap'')]) \<noteq> Inr (Inr ())"
  by (rule self_migration_reads_removed_roadmap) (simp add: sample_env_def)

end
