(* ===== verification/Viz_Hub.thy ===== *)
theory Viz_Hub
  imports Resource_Registry
begin

text \<open>
  \<open>service/visualization/visualizer_hub.h\<close> and \<open>.cc\<close>: the hub that owns the model shown in the browser.
  Its state is the record \<open>hub\<close>; the positions in the Meshcat context and the buttons that Meshcat shows are
  fields of it.  The loaded robot (\<open>Draco\<close>, over Drake) is seen through the record \<open>viz_model\<close>, what is not under
  \<open>src/service\<close> through \<open>hub_env\<close>.  A task for Meshcat is a value.

  The run thread makes passes over the status (\<open>run_pass\<close>) and, while active, ticks
  (\<open>active_tick\<close>).  Waiting for a status to change is letting the run thread make a pass.  Joint limit
  indicators, robot opacity, the camera and the HTML export (its button is never added) only produce output and are left out.
\<close>

section \<open>Data\<close>

datatype visualizer_status = NoStatus | Idle | Starting | Active | Stopping

record 'y visualizer_data =
  vd_context_id :: "context_id option"
  vd_dmd_filename :: "string option"
  vd_meshcat_params :: "'y option"

record 'y visualizer_options =
  vo_meshcat_params :: 'y
  enable_sliders :: bool
  enable_set_configuration :: bool
  enable_frame_toggle_web :: bool
  show_iris_regions :: bool
  show_prm :: bool
  default_init :: bool
  default_contexts :: "(string \<times> context_id) list"
  ignore_patterns :: "string list"
  ignore_prefixes :: "string list"
  ignore_suffixes :: "string list"

type_synonym position = "real list"

datatype ('p, 's) meshcat_task =
    PlaceObject string 's 'p
  | DeletePath string
  | MoveIfPresent string 'p
  | MoveAll "(string \<times> 'p) list"
  | MovePath string 'p
  | ShowPath string bool

record plant_frame =
  pf_model :: string
  pf_name :: string
  pf_world_body :: bool
  pf_static :: bool

record 'p viz_model =
  vm_hash :: context_id
  vm_num_positions :: nat
  vm_initial :: position
  vm_default :: "position option"
  vm_robots :: "position \<Rightarrow> string list"
  vm_frames :: "plant_frame list"
  vm_find_frame :: "string \<Rightarrow> (string \<times> string) option"
  vm_pose :: "string \<Rightarrow> string \<Rightarrow> position \<Rightarrow> 'p throws"
  vm_axes_pose :: "nat \<Rightarrow> position \<Rightarrow> 'p"
  vm_complete :: "(string \<times> position) list \<Rightarrow> position \<Rightarrow> position throws"

record ('dmd, 'j, 'y, 'p) hub_env =
  he_codec :: "('dmd, 'j) codec"
  he_params :: "'y param_io"
  default_adapter :: "('dmd, 'y) draco_adapter"
  collision_shown :: "'y \<Rightarrow> bool"
  on_port_7000 :: "'y \<Rightarrow> 'y"
  make_draco :: "('dmd, 'y) draco_adapter \<Rightarrow> 'p viz_model throws"

record frame_axes_info =
  fa_index :: nat
  is_static :: bool
  hidden_by_toggle :: bool

record ('dmd, 'y, 'p, 's) hub =
  hub_system :: string
  hub_data_path :: path
  hub_status :: visualizer_status
  hub_adapter :: "('dmd, 'y) draco_adapter option"
  hub_options :: "'y visualizer_options"
  hub_draco :: "'p viz_model option"
  meshcat_positions :: position
  default_positions :: "position option"
  frame_axes :: "(string \<times> frame_axes_info) list"
  pending_position :: "position option"
  last_push_time :: "string \<Rightarrow> int option"
  task_queue :: "('p, 's) meshcat_task list"
  position_stream_button :: string
  button_order :: "(string \<times> string) list"
  meshcat_buttons :: "string list"

definition reset_button :: string where "reset_button = ''Reset Positions''"
definition inactive_button :: string where "inactive_button = ''Position Stream: Inactive''"
definition position_push_timeout_ms :: int where "position_push_timeout_ms = 1000"

section \<open>Status\<close>

definition SetStatus :: "visualizer_status \<Rightarrow> ('dmd, 'y, 'p, 's) hub \<Rightarrow> ('dmd, 'y, 'p, 's) hub" where
  "SetStatus s h = h\<lparr> hub_status := s \<rparr>"

definition RequestStop :: "('dmd, 'y, 'p, 's) hub \<Rightarrow> ('dmd, 'y, 'p, 's) hub" where
  "RequestStop = SetStatus Stopping"

definition hub_HasDraco :: "('dmd, 'y, 'p, 's) hub \<Rightarrow> bool" where "hub_HasDraco h = (hub_draco h \<noteq> None)"

definition no_draco :: exn where "no_draco = ''DRAKE_THROW_UNLESS(draco_ != nullptr)''"

definition ActiveHash :: "('dmd, 'y, 'p, 's) hub \<Rightarrow> context_id throws" where
  "ActiveHash h = (case hub_draco h of None \<Rightarrow> Inl no_draco | Some m \<Rightarrow> Inr (vm_hash m))"

section \<open>Buttons\<close>

definition ResetButtons :: "('dmd, 'y, 'p, 's) hub \<Rightarrow> ('dmd, 'y, 'p, 's) hub" where
  "ResetButtons h = h\<lparr> meshcat_buttons := remdups (map fst (button_order h)) \<rparr>"

definition AddButton :: "string \<Rightarrow> int \<Rightarrow> ('dmd, 'y, 'p, 's) hub \<Rightarrow> ('dmd, 'y, 'p, 's) hub throws" where
  "AddButton name idx h =
     (let n = int (length (button_order h)); k = (if idx < 0 then n + idx + 1 else idx) in
      if k < 0 \<or> k > n then Inl ''Invalid button index''
      else Inr (ResetButtons (h\<lparr> button_order := take (nat k) (button_order h) @ [(name, [])]
                                   @ drop (nat k) (button_order h) \<rparr>)))"

definition DeleteButton :: "string \<Rightarrow> ('dmd, 'y, 'p, 's) hub \<Rightarrow> ('dmd, 'y, 'p, 's) hub" where
  "DeleteButton name h = h\<lparr> button_order := filter (\<lambda>b. fst b \<noteq> name) (button_order h),
     meshcat_buttons := filter (\<lambda>b. b \<noteq> name) (meshcat_buttons h) \<rparr>"

definition HasButton :: "string \<Rightarrow> ('dmd, 'y, 'p, 's) hub \<Rightarrow> bool" where
  "HasButton name h = (name \<in> set (meshcat_buttons h))"

section \<open>Frames\<close>

definition frames_path :: "string \<Rightarrow> string \<Rightarrow> string" where
  "frames_path mn fn = ''/drake/frames/'' @ mn @ ''/'' @ fn @ ''/''"

definition frame_ignored :: "'y visualizer_options \<Rightarrow> plant_frame \<Rightarrow> bool" where
  "frame_ignored opts fr \<longleftrightarrow> pf_world_body fr \<or> pf_model fr = ''added_geometry'' \<or> pf_name fr = ''added_geometry''
     \<or> list_ex (\<lambda>s. sublist s (pf_name fr)) (ignore_patterns opts)
     \<or> list_ex (\<lambda>s. starts_with (pf_name fr) s) (ignore_prefixes opts)
     \<or> list_ex (\<lambda>s. suffix s (pf_name fr)) (ignore_suffixes opts)"

definition SetupFrameAxes :: "'p viz_model \<Rightarrow> ('dmd, 'y, 'p, 's) hub \<Rightarrow> ('dmd, 'y, 'p, 's) hub" where
  "SetupFrameAxes m h =
     (let hide = \<not> enable_frame_toggle_web (hub_options h);
          add = (\<lambda>(i, fr) axes. let p = frames_path (pf_model fr) (pf_name fr) in
                   if frame_ignored (hub_options h) fr \<or> p \<in> fst ` set axes then axes
                   else insort_key fst (p, \<lparr> fa_index = i, is_static = pf_static fr, hidden_by_toggle = hide \<rparr>) axes)
      in h\<lparr> frame_axes := fold add (enumerate 0 (vm_frames m)) [] \<rparr>)"

definition UpdateFrameAxes :: "'p viz_model \<Rightarrow> ('dmd, 'y, 'p, 's) hub \<Rightarrow> (string \<times> 'p) list" where
  "UpdateFrameAxes m h = map (\<lambda>(p, info). (p, vm_axes_pose m (fa_index info) (meshcat_positions h)))
     (filter (\<lambda>(p, info). \<not> is_static info \<and> \<not> hidden_by_toggle info) (frame_axes h))"

definition QueueMeshcatTask ::
  "('p, 's) meshcat_task \<Rightarrow> ('dmd, 'y, 'p, 's) hub \<Rightarrow> ('dmd, 'y, 'p, 's) hub" where
  "QueueMeshcatTask t h = h\<lparr> task_queue := task_queue h @ [t] \<rparr>"

definition frame_target :: "'p \<Rightarrow> 'p viz_model \<Rightarrow> ('dmd, 'y, 'p, 's) hub \<Rightarrow> bool \<Rightarrow> frame_axes_info \<Rightarrow> 'p" where
  "frame_target hidden m h visible info =
     (if visible then vm_axes_pose m (fa_index info) (meshcat_positions h) else hidden)"

definition ToggleFramesByPath ::
  "'p \<Rightarrow> string \<Rightarrow> bool \<Rightarrow> ('dmd, 'y, 'p, 's) hub \<Rightarrow> (string \<times> 'p) list \<times> ('dmd, 'y, 'p, 's) hub" where
  "ToggleFramesByPath hidden p active h = (case hub_draco h of
     None \<Rightarrow> ([], h)
   | Some m \<Rightarrow> (let hit = (\<lambda>q. starts_with q (''/drake/frames/'' @ p)) in
       (map (\<lambda>(q, info). (q, frame_target hidden m h active info)) (filter (\<lambda>(q, info). hit q) (frame_axes h)),
        h\<lparr> frame_axes := map (\<lambda>(q, info). (q, if hit q then info\<lparr> hidden_by_toggle := \<not> active \<rparr> else info)) (frame_axes h) \<rparr>)))"

definition ToggleFrame ::
  "'p \<Rightarrow> string \<Rightarrow> bool \<Rightarrow> ('dmd, 'y, 'p, 's) hub \<Rightarrow> bool \<times> ('dmd, 'y, 'p, 's) hub" where
  "ToggleFrame hidden p visible h = (case hub_draco h of
     None \<Rightarrow> (False, h)
   | Some m \<Rightarrow> (case map_of (frame_axes h) p of
       None \<Rightarrow> (False, h)
     | Some info \<Rightarrow>
       if enable_frame_toggle_web (hub_options h) then (True, QueueMeshcatTask (ShowPath p visible) h)
       else (True, QueueMeshcatTask (MovePath p (frame_target hidden m h visible info))
              (h\<lparr> frame_axes := AList.update p (info\<lparr> hidden_by_toggle := \<not> visible \<rparr>) (frame_axes h) \<rparr>))))"

definition ResolveFrameMeshcatPath :: "string \<Rightarrow> ('dmd, 'y, 'p, 's) hub \<Rightarrow> string option" where
  "ResolveFrameMeshcatPath n h = (case hub_draco h of
     None \<Rightarrow> None | Some m \<Rightarrow> map_option (\<lambda>(mn, fn). frames_path mn fn) (vm_find_frame m n))"

definition hub_CalcPose ::
  "string \<Rightarrow> string \<Rightarrow> (string \<times> position) list option \<Rightarrow> ('dmd, 'y, 'p, 's) hub \<Rightarrow> 'p throws" where
  "hub_CalcPose frame_B frame_A override h = (case hub_draco h of
     None \<Rightarrow> Inl no_draco
   | Some m \<Rightarrow> bindE (case override of None \<Rightarrow> Inr (meshcat_positions h)
                       | Some c \<Rightarrow> vm_complete m c (meshcat_positions h)) (vm_pose m frame_A frame_B))"

section \<open>Loading a model\<close>

definition load_known_context ::
  "('dmd, 'j) codec \<Rightarrow> path \<Rightarrow> context_id \<Rightarrow> fs \<Rightarrow> ('dmd, 'j) plan_context option throws \<times> fs" where
  "load_known_context C data i f =
     (let urdf = Some (data @ [''urdf'']); root = data @ [''contexts''] in
      case LoadContext C urdf (root @ [''visualization'']) (context_of_id C i) f of
        (Inl e, ctx, f1) \<Rightarrow> (Inl e, f1)
      | (Inr True, ctx, f1) \<Rightarrow> (Inr (Some ctx), f1)
      | (Inr False, ctx, f1) \<Rightarrow> (case LoadContext C urdf root ctx f1 of
            (Inl e, ctx2, f2) \<Rightarrow> (Inl e, f2)
          | (Inr True, ctx2, f2) \<Rightarrow> (Inr (Some ctx2), f2)
          | (Inr False, ctx2, f2) \<Rightarrow> (Inr None, f2)))"

definition load_adapter ::
  "('dmd, 'j, 'y, 'p) hub_env \<Rightarrow> 'y visualizer_data \<Rightarrow> ('dmd, 'y, 'p, 's) hub \<Rightarrow> fs
   \<Rightarrow> ('dmd, 'y) draco_adapter option throws \<times> fs" where
  "load_adapter E data h f =
     (case vd_context_id data of
        Some i \<Rightarrow> (case load_known_context (he_codec E) (hub_data_path h) i f of
            (Inl e, f1) \<Rightarrow> (Inl e, f1)
          | (Inr None, f1) \<Rightarrow> (Inr None, f1)
          | (Inr (Some ctx), f1) \<Rightarrow>
            (case MakeDracoAdapterFromContext (he_params E) (hub_system h) ctx False (Some True) (Some (hub_data_path h)) f1 of
               Inl e \<Rightarrow> (Inl e, f1)
             | Inr (a, f2) \<Rightarrow> (Inr (Some (if collision_shown E (vo_meshcat_params (hub_options h)) then a
                 else a\<lparr> da_constraints := (da_constraints a)\<lparr> cn_checker := None \<rparr> \<rparr>)), f2)))
      | None \<Rightarrow> (case vd_dmd_filename data of
            None \<Rightarrow> (Inl ''undefined: neither context nor file'', f)
          | Some n \<Rightarrow> (case load_yaml (load_dmd (he_codec E)) (hub_data_path h @ [''dmd'', n]) f of
                Inl e \<Rightarrow> (Inl e, f)
              | Inr d \<Rightarrow> (Inr (Some ((default_adapter E)\<lparr> da_system := hub_system h, da_dmd := d,
                  da_constraints := (da_constraints (default_adapter E))\<lparr> cn_checker := Some CollisionCheckerAdapter \<rparr>,
                  da_xml_file := hub_data_path h @ [''urdf'', ''package.xml''] \<rparr>)), f))))"

text \<open>What the run thread does when it is not active.\<close>

definition Setup :: "'p viz_model \<Rightarrow> ('dmd, 'y, 'p, 's) hub \<Rightarrow> ('dmd, 'y, 'p, 's) hub throws" where
  "Setup m h =
     bindE (case vm_default m of
         None \<Rightarrow> Inr h
       | Some q \<Rightarrow> (let h1 = h\<lparr> default_positions := Some q, meshcat_positions := q \<rparr> in
           if enable_sliders (hub_options h) then AddButton reset_button 0 h1 else Inr h1)) (\<lambda>h1.
     bindE (if enable_set_configuration (hub_options h)
            then AddButton inactive_button 0 (h1\<lparr> position_stream_button := inactive_button \<rparr>) else Inr h1) (\<lambda>h2.
     Inr (SetupFrameAxes m h2)))"

definition run_pass ::
  "('dmd, 'j, 'y, 'p) hub_env \<Rightarrow> ('dmd, 'y, 'p, 's) hub \<Rightarrow> ('dmd, 'y, 'p, 's) hub throws" where
  "run_pass E h = (case hub_status h of
     Idle \<Rightarrow> Inr h
   | Active \<Rightarrow> Inr h
   | Stopping \<Rightarrow> Inr (if hub_HasDraco h
       then SetStatus Idle (h\<lparr> hub_draco := None, hub_adapter := None, default_positions := None, frame_axes := [] \<rparr>)
       else SetStatus Idle h)
   | Starting \<Rightarrow>
       (case hub_adapter h of
          None \<Rightarrow> Inl ''undefined: no adapter''
        | Some a \<Rightarrow> (case make_draco E a of
            Inl _ \<Rightarrow> Inr (SetStatus Idle h)
          | Inr m \<Rightarrow> bindE (Setup m (h\<lparr> hub_draco := Some m, meshcat_positions := vm_initial m, meshcat_buttons := [] \<rparr>))
              (\<lambda>h1. Inr (SetStatus Active h1))))
   | NoStatus \<Rightarrow> Inl ''Unknown status: None'')"

text \<open>The result is the \<open>bool\<close>; the exceptions of loading are caught, one of the run thread is not.\<close>

definition LoadAndSetModelData ::
  "('dmd, 'j, 'y, 'p) hub_env \<Rightarrow> 'y visualizer_data \<Rightarrow> bool \<Rightarrow> ('dmd, 'y, 'p, 's) hub \<Rightarrow> fs
   \<Rightarrow> bool throws \<times> ('dmd, 'y, 'p, 's) hub \<times> fs" where
  "LoadAndSetModelData E data force h f =
     (if hub_status h = Active \<and> (default_init (hub_options h) \<or> \<not> force) then (Inr False, h, f)
      else case (if hub_status h = Active then run_pass E (SetStatus Stopping h) else Inr h) of
        Inl e \<Rightarrow> (Inl e, h, f)
      | Inr h1 \<Rightarrow>
        (case load_adapter E data h1 f of
           (Inl e, f1) \<Rightarrow> (Inr False, h1, f1)
         | (Inr None, f1) \<Rightarrow> (Inr False, h1, f1)
         | (Inr (Some a), f1) \<Rightarrow>
             (let params = on_port_7000 E (case vd_meshcat_params data of
                             Some y \<Rightarrow> y | None \<Rightarrow> vo_meshcat_params (hub_options h1))
              in (Inr True, SetStatus Starting (h1\<lparr> hub_adapter := Some (a\<lparr> da_meshcat_params := Some params \<rparr>) \<rparr>), f1))))"

text \<open>The constructor; the environment variable \<open>DEPLOYMENT\<close> is an argument.\<close>

definition VisualizerHub ::
  "('dmd, 'j, 'y, 'p) hub_env \<Rightarrow> string \<Rightarrow> 'y visualizer_options \<Rightarrow> string option \<Rightarrow> fs
   \<Rightarrow> ('dmd, 'y, 'p, 's) hub throws \<times> fs" where
  "VisualizerHub E system opts deployment f =
     (let h = \<lparr> hub_system = system, hub_data_path = [''data'', system], hub_status = Idle, hub_adapter = None,
                hub_options = opts, hub_draco = None, meshcat_positions = [], default_positions = None,
                frame_axes = [], pending_position = None, last_push_time = (\<lambda>_. None), task_queue = [],
                position_stream_button = [], button_order = [], meshcat_buttons = [] \<rparr> in
      if \<not> default_init opts then (Inr h, f)
      else if deployment = None \<or> deployment = Some []
        then (Inl ''DEPLOYMENT environment variable not set for default init!'', f)
      else case map_of (default_contexts opts) (to_lower (the deployment)) of
        None \<Rightarrow> (Inl ''No default context found for deployment'', f)
      | Some i \<Rightarrow>
        (case LoadAndSetModelData E \<lparr> vd_context_id = Some i, vd_dmd_filename = None, vd_meshcat_params = None \<rparr> False h f of
           (Inl e, h1, f1) \<Rightarrow> (Inl e, f1)
         | (Inr False, h1, f1) \<Rightarrow> (Inl ''Failed to load default model on initialization!'', f1)
         | (Inr True, h1, f1) \<Rightarrow> (Inr h1, f1)))"

section \<open>Positions\<close>

text \<open>\<open>JointPositionsChanged\<close>: the difference in the maximum norm against the dead band.  Vectors of
  different sizes fail Eigen's assertion.\<close>

definition JointPositionsChanged :: "position \<Rightarrow> position \<Rightarrow> bool throws" where
  "JointPositionsChanged a b = (if length a \<noteq> length b then Inl ''Eigen: sizes differ''
     else Inr (foldr max (map2 (\<lambda>x y. \<bar>y - x\<bar>) a b) 0 > 1 / 10000))"

definition SetMeshcatPositions :: "'p viz_model \<Rightarrow> position \<Rightarrow> ('dmd, 'y, 'p, 's) hub \<Rightarrow> ('dmd, 'y, 'p, 's) hub throws" where
  "SetMeshcatPositions m q h = (if length q \<noteq> vm_num_positions m then Inl ''SetPositions: wrong size''
     else Inr (h\<lparr> meshcat_positions := q \<rparr>))"

text \<open>\<open>SetConfiguration\<close> of a position: an error message, the refusal of the request, or success; and for a
  system configuration, which is completed from the present positions.\<close>

definition set_configuration ::
  "int \<Rightarrow> position \<Rightarrow> ('dmd, 'y, 'p, 's) hub \<Rightarrow> (string + bool) throws \<times> ('dmd, 'y, 'p, 's) hub" where
  "set_configuration now q h =
     (if \<not> enable_set_configuration (hub_options h) then (Inr (Inl ''Setting configuration is disabled!''), h)
      else case hub_draco h of
        None \<Rightarrow> (Inl no_draco, h)
      | Some m \<Rightarrow>
        if length q \<noteq> vm_num_positions m then (Inr (Inl ''Invalid configuration size''), h)
        else let h1 = h\<lparr> last_push_time := (\<lambda>r. if r \<in> set (vm_robots m q) then Some now else last_push_time h r) \<rparr> in
          (case pending_position h1 of
             None \<Rightarrow> (Inr (Inr True), h1\<lparr> pending_position := Some q \<rparr>)
           | Some p \<Rightarrow> (case JointPositionsChanged p q of
                 Inl e \<Rightarrow> (Inl e, h1)
               | Inr c \<Rightarrow> (Inr (Inr True), if c then h1\<lparr> pending_position := Some q \<rparr> else h1))))"

definition set_system_configuration ::
  "int \<Rightarrow> (string \<times> position) list \<Rightarrow> ('dmd, 'y, 'p, 's) hub
   \<Rightarrow> (string + bool) throws \<times> ('dmd, 'y, 'p, 's) hub" where
  "set_system_configuration now c h = (case hub_draco h of
     None \<Rightarrow> (Inl no_draco, h)
   | Some m \<Rightarrow> (case vm_complete m c (meshcat_positions h) of
       Inl e \<Rightarrow> (Inl e, h)
     | Inr q \<Rightarrow> set_configuration now q h))"

definition ClearStreamingState :: "('dmd, 'y, 'p, 's) hub \<Rightarrow> ('dmd, 'y, 'p, 's) hub" where
  "ClearStreamingState h = h\<lparr> last_push_time := (\<lambda>_. None) \<rparr>"

section \<open>One tick of the active loop\<close>

record tick_input =
  ti_sliders :: position
  ti_reset_clicked :: bool
  ti_now :: int

definition read_sliders ::
  "'p viz_model \<Rightarrow> tick_input \<Rightarrow> ('dmd, 'y, 'p, 's) hub \<Rightarrow> ('dmd, 'y, 'p, 's) hub throws" where
  "read_sliders m ti h =
     (if \<not> enable_sliders (hub_options h) then Inr h
      else bindE (if HasButton reset_button h \<and> ti_reset_clicked ti
                  then (case default_positions h of
                          None \<Rightarrow> Inl ''undefined: no default positions''
                        | Some q \<Rightarrow> bindE (AddButton reset_button 0 h) (\<lambda>h1. Inr (q, h1)))
                  else Inr (ti_sliders ti, h)) (\<lambda>(q, h1).
           bindE (JointPositionsChanged (meshcat_positions h) q) (\<lambda>c.
             if c then SetMeshcatPositions m q h1 else Inr h1)))"

definition stream_label :: "'p viz_model \<Rightarrow> int \<Rightarrow> ('dmd, 'y, 'p, 's) hub \<Rightarrow> string" where
  "stream_label m now h =
     (let robots = vm_robots m (meshcat_positions h);
          active = filter (\<lambda>r. case last_push_time h r of None \<Rightarrow> False | Some t \<Rightarrow> now - t \<le> position_push_timeout_ms) robots
      in if active \<noteq> [] then ''Position Stream: '' @ decimal (length active) @ ''/'' @ decimal (length robots) @ '' Active''
         else inactive_button)"

definition swap_button :: "string \<Rightarrow> ('dmd, 'y, 'p, 's) hub \<Rightarrow> ('dmd, 'y, 'p, 's) hub throws" where
  "swap_button desired h =
     (if desired \<noteq> position_stream_button h then
        (let h1 = (if HasButton (position_stream_button h) h then DeleteButton (position_stream_button h) h else h)
         in AddButton desired 0 (h1\<lparr> position_stream_button := desired \<rparr>))
      else if \<not> HasButton (position_stream_button h) h then AddButton (position_stream_button h) 0 h
      else Inr h)"

definition take_pending ::
  "'p viz_model \<Rightarrow> tick_input \<Rightarrow> ('dmd, 'y, 'p, 's) hub \<Rightarrow> ('dmd, 'y, 'p, 's) hub throws" where
  "take_pending m ti h =
     (if \<not> enable_set_configuration (hub_options h) then Inr h
      else bindE (case pending_position h of
                    None \<Rightarrow> Inr h
                  | Some q \<Rightarrow> SetMeshcatPositions m q (h\<lparr> pending_position := None \<rparr>)) (\<lambda>h1.
           swap_button (stream_label m (ti_now ti) h1) h1))"

text \<open>The result is the tasks that were run, the frames moved, and the hub; or the exception that ends the
  run thread.\<close>

definition active_tick ::
  "tick_input \<Rightarrow> ('dmd, 'y, 'p, 's) hub
   \<Rightarrow> (('p, 's) meshcat_task list \<times> (string \<times> 'p) list \<times> ('dmd, 'y, 'p, 's) hub) throws" where
  "active_tick ti h = (case hub_draco h of
     None \<Rightarrow> Inl ''undefined: null draco''
   | Some m \<Rightarrow>
     bindE (read_sliders m ti h) (\<lambda>h1.
     bindE (take_pending m ti h1) (\<lambda>h2.
     bindE (JointPositionsChanged (meshcat_positions h) (meshcat_positions h2)) (\<lambda>c.
     Inr (task_queue h2, if c then UpdateFrameAxes m h2 else [], h2\<lparr> task_queue := [] \<rparr>)))))"

section \<open>Lemmas\<close>

lemma AddButton_front: "AddButton n 0 h = Inr (ResetButtons (h\<lparr> button_order := (n, []) # button_order h \<rparr>))"
  by (simp add: AddButton_def Let_def)

text \<open>What a pass of the run thread leaves alone.\<close>

lemma Setup_fields:
  "Setup m h = Inr h1 \<Longrightarrow> pending_position h1 = pending_position h \<and> hub_options h1 = hub_options h
     \<and> hub_draco h1 = hub_draco h
     \<and> meshcat_positions h1 = (case vm_default m of None \<Rightarrow> meshcat_positions h | Some q \<Rightarrow> q)"
  by (auto simp: Setup_def bindE_Inr_iff AddButton_front ResetButtons_def SetupFrameAxes_def Let_def
      split: option.splits if_splits)

lemma run_pass_fields:
  "run_pass E h = Inr h1 \<Longrightarrow> pending_position h1 = pending_position h \<and> hub_options h1 = hub_options h"
  by (auto simp: run_pass_def SetStatus_def bindE_Inr_iff dest!: Setup_fields
      split: visualizer_status.splits option.splits sum.splits if_splits)

lemma run_pass_start:
  assumes "run_pass E h = Inr h1" "hub_status h = Starting" "hub_status h1 = Active" "hub_draco h1 = Some m"
  shows "meshcat_positions h1 = (case vm_default m of None \<Rightarrow> vm_initial m | Some q \<Rightarrow> q)"
  using assms
  by (auto simp: run_pass_def SetStatus_def bindE_Inr_iff dest!: Setup_fields
      split: option.splits sum.splits)

lemma Load_fields:
  assumes "LoadAndSetModelData E d force h f = (Inr True, h1, f1)"
  shows "pending_position h1 = pending_position h \<and> hub_options h1 = hub_options h \<and> hub_status h1 = Starting"
  using assms
  by (auto simp: LoadAndSetModelData_def SetStatus_def Let_def dest!: run_pass_fields
      split: if_splits sum.splits option.splits prod.splits)

text \<open>Models whose position vectors have the size of the model.\<close>

definition model_ok :: "'p viz_model \<Rightarrow> bool" where
  "model_ok m \<longleftrightarrow> length (vm_initial m) = vm_num_positions m
     \<and> (case vm_default m of None \<Rightarrow> True | Some q \<Rightarrow> length q = vm_num_positions m)"

lemma swap_button_fields:
  "\<exists>h1. swap_button d h = Inr h1 \<and> meshcat_positions h1 = meshcat_positions h"
  by (auto simp: swap_button_def AddButton_front ResetButtons_def DeleteButton_def Let_def)

lemma tick_takes_pending:
  assumes "hub_draco h = Some m" "\<not> enable_sliders (hub_options h)" "enable_set_configuration (hub_options h)"
    and "pending_position h = Some q" "length (meshcat_positions h) = vm_num_positions m"
  shows "length q = vm_num_positions m \<Longrightarrow> \<exists>ts ms h1. active_tick ti h = Inr (ts, ms, h1) \<and> meshcat_positions h1 = q"
    and "length q \<noteq> vm_num_positions m \<Longrightarrow> \<exists>e. active_tick ti h = Inl e"
proof -
  let ?h = "h\<lparr> pending_position := None, meshcat_positions := q \<rparr>"
  have r: "read_sliders m ti h = Inr h" using assms(2) by (simp add: read_sliders_def)
  show "\<exists>ts ms h1. active_tick ti h = Inr (ts, ms, h1) \<and> meshcat_positions h1 = q" if l: "length q = vm_num_positions m"
  proof -
    obtain h1 where h1: "swap_button (stream_label m (ti_now ti) ?h) ?h = Inr h1" "meshcat_positions h1 = q"
      using swap_button_fields [of "stream_label m (ti_now ti) ?h" ?h] by auto
    have "take_pending m ti h = Inr h1"
      using assms(3,4) l h1(1) by (simp add: take_pending_def SetMeshcatPositions_def)
    then show ?thesis
      using assms(1,5) r h1(2) l by (simp add: active_tick_def JointPositionsChanged_def)
  qed
  show "\<exists>e. active_tick ti h = Inl e" if "length q \<noteq> vm_num_positions m"
    using assms(1,3,4) that r by (simp add: active_tick_def take_pending_def SetMeshcatPositions_def)
qed

section \<open>Properties\<close>

text \<open>A position that was pushed but not yet shown when the visualizer was stopped survives into the next
  model: after the stop, another model is loaded and becomes active, and its first tick moves the new robot
  to the position meant for the old one, or, when the models differ in size, ends the run thread with an
  exception.\<close>
theorem pending_position_survives_reload:
  assumes "hub_draco h = Some m" "enable_set_configuration (hub_options h)" "\<not> enable_sliders (hub_options h)"
    and "pending_position h = None" "length q = vm_num_positions m"
    and "run_pass E (RequestStop (snd (set_configuration now q h))) = Inr h1"
    and "LoadAndSetModelData E data force h1 f = (Inr True, h2, f2)"
    and "run_pass E h2 = Inr h3" "hub_status h3 = Active" "hub_draco h3 = Some m3" "model_ok m3"
  shows "if vm_num_positions m3 = vm_num_positions m
         then \<exists>ts ms h4. active_tick ti h3 = Inr (ts, ms, h4) \<and> meshcat_positions h4 = q
         else \<exists>e. active_tick ti h3 = Inl e"
proof -
  let ?h = "snd (set_configuration now q h)"
  have "pending_position ?h = Some q" "hub_options ?h = hub_options h"
    using assms(1,2,4,5) by (simp_all add: set_configuration_def Let_def)
  then have 1: "pending_position h1 = Some q" "hub_options h1 = hub_options h"
    using run_pass_fields [OF assms(6)] by (simp_all add: RequestStop_def SetStatus_def)
  have 2: "pending_position h2 = Some q" "hub_options h2 = hub_options h" "hub_status h2 = Starting"
    using Load_fields [OF assms(7)] 1 by auto
  have 3: "pending_position h3 = Some q" "hub_options h3 = hub_options h"
    using run_pass_fields [OF assms(8)] 2 by auto
  have "length (meshcat_positions h3) = vm_num_positions m3"
    using run_pass_start [OF assms(8) 2(3) assms(9,10)] assms(11) by (auto simp: model_ok_def split: option.splits)
  from tick_takes_pending [OF assms(10) _ _ 3(1) this] 3(2) assms(2,3,5) show ?thesis by auto
qed

lemma set_configuration_eq:
  "set_configuration now q h = (if \<not> enable_set_configuration (hub_options h) then (Inr (Inl ''Setting configuration is disabled!''), h)
     else case hub_draco h of
       None \<Rightarrow> (Inl no_draco, h)
     | Some m \<Rightarrow> if length q \<noteq> vm_num_positions m then (Inr (Inl ''Invalid configuration size''), h)
       else let h1 = h\<lparr> last_push_time := (\<lambda>r. if r \<in> set (vm_robots m q) then Some now else last_push_time h r) \<rparr> in
         (case pending_position h of
            None \<Rightarrow> (Inr (Inr True), h1\<lparr> pending_position := Some q \<rparr>)
          | Some p \<Rightarrow> if length p \<noteq> length q then (Inl ''Eigen: sizes differ'', h1)
            else (Inr (Inr True), if foldr max (map2 (\<lambda>x y. \<bar>y - x\<bar>) p q) 0 > 1 / 10000 then h1\<lparr> pending_position := Some q \<rparr> else h1)))"
  by (simp add: set_configuration_def Let_def JointPositionsChanged_def split: option.split)

lemma dead_band_bound:
  fixes p q :: "real list"
  assumes "length p = length q" "foldr max (map2 (\<lambda>x y. \<bar>y - x\<bar>) p q) 0 \<le> c" "i < length q"
  shows "\<bar>q ! i - p ! i\<bar> \<le> c"
  using assms
proof (induction p q arbitrary: i rule: list_induct2)
  case (Cons x xs y ys)
  then show ?case by (cases i) auto
qed simp

text \<open>C23: A position is accepted exactly if setting positions is enabled, it has the size of the model, and no position of another size is
  pending, left over from another model.  Then a position is pending that is the new one, or the one that was pending if the two are within
  \<open>1e-4\<close> of each other in every joint, and besides only the times of the last push have changed.  A position of a wrong size is refused
  with a message and changes nothing.\<close>
theorem pushed_position_pending:
  assumes "set_configuration now q h = (r, h1)"
  shows "(r = Inr (Inr True) \<longleftrightarrow> enable_set_configuration (hub_options h) \<and> (\<exists>m. hub_draco h = Some m \<and> length q = vm_num_positions m)
        \<and> (\<forall>p. pending_position h = Some p \<longrightarrow> length p = length q))
    \<and> (r = Inr (Inr True) \<longrightarrow> (\<exists>p. pending_position h1 = Some p \<and> (p = q \<or> pending_position h = Some p) \<and> length p = length q
        \<and> (\<forall>i < length q. \<bar>q ! i - p ! i\<bar> \<le> 1 / 10000) \<and> h1 = h\<lparr> last_push_time := last_push_time h1, pending_position := Some p \<rparr>))
    \<and> (\<forall>m. hub_draco h = Some m \<and> length q \<noteq> vm_num_positions m \<longrightarrow> h1 = h \<and> (\<exists>e. r = Inr (Inl e)))"
proof (cases "enable_set_configuration (hub_options h) \<and> (\<exists>m. hub_draco h = Some m \<and> length q = vm_num_positions m)")
  case False
  then show ?thesis using assms by (auto simp: set_configuration_eq split: option.splits if_splits)
next
  case True
  then obtain m where m: "hub_draco h = Some m" "length q = vm_num_positions m" by blast
  show ?thesis
  proof (cases "pending_position h")
    case None
    then show ?thesis using assms True m by (auto simp: set_configuration_eq)
  next
    case (Some p)
    then show ?thesis using assms True m dead_band_bound [of p q "1 / 10000"]
      by (cases "length p = length q"; cases "foldr max (map2 (\<lambda>x y. \<bar>y - x\<bar>) p q) 0 > 1 / 10000") (auto simp: set_configuration_eq Let_def)
  qed
qed

section \<open>Witnesses\<close>

definition sample_model :: "nat \<Rightarrow> nat viz_model" where
  "sample_model n = \<lparr> vm_hash = 7, vm_num_positions = n, vm_initial = replicate n 0, vm_default = None,
     vm_robots = (\<lambda>_. [''arm'']), vm_frames = [], vm_find_frame = (\<lambda>_. None), vm_pose = (\<lambda>_ _ _. Inr 0),
     vm_axes_pose = (\<lambda>_ _. 0), vm_complete = (\<lambda>_ q. Inr q) \<rparr>"

definition sample_adapter :: "(string, string) draco_adapter" where
  "sample_adapter = \<lparr> da_system = [], da_context_dir = [], da_xml_file = [], da_dmd = [], da_constraints = ConstraintsAdapter,
     da_meshcat_params = None, da_spline_params = [], da_thunder_params = [], da_iris_builder_options = [],
     da_gcs_options = [], da_dynamic_limits = None, da_iris_regions = None, da_iris_regions_file = [],
     da_thunder_dat_file = [], da_options = None, da_visualizer_mode = None \<rparr>"

definition sample_hub_env :: "nat \<Rightarrow> (string, string, string, nat) hub_env" where
  "sample_hub_env n = \<lparr> he_codec = sample_codec, he_params = \<lparr> load_doc = (\<lambda>_ s. Inr s), default_doc = (\<lambda>_. []) \<rparr>,
     default_adapter = sample_adapter, collision_shown = (\<lambda>_. True),
     on_port_7000 = id, make_draco = (\<lambda>a. Inr (sample_model n)) \<rparr>"

definition sample_viz_options :: "string visualizer_options" where
  "sample_viz_options = \<lparr> vo_meshcat_params = [], enable_sliders = False, enable_set_configuration = True,
     enable_frame_toggle_web = False, show_iris_regions = False, show_prm = False, default_init = False,
     default_contexts = [], ignore_patterns = [], ignore_prefixes = [], ignore_suffixes = [] \<rparr>"

definition sample_hub :: "nat \<Rightarrow> (string, string, nat, unit) hub" where
  "sample_hub n = \<lparr> hub_system = ''s'', hub_data_path = [''data''], hub_status = Active, hub_adapter = None,
     hub_options = sample_viz_options, hub_draco = Some (sample_model n), meshcat_positions = replicate n 0,
     default_positions = None, frame_axes = [], pending_position = None, last_push_time = (\<lambda>_. None), task_queue = [],
     position_stream_button = [], button_order = [], meshcat_buttons = [] \<rparr>"

definition sample_files :: fs where "sample_files = [([''data'', ''dmd'', ''x''], File ''d'')]"

abbreviation by_file :: "string visualizer_data" where
  "by_file \<equiv> \<lparr> vd_context_id = None, vd_dmd_filename = Some ''x'', vd_meshcat_params = None \<rparr>"

lemmas sample_hub_defs = sample_hub_def sample_hub_env_def sample_model_def sample_viz_options_def sample_files_def

lemma sample_push:
  "set_configuration now q (sample_hub 1) = (if length q = 1
     then (Inr (Inr True), (sample_hub 1)\<lparr> last_push_time := [''arm'' \<mapsto> now], pending_position := Some q \<rparr>)
     else (Inr (Inl ''Invalid configuration size''), sample_hub 1))"
  by (auto simp: set_configuration_def sample_hub_defs Let_def)

theorem pushed_position_pending_witness:
  "(\<exists>p. pending_position (snd (set_configuration 0 [3] (sample_hub 1))) = Some p \<and> length p = 1)
   \<and> snd (set_configuration 0 [3, 4] (sample_hub 1)) = sample_hub 1"
  using pushed_position_pending [of 0 "[3]" "sample_hub 1"] sample_push [of 0 "[3]"]
    pushed_position_pending [of 0 "[3, 4]" "sample_hub 1"] sample_push [of 0 "[3, 4]"] by auto

theorem pending_position_survives_reload_witness:
  "\<exists>h1 h2 f2 h3 e. run_pass (sample_hub_env 2) (RequestStop (snd (set_configuration 0 [3] (sample_hub 1)))) = Inr h1
     \<and> LoadAndSetModelData (sample_hub_env 2) by_file False h1 sample_files = (Inr True, h2, f2)
     \<and> run_pass (sample_hub_env 2) h2 = Inr h3 \<and> active_tick \<lparr> ti_sliders = [], ti_reset_clicked = False, ti_now = 0 \<rparr> h3 = Inl e"
proof -
  let ?E = "sample_hub_env 2"
  obtain h1 where h1: "run_pass ?E (RequestStop (snd (set_configuration 0 [3] (sample_hub 1)))) = Inr h1"
      "hub_status h1 = Idle" "hub_data_path h1 = [''data'']" "hub_options h1 = sample_viz_options"
  proof -
    have "snd (set_configuration 0 [3] (sample_hub 1)) = (sample_hub 1)\<lparr> last_push_time := [''arm'' \<mapsto> 0], pending_position := Some [3] \<rparr>"
      using sample_push [of 0 "[3]"] by simp
    then have "run_pass ?E (RequestStop (snd (set_configuration 0 [3] (sample_hub 1))))
        = Inr ((sample_hub 1)\<lparr> last_push_time := [''arm'' \<mapsto> 0], pending_position := Some [3], hub_draco := None,
                  hub_adapter := None, default_positions := None, frame_axes := [], hub_status := Idle \<rparr>)"
      by (simp only:) (simp add: run_pass_def RequestStop_def SetStatus_def hub_HasDraco_def sample_hub_def)
    then show ?thesis by (rule that) (simp_all add: sample_hub_def)
  qed
  obtain h2 f2 where h2: "LoadAndSetModelData ?E by_file False h1 sample_files = (Inr True, h2, f2)"
      "hub_status h2 = Starting" "hub_adapter h2 \<noteq> None" "hub_options h2 = sample_viz_options"
    using h1(2-4)
    by (simp add: LoadAndSetModelData_def load_adapter_def load_yaml_def fs_read_def Let_def SetStatus_def
        sample_hub_env_def sample_files_def sample_codec_def)
  have "\<exists>h3. run_pass ?E h2 = Inr h3 \<and> hub_status h3 = Active \<and> hub_draco h3 = Some (sample_model 2)"
    using h2(2-4)
    by (auto simp: run_pass_def Setup_def AddButton_front SetStatus_def ResetButtons_def SetupFrameAxes_def Let_def
        sample_hub_env_def sample_model_def sample_viz_options_def)
  then obtain h3 where h3: "run_pass ?E h2 = Inr h3" "hub_status h3 = Active" "hub_draco h3 = Some (sample_model 2)"
    by blast
  have "model_ok (sample_model 2)" by (simp add: model_ok_def sample_model_def)
  with pending_position_survives_reload [OF _ _ _ _ _ h1(1) h2(1) h3, of "sample_model 1" "\<lparr> ti_sliders = [], ti_reset_clicked = False, ti_now = 0 \<rparr>"]
    h1(1) h2(1) h3(1)
  show ?thesis by (auto simp: sample_hub_def sample_model_def sample_viz_options_def)
qed

end
