(* ===== verification/Request_Queue.thy ===== *)
theory Request_Queue
  imports Service_Types
begin

text \<open>
  \<open>service/utils/request_queue.h\<close>: the bounded FIFO of requests.  The object has
  the deque, the set of queued ids used for lookups, and its capacity; every
  operation holds \<open>queue_mtx_\<close> for its whole body, so each is one atomic step.
  The locale \<open>request_fifo\<close> is what a client may rely on (and, in its law for
  \<open>enq\<close>, the precondition a client must establish); the model satisfies it.
\<close>

record 'r request_queue =
  rq_capacity :: nat
  queued_requests :: "'r list"
  queued_ids :: "request_id set"

datatype queue_error = Queue_empty_error | Queue_at_capacity_error

definition queue_error_what :: "queue_error \<Rightarrow> exn" where
  "queue_error_what e = (case e of
     Queue_empty_error \<Rightarrow> ''Queue was queried for element, but is empty''
   | Queue_at_capacity_error \<Rightarrow> ''Queue is at maximum capacity'')"

definition RequestQueue :: "int \<Rightarrow> 'r request_queue throws" where
  "RequestQueue capacity =
     (if capacity \<le> 0 then Inl ''Queue must have positive nonzero maximum size!''
      else Inr \<lparr> rq_capacity = nat capacity, queued_requests = [], queued_ids = {} \<rparr>)"

definition rq_Contains :: "'r request_queue \<Rightarrow> request_id \<Rightarrow> bool" where
  "rq_Contains q i = (i \<in> queued_ids q)"

definition rq_Clear :: "'r request_queue \<Rightarrow> 'r request_queue" where
  "rq_Clear q = q\<lparr> queued_requests := [], queued_ids := {} \<rparr>"

definition rq_Enqueue ::
  "'a request_adapter_scheme \<Rightarrow> 'a request_adapter_scheme request_queue
   \<Rightarrow> queue_error + 'a request_adapter_scheme request_queue" where
  "rq_Enqueue r q =
     (if length (queued_requests q) \<ge> rq_capacity q then Inl Queue_at_capacity_error
      else Inr (q\<lparr> queued_requests := queued_requests q @ [r],
                  queued_ids := insert (req_id r) (queued_ids q) \<rparr>))"

definition rq_PeekNextRequest :: "'r request_queue \<Rightarrow> queue_error + 'r" where
  "rq_PeekNextRequest q = (case queued_requests q of
     [] \<Rightarrow> Inl Queue_empty_error | r # _ \<Rightarrow> Inr r)"

definition rq_PopNextRequest ::
  "'a request_adapter_scheme request_queue
   \<Rightarrow> queue_error + 'a request_adapter_scheme \<times> 'a request_adapter_scheme request_queue" where
  "rq_PopNextRequest q = (case queued_requests q of
     [] \<Rightarrow> Inl Queue_empty_error
   | r # rs \<Rightarrow> Inr (r, q\<lparr> queued_requests := rs, queued_ids := queued_ids q - {req_id r} \<rparr>))"

definition rq_Empty :: "'r request_queue \<Rightarrow> bool" where
  "rq_Empty q = (queued_requests q = [])"

definition rq_Size :: "'r request_queue \<Rightarrow> nat" where
  "rq_Size q = length (queued_requests q)"

definition rq_Capacity :: "'r request_queue \<Rightarrow> nat" where
  "rq_Capacity q = rq_capacity q"

lemmas rq_defs [model_defs] =
  rq_Contains_def rq_Clear_def rq_Enqueue_def rq_PeekNextRequest_def rq_PopNextRequest_def
  rq_Empty_def rq_Size_def rq_Capacity_def

section \<open>The invariant\<close>

text \<open>The bound holds for every use of the class; the agreement of the id set with
  the deque only where no id is enqueued while it is queued.\<close>

definition rq_bounded :: "'r request_queue \<Rightarrow> bool" where
  "rq_bounded q \<longleftrightarrow> 0 < rq_capacity q \<and> length (queued_requests q) \<le> rq_capacity q"

definition rq_tracked :: "'a request_adapter_scheme request_queue \<Rightarrow> bool" where
  "rq_tracked q \<longleftrightarrow> distinct (map req_id (queued_requests q))
                  \<and> queued_ids q = req_id ` set (queued_requests q)"

definition rq_inv :: "'a request_adapter_scheme request_queue \<Rightarrow> bool" where
  "rq_inv q \<longleftrightarrow> rq_bounded q \<and> rq_tracked q"

lemma RequestQueue_inv [inv_intros]: "RequestQueue n = Inr q \<Longrightarrow> rq_inv q"
  by (auto simp: RequestQueue_def rq_inv_def rq_bounded_def rq_tracked_def split: if_splits)

lemma rq_Clear_inv [inv_intros]: "rq_inv q \<Longrightarrow> rq_inv (rq_Clear q)"
  by (simp add: rq_inv_def rq_bounded_def rq_tracked_def rq_Clear_def)

lemma rq_Enqueue_bounded: "rq_bounded q \<Longrightarrow> rq_Enqueue r q = Inr q' \<Longrightarrow> rq_bounded q'"
  by (auto simp: rq_bounded_def rq_Enqueue_def split: if_splits)

lemma rq_Enqueue_inv [inv_intros]:
  assumes "rq_inv q" "rq_Enqueue r q = Inr q'" "\<not> rq_Contains q (req_id r)"
  shows "rq_inv q'"
  using assms rq_Enqueue_bounded [of q r q']
  by (auto simp: rq_inv_def rq_tracked_def rq_Enqueue_def rq_Contains_def split: if_splits)

lemma rq_Pop_inv [inv_intros]:
  assumes "rq_inv q" "rq_PopNextRequest q = Inr (r, q')"
  shows "rq_inv q'"
  using assms
  by (auto simp: rq_inv_def rq_bounded_def rq_tracked_def rq_PopNextRequest_def
      split: list.splits)

lemma rq_Pop_fields:
  assumes "rq_PopNextRequest q = Inr (r, q')"
  shows "queued_requests q = r # queued_requests q'" "queued_ids q' = queued_ids q - {req_id r}"
    "rq_capacity q' = rq_capacity q"
  using assms by (auto simp: rq_PopNextRequest_def split: list.splits)

lemma rq_inv_ids: "rq_inv q \<Longrightarrow> queued_ids q = req_id ` set (queued_requests q)"
  by (simp add: rq_inv_def rq_tracked_def)

section \<open>The interface of a request queue\<close>

locale request_fifo =
  fixes key :: "'r \<Rightarrow> request_id"
    and items :: "'q \<Rightarrow> 'r list"
    and cap :: "'q \<Rightarrow> nat"
    and good :: "'q \<Rightarrow> bool"
    and has :: "'q \<Rightarrow> request_id \<Rightarrow> bool"
    and enq :: "'r \<Rightarrow> 'q \<Rightarrow> 'e + 'q"
    and pop :: "'q \<Rightarrow> 'e + 'r \<times> 'q"
  assumes good_distinct: "good q \<Longrightarrow> distinct (map key (items q))"
    and good_bound: "good q \<Longrightarrow> length (items q) \<le> cap q"
    and has_iff: "good q \<Longrightarrow> has q i \<longleftrightarrow> i \<in> key ` set (items q)"
    and enq_fresh: "good q \<Longrightarrow> \<not> has q (key r) \<Longrightarrow> length (items q) < cap q
        \<Longrightarrow> \<exists>q'. enq r q = Inr q' \<and> good q' \<and> items q' = items q @ [r] \<and> cap q' = cap q"
    and enq_full: "good q \<Longrightarrow> cap q \<le> length (items q) \<Longrightarrow> \<not> is_ok (enq r q)"
    and pop_empty: "good q \<Longrightarrow> items q = [] \<Longrightarrow> \<not> is_ok (pop q)"
    and pop_cons: "good q \<Longrightarrow> items q = r # rs
        \<Longrightarrow> \<exists>q'. pop q = Inr (r, q') \<and> good q' \<and> items q' = rs \<and> cap q' = cap q"
begin

text \<open>A guarded client: enqueue unless the id is queued or the queue is full.\<close>

definition offer :: "'r \<Rightarrow> 'q \<Rightarrow> 'q" where
  "offer r q = (if has q (key r) then q else case enq r q of Inl _ \<Rightarrow> q | Inr q' \<Rightarrow> q')"

fun drain :: "nat \<Rightarrow> 'q \<Rightarrow> 'r list \<times> 'q" where
  "drain 0 q = ([], q)"
| "drain (Suc n) q = (case pop q of
     Inl _ \<Rightarrow> ([], q)
   | Inr (r, q') \<Rightarrow> (let (rs, q'') = drain n q' in (r # rs, q'')))"

lemma offer_good: "good q \<Longrightarrow> good (offer r q)"
proof -
  assume g: "good q"
  show "good (offer r q)"
  proof (cases "has q (key r)")
    case False
    show ?thesis
    proof (cases "length (items q) < cap q")
      case True
      from enq_fresh [OF g False True] False show ?thesis by (auto simp: offer_def)
    next
      case full: False
      with enq_full [OF g, of r] g False show ?thesis
        by (auto simp: offer_def not_is_ok_iff split: sum.splits)
    qed
  qed (simp add: offer_def g)
qed

lemma offer_items:
  assumes "good q" "\<not> has q (key r)" "length (items q) < cap q"
  shows "items (offer r q) = items q @ [r]" "cap (offer r q) = cap q"
  using enq_fresh [OF assms] assms(2) by (auto simp: offer_def)

lemma drain_all:
  assumes "good q" "length (items q) \<le> n"
  shows "fst (drain n q) = items q \<and> items (snd (drain n q)) = [] \<and> good (snd (drain n q))"
  using assms
proof (induction n arbitrary: q)
  case 0
  then show ?case by simp
next
  case (Suc n)
  show ?case
  proof (cases "items q")
    case Nil
    with pop_empty [OF Suc.prems(1)] obtain e where "pop q = Inl e" by (auto simp: not_is_ok_iff)
    with Nil Suc.prems show ?thesis by simp
  next
    case (Cons r rs)
    from pop_cons [OF Suc.prems(1) Cons] obtain q' where
      q': "pop q = Inr (r, q')" "good q'" "items q' = rs" by blast
    from Suc.IH [of q'] q' Cons Suc.prems(2) show ?thesis
      by (auto simp: split_beta)
  qed
qed

text \<open>First in, first out: draining after guarded enqueues of fresh requests gives
  the old contents followed by the new requests in order.\<close>

lemma fifo:
  assumes "good q" "distinct (map key (items q @ rs))" "length (items q) + length rs \<le> cap q"
  shows "fst (drain (cap q) (fold offer rs q)) = items q @ rs"
proof -
  have "good (fold offer rs q) \<and> items (fold offer rs q) = items q @ rs
        \<and> cap (fold offer rs q) = cap q"
    using assms
  proof (induction rs arbitrary: q)
    case (Cons r rs)
    have nh: "\<not> has q (key r)" using Cons.prems by (auto simp: has_iff)
    have room: "length (items q) < cap q" using Cons.prems by simp
    note o = offer_items [OF Cons.prems(1) nh room]
    from Cons.IH [of "offer r q"] Cons.prems o offer_good [OF Cons.prems(1), of r]
    show ?case by auto
  qed simp
  moreover from this assms(3) have "length (items (fold offer rs q)) \<le> cap q" by simp
  ultimately show ?thesis using drain_all [of "fold offer rs q" "cap q"] by simp
qed

end

interpretation rq: request_fifo req_id queued_requests rq_capacity rq_inv rq_Contains
  rq_Enqueue rq_PopNextRequest
proof (unfold_locales, goal_cases)
  case (4 q r)
  then show ?case using rq_Enqueue_inv [of q r] by (auto simp: rq_Enqueue_def)
next
  case (7 q r rs)
  then show ?case using rq_Pop_inv [of q r] by (auto simp: rq_PopNextRequest_def)
qed (auto simp: rq_inv_def rq_tracked_def rq_bounded_def rq_Contains_def rq_Enqueue_def
    rq_PopNextRequest_def)

section \<open>Clients of the model\<close>

definition rq_offer ::
  "'a request_adapter_scheme \<Rightarrow> 'a request_adapter_scheme request_queue
   \<Rightarrow> 'a request_adapter_scheme request_queue" where
  "rq_offer r q = (if rq_Contains q (req_id r) then q
     else case rq_Enqueue r q of Inl _ \<Rightarrow> q | Inr q' \<Rightarrow> q')"

fun rq_drain ::
  "nat \<Rightarrow> 'a request_adapter_scheme request_queue
   \<Rightarrow> 'a request_adapter_scheme list \<times> 'a request_adapter_scheme request_queue" where
  "rq_drain 0 q = ([], q)"
| "rq_drain (Suc n) q = (case rq_PopNextRequest q of
     Inl _ \<Rightarrow> ([], q)
   | Inr (r, q') \<Rightarrow> (let (rs, q'') = rq_drain n q' in (r # rs, q'')))"

lemma rq_offer_eq: "rq_offer = rq.offer"
  by (intro ext) (simp add: rq_offer_def rq.offer_def)

lemma rq_drain_eq: "rq_drain n q = rq.drain n q"
  by (induction n arbitrary: q) (auto split: sum.splits)

section \<open>Properties\<close>

text \<open>Requests come out of the queue in the order they were offered.  Offering
  requests with pairwise distinct fresh ids, within the capacity, to a well-formed queue and
  then popping until the queue reports that it is empty returns the requests that were
  queued, followed by the offered ones, in order.\<close>
theorem request_queue_fifo:
  assumes "rq_inv q" "distinct (map req_id (queued_requests q @ rs))"
    and "length (queued_requests q) + length rs \<le> rq_capacity q"
  shows "fst (rq_drain (rq_capacity q) (fold rq_offer rs q)) = queued_requests q @ rs"
  using rq.fifo [OF assms] by (simp add: rq_drain_eq rq_offer_eq)

definition sample_request :: "string \<Rightarrow> request_adapter" where
  "sample_request i = \<lparr> req_id = i \<rparr>"

definition sample_queue :: "request_adapter request_queue" where
  "sample_queue = \<lparr> rq_capacity = 3, queued_requests = [sample_request ''a''],
                   queued_ids = {''a''} \<rparr>"

lemma sample_queue_inv: "rq_inv sample_queue"
  by (simp add: sample_queue_def rq_inv_def rq_bounded_def rq_tracked_def sample_request_def)

theorem request_queue_fifo_witness:
  "map req_id (fst (rq_drain 3 (fold rq_offer [sample_request ''b'', sample_request ''c''] sample_queue)))
   = [''a'', ''b'', ''c'']"
  using request_queue_fifo [OF sample_queue_inv, of "[sample_request ''b'', sample_request ''c'']"]
  by (simp add: sample_queue_def sample_request_def)

text \<open>An arbitrary user of the class: any sequence of calls, failed ones included.\<close>

datatype 'r queue_call = CallEnqueue 'r | CallPop | CallClear

definition rq_call ::
  "'a request_adapter_scheme queue_call \<Rightarrow> 'a request_adapter_scheme request_queue
   \<Rightarrow> 'a request_adapter_scheme request_queue" where
  "rq_call c q = (case c of
     CallEnqueue r \<Rightarrow> (case rq_Enqueue r q of Inl _ \<Rightarrow> q | Inr q' \<Rightarrow> q')
   | CallPop \<Rightarrow> (case rq_PopNextRequest q of Inl _ \<Rightarrow> q | Inr (_, q') \<Rightarrow> q')
   | CallClear \<Rightarrow> rq_Clear q)"

definition rq_sound :: "'a request_adapter_scheme request_queue \<Rightarrow> bool" where
  "rq_sound q \<longleftrightarrow> rq_bounded q \<and> queued_ids q \<subseteq> req_id ` set (queued_requests q)"

lemma rq_call_sound:
  assumes "rq_sound q"
  shows "rq_sound (rq_call c q) \<and> rq_capacity (rq_call c q) = rq_capacity q"
proof (cases c)
  case (CallEnqueue r)
  with assms show ?thesis
    by (auto simp: rq_call_def rq_sound_def rq_bounded_def rq_Enqueue_def)
next
  case CallPop
  with assms show ?thesis
    by (auto simp: rq_call_def rq_sound_def rq_bounded_def rq_PopNextRequest_def
        split: list.splits)
next
  case CallClear
  with assms show ?thesis
    by (auto simp: rq_call_def rq_sound_def rq_bounded_def rq_Clear_def)
qed

lemma rq_calls_sound:
  "rq_sound q \<Longrightarrow> rq_sound (fold rq_call cs q) \<and> rq_capacity (fold rq_call cs q) = rq_capacity q"
  using rq_call_sound by (induction cs arbitrary: q) auto

lemma RequestQueue_sound: "RequestQueue n = Inr q \<Longrightarrow> rq_sound q \<and> rq_capacity q = nat n"
  by (auto simp: RequestQueue_def rq_sound_def rq_bounded_def split: if_splits)

text \<open>The queue never holds more than its capacity, which is positive, whatever
  sequence of enqueues, pops and clears is applied to a constructed queue; and the lookup
  \<open>Contains\<close> never reports an id that no queued request has.\<close>
theorem request_queue_bounded:
  assumes "RequestQueue n = Inr (q0 :: 'a request_adapter_scheme request_queue)"
  shows "rq_Size (fold rq_call cs q0) \<le> nat n \<and> rq_Capacity (fold rq_call cs q0) = nat n \<and> n > 0
    \<and> (rq_Contains (fold rq_call cs q0) i \<longrightarrow> i \<in> req_id ` set (queued_requests (fold rq_call cs q0)))"
  using rq_calls_sound [of q0 cs] RequestQueue_sound [OF assms] assms
  by (auto simp: rq_Size_def rq_Capacity_def rq_sound_def rq_bounded_def rq_Contains_def)

theorem request_queue_bounded_witness:
  "\<exists>q0. RequestQueue 2 = Inr (q0 :: request_adapter request_queue)
      \<and> rq_Size (fold rq_call [CallEnqueue (sample_request ''a''), CallEnqueue (sample_request ''b''),
           CallPop, CallEnqueue (sample_request ''c''), CallEnqueue (sample_request ''d'')] q0) \<le> 2"
proof -
  have "RequestQueue 2 = Inr (\<lparr> rq_capacity = 2, queued_requests = [], queued_ids = {} \<rparr>
      :: request_adapter request_queue)"
    by (simp add: RequestQueue_def)
  from request_queue_bounded [OF this, of "[CallEnqueue (sample_request ''a''), CallEnqueue (sample_request ''b''),
           CallPop, CallEnqueue (sample_request ''c''), CallEnqueue (sample_request ''d'')]" "''a''"] this
  show ?thesis by simp
qed

text \<open>Enqueueing a request whose id is already queued is not ignored, although the log
  message of \<open>Enqueue\<close> says so: the request is appended, and when the first of the two
  requests is popped, the id is dropped from the lookup set while the second request is still
  queued, so \<open>Contains\<close> answers no for an id that will be popped later.\<close>
theorem request_queue_duplicate_untracked:
  assumes "queued_requests q = r # rs" "length rs + 1 < rq_capacity q" "req_id r' = req_id r"
  shows "\<exists>q1 q2. rq_Enqueue r' q = Inr q1 \<and> queued_requests q1 = r # rs @ [r']
    \<and> rq_PopNextRequest q1 = Inr (r, q2)
    \<and> \<not> rq_Contains q2 (req_id r') \<and> r' \<in> set (queued_requests q2)"
  using assms by (simp add: rq_Enqueue_def rq_PopNextRequest_def rq_Contains_def)

theorem request_queue_duplicate_untracked_witness:
  "\<exists>q1 q2. rq_Enqueue (sample_request ''a'') sample_queue = Inr q1
    \<and> queued_requests q1 = [sample_request ''a'', sample_request ''a'']
    \<and> rq_PopNextRequest q1 = Inr (sample_request ''a'', q2)
    \<and> \<not> rq_Contains q2 ''a'' \<and> sample_request ''a'' \<in> set (queued_requests q2)"
  using request_queue_duplicate_untracked [of sample_queue "sample_request ''a''" "[]" "sample_request ''a''"]
  by (simp add: sample_queue_def sample_request_def)

end
