(* ===== verification/Job_Runner.thy ===== *)
theory Job_Runner
  imports Service_Types "HOL-Library.AList"
begin

text \<open>
  \<open>service/utils/job_runner.h\<close>: the map from request ids to the futures of the jobs
  started for them.  A future is the state of its thread (pending, a returned
  \<open>std::expected\<close>, or the exception that left the job function) with its \<open>valid()\<close> flag.
  \<open>rj_finish\<close> is the environment's step: the thread of a job ends.
  The map is an association list without repeated keys (\<open>rj_inv\<close>).
\<close>

section \<open>Futures\<close>

datatype 'r thread_state = Pending | Returned "'r expected" | Threw exn

record 'r job_future =
  fut_valid :: bool
  fut_state :: "'r thread_state"

definition future_result_ready :: "'r job_future \<Rightarrow> bool" where
  "future_result_ready f = (case fut_state f of Pending \<Rightarrow> False | _ \<Rightarrow> True)"

record 'r job_runner =
  rj_capacity :: nat
  active_jobs :: "(request_id \<times> 'r job_future) list"

definition JobRunner :: "int \<Rightarrow> 'r job_runner throws" where
  "JobRunner capacity =
     (if capacity \<le> 0 then Inl ''JobRunner must have positive nonzero maximum size!''
      else Inr \<lparr> rj_capacity = nat capacity, active_jobs = [] \<rparr>)"

section \<open>Operations\<close>

definition rj_job :: "'r job_runner \<Rightarrow> request_id \<Rightarrow> 'r job_future option" where
  "rj_job j i = map_of (active_jobs j) i"

definition rj_Contains :: "'r job_runner \<Rightarrow> request_id \<Rightarrow> bool" where
  "rj_Contains j i = (i \<in> fst ` set (active_jobs j))"

definition rj_Empty :: "'r job_runner \<Rightarrow> bool" where
  "rj_Empty j = (active_jobs j = [])"

definition rj_Size :: "'r job_runner \<Rightarrow> nat" where
  "rj_Size j = length (active_jobs j)"

definition rj_Capacity :: "'r job_runner \<Rightarrow> nat" where
  "rj_Capacity j = rj_capacity j"

definition rj_Clear :: "'r job_runner \<Rightarrow> 'r job_runner" where
  "rj_Clear j = j\<lparr> active_jobs := [] \<rparr>"

definition NumJobsInProgress :: "'r job_runner \<Rightarrow> nat" where
  "NumJobsInProgress j = length (filter (\<lambda>p. \<not> future_result_ready (snd p)) (active_jobs j))"

definition GetCompletedJobIds :: "'r job_runner \<Rightarrow> request_id set" where
  "GetCompletedJobIds j = set (map fst (filter (\<lambda>p. future_result_ready (snd p)) (active_jobs j)))"

definition no_job_msg :: "request_id \<Rightarrow> exn" where
  "no_job_msg i = ''No job with ID '' @ i @ '' found!''"

definition ResultIsReady :: "request_id \<Rightarrow> 'r job_runner \<Rightarrow> bool throws" where
  "ResultIsReady i j = (case rj_job j i of
     None \<Rightarrow> Inl (no_job_msg i) | Some f \<Rightarrow> Inr (future_result_ready f))"

definition rj_erase :: "request_id \<Rightarrow> 'r job_runner \<Rightarrow> 'r job_runner" where
  "rj_erase i j = j\<lparr> active_jobs := AList.delete i (active_jobs j) \<rparr>"

definition RetrieveResult ::
  "request_id \<Rightarrow> 'r job_runner \<Rightarrow> 'r expected throws \<times> 'r job_runner" where
  "RetrieveResult i j = (case rj_job j i of
     None \<Rightarrow> (Inl (no_job_msg i), j)
   | Some f \<Rightarrow>
       if \<not> future_result_ready f then (Inl (''Job '' @ i @ '' is not ready!''), j)
       else if \<not> fut_valid f then
         (Inr (Inl (ServiceError JOB_THREAD_INVALIDATED
            (''JobManager:RetrieveResult: Thread at ID '' @ i @ '' has been invalidated!''))), j)
       else (case fut_state f of
           Returned r \<Rightarrow> (Inr r, rj_erase i j)
         | Threw e \<Rightarrow>
             (Inr (Inl (ServiceError JOB_THREAD_EXCEPTION
                (''JobManager:RetrieveResult: Thread at ID '' @ i @ '' threw an exception: '' @ e))),
              rj_erase i j)
         | Pending \<Rightarrow> (Inl (''Job '' @ i @ '' is not ready!''), j)))"

text \<open>\<open>None\<close> is the call that is still waiting; with a timeout it always returns.\<close>

definition WaitForResult :: "request_id \<Rightarrow> 16 word option \<Rightarrow> 'r job_runner \<Rightarrow> unit throws option" where
  "WaitForResult i timeout_ms_opt j = (case rj_job j i of
     None \<Rightarrow> Some (Inl (no_job_msg i))
   | Some f \<Rightarrow> (case timeout_ms_opt of
       Some _ \<Rightarrow> Some (Inr ())
     | None \<Rightarrow> if future_result_ready f then Some (Inr ()) else None))"

definition InsertNewJob :: "request_id \<Rightarrow> 'r job_runner \<Rightarrow> unit throws \<times> 'r job_runner" where
  "InsertNewJob i j =
     (if rj_Contains j i then (Inl (''Job with ID '' @ i @ '' has already been started''), j)
      else if length (active_jobs j) \<ge> rj_capacity j
      then (Inl ''Already at maximum number of active jobs!'', j)
      else (Inr (), j\<lparr> active_jobs := active_jobs j
              @ [(i, \<lparr> fut_valid = True, fut_state = Pending \<rparr>)] \<rparr>))"

text \<open>The thread of job \<open>i\<close> ends with outcome \<open>t\<close>; nothing happens to a finished job.\<close>

definition rj_finish :: "request_id \<Rightarrow> 'r thread_state \<Rightarrow> 'r job_runner \<Rightarrow> 'r job_runner" where
  "rj_finish i t j = j\<lparr> active_jobs := map (\<lambda>(k, f).
     if k = i \<and> fut_state f = Pending then (k, f\<lparr> fut_state := t \<rparr>) else (k, f)) (active_jobs j) \<rparr>"

lemmas rj_defs [model_defs] = rj_job_def rj_Contains_def rj_Empty_def rj_Size_def rj_Capacity_def
  rj_Clear_def rj_erase_def InsertNewJob_def RetrieveResult_def ResultIsReady_def rj_finish_def

section \<open>The invariant\<close>

text \<open>Keys do not repeat, the capacity is respected, and every stored future is valid.\<close>

definition rj_inv :: "'r job_runner \<Rightarrow> bool" where
  "rj_inv j \<longleftrightarrow> 0 < rj_capacity j \<and> length (active_jobs j) \<le> rj_capacity j
     \<and> distinct (map fst (active_jobs j)) \<and> (\<forall>(k, f) \<in> set (active_jobs j). fut_valid f)"

lemma rj_finish_keys [simp]: "map fst (active_jobs (rj_finish i t j)) = map fst (active_jobs j)"
  by (auto simp: rj_finish_def split_beta)

lemma rj_finish_key_set [simp]: "fst ` set (active_jobs (rj_finish i t j)) = fst ` set (active_jobs j)"
  using rj_finish_keys [of i t j] by (metis list.set_map)

lemma rj_finish_length [simp]: "length (active_jobs (rj_finish i t j)) = length (active_jobs j)"
  by (simp add: rj_finish_def)

lemma rj_finish_capacity [simp]: "rj_capacity (rj_finish i t j) = rj_capacity j"
  by (simp add: rj_finish_def)

lemma rj_Contains_job: "rj_Contains j i \<longleftrightarrow> rj_job j i \<noteq> None"
  by (auto simp: rj_Contains_def rj_job_def map_of_eq_None_iff)

lemma rj_job_valid: "rj_inv j \<Longrightarrow> rj_job j i = Some f \<Longrightarrow> fut_valid f"
  by (auto simp: rj_inv_def rj_job_def dest!: map_of_SomeD)

lemma JobRunner_inv [inv_intros]: "JobRunner n = Inr j \<Longrightarrow> rj_inv j"
  by (auto simp: JobRunner_def rj_inv_def split: if_splits)

lemma length_AList_delete_le: "length (AList.delete k xs) \<le> length xs"
  by (simp add: AList.delete_eq)

lemma rj_erase_inv [inv_intros]:
  assumes "rj_inv j" shows "rj_inv (rj_erase i j)"
  using assms length_AList_delete_le [of i "active_jobs j"]
  by (auto simp: rj_inv_def rj_erase_def AList.delete_eq distinct_map_filter
      intro: le_trans [OF length_filter_le])

lemma rj_erase_keys: "fst ` set (active_jobs (rj_erase i j)) = fst ` set (active_jobs j) - {i}"
  by (force simp: rj_erase_def AList.delete_eq)

lemma rj_erase_capacity [simp]: "rj_capacity (rj_erase i j) = rj_capacity j"
  by (simp add: rj_erase_def)

lemma rj_Clear_inv [inv_intros]: "rj_inv j \<Longrightarrow> rj_inv (rj_Clear j)"
  by (simp add: rj_inv_def rj_Clear_def)

lemma rj_finish_inv [inv_intros]:
  assumes "rj_inv j" shows "rj_inv (rj_finish i t j)"
proof -
  have "\<forall>(k, f) \<in> set (active_jobs (rj_finish i t j)). fut_valid f"
    using assms by (auto simp: rj_inv_def rj_finish_def split: if_splits)
  with assms show ?thesis by (simp add: rj_inv_def)
qed

lemma InsertNewJob_inv [inv_intros]:
  assumes "rj_inv j" "InsertNewJob i j = (r, j')" shows "rj_inv j'"
  using assms by (auto simp: rj_inv_def InsertNewJob_def rj_Contains_def split: if_splits)

lemma RetrieveResult_inv [inv_intros]:
  assumes "rj_inv j" "RetrieveResult i j = (r, j')" shows "rj_inv j'"
  using assms rj_erase_inv [OF assms(1), of i]
  by (auto simp: RetrieveResult_def split: option.splits if_splits thread_state.splits)

lemma InsertNewJob_cases:
  obtains (dup) "rj_Contains j i" "InsertNewJob i j = (Inl (''Job with ID '' @ i @ '' has already been started''), j)"
  | (full) "\<not> rj_Contains j i" "rj_Size j \<ge> rj_Capacity j"
      "InsertNewJob i j = (Inl ''Already at maximum number of active jobs!'', j)"
  | (ok) j' where "\<not> rj_Contains j i" "rj_Size j < rj_Capacity j" "InsertNewJob i j = (Inr (), j')"
      "fst ` set (active_jobs j') = insert i (fst ` set (active_jobs j))" "rj_Size j' = Suc (rj_Size j)"
      "rj_capacity j' = rj_capacity j"
proof (cases "rj_Contains j i")
  case True
  then show ?thesis by (intro dup) (simp_all add: InsertNewJob_def)
next
  case new: False
  show ?thesis
  proof (cases "rj_Size j \<ge> rj_Capacity j")
    case True
    with new show ?thesis by (intro full) (simp_all add: InsertNewJob_def rj_Size_def rj_Capacity_def)
  next
    case False
    with new show ?thesis
      by (intro ok [of "snd (InsertNewJob i j)"])
        (simp_all add: InsertNewJob_def rj_Size_def rj_Capacity_def)
  qed
qed

lemma InsertNewJob_fields:
  assumes "InsertNewJob i j = (Inr (), j')"
  shows "\<not> rj_Contains j i" "rj_Size j < rj_Capacity j" "rj_capacity j' = rj_capacity j"
    "fst ` set (active_jobs j') = insert i (fst ` set (active_jobs j))" "rj_Size j' = Suc (rj_Size j)"
  using assms by (cases rule: InsertNewJob_cases [of j i]; simp)+

lemma RetrieveResult_ready:
  assumes "rj_inv j" "rj_job j i = Some f" "future_result_ready f"
  shows "\<exists>r. fst (RetrieveResult i j) = Inr r \<and> snd (RetrieveResult i j) = rj_erase i j
    \<and> (case fut_state f of Returned x \<Rightarrow> r = x
        | Threw e \<Rightarrow> (\<exists>m. r = Inl (ServiceError JOB_THREAD_EXCEPTION m)) | Pending \<Rightarrow> False)"
  using assms rj_job_valid [OF assms(1,2)]
  by (auto simp: RetrieveResult_def future_result_ready_def split: thread_state.splits)

lemma rj_job_erase: "rj_job (rj_erase i j) k = (if k = i then None else rj_job j k)"
  by (simp add: rj_job_def rj_erase_def delete_conv)

lemma rj_job_insert:
  assumes "InsertNewJob i j = (Inr (), j')"
  shows "rj_job j' k = (if k = i then Some \<lparr> fut_valid = True, fut_state = Pending \<rparr> else rj_job j k)"
proof -
  from assms have new: "map_of (active_jobs j) i = None"
    and j': "active_jobs j' = active_jobs j @ [(i, \<lparr> fut_valid = True, fut_state = Pending \<rparr>)]"
    by (auto simp: InsertNewJob_def rj_Contains_def map_of_eq_None_iff split: if_splits)
  show ?thesis
    by (cases "map_of (active_jobs j) k") (auto simp: rj_job_def j' new map_add_def)
qed

lemma rj_job_finish:
  "rj_job (rj_finish i t j) k = (case rj_job j k of None \<Rightarrow> None
     | Some f \<Rightarrow> if k = i \<and> fut_state f = Pending then Some (f\<lparr> fut_state := t \<rparr>) else Some f)"
proof -
  have "map_of (map (\<lambda>(k, f). if k = i \<and> fut_state f = Pending then (k, f\<lparr>fut_state := t\<rparr>) else (k, f)) xs) k
      = (case map_of xs k of None \<Rightarrow> None
         | Some f \<Rightarrow> if k = i \<and> fut_state f = Pending then Some (f\<lparr> fut_state := t \<rparr>) else Some f)"
    for xs :: "(request_id \<times> 'a job_future) list"
    by (induction xs) auto
  then show ?thesis by (simp add: rj_job_def rj_finish_def)
qed

lemma GetCompletedJobIds_iff:
  assumes "rj_inv j"
  shows "i \<in> GetCompletedJobIds j \<longleftrightarrow> (\<exists>f. rj_job j i = Some f \<and> future_result_ready f)"
proof -
  from assms have "distinct (map fst (active_jobs j))" by (simp add: rj_inv_def)
  then show ?thesis
    by (force simp: GetCompletedJobIds_def rj_job_def map_of_eq_Some_iff)
qed

lemma NumJobsInProgress_bound: "NumJobsInProgress j \<le> rj_Size j"
  by (simp add: NumJobsInProgress_def rj_Size_def)

section \<open>The interface of a job store\<close>

datatype 't runner_call = RunInsert request_id | RunFinish request_id 't | RunRetrieve request_id

fun call_id :: "'t runner_call \<Rightarrow> request_id" where
  "call_id (RunInsert i) = i"
| "call_id (RunFinish i _) = i"
| "call_id (RunRetrieve i) = i"

locale job_store =
  fixes good :: "'j \<Rightarrow> bool"
    and job :: "'j \<Rightarrow> request_id \<Rightarrow> 'f option"
    and ins :: "request_id \<Rightarrow> 'j \<Rightarrow> 'u \<times> 'j"
    and fin :: "request_id \<Rightarrow> 't \<Rightarrow> 'j \<Rightarrow> 'j"
    and ret :: "request_id \<Rightarrow> 'j \<Rightarrow> 'o \<times> 'j"
  assumes ins_good: "good j \<Longrightarrow> good (snd (ins i j))"
    and fin_good: "good j \<Longrightarrow> good (fin i t j)"
    and ret_good: "good j \<Longrightarrow> good (snd (ret i j))"
    and ins_other: "k \<noteq> i \<Longrightarrow> job (snd (ins i j)) k = job j k"
    and fin_other: "k \<noteq> i \<Longrightarrow> job (fin i t j) k = job j k"
    and ret_other: "k \<noteq> i \<Longrightarrow> job (snd (ret i j)) k = job j k"
begin

definition call :: "'t runner_call \<Rightarrow> 'j \<Rightarrow> 'j" where
  "call c j = (case c of RunInsert i \<Rightarrow> snd (ins i j) | RunFinish i t \<Rightarrow> fin i t j
     | RunRetrieve i \<Rightarrow> snd (ret i j))"

lemma call_good: "good j \<Longrightarrow> good (call c j)"
  by (cases c) (simp_all add: call_def ins_good fin_good ret_good)

lemma call_other: "call_id c \<noteq> k \<Longrightarrow> job (call c j) k = job j k"
  by (cases c) (auto simp: call_def ins_other fin_other ret_other)

lemma calls_good: "good j \<Longrightarrow> good (fold call cs j)"
  by (induction cs arbitrary: j) (simp_all add: call_good)

text \<open>Jobs are independent: calls about other ids leave a job's future alone.\<close>

lemma calls_other: "k \<notin> call_id ` set cs \<Longrightarrow> job (fold call cs j) k = job j k"
  by (induction cs arbitrary: j) (auto simp: call_other)

end

lemma RetrieveResult_other: "k \<noteq> i \<Longrightarrow> rj_job (snd (RetrieveResult i j)) k = rj_job j k"
  by (auto simp: RetrieveResult_def rj_job_erase split: option.splits thread_state.splits)

lemma InsertNewJob_other: "k \<noteq> i \<Longrightarrow> rj_job (snd (InsertNewJob i j)) k = rj_job j k"
  by (rule InsertNewJob_cases [of j i]) (auto simp: rj_job_insert)

lemma rj_finish_other: "k \<noteq> i \<Longrightarrow> rj_job (rj_finish i t j) k = rj_job j k"
  by (simp add: rj_job_finish split: option.splits)

interpretation rj: job_store rj_inv rj_job InsertNewJob rj_finish RetrieveResult
  by unfold_locales
    (auto intro: inv_intros simp: RetrieveResult_other InsertNewJob_other rj_finish_other
      intro!: InsertNewJob_inv [OF _ surjective_pairing] RetrieveResult_inv [OF _ surjective_pairing])

definition rj_call :: "'r thread_state runner_call \<Rightarrow> 'r job_runner \<Rightarrow> 'r job_runner" where
  "rj_call c j = (case c of RunInsert i \<Rightarrow> snd (InsertNewJob i j) | RunFinish i t \<Rightarrow> rj_finish i t j
     | RunRetrieve i \<Rightarrow> snd (RetrieveResult i j))"

lemma rj_call_eq: "rj_call = rj.call"
  by (intro ext) (simp add: rj_call_def rj.call_def)

text \<open>What \<open>RetrieveResult\<close> reports for the outcome of a thread.\<close>

definition outcome :: "request_id \<Rightarrow> 'r thread_state \<Rightarrow> 'r expected" where
  "outcome i t = (case t of Returned r \<Rightarrow> r
     | Threw e \<Rightarrow> Inl (ServiceError JOB_THREAD_EXCEPTION
                (''JobManager:RetrieveResult: Thread at ID '' @ i @ '' threw an exception: '' @ e))
     | Pending \<Rightarrow> Inl (ServiceError UNKNOWN []))"

lemma RetrieveResult_outcome:
  assumes "rj_job j i = Some \<lparr> fut_valid = True, fut_state = t \<rparr>" "t \<noteq> Pending"
  shows "RetrieveResult i j = (Inr (outcome i t), rj_erase i j)"
  using assms
  by (auto simp: RetrieveResult_def future_result_ready_def outcome_def split: thread_state.splits)

section \<open>Properties\<close>

text \<open>C6: The result of a job is delivered exactly once and is its own.  After
  \<open>InsertNewJob\<close> succeeds for an id, whatever is done with other ids, the job is not ready
  until its thread ends; then \<open>RetrieveResult\<close> returns what the thread returned (or
  \<open>JOB_THREAD_EXCEPTION\<close> if it threw) and forgets the job: the id is free again and a
  second retrieval throws.\<close>
theorem job_result_exactly_once:
  assumes "rj_inv j" "InsertNewJob i j = (Inr (), j1)" "t \<noteq> Pending"
    and "i \<notin> call_id ` set cs" "i \<notin> call_id ` set cs'"
  shows "ResultIsReady i (fold rj_call cs j1) = Inr False
    \<and> (let j3 = fold rj_call cs' (rj_finish i t (fold rj_call cs j1));
           (r, j4) = RetrieveResult i j3
       in r = Inr (outcome i t) \<and> \<not> rj_Contains j4 i
          \<and> RetrieveResult i j4 = (Inl (no_job_msg i), j4))"
proof -
  let ?j2 = "fold rj_call cs j1"
  let ?j3 = "fold rj_call cs' (rj_finish i t ?j2)"
  have j2: "rj_job ?j2 i = Some \<lparr> fut_valid = True, fut_state = Pending \<rparr>"
    using rj.calls_other [OF assms(4), of j1] rj_job_insert [OF assms(2)] by (simp add: rj_call_eq)
  have "rj_job ?j3 i = rj_job (rj_finish i t ?j2) i"
    using rj.calls_other [OF assms(5)] by (simp add: rj_call_eq)
  then have j3: "rj_job ?j3 i = Some \<lparr> fut_valid = True, fut_state = t \<rparr>"
    by (simp add: rj_job_finish j2)
  have gone: "rj_job (rj_erase i ?j3) i = None" by (simp add: rj_job_erase)
  then have "RetrieveResult i (rj_erase i ?j3) = (Inl (no_job_msg i), rj_erase i ?j3)"
    by (simp add: RetrieveResult_def)
  with gone show ?thesis
    by (simp add: RetrieveResult_outcome [OF j3 assms(3)] rj_Contains_job ResultIsReady_def j2
        future_result_ready_def)
qed

definition sample_runner :: "nat job_runner" where
  "sample_runner = \<lparr> rj_capacity = 2, active_jobs = [] \<rparr>"

theorem job_result_exactly_once_witness:
  "fst (RetrieveResult ''a'' (fold rj_call [RunRetrieve ''b'']
     (rj_finish ''a'' (Returned (Inr 7)) (fold rj_call [RunInsert ''b'']
       (snd (InsertNewJob ''a'' sample_runner)))))) = Inr (Inr 7)"
proof -
  have i: "rj_inv sample_runner" by (simp add: sample_runner_def rj_inv_def)
  have a: "InsertNewJob ''a'' sample_runner = (Inr (), snd (InsertNewJob ''a'' sample_runner))"
    by (simp add: InsertNewJob_def sample_runner_def rj_Contains_def)
  show ?thesis
    using job_result_exactly_once [OF i a, of "Returned (Inr 7)" "[RunInsert ''b'']" "[RunRetrieve ''b'']"]
    by (simp add: outcome_def Let_def split_beta)
qed

text \<open>Every sequence of insertions, thread terminations and retrievals keeps the runner
  within its capacity, with one job per id, and never reaches the \<open>JOB_THREAD_INVALIDATED\<close>
  branch: each stored future is still valid.\<close>
theorem job_runner_invariant:
  assumes "JobRunner n = Inr (j0 :: 'r job_runner)"
  shows "rj_Size (fold rj_call cs j0) \<le> rj_Capacity (fold rj_call cs j0)
    \<and> distinct (map fst (active_jobs (fold rj_call cs j0)))
    \<and> (\<forall>m. fst (RetrieveResult i (fold rj_call cs j0))
         = Inr (Inl (ServiceError JOB_THREAD_INVALIDATED m))
       \<longrightarrow> (\<exists>f. rj_job (fold rj_call cs j0) i = Some f
              \<and> fut_state f = Returned (Inl (ServiceError JOB_THREAD_INVALIDATED m))))"
proof -
  let ?j = "fold rj_call cs j0"
  have inv: "rj_inv ?j" using rj.calls_good [OF JobRunner_inv [OF assms]] by (simp add: rj_call_eq)
  have "\<exists>f. rj_job ?j i = Some f \<and> fut_state f = Returned (Inl (ServiceError JOB_THREAD_INVALIDATED m))"
    if r: "fst (RetrieveResult i ?j) = Inr (Inl (ServiceError JOB_THREAD_INVALIDATED m))" for m
    using r rj_job_valid [OF inv, of i]
    by (auto simp: RetrieveResult_def ServiceError_def split: option.splits if_splits thread_state.splits)
  with inv show ?thesis by (simp add: rj_inv_def rj_Size_def rj_Capacity_def)
qed

theorem job_runner_invariant_witness:
  "\<exists>j0 :: nat job_runner. JobRunner 1 = Inr j0
     \<and> rj_Size (fold rj_call [RunInsert ''a'', RunInsert ''b''] j0)
        \<le> rj_Capacity (fold rj_call [RunInsert ''a'', RunInsert ''b''] j0)"
proof -
  have "JobRunner 1 = Inr (\<lparr> rj_capacity = 1, active_jobs = [] \<rparr> :: nat job_runner)"
    by (simp add: JobRunner_def)
  from job_runner_invariant [OF this, of "[RunInsert ''a'', RunInsert ''b'']" "''a''"] this
  show ?thesis by (intro exI conjI) (assumption, blast)
qed

end
