(* ===== verification/Resource_Manager.thy ===== *)
theory Resource_Manager
  imports Request_Queue Job_Runner
begin

text \<open>
  \<open>service/utils/resource_manager.h\<close>: the queue of waiting requests in front of the runner
  of started jobs.  The record holds the shared registry (a parameter type here: its model is
  the theory \<open>Resource_Registry\<close>), the queue, the runner and the stop flag.
  \<open>StartJobImpl\<close> and \<open>Cleanup\<close> are virtual in the source and arguments here; the locale
  \<open>job_starter\<close> says what a subclass must keep, and \<open>Iris_Manager\<close> interprets it.

  First the operations run one after the other (\<open>rm_event\<close>), then the step relation
  \<open>conc_step\<close> interleaves them at the granularity of the two mutexes.
\<close>

record ('r, 'res, 'g) resource_manager =
  rm_registry :: 'g
  rm_queue :: "'r request_queue"
  rm_runner :: "'res job_runner"
  stop_triggered :: bool

definition ResourceManager ::
  "'g throws \<Rightarrow> int \<Rightarrow> int \<Rightarrow> ('r, 'res, 'g) resource_manager throws" where
  "ResourceManager registry max_queue_size max_active_jobs =
     bindE registry (\<lambda>g.
     bindE (RequestQueue max_queue_size) (\<lambda>q.
     bindE (JobRunner max_active_jobs) (\<lambda>j.
       Inr \<lparr> rm_registry = g, rm_queue = q, rm_runner = j, stop_triggered = False \<rparr>)))"

section \<open>Operations\<close>

definition HasJob :: "('r, 'res, 'g) resource_manager \<Rightarrow> request_id \<Rightarrow> bool" where
  "HasJob m i = (rq_Contains (rm_queue m) i \<or> rj_Contains (rm_runner m) i)"

definition QueueRequest ::
  "'a request_adapter_scheme \<Rightarrow> ('a request_adapter_scheme, 'res, 'g) resource_manager
   \<Rightarrow> bool expected throws \<times> ('a request_adapter_scheme, 'res, 'g) resource_manager" where
  "QueueRequest r m =
     (if HasJob m (req_id r) then (Inr (Inr True), m)
      else if rq_Size (rm_queue m) \<ge> rq_Capacity (rm_queue m)
      then (Inr (Inl (ServiceError QUEUE_CAPACITY_REACHED ''Queue is at capacity!'')), m)
      else case rq_Enqueue r (rm_queue m) of
          Inl e \<Rightarrow> (Inl (queue_error_what e), m)
        | Inr q \<Rightarrow> (Inr (Inr True), m\<lparr> rm_queue := q \<rparr>))"

definition ClearQueue :: "('r, 'res, 'g) resource_manager \<Rightarrow> ('r, 'res, 'g) resource_manager" where
  "ClearQueue m = m\<lparr> rm_queue := rq_Clear (rm_queue m) \<rparr>"

type_synonym ('r, 'res, 'g) start_impl =
  "'r \<Rightarrow> ('r, 'res, 'g) resource_manager \<Rightarrow> bool expected throws \<times> ('r, 'res, 'g) resource_manager"

type_synonym ('r, 'res, 'g) cleanup_impl =
  "('r, 'res, 'g) resource_manager \<Rightarrow> unit throws \<times> ('r, 'res, 'g) resource_manager"

definition StartJob ::
  "('a request_adapter_scheme, 'res, 'g) start_impl \<Rightarrow> ('a request_adapter_scheme, 'res, 'g) start_impl" where
  "StartJob impl r m =
     (if HasJob m (req_id r)
      then (Inr (Inl (ServiceError DUPLICATE_ID
              (''Job with ID '' @ req_id r @ '' is already in progress!''))), m)
      else if rj_Size (rm_runner m) \<ge> rj_Capacity (rm_runner m)
      then (Inr (Inl (ServiceError JOB_CAPACITY_REACHED ''Already at maximum number of active jobs'')), m)
      else impl r m)"

definition base_Cleanup :: "('r, 'res, 'g) cleanup_impl" where
  "base_Cleanup m = (Inr (), m)"

definition RunOnce ::
  "('a request_adapter_scheme, 'res, 'g) start_impl
   \<Rightarrow> ('a request_adapter_scheme, 'res, 'g) resource_manager
   \<Rightarrow> bool expected \<times> ('a request_adapter_scheme, 'res, 'g) resource_manager" where
  "RunOnce impl m = (case rq_PopNextRequest (rm_queue m) of
     Inl Queue_empty_error \<Rightarrow> (Inl (ServiceError QUEUE_EMPTY ''Queue is empty!''), m)
   | Inl e \<Rightarrow> (Inl (ServiceError UNKNOWN
        (''Failed due to unexpected exception: '' @ queue_error_what e)), m)
   | Inr (r, q) \<Rightarrow> (case StartJob impl r (m\<lparr> rm_queue := q \<rparr>) of
         (Inl e, m') \<Rightarrow> (Inl (ServiceError UNKNOWN (''Failed due to unexpected exception: '' @ e)), m')
       | (Inr x, m') \<Rightarrow> (x, m')))"

text \<open>The body of the loop of \<open>Run\<close>: the early \<open>continue\<close> when nothing is queued or the runner
  is full, else one \<open>RunOnce\<close> whose error is only logged.\<close>

definition Run_body ::
  "('a request_adapter_scheme, 'res, 'g) cleanup_impl \<Rightarrow> ('a request_adapter_scheme, 'res, 'g) start_impl
   \<Rightarrow> ('a request_adapter_scheme, 'res, 'g) cleanup_impl" where
  "Run_body cleanup impl m = (case cleanup m of
     (Inl e, m1) \<Rightarrow> (Inl e, m1)
   | (Inr _, m1) \<Rightarrow>
       if rq_Empty (rm_queue m1) \<or> rj_Size (rm_runner m1) = rj_Capacity (rm_runner m1)
       then (Inr (), m1)
       else (Inr (), snd (RunOnce impl m1)))"

definition Running :: "('r, 'res, 'g) resource_manager \<Rightarrow> bool" where
  "Running m = (\<not> stop_triggered m)"

definition Stop :: "('r, 'res, 'g) resource_manager \<Rightarrow> ('r, 'res, 'g) resource_manager" where
  "Stop m = m\<lparr> stop_triggered := True \<rparr>"

section \<open>Sequences of operations\<close>

text \<open>What can happen to a manager: an RPC queues a request or clears the queue, a job's
  thread ends, the service stops it, or the \<open>Run\<close> loop makes one pass (none once stopped).\<close>

datatype ('r, 'res) rm_event =
  EvQueue 'r | EvClear | EvFinish request_id "'res thread_state" | EvStop | EvRun

definition rm_event ::
  "('a request_adapter_scheme, 'res, 'g) cleanup_impl \<Rightarrow> ('a request_adapter_scheme, 'res, 'g) start_impl
   \<Rightarrow> ('a request_adapter_scheme, 'res) rm_event
   \<Rightarrow> ('a request_adapter_scheme, 'res, 'g) resource_manager
   \<Rightarrow> ('a request_adapter_scheme, 'res, 'g) resource_manager" where
  "rm_event cleanup impl ev m = (case ev of
     EvQueue r \<Rightarrow> snd (QueueRequest r m)
   | EvClear \<Rightarrow> ClearQueue m
   | EvFinish i t \<Rightarrow> m\<lparr> rm_runner := rj_finish i t (rm_runner m) \<rparr>
   | EvStop \<Rightarrow> Stop m
   | EvRun \<Rightarrow> (if Running m then snd (Run_body cleanup impl m) else m))"

lemmas rm_defs [model_defs] = HasJob_def QueueRequest_def ClearQueue_def StartJob_def
  RunOnce_def Run_body_def Running_def Stop_def rm_event_def

section \<open>The invariant\<close>

definition rm_inv :: "('a request_adapter_scheme, 'res, 'g) resource_manager \<Rightarrow> bool" where
  "rm_inv m \<longleftrightarrow> rq_inv (rm_queue m) \<and> rj_inv (rm_runner m)
     \<and> queued_ids (rm_queue m) \<inter> fst ` set (active_jobs (rm_runner m)) = {}"

lemma rm_invD:
  assumes "rm_inv m"
  shows "rq_inv (rm_queue m)" "rj_inv (rm_runner m)"
    "i \<in> queued_ids (rm_queue m) \<Longrightarrow> i \<notin> fst ` set (active_jobs (rm_runner m))"
  using assms by (auto simp: rm_inv_def)

lemma ResourceManager_inv [inv_intros]:
  "ResourceManager g n k = Inr m \<Longrightarrow> rm_inv m"
  using RequestQueue_inv [of n] JobRunner_inv [of k]
  by (auto simp: ResourceManager_def bindE_Inr_iff rm_inv_def RequestQueue_def split: if_splits)

text \<open>The four ways a call of \<open>QueueRequest\<close> on a well-formed manager can end; it never throws.\<close>

lemma QueueRequest_cases:
  assumes "rm_inv m"
  obtains (known) "HasJob m (req_id r)" "QueueRequest r m = (Inr (Inr True), m)"
  | (full) "\<not> HasJob m (req_id r)" "rq_Size (rm_queue m) \<ge> rq_Capacity (rm_queue m)"
      "QueueRequest r m = (Inr (Inl (ServiceError QUEUE_CAPACITY_REACHED ''Queue is at capacity!'')), m)"
  | (added) q where "\<not> HasJob m (req_id r)" "rq_Enqueue r (rm_queue m) = Inr q"
      "QueueRequest r m = (Inr (Inr True), m\<lparr> rm_queue := q \<rparr>)"
proof (cases "HasJob m (req_id r)")
  case True
  then show ?thesis by (intro known) (simp_all add: QueueRequest_def)
next
  case new: False
  show ?thesis
  proof (cases "rq_Size (rm_queue m) \<ge> rq_Capacity (rm_queue m)")
    case True
    with new show ?thesis by (intro full) (simp_all add: QueueRequest_def)
  next
    case False
    then obtain q where "rq_Enqueue r (rm_queue m) = Inr q"
      by (auto simp: rq_Enqueue_def rq_Size_def rq_Capacity_def)
    with new False show ?thesis by (intro added [of q]) (simp_all add: QueueRequest_def)
  qed
qed

lemma QueueRequest_inv [inv_intros]:
  assumes "rm_inv m" shows "rm_inv (snd (QueueRequest r m))"
  using assms
proof (cases rule: QueueRequest_cases [of m r])
  case (added q)
  have "queued_ids q = insert (req_id r) (queued_ids (rm_queue m))"
    using added(2) by (auto simp: rq_Enqueue_def split: if_splits)
  moreover have "rq_inv q"
    using rq_Enqueue_inv [OF rm_invD(1) [OF assms] added(2)] added(1) by (simp add: HasJob_def)
  ultimately show ?thesis
    using assms added by (auto simp: rm_inv_def HasJob_def rj_Contains_def)
qed (simp_all add: assms)

lemma ClearQueue_inv [inv_intros]: "rm_inv m \<Longrightarrow> rm_inv (ClearQueue m)"
  by (auto simp: rm_inv_def ClearQueue_def rq_Clear_inv) (simp add: rq_Clear_def)

lemma finish_inv [inv_intros]:
  "rm_inv m \<Longrightarrow> rm_inv (m\<lparr> rm_runner := rj_finish i t (rm_runner m) \<rparr>)"
  by (auto simp: rm_inv_def rj_finish_inv)

lemma Stop_inv [inv_intros]: "rm_inv m \<Longrightarrow> rm_inv (Stop m)"
  by (simp add: rm_inv_def Stop_def)

section \<open>The interface of a subclass\<close>

text \<open>\<open>StartJobImpl\<close> either changes nothing or starts the job of its request through
  \<open>InsertNewJob\<close>; \<open>Cleanup\<close> does not throw, touches only the runner, and drops only
  completed jobs.\<close>

locale job_starter =
  fixes cleanup :: "('a request_adapter_scheme, 'res, 'g) cleanup_impl"
    and impl :: "('a request_adapter_scheme, 'res, 'g) start_impl"
  assumes impl_frame: "impl r m = (x, m') \<Longrightarrow> m' = m \<or>
      (\<exists>j'. InsertNewJob (req_id r) (rm_runner m) = (Inr (), j') \<and> m' = m\<lparr> rm_runner := j' \<rparr>
            \<and> x = Inr (Inr True))"
    and cleanup_frame: "rj_inv (rm_runner m) \<Longrightarrow>
      \<exists>j'. cleanup m = (Inr (), m\<lparr> rm_runner := j' \<rparr>) \<and> rj_inv j'
        \<and> fst ` set (active_jobs j') = fst ` set (active_jobs (rm_runner m)) - GetCompletedJobIds (rm_runner m)
        \<and> rj_capacity j' = rj_capacity (rm_runner m)"
begin

lemma StartJob_frame:
  assumes "StartJob impl r m = (x, m')"
  shows "m' = m \<or> (\<exists>j'. InsertNewJob (req_id r) (rm_runner m) = (Inr (), j')
            \<and> m' = m\<lparr> rm_runner := j' \<rparr> \<and> x = Inr (Inr True))"
  using assms impl_frame [of r m x m'] by (auto simp: StartJob_def split: if_splits)

lemma RunOnce_cases:
  assumes "rm_inv m"
  obtains (empty) "queued_requests (rm_queue m) = []"
      "RunOnce impl m = (Inl (ServiceError QUEUE_EMPTY ''Queue is empty!''), m)"
  | (popped) r rs x m' where "queued_requests (rm_queue m) = r # rs" "RunOnce impl m = (x, m')"
      "rm_queue m' = snd (projr (rq_PopNextRequest (rm_queue m)))"
      "rm_runner m' = rm_runner m \<or> (InsertNewJob (req_id r) (rm_runner m) = (Inr (), rm_runner m')
          \<and> x = Inr True)"
proof (cases "queued_requests (rm_queue m)")
  case Nil
  then show ?thesis by (intro empty) (simp_all add: RunOnce_def rq_PopNextRequest_def)
next
  case (Cons r rs)
  let ?q = "snd (projr (rq_PopNextRequest (rm_queue m)))"
  have pop: "rq_PopNextRequest (rm_queue m) = Inr (r, ?q)"
    using Cons by (simp add: rq_PopNextRequest_def)
  obtain y m' where s: "StartJob impl r (m\<lparr> rm_queue := ?q \<rparr>) = (y, m')" by fastforce
  show ?thesis
    using StartJob_frame [OF s] Cons pop s
    by (intro popped [of r rs "fst (RunOnce impl m)" m'])
      (auto simp: RunOnce_def split: sum.splits)
qed

lemma RunOnce_inv:
  assumes "rm_inv m" shows "rm_inv (snd (RunOnce impl m))"
  using assms
proof (cases rule: RunOnce_cases)
  case (popped r rs x m')
  let ?q = "rm_queue m'"
  have pop: "rq_PopNextRequest (rm_queue m) = Inr (r, ?q)"
    using popped by (simp add: rq_PopNextRequest_def)
  have q: "rq_inv ?q" using rq_Pop_inv [OF rm_invD(1) [OF assms] pop] .
  have ids: "queued_ids ?q = queued_ids (rm_queue m) - {req_id r}"
    by (rule rq_Pop_fields(2) [OF pop])
  from popped(4) show ?thesis
  proof
    assume "rm_runner m' = rm_runner m"
    then show ?thesis using assms q ids popped(2) by (auto simp: rm_inv_def)
  next
    assume ins: "InsertNewJob (req_id r) (rm_runner m) = (Inr (), rm_runner m') \<and> x = Inr True"
    then have "rj_inv (rm_runner m')" using InsertNewJob_inv rm_invD(2) [OF assms] by blast
    moreover have "fst ` set (active_jobs (rm_runner m')) = insert (req_id r) (fst ` set (active_jobs (rm_runner m)))"
      using ins InsertNewJob_fields(4) by blast
    ultimately show ?thesis using assms q ids popped(2) by (auto simp: rm_inv_def)
  qed
qed (simp add: assms)

lemma Run_body_inv:
  assumes "rm_inv m"
  shows "fst (Run_body cleanup impl m) = Inr () \<and> rm_inv (snd (Run_body cleanup impl m))"
proof -
  from cleanup_frame [OF rm_invD(2) [OF assms]] obtain j' where
    c: "cleanup m = (Inr (), m\<lparr> rm_runner := j' \<rparr>)" "rj_inv j'"
    "fst ` set (active_jobs j') = fst ` set (active_jobs (rm_runner m)) - GetCompletedJobIds (rm_runner m)"
    by blast
  have i: "rm_inv (m\<lparr> rm_runner := j' \<rparr>)" using assms c by (auto simp: rm_inv_def)
  from RunOnce_inv [OF i] i show ?thesis by (simp add: Run_body_def c)
qed

lemma event_inv: "rm_inv m \<Longrightarrow> rm_inv (rm_event cleanup impl ev m)"
  by (cases ev) (auto simp: rm_event_def Run_body_inv intro: inv_intros)

lemma events_inv: "rm_inv m \<Longrightarrow> rm_inv (fold (rm_event cleanup impl) evs m)"
  by (induction evs arbitrary: m) (simp_all add: event_inv)

end

section \<open>Interleaved execution\<close>

text \<open>
  The handlers of the RPC server call \<open>QueueRequest\<close> from several threads while one thread
  executes \<open>Run\<close>.  Each single operation of the queue and of the runner is atomic (it holds the
  mutex of that object), the sequences of them are not.  A handler \<open>h\<close> has a program counter in
  \<open>QueueRequest\<close>; the run thread has one in \<open>RunOnce\<close>/\<open>StartJob\<close>.
\<close>

datatype 'r handler_pc =
    AtEntry 'r | NotQueued 'r | NoJob 'r | HasRoom 'r | Finished "bool expected throws"

datatype 'r runner_pc =
    Polling | Popped 'r | PoppedNotQueued 'r | PoppedNoJob 'r | Inserting 'r

record ('r, 'res) conc =
  c_queue :: "'r request_queue"
  c_runner :: "'res job_runner"
  c_run :: "'r runner_pc"
  c_handlers :: "nat \<Rightarrow> 'r handler_pc option"

definition at_pc :: "('r, 'res) conc \<Rightarrow> nat \<Rightarrow> 'r handler_pc \<Rightarrow> ('r, 'res) conc" where
  "at_pc s h p = s\<lparr> c_handlers := (c_handlers s)(h \<mapsto> p) \<rparr>"

definition enqueue_result ::
  "'a request_adapter_scheme \<Rightarrow> nat \<Rightarrow> ('a request_adapter_scheme, 'res) conc
   \<Rightarrow> ('a request_adapter_scheme, 'res) conc" where
  "enqueue_result r h s = (case rq_Enqueue r (c_queue s) of
     Inl e \<Rightarrow> at_pc s h (Finished (Inl (queue_error_what e)))
   | Inr q \<Rightarrow> at_pc (s\<lparr> c_queue := q \<rparr>) h (Finished (Inr (Inr True))))"

inductive conc_step ::
  "('a request_adapter_scheme, 'res) conc \<Rightarrow> ('a request_adapter_scheme, 'res) conc \<Rightarrow> bool" where
  arrive: "c_handlers s h = None \<Longrightarrow> conc_step s (at_pc s h (AtEntry r))"
| check_queue: "c_handlers s h = Some (AtEntry r) \<Longrightarrow>
    conc_step s (at_pc s h (if rq_Contains (c_queue s) (req_id r) then Finished (Inr (Inr True)) else NotQueued r))"
| check_runner: "c_handlers s h = Some (NotQueued r) \<Longrightarrow>
    conc_step s (at_pc s h (if rj_Contains (c_runner s) (req_id r) then Finished (Inr (Inr True)) else NoJob r))"
| check_room: "c_handlers s h = Some (NoJob r) \<Longrightarrow>
    conc_step s (at_pc s h (if rq_Size (c_queue s) \<ge> rq_Capacity (c_queue s)
      then Finished (Inr (Inl (ServiceError QUEUE_CAPACITY_REACHED ''Queue is at capacity!'')))
      else HasRoom r))"
| enqueue: "c_handlers s h = Some (HasRoom r) \<Longrightarrow> conc_step s (enqueue_result r h s)"
| clear: "conc_step s (s\<lparr> c_queue := rq_Clear (c_queue s) \<rparr>)"
| thread_end: "conc_step s (s\<lparr> c_runner := rj_finish i t (c_runner s) \<rparr>)"
| clean: "c_run s = Polling \<Longrightarrow> i \<in> GetCompletedJobIds (c_runner s) \<Longrightarrow>
    conc_step s (s\<lparr> c_runner := snd (RetrieveResult i (c_runner s)) \<rparr>)"
| pop: "c_run s = Polling \<Longrightarrow> rq_PopNextRequest (c_queue s) = Inr (r, q) \<Longrightarrow>
    conc_step s (s\<lparr> c_queue := q, c_run := Popped r \<rparr>)"
| run_check_queue: "c_run s = Popped r \<Longrightarrow>
    conc_step s (s\<lparr> c_run := if rq_Contains (c_queue s) (req_id r) then Polling else PoppedNotQueued r \<rparr>)"
| run_check_runner: "c_run s = PoppedNotQueued r \<Longrightarrow>
    conc_step s (s\<lparr> c_run := if rj_Contains (c_runner s) (req_id r) then Polling else PoppedNoJob r \<rparr>)"
| run_check_room: "c_run s = PoppedNoJob r \<Longrightarrow>
    conc_step s (s\<lparr> c_run := if rj_Size (c_runner s) \<ge> rj_Capacity (c_runner s) then Polling else Inserting r \<rparr>)"
| insert_job: "c_run s = Inserting r \<Longrightarrow>
    conc_step s (s\<lparr> c_runner := snd (InsertNewJob (req_id r) (c_runner s)), c_run := Polling \<rparr>)"

definition conc_init :: "nat \<Rightarrow> nat \<Rightarrow> ('r, 'res) conc" where
  "conc_init n k = \<lparr>
     c_queue = \<lparr> rq_capacity = n, queued_requests = [], queued_ids = {} \<rparr>,
     c_runner = \<lparr> rj_capacity = k, active_jobs = [] \<rparr>, c_run = Polling, c_handlers = (\<lambda>_. None) \<rparr>"

inductive conc_reachable ::
  "nat \<Rightarrow> nat \<Rightarrow> ('a request_adapter_scheme, 'res) conc \<Rightarrow> bool" for n k where
  init: "conc_reachable n k (conc_init n k)"
| step: "conc_reachable n k s \<Longrightarrow> conc_step s s' \<Longrightarrow> conc_reachable n k s'"

text \<open>What the run thread has established about the runner when it gets to \<open>InsertNewJob\<close>:
  only the run thread adds jobs, so its checks stay true.\<close>

definition run_checked :: "('a request_adapter_scheme, 'res) conc \<Rightarrow> bool" where
  "run_checked s = (case c_run s of
     PoppedNoJob r \<Rightarrow> \<not> rj_Contains (c_runner s) (req_id r)
   | Inserting r \<Rightarrow> \<not> rj_Contains (c_runner s) (req_id r) \<and> rj_Size (c_runner s) < rj_Capacity (c_runner s)
   | _ \<Rightarrow> True)"

definition conc_inv :: "nat \<Rightarrow> nat \<Rightarrow> ('a request_adapter_scheme, 'res) conc \<Rightarrow> bool" where
  "conc_inv n k s \<longleftrightarrow> rq_sound (c_queue s) \<and> rq_capacity (c_queue s) = n
     \<and> rj_inv (c_runner s) \<and> rj_capacity (c_runner s) = k \<and> run_checked s"

lemma at_pc_simps [simp]:
  "c_queue (at_pc s h p) = c_queue s" "c_runner (at_pc s h p) = c_runner s"
  "c_run (at_pc s h p) = c_run s" "c_handlers (at_pc s h p) = (c_handlers s)(h \<mapsto> p)"
  by (simp_all add: at_pc_def)

lemma conc_inv_at_pc [simp]: "conc_inv n k (at_pc s h p) = conc_inv n k s"
  by (simp add: conc_inv_def run_checked_def split: runner_pc.split)

lemma rq_sound_ops:
  assumes "rq_sound q"
  shows "rq_Enqueue r q = Inr q' \<Longrightarrow> rq_sound q' \<and> rq_capacity q' = rq_capacity q"
    and "rq_PopNextRequest q = Inr (r, q'') \<Longrightarrow> rq_sound q'' \<and> rq_capacity q'' = rq_capacity q"
    and "rq_sound (rq_Clear q) \<and> rq_capacity (rq_Clear q) = rq_capacity q"
  using rq_call_sound [OF assms, of "CallEnqueue r"] rq_call_sound [OF assms, of CallPop]
    rq_call_sound [OF assms, of CallClear]
  by (auto simp: rq_call_def)

lemma RetrieveResult_fields:
  assumes "rj_inv j"
  shows "rj_inv (snd (RetrieveResult i j))" "rj_capacity (snd (RetrieveResult i j)) = rj_capacity j"
  using RetrieveResult_inv [OF assms surjective_pairing [of "RetrieveResult i j"]]
  by (auto simp: RetrieveResult_def rj_erase_def split: option.splits thread_state.splits)

lemma conc_step_inv:
  assumes "conc_step s s'" "conc_inv n k s"
  shows "conc_inv n k s'"
  using assms
proof (cases rule: conc_step.cases)
  case (enqueue h r)
  with assms(2) show ?thesis
    using rq_sound_ops(1) [of "c_queue s" r]
    by (auto simp: enqueue_result_def conc_inv_def run_checked_def split: sum.splits runner_pc.splits)
next
  case clear
  with assms(2) rq_sound_ops(3) show ?thesis
    by (auto simp: conc_inv_def run_checked_def split: runner_pc.splits)
next
  case (thread_end i t)
  with assms(2) rj_finish_inv show ?thesis
    by (auto simp: conc_inv_def run_checked_def rj_Contains_def rj_Size_def rj_Capacity_def
        split: runner_pc.splits)
next
  case (clean i)
  with assms(2) RetrieveResult_fields show ?thesis
    by (auto simp: conc_inv_def run_checked_def)
next
  case (pop r q)
  with assms(2) rq_sound_ops(2) [of "c_queue s" r q] show ?thesis
    by (auto simp: conc_inv_def run_checked_def)
next
  case (insert_job r)
  with assms(2) show ?thesis
    by (cases rule: InsertNewJob_cases [of "c_runner s" "req_id r"])
      (auto simp: conc_inv_def run_checked_def dest: InsertNewJob_inv)
qed (auto simp: conc_inv_def run_checked_def rj_Size_def rj_Capacity_def split: runner_pc.splits)

lemma conc_reachable_inv:
  assumes "conc_reachable n k s" "0 < n" "0 < k"
  shows "conc_inv n k s"
  using assms
proof (induction rule: conc_reachable.induct)
  case init
  then show ?case
    by (simp add: conc_inv_def conc_init_def rq_sound_def rq_bounded_def rj_inv_def run_checked_def)
next
  case (step s s')
  then show ?case using conc_step_inv by blast
qed

section \<open>Properties\<close>

text \<open>C2: Under every interleaving of the handlers with the run thread, the queue and the runner
  stay within their capacities, the runner never holds two jobs with one id, and the
  non-atomic checks of \<open>StartJob\<close> suffice: when the run thread reaches \<open>InsertNewJob\<close>, the call
  succeeds, so \<open>RunOnce\<close> never fails with an unexpected exception because of it.\<close>
theorem interleaving_safe:
  assumes "conc_reachable n k s" "0 < n" "0 < k"
  shows "rq_Size (c_queue s) \<le> n \<and> rj_Size (c_runner s) \<le> k
    \<and> distinct (map fst (active_jobs (c_runner s)))
    \<and> (\<forall>r. c_run s = Inserting r \<longrightarrow> fst (InsertNewJob (req_id r) (c_runner s)) = Inr ())"
proof -
  have i: "conc_inv n k s" using conc_reachable_inv assms by blast
  have "fst (InsertNewJob (req_id r) (c_runner s)) = Inr ()" if "c_run s = Inserting r" for r
    using i that by (auto simp: conc_inv_def run_checked_def InsertNewJob_def rj_Size_def rj_Capacity_def)
  with i show ?thesis
    by (auto simp: conc_inv_def rq_sound_def rq_bounded_def rj_inv_def rq_Size_def rj_Size_def)
qed

text \<open>Labels that pick one step, to follow a schedule.\<close>

datatype 'r conc_label = LArrive nat 'r | LHandler nat | LPop | LRun

definition conc_do ::
  "'a request_adapter_scheme conc_label \<Rightarrow> ('a request_adapter_scheme, 'res) conc
   \<Rightarrow> ('a request_adapter_scheme, 'res) conc option" where
  "conc_do l s = (case l of
     LArrive h r \<Rightarrow> (if c_handlers s h = None then Some (at_pc s h (AtEntry r)) else None)
   | LHandler h \<Rightarrow> (case c_handlers s h of
       Some (AtEntry r) \<Rightarrow> Some (at_pc s h
          (if rq_Contains (c_queue s) (req_id r) then Finished (Inr (Inr True)) else NotQueued r))
     | Some (NotQueued r) \<Rightarrow> Some (at_pc s h
          (if rj_Contains (c_runner s) (req_id r) then Finished (Inr (Inr True)) else NoJob r))
     | Some (NoJob r) \<Rightarrow> Some (at_pc s h (if rq_Size (c_queue s) \<ge> rq_Capacity (c_queue s)
          then Finished (Inr (Inl (ServiceError QUEUE_CAPACITY_REACHED ''Queue is at capacity!'')))
          else HasRoom r))
     | Some (HasRoom r) \<Rightarrow> Some (enqueue_result r h s)
     | _ \<Rightarrow> None)
   | LPop \<Rightarrow> (case (c_run s, rq_PopNextRequest (c_queue s)) of
       (Polling, Inr (r, q)) \<Rightarrow> Some (s\<lparr> c_queue := q, c_run := Popped r \<rparr>)
     | _ \<Rightarrow> None)
   | LRun \<Rightarrow> (case c_run s of
       Popped r \<Rightarrow> Some (s\<lparr> c_run := if rq_Contains (c_queue s) (req_id r) then Polling else PoppedNotQueued r \<rparr>)
     | PoppedNotQueued r \<Rightarrow> Some (s\<lparr> c_run := if rj_Contains (c_runner s) (req_id r) then Polling else PoppedNoJob r \<rparr>)
     | PoppedNoJob r \<Rightarrow> Some (s\<lparr> c_run := if rj_Size (c_runner s) \<ge> rj_Capacity (c_runner s) then Polling else Inserting r \<rparr>)
     | Inserting r \<Rightarrow> Some (s\<lparr> c_runner := snd (InsertNewJob (req_id r) (c_runner s)), c_run := Polling \<rparr>)
     | Polling \<Rightarrow> None))"

lemma conc_do_step: "conc_do l s = Some s' \<Longrightarrow> conc_step s s'"
proof (cases l)
  case (LArrive h r)
  then show "conc_do l s = Some s' \<Longrightarrow> conc_step s s'"
    by (auto simp: conc_do_def intro: conc_step.intros split: if_splits)
qed (auto simp: conc_do_def intro: conc_step.intros split: option.splits handler_pc.splits
      runner_pc.splits sum.splits split del: if_split)

fun conc_schedule ::
  "'a request_adapter_scheme conc_label list \<Rightarrow> ('a request_adapter_scheme, 'res) conc
   \<Rightarrow> ('a request_adapter_scheme, 'res) conc option" where
  "conc_schedule [] s = Some s"
| "conc_schedule (l # ls) s = (case conc_do l s of None \<Rightarrow> None | Some s' \<Rightarrow> conc_schedule ls s')"

lemma conc_schedule_reachable:
  "conc_schedule ls s = Some s' \<Longrightarrow> conc_reachable n k s \<Longrightarrow> conc_reachable n k s'"
  by (induction ls arbitrary: s) (auto split: option.splits, meson conc_do_step conc_reachable.step)

theorem interleaving_safe_witness:
  "\<exists>s :: (request_adapter, nat) conc. conc_reachable 1 1 s \<and> rq_Size (c_queue s) \<le> 1 \<and> rj_Size (c_runner s) \<le> 1
     \<and> c_run s = Inserting (sample_request ''a'')
     \<and> fst (InsertNewJob ''a'' (c_runner s)) = Inr ()"
proof -
  let ?a = "sample_request ''a''"
  let ?ls = "[LArrive 0 ?a, LHandler 0, LHandler 0, LHandler 0, LHandler 0, LPop, LRun, LRun, LRun]"
  obtain s :: "(request_adapter, nat) conc" where s: "conc_schedule ?ls (conc_init 1 1) = Some s"
    and r: "c_run s = Inserting ?a"
    by (simp add: conc_do_def conc_init_def enqueue_result_def at_pc_def rq_defs rj_defs sample_request_def)
  have "conc_reachable 1 1 s" by (rule conc_schedule_reachable [OF s conc_reachable.init])
  with interleaving_safe [OF this] r show ?thesis by (auto simp: sample_request_def)
qed

text \<open>The duplicate guard of \<open>QueueRequest\<close> is not atomic: two handlers that receive the same
  request id can both pass it, and there is a reachable state in which the job of the id
  is running while a second request with the id is still queued.\<close>
theorem duplicate_guard_race:
  "\<exists>s :: (request_adapter, nat) conc. conc_reachable 2 1 s
     \<and> c_handlers s 0 = Some (Finished (Inr (Inr True)))
     \<and> c_handlers s 1 = Some (Finished (Inr (Inr True)))
     \<and> rj_Contains (c_runner s) ''a'' \<and> ''a'' \<in> req_id ` set (queued_requests (c_queue s))"
proof -
  let ?a = "sample_request ''a''"
  let ?ls = "[LArrive 0 ?a, LArrive 1 ?a, LHandler 0, LHandler 0, LHandler 0, LHandler 1, LHandler 1,
    LHandler 1, LHandler 0, LHandler 1, LPop, LRun, LRun, LRun, LRun]"
  obtain s :: "(request_adapter, nat) conc" where s: "conc_schedule ?ls (conc_init 2 1) = Some s"
    and r: "c_handlers s 0 = Some (Finished (Inr (Inr True)))"
      "c_handlers s 1 = Some (Finished (Inr (Inr True)))"
      "rj_Contains (c_runner s) ''a''" "''a'' \<in> req_id ` set (queued_requests (c_queue s))"
    by (simp add: conc_do_def conc_init_def enqueue_result_def at_pc_def rq_defs rj_defs sample_request_def)
  have "conc_reachable 2 1 s" by (rule conc_schedule_reachable [OF s conc_reachable.init])
  with r show ?thesis by blast
qed

text \<open>\<open>QueueRequest\<close> answers success without queueing exactly when the id is known, refuses
  with \<open>QUEUE_CAPACITY_REACHED\<close> exactly when the id is new and the queue is full, and else
  appends the request; it never throws, and repeating a successful call changes nothing.\<close>
theorem queue_request_idempotent:
  assumes "rm_inv m" "QueueRequest r m = (x, m1)"
  shows "(HasJob m (req_id r) \<longrightarrow> x = Inr (Inr True) \<and> m1 = m)
    \<and> (\<not> HasJob m (req_id r) \<and> rq_Size (rm_queue m) = rq_Capacity (rm_queue m) \<longrightarrow>
         (\<exists>e. x = Inr (Inl e) \<and> err_code e = QUEUE_CAPACITY_REACHED) \<and> m1 = m)
    \<and> (\<not> HasJob m (req_id r) \<and> rq_Size (rm_queue m) \<noteq> rq_Capacity (rm_queue m) \<longrightarrow>
         x = Inr (Inr True) \<and> queued_requests (rm_queue m1) = queued_requests (rm_queue m) @ [r]
         \<and> rm_runner m1 = rm_runner m)
    \<and> (x = Inr (Inr True) \<longrightarrow> HasJob m1 (req_id r) \<and> QueueRequest r m1 = (Inr (Inr True), m1))"
proof -
  have le: "rq_Size (rm_queue m) \<le> rq_Capacity (rm_queue m)"
    using rm_invD(1) [OF assms(1)] by (simp add: rq_inv_def rq_bounded_def rq_Size_def rq_Capacity_def)
  from assms(1) show ?thesis
  proof (cases rule: QueueRequest_cases [of m r])
    case (added q)
    then have "queued_requests q = queued_requests (rm_queue m) @ [r]" "req_id r \<in> queued_ids q"
        "rq_Size (rm_queue m) \<noteq> rq_Capacity (rm_queue m)"
      by (auto simp: rq_Enqueue_def rq_Size_def rq_Capacity_def split: if_splits)
    with added assms(2) show ?thesis by (auto simp: HasJob_def rq_Contains_def QueueRequest_def)
  qed (use assms(2) le in auto)
qed

theorem queue_request_idempotent_witness:
  "let m = \<lparr> rm_registry = (), rm_queue = sample_queue, rm_runner = sample_runner, stop_triggered = False \<rparr>;
       (x, m1) = QueueRequest (sample_request ''b'') m
   in rm_inv m \<and> x = Inr (Inr True) \<and> QueueRequest (sample_request ''b'') m1 = (Inr (Inr True), m1)"
proof -
  let ?m = "\<lparr> rm_registry = (), rm_queue = sample_queue, rm_runner = sample_runner, stop_triggered = False \<rparr>"
  have i: "rm_inv ?m"
    using sample_queue_inv by (simp add: rm_inv_def sample_runner_def rj_inv_def)
  obtain m1 where q: "QueueRequest (sample_request ''b'') ?m = (Inr (Inr True), m1)"
    by (simp add: QueueRequest_def HasJob_def rq_defs rj_defs sample_queue_def sample_runner_def sample_request_def)
  from queue_request_idempotent [OF i q] i q show ?thesis by simp
qed

end
