(* ===== verification/Iris_Manager.thy ===== *)
theory Iris_Manager
  imports Resource_Manager
begin

text \<open>
  \<open>service/iris/iris_manager.h\<close> and \<open>.cc\<close>: the resource manager of the IRIS service.  Its
  \<open>StartJobImpl\<close> and \<open>Cleanup\<close> interpret the locale \<open>job_starter\<close>.  The bodies of its jobs
  work on the Draco instances of the registry, here a map from context ids to builder states
  \<open>'b\<close>.  What one call does to a builder (\<open>builder_call\<close>), the conversion of a system
  configuration and the sampler are the arguments \<open>run\<close>, \<open>conv\<close> and \<open>gen\<close>: they are
  computational geometry on top of Drake.  All \<open>int\<close>s are small counts, kept unbounded.
\<close>

type_synonym conf = "real list"
type_synonym system_conf = "(string \<times> real list) list"

record iris_context =
  ctx_id :: "context_id option"

record iris_build_request = request_adapter +
  ib_context :: iris_context
  ib_num_problems :: int
  ib_job_type :: iris_build_job_type
  ib_sysconf_vec :: "system_conf list"
  ib_sysconf_edge_vec :: "(system_conf \<times> system_conf) list"

record iris_build_result =
  ibr_context_id :: context_id
  ibr_type :: iris_build_job_type

record update_roadmap_request = request_adapter +
  ur_job_type :: update_roadmap_job_type
  ur_num_samples :: int
  ur_num_problems :: int
  ur_planning_problem_vec :: "(conf \<times> conf) list"

type_synonym 'b iris_manager =
  "(iris_build_request, iris_build_result, context_id \<Rightarrow> 'b option) resource_manager"

section \<open>StartJobImpl and Cleanup\<close>

text \<open>Reading an empty \<open>std::optional\<close> is undefined behaviour in C++.  Here it is \<open>the None\<close>, a value of which nothing can be proved, so
  what is proved of this definition is about requests that carry an id.\<close>

definition iris_StartJobImpl ::
  "(iris_build_request, iris_build_result, 'g) start_impl" where
  "iris_StartJobImpl req m = (let c = the (ctx_id (ib_context req)) in
     if c = 0 then (Inr (Inl (ServiceError CONTEXT_INVALID ''Context did not contain a valid ID'')), m)
     else (case InsertNewJob (req_id req) (rm_runner m) of
         (Inl e, _) \<Rightarrow> (Inl e, m)
       | (Inr _, j) \<Rightarrow> (Inr (Inr True), m\<lparr> rm_runner := j \<rparr>)))"

text \<open>The loop of \<open>Cleanup\<close> over the ids that were complete when it started.\<close>

fun retrieve_all :: "request_id list \<Rightarrow> 'res job_runner \<Rightarrow> unit throws \<times> 'res job_runner" where
  "retrieve_all [] j = (Inr (), j)"
| "retrieve_all (i # is) j = (case RetrieveResult i j of
     (Inl e, j') \<Rightarrow> (Inl e, j')
   | (Inr _, j') \<Rightarrow> retrieve_all is j')"

definition iris_Cleanup :: "('r, 'res, 'g) cleanup_impl" where
  "iris_Cleanup m = (case retrieve_all (sorted_list_of_set (GetCompletedJobIds (rm_runner m))) (rm_runner m) of
     (r, j) \<Rightarrow> (r, m\<lparr> rm_runner := j \<rparr>))"

lemma retrieve_all_complete:
  assumes "rj_inv j" "distinct is" "set is \<subseteq> GetCompletedJobIds j"
  shows "\<exists>j'. retrieve_all is j = (Inr (), j') \<and> rj_inv j' \<and> rj_capacity j' = rj_capacity j
    \<and> fst ` set (active_jobs j') = fst ` set (active_jobs j) - set is
    \<and> (\<forall>k. k \<notin> set is \<longrightarrow> rj_job j' k = rj_job j k)"
  using assms
proof (induction "is" arbitrary: j)
  case Nil
  then show ?case by simp
next
  case (Cons i "is")
  from Cons.prems obtain f where f: "rj_job j i = Some f" "future_result_ready f"
    by (auto simp: GetCompletedJobIds_iff)
  from RetrieveResult_ready [OF Cons.prems(1) f] obtain r where
    r: "RetrieveResult i j = (Inr r, rj_erase i j)" by (metis prod.collapse)
  have inv: "rj_inv (rj_erase i j)" using Cons.prems(1) by (rule rj_erase_inv)
  have "set is \<subseteq> GetCompletedJobIds (rj_erase i j)"
    using Cons.prems by (auto simp: GetCompletedJobIds_iff [OF inv] GetCompletedJobIds_iff [OF Cons.prems(1)]
        rj_job_erase)
  from Cons.IH [OF inv _ this] Cons.prems(2) r show ?case
    by (auto simp: rj_job_erase rj_erase_keys)
qed

lemma iris_Cleanup_frame:
  assumes "rj_inv (rm_runner m)"
  shows "\<exists>j'. iris_Cleanup m = (Inr (), m\<lparr> rm_runner := j' \<rparr>) \<and> rj_inv j'
        \<and> fst ` set (active_jobs j') = fst ` set (active_jobs (rm_runner m)) - GetCompletedJobIds (rm_runner m)
        \<and> rj_capacity j' = rj_capacity (rm_runner m)"
proof -
  have "finite (GetCompletedJobIds (rm_runner m))" by (simp add: GetCompletedJobIds_def)
  with retrieve_all_complete [OF assms, of "sorted_list_of_set (GetCompletedJobIds (rm_runner m))"]
  show ?thesis by (auto simp: iris_Cleanup_def)
qed

lemma iris_StartJobImpl_frame:
  assumes "iris_StartJobImpl r m = (x, m')"
  shows "m' = m \<or> (\<exists>j'. InsertNewJob (req_id r) (rm_runner m) = (Inr (), j')
    \<and> m' = m\<lparr> rm_runner := j' \<rparr> \<and> x = Inr (Inr True))"
  using assms by (auto simp: iris_StartJobImpl_def Let_def split: if_splits prod.splits sum.splits)

interpretation iris: job_starter iris_Cleanup iris_StartJobImpl
  by unfold_locales (rule iris_StartJobImpl_frame, assumption, rule iris_Cleanup_frame)

section \<open>The bodies of the jobs\<close>

datatype builder_call =
    BuildFromSystemConfs "conf list"
  | BuildFromEdges "(conf \<times> conf) list"
  | BuildFromSavedProblemsPath int
  | BuildFromRoadmap
  | GetSampleBasedSolution conf conf bool bool
  | UpdateFromSavedProblems int

type_synonym 'b dracos = "context_id \<Rightarrow> 'b option"
type_synonym 'b builder_run = "builder_call \<Rightarrow> 'b \<Rightarrow> unit throws \<times> 'b"

definition no_draco_msg :: exn where
  "no_draco_msg = ''Draco was requested, but does not exist!''"

definition GetDraco :: "context_id \<Rightarrow> 'b dracos \<Rightarrow> 'b throws" where
  "GetDraco c d = (case d c of None \<Rightarrow> Inl no_draco_msg | Some b \<Rightarrow> Inr b)"

definition call_builder ::
  "'b builder_run \<Rightarrow> context_id \<Rightarrow> builder_call \<Rightarrow> 'b dracos \<Rightarrow> unit throws \<times> 'b dracos" where
  "call_builder run c k d = (case GetDraco c d of
     Inl e \<Rightarrow> (Inl e, d)
   | Inr b \<Rightarrow> (case run k b of (r, b') \<Rightarrow> (r, d(c \<mapsto> b'))))"

definition convert_conf ::
  "('b \<Rightarrow> system_conf \<Rightarrow> conf throws) \<Rightarrow> context_id \<Rightarrow> 'b dracos \<Rightarrow> system_conf \<Rightarrow> conf throws" where
  "convert_conf conv c d sc = bindE (GetDraco c d) (\<lambda>b. conv b sc)"

definition BuildRegionsFromSystemConfs ::
  "'b builder_run \<Rightarrow> ('b \<Rightarrow> system_conf \<Rightarrow> conf throws) \<Rightarrow> context_id \<Rightarrow> system_conf list
   \<Rightarrow> 'b dracos \<Rightarrow> iris_build_result throws \<times> 'b dracos" where
  "BuildRegionsFromSystemConfs run conv c confs d = (case mapE (convert_conf conv c d) confs of
     Inl e \<Rightarrow> (Inl e, d)
   | Inr qs \<Rightarrow> (case call_builder run c (BuildFromSystemConfs qs) d of
       (Inl e, d') \<Rightarrow> (Inl e, d')
     | (Inr _, d') \<Rightarrow> (Inr \<lparr> ibr_context_id = c, ibr_type = IRIS_FROM_CONFIGS \<rparr>, d')))"

definition BuildRegionsFromEdges ::
  "'b builder_run \<Rightarrow> ('b \<Rightarrow> system_conf \<Rightarrow> conf throws) \<Rightarrow> context_id
   \<Rightarrow> (system_conf \<times> system_conf) list \<Rightarrow> 'b dracos \<Rightarrow> iris_build_result throws \<times> 'b dracos" where
  "BuildRegionsFromEdges run conv c edges d =
     (case mapE (\<lambda>(u, v). bindE (convert_conf conv c d u)
                 (\<lambda>qu. bindE (convert_conf conv c d v) (\<lambda>qv. Inr (qu, qv)))) edges of
     Inl e \<Rightarrow> (Inl e, d)
   | Inr es \<Rightarrow> (case call_builder run c (BuildFromEdges es) d of
       (Inl e, d') \<Rightarrow> (Inl e, d')
     | (Inr _, d') \<Rightarrow> (Inr \<lparr> ibr_context_id = c, ibr_type = IRIS_FROM_EDGES \<rparr>, d')))"

definition BuildRegionsFromRoadmap ::
  "'b builder_run \<Rightarrow> context_id \<Rightarrow> int \<Rightarrow> 'b dracos \<Rightarrow> iris_build_result throws \<times> 'b dracos" where
  "BuildRegionsFromRoadmap run c n d = (case call_builder run c (BuildFromSavedProblemsPath n) d of
     (Inl e, d1) \<Rightarrow> (Inl e, d1)
   | (Inr _, d1) \<Rightarrow> (case call_builder run c BuildFromRoadmap d1 of
       (Inl e, d2) \<Rightarrow> (Inl e, d2)
     | (Inr _, d2) \<Rightarrow> (Inr \<lparr> ibr_context_id = c, ibr_type = IRIS_FROM_ROADMAP \<rparr>, d2)))"

definition BuildRegions ::
  "'b builder_run \<Rightarrow> ('b \<Rightarrow> system_conf \<Rightarrow> conf throws) \<Rightarrow> context_id \<Rightarrow> iris_build_request
   \<Rightarrow> 'b dracos \<Rightarrow> iris_build_result expected \<times> 'b dracos" where
  "BuildRegions run conv c req d =
     (let wrap = (\<lambda>(r, d'). (case r of
            Inl e \<Rightarrow> Inl (ServiceError JOB_THREAD_EXCEPTION (''Job failed due to exception: '' @ e))
          | Inr x \<Rightarrow> Inr x, d'))
      in case ib_job_type req of
           IRIS_FROM_EDGES \<Rightarrow> wrap (BuildRegionsFromEdges run conv c (ib_sysconf_edge_vec req) d)
         | IRIS_FROM_CONFIGS \<Rightarrow> wrap (BuildRegionsFromSystemConfs run conv c (ib_sysconf_vec req) d)
         | IRIS_FROM_ROADMAP \<Rightarrow> wrap (BuildRegionsFromRoadmap run c (ib_num_problems req) d)
         | _ \<Rightarrow> (Inl (ServiceError JOB_TYPE_UNSUPPORTED ''Job type is not currently supported!''), d))"

section \<open>Roadmap updates\<close>

text \<open>The two nested loops over the samples: all pairs \<open>i < j\<close> below the count.\<close>

definition sample_pairs :: "nat \<Rightarrow> 'a list \<Rightarrow> ('a \<times> 'a) list" where
  "sample_pairs n xs = concat (map (\<lambda>i. map (\<lambda>j. (xs ! i, xs ! j)) [i + 1..<n]) [0..<n])"

fun call_all ::
  "'b builder_run \<Rightarrow> context_id \<Rightarrow> builder_call list \<Rightarrow> 'b dracos \<Rightarrow> unit throws \<times> 'b dracos" where
  "call_all run c [] d = (Inr (), d)"
| "call_all run c (k # ks) d = (case call_builder run c k d of
     (Inl e, d') \<Rightarrow> (Inl e, d')
   | (Inr _, d') \<Rightarrow> call_all run c ks d')"

definition GenerateSamplesAndSolveProblems ::
  "'b builder_run \<Rightarrow> ('b \<Rightarrow> int \<Rightarrow> conf list) \<Rightarrow> context_id \<Rightarrow> int \<Rightarrow> 'b dracos
   \<Rightarrow> unit throws \<times> 'b dracos" where
  "GenerateSamplesAndSolveProblems run gen c num_desired d = (case GetDraco c d of
     Inl e \<Rightarrow> (Inl e, d)
   | Inr b \<Rightarrow>
       (let samples = gen b num_desired;
            num_samples = min num_desired (int (length samples))
        in call_all run c (map (\<lambda>(q, q'). GetSampleBasedSolution q q' True True)
             (sample_pairs (nat num_samples) samples)) d))"

text \<open>The loop over the passed problems catches the exception of each call and goes on.\<close>

fun call_each ::
  "'b builder_run \<Rightarrow> context_id \<Rightarrow> builder_call list \<Rightarrow> 'b dracos \<Rightarrow> 'b dracos" where
  "call_each run c [] d = d"
| "call_each run c (k # ks) d = call_each run c ks (snd (call_builder run c k d))"

definition UpdateRoadmapFromProblems ::
  "'b builder_run \<Rightarrow> context_id \<Rightarrow> update_roadmap_request \<Rightarrow> 'b dracos
   \<Rightarrow> context_id option throws \<times> 'b dracos" where
  "UpdateRoadmapFromProblems run c req d = (case GetDraco c d of
     Inl e \<Rightarrow> (Inl e, d)
   | Inr _ \<Rightarrow>
       (case (case ur_job_type req of
            UPDATE_FROM_SAVED_PROBLEMS \<Rightarrow>
              (case call_builder run c (UpdateFromSavedProblems (ur_num_problems req)) d of
                 (Inl e, d') \<Rightarrow> (Inl e, d') | (Inr _, d') \<Rightarrow> (Inr [], d'))
          | UPDATE_FROM_PASSED_PROBLEMS \<Rightarrow> (Inr (ur_planning_problem_vec req), d)
          | _ \<Rightarrow> (Inr [], d)) of
          (Inl e, d') \<Rightarrow> (Inl e, d')
        | (Inr problems, d') \<Rightarrow>
            if problems = [] then (Inr None, d')
            else (Inr (Some c), call_each run c
              (map (\<lambda>(s, g). GetSampleBasedSolution s g False True) problems) d')))"

definition UpdateRoadmapFromSamples ::
  "'b builder_run \<Rightarrow> ('b \<Rightarrow> int \<Rightarrow> conf list) \<Rightarrow> context_id \<Rightarrow> update_roadmap_request \<Rightarrow> 'b dracos
   \<Rightarrow> context_id option throws \<times> 'b dracos" where
  "UpdateRoadmapFromSamples run gen c req d =
     (case GenerateSamplesAndSolveProblems run gen c (ur_num_samples req) d of
        (Inl e, d') \<Rightarrow> (Inl e, d') | (Inr _, d') \<Rightarrow> (Inr (Some c), d'))"

definition UpdateRoadmap ::
  "'b builder_run \<Rightarrow> ('b \<Rightarrow> int \<Rightarrow> conf list) \<Rightarrow> context_id \<Rightarrow> update_roadmap_request \<Rightarrow> 'b dracos
   \<Rightarrow> context_id option throws \<times> 'b dracos" where
  "UpdateRoadmap run gen c req d = (case UpdateRoadmapFromSamples run gen c req d of
     (Inl e, d1) \<Rightarrow> (Inl e, d1)
   | (Inr _, d1) \<Rightarrow> (case UpdateRoadmapFromProblems run c req d1 of
       (Inl e, d2) \<Rightarrow> (Inl e, d2)
     | (Inr _, d2) \<Rightarrow> (Inr (Some c), d2)))"

section \<open>Lemmas\<close>

lemma length_sample_pairs: "2 * length (sample_pairs n xs) = n * (n - 1)"
proof -
  have len: "length (sample_pairs n xs) = (\<Sum>i<n. n - (i + 1))"
    by (simp add: sample_pairs_def length_concat comp_def interv_sum_list_conv_sum_set_nat
        atLeast0LessThan)
  have "(\<Sum>i<n. n - (i + 1)) = (\<Sum>i<n. i)"
    by (rule sum.reindex_bij_witness [of _ "\<lambda>i. n - (i + 1)" "\<lambda>i. n - (i + 1)"]) auto
  moreover have "2 * (\<Sum>i<n. i) = n * (n - 1)" by (induction n) (auto simp: algebra_simps)
  ultimately show ?thesis using len by simp
qed

lemma sample_pairs_set: "set (sample_pairs n xs) = {(xs ! i, xs ! j) | i j. i < j \<and> j < n}"
  by (auto simp: sample_pairs_def Suc_le_eq) (blast, rule bexI, rule image_eqI, rule refl, auto)

lemma call_all_ok:
  assumes "d c = Some b" "\<And>k b. k \<in> set ks \<Longrightarrow> fst (run k b) = Inr ()"
  shows "call_all run c ks d = (Inr (), d(c \<mapsto> fold (\<lambda>k b. snd (run k b)) ks b))"
  using assms
proof (induction ks arbitrary: d b)
  case Nil
  then show ?case by (simp add: fun_upd_idem)
next
  case (Cons k ks)
  obtain b' where r: "run k b = (Inr (), b')" using Cons.prems(2) [of k b] by (cases "run k b") auto
  with Cons.IH [of "d(c \<mapsto> b')" b'] Cons.prems show ?case
    by (simp add: call_builder_def GetDraco_def del: fun_upd_apply) (simp add: fun_upd_def)
qed

text \<open>All pending threads of the runner end with outcome \<open>t\<close>.\<close>

definition rj_finish_all :: "'res thread_state \<Rightarrow> 'res job_runner \<Rightarrow> 'res job_runner" where
  "rj_finish_all t j = j\<lparr> active_jobs := map (\<lambda>(k, f).
     (k, if fut_state f = Pending then f\<lparr> fut_state := t \<rparr> else f)) (active_jobs j) \<rparr>"

definition finish_all :: "'res thread_state \<Rightarrow> ('r, 'res, 'g) resource_manager \<Rightarrow> ('r, 'res, 'g) resource_manager" where
  "finish_all t m = m\<lparr> rm_runner := rj_finish_all t (rm_runner m) \<rparr>"

lemma rj_finish_all_keys: "map fst (active_jobs (rj_finish_all t j)) = map fst (active_jobs j)"
  by (auto simp: rj_finish_all_def)

lemma rj_finish_all_key_set:
  "fst ` set (active_jobs (rj_finish_all t j)) = fst ` set (active_jobs j)"
  using arg_cong [OF rj_finish_all_keys [of t j], of set] by simp

lemma rj_finish_all_inv: "rj_inv j \<Longrightarrow> rj_inv (rj_finish_all t j)"
  using rj_finish_all_keys [of t j] by (auto simp: rj_inv_def) (auto simp: rj_finish_all_def)

lemma rj_finish_all_complete:
  assumes "t \<noteq> Pending"
  shows "GetCompletedJobIds (rj_finish_all t j) = fst ` set (active_jobs (rj_finish_all t j))"
proof -
  have "\<forall>p \<in> set (active_jobs (rj_finish_all t j)). future_result_ready (snd p)"
    using assms by (auto simp: rj_finish_all_def future_result_ready_def split: thread_state.splits if_splits)
  then show ?thesis by (auto simp: GetCompletedJobIds_def)
qed

text \<open>When every job has completed and the requests are valid, one pass of the loop starts the
  first queued request, and it is then the only job.\<close>

definition valid_request :: "iris_build_request \<Rightarrow> bool" where
  "valid_request r \<longleftrightarrow> (\<exists>c. ctx_id (ib_context r) = Some c \<and> c \<noteq> 0)"

lemma serve_one:
  fixes m :: "(iris_build_request, iris_build_result, 'g) resource_manager"
  assumes "rm_inv m" "Running m" "t \<noteq> Pending" "queued_requests (rm_queue m) = r # rs" "valid_request r"
  defines "m' \<equiv> rm_event iris_Cleanup iris_StartJobImpl EvRun (finish_all t m)"
  shows "rm_inv m' \<and> Running m' \<and> queued_requests (rm_queue m') = rs
    \<and> map fst (active_jobs (rm_runner m')) = [req_id r]"
proof -
  let ?f = "finish_all t m"
  have inv: "rm_inv ?f"
    using assms(1) rj_finish_all_inv [of "rm_runner m" t] by (simp add: rm_inv_def finish_all_def rj_finish_all_key_set)
  have "rm_inv m'" unfolding m'_def using inv by (rule iris.event_inv)
  obtain j' where c: "iris_Cleanup ?f = (Inr (), ?f\<lparr> rm_runner := j' \<rparr>)" "active_jobs j' = []"
      "rj_inv j'"
    using iris_Cleanup_frame [OF rm_invD(2) [OF inv]] rj_finish_all_complete [OF assms(3)]
    by (auto simp: finish_all_def)
  have cap: "0 < rj_capacity j'" using c(3) by (simp add: rj_inv_def)
  obtain q where pop: "rq_PopNextRequest (rm_queue m) = Inr (r, q)" "queued_requests q = rs"
    using assms(4) by (auto simp: rq_PopNextRequest_def)
  have fresh: "req_id r \<notin> queued_ids q" using rq_Pop_fields(2) [OF pop(1)] by simp
  have run: "m' = snd (RunOnce iris_StartJobImpl (?f\<lparr> rm_runner := j' \<rparr>))"
    using assms(2,4) cap c(1,2)
    by (simp add: m'_def rm_event_def Running_def finish_all_def Run_body_def rq_Empty_def rj_Size_def
        rj_Capacity_def)
  moreover have "snd (RunOnce iris_StartJobImpl (?f\<lparr> rm_runner := j' \<rparr>))
    = ?f\<lparr> rm_queue := q, rm_runner := snd (InsertNewJob (req_id r) j') \<rparr>"
    using pop fresh cap c(2) assms(5)
    by (auto simp: RunOnce_def finish_all_def StartJob_def HasJob_def rq_Contains_def rj_defs
        iris_StartJobImpl_def valid_request_def)
  ultimately show ?thesis
    using \<open>rm_inv m'\<close> assms(2) pop(2) c(2) cap
    by (simp add: Running_def finish_all_def InsertNewJob_def rj_Contains_def)
qed

text \<open>\<open>n\<close> rounds in which the running jobs finish and the loop makes a pass; the ids of the jobs
  found running after each pass are collected.\<close>

fun serve ::
  "iris_build_result thread_state \<Rightarrow> nat \<Rightarrow> (iris_build_request, iris_build_result, 'g) resource_manager
   \<Rightarrow> request_id list" where
  "serve t 0 m = []"
| "serve t (Suc n) m = (let m' = rm_event iris_Cleanup iris_StartJobImpl EvRun (finish_all t m)
     in map fst (active_jobs (rm_runner m')) @ serve t n m')"

section \<open>Properties\<close>

text \<open>Whatever sequence of calls, thread terminations and loop passes an IRIS manager goes
  through, its queue and runner stay within the capacities given to the constructor, an id is never
  queued twice, never running twice, and never both queued and running.\<close>
theorem iris_manager_invariant:
  fixes m0 :: "(iris_build_request, iris_build_result, 'g) resource_manager"
  assumes "ResourceManager (Inr g) n k = Inr m0"
  defines "m \<equiv> \<lambda>evs. fold (rm_event iris_Cleanup iris_StartJobImpl) evs m0"
  shows "length (queued_requests (rm_queue (m evs))) \<le> rq_capacity (rm_queue (m evs))
    \<and> length (active_jobs (rm_runner (m evs))) \<le> rj_capacity (rm_runner (m evs))
    \<and> distinct (map req_id (queued_requests (rm_queue (m evs))) @ map fst (active_jobs (rm_runner (m evs))))"
proof -
  have "rm_inv (m evs)" unfolding m_def by (rule iris.events_inv) (rule ResourceManager_inv [OF assms(1)])
  then show ?thesis by (auto simp: rm_inv_def rq_inv_def rq_bounded_def rq_tracked_def rj_inv_def)
qed

text \<open>C9: No queued build request starves: if every queued request carries a valid context id, the
  manager is not stopped and running jobs finish, then each pass of \<open>Run\<close> starts the next queued
  request, so that after as many rounds as there are queued requests all have run, in the order in
  which they were queued.\<close>
theorem iris_queue_served_in_order:
  fixes m :: "(iris_build_request, iris_build_result, 'g) resource_manager"
  assumes "rm_inv m" "Running m" "t \<noteq> Pending" "\<forall>r \<in> set (queued_requests (rm_queue m)). valid_request r"
  shows "serve t (length (queued_requests (rm_queue m))) m = map req_id (queued_requests (rm_queue m))"
  using assms
proof (induction "queued_requests (rm_queue m)" arbitrary: m)
  case Nil
  then show ?case by simp
next
  case (Cons r rs)
  let ?m' = "rm_event iris_Cleanup iris_StartJobImpl EvRun (finish_all t m)"
  have o: "rm_inv ?m' \<and> Running ?m' \<and> queued_requests (rm_queue ?m') = rs
      \<and> map fst (active_jobs (rm_runner ?m')) = [req_id r]"
  proof (rule serve_one)
    show "valid_request r" using Cons.prems(4) unfolding Cons.hyps(2) [symmetric] by simp
  qed (use Cons.prems Cons.hyps(2) in simp_all)
  have "serve t (length rs) ?m' = map req_id rs"
    using Cons.hyps(1) [of ?m'] o Cons.prems unfolding Cons.hyps(2) [symmetric] by simp
  with o show ?case unfolding Cons.hyps(2) [symmetric] by (simp add: Let_def)
qed

text \<open>Updating the roadmap from samples poses one planning problem for each unordered pair of
  distinct samples, \<open>n (n - 1) / 2\<close> in all for \<open>n\<close> the number of samples used, and when no call to
  the builder throws, exactly these problems are solved, in the order of the two loops.\<close>
theorem generate_samples_all_pairs:
  assumes "d c = Some b" "\<And>k b'. fst (run k b') = Inr ()" "n = nat (min num_desired (int (length (gen b num_desired))))"
  shows "let ps = sample_pairs n (gen b num_desired)
    in 2 * length ps = n * (n - 1)
     \<and> set ps = {(gen b num_desired ! i, gen b num_desired ! j) | i j. i < j \<and> j < n}
     \<and> GenerateSamplesAndSolveProblems run gen c num_desired d
        = (Inr (), d(c \<mapsto> fold (\<lambda>(q, q') b'. snd (run (GetSampleBasedSolution q q' True True) b')) ps b))"
proof -
  let ?ps = "sample_pairs n (gen b num_desired)"
  have "fold (\<lambda>k b. snd (run k b)) (map (\<lambda>(q, q'). GetSampleBasedSolution q q' True True) ps) b
      = fold (\<lambda>(q, q') b'. snd (run (GetSampleBasedSolution q q' True True) b')) ps b" for ps
    by (induction ps arbitrary: b) auto
  with assms call_all_ok [of d c b "map (\<lambda>(q, q'). GetSampleBasedSolution q q' True True) ?ps" run]
  show ?thesis
    by (simp add: length_sample_pairs sample_pairs_set GenerateSamplesAndSolveProblems_def GetDraco_def Let_def)
qed

text \<open>A roadmap update that asks for the saved problems does have the builder replay them, and
  still reports that there were no problems to solve; \<open>UpdateRoadmap\<close> drops that answer, runs the
  sampling update whatever the job type is, and reports success if nothing throws.\<close>
theorem update_roadmap_result_ignores_job_type:
  assumes "d c = Some b" "\<And>k b'. fst (run k b') = Inr ()"
  shows "\<exists>d1 d2. UpdateRoadmapFromSamples run gen c req d = (Inr (Some c), d1)
    \<and> UpdateRoadmap run gen c req d = (Inr (Some c), d2)
    \<and> (ur_job_type req \<noteq> UPDATE_FROM_PASSED_PROBLEMS \<longrightarrow>
         fst (UpdateRoadmapFromProblems run c req d1) = Inr None)
    \<and> (ur_job_type req = UPDATE_FROM_SAVED_PROBLEMS \<longrightarrow>
         d2 = d1(c \<mapsto> snd (run (UpdateFromSavedProblems (ur_num_problems req)) (the (d1 c)))))"
proof -
  obtain d1 where s: "GenerateSamplesAndSolveProblems run gen c (ur_num_samples req) d = (Inr (), d1)"
      and d1: "d1 c \<noteq> None"
    using call_all_ok [of d c b _ run] assms
    by (auto simp: GenerateSamplesAndSolveProblems_def GetDraco_def Let_def)
  then obtain b1 where b1: "d1 c = Some b1" by auto
  let ?k = "UpdateFromSavedProblems (ur_num_problems req)"
  have call: "call_builder run c ?k d1 = (Inr (), d1(c \<mapsto> snd (run ?k b1)))"
    using assms(2) [of ?k b1] by (simp add: call_builder_def GetDraco_def b1 split_beta)
  have p: "\<exists>x d2. UpdateRoadmapFromProblems run c req d1 = (Inr x, d2)
      \<and> (ur_job_type req \<noteq> UPDATE_FROM_PASSED_PROBLEMS \<longrightarrow> x = None)
      \<and> (ur_job_type req = UPDATE_FROM_SAVED_PROBLEMS \<longrightarrow> d2 = d1(c \<mapsto> snd (run ?k b1)))"
    by (cases "ur_job_type req") (auto simp: UpdateRoadmapFromProblems_def GetDraco_def b1 call)
  then show ?thesis
    using s b1 by (auto simp: UpdateRoadmap_def UpdateRoadmapFromSamples_def)
qed

section \<open>Witnesses\<close>

definition sample_build_request :: "request_id \<Rightarrow> iris_build_request" where
  "sample_build_request i = \<lparr> req_id = i, ib_context = \<lparr> ctx_id = Some 5 \<rparr>, ib_num_problems = 0,
     ib_job_type = IRIS_FROM_ROADMAP, ib_sysconf_vec = [], ib_sysconf_edge_vec = [] \<rparr>"

lemma sample_build_request_valid: "valid_request (sample_build_request i)"
  by (simp add: sample_build_request_def valid_request_def)

lemma sample_build_request_id: "req_id (sample_build_request i) = i"
  by (simp add: sample_build_request_def)

definition sample_manager :: "(iris_build_request, iris_build_result, unit) resource_manager" where
  "sample_manager = \<lparr> rm_registry = (),
     rm_queue = \<lparr> rq_capacity = 2, queued_requests = [sample_build_request ''a'', sample_build_request ''b''],
                 queued_ids = {''a'', ''b''} \<rparr>,
     rm_runner = \<lparr> rj_capacity = 1, active_jobs = [] \<rparr>, stop_triggered = False \<rparr>"

theorem iris_manager_invariant_witness:
  "\<exists>m0 :: (iris_build_request, iris_build_result, unit) resource_manager.
     ResourceManager (Inr ()) 2 1 = Inr m0
     \<and> length (queued_requests (rm_queue (fold (rm_event iris_Cleanup iris_StartJobImpl)
          [EvQueue (sample_build_request ''a''), EvRun, EvQueue (sample_build_request ''a'')] m0)))
       \<le> rq_capacity (rm_queue (fold (rm_event iris_Cleanup iris_StartJobImpl)
          [EvQueue (sample_build_request ''a''), EvRun, EvQueue (sample_build_request ''a'')] m0))"
proof -
  obtain m0 :: "(iris_build_request, iris_build_result, unit) resource_manager"
    where m0: "ResourceManager (Inr ()) 2 1 = Inr m0"
    by (simp add: ResourceManager_def RequestQueue_def JobRunner_def)
  from iris_manager_invariant [OF m0, of "[EvQueue (sample_build_request ''a''), EvRun,
      EvQueue (sample_build_request ''a'')]"] m0
  show ?thesis by blast
qed

theorem iris_queue_served_in_order_witness:
  "serve (Threw ''x'') 2 sample_manager = [''a'', ''b'']"
proof -
  have inv: "rm_inv sample_manager"
    by (auto simp: rm_inv_def sample_manager_def rq_inv_def rq_bounded_def rq_tracked_def rj_inv_def
        sample_build_request_def)
  have "Running sample_manager" by (simp add: Running_def sample_manager_def)
  moreover have "queued_requests (rm_queue sample_manager) = [sample_build_request ''a'', sample_build_request ''b'']"
    by (simp add: sample_manager_def)
  ultimately show ?thesis
    using iris_queue_served_in_order [OF inv, of "Threw ''x''"]
    by (simp add: sample_build_request_valid sample_build_request_id numeral_2_eq_2 del: serve.simps)
qed

theorem generate_samples_all_pairs_witness:
  "GenerateSamplesAndSolveProblems (\<lambda>k n. (Inr (), Suc n)) (\<lambda>_ _. [[0], [1], [2 :: real]]) 5 3 [5 \<mapsto> 0]
     = (Inr (), [5 \<mapsto> (3 :: nat)])"
  using generate_samples_all_pairs [of "[5 \<mapsto> 0]" 5 0 "\<lambda>k n. (Inr (), Suc n)" 3 3
      "\<lambda>_ _. [[0], [1], [2 :: real]]"]
  by (simp add: Let_def sample_pairs_def upt_rec eval_nat_numeral)

theorem update_roadmap_result_ignores_job_type_witness:
  "fst (UpdateRoadmap (\<lambda>k n. (Inr (), Suc n)) (\<lambda>_ _. []) 5
     \<lparr> req_id = ''u'', ur_job_type = UPDATE_FROM_SAVED_PROBLEMS, ur_num_samples = 0, ur_num_problems = 1,
       ur_planning_problem_vec = [] \<rparr> [5 \<mapsto> (0 :: nat)]) = Inr (Some 5)"
  using update_roadmap_result_ignores_job_type [of "[5 \<mapsto> (0 :: nat)]" 5 0 "\<lambda>k n. (Inr (), Suc n)" "\<lambda>_ _. []"
      "\<lparr> req_id = ''u'', ur_job_type = UPDATE_FROM_SAVED_PROBLEMS, ur_num_samples = 0, ur_num_problems = 1,
       ur_planning_problem_vec = [] \<rparr>"]
  by auto

end
