(* ===== verification/Rpc_Services.thy ===== *)
theory Rpc_Services
  imports Iris_Manager Resource_Registry
begin

text \<open>
  \<open>comms/registry_service.cc\<close>, \<open>comms/iris_service.cc\<close>, \<open>comms/plan_service.cc\<close> and the conversions of
  \<open>comms/utils.h\<close>: the RPC handlers in front of the registry, the IRIS manager and the
  planners.  Protobuf messages are records with the fields the handlers read; an enum has the
  values of its \<open>.proto\<close> and one constructor for any other number.  A handler returns the status,
  or the exception that leaves it where the source has no \<open>catch\<close> around.  Setting the
  transaction id and logging are left out.
\<close>

section \<open>Status values\<close>

datatype grpc_code = OK | INTERNAL | NOT_FOUND | RESOURCE_EXHAUSTED | INVALID_ARGUMENT | PERMISSION_DENIED | UNIMPLEMENTED

record grpc_status =
  st_code :: grpc_code
  st_msg :: string

definition Status :: "grpc_code \<Rightarrow> string \<Rightarrow> grpc_status" where
  "Status c m = \<lparr> st_code = c, st_msg = m \<rparr>"

definition status_OK :: grpc_status where "status_OK = Status OK []"

lemma Status_simps [simp]: "st_code (Status c m) = c" "st_code status_OK = OK"
  by (simp_all add: Status_def status_OK_def)

section \<open>Conversions of comms/utils.h\<close>

datatype mesh_format_pb = MESH_FORMAT_OBJ | MESH_FORMAT_MTL | MESH_FORMAT_GLTF | MESH_FORMAT_BIN
  | MESH_FORMAT_OTHER int

datatype mesh_type_pb = MESH_TYPE_COLLISION | MESH_TYPE_VISUAL | MESH_TYPE_OTHER int

datatype model_format_pb = MODEL_FORMAT_URDF | MODEL_FORMAT_OTHER int

record mesh_file_pb =
  mpb_name :: string
  mpb_format :: mesh_format_pb
  mpb_type :: mesh_type_pb
  mpb_parent :: "bool \<times> path"
  mpb_content :: string

record model_pb =
  mopb_name :: string
  mopb_file_name :: string
  mopb_format :: model_format_pb
  mopb_package :: string
  mopb_parent :: "bool \<times> path"
  mopb_content :: string
  mopb_meshes :: "mesh_file_pb list"

record 'cs plan_context_pb =
  cpb_name :: string
  cpb_id :: context_id
  cpb_models :: "model_pb list"
  cpb_metadata_json :: "string throws"
  cpb_constraints_raw :: string
  cpb_constraints :: 'cs
  cpb_model_directive_raw :: string

definition ProtoToMeshFile :: "mesh_file_pb \<Rightarrow> mesh_file throws" where
  "ProtoToMeshFile m =
     bindE (case mpb_format m of
        MESH_FORMAT_OBJ \<Rightarrow> Inr ''.obj'' | MESH_FORMAT_MTL \<Rightarrow> Inr ''.mtl''
      | MESH_FORMAT_GLTF \<Rightarrow> Inr ''.gltf'' | MESH_FORMAT_BIN \<Rightarrow> Inr ''.bin''
      | MESH_FORMAT_OTHER _ \<Rightarrow> Inl ''ProtoToMeshFile: Mesh format is not currently supported!'') (\<lambda>ext.
     bindE (case mpb_type m of
        MESH_TYPE_COLLISION \<Rightarrow> Inr True | MESH_TYPE_VISUAL \<Rightarrow> Inr False
      | MESH_TYPE_OTHER _ \<Rightarrow> Inl ''ProtoToMeshFile: Mesh type is not currently supported!'') (\<lambda>coll.
     Inr \<lparr> mesh_name = mpb_name m, mesh_extension = ext, mesh_parent = mpb_parent m,
           mesh_collision = coll, mesh_content = mpb_content m \<rparr>))"

definition ProtoToModel :: "model_pb \<Rightarrow> model throws" where
  "ProtoToModel m =
     bindE (case mopb_format m of MODEL_FORMAT_URDF \<Rightarrow> Inr URDF
      | MODEL_FORMAT_OTHER _ \<Rightarrow> Inl ''ProtoToModel: Model format is not currently supported!'') (\<lambda>fmt.
     bindE (mapE ProtoToMeshFile (mopb_meshes m)) (\<lambda>meshes.
     Inr \<lparr> model_name = mopb_name m, model_file = \<lparr> mf_name = mopb_file_name m, mf_format = fmt,
           mf_package_name = mopb_package m, mf_parent = mopb_parent m, mf_content = mopb_content m \<rparr>,
           model_meshes = meshes \<rparr>))"

text \<open>The deprecated constraint messages are converted by the argument \<open>cs\<close>; a context with an id
  carries nothing else.\<close>

definition ProtoToPlanContext ::
  "('dmd, 'j) codec \<Rightarrow> ('cs \<Rightarrow> constraints_adapter) \<Rightarrow> 'cs plan_context_pb \<Rightarrow> ('dmd, 'j) plan_context throws" where
  "ProtoToPlanContext C cs p =
     (if cpb_name p = [] then Inl ''No system name provided!''
      else if cpb_id p \<noteq> 0 then Inr (context_of_id C (cpb_id p))
      else bindE (mapE ProtoToModel (cpb_models p)) (\<lambda>models.
           bindE (cpb_metadata_json p) (\<lambda>js.
           bindE (if cpb_constraints_raw p \<noteq> [] then load_ca C (cpb_constraints_raw p)
                  else Inr (cs (cpb_constraints p))) (\<lambda>ca.
           bindE (load_dmd C (cpb_model_directive_raw p)) (\<lambda>d.
           bindE (json_parse C js) (\<lambda>m.
           Inr \<lparr> pc_name = cpb_name p, pc_directive = d, pc_models = models, pc_constraints = ca,
                 pc_id = None, pc_context_dir = [], pc_urdf_dir = [], pc_metadata = m \<rparr>))))))"

datatype seed_data_case =
    SeedNotSet | kSysconfVec | kSysconfEdgeVec | kBuildRoadmapData | kBuildProblemDefVec

datatype update_data_case =
    UpdateNotSet | kGenerateFromProblems | kRoadmapData | kProblemDefVec

definition ProtoToIrisBuildJobType :: "seed_data_case \<Rightarrow> iris_build_job_type throws" where
  "ProtoToIrisBuildJobType c = (case c of
     kSysconfVec \<Rightarrow> Inr IRIS_FROM_CONFIGS
   | kSysconfEdgeVec \<Rightarrow> Inr IRIS_FROM_EDGES
   | kBuildRoadmapData \<Rightarrow> Inr IRIS_FROM_ROADMAP
   | kBuildProblemDefVec \<Rightarrow> Inr IRIS_FROM_PROBLEMS
   | SeedNotSet \<Rightarrow> Inl ''ProtoToIrisBuildJobType: Unsupported seed data type provided'')"

definition ProtoToUpdateRoadmapJobType :: "update_data_case \<Rightarrow> update_roadmap_job_type throws" where
  "ProtoToUpdateRoadmapJobType c = (case c of
     kGenerateFromProblems \<Rightarrow> Inr UPDATE_FROM_SAVED_PROBLEMS
   | kRoadmapData \<Rightarrow> Inr UPDATE_FROM_SAMPLES
   | kProblemDefVec \<Rightarrow> Inr UPDATE_FROM_PASSED_PROBLEMS
   | UpdateNotSet \<Rightarrow> Inl ''ProtoToUpdateRoadmapJobType: Unsupported seed data type provided'')"

definition ProtoToPlanningProblemDef :: "'p \<Rightarrow> (conf \<times> conf) throws" where
  "ProtoToPlanningProblemDef p =
     Inl ''ProtoToPlanningProblemDef: Deprecated PlanningProblemDef proto message is not supported anymore.''"

record ('cs, 'p) start_build_pb =
  sb_id :: request_id
  sb_context :: "'cs plan_context_pb"
  sb_num_problems :: int
  sb_case :: seed_data_case
  sb_sysconf_vec :: "system_conf list"
  sb_sysconf_edge_vec :: "(system_conf \<times> system_conf) list"
  sb_problem_def_vec :: "'p list"

definition ProtoToIrisBuildRequestAdapter ::
  "('dmd, 'j) codec \<Rightarrow> ('cs \<Rightarrow> constraints_adapter) \<Rightarrow> ('cs, 'p) start_build_pb \<Rightarrow> iris_build_request throws" where
  "ProtoToIrisBuildRequestAdapter C cs p =
     bindE (mapE ProtoToPlanningProblemDef (sb_problem_def_vec p)) (\<lambda>_.
     bindE (ProtoToPlanContext C cs (sb_context p)) (\<lambda>ctx.
     bindE (ProtoToIrisBuildJobType (sb_case p)) (\<lambda>t.
     Inr \<lparr> req_id = sb_id p, ib_context = \<lparr> ctx_id = pc_id ctx \<rparr>, ib_num_problems = sb_num_problems p,
           ib_job_type = t, ib_sysconf_vec = sb_sysconf_vec p,
           ib_sysconf_edge_vec = sb_sysconf_edge_vec p \<rparr>)))"

record ('cs, 'p) update_roadmap_pb =
  up_id :: request_id
  up_context :: "'cs plan_context_pb"
  up_case :: update_data_case
  up_num_samples :: int
  up_num_problems :: int
  up_problem_def_vec :: "'p list"

definition ProtoToUpdateRoadmapRequestAdapter ::
  "('dmd, 'j) codec \<Rightarrow> ('cs \<Rightarrow> constraints_adapter) \<Rightarrow> ('cs, 'p) update_roadmap_pb
   \<Rightarrow> (update_roadmap_request \<times> context_id option) throws" where
  "ProtoToUpdateRoadmapRequestAdapter C cs p =
     bindE (mapE ProtoToPlanningProblemDef (up_problem_def_vec p)) (\<lambda>ps.
     bindE (ProtoToPlanContext C cs (up_context p)) (\<lambda>ctx.
     bindE (ProtoToUpdateRoadmapJobType (up_case p)) (\<lambda>t.
     Inr (\<lparr> req_id = up_id p, ur_job_type = t, ur_num_samples = up_num_samples p,
            ur_num_problems = up_num_problems p, ur_planning_problem_vec = ps \<rparr>, pc_id ctx))))"

section \<open>The IRIS service\<close>

definition HandleStartBuildRequest ::
  "('dmd, 'j) codec \<Rightarrow> ('cs \<Rightarrow> constraints_adapter) \<Rightarrow> ('cs, 'p) start_build_pb \<Rightarrow> 'b iris_manager
   \<Rightarrow> grpc_status \<times> 'b iris_manager" where
  "HandleStartBuildRequest C cs p m = (case ProtoToIrisBuildRequestAdapter C cs p of
     Inl e \<Rightarrow> (Status INTERNAL (''Caught exception queuing request: '' @ e), m)
   | Inr r \<Rightarrow> (case QueueRequest r m of
       (Inl e, m') \<Rightarrow> (Status INTERNAL (''Caught exception queuing request: '' @ e), m')
     | (Inr (Inl e), m') \<Rightarrow> (Status RESOURCE_EXHAUSTED (''Failed to queue request with error '' @ err_msg e), m')
     | (Inr (Inr _), m') \<Rightarrow> (status_OK, m')))"

definition HandleUpdateRoadmapRequest ::
  "('dmd, 'j) codec \<Rightarrow> ('cs \<Rightarrow> constraints_adapter) \<Rightarrow> 'b builder_run \<Rightarrow> ('b \<Rightarrow> int \<Rightarrow> conf list)
   \<Rightarrow> ('cs, 'p) update_roadmap_pb \<Rightarrow> 'b dracos \<Rightarrow> grpc_status \<times> 'b dracos" where
  "HandleUpdateRoadmapRequest C cs run gen p d = (case ProtoToUpdateRoadmapRequestAdapter C cs p of
     Inl e \<Rightarrow> (Status INTERNAL (''Caught exception queuing request: '' @ e), d)
   | Inr (r, None) \<Rightarrow> (Status INTERNAL ''Caught exception queuing request: bad optional access'', d)
   | Inr (r, Some c) \<Rightarrow> (case UpdateRoadmap run gen c r d of
       (Inl e, d') \<Rightarrow> (Status INTERNAL (''Caught exception queuing request: '' @ e), d')
     | (Inr None, d') \<Rightarrow> (Status RESOURCE_EXHAUSTED ''Failed to update roadmap!'', d')
     | (Inr (Some _), d') \<Rightarrow> (status_OK, d')))"

definition HandleReportStatusRequest :: grpc_status where
  "HandleReportStatusRequest = Status UNIMPLEMENTED ''Method HandleReportStatusRequest is not implemented!''"

section \<open>The registry service\<close>

definition HandleRegisterPlanContextRequest ::
  "('d, 'dmd, 'j, 'y) rr_env \<Rightarrow> ('cs \<Rightarrow> constraints_adapter) \<Rightarrow> string \<Rightarrow> 'cs plan_context_pb
   \<Rightarrow> ('d, 'dmd, 'j) resource_registry \<Rightarrow> fs
   \<Rightarrow> (grpc_status \<times> context_id option) \<times> ('d, 'dmd, 'j) resource_registry \<times> fs" where
  "HandleRegisterPlanContextRequest E cs system p r f = (case ProtoToPlanContext (env_codec E) cs p of
     Inl e \<Rightarrow> ((Status INTERNAL e, None), r, f)
   | Inr ctx \<Rightarrow> (case rr_RegisterPlanContext E system ctx r f of
       (Inl e, s) \<Rightarrow> ((Status INTERNAL e, None), s)
     | (Inr (Inl e), s) \<Rightarrow> ((Status INTERNAL (''Failed to save context to disk! '' @ err_msg e), None), s)
     | (Inr (Inr i), s) \<Rightarrow> ((status_OK, Some i), s)))"

text \<open>The result of the registry's \<open>RemovePlanContext\<close> is not looked at, only an exception is.\<close>

definition rpc_RemovePlanContext ::
  "string \<Rightarrow> context_id \<Rightarrow> ('d, 'dmd, 'j) resource_registry \<Rightarrow> fs
   \<Rightarrow> grpc_status \<times> ('d, 'dmd, 'j) resource_registry \<times> fs" where
  "rpc_RemovePlanContext system i r f = (case rr_RemovePlanContext system i True r f of
     (Inl e, s) \<Rightarrow> (Status INTERNAL (''Caught exception removing context: '' @ e), s)
   | (Inr _, s) \<Rightarrow> (status_OK, s))"

definition GetPlanContextSummaries ::
  "('d \<Rightarrow> 'sum) \<Rightarrow> ('d, 'dmd, 'j) resource_registry \<Rightarrow> (context_id \<times> string \<times> 'sum) list throws" where
  "GetPlanContextSummaries robots r =
     mapE (\<lambda>i. bindE (rr_GetDraco r i) (\<lambda>d. Inr (i, pc_name (the (active_contexts_map r i)), robots d)))
       (sorted_list_of_set (dom (active_contexts_map r)))"

definition GetPlanningArtifactStatus ::
  "('d \<Rightarrow> 'st) \<Rightarrow> context_id list \<Rightarrow> ('d, 'dmd, 'j) resource_registry \<Rightarrow> (context_id \<Rightarrow> 'st option)" where
  "GetPlanningArtifactStatus sizes ids r =
     fold (\<lambda>i m. case draco_map r i of None \<Rightarrow> m | Some d \<Rightarrow> m(i \<mapsto> sizes d)) ids (\<lambda>_. None)"

definition HandleMigratePlanningArtifactsRequest ::
  "('d, 'dmd, 'j, 'y) rr_env \<Rightarrow> context_id \<Rightarrow> context_id \<Rightarrow> int \<Rightarrow> bool
   \<Rightarrow> ('d, 'dmd, 'j) resource_registry \<Rightarrow> fs
   \<Rightarrow> grpc_status \<times> ('d, 'dmd, 'j) resource_registry \<times> fs" where
  "HandleMigratePlanningArtifactsRequest E a b n rep r f = (case MigratePlanningArtifacts E a b n rep r f of
     (Inl e, s) \<Rightarrow> (Status INTERNAL (''Caught exception queuing request: '' @ e), s)
   | (Inr (Inl e), s) \<Rightarrow> (Status INTERNAL e, s)
   | (Inr (Inr _), s) \<Rightarrow> (status_OK, s))"

section \<open>The plan service\<close>

text \<open>\<open>parse\<close>, \<open>check\<close>, \<open>solve\<close>, ... are the conversions of the client library and the planner's
  operations; a planner map is the list of its entries in the order of the ids.\<close>

definition rpc_CheckSatisfied ::
  "('pb \<Rightarrow> 'conf throws) \<Rightarrow> ('o \<Rightarrow> 'opt throws) \<Rightarrow> ('d \<Rightarrow> 'conf list \<Rightarrow> 'opt option \<Rightarrow> 'res throws)
   \<Rightarrow> context_id \<Rightarrow> 'pb list \<Rightarrow> 'o option \<Rightarrow> (context_id \<Rightarrow> 'd option) \<Rightarrow> grpc_status \<times> 'res option" where
  "rpc_CheckSatisfied parse popt check i confs copt dm = (case dm i of
     None \<Rightarrow> (Status NOT_FOUND ''No context found for the given context ID'', None)
   | Some d \<Rightarrow>
     (case bindE (mapE parse confs) (\<lambda>qs.
           bindE (case copt of None \<Rightarrow> Inr None | Some o' \<Rightarrow> bindE (popt o') (\<lambda>x. Inr (Some x))) (\<lambda>x.
           check d qs x)) of
        Inl e \<Rightarrow> (Status INTERNAL (''Failed to run CheckSatisfied: '' @ e), None)
      | Inr res \<Rightarrow> (status_OK, Some res)))"

text \<open>The configuration is parsed before the \<open>try\<close>: its exception leaves the handler.\<close>

definition rpc_CalcRelativePose ::
  "('pb \<Rightarrow> 'conf throws) \<Rightarrow> (context_id \<Rightarrow> 'conf \<Rightarrow> 'pose throws) \<Rightarrow> context_id \<Rightarrow> 'pb
   \<Rightarrow> (grpc_status \<times> 'pose option) throws" where
  "rpc_CalcRelativePose parse calc i pb = bindE (parse pb) (\<lambda>q. Inr (case calc i q of
     Inl e \<Rightarrow> (Status INTERNAL (''Failed to calculate relative pose: '' @ e), None)
   | Inr x \<Rightarrow> (status_OK, Some x)))"

record ('d, 'pb, 'def, 'res, 'rpb) plan_api =
  parse_def :: "'pb \<Rightarrow> 'def throws"
  solve :: "'d \<Rightarrow> 'def \<Rightarrow> 'res throws"
  result_to_proto :: "'res \<Rightarrow> 'rpb throws"
  def_json :: "'def \<Rightarrow> string"
  result_json :: "'res \<Rightarrow> string"

definition rpc_SolvePlan ::
  "('d, 'pb, 'def, 'res, 'rpb) plan_api \<Rightarrow> path throws \<Rightarrow> context_id \<Rightarrow> 'pb
   \<Rightarrow> (context_id \<Rightarrow> 'd option) \<Rightarrow> fs \<Rightarrow> (grpc_status \<times> 'rpb option) throws \<times> fs" where
  "rpc_SolvePlan A problems_dir i pb dm f = (case dm i of
     None \<Rightarrow> (Inr (Status NOT_FOUND ''No context found for the given context ID'', None), f)
   | Some d \<Rightarrow> (case problems_dir of
       Inl e \<Rightarrow> (Inl e, f)
     | Inr dir \<Rightarrow> (case parse_def A pb of
         Inl e \<Rightarrow> (Inr (Status INVALID_ARGUMENT (''Failed to parse request: '' @ e), None), f)
       | Inr def \<Rightarrow>
         (let f1 = snd (SaveToFile (dir @ [''problem.json'']) (def_json A def) True f) in
          case solve A d def of
            Inl e \<Rightarrow> (Inr (Status INTERNAL (''Failed to solve plan: '' @ e), None), f1)
          | Inr res \<Rightarrow>
            (let f2 = snd (SaveToFile (dir @ [''result.json'']) (result_json A res) True f1) in
             case result_to_proto A res of
               Inl e \<Rightarrow> (Inr (Status INTERNAL (''Failed to serialize result: '' @ e), None), f2)
             | Inr pb' \<Rightarrow> (Inr (status_OK, Some pb'), f2))))))"

text \<open>The pose is parsed again for each planner; the loop stops at the first exception.\<close>

fun set_pose_all ::
  "('fb \<Rightarrow> 'frp throws) \<Rightarrow> ('d \<Rightarrow> 'frp \<Rightarrow> 'd throws) \<Rightarrow> 'fb \<Rightarrow> (context_id \<times> 'd) list
   \<Rightarrow> exn option \<times> (context_id \<times> 'd) list" where
  "set_pose_all parse setp fb [] = (None, [])"
| "set_pose_all parse setp fb ((i, d) # ds) = (case bindE (parse fb) (setp d) of
     Inl e \<Rightarrow> (Some e, (i, d) # ds)
   | Inr d' \<Rightarrow> (case set_pose_all parse setp fb ds of (x, ds') \<Rightarrow> (x, (i, d') # ds')))"

definition rpc_SetPoseInParentFrame ::
  "('fb \<Rightarrow> 'frp throws) \<Rightarrow> ('d \<Rightarrow> 'frp \<Rightarrow> 'd throws) \<Rightarrow> 'fb \<Rightarrow> (context_id \<times> 'd) list
   \<Rightarrow> grpc_status \<times> (context_id \<times> 'd) list" where
  "rpc_SetPoseInParentFrame parse setp fb ds = (case set_pose_all parse setp fb ds of
     (Some e, ds') \<Rightarrow> (Status INTERNAL (''Failed to set pose in parent frame: '' @ e), ds')
   | (None, ds') \<Rightarrow> (status_OK, ds'))"

section \<open>Lemmas\<close>

lemma ProtoToPlanContext_id:
  "ProtoToPlanContext C cs p = Inr ctx \<Longrightarrow> pc_id ctx = (if cpb_id p = 0 then None else Some (cpb_id p))"
  by (auto simp: ProtoToPlanContext_def context_of_id_def bindE_Inr_iff split: if_splits)

lemma ProtoToIrisBuildRequestAdapter_id:
  assumes "ProtoToIrisBuildRequestAdapter C cs p = Inr r"
  shows "ctx_id (ib_context r) = (if cpb_id (sb_context p) = 0 then None else Some (cpb_id (sb_context p)))"
    and "req_id r = sb_id p"
  using assms
  by (auto simp: ProtoToIrisBuildRequestAdapter_def bindE_Inr_iff dest!: ProtoToPlanContext_id)

lemma set_pose_all_split:
  "set_pose_all parse setp fb ds = (x, ds') \<Longrightarrow>
    \<exists>k \<le> length ds. ds' = map (\<lambda>(i, d). (i, projr (bindE (parse fb) (setp d)))) (take k ds) @ drop k ds
      \<and> (x = None \<longleftrightarrow> k = length ds)
      \<and> (\<forall>(i, d) \<in> set (take k ds). is_ok (bindE (parse fb) (setp d)))
      \<and> (k < length ds \<longrightarrow> (\<exists>e. x = Some e \<and> bindE (parse fb) (setp (snd (ds ! k))) = Inl e))"
proof (induction ds arbitrary: x ds')
  case Nil
  then show ?case by auto
next
  case (Cons p ds)
  obtain i d where p: "p = (i, d)" by force
  show ?case
  proof (cases "bindE (parse fb) (setp d)")
    case (Inl e)
    with Cons.prems p show ?thesis by (intro exI [of _ 0]) auto
  next
    case (Inr d')
    obtain ds'' where r: "set_pose_all parse setp fb ds = (x, ds'')" "ds' = (i, d') # ds''"
      using Cons.prems p Inr by (auto split: prod.splits)
    from Cons.IH [OF r(1)] obtain k where k: "k \<le> length ds"
        "ds'' = map (\<lambda>(i, d). (i, projr (bindE (parse fb) (setp d)))) (take k ds) @ drop k ds"
        "x = None \<longleftrightarrow> k = length ds" "\<forall>(i, d) \<in> set (take k ds). is_ok (bindE (parse fb) (setp d))"
        "k < length ds \<longrightarrow> (\<exists>e. x = Some e \<and> bindE (parse fb) (setp (snd (ds ! k))) = Inl e)" by blast
    then show ?thesis using p Inr r(2) by (intro exI [of _ "Suc k"]) simp
  qed
qed

section \<open>Properties\<close>

text \<open>The RPC \<open>RemovePlanContext\<close> answers OK for every context of every system: a removal that the
  registry refuses (a context of another system, an unknown context, a missing directory) is
  reported as success although nothing was removed.\<close>
theorem rpc_remove_reports_success_on_refusal:
  assumes "rr_inv E r"
    and "system \<noteq> system_name r \<or> \<not> HasDraco r i \<or> \<not> fs_is_directory f (context_base_path r @ [to_string i])"
  shows "rpc_RemovePlanContext system i r f = (status_OK, r, f)
    \<and> (\<exists>e. fst (rr_RemovePlanContext system i True r f) = Inr (Inl e))"
  using assms(2)
  by (auto simp: rpc_RemovePlanContext_def rr_RemovePlanContext_def Let_def)

text \<open>A build request whose context carries the id 0 is accepted and queued with no id at all, so that
  the run thread reads an empty optional; for every other request the check of \<open>StartJobImpl\<close> for the id 0 lets it pass.\<close>
theorem build_request_id_never_zero:
  assumes "ProtoToIrisBuildRequestAdapter C cs p = Inr r"
  shows "(cpb_id (sb_context p) = 0 \<longrightarrow> ctx_id (ib_context r) = None)
    \<and> ctx_id (ib_context r) \<noteq> Some 0
    \<and> (\<forall>m e. cpb_id (sb_context p) \<noteq> 0 \<and> fst (iris_StartJobImpl r m) = Inr (Inl e) \<longrightarrow> err_code e \<noteq> CONTEXT_INVALID)"
  using ProtoToIrisBuildRequestAdapter_id [OF assms]
  by (auto simp: iris_StartJobImpl_def Let_def split: sum.splits prod.splits if_splits)

text \<open>The summaries of a consistent registry are complete: \<open>GetPlanContextSummaries\<close> never throws and
  lists every stored planner exactly once, in the order of the ids.\<close>
theorem summaries_complete:
  assumes "rr_inv E r" "finite (dom (draco_map r))"
  shows "\<exists>ss. GetPlanContextSummaries robots r = Inr ss \<and> map fst ss = sorted_list_of_set (dom (draco_map r))
    \<and> distinct (map fst ss) \<and> (\<forall>(i, n, s) \<in> set ss. \<exists>d. draco_map r i = Some d \<and> s = robots d)"
proof -
  have dom: "dom (active_contexts_map r) = dom (draco_map r)"
    using assms(1) by (auto simp: rr_inv_def dom_def)
  let ?g = "\<lambda>i. (i, pc_name (the (active_contexts_map r i)), robots (the (draco_map r i)))"
  let ?is = "sorted_list_of_set (dom (draco_map r))"
  have "GetPlanContextSummaries robots r = Inr (map ?g ?is)"
    unfolding GetPlanContextSummaries_def dom
    by (rule mapE_total) (use assms(2) in \<open>auto simp: rr_GetDraco_def\<close>)
  moreover have "map fst (map ?g ?is) = ?is" by (simp add: comp_def)
  moreover have "\<forall>(i, n, s) \<in> set (map ?g ?is). \<exists>d. draco_map r i = Some d \<and> s = robots d"
    using assms(2) by auto
  ultimately show ?thesis by (intro exI [of _ "map ?g ?is"]) simp
qed

text \<open>Setting a pose in the parent frame is not atomic over the contexts: the planners up to the first
  one that throws keep the new pose, the rest keep the old one, and the handler answers INTERNAL
  exactly if there is such a planner.\<close>
theorem set_pose_applies_prefix:
  assumes "rpc_SetPoseInParentFrame parse setp fb ds = (st, ds')"
  shows "\<exists>k \<le> length ds. (st_code st = OK \<longleftrightarrow> k = length ds)
    \<and> map fst ds' = map fst ds
    \<and> (\<forall>j < k. bindE (parse fb) (setp (snd (ds ! j))) = Inr (snd (ds' ! j)))
    \<and> (\<forall>j. k \<le> j \<and> j < length ds \<longrightarrow> ds' ! j = ds ! j)
    \<and> (k < length ds \<longrightarrow> \<not> is_ok (bindE (parse fb) (setp (snd (ds ! k)))))"
proof -
  obtain x where x: "set_pose_all parse setp fb ds = (x, ds')" "st_code st = OK \<longleftrightarrow> x = None"
    using assms by (auto simp: rpc_SetPoseInParentFrame_def split: prod.splits option.splits)
  from set_pose_all_split [OF x(1)] obtain k where k: "k \<le> length ds"
      "ds' = map (\<lambda>(i, d). (i, projr (bindE (parse fb) (setp d)))) (take k ds) @ drop k ds"
      "x = None \<longleftrightarrow> k = length ds" "\<forall>(i, d) \<in> set (take k ds). is_ok (bindE (parse fb) (setp d))"
      "k < length ds \<longrightarrow> (\<exists>e. x = Some e \<and> bindE (parse fb) (setp (snd (ds ! k))) = Inl e)" by blast
  have "map fst ds' = map fst (take k ds) @ map fst (drop k ds)"
    by (simp add: k(2) split_beta comp_def)
  then have "map fst ds' = map fst ds" by (simp flip: map_append)
  moreover have "bindE (parse fb) (setp (snd (ds ! j))) = Inr (snd (ds' ! j))" if "j < k" for j
  proof -
    have "ds ! j \<in> set (take k ds)" using that k(1) by (auto simp: in_set_conv_nth)
    then have "is_ok (bindE (parse fb) (setp (snd (ds ! j))))" using k(4) by (auto simp: split_beta)
    then show ?thesis using that k(1,2) by (auto simp: nth_append split_beta is_ok_iff)
  qed
  moreover have "ds' ! j = ds ! j" if "k \<le> j" "j < length ds" for j
    using that k(1,2) by (simp add: nth_append)
  ultimately show ?thesis using k x(2) by (intro exI [of _ k]) auto
qed

section \<open>Witnesses\<close>

definition sample_start_build :: "context_id \<Rightarrow> (unit, unit) start_build_pb" where
  "sample_start_build i = \<lparr> sb_id = ''job'', sb_context = \<lparr> cpb_name = ''arm'', cpb_id = i, cpb_models = [],
     cpb_metadata_json = Inr [], cpb_constraints_raw = ''c'', cpb_constraints = (),
     cpb_model_directive_raw = ''d'' \<rparr>, sb_num_problems = 1, sb_case = kBuildRoadmapData,
     sb_sysconf_vec = [], sb_sysconf_edge_vec = [], sb_problem_def_vec = [] \<rparr>"

theorem rpc_remove_reports_success_on_refusal_witness:
  "rpc_RemovePlanContext ''arm'' 9 sample_registry [] = (status_OK, sample_registry, [])"
proof -
  have i: "rr_inv sample_env sample_registry" by (simp add: rr_inv_def sample_registry_def)
  have "\<not> HasDraco sample_registry 9" by (simp add: HasDraco_def sample_registry_def)
  with rpc_remove_reports_success_on_refusal [OF i, of "''arm''" 9 "[]"] show ?thesis by simp
qed

theorem build_request_id_never_zero_witness:
  "\<exists>r. ProtoToIrisBuildRequestAdapter sample_codec (\<lambda>_. ConstraintsAdapter) (sample_start_build 0) = Inr r
     \<and> ctx_id (ib_context r) = None"
proof -
  obtain r where r: "ProtoToIrisBuildRequestAdapter sample_codec (\<lambda>_. ConstraintsAdapter) (sample_start_build 0) = Inr r"
    by (simp add: ProtoToIrisBuildRequestAdapter_def sample_start_build_def ProtoToPlanContext_def
        sample_codec_def ProtoToIrisBuildJobType_def load_ca_def sample_document_def read_constraints_write sample_yaml(2))
  from build_request_id_never_zero [OF r] r show ?thesis by (auto simp: sample_start_build_def)
qed

theorem summaries_complete_witness:
  "\<exists>ss. GetPlanContextSummaries (\<lambda>d. d) (sample_registry\<lparr> draco_map := [7 \<mapsto> 7],
       active_contexts_map := [7 \<mapsto> sample_new_context] \<rparr>) = Inr ss \<and> map fst ss = [7]"
proof -
  let ?r = "sample_registry\<lparr> draco_map := [7 \<mapsto> 7], active_contexts_map := [7 \<mapsto> sample_new_context] \<rparr>"
  have "rr_inv sample_env ?r" by (simp add: rr_inv_def sample_env_def)
  moreover have d: "dom (draco_map ?r) = {7}" by (simp add: dom_def)
  ultimately obtain ss where "GetPlanContextSummaries (\<lambda>d. d) ?r = Inr ss"
      "map fst ss = sorted_list_of_set {7}"
    using summaries_complete [of sample_env ?r "\<lambda>d. d"] unfolding d by blast
  then show ?thesis by (intro exI [of _ ss]) simp
qed

theorem set_pose_applies_prefix_witness:
  "snd (rpc_SetPoseInParentFrame (Inr :: nat \<Rightarrow> nat throws)
     (\<lambda>d x. if d < 5 then Inr (d + x) else Inl ''bad'') 10 [(1, 1), (2, 6), (3, 2)])
   = [(1, 11 :: nat), (2, 6), (3, 2)]"
proof -
  let ?set = "\<lambda>d x :: nat. if d < 5 then Inr (d + x) else Inl ''bad''"
  let ?ds = "[(1, 1), (2, 6), (3, 2)] :: (context_id \<times> nat) list"
  obtain st ds' where r: "rpc_SetPoseInParentFrame (Inr :: nat \<Rightarrow> nat throws) ?set 10 ?ds = (st, ds')"
    by (rule prod.exhaust)
  from set_pose_applies_prefix [OF r] have "map fst ds' = map fst ?ds" by blast
  moreover from r have "ds' = [(1, 11), (2, 6), (3, 2)]"
    by (simp add: rpc_SetPoseInParentFrame_def)
  ultimately show ?thesis using r by simp
qed

end
