(* ===== verification/Viz_Service.thy ===== *)
theory Viz_Service
  imports Viz_Hub Rpc_Services
begin

text \<open>
  \<open>comms/viz_service.cc\<close>: the handlers of the visualizer service over the hub of \<open>Viz_Hub\<close>, and the slot for
  the one client that may stream configurations, as a step relation.  Requests are records of the fields the
  handlers read; shapes are parsed by an argument.  An exception that leaves a handler is an \<open>Inl\<close>.
\<close>

section \<open>Paths\<close>

definition strip_root :: "string \<Rightarrow> string" where
  "strip_root p = (if starts_with p ''/drake/'' then drop 7 p else p)"

definition protected_path :: "string \<Rightarrow> bool" where
  "protected_path p \<longleftrightarrow> starts_with p ''collision/'' \<or> starts_with p ''visual/''"

definition under_objects :: "string \<Rightarrow> string" where
  "under_objects p = (if starts_with p ''objects/'' then p else ''objects/'' @ p)"

definition ResolveToggleFramePath :: "string \<Rightarrow> ('dmd, 'y, 'p, 's) hub \<Rightarrow> string option" where
  "ResolveToggleFramePath fr h =
     map_option (\<lambda>p. if suffix ''/'' p then p else p @ ''/'')
       (if starts_with fr ''/'' then (if starts_with fr ''/drake/frames/'' then Some fr else None)
        else if CHR ''/'' \<in> set fr
          then Some (if starts_with fr ''frames/'' then ''/drake/'' @ fr else ''/drake/frames/'' @ fr)
          else ResolveFrameMeshcatPath fr h)"

section \<open>Status and configuration\<close>

record 'y start_request =
  sr_context_id :: context_id
  sr_dmd_filename :: string
  sr_meshcat_params :: "'y option"
  sr_force_reload :: bool
  sr_sliders :: bool
  sr_iris_regions :: bool
  sr_prm :: bool

type_synonym ('dmd, 'y, 'p, 's) served = "grpc_status throws \<times> ('dmd, 'y, 'p, 's) hub \<times> fs"

text \<open>\<open>StartVisualizer\<close> waits until the status is no longer \<open>Starting\<close>, then asks for the hash, outside of its
  \<open>try\<close>.\<close>

definition StartVisualizer ::
  "('y \<Rightarrow> 'y) \<Rightarrow> ('dmd, 'j, 'y, 'p) hub_env \<Rightarrow> 'y start_request \<Rightarrow> ('dmd, 'y, 'p, 's) hub \<Rightarrow> fs
   \<Rightarrow> ('dmd, 'y, 'p, 's) served" where
  "StartVisualizer with_visual E req h f =
     (let opts = (hub_options h)\<lparr> vo_meshcat_params := with_visual (vo_meshcat_params (hub_options h)),
            enable_sliders := sr_sliders req, show_iris_regions := sr_iris_regions req, show_prm := sr_prm req \<rparr>;
          data = \<lparr> vd_context_id = (if sr_dmd_filename req = [] then Some (sr_context_id req) else None),
            vd_dmd_filename = (if sr_dmd_filename req = [] then None else Some (sr_dmd_filename req)),
            vd_meshcat_params = sr_meshcat_params req \<rparr>
      in case LoadAndSetModelData E data (sr_force_reload req) (h\<lparr> hub_options := opts \<rparr>) f of
        (Inl e, h1, f1) \<Rightarrow> (Inr (Status INTERNAL (''Failed to load model data due to exception: '' @ e)), h1, f1)
      | (Inr False, h1, f1) \<Rightarrow> (Inr (Status RESOURCE_EXHAUSTED ''Failed to load robot model from request!''), h1, f1)
      | (Inr True, h1, f1) \<Rightarrow>
        (case run_pass E h1 of
           Inl e \<Rightarrow> (Inl e, h1, f1)
         | Inr h2 \<Rightarrow> (bindE (ActiveHash h2) (\<lambda>_. Inr status_OK), h2, f1)))"

definition StopVisualizer ::
  "('dmd, 'j, 'y, 'p) hub_env \<Rightarrow> ('dmd, 'y, 'p, 's) hub \<Rightarrow> grpc_status throws \<times> ('dmd, 'y, 'p, 's) hub" where
  "StopVisualizer E h = (case run_pass E (RequestStop h) of
     Inl e \<Rightarrow> (Inl e, RequestStop h) | Inr h1 \<Rightarrow> (Inr status_OK, h1))"

fun status_name :: "visualizer_status \<Rightarrow> string" where
  "status_name NoStatus = ''None''"
| "status_name Idle = ''Idle''"
| "status_name Starting = ''Starting''"
| "status_name Active = ''Active''"
| "status_name Stopping = ''Stopping''"

definition VisualizerStatus_Parse :: "string \<Rightarrow> nat option" where
  "VisualizerStatus_Parse s = map_of [(''VISUALIZER_STATUS_UNSPECIFIED'', 0), (''VISUALIZER_STATUS_IDLE'', 1),
     (''VISUALIZER_STATUS_ACTIVE'', 2), (''VISUALIZER_STATUS_STARTING'', 3), (''VISUALIZER_STATUS_STOPPING'', 4),
     (''VISUALIZER_STATUS_ERROR'', 5)] s"

definition GetVisualizerStatus :: "('dmd, 'y, 'p, 's) hub \<Rightarrow> grpc_status \<times> nat option" where
  "GetVisualizerStatus h =
     (let s = ''VISUALIZER_STATUS_'' @ to_upper (status_name (hub_status h)) in
      case VisualizerStatus_Parse s of
        None \<Rightarrow> (Status INTERNAL (''Failed to parse visualizer status from string: '' @ s), None)
      | Some n \<Rightarrow> (status_OK, Some n))"

datatype conf_request = NoConf | OfConf position | OfSystemConf "(string \<times> position) list"

definition DoSetConfiguration ::
  "int \<Rightarrow> conf_request \<Rightarrow> ('dmd, 'y, 'p, 's) hub \<Rightarrow> (string + bool) throws \<times> ('dmd, 'y, 'p, 's) hub" where
  "DoSetConfiguration now req h = (case req of
     OfConf q \<Rightarrow> set_configuration now q h
   | OfSystemConf c \<Rightarrow> set_system_configuration now c h
   | NoConf \<Rightarrow> (Inr (Inl ''No configuration provided!''), h))"

definition SetConfiguration ::
  "int \<Rightarrow> conf_request \<Rightarrow> ('dmd, 'y, 'p, 's) hub \<Rightarrow> grpc_status throws \<times> ('dmd, 'y, 'p, 's) hub" where
  "SetConfiguration now req h = (case DoSetConfiguration now req h of
     (Inl e, h1) \<Rightarrow> (Inl e, h1)
   | (Inr (Inl e), h1) \<Rightarrow> (Inr (Status INTERNAL (''Failed to set model positions ('' @ e @ '')'')), h1)
   | (Inr (Inr _), h1) \<Rightarrow> (Inr status_OK, h1))"

definition rpc_CalcPose ::
  "string \<Rightarrow> string \<Rightarrow> (string \<times> position) list option \<Rightarrow> ('dmd, 'y, 'p, 's) hub
   \<Rightarrow> grpc_status \<times> (string \<times> string \<times> 'p) option" where
  "rpc_CalcPose fa fb override h =
     (let a = (if fa = [] then ''world'' else fa); b = (if fb = [] then ''world'' else fb) in
      case hub_CalcPose b a override h of
        Inl e \<Rightarrow> (Status INTERNAL (''Failed to compute pose due to error! Exception: '' @ e), None)
      | Inr X \<Rightarrow> (status_OK, Some (a, b, X)))"

section \<open>Objects\<close>

record 'p pose_ops =
  identity_pose :: 'p
  compose_pose :: "'p \<Rightarrow> 'p \<Rightarrow> 'p"
  far_away :: 'p

record ('p, 'sh) object_request =
  or_path :: string
  or_frame :: string
  or_pose :: 'p
  or_shape :: 'sh

record ('dmd, 'y, 'p, 's) viz_service =
  the_hub :: "('dmd, 'y, 'p, 's) hub"
  object_transforms :: "string \<Rightarrow> 'p option"

definition queue_task ::
  "('p, 's) meshcat_task \<Rightarrow> ('dmd, 'y, 'p, 's) viz_service \<Rightarrow> ('dmd, 'y, 'p, 's) viz_service" where
  "queue_task t v = v\<lparr> the_hub := QueueMeshcatTask t (the_hub v) \<rparr>"

definition SetObject ::
  "'p pose_ops \<Rightarrow> ('sh \<Rightarrow> 's throws) \<Rightarrow> ('p, 'sh) object_request \<Rightarrow> ('dmd, 'y, 'p, 's) viz_service
   \<Rightarrow> grpc_status \<times> ('dmd, 'y, 'p, 's) viz_service" where
  "SetObject P to_shape req v =
     (let p = strip_root (or_path req) in
      if protected_path p then (Status PERMISSION_DENIED ''SetObject: Refusing to set path'', v)
      else let p = under_objects p in
        case to_shape (or_shape req) of
          Inl e \<Rightarrow> (Status INVALID_ARGUMENT (''SetObject: Failed to build shape: '' @ e), v)
        | Inr sh \<Rightarrow>
          (case hub_CalcPose (if or_frame req = [] then ''world'' else or_frame req) ''world'' None (the_hub v) of
             Inl e \<Rightarrow> (Status INTERNAL (''SetObject: Failed to set object in Meshcat: '' @ e), v)
           | Inr X \<Rightarrow> (let XWO = compose_pose P X (or_pose req) in
               (status_OK, queue_task (PlaceObject p sh XWO)
                  (v\<lparr> object_transforms := (object_transforms v)(p \<mapsto> XWO) \<rparr>)))))"

definition DeleteObject ::
  "string \<Rightarrow> ('dmd, 'y, 'p, 's) viz_service \<Rightarrow> grpc_status \<times> ('dmd, 'y, 'p, 's) viz_service" where
  "DeleteObject path v =
     (let p = strip_root path in
      if protected_path p then (Status PERMISSION_DENIED ''DeleteObject: Refusing to delete path'', v)
      else if p = [] then (Status INVALID_ARGUMENT ''DeleteObject: Cannot delete an empty path'', v)
      else let p = under_objects p in
        (status_OK, queue_task (DeletePath p) (v\<lparr> object_transforms := (object_transforms v)(p := None) \<rparr>)))"

definition ToggleObject ::
  "'p pose_ops \<Rightarrow> string \<Rightarrow> bool \<Rightarrow> ('dmd, 'y, 'p, 's) viz_service
   \<Rightarrow> grpc_status \<times> ('dmd, 'y, 'p, 's) viz_service" where
  "ToggleObject P path visible v =
     (let p = strip_root path; target = (if visible then identity_pose P else far_away P) in
      if starts_with p ''objects/'' then
        (status_OK, if \<not> visible then queue_task (MoveIfPresent p (far_away P)) v
           else (case object_transforms v p of None \<Rightarrow> v | Some X \<Rightarrow> queue_task (MoveIfPresent p X) v))
      else
        let v1 = (if protected_path p then queue_task (MoveIfPresent p target) v
                  else queue_task (MoveIfPresent (''visual/'' @ p) target)
                         (queue_task (MoveIfPresent (''collision/'' @ p) target) v));
            q = (if starts_with p ''visual/'' then drop 7 p else p)
        in if starts_with p ''collision/'' then (status_OK, v1)
           else case ToggleFramesByPath (far_away P) q visible (the_hub v1) of
             (ups, h1) \<Rightarrow> (status_OK, (if ups = [] then id else queue_task (MoveAll ups)) (v1\<lparr> the_hub := h1 \<rparr>)))"

definition rpc_ToggleFrame ::
  "'p pose_ops \<Rightarrow> string \<Rightarrow> bool \<Rightarrow> ('dmd, 'y, 'p, 's) viz_service
   \<Rightarrow> grpc_status \<times> ('dmd, 'y, 'p, 's) viz_service" where
  "rpc_ToggleFrame P fr visible v =
     (if fr = [] then (Status INVALID_ARGUMENT ''ToggleFrame: Frame name cannot be empty'', v)
      else case ResolveToggleFramePath fr (the_hub v) of
        None \<Rightarrow> (Status INVALID_ARGUMENT (''ToggleFrame: Could not resolve frame '' @ fr), v)
      | Some p \<Rightarrow> (status_OK, v\<lparr> the_hub := snd (ToggleFrame (far_away P) p visible (the_hub v)) \<rparr>))"

section \<open>The streaming slot\<close>

text \<open>\<open>DoStreamConfigurations\<close> at the granularity of its critical sections.  Handler \<open>i\<close> runs with the context \<open>i\<close>;
  \<open>peer\<close> names its client.  A handler that finds the slot taken cancels the holder and waits until the slot is
  empty, or until the timeout, which may fire at any time when \<open>to\<close> is true.  \<open>Reading\<close> is the loop over the
  packets, \<open>Closing\<close> the time between the end of the loop and the last critical section.  A packet on which \<open>DoSetConfiguration\<close>
  throws ends the handler on the spot, \<open>Thrown\<close>: gRPC catches the exception and destroys its context, and the slot stays as it was.  Cancelling a destroyed context is undefined in
  C++; the step is kept here with no other effect, so runs through it show what happens where that goes unpunished.\<close>

datatype stream_pc = Connecting | WaitingFor nat | Reading | Closing | Closed | Thrown

record streams =
  active_streamer :: string
  active_ctx :: "nat option"
  cancelled :: "nat set"
  pcs :: "nat \<Rightarrow> stream_pc"

definition take_slot :: "string \<Rightarrow> nat \<Rightarrow> streams \<Rightarrow> streams" where
  "take_slot name i s = s\<lparr> active_streamer := name, active_ctx := Some i, pcs := (pcs s)(i := Reading) \<rparr>"

inductive stream_step :: "bool \<Rightarrow> (nat \<Rightarrow> string) \<Rightarrow> streams \<Rightarrow> streams \<Rightarrow> bool" for to peer where
  connect: "pcs s i = Connecting \<Longrightarrow> active_ctx s = None \<Longrightarrow> stream_step to peer s (take_slot (peer i) i s)"
| evict: "pcs s i = Connecting \<Longrightarrow> active_ctx s = Some j \<Longrightarrow>
    stream_step to peer s (s\<lparr> cancelled := insert j (cancelled s), pcs := (pcs s)(i := WaitingFor j) \<rparr>)"
| vacated: "pcs s i = WaitingFor j \<Longrightarrow> active_streamer s = [] \<Longrightarrow> stream_step to peer s (take_slot (peer i) i s)"
| timeout: "to \<Longrightarrow> pcs s i = WaitingFor j \<Longrightarrow> active_streamer s \<noteq> [] \<Longrightarrow> stream_step to peer s (take_slot (peer i) i s)"
| escape: "pcs s i = Reading \<Longrightarrow> stream_step to peer s (s\<lparr> pcs := (pcs s)(i := Thrown) \<rparr>)"
| finish: "pcs s i = Reading \<Longrightarrow> stream_step to peer s (s\<lparr> pcs := (pcs s)(i := Closing) \<rparr>)"
| leave: "pcs s i = Closing \<Longrightarrow> stream_step to peer s (s\<lparr> active_streamer := [], active_ctx := None, pcs := (pcs s)(i := Closed) \<rparr>)"

inductive stream_reachable :: "bool \<Rightarrow> (nat \<Rightarrow> string) \<Rightarrow> streams \<Rightarrow> bool" for to peer where
  start: "stream_reachable to peer \<lparr> active_streamer = [], active_ctx = None, cancelled = {}, pcs = (\<lambda>_. Connecting) \<rparr>"
| step: "stream_reachable to peer s \<Longrightarrow> stream_step to peer s s' \<Longrightarrow> stream_reachable to peer s'"

abbreviation streaming :: "streams \<Rightarrow> nat \<Rightarrow> bool" where
  "streaming s i \<equiv> pcs s i = Reading \<or> pcs s i = Closing"

text \<open>A handler that took the slot and did not give it back.\<close>

abbreviation holding :: "streams \<Rightarrow> nat \<Rightarrow> bool" where
  "holding s i \<equiv> streaming s i \<or> pcs s i = Thrown"

definition stream_inv :: "bool \<Rightarrow> streams \<Rightarrow> bool" where
  "stream_inv to s \<longleftrightarrow> (\<forall>i. active_ctx s = Some i \<longrightarrow> holding s i)
     \<and> (active_streamer s = [] \<longleftrightarrow> active_ctx s = None)
     \<and> (\<not> to \<longrightarrow> (\<forall>i. holding s i \<longrightarrow> active_ctx s = Some i))"

lemma stream_invD:
  assumes "stream_inv to s"
  shows "active_ctx s = Some i \<Longrightarrow> holding s i" "(active_streamer s = []) = (active_ctx s = None)"
    "\<not> to \<Longrightarrow> holding s i \<Longrightarrow> active_ctx s = Some i"
  using assms unfolding stream_inv_def by blast+

lemma stream_inv_cong:
  assumes "stream_inv to s" "\<And>k. holding s' k \<longleftrightarrow> holding s k"
    and "active_ctx s' = active_ctx s" "active_streamer s' = active_streamer s"
  shows "stream_inv to s'"
  using assms(1) unfolding stream_inv_def assms(2-4) .

lemma take_slot_inv:
  assumes "stream_inv to s" "name \<noteq> []" "active_ctx s = None \<or> to"
  shows "stream_inv to (take_slot name i s)"
  unfolding stream_inv_def
proof (intro conjI allI impI)
  fix j assume "\<not> to" "holding (take_slot name i s) j"
  then show "active_ctx (take_slot name i s) = Some j"
    using stream_invD(3) [OF assms(1), of j] assms(3) by (cases "j = i") (auto simp: take_slot_def)
qed (use assms(2) in \<open>auto simp: take_slot_def\<close>)

lemma stream_step_inv [inv_intros]:
  assumes "stream_step to peer s s'" "stream_inv to s" "\<forall>i. peer i \<noteq> []"
  shows "stream_inv to s'"
  using assms(1)
proof (cases rule: stream_step.cases)
  case (connect i)
  then show ?thesis using take_slot_inv assms(2,3) by blast
next
  case (evict i j)
  then show ?thesis
    by (intro stream_inv_cong [OF assms(2)]) auto
next
  case (vacated i j)
  moreover from this have "active_ctx s = None" using stream_invD(2) [OF assms(2)] by blast
  ultimately show ?thesis using take_slot_inv [OF assms(2)] assms(3) by blast
next
  case (timeout i j)
  then show ?thesis using take_slot_inv [OF assms(2)] assms(3) by blast
next
  case (escape i)
  then show ?thesis by (intro stream_inv_cong [OF assms(2)]) auto
next
  case (finish i)
  then show ?thesis by (intro stream_inv_cong [OF assms(2)]) auto
next
  case (leave i)
  have "j = i" if "\<not> to" "holding s j" for j
    using stream_invD(3) [OF assms(2) that] stream_invD(3) [OF assms(2) that(1), of i] leave(2) by simp
  then have "\<not> holding s' j" if "\<not> to" for j using that leave(1) by (cases "j = i") auto
  then show ?thesis using leave(1) by (simp add: stream_inv_def)
qed

lemma reachable_inv:
  assumes "\<forall>i. peer i \<noteq> []" "stream_reachable to peer s"
  shows "stream_inv to s"
  using assms(2)
proof induction
  case start
  show ?case by (simp add: stream_inv_def)
next
  case (step s s')
  then show ?case using stream_step_inv assms(1) by blast
qed

lemma under_objects_form: "\<exists>q. under_objects p = ''objects/'' @ q"
proof (cases "starts_with p ''objects/''")
  case True
  from starts_with_eq [OF this] have "under_objects p = ''objects/'' @ drop (length ''objects/'') p"
    unfolding under_objects_def by (simp only: True if_True)
  then show ?thesis by (rule exI)
next
  case False
  then show ?thesis unfolding under_objects_def by (simp only: if_False) (rule exI, rule refl)
qed

lemma objects_path: "strip_root (''objects/'' @ q) = ''objects/'' @ q" "starts_with (''objects/'' @ q) ''objects/''"
  by (simp_all add: strip_root_def starts_with_def)

section \<open>Properties\<close>

text \<open>C13: Streaming is exclusive as long as no eviction times out: at most one handler is past the slot, and it is the one
  the slot names, so also a handler that an exception ended and that never gives the slot back keeps all others out.  With timeouts too,
  the context in the slot, which the next handler cancels, belongs to a handler that has not returned or to one that an exception ended.\<close>
theorem stream_slot_safe:
  assumes "\<forall>i. peer i \<noteq> []" "stream_reachable to peer s"
  shows "(\<forall>i. active_ctx s = Some i \<longrightarrow> streaming s i \<or> pcs s i = Thrown)
    \<and> (\<not> to \<longrightarrow> (\<forall>i j. streaming s i \<and> streaming s j \<longrightarrow> i = j \<and> active_ctx s = Some i))
    \<and> (\<not> to \<longrightarrow> (\<forall>i j. pcs s i = Thrown \<longrightarrow> active_ctx s = Some i \<and> \<not> streaming s j))"
proof -
  note inv = stream_invD [OF reachable_inv [OF assms]]
  have "i = j \<and> active_ctx s = Some i" if "\<not> to" "holding s i" "holding s j" for i j
    using inv(3) [OF that(1,2)] inv(3) [OF that(1,3)] by simp
  moreover have "\<not> (streaming s j \<and> pcs s j = Thrown)" for j by auto
  ultimately show ?thesis using inv(1) by (intro conjI) blast+
qed

text \<open>A packet of a wrong size ends the handler and leaves its context in the slot: the next client cancels the destroyed context, and
  waits for a handler that is not there.\<close>
theorem stale_slot:
  "\<exists>s. stream_reachable to peer s \<and> pcs s 0 = Thrown \<and> active_ctx s = Some 0 \<and> cancelled s = {0} \<and> pcs s 1 = WaitingFor 0"
proof -
  let ?S = "\<lambda>x p. \<lparr> active_streamer = peer 0, active_ctx = Some 0, cancelled = x, pcs = p \<rparr>"
  let ?p1 = "(\<lambda>_ :: nat. Connecting)(0 := Reading)"
  let ?p2 = "?p1(0 := Thrown)"
  note go = stream_reachable.step
  have r1: "stream_reachable to peer (?S {} ?p1)"
    using go [OF stream_reachable.start stream_step.connect [of _ 0]] by (simp add: take_slot_def)
  have r2: "stream_reachable to peer (?S {} ?p2)" using go [OF r1 stream_step.escape [of _ 0]] by simp
  have r3: "stream_reachable to peer (?S {0} (?p2(1 := WaitingFor 0)))" using go [OF r2 stream_step.evict [of _ 1 0]] by simp
  then show ?thesis by (intro exI conjI, assumption) simp_all
qed

text \<open>A timed-out eviction breaks the slot for good: the handler that was evicted, when it leaves, clears the slot of the
  handler that replaced it; a third client then connects without cancelling anybody, and two clients stream at the same
  time, the first of them not in the slot and not cancelled.\<close>
theorem takeover_clears_new_holder:
  "\<exists>s. stream_reachable True peer s \<and> pcs s 1 = Reading \<and> pcs s 2 = Reading
     \<and> active_ctx s = Some 2 \<and> cancelled s = {0} \<and> pcs s 0 = Closed"
proof (cases "peer 0 = []")
  let ?S = "\<lambda>a c x p. \<lparr> active_streamer = a, active_ctx = c, cancelled = x, pcs = p \<rparr>"
  let ?p0 = "\<lambda>_ :: nat. Connecting"
  let ?p1 = "?p0(0 := Reading)"
  let ?p2 = "?p1(1 := WaitingFor 0)"
  let ?p3 = "?p2(1 := Reading)"
  let ?p4 = "?p3(0 := Closing)"
  let ?p5 = "?p4(0 := Closed)"
  let ?p6 = "?p5(2 := Reading)"
  note go = stream_reachable.step
  have r1: "stream_reachable True peer (?S (peer 0) (Some 0) {} ?p1)"
    using go [OF stream_reachable.start stream_step.connect [of _ 0]] by (simp add: take_slot_def)
  have r2: "stream_reachable True peer (?S (peer 0) (Some 0) {0} ?p2)"
    using go [OF r1 stream_step.evict [of _ 1 0]] by simp
  have r3: "stream_reachable True peer (?S (peer 1) (Some 1) {0} ?p3)"
    using go [OF r2 stream_step.timeout [of _ _ 1 0]] go [OF r2 stream_step.vacated [of _ 1 0]]
    by (cases "peer 0 = []") (simp_all add: take_slot_def)
  have r4: "stream_reachable True peer (?S (peer 1) (Some 1) {0} ?p4)"
    using go [OF r3 stream_step.finish [of _ 0]] by simp
  have r5: "stream_reachable True peer (?S [] None {0} ?p5)"
    using go [OF r4 stream_step.leave [of _ 0]] by simp
  have r6: "stream_reachable True peer (?S (peer 2) (Some 2) {0} ?p6)"
    using go [OF r5 stream_step.connect [of _ 2]] by (simp add: take_slot_def)
  then have r: "\<exists>s. stream_reachable True peer s \<and> pcs s 1 = Reading \<and> pcs s 2 = Reading
     \<and> active_ctx s = Some 2 \<and> cancelled s = {0} \<and> pcs s 0 = Closed" by (intro exI conjI, assumption) simp_all
  show ?thesis by (rule r)
  show ?thesis by (rule r)
qed

text \<open>Requests for objects cannot touch the robot: \<open>SetObject\<close> and \<open>DeleteObject\<close> refuse the paths of
  collision and visual geometry, with and without the root, and else queue at most one task, which is about a path below \<open>objects/\<close>.\<close>
theorem object_requests_confined:
  "(protected_path (strip_root path) \<longleftrightarrow> st_code (fst (DeleteObject path v)) = PERMISSION_DENIED)
   \<and> (protected_path (strip_root (or_path req)) \<longleftrightarrow> st_code (fst (SetObject P to_shape req v)) = PERMISSION_DENIED)
   \<and> (snd (DeleteObject path v) = v \<or>
       (\<exists>p. task_queue (the_hub (snd (DeleteObject path v))) = task_queue (the_hub v) @ [DeletePath (''objects/'' @ p)]))
   \<and> (snd (SetObject P to_shape req v) = v \<or>
       (\<exists>p sh X. task_queue (the_hub (snd (SetObject P to_shape req v)))
          = task_queue (the_hub v) @ [PlaceObject (''objects/'' @ p) sh X]))"
proof -
  obtain q1 q2 where q: "under_objects (strip_root path) = ''objects/'' @ q1"
      "under_objects (strip_root (or_path req)) = ''objects/'' @ q2"
    using under_objects_form by metis
  have "(protected_path (strip_root path) \<longleftrightarrow> st_code (fst (DeleteObject path v)) = PERMISSION_DENIED)
    \<and> (snd (DeleteObject path v) = v \<or> task_queue (the_hub (snd (DeleteObject path v)))
         = task_queue (the_hub v) @ [DeletePath (under_objects (strip_root path))])"
    by (simp add: DeleteObject_def Let_def queue_task_def QueueMeshcatTask_def)
  moreover have "(protected_path (strip_root (or_path req)) \<longleftrightarrow> st_code (fst (SetObject P to_shape req v)) = PERMISSION_DENIED)
    \<and> (snd (SetObject P to_shape req v) = v \<or> (\<exists>sh X. task_queue (the_hub (snd (SetObject P to_shape req v)))
          = task_queue (the_hub v) @ [PlaceObject (under_objects (strip_root (or_path req))) sh X]))"
    by (simp add: SetObject_def Let_def queue_task_def QueueMeshcatTask_def split: sum.split)
  ultimately show ?thesis unfolding q by blast
qed

text \<open>Hiding an object and showing it again puts it back where it was: the tasks queued for the path are the
  placement, the move out of sight, and the move to the very pose of the placement.\<close>
theorem hide_show_restores_pose:
  assumes "SetObject P to_shape req v = (s, v1)" "st_code s = OK" "p = under_objects (strip_root (or_path req))"
    and "v2 = snd (ToggleObject P p False v1)" "v3 = snd (ToggleObject P p True v2)"
  shows "\<exists>sh X. object_transforms v3 p = Some X \<and> task_queue (the_hub v3) = task_queue (the_hub v)
     @ [PlaceObject p sh X, MoveIfPresent p (far_away P), MoveIfPresent p X]"
proof -
  obtain q where q: "p = ''objects/'' @ q" using under_objects_form assms(3) by metis
  note p = objects_path [of q, folded q]
  obtain sh X where 1: "v1 = queue_task (PlaceObject p sh X) (v\<lparr> object_transforms := (object_transforms v)(p \<mapsto> X) \<rparr>)"
    using assms(1,2) unfolding SetObject_def Let_def assms(3) [symmetric]
    by (cases "protected_path (strip_root (or_path req))") (auto split: sum.splits)
  have 2: "v2 = queue_task (MoveIfPresent p (far_away P)) v1"
    unfolding assms(4) ToggleObject_def Let_def p(1) by (simp add: p(2))
  have "object_transforms v2 p = Some X" by (simp add: 1 2 queue_task_def)
  then have "v3 = queue_task (MoveIfPresent p X) v2"
    unfolding assms(5) ToggleObject_def Let_def p(1) by (simp add: p(2))
  then show ?thesis by (simp add: 1 2 queue_task_def QueueMeshcatTask_def)
qed

text \<open>A model that cannot be built makes \<open>StartVisualizer\<close> throw: the status goes back to \<open>Idle\<close> and the
  handler, which takes the end of \<open>Starting\<close> for success, asks for the hash of a model that is not there.\<close>
theorem failed_start_escapes:
  assumes "hub_draco h = None" "hub_status h \<noteq> Active"
    and "\<And>a. make_draco E a = Inl e"
  shows "case StartVisualizer vis E req h f of
      (Inr st, _, _) \<Rightarrow> st_code st = RESOURCE_EXHAUSTED
    | (Inl x, h', _) \<Rightarrow> x = no_draco \<and> hub_status h' = Idle"
proof -
  let ?h = "h\<lparr> hub_options := (hub_options h)\<lparr> vo_meshcat_params := vis (vo_meshcat_params (hub_options h)),
            enable_sliders := sr_sliders req, show_iris_regions := sr_iris_regions req, show_prm := sr_prm req \<rparr> \<rparr>"
  have load: "x = Inr False \<or> (x = Inr True \<and> hub_status h1 = Starting \<and> hub_adapter h1 \<noteq> None \<and> hub_draco h1 = None)"
    if "LoadAndSetModelData E d force ?h f = (x, h1, f1)" for d force x h1 f1
    using that assms(1,2)
    by (auto simp: LoadAndSetModelData_def Let_def SetStatus_def split: prod.splits sum.splits option.splits)
  have start: "run_pass E h1 = Inr (SetStatus Idle h1)" if "hub_status h1 = Starting" "hub_adapter h1 \<noteq> None" for h1
    using that assms(3) by (auto simp: run_pass_def)
  obtain x h1 f1 where l: "LoadAndSetModelData E \<lparr> vd_context_id = (if sr_dmd_filename req = [] then Some (sr_context_id req) else None),
            vd_dmd_filename = (if sr_dmd_filename req = [] then None else Some (sr_dmd_filename req)),
            vd_meshcat_params = sr_meshcat_params req \<rparr> (sr_force_reload req) ?h f = (x, h1, f1)"
    by (rule prod_cases3)
  from load [OF l] show ?thesis
  proof
    assume "x = Inr False"
    then show ?thesis unfolding StartVisualizer_def Let_def l by simp
  next
    assume x: "x = Inr True \<and> hub_status h1 = Starting \<and> hub_adapter h1 \<noteq> None \<and> hub_draco h1 = None"
    then show ?thesis unfolding StartVisualizer_def Let_def l using start [of h1]
      by (simp add: ActiveHash_def SetStatus_def)
  qed
qed

section \<open>Witnesses\<close>

theorem stream_slot_safe_witness:
  "\<exists>s. stream_reachable False (\<lambda>_. ''a'') s \<and> active_ctx s = Some 0 \<and> streaming s 0"
proof -
  let ?s = "take_slot ''a'' 0 \<lparr> active_streamer = [], active_ctx = None, cancelled = {}, pcs = (\<lambda>_. Connecting) \<rparr>"
  have r: "stream_reachable False (\<lambda>_. ''a'') ?s"
    by (rule stream_reachable.step [OF stream_reachable.start stream_step.connect]) simp_all
  have a: "active_ctx ?s = Some 0"
    by (simp add: take_slot_def)
  have p: "\<forall>i. (\<lambda>_. ''a'') i \<noteq> []"
    by simp
  have "streaming ?s 0"
    using stream_slot_safe [OF p r] a by (simp add: take_slot_def)
  with r a show ?thesis
    by (rule_tac exI [of _ ?s]) (intro conjI)
qed

definition sample_pose_ops :: "nat pose_ops" where
  "sample_pose_ops = \<lparr> identity_pose = 0, compose_pose = (+), far_away = 9 \<rparr>"

definition sample_service :: "(string, string, nat, unit) viz_service" where
  "sample_service = \<lparr> the_hub = sample_hub 1, object_transforms = (\<lambda>_. None) \<rparr>"

theorem hide_show_restores_pose_witness:
  "\<exists>v1 sh X. SetObject sample_pose_ops Inr \<lparr> or_path = ''cup'', or_frame = [], or_pose = 4, or_shape = () \<rparr> sample_service
       = (status_OK, v1)
     \<and> task_queue (the_hub (snd (ToggleObject sample_pose_ops (under_objects (strip_root ''cup'')) True
          (snd (ToggleObject sample_pose_ops (under_objects (strip_root ''cup'')) False v1)))))
       = task_queue (the_hub sample_service) @ [PlaceObject (under_objects (strip_root ''cup'')) sh X,
           MoveIfPresent (under_objects (strip_root ''cup'')) 9, MoveIfPresent (under_objects (strip_root ''cup'')) X]"
proof -
  let ?r = "\<lparr> or_path = ''cup'', or_frame = [], or_pose = 4, or_shape = () \<rparr>"
  obtain v1 where v1: "SetObject sample_pose_ops Inr ?r sample_service = (status_OK, v1)"
    by (simp add: SetObject_def Let_def protected_path_def strip_root_def starts_with_def hub_CalcPose_def
        sample_service_def sample_hub_def sample_model_def)
  from hide_show_restores_pose [OF v1 _ _ refl refl] v1 show ?thesis by (auto simp: sample_pose_ops_def)
qed

theorem failed_start_escapes_witness:
  "fst (StartVisualizer id ((sample_hub_env 1)\<lparr> make_draco := (\<lambda>_. Inl ''bad model'') \<rparr>)
     \<lparr> sr_context_id = 0, sr_dmd_filename = ''x'', sr_meshcat_params = None, sr_force_reload = False,
        sr_sliders = False, sr_iris_regions = False, sr_prm = False \<rparr>
     ((sample_hub 1)\<lparr> hub_draco := None, hub_status := Idle \<rparr>) sample_files) = Inl no_draco"
proof -
  let ?E = "(sample_hub_env 1)\<lparr> make_draco := (\<lambda>_. Inl ''bad model'') \<rparr>"
  let ?r = "\<lparr> sr_context_id = 0, sr_dmd_filename = ''x'', sr_meshcat_params = None, sr_force_reload = False,
        sr_sliders = False, sr_iris_regions = False, sr_prm = False \<rparr>"
  let ?h = "(sample_hub 1)\<lparr> hub_draco := None, hub_status := Idle \<rparr>"
  have "\<exists>x. fst (StartVisualizer id ?E ?r ?h sample_files) = Inl x"
    by (simp add: StartVisualizer_def LoadAndSetModelData_def load_adapter_def load_yaml_def fs_read_def Let_def
        SetStatus_def run_pass_def ActiveHash_def sample_hub_def sample_hub_env_def sample_files_def sample_codec_def)
  with failed_start_escapes [of ?h ?E "''bad model''" id ?r sample_files] show ?thesis
    by (auto simp: sample_hub_def split: prod.splits sum.splits)
qed

end
