(* ===== verification/Override.thy ===== *)
theory Override
  imports Prelude
begin

text \<open>
  \<open>common/override.h\<close>: values that can be overridden for the lifetime of a scope.
  An \<open>Overrideable\<close> is a record at an address; the heap maps addresses to them.  A
  \<open>ScopedOverride\<close> points to the one it manages.  Callbacks are names, and an operation
  returns the names of those it ran.  The token counter is part of the state.

  \<open>set_owner\<close> waits for the owner to release for at most the timeout; in the sequential operations
  nobody else runs, so an owned value times out.  The step relation \<open>own_step\<close> has several scopes
  competing for one value, with the check and the write of \<open>set_owner\<close> as separate steps.
\<close>

type_synonym token = "64 word"

record 'v overrideable =
  curr_value :: "'v option"
  last_value :: "'v option"
  initialized :: bool
  overridden :: bool
  owner_token :: token

definition Overrideable :: "'v \<Rightarrow> 'v overrideable" where
  "Overrideable v = \<lparr> curr_value = Some v, last_value = None, initialized = True,
                      overridden = False, owner_token = 0 \<rparr>"

definition Overrideable_default :: "'v overrideable" where
  "Overrideable_default = \<lparr> curr_value = None, last_value = None, initialized = False,
                      overridden = False, owner_token = 0 \<rparr>"

section \<open>Overrideable\<close>

definition check_has_value :: "'v overrideable \<Rightarrow> 'v throws" where
  "check_has_value o' = (case curr_value o' of
     None \<Rightarrow> Inl ''Overrideable: No current value set.'' | Some v \<Rightarrow> Inr v)"

definition ov_value :: "'v overrideable \<Rightarrow> 'v throws" where "ov_value = check_has_value"

definition has_value :: "'v overrideable \<Rightarrow> bool" where "has_value o' = is_ok (check_has_value o')"

definition initialize :: "'v \<Rightarrow> 'v overrideable \<Rightarrow> 'v overrideable throws" where
  "initialize v o' = (if initialized o'
     then Inl ''Overrideable: Value has already been initialized and cannot be initialized again.''
     else Inr (o'\<lparr> curr_value := Some v, initialized := True \<rparr>))"

definition owned :: "'v overrideable \<Rightarrow> bool" where "owned o' = (owner_token o' \<noteq> 0)"

definition check_mutable :: "token \<Rightarrow> 'v overrideable \<Rightarrow> unit throws" where
  "check_mutable t o' = guardE (owner_token o' = 0 \<or> owner_token o' = t)
     ''Overrideable: Value is already owned by another ScopedOverride and may not be modified.''"

definition check_overridden :: "'v overrideable \<Rightarrow> unit throws" where
  "check_overridden o' = guardE (\<not> overridden o')
     ''Overrideable: Value has been set and may not be changed.''"

definition ov_set :: "token \<Rightarrow> 'v \<Rightarrow> 'v overrideable \<Rightarrow> 'v overrideable throws" where
  "ov_set t v o' = bindE (check_mutable t o') (\<lambda>_. bindE (check_overridden o') (\<lambda>_.
     Inr (if curr_value o' \<noteq> None
          then o'\<lparr> last_value := curr_value o', overridden := True, curr_value := Some v \<rparr>
          else o'\<lparr> curr_value := Some v \<rparr>)))"

definition ov_restore :: "token \<Rightarrow> 'v overrideable \<Rightarrow> 'v overrideable throws" where
  "ov_restore t o' = bindE (check_mutable t o') (\<lambda>_.
     Inr (if last_value o' \<noteq> None
          then o'\<lparr> curr_value := last_value o', last_value := None, overridden := False \<rparr>
          else o'\<lparr> overridden := False \<rparr>))"

definition set_owner :: "token \<Rightarrow> bool \<Rightarrow> 'v overrideable \<Rightarrow> 'v overrideable throws" where
  "set_owner t wait o' =
     (if owned o' then
        (if owner_token o' = t then Inr o'
         else if \<not> wait then Inl ''Overrideable:set_owner: Value is already owned by a ScopedOverride.''
         else Inl ''Overrideable:set_owner: Timeout waiting for ownership'')
      else Inr (o'\<lparr> owner_token := t \<rparr>))"

definition ov_release :: "token \<Rightarrow> 'v overrideable \<Rightarrow> 'v overrideable throws" where
  "ov_release t o' = bindE (check_mutable t o') (\<lambda>_. Inr (o'\<lparr> owner_token := 0 \<rparr>))"

lemmas ov_defs [model_defs] = check_has_value_def ov_value_def has_value_def initialize_def owned_def
  check_mutable_def check_overridden_def ov_set_def ov_restore_def set_owner_def ov_release_def

section \<open>ScopedOverride\<close>

type_synonym addr = nat

record 'c scoped_override =
  so_target :: "addr option"
  so_token :: token
  so_on_set :: "'c option"
  so_on_restore :: "'c option"
  so_thread :: nat

record 'v ov_state =
  heap :: "addr \<Rightarrow> 'v overrideable"
  next_token :: token

definition new_scope :: "nat \<Rightarrow> 'c scoped_override" where
  "new_scope thread = \<lparr> so_target = None, so_token = 0, so_on_set = None, so_on_restore = None, so_thread = thread \<rparr>"

definition at_addr :: "addr \<Rightarrow> 'v overrideable \<Rightarrow> 'v ov_state \<Rightarrow> 'v ov_state" where
  "at_addr a o' s = s\<lparr> heap := (heap s)(a := o') \<rparr>"

text \<open>The target is assigned before \<open>set_owner\<close> is called: it stays when that throws.\<close>

definition acquire ::
  "addr \<Rightarrow> 'c scoped_override \<Rightarrow> 'v ov_state \<Rightarrow> unit throws \<times> 'c scoped_override \<times> 'v ov_state" where
  "acquire a so s =
     (if so_target so \<noteq> None
      then (Inl ''ScopedOverride: Already managing an Overrideable instance.'', so, s)
      else let (tok, s1) = (if so_token so = 0 then (next_token s, s\<lparr> next_token := next_token s + 1 \<rparr>)
                            else (so_token so, s));
               so1 = so\<lparr> so_token := tok, so_target := Some a \<rparr>
      in case set_owner tok True (heap s1 a) of
           Inl e \<Rightarrow> (Inl e, so1, s1)
         | Inr o' \<Rightarrow> (Inr (), so1, at_addr a o' s1))"

definition so_release ::
  "'c scoped_override \<Rightarrow> 'v ov_state \<Rightarrow> unit throws \<times> 'c scoped_override \<times> 'v ov_state \<times> 'c list" where
  "so_release so s = (case so_target so of
     None \<Rightarrow> (Inr (), so, s, [])
   | Some a \<Rightarrow>
     (case (if overridden (heap s a)
            then bindE (ov_restore (so_token so) (heap s a)) (\<lambda>o'. Inr (o', case so_on_restore so of None \<Rightarrow> [] | Some c \<Rightarrow> [c]))
            else Inr (heap s a, [])) of
        Inl e \<Rightarrow> (Inl e, so, s, [])
      | Inr (o1, evs) \<Rightarrow>
        (case ov_release (so_token so) o1 of
           Inl e \<Rightarrow> (Inl e, so, at_addr a o1 s, evs)
         | Inr o2 \<Rightarrow> (Inr (), so\<lparr> so_target := None \<rparr>, at_addr a o2 s, evs))))"

definition so_set ::
  "'v \<Rightarrow> 'c scoped_override \<Rightarrow> 'v ov_state \<Rightarrow> unit throws \<times> 'v ov_state \<times> 'c list" where
  "so_set v so s = (case so_target so of
     None \<Rightarrow> (Inl ''ScopedOverride: Not managing any Overrideable instance.'', s, [])
   | Some a \<Rightarrow> (case ov_set (so_token so) v (heap s a) of
       Inl e \<Rightarrow> (Inl e, s, [])
     | Inr o' \<Rightarrow> (Inr (), at_addr a o' s, case so_on_set so of None \<Rightarrow> [] | Some c \<Rightarrow> [c])))"

definition so_clone :: "'c scoped_override \<Rightarrow> 'v ov_state \<Rightarrow> 'v throws" where
  "so_clone so s = (case so_target so of
     None \<Rightarrow> Inl ''ScopedOverride: Not managing any Overrideable instance.''
   | Some a \<Rightarrow> check_has_value (heap s a))"

definition has_target :: "'c scoped_override \<Rightarrow> bool" where "has_target so = (so_target so \<noteq> None)"

definition on_set :: "'c \<Rightarrow> 'c scoped_override \<Rightarrow> 'c scoped_override throws" where
  "on_set c so = (if so_on_set so \<noteq> None
     then Inl ''ScopedOverride: on_set callback has already been set.'' else Inr (so\<lparr> so_on_set := Some c \<rparr>))"

definition on_restore :: "'c \<Rightarrow> 'c scoped_override \<Rightarrow> 'c scoped_override throws" where
  "on_restore c so = (if so_on_restore so \<noteq> None
     then Inl ''ScopedOverride: on_restore callback has already been set.'' else Inr (so\<lparr> so_on_restore := Some c \<rparr>))"

definition on_event :: "'c \<Rightarrow> 'c scoped_override \<Rightarrow> 'c scoped_override throws" where
  "on_event c so = (if so_on_set so \<noteq> None \<or> so_on_restore so \<noteq> None
     then Inl ''ScopedOverride: on_set or on_restore callback has already been set.''
     else Inr (so\<lparr> so_on_set := Some c, so_on_restore := Some c \<rparr>))"

text \<open>The move constructor: the new scope takes over token and target (acquiring what its token
  already owns), then the callbacks, and empties the old one.  Moving from a scope without target
  dereferences a null pointer.\<close>

definition move_scope ::
  "nat \<Rightarrow> 'c scoped_override \<Rightarrow> 'v ov_state
   \<Rightarrow> ('c scoped_override \<times> 'c scoped_override) throws \<times> 'v ov_state" where
  "move_scope thread other s =
     (if thread \<noteq> so_thread other then (Inl ''ScopedOverride: Cannot move ownership across threads.'', s)
      else case so_target other of
        None \<Rightarrow> (Inl ''undefined: null target'', s)
      | Some a \<Rightarrow> (case acquire a ((new_scope thread)\<lparr> so_token := so_token other \<rparr>) s of
          (Inl e, _, s1) \<Rightarrow> (Inl e, s1)
        | (Inr _, so1, s1) \<Rightarrow> (Inr (so1\<lparr> so_on_set := so_on_set other, so_on_restore := so_on_restore other \<rparr>,
             other\<lparr> so_target := None, so_on_set := None, so_on_restore := None \<rparr>), s1)))"

text \<open>The move assignment; \<open>self\<close> says that the two are the same scope.  What the left-hand side managed is
  released first, and stays released if taking over the other target fails.\<close>

definition move_assign ::
  "bool \<Rightarrow> 'c scoped_override \<Rightarrow> 'c scoped_override \<Rightarrow> 'v ov_state
   \<Rightarrow> unit throws \<times> 'c scoped_override \<times> 'c scoped_override \<times> 'v ov_state \<times> 'c list" where
  "move_assign self so other s =
     (if so_thread so \<noteq> so_thread other
      then (Inl ''ScopedOverride: Cannot move ownership across threads.'', so, other, s, [])
      else if self then (Inr (), so, other, s, [])
      else case so_release so s of
        (Inl e, so1, s1, evs) \<Rightarrow> (Inl e, so1, other, s1, evs)
      | (Inr _, so1, s1, evs) \<Rightarrow>
        (case so_target other of
           None \<Rightarrow> (Inl ''undefined: null target'', so1\<lparr> so_token := so_token other \<rparr>, other, s1, evs)
         | Some a \<Rightarrow> (case acquire a (so1\<lparr> so_token := so_token other \<rparr>) s1 of
             (Inl e, so2, s2) \<Rightarrow> (Inl e, so2, other, s2, evs)
           | (Inr _, so2, s2) \<Rightarrow>
               (Inr (), so2\<lparr> so_on_set := so_on_set other, so_on_restore := so_on_restore other \<rparr>,
                other\<lparr> so_target := None, so_on_set := None, so_on_restore := None \<rparr>, s2, evs))))"

definition scope_with :: "addr \<Rightarrow> 'v \<Rightarrow> nat \<Rightarrow> 'v ov_state \<Rightarrow> unit throws \<times> 'c scoped_override \<times> 'v ov_state" where
  "scope_with a v thread s = (case acquire a (new_scope thread) s of
     (Inl e, so, s1) \<Rightarrow> (Inl e, so, s1)
   | (Inr _, so, s1) \<Rightarrow> (case so_set v so s1 of (x, s2, _) \<Rightarrow> (x, so, s2)))"

section \<open>The invariant of a value\<close>

definition ov_inv :: "'v overrideable \<Rightarrow> bool" where
  "ov_inv o' \<longleftrightarrow> (overridden o' \<longleftrightarrow> last_value o' \<noteq> None) \<and> (overridden o' \<longrightarrow> curr_value o' \<noteq> None)"

lemma ov_inv_init [inv_intros]: "ov_inv (Overrideable v)" "ov_inv Overrideable_default"
  by (simp_all add: ov_inv_def Overrideable_def Overrideable_default_def)

lemma ov_inv_ops [inv_intros]:
  assumes "ov_inv o'"
  shows "initialize v o' = Inr o1 \<Longrightarrow> ov_inv o1" "ov_set t v o' = Inr o1 \<Longrightarrow> ov_inv o1"
    "ov_restore t o' = Inr o1 \<Longrightarrow> ov_inv o1" "set_owner t w o' = Inr o1 \<Longrightarrow> ov_inv o1"
    "ov_release t o' = Inr o1 \<Longrightarrow> ov_inv o1"
  using assms
  by (auto simp: ov_inv_def initialize_def ov_set_def ov_restore_def set_owner_def ov_release_def
      bindE_Inr_iff split: if_splits)

section \<open>Competing scopes\<close>

text \<open>Scope \<open>i\<close> has token \<open>i + 1\<close>.  In \<open>set_owner\<close> it sees the value free (at once or after a
  wait), and later writes its token: the write is not protected by the lock.\<close>

datatype own_pc = Outside | SawFree | Holding

inductive own_step :: "token \<times> (nat \<Rightarrow> own_pc) \<Rightarrow> token \<times> (nat \<Rightarrow> own_pc) \<Rightarrow> bool" where
  see: "ow = 0 \<Longrightarrow> pc i = Outside \<Longrightarrow> own_step (ow, pc) (ow, pc(i := SawFree))"
| put_token: "pc i = SawFree \<Longrightarrow> own_step (ow, pc) (of_nat (i + 1), pc(i := Holding))"
| release: "pc i = Holding \<Longrightarrow> ow = of_nat (i + 1) \<Longrightarrow> own_step (ow, pc) (0, pc(i := Outside))"

inductive own_reachable :: "token \<times> (nat \<Rightarrow> own_pc) \<Rightarrow> bool" where
  start: "own_reachable (0, \<lambda>_. Outside)"
| step: "own_reachable s \<Longrightarrow> own_step s s' \<Longrightarrow> own_reachable s'"

section \<open>Properties\<close>

text \<open>C18: A scope restores what it overrode.  On a value that is free and not overridden, acquiring,
  setting \<open>v\<close> and releasing all succeed; in between the value is \<open>v\<close>, owned, and cannot be set a second time nor
  by another token; afterwards the value is as it was before the scope, each callback has
  run once, and no other value was touched.\<close>
theorem scoped_override_restores:
  assumes "curr_value (heap s a) = Some u" "last_value (heap s a) = None" "\<not> overridden (heap s a)"
    and "\<not> owned (heap s a)" "so_target so = None" "so_token so = 0" "next_token s \<noteq> 0"
    and "acquire a so s = (x1, so1, s1)" "so_set v so1 s1 = (x2, s2, ev2)"
    and "so_release so1 s2 = (x3, so3, s3, ev3)"
  shows "x1 = Inr () \<and> x2 = Inr () \<and> x3 = Inr ()
    \<and> ov_value (heap s2 a) = Inr v \<and> owned (heap s2 a)
    \<and> (\<forall>t w. \<not> is_ok (ov_set t w (heap s2 a)))
    \<and> heap s3 = heap s \<and> so_target so3 = None
    \<and> ev2 = (case so_on_set so of None \<Rightarrow> [] | Some c \<Rightarrow> [c])
    \<and> ev3 = (case so_on_restore so of None \<Rightarrow> [] | Some c \<Rightarrow> [c])"
proof -
  let ?t = "next_token s"
  let ?o = "heap s a"
  have o1: "x1 = Inr ()" "so1 = so\<lparr> so_token := ?t, so_target := Some a \<rparr>"
    "s1 = at_addr a (?o\<lparr> owner_token := ?t \<rparr>) (s\<lparr> next_token := ?t + 1 \<rparr>)"
    using assms(4-8) by (auto simp: acquire_def set_owner_def owned_def)
  let ?o2 = "?o\<lparr> owner_token := ?t, last_value := Some u, overridden := True, curr_value := Some v \<rparr>"
  have o2: "x2 = Inr ()" "s2 = at_addr a ?o2 s1" "ev2 = (case so_on_set so of None \<Rightarrow> [] | Some c \<Rightarrow> [c])"
    using assms(1,3,9) by (auto simp: o1 so_set_def ov_set_def check_mutable_def check_overridden_def at_addr_def)
  have same: "?o\<lparr> curr_value := Some u, last_value := None, overridden := False, owner_token := 0 \<rparr> = ?o"
    using assms(1-4) by (simp add: owned_def)
  have o3: "x3 = Inr ()" "so_target so3 = None" "heap s3 = heap s"
      "ev3 = (case so_on_restore so of None \<Rightarrow> [] | Some c \<Rightarrow> [c])"
    using assms(10)
    by (auto simp: o1(2) o2(2) so_release_def at_addr_def ov_restore_def ov_release_def check_mutable_def
        o1(3) same)
  show ?thesis
    using assms(7) o1(1) o2(1,3) o3
    by (simp add: o2(2) at_addr_def ov_value_def check_has_value_def owned_def ov_set_def check_overridden_def
        check_mutable_def bindE_def guardE_def split: sum.splits)
qed

text \<open>Ownership is not exclusive under concurrency: the check that a value is free and the write
  of the token in \<open>set_owner\<close> are not one critical section, so a state is reachable in which two
  scopes have both completed \<open>acquire\<close> on the same value, and the first of them can then
  neither set nor release it.\<close>
theorem acquire_race:
  "\<exists>ow pc o'. own_reachable (ow, pc) \<and> pc 0 = Holding \<and> pc 1 = Holding
     \<and> o' = (Overrideable u)\<lparr> owner_token := ow \<rparr>
     \<and> \<not> is_ok (ov_set (of_nat (0 + 1)) v o') \<and> \<not> is_ok (ov_release (of_nat (0 + 1)) o')"
proof -
  let ?p0 = "\<lambda>_ :: nat. Outside"
  let ?p1 = "?p0(0 := SawFree)"
  let ?p2 = "?p1(1 := SawFree)"
  let ?p3 = "?p2(0 := Holding)"
  let ?p4 = "?p3(1 := Holding)"
  have "own_reachable (0, ?p1)" by (rule own_reachable.step [OF own_reachable.start own_step.see]) auto
  then have "own_reachable (0, ?p2)" by (rule own_reachable.step [OF _ own_step.see]) auto
  then have "own_reachable (of_nat (0 + 1), ?p3)" by (rule own_reachable.step [OF _ own_step.put_token]) auto
  then have "own_reachable (of_nat (1 + 1), ?p4)" by (rule own_reachable.step [OF _ own_step.put_token]) auto
  then show ?thesis
    by (intro exI [of _ "of_nat (1 + 1)"] exI [of _ ?p4])
      (auto simp: ov_set_def ov_release_def check_mutable_def guardE_def)
qed

text \<open>A scope on a value that was default-constructed does not restore it: the value set through
  the scope stays after the release, no restore callback runs, and it may be set any number of
  times within the scope, since the override is only recorded where there was a value before.\<close>
theorem scope_on_empty_value_leaks:
  assumes "heap s a = Overrideable_default" "so_target so = None" "so_token so = 0" "next_token s \<noteq> 0"
    and "acquire a so s = (x1, so1, s1)" "so_set v so1 s1 = (x2, s2, ev2)"
    and "so_release so1 s2 = (x3, so3, s3, ev3)"
  shows "x3 = Inr () \<and> ov_value (heap s3 a) = Inr v \<and> ev3 = [] \<and> is_ok (ov_set (so_token so1) w (heap s2 a))"
proof -
  have o1: "so1 = so\<lparr> so_token := next_token s, so_target := Some a \<rparr>"
    "s1 = at_addr a (Overrideable_default\<lparr> owner_token := next_token s \<rparr>) (s\<lparr> next_token := next_token s + 1 \<rparr>)"
    using assms(1-5) by (auto simp: acquire_def set_owner_def owned_def Overrideable_default_def)
  have o2: "s2 = at_addr a (Overrideable_default\<lparr> owner_token := next_token s, curr_value := Some v \<rparr>) s1"
    using assms(6) by (auto simp: o1 so_set_def ov_set_def check_mutable_def check_overridden_def at_addr_def
        Overrideable_default_def)
  show ?thesis
    using assms(7)
    by (auto simp: o1 o2 so_release_def at_addr_def ov_release_def check_mutable_def Overrideable_default_def
        ov_value_def check_has_value_def ov_set_def check_overridden_def)
qed

section \<open>Witnesses\<close>

definition sample_state :: "nat overrideable \<Rightarrow> nat ov_state" where
  "sample_state o' = \<lparr> heap = (\<lambda>_. o'), next_token = 1 \<rparr>"

theorem scoped_override_restores_witness:
  "let (x1, so1, s1) = acquire 0 ((new_scope 0)\<lparr> so_on_restore := Some ''r'' \<rparr>) (sample_state (Overrideable 3));
       (x2, s2, ev2) = so_set 5 so1 s1; (x3, so3, s3, ev3) = so_release so1 s2
   in ov_value (heap s2 0) = Inr 5 \<and> ov_value (heap s3 0) = Inr 3 \<and> ev3 = [''r'']"
proof -
  let ?so = "(new_scope 0)\<lparr> so_on_restore := Some ''r'' \<rparr>"
  obtain x1 so1 s1 where 1: "acquire 0 ?so (sample_state (Overrideable 3)) = (x1, so1, s1)" by (rule prod_cases3)
  obtain x2 s2 ev2 where 2: "so_set 5 so1 s1 = (x2, s2, ev2)" by (rule prod_cases3)
  obtain x3 so3 s3 ev3 where 3: "so_release so1 s2 = (x3, so3, s3, ev3)" by (rule prod_cases4)
  from scoped_override_restores [OF _ _ _ _ _ _ _ 1 2 3] 1 2 3 show ?thesis
    by (simp add: sample_state_def Overrideable_def new_scope_def owned_def ov_value_def check_has_value_def)
qed

theorem scope_on_empty_value_leaks_witness:
  "let (x1, so1, s1) = acquire 0 (new_scope 0 :: string scoped_override) (sample_state Overrideable_default);
       (x2, s2, ev2) = so_set 5 so1 s1; (x3, so3, s3, ev3) = so_release so1 s2
   in ov_value (heap s3 0) = Inr 5 \<and> ev3 = []"
proof -
  let ?so = "new_scope 0 :: string scoped_override"
  obtain x1 so1 s1 where 1: "acquire 0 ?so (sample_state Overrideable_default) = (x1, so1, s1)" by (rule prod_cases3)
  obtain x2 s2 ev2 where 2: "so_set 5 so1 s1 = (x2, s2, ev2)" by (rule prod_cases3)
  obtain x3 so3 s3 ev3 where 3: "so_release so1 s2 = (x3, so3, s3, ev3)" by (rule prod_cases4)
  from scope_on_empty_value_leaks [OF _ _ _ _ 1 2 3] 1 2 3 show ?thesis
    by (simp add: sample_state_def new_scope_def)
qed

end
