(* ===== verification/Holonomic.thy ===== *)
theory Holonomic
  imports Prelude
begin

text \<open>
  \<open>motion/holonomic_mapping.cc\<close>: the mapping between the full positions of a robot and the
  positions without the mimicking joints.  Vectors are lists of reals (an idealisation of
  doubles); the index maps, ordered by key in the source, are lists in that order.  Drake's plant is
  the record \<open>plant\<close>: the number of positions, the coupler constraints as
  \<open>(position_0, (position_1, gear_ratio, offset))\<close>, and the mask of each model instance with positions.
  A violated \<open>DRAKE_DEMAND\<close> or \<open>DRAKE_THROW_UNLESS\<close> is an error.
\<close>

type_synonym coupler = "nat \<times> nat \<times> real \<times> real"

record plant =
  num_positions :: nat
  couplers :: "coupler list"
  instance_masks :: "(nat \<times> bool list) list"

record instance_map =
  im_start :: nat
  im_count :: nat
  im_free :: "nat list"

record holonomic_mapping =
  hm_n :: nat
  hm_m :: nat
  is_identity :: bool
  mimicking_joints :: "coupler list"
  minimal_to_full :: "nat list"
  hm_instances :: "(nat \<times> instance_map) list"

definition drake_throw :: exn where "drake_throw = ''DRAKE_THROW_UNLESS''"

text \<open>The free (not mimicking) ones of the indices \<open>[0..<n]\<close>, seen from \<open>start\<close>.\<close>

definition free_indices :: "nat list \<Rightarrow> nat \<Rightarrow> nat \<Rightarrow> nat list" where
  "free_indices mim start n = filter (\<lambda>k. start + k \<notin> set mim) [0..<n]"

definition instance_mapping :: "nat list \<Rightarrow> bool list \<Rightarrow> instance_map throws" where
  "instance_mapping mim msk =
     (let start = length (takeWhile Not msk); cnt = length (filter id msk) in
      if \<not> list_all id (take cnt (drop start msk)) then Inl ''Dof mask for model instance is not contiguous''
      else if free_indices mim start cnt = [] then Inl ''DRAKE_DEMAND(j > 0)''
      else Inr \<lparr> im_start = start, im_count = cnt, im_free = free_indices mim start cnt \<rparr>)"

definition HolonomicMapping :: "plant \<Rightarrow> holonomic_mapping throws" where
  "HolonomicMapping p =
     (let n = num_positions p; mim = map fst (couplers p); m = n - length (couplers p) in
      if couplers p = [] then Inr \<lparr> hm_n = n, hm_m = n, is_identity = True, mimicking_joints = [],
          minimal_to_full = [], hm_instances = [] \<rparr>
      else if \<not> distinct mim then Inl drake_throw
      else if length (couplers p) > n \<or> length (free_indices mim 0 n) \<noteq> m then Inl ''DRAKE_DEMAND(j == m_)''
      else bindE (mapE (\<lambda>(i, msk). bindE (instance_mapping mim msk) (\<lambda>im. Inr (i, im))) (instance_masks p)) (\<lambda>ims.
        Inr \<lparr> hm_n = n, hm_m = m, is_identity = False, mimicking_joints = sort_key fst (couplers p),
              minimal_to_full = free_indices mim 0 n, hm_instances = ims \<rparr>))"

section \<open>Operations\<close>

definition Reduce :: "holonomic_mapping \<Rightarrow> real list \<Rightarrow> real list throws" where
  "Reduce h q = (if is_identity h then Inr q
     else if length q \<noteq> hm_n h then Inl drake_throw
     else Inr (map (\<lambda>i. q ! i) (minimal_to_full h)))"

text \<open>The first loop of \<open>Lift\<close> fills in the free joints, the second the mimicking ones in
  the order of their indices, reading the vector as it is then.\<close>

definition fill_free :: "nat list \<Rightarrow> real list \<Rightarrow> real list \<Rightarrow> real list" where
  "fill_free is q v = fold (\<lambda>(i, x) v. v[i := x]) (zip is q) v"

definition mimic_step :: "coupler \<Rightarrow> real list \<Rightarrow> real list" where
  "mimic_step c v = (case c of (i, k, gear, offset) \<Rightarrow> v[i := gear * v ! k + offset])"

definition Lift :: "holonomic_mapping \<Rightarrow> real list \<Rightarrow> real list throws" where
  "Lift h q = (if is_identity h then Inr q
     else if length q \<noteq> hm_m h then Inl drake_throw
     else Inr (fold mimic_step (mimicking_joints h)
            (fill_free (minimal_to_full h) q (replicate (hm_n h) 0))))"

definition LiftedIndex :: "holonomic_mapping \<Rightarrow> nat \<Rightarrow> nat throws" where
  "LiftedIndex h j = (if is_identity h then Inr j
     else if j \<ge> hm_m h then Inl drake_throw else Inr (minimal_to_full h ! j))"

fun index_of :: "nat \<Rightarrow> nat list \<Rightarrow> nat option" where
  "index_of x [] = None"
| "index_of x (y # ys) = (if x = y then Some 0 else map_option Suc (index_of x ys))"

definition ReducedIndex :: "holonomic_mapping \<Rightarrow> nat \<Rightarrow> nat throws" where
  "ReducedIndex h i = (if is_identity h then Inr i
     else if i \<ge> hm_n h then Inl drake_throw
     else if i \<in> fst ` set (mimicking_joints h)
     then Inl ''HolonomicMapping: Full index is a mimicking joint and does not have a corresponding reduced index.''
     else case index_of i (minimal_to_full h) of None \<Rightarrow> Inl ''out_of_range'' | Some j \<Rightarrow> Inr j)"

definition IsMimickingJoint :: "holonomic_mapping \<Rightarrow> nat \<Rightarrow> bool throws" where
  "IsMimickingJoint h i = (if i \<ge> hm_n h then Inl drake_throw else Inr (i \<in> fst ` set (mimicking_joints h)))"

definition MimickingJointIndices :: "holonomic_mapping \<Rightarrow> nat list" where
  "MimickingJointIndices h = map fst (mimicking_joints h)"

definition MimickingJointInfo :: "holonomic_mapping \<Rightarrow> nat \<Rightarrow> (nat \<times> real \<times> real) throws" where
  "MimickingJointInfo h i = (case map_of (mimicking_joints h) i of None \<Rightarrow> Inl ''out_of_range'' | Some t \<Rightarrow> Inr t)"

definition ReduceInstance :: "holonomic_mapping \<Rightarrow> nat \<Rightarrow> real list \<Rightarrow> real list throws" where
  "ReduceInstance h inst q = (if is_identity h then Inr q
     else case map_of (hm_instances h) inst of
         None \<Rightarrow> Inl drake_throw
       | Some im \<Rightarrow>
           if length q \<noteq> im_count im then Inl drake_throw
           else if length (im_free im) = im_count im then Inr q
           else Inr (map (\<lambda>i. q ! i) (im_free im)))"

text \<open>Whether a coupler applies is decided by its mimicked joint alone; writing outside of the
  vector of the instance fails Eigen's range check.\<close>

definition instance_mimic_step :: "instance_map \<Rightarrow> coupler \<Rightarrow> real list \<Rightarrow> real list throws" where
  "instance_mimic_step im c v = (case c of (i, k, gear, offset) \<Rightarrow>
     if im_start im \<le> k \<and> k < im_start im + im_count im
     then (if im_start im \<le> i \<and> i - im_start im < length v
           then Inr (v[i - im_start im := gear * v ! (k - im_start im) + offset])
           else Inl ''Eigen: index out of range'')
     else Inr v)"

definition LiftInstance :: "holonomic_mapping \<Rightarrow> nat \<Rightarrow> real list \<Rightarrow> real list throws" where
  "LiftInstance h inst q = (if is_identity h then Inr q
     else case map_of (hm_instances h) inst of
         None \<Rightarrow> Inl drake_throw
       | Some im \<Rightarrow>
           if length q \<noteq> length (im_free im) then Inl drake_throw
           else if length (im_free im) = im_count im then Inr q
           else foldE (instance_mimic_step im) (mimicking_joints h)
                  (fill_free (im_free im) q (replicate (im_count im) 0)))"

section \<open>Lemmas\<close>

lemma fill_free_length [simp]: "length (fill_free is q v) = length v"
proof -
  have "length (fold (\<lambda>(i, x) v. v[i := x]) ps v) = length v" for ps and v :: "real list"
    by (induction ps arbitrary: v) auto
  then show ?thesis by (simp add: fill_free_def)
qed

lemma fill_free_other: "i \<notin> set is \<Longrightarrow> fill_free is q v ! i = v ! i"
proof (induction "is" arbitrary: q v)
  case (Cons k "is")
  then show ?case by (cases q) (auto simp: fill_free_def)
qed (simp add: fill_free_def)

lemma fill_free_nth:
  assumes "distinct is" "length q = length is" "j < length is" "\<forall>i \<in> set is. i < length v"
  shows "fill_free is q v ! (is ! j) = q ! j"
  using assms
proof (induction "is" arbitrary: q v j)
  case (Cons k "is")
  obtain x xs where q: "q = x # xs" using Cons.prems by (cases q) auto
  have step: "fill_free (k # is) (x # xs) v = fill_free is xs (v[k := x])" by (simp add: fill_free_def)
  show ?case
  proof (cases j)
    case 0
    with Cons.prems show ?thesis by (simp add: q step fill_free_other)
  next
    case (Suc j')
    with Cons.IH [of xs j' "v[k := x]"] Cons.prems q show ?thesis by (simp add: step)
  qed
qed simp

lemma mimic_step_length [simp]: "length (mimic_step c v) = length v"
  by (simp add: mimic_step_def split: prod.split)

lemma fold_mimic_length [simp]: "length (fold mimic_step ms v) = length v"
  by (induction ms arbitrary: v) auto

lemma mimic_step_other: "j \<noteq> fst c \<Longrightarrow> mimic_step c v ! j = v ! j"
  by (cases c) (simp add: mimic_step_def)

lemma fold_mimic_other: "j \<notin> fst ` set ms \<Longrightarrow> fold mimic_step ms v ! j = v ! j"
  by (induction ms arbitrary: v) (auto simp: mimic_step_other)

text \<open>In a list ordered by the mimicking joint, where each mimicked joint is free or comes
  earlier, every coupling holds after the loop.\<close>

lemma fold_mimic_couplings:
  assumes "sorted (map fst ms)" "distinct (map fst ms)"
    and "\<forall>(i, k, g, d) \<in> set ms. i < length v \<and> k \<noteq> i \<and> (k \<in> fst ` set ms \<longrightarrow> k < i)"
    and "(i, k, g, d) \<in> set ms"
  shows "fold mimic_step ms v ! i = g * fold mimic_step ms v ! k + d"
  using assms
proof (induction ms arbitrary: v)
  case (Cons c ms)
  obtain i1 k1 g1 d1 where c: "c = (i1, k1, g1, d1)" by (cases c)
  let ?v = "mimic_step c v"
  have later: "\<forall>x \<in> fst ` set ms. i1 < x"
  proof
    fix x assume x: "x \<in> fst ` set ms"
    then have "i1 \<le> x" "i1 \<noteq> x" using Cons.prems(1,2) c by auto
    then show "i1 < x" by simp
  qed
  show ?case
  proof (cases "(i, k, g, d) = c")
    case True
    then have e: "i = i1" "k = k1" "g = g1" "d = d1" using c by auto
    have "k1 \<notin> fst ` set ms"
    proof
      assume "k1 \<in> fst ` set ms"
      moreover from this Cons.prems(3) c have "k1 < i1" by auto
      ultimately show False using later by force
    qed
    moreover have "i1 \<notin> fst ` set ms" using later by blast
    moreover have "k1 \<noteq> i1" "i1 < length v" using Cons.prems(3) c by auto
    moreover have "?v ! i1 = g1 * ?v ! k1 + d1"
      using \<open>k1 \<noteq> i1\<close> \<open>i1 < length v\<close> by (simp add: c mimic_step_def)
    ultimately show ?thesis using e by (simp add: fold_mimic_other)
  next
    case False
    then have "(i, k, g, d) \<in> set ms" using Cons.prems(4) by auto
    moreover have "\<forall>(i, k, g, d) \<in> set ms. i < length ?v \<and> k \<noteq> i \<and> (k \<in> fst ` set ms \<longrightarrow> k < i)"
      using Cons.prems(3) by auto
    ultimately show ?thesis using Cons.IH [of ?v] Cons.prems(1,2) by simp
  qed
qed simp

lemma index_of_nth: "distinct xs \<Longrightarrow> j < length xs \<Longrightarrow> index_of (xs ! j) xs = Some j"
proof (induction xs arbitrary: j)
  case (Cons x xs)
  then show ?case by (cases j) auto
qed simp

text \<open>What the constructor guarantees.\<close>

definition hm_inv :: "holonomic_mapping \<Rightarrow> bool" where
  "hm_inv h \<longleftrightarrow> is_identity h \<or>
     (sorted (map fst (mimicking_joints h)) \<and> distinct (map fst (mimicking_joints h))
      \<and> minimal_to_full h = filter (\<lambda>i. i \<notin> fst ` set (mimicking_joints h)) [0..<hm_n h]
      \<and> length (minimal_to_full h) = hm_m h)"

lemma HolonomicMapping_inv: "HolonomicMapping p = Inr h \<Longrightarrow> hm_inv h"
  by (auto simp: HolonomicMapping_def hm_inv_def Let_def free_indices_def bindE_Inr_iff
      distinct_map split: if_splits)

lemma HolonomicMapping_couplers:
  "HolonomicMapping p = Inr h \<Longrightarrow> set (mimicking_joints h) = set (couplers p) \<and> hm_n h = num_positions p"
  by (auto simp: HolonomicMapping_def Let_def bindE_Inr_iff split: if_splits)

lemma Lift_free:
  assumes "hm_inv h" "\<not> is_identity h" "length q = hm_m h" "j < hm_m h"
  shows "projr (Lift h q) ! (minimal_to_full h ! j) = q ! j"
proof -
  have i: "minimal_to_full h = filter (\<lambda>i. i \<notin> fst ` set (mimicking_joints h)) [0..<hm_n h]"
    "length (minimal_to_full h) = hm_m h"
    using assms(1,2) by (auto simp: hm_inv_def)
  have "minimal_to_full h ! j \<in> set (minimal_to_full h)" using assms(4) i(2) by simp
  then have "minimal_to_full h ! j \<notin> fst ` set (mimicking_joints h)" using i(1) by auto
  then have "projr (Lift h q) ! (minimal_to_full h ! j)
      = fill_free (minimal_to_full h) q (replicate (hm_n h) 0) ! (minimal_to_full h ! j)"
    using assms(2,3) by (simp add: Lift_def fold_mimic_other)
  also have "\<dots> = q ! j"
    by (rule fill_free_nth) (use assms(3,4) i in auto)
  finally show ?thesis .
qed

text \<open>The couplings of a mapping, and the absence of a joint that mimics a later mimicking joint.\<close>

definition couplers_hold :: "coupler list \<Rightarrow> real list \<Rightarrow> bool" where
  "couplers_hold ms q \<longleftrightarrow> (\<forall>(i, k, g, d) \<in> set ms. q ! i = g * q ! k + d)"

lemma couplers_holdD: "couplers_hold ms q \<Longrightarrow> (i, k, g, d) \<in> set ms \<Longrightarrow> q ! i = g * q ! k + d"
  by (auto simp: couplers_hold_def)

definition well_coupled :: "plant \<Rightarrow> bool" where
  "well_coupled p \<longleftrightarrow> (\<forall>(i, k, g, d) \<in> set (couplers p). i < num_positions p \<and> k < num_positions p
     \<and> k \<noteq> i \<and> (k \<in> fst ` set (couplers p) \<longrightarrow> k < i))"

section \<open>Properties\<close>

text \<open>Lifting a reduced configuration and reducing it again gives it back, for every mapping the
  constructor accepts, and the index maps agree with it: \<open>LiftedIndex\<close> and \<open>ReducedIndex\<close> are
  inverse to each other and say where each reduced position is found.\<close>
theorem reduce_lift_roundtrip:
  assumes "HolonomicMapping p = Inr h" "length q = hm_m h"
  shows "\<exists>v. Lift h q = Inr v \<and> Reduce h v = Inr q
    \<and> (\<not> is_identity h \<longrightarrow> length v = num_positions p)
    \<and> (\<forall>j < hm_m h. \<exists>i. LiftedIndex h j = Inr i \<and> ReducedIndex h i = Inr j \<and> v ! i = q ! j)"
proof (cases "is_identity h")
  case True
  then show ?thesis by (auto simp: Lift_def Reduce_def LiftedIndex_def ReducedIndex_def)
next
  case False
  note inv = HolonomicMapping_inv [OF assms(1)]
  have i: "minimal_to_full h = filter (\<lambda>i. i \<notin> fst ` set (mimicking_joints h)) [0..<hm_n h]"
    "length (minimal_to_full h) = hm_m h"
    using inv False by (auto simp: hm_inv_def)
  obtain v where v: "Lift h q = Inr v" "length v = hm_n h"
    using False assms(2) by (auto simp: Lift_def)
  note nth = Lift_free [OF inv False assms(2), unfolded v(1) sum.sel]
  have "map (\<lambda>i. v ! i) (minimal_to_full h) = q"
    by (rule nth_equalityI) (use assms(2) i(2) nth in auto)
  moreover have "LiftedIndex h j = Inr (minimal_to_full h ! j) \<and> ReducedIndex h (minimal_to_full h ! j) = Inr j"
    if "j < hm_m h" for j
  proof -
    have "minimal_to_full h ! j \<in> set (minimal_to_full h)" using that i(2) by simp
    then have "minimal_to_full h ! j < hm_n h \<and> minimal_to_full h ! j \<notin> fst ` set (mimicking_joints h)"
      by (subst (asm) (2) i(1)) auto
    moreover have "distinct (minimal_to_full h)" by (subst i(1)) simp
    ultimately show ?thesis using that False i(2)
      by (simp add: LiftedIndex_def ReducedIndex_def index_of_nth)
  qed
  ultimately show ?thesis
    using False v HolonomicMapping_couplers [OF assms(1)] nth by (auto simp: Reduce_def)
qed

text \<open>A lifted configuration satisfies every coupler constraint of the plant, provided that no
  joint mimics a joint that itself mimics and has a higher index.\<close>
theorem lift_respects_couplings:
  assumes "HolonomicMapping p = Inr h" "well_coupled p" "length q = hm_m h" "Lift h q = Inr v"
  shows "couplers_hold (couplers p) v"
proof (cases "is_identity h")
  case True
  with assms(1) show ?thesis
    by (auto simp: HolonomicMapping_def Let_def bindE_Inr_iff couplers_hold_def split: if_splits)
next
  case False
  note inv = HolonomicMapping_inv [OF assms(1)]
  have s: "set (mimicking_joints h) = set (couplers p)" "hm_n h = num_positions p"
    using HolonomicMapping_couplers [OF assms(1)] by auto
  have v: "v = fold mimic_step (mimicking_joints h) (fill_free (minimal_to_full h) q (replicate (hm_n h) 0))"
    using assms(3,4) False by (simp add: Lift_def)
  have "\<forall>(i, k, g, d) \<in> set (mimicking_joints h).
      i < length (fill_free (minimal_to_full h) q (replicate (hm_n h) 0)) \<and> k \<noteq> i
      \<and> (k \<in> fst ` set (mimicking_joints h) \<longrightarrow> k < i)"
    using assms(2) s by (auto simp: well_coupled_def)
  from fold_mimic_couplings [OF _ _ this] inv False s v show ?thesis
    by (auto simp: couplers_hold_def hm_inv_def)
qed

text \<open>C17: Without such chains, reducing loses nothing exactly on the configurations that satisfy the
  couplings: for a full configuration \<open>q\<close>, lifting its reduction gives \<open>q\<close> back if and only if \<open>q\<close>
  satisfies every coupler constraint.\<close>
theorem lift_reduce_iff_respects:
  assumes "HolonomicMapping p = Inr h" "well_coupled p" "length q = num_positions p"
  shows "bindE (Reduce h q) (Lift h) = Inr q \<longleftrightarrow> couplers_hold (couplers p) q"
proof (cases "is_identity h")
  case True
  with assms(1) show ?thesis
    by (auto simp: HolonomicMapping_def Let_def bindE_Inr_iff couplers_hold_def Reduce_def Lift_def split: if_splits)
next
  case False
  note inv = HolonomicMapping_inv [OF assms(1)]
  have s: "set (mimicking_joints h) = set (couplers p)" "hm_n h = num_positions p"
    using HolonomicMapping_couplers [OF assms(1)] by auto
  have i: "minimal_to_full h = filter (\<lambda>i. i \<notin> fst ` set (mimicking_joints h)) [0..<hm_n h]"
    "length (minimal_to_full h) = hm_m h"
    using inv False by (auto simp: hm_inv_def)
  let ?r = "map (\<lambda>i. q ! i) (minimal_to_full h)"
  have r: "Reduce h q = Inr ?r" using False assms(3) s by (simp add: Reduce_def)
  obtain v where v: "Lift h ?r = Inr v" "length v = hm_n h" using False i(2) by (auto simp: Lift_def)
  have free: "v ! i = q ! i" if "i < hm_n h" "i \<notin> fst ` set (mimicking_joints h)" for i
  proof -
    from that have "i \<in> set (minimal_to_full h)" by (subst i(1)) simp
    then obtain j where j: "j < hm_m h" "minimal_to_full h ! j = i" using i(2) by (auto simp: in_set_conv_nth)
    from Lift_free [OF inv False _ j(1), of ?r] v(1) i(2) j show ?thesis by simp
  qed
  have rv: "couplers_hold (couplers p) v"
    using lift_respects_couplings [OF assms(1,2) _ v(1)] i(2) by simp
  have "v = q" if q: "couplers_hold (couplers p) q"
  proof (rule nth_equalityI)
    show "length v = length q" using v(2) s(2) assms(3) by simp
    show "v ! i = q ! i" if "i < length v" for i
      using that
    proof (induction i rule: less_induct)
      case (less i)
      show ?case
      proof (cases "i \<in> fst ` set (mimicking_joints h)")
        case False
        then show ?thesis using free less.prems v(2) by simp
      next
        case True
        then obtain k g d where c: "(i, k, g, d) \<in> set (couplers p)" using s(1) by force
        have k: "k < hm_n h" "k \<in> fst ` set (mimicking_joints h) \<longrightarrow> k < i"
          using assms(2) c s by (auto simp: well_coupled_def)
        have "v ! k = q ! k"
          by (cases "k \<in> fst ` set (mimicking_joints h)") (use k less.IH free v(2) in auto)
        then show ?thesis using couplers_holdD [OF rv c] couplers_holdD [OF q c] by simp
      qed
    qed
  qed
  with rv v(1) r show ?thesis by auto
qed

text \<open>With a chain against the order of the indices the lift is wrong: joint 0 mimics joint 1, which
  mimics joint 2; joint 0 is computed from joint 1 before that has its value, and the lifted
  configuration violates the first constraint.\<close>
theorem lift_chain_reads_stale_joint:
  "\<exists>h. HolonomicMapping \<lparr> num_positions = 3, couplers = [(0, 1, 2, 0), (1, 2, 1, 0)],
         instance_masks = [(0, [True, True, True])] \<rparr> = Inr h
     \<and> Lift h [5] = Inr [0, 5, 5] \<and> \<not> couplers_hold [(0, 1, 2, 0), (1, 2, 1, 0)] [0, 5, 5]"
  by (simp add: HolonomicMapping_def Let_def free_indices_def instance_mapping_def numeral_3_eq_3 numeral_2_eq_2 Lift_def
      fill_free_def mimic_step_def couplers_hold_def)

section \<open>Witnesses\<close>

definition sample_plant :: plant where
  "sample_plant = \<lparr> num_positions = 3, couplers = [(2, 0, 2, 1)], instance_masks = [(0, [True, True, True])] \<rparr>"

definition sample_mapping :: holonomic_mapping where
  "sample_mapping = \<lparr> hm_n = 3, hm_m = 2, is_identity = False, mimicking_joints = [(2, 0, 2, 1)],
     minimal_to_full = [0, 1], hm_instances = [(0, \<lparr> im_start = 0, im_count = 3, im_free = [0, 1] \<rparr>)] \<rparr>"

lemma sample_mapping_ok: "HolonomicMapping sample_plant = Inr sample_mapping"
  by (simp add: HolonomicMapping_def sample_plant_def sample_mapping_def Let_def free_indices_def
      instance_mapping_def numeral_3_eq_3 numeral_2_eq_2)

lemma sample_plant_ok: "well_coupled sample_plant"
  by (simp add: well_coupled_def sample_plant_def)

theorem reduce_lift_roundtrip_witness:
  "\<exists>v. Lift sample_mapping [4, 6] = Inr v \<and> Reduce sample_mapping v = Inr [4, 6]"
  using reduce_lift_roundtrip [OF sample_mapping_ok, of "[4, 6]"] by (auto simp: sample_mapping_def)

theorem lift_respects_couplings_witness: "couplers_hold (couplers sample_plant) [4, 6, 9]"
  by (rule lift_respects_couplings [OF sample_mapping_ok sample_plant_ok, of "[4, 6]"])
    (simp_all add: sample_mapping_def Lift_def fill_free_def mimic_step_def numeral_3_eq_3)

theorem lift_reduce_iff_respects_witness:
  "bindE (Reduce sample_mapping [4, 6, 8]) (Lift sample_mapping) \<noteq> Inr [4, 6, 8]"
  using lift_reduce_iff_respects [OF sample_mapping_ok sample_plant_ok, of "[4, 6, 8]"]
  by (simp add: couplers_hold_def sample_plant_def)

end
