(* ===== verification/Geodesic_Math.thy ===== *)
theory Geodesic_Math
  imports Prelude
begin

text \<open>
  \<open>motion/planning/internal/geodesic_math.cc\<close>: angles modulo \<open>2 pi\<close>.  Configurations are lists of
  reals (an idealisation of doubles, so the \<open>floor\<close> is exact), joint indices are naturals, an
  \<open>int\<close> multiple is an \<open>int\<close>.  A \<open>std::map\<close> from joints is the list of its entries in the order of
  the keys.  An axis-aligned box is the pair of its bounds.  A violated \<open>DRAKE_THROW_UNLESS\<close> or
  \<open>DRAKE_DEMAND\<close> and an index outside of an Eigen vector are errors.
\<close>

type_synonym config = "real list"
type_synonym aabb = "config \<times> config"
type_synonym wraps = "(nat \<times> int list) list"
type_synonym wrap_map = "(nat \<times> int) list"

definition drake_error :: exn where "drake_error = ''DRAKE_THROW_UNLESS''"
definition eigen_range :: exn where "eigen_range = ''Eigen: index out of range''"

definition CalcWrapMultiple :: "real \<Rightarrow> real \<Rightarrow> int" where
  "CalcWrapMultiple query ref = - \<lfloor>(query - ref + pi) / (2 * pi)\<rfloor>"

definition turn :: "int \<Rightarrow> real \<Rightarrow> real" where
  "turn k x = x + of_int k * 2 * pi"

definition wrap_joint :: "config \<Rightarrow> nat \<Rightarrow> config \<Rightarrow> config throws" where
  "wrap_joint q_ref j q = (if j < length q
     then Inr (q[j := turn (CalcWrapMultiple (q ! j) (q_ref ! j)) (q ! j)]) else Inl eigen_range)"

definition WrapConfiguration :: "config \<Rightarrow> nat list \<Rightarrow> config \<Rightarrow> config throws" where
  "WrapConfiguration q_ref js q = (if length q \<noteq> length q_ref then Inl drake_error
     else foldE (wrap_joint q_ref) js q)"

definition extend_maps :: "nat \<times> int list \<Rightarrow> wrap_map list \<Rightarrow> wrap_map list throws" where
  "extend_maps e acc = (case e of (j, ws) \<Rightarrow>
     if length ws = 1 \<or> length ws = 2
     then Inr (concat (map (\<lambda>m. map (\<lambda>w. m @ [(j, w)]) ws) acc)) else Inl drake_error)"

definition CartesianProductOfWrapMultiples :: "wraps \<Rightarrow> wrap_map list throws" where
  "CartesianProductOfWrapMultiples ws = foldE extend_maps ws [[]]"

definition emplace_wraps :: "nat \<Rightarrow> 'a \<Rightarrow> (nat \<times> 'a) list \<Rightarrow> (nat \<times> 'a) list" where
  "emplace_wraps j x m = (if j \<in> fst ` set m then m else insort_key fst (j, x) m)"

text \<open>The loop of \<open>CalcWrapMultiplesPerJoint\<close>; \<open>None\<close> is its early return of the empty map.\<close>

fun wraps_loop :: "config \<Rightarrow> aabb \<Rightarrow> bool \<Rightarrow> nat list \<Rightarrow> wraps \<Rightarrow> wraps option throws" where
  "wraps_loop q box ex [] acc = Inr (Some acc)"
| "wraps_loop q box ex (j # js) acc =
     (if j \<ge> length q \<or> j \<ge> length (fst box) \<or> j \<ge> length (snd box) then Inl eigen_range
      else let lo = CalcWrapMultiple (q ! j) (fst box ! j); hi = CalcWrapMultiple (q ! j) (snd box ! j) in
        if lo \<noteq> hi then (if ex then Inr None else wraps_loop q box ex js (emplace_wraps j [lo, hi] acc))
        else wraps_loop q box ex js (emplace_wraps j [lo] acc))"

definition CalcWrapMultiplesPerJoint :: "config \<Rightarrow> aabb \<Rightarrow> nat list \<Rightarrow> bool \<Rightarrow> wraps throws" where
  "CalcWrapMultiplesPerJoint q box js ex = bindE (wraps_loop q box ex js []) (\<lambda>r. case r of
       None \<Rightarrow> Inr []
     | Some m \<Rightarrow> if length m = length js then Inr m else Inl ''DRAKE_DEMAND'')"

fun MultipleWrapsPossible :: "wraps \<Rightarrow> bool throws" where
  "MultipleWrapsPossible [] = Inr False"
| "MultipleWrapsPossible ((j, ws) # rest) =
     (if length ws \<noteq> 1 \<and> length ws \<noteq> 2 then Inl drake_error
      else if length ws = 2 then Inr True else MultipleWrapsPossible rest)"

definition bound_distance :: "real \<Rightarrow> real \<Rightarrow> real \<Rightarrow> real" where
  "bound_distance lb ub x = (if lb < x \<and> x < ub then 0 else min \<bar>x - lb\<bar> \<bar>x - ub\<bar>)"

definition CalcManhattanDistanceToAABB :: "config \<Rightarrow> aabb \<Rightarrow> real throws" where
  "CalcManhattanDistanceToAABB q box = (if length q \<noteq> length (fst box) then Inl drake_error
     else Inr (\<Sum>i \<leftarrow> [0..<length q]. bound_distance (fst box ! i) (snd box ! i) (q ! i)))"

definition apply_wrap :: "nat \<times> int \<Rightarrow> config \<Rightarrow> config throws" where
  "apply_wrap e q = (case e of (j, k) \<Rightarrow>
     if j < length q then Inr (q[j := turn k (q ! j)]) else Inl eigen_range)"

text \<open>\<open>std::sort\<close> leaves the order of configurations at equal distance open; the model takes the
  stable one, and the properties speak of distances only.\<close>

definition CalcSortedWrappedConfigs :: "config \<Rightarrow> aabb \<Rightarrow> wrap_map list \<Rightarrow> config list throws" where
  "CalcSortedWrappedConfigs q box ms =
     bindE (mapE (\<lambda>m. bindE (foldE apply_wrap m q) (\<lambda>v.
               bindE (CalcManhattanDistanceToAABB v box) (\<lambda>d. Inr (d, v)))) ms)
       (\<lambda>ps. Inr (map snd (sort_key fst ps)))"

section \<open>One angle\<close>

lemma wrap_range:
  "- pi \<le> turn (CalcWrapMultiple x r) x - r \<and> turn (CalcWrapMultiple x r) x - r < pi"
proof -
  let ?y = "(x - r + pi) / (2 * pi)"
  have e: "turn (CalcWrapMultiple x r) x - r = (?y - of_int \<lfloor>?y\<rfloor>) * (2 * pi) - pi"
    by (simp add: turn_def CalcWrapMultiple_def field_simps)
  have f: "0 \<le> ?y - of_int \<lfloor>?y\<rfloor>" "?y - of_int \<lfloor>?y\<rfloor> < 1" by linarith+
  have "0 \<le> (?y - of_int \<lfloor>?y\<rfloor>) * (2 * pi)" using f(1) by (intro mult_nonneg_nonneg) auto
  moreover have "(?y - of_int \<lfloor>?y\<rfloor>) * (2 * pi) < 1 * (2 * pi)" using f(2) by (intro mult_strict_right_mono) auto
  ultimately show ?thesis unfolding e by simp
qed

lemma turn_turn: "turn j (turn k x) = turn (j + k) x"
  by (simp add: turn_def algebra_simps)

lemma turn_0 [simp]: "turn 0 x = x"
  by (simp add: turn_def)

lemma turn_far: "j \<noteq> 0 \<Longrightarrow> 2 * pi \<le> \<bar>of_int j * 2 * pi\<bar>"
proof -
  assume "j \<noteq> 0"
  then have "1 \<le> \<bar>j\<bar>" by linarith
  then have "1 \<le> \<bar>of_int j :: real\<bar>" by linarith
  then have "1 * (2 * pi) \<le> \<bar>of_int j\<bar> * (2 * pi)" by (intro mult_right_mono) auto
  then show ?thesis by (simp add: abs_mult)
qed

lemma turns_apart:
  assumes "k \<noteq> m"
  shows "2 * pi \<le> \<bar>turn k x - turn m x\<bar>"
proof -
  have "2 * pi \<le> \<bar>of_int (k - m) * 2 * pi\<bar>" by (rule turn_far) (use assms in simp)
  also have "of_int (k - m) * 2 * pi = turn k x - turn m x" by (simp add: turn_def algebra_simps)
  finally show ?thesis .
qed

lemma wrap_unique:
  assumes "- pi \<le> turn k x - r" "turn k x - r < pi"
  shows "k = CalcWrapMultiple x r"
proof (rule ccontr)
  assume "k \<noteq> CalcWrapMultiple x r"
  from turns_apart [OF this, of x] show False using assms wrap_range [of x r] by linarith
qed

lemma wrap_nearest: "\<bar>turn (CalcWrapMultiple x r) x - r\<bar> \<le> \<bar>turn k x - r\<bar>"
proof (cases "k = CalcWrapMultiple x r")
  case False
  from turns_apart [OF this, of x] show ?thesis using wrap_range [of x r] by linarith
qed simp

text \<open>If the interval is shorter than \<open>pi\<close> and some turn of the angle is in it, both bounds lead to that turn.\<close>

lemma wrap_inside:
  assumes "lb \<le> turn k x" "turn k x \<le> ub" "ub - lb < pi"
  shows "CalcWrapMultiple x lb = k" "CalcWrapMultiple x ub = k"
  using assms pi_gt_zero by (auto intro!: wrap_unique [symmetric])

lemma bound_distance_wrap:
  assumes "ub - lb < pi"
  shows "\<exists>m \<in> {CalcWrapMultiple x lb, CalcWrapMultiple x ub}.
    \<forall>k. bound_distance lb ub (turn m x) \<le> bound_distance lb ub (turn k x)"
proof -
  let ?lo = "CalcWrapMultiple x lb" and ?hi = "CalcWrapMultiple x ub"
  have nonneg: "0 \<le> bound_distance lb ub y" for y by (simp add: bound_distance_def)
  have upper: "bound_distance lb ub y \<le> \<bar>y - lb\<bar>" "bound_distance lb ub y \<le> \<bar>y - ub\<bar>" for y
    by (simp_all add: bound_distance_def)
  show ?thesis
  proof (cases "\<exists>k. lb < turn k x \<and> turn k x < ub")
    case True
    then obtain k where k: "lb < turn k x" "turn k x < ub" by blast
    then have "?lo = k" using wrap_inside(1) [of lb k x ub] assms by simp
    moreover have "bound_distance lb ub (turn k x) = 0" using k by (simp add: bound_distance_def)
    ultimately show ?thesis using nonneg by auto
  next
    case False
    then have eq: "bound_distance lb ub (turn k x) = min \<bar>turn k x - lb\<bar> \<bar>turn k x - ub\<bar>" for k
      by (auto simp: bound_distance_def)
    obtain m where m: "m \<in> {?lo, ?hi}"
        "bound_distance lb ub (turn m x) \<le> \<bar>turn ?lo x - lb\<bar>"
        "bound_distance lb ub (turn m x) \<le> \<bar>turn ?hi x - ub\<bar>"
    proof (cases "\<bar>turn ?lo x - lb\<bar> \<le> \<bar>turn ?hi x - ub\<bar>")
      case True
      with that [of ?lo] upper(1) [of "turn ?lo x"] show ?thesis by simp
    next
      case False
      with that [of ?hi] upper(2) [of "turn ?hi x"] show ?thesis by simp
    qed
    have "bound_distance lb ub (turn m x) \<le> bound_distance lb ub (turn k x)" for k
      using m(2,3) wrap_nearest [of x lb k] wrap_nearest [of x ub k] by (simp add: eq)
    then show ?thesis using m(1) by blast
  qed
qed

section \<open>The maps of multiples\<close>

definition choices :: "config \<Rightarrow> aabb \<Rightarrow> nat \<Rightarrow> int list" where
  "choices q box j = (let lo = CalcWrapMultiple (q ! j) (fst box ! j); hi = CalcWrapMultiple (q ! j) (snd box ! j)
     in if lo \<noteq> hi then [lo, hi] else [lo])"

lemma choices_length: "length (choices q box j) = 1 \<or> length (choices q box j) = 2"
  by (simp add: choices_def Let_def)

text \<open>A query is well formed when the box has its dimension and the joints are distinct positions.\<close>

definition joints_ok :: "config \<Rightarrow> aabb \<Rightarrow> nat list \<Rightarrow> bool" where
  "joints_ok q box js \<longleftrightarrow> length (fst box) = length q \<and> length (snd box) = length q
     \<and> distinct js \<and> (\<forall>j \<in> set js. j < length q)"

lemma insort_key_Pair: "set (insort_key fst (j, x) m) = insert (j, x) (set m)"
  "length (insort_key fst (j, x) m) = Suc (length m)"
  by (simp_all add: set_insort_key length_insort)

lemma distinct_insort_fst:
  "distinct (map fst m) \<Longrightarrow> j \<notin> fst ` set m \<Longrightarrow> distinct (map fst (insort_key fst (j, x) m))"
  by (induction m) (auto simp: set_insort_key)

lemma wraps_loop_ok:
  assumes "distinct js" "\<forall>j \<in> set js. j < length q \<and> j < length (fst box) \<and> j < length (snd box)"
    and "\<forall>j \<in> set js. j \<notin> fst ` set acc" "distinct (map fst acc)"
  shows "wraps_loop q box ex js acc = Inr None \<and> ex \<and> (\<exists>j \<in> set js. length (choices q box j) = 2)
    \<or> (\<exists>r. wraps_loop q box ex js acc = Inr (Some r)
       \<and> set r = set acc \<union> (\<lambda>j. (j, choices q box j)) ` set js
       \<and> distinct (map fst r) \<and> length r = length acc + length js
       \<and> (ex \<longrightarrow> (\<forall>j \<in> set js. length (choices q box j) = 1)))"
  using assms
proof (induction js arbitrary: acc)
  case (Cons j js)
  let ?acc = "insort_key fst (j, choices q box j) acc"
  have nj: "j \<notin> fst ` set acc" using Cons.prems(3) by simp
  have IH: "wraps_loop q box ex js ?acc = Inr None \<and> ex \<and> (\<exists>j \<in> set js. length (choices q box j) = 2)
    \<or> (\<exists>r. wraps_loop q box ex js ?acc = Inr (Some r)
       \<and> set r = set ?acc \<union> (\<lambda>j. (j, choices q box j)) ` set js
       \<and> distinct (map fst r) \<and> length r = length ?acc + length js
       \<and> (ex \<longrightarrow> (\<forall>j \<in> set js. length (choices q box j) = 1)))"
    by (rule Cons.IH)
      (use Cons.prems nj in \<open>auto simp: insort_key_Pair intro!: distinct_insort_fst\<close>)
  have e: "wraps_loop q box ex (j # js) acc
      = (if ex \<and> length (choices q box j) = 2 then Inr None else wraps_loop q box ex js ?acc)"
  proof -
    have r: "\<not> (j \<ge> length q \<or> j \<ge> length (fst box) \<or> j \<ge> length (snd box))" using Cons.prems(2) by auto
    show ?thesis
      by (cases "CalcWrapMultiple (q ! j) (fst box ! j) = CalcWrapMultiple (q ! j) (snd box ! j)")
        (use r nj in \<open>simp_all add: choices_def Let_def emplace_wraps_def\<close>)
  qed
  show ?case
  proof (cases "ex \<and> length (choices q box j) = 2")
    case True
    then show ?thesis unfolding e by simp
  next
    case False
    then have "ex \<longrightarrow> length (choices q box j) = 1" using choices_length [of q box j] by blast
    with IH False show ?thesis by (auto simp: e insort_key_Pair simp del: wraps_loop.simps)
  qed
qed simp

lemma CalcWrapMultiplesPerJoint_cases:
  assumes "joints_ok q box js"
  shows "(ex \<and> CalcWrapMultiplesPerJoint q box js ex = Inr [] \<and> (\<exists>j \<in> set js. length (choices q box j) = 2))
    \<or> (\<exists>r. CalcWrapMultiplesPerJoint q box js ex = Inr r
       \<and> set r = (\<lambda>j. (j, choices q box j)) ` set js \<and> distinct (map fst r)
       \<and> (ex \<longrightarrow> (\<forall>j \<in> set js. length (choices q box j) = 1)))"
proof -
  have "distinct js" "\<forall>j \<in> set js. j < length q \<and> j < length (fst box) \<and> j < length (snd box)"
    using assms by (auto simp: joints_ok_def)
  from wraps_loop_ok [OF this, of "[]" ex] show ?thesis
    by (auto simp: CalcWrapMultiplesPerJoint_def)
qed

text \<open>The selections from a map of multiples.\<close>

definition selects :: "wraps \<Rightarrow> wrap_map \<Rightarrow> bool" where
  "selects ws m = list_all2 (\<lambda>(j, ks) (j', k). j' = j \<and> k \<in> set ks) ws m"

lemma selects_simps [simp]:
  "selects [] m \<longleftrightarrow> m = []"
  "selects ((j, ks) # ws) m \<longleftrightarrow> (\<exists>k m'. m = (j, k) # m' \<and> k \<in> set ks \<and> selects ws m')"
  by (auto simp: selects_def list_all2_Cons1)

lemma extend_maps_fold:
  assumes "\<forall>(j, ks) \<in> set ws. length ks = 1 \<or> length ks = 2"
  shows "\<exists>ms. foldE extend_maps ws acc = Inr ms \<and> set ms = {a @ m |a m. a \<in> set acc \<and> selects ws m}
    \<and> length ms = length acc * prod_list (map (\<lambda>e. length (snd e)) ws)"
  using assms
proof (induction ws arbitrary: acc)
  case (Cons e ws)
  obtain j ks where e: "e = (j, ks)" by (cases e)
  define acc' where "acc' = concat (map (\<lambda>m. map (\<lambda>w. m @ [(j, w)]) ks) acc)"
  have step: "extend_maps e acc = Inr acc'" using Cons.prems by (auto simp: extend_maps_def e acc'_def)
  have set': "set acc' = {a @ [(j, k)] |a k. a \<in> set acc \<and> k \<in> set ks}" by (auto simp: acc'_def)
  have len': "length acc' = length acc * length ks"
    by (simp add: acc'_def length_concat comp_def sum_list_triv)
  obtain ms where ms: "foldE extend_maps ws acc' = Inr ms"
      "set ms = {a @ m |a m. a \<in> set acc' \<and> selects ws m}"
      "length ms = length acc' * prod_list (map (\<lambda>e. length (snd e)) ws)"
    using Cons.IH [of acc'] Cons.prems by auto
  have "set ms = {a @ m |a m. a \<in> set acc \<and> selects (e # ws) m}"
    unfolding ms(2) set' e selects_simps
    by (rule set_eqI) (simp, metis append.assoc append_Cons append_Nil)
  with ms step len' show ?case by (simp add: e ac_simps)
qed auto

lemma apply_wrap_fold:
  assumes "distinct (map fst m)" "\<forall>(j, k) \<in> set m. j < length q"
  shows "\<exists>v. foldE apply_wrap m q = Inr v \<and> length v = length q
    \<and> (\<forall>i < length q. v ! i = (case map_of m i of None \<Rightarrow> q ! i | Some k \<Rightarrow> turn k (q ! i)))"
  using assms
proof (induction m arbitrary: q)
  case (Cons e m)
  obtain j k where e: "e = (j, k)" by (cases e)
  let ?q = "q[j := turn k (q ! j)]"
  obtain v where v: "foldE apply_wrap m ?q = Inr v" "length v = length q"
    "\<forall>i < length q. v ! i = (case map_of m i of None \<Rightarrow> ?q ! i | Some k \<Rightarrow> turn k (?q ! i))"
    using Cons.IH [of ?q] Cons.prems e by auto
  have none: "map_of m j = None" using Cons.prems(1) e by (simp add: map_of_eq_None_iff)
  have "foldE apply_wrap (e # m) q = Inr v" using v(1) Cons.prems(2) by (simp add: e apply_wrap_def)
  moreover have "v ! i = (case map_of (e # m) i of None \<Rightarrow> q ! i | Some k \<Rightarrow> turn k (q ! i))"
    if "i < length q" for i
    using v(3) that none by (cases "i = j") (simp_all add: e split: option.split)
  ultimately show ?case using v(2) by blast
qed simp

section \<open>Properties\<close>

text \<open>Configurations equal up to full turns of the given joints.\<close>

definition same_up_to_turns :: "nat list \<Rightarrow> config \<Rightarrow> config \<Rightarrow> bool" where
  "same_up_to_turns js q v \<longleftrightarrow> length v = length q
     \<and> (\<forall>i < length q. if i \<in> set js then \<exists>k. v ! i = turn k (q ! i) else v ! i = q ! i)"

lemma same_up_to_turnsE:
  assumes "same_up_to_turns js q v"
  obtains t where "\<forall>i < length q. v ! i = (if i \<in> set js then turn (t i) (q ! i) else q ! i)" "length v = length q"
proof -
  have "\<forall>i. \<exists>k. i < length q \<longrightarrow> v ! i = (if i \<in> set js then turn k (q ! i) else q ! i)"
    using assms by (auto simp: same_up_to_turns_def)
  then obtain t where "\<forall>i. i < length q \<longrightarrow> v ! i = (if i \<in> set js then turn (t i) (q ! i) else q ! i)" by metis
  then show ?thesis using that [of t] assms unfolding same_up_to_turns_def by blast
qed

definition inside :: "config \<Rightarrow> aabb \<Rightarrow> bool" where
  "inside q box \<longleftrightarrow> (\<forall>i < length q. fst box ! i \<le> q ! i \<and> q ! i \<le> snd box ! i)"

definition narrow :: "aabb \<Rightarrow> nat list \<Rightarrow> bool" where
  "narrow box js \<longleftrightarrow> (\<forall>j \<in> set js. snd box ! j - fst box ! j < pi)"

lemma selects_best:
  assumes "list_all (\<lambda>(j, ks). f j \<in> set ks) ws"
  shows "selects ws (map (\<lambda>e. (fst e, f (fst e))) ws)"
  using assms by (induction ws) auto

lemma selects_keys: "selects ws m \<Longrightarrow> map fst m = map fst ws"
  by (induction ws arbitrary: m) auto

text \<open>The configurations of the pipeline that \<open>iris_inspector.cc\<close> runs: the multiples per joint,
  their combinations, the sorted wrapped configurations.\<close>

definition wrapped_candidates :: "config \<Rightarrow> aabb \<Rightarrow> nat list \<Rightarrow> config list throws" where
  "wrapped_candidates q box js = bindE (CalcWrapMultiplesPerJoint q box js False) (\<lambda>ws.
     bindE (CartesianProductOfWrapMultiples ws) (CalcSortedWrappedConfigs q box))"

definition dist_to :: "aabb \<Rightarrow> config \<Rightarrow> real" where
  "dist_to box v = projr (CalcManhattanDistanceToAABB v box)"

lemma dist_to_eq:
  "length v = length (fst box) \<Longrightarrow> CalcManhattanDistanceToAABB v box = Inr (dist_to box v)
     \<and> dist_to box v = (\<Sum>i \<leftarrow> [0..<length v]. bound_distance (fst box ! i) (snd box ! i) (v ! i))"
  by (simp add: dist_to_def CalcManhattanDistanceToAABB_def)

lemma CalcSorted_ok:
  assumes "\<And>m. m \<in> set ms \<Longrightarrow> foldE apply_wrap m q = Inr (g m) \<and> length (g m) = length (fst box)"
  shows "\<exists>vs. CalcSortedWrappedConfigs q box ms = Inr vs \<and> set vs = g ` set ms
    \<and> sorted (map (dist_to box) vs) \<and> length vs = length ms"
proof -
  let ?ps = "map (\<lambda>m. (dist_to box (g m), g m)) ms"
  have "mapE (\<lambda>m. bindE (foldE apply_wrap m q) (\<lambda>v. bindE (CalcManhattanDistanceToAABB v box) (\<lambda>d. Inr (d, v)))) ms
    = Inr ?ps"
    by (rule mapE_total) (simp add: assms dist_to_eq)
  then have 1: "CalcSortedWrappedConfigs q box ms = Inr (map snd (sort_key fst ?ps))"
    by (simp add: CalcSortedWrappedConfigs_def)
  have "map (dist_to box) (map snd (sort_key fst ?ps)) = map fst (sort_key fst ?ps)"
    unfolding map_map by (rule map_cong) auto
  then have 2: "sorted (map (dist_to box) (map snd (sort_key fst ?ps)))" by (simp only: sorted_sort_key)
  show ?thesis
    by (intro exI conjI, rule 1, force, rule 2, simp)
qed

lemma candidates_ok:
  assumes "joints_ok q box js"
  shows "\<exists>vs. wrapped_candidates q box js = Inr vs \<and> sorted (map (dist_to box) vs)
    \<and> (\<forall>v \<in> set vs. same_up_to_turns js q v)
    \<and> (\<forall>f. (\<forall>j \<in> set js. f j \<in> set (choices q box j)) \<longrightarrow>
         (\<exists>v \<in> set vs. \<forall>i < length q. v ! i = (if i \<in> set js then turn (f i) (q ! i) else q ! i)))"
proof -
  obtain ws where ws: "CalcWrapMultiplesPerJoint q box js False = Inr ws"
      "set ws = (\<lambda>j. (j, choices q box j)) ` set js" "distinct (map fst ws)"
    using CalcWrapMultiplesPerJoint_cases [OF assms, of False] by auto
  have "\<forall>(j, ks) \<in> set ws. length ks = 1 \<or> length ks = 2" using choices_length by (auto simp: ws(2))
  from extend_maps_fold [OF this, of "[[]]"]
  obtain ms where m: "foldE extend_maps ws [[]] = Inr ms" "set ms = {a @ m |a m. a \<in> set [[]] \<and> selects ws m}"
    by blast
  have ms: "CartesianProductOfWrapMultiples ws = Inr ms" "set ms = {m. selects ws m}"
    by (simp only: CartesianProductOfWrapMultiples_def m(1)) (simp add: m(2))
  have keys: "fst ` set ws = set js" by (simp add: ws(2) image_image)
  have g: "\<exists>v. foldE apply_wrap m q = Inr v \<and> length v = length q
      \<and> (\<forall>i < length q. v ! i = (case map_of m i of None \<Rightarrow> q ! i | Some k \<Rightarrow> turn k (q ! i)))"
    "(map_of m i = None) = (i \<notin> set js)"
    if "selects ws m" for m i
  proof -
    have k: "map fst m = map fst ws" using that by (rule selects_keys)
    then have ks: "fst ` set m = set js" using keys by (metis list.set_map)
    show "(map_of m i = None) = (i \<notin> set js)" by (simp add: map_of_eq_None_iff ks)
    have "\<forall>(j, k) \<in> set m. j < length q" using assms ks by (force simp: joints_ok_def)
    then show "\<exists>v. foldE apply_wrap m q = Inr v \<and> length v = length q
      \<and> (\<forall>i < length q. v ! i = (case map_of m i of None \<Rightarrow> q ! i | Some k \<Rightarrow> turn k (q ! i)))"
      by (intro apply_wrap_fold) (simp_all add: k ws(3))
  qed
  define g where "g m = projr (foldE apply_wrap m q)" for m
  have g1: "foldE apply_wrap m q = Inr (g m)" "length (g m) = length q"
      "\<And>i. i < length q \<Longrightarrow> g m ! i = (case map_of m i of None \<Rightarrow> q ! i | Some k \<Rightarrow> turn k (q ! i))"
    if "selects ws m" for m
    using g(1) [OF that] by (auto simp: g_def)
  obtain vs where vs: "CalcSortedWrappedConfigs q box ms = Inr vs" "set vs = g ` set ms"
      "sorted (map (dist_to box) vs)"
  proof -
    have "foldE apply_wrap m q = Inr (g m) \<and> length (g m) = length (fst box)" if "m \<in> set ms" for m
      using g1(1,2) [of m] that assms by (simp add: ms(2) joints_ok_def)
    from CalcSorted_ok [OF this] show ?thesis using that by blast
  qed
  have "same_up_to_turns js q v" if v: "v \<in> set vs" for v
  proof -
    obtain m where m: "selects ws m" "v = g m" using v vs(2) ms(2) by auto
    have "if i \<in> set js then \<exists>k. v ! i = turn k (q ! i) else v ! i = q ! i" if "i < length q" for i
      using g1(3) [OF m(1) that] g(2) [OF m(1), of i] m(2) by (auto split: option.splits)
    moreover have "length v = length q" using g1(2) [OF m(1)] m(2) by simp
    ultimately show ?thesis unfolding same_up_to_turns_def by blast
  qed
  moreover have "\<exists>v \<in> set vs. \<forall>i < length q. v ! i = (if i \<in> set js then turn (f i) (q ! i) else q ! i)"
    if f: "\<forall>j \<in> set js. f j \<in> set (choices q box j)" for f
  proof -
    let ?m = "map (\<lambda>e. (fst e, f (fst e))) ws"
    have s: "selects ws ?m" by (rule selects_best) (use f ws(2) in \<open>auto simp: list_all_iff\<close>)
    have "map_of ?m i = (if i \<in> set js then Some (f i) else None)" for i
    proof -
      have "?m = map (\<lambda>j. (j, f j)) (map fst ws)" by simp
      then have "map_of ?m = (Some \<circ> f) |` set (map fst ws)" by (simp only: map_of_map_restrict)
      then show ?thesis using keys by (simp add: restrict_map_def)
    qed
    then have "\<forall>i < length q. g ?m ! i = (if i \<in> set js then turn (f i) (q ! i) else q ! i)"
      using g1(3) [OF s] by simp
    then show ?thesis using s vs(2) ms(2) by blast
  qed
  moreover have "wrapped_candidates q box js = Inr vs" using ws(1) ms(1) vs(1) by (simp add: wrapped_candidates_def)
  ultimately show ?thesis using vs(3) by blast
qed

text \<open>When every joint has one multiple only, giving up early changes nothing and there is one candidate.\<close>

lemma wraps_loop_single:
  "\<forall>j \<in> set js. length (choices q box j) = 1 \<Longrightarrow> wraps_loop q box True js acc = wraps_loop q box False js acc"
  by (induction js arbitrary: acc) (auto simp: choices_def Let_def)

lemma single_candidate:
  assumes "joints_ok q box js" "\<forall>j \<in> set js. choices q box j = [t j]"
  shows "\<exists>ws m v. CalcWrapMultiplesPerJoint q box js ex = Inr ws \<and> fst ` set ws = set js
    \<and> CartesianProductOfWrapMultiples ws = Inr [m] \<and> foldE apply_wrap m q = Inr v
    \<and> length v = length q \<and> (\<forall>i < length q. v ! i = (if i \<in> set js then turn (t i) (q ! i) else q ! i))
    \<and> CalcSortedWrappedConfigs q box [m] = Inr [v]"
proof -
  obtain ws where ws: "CalcWrapMultiplesPerJoint q box js ex = Inr ws"
      "set ws = (\<lambda>j. (j, choices q box j)) ` set js" "distinct (map fst ws)"
    using CalcWrapMultiplesPerJoint_cases [OF assms(1), of ex] assms(2) by auto
  let ?m = "map (\<lambda>j. (j, t j)) (map fst ws)"
  have one: "\<forall>e \<in> set ws. snd e = [t (fst e)]" using assms(2) by (auto simp: ws(2))
  then have "foldE extend_maps ws [a] = Inr [a @ map (\<lambda>j. (j, t j)) (map fst ws)]" for a
    by (induction ws arbitrary: a) (auto simp: extend_maps_def)
  then have cart: "CartesianProductOfWrapMultiples ws = Inr [?m]"
    by (simp add: CartesianProductOfWrapMultiples_def)
  have keys: "fst ` set ws = set js" by (simp add: ws(2) image_image)
  have "distinct (map fst ?m)" using ws(3) by (simp add: comp_def)
  moreover have "\<forall>(j, k) \<in> set ?m. j < length q" using assms(1) keys by (auto simp: joints_ok_def)
  ultimately obtain v where v: "foldE apply_wrap ?m q = Inr v" "length v = length q"
      "\<forall>i < length q. v ! i = (case map_of ?m i of None \<Rightarrow> q ! i | Some k \<Rightarrow> turn k (q ! i))"
    using apply_wrap_fold by blast
  have "map_of ?m i = (if i \<in> set js then Some (t i) else None)" for i
    using keys by (simp only: map_of_map_restrict) (simp add: restrict_map_def)
  then have "\<forall>i < length q. v ! i = (if i \<in> set js then turn (t i) (q ! i) else q ! i)" using v(3) by simp
  moreover have "CalcSortedWrappedConfigs q box [?m] = Inr [v]"
    using v(1,2) assms(1) by (simp add: CalcSortedWrappedConfigs_def CalcManhattanDistanceToAABB_def joints_ok_def)
  ultimately show ?thesis using ws(1) keys cart v(1,2) by blast
qed

text \<open>If some turn of \<open>q\<close> is inside a narrow box, its multiples are the only ones.\<close>

lemma inside_choice:
  assumes "joints_ok q box js" "narrow box js" "same_up_to_turns js q u" "inside u box"
  shows "\<exists>t. (\<forall>j \<in> set js. choices q box j = [t j])
    \<and> (\<forall>i < length q. u ! i = (if i \<in> set js then turn (t i) (q ! i) else q ! i)) \<and> length u = length q"
proof -
  obtain t where t: "\<forall>i < length q. u ! i = (if i \<in> set js then turn (t i) (q ! i) else q ! i)" "length u = length q"
    using assms(3) by (rule same_up_to_turnsE)
  have "choices q box j = [t j]" if j: "j \<in> set js" for j
  proof -
    have "j < length q" using assms(1) j by (simp add: joints_ok_def)
    then have "fst box ! j \<le> turn (t j) (q ! j)" "turn (t j) (q ! j) \<le> snd box ! j" "snd box ! j - fst box ! j < pi"
      using assms(2,4) t j by (auto simp: inside_def narrow_def)
    from wrap_inside [OF this] show ?thesis by (simp add: choices_def)
  qed
  with t show ?thesis by blast
qed

text \<open>Wrapping brings every continuous joint within \<open>pi\<close> of the reference by full turns and leaves
  the other joints as they are.\<close>
theorem wrap_configuration_within_pi:
  assumes "length q = length q_ref" "distinct js" "\<forall>j \<in> set js. j < length q"
  shows "\<exists>v. WrapConfiguration q_ref js q = Inr v \<and> same_up_to_turns js q v
    \<and> (\<forall>j \<in> set js. \<bar>v ! j - q_ref ! j\<bar> \<le> pi)"
proof -
  have "\<exists>v. foldE (wrap_joint q_ref) js q = Inr v \<and> length v = length q
    \<and> (\<forall>i < length q. v ! i = (if i \<in> set js then turn (CalcWrapMultiple (q ! i) (q_ref ! i)) (q ! i) else q ! i))"
    using assms(2,3)
  proof (induction js arbitrary: q)
    case (Cons j js)
    let ?q = "q[j := turn (CalcWrapMultiple (q ! j) (q_ref ! j)) (q ! j)]"
    obtain v where v: "foldE (wrap_joint q_ref) js ?q = Inr v" "length v = length q"
      "\<forall>i < length q. v ! i = (if i \<in> set js then turn (CalcWrapMultiple (?q ! i) (q_ref ! i)) (?q ! i) else ?q ! i)"
      using Cons.IH [of ?q] Cons.prems by auto
    have "foldE (wrap_joint q_ref) (j # js) q = Inr v" using v(1) Cons.prems(2) by (simp add: wrap_joint_def)
    moreover have "v ! i = (if i \<in> set (j # js) then turn (CalcWrapMultiple (q ! i) (q_ref ! i)) (q ! i) else q ! i)"
      if "i < length q" for i
      using v(3) that Cons.prems(1) by (cases "i = j") simp_all
    ultimately show ?case using v(2) by blast
  qed simp
  then obtain v where v: "foldE (wrap_joint q_ref) js q = Inr v" "length v = length q"
    "\<forall>i < length q. v ! i = (if i \<in> set js then turn (CalcWrapMultiple (q ! i) (q_ref ! i)) (q ! i) else q ! i)"
    by blast
  have "\<bar>v ! j - q_ref ! j\<bar> \<le> pi" if "j \<in> set js" for j
    using v(3) that assms(3) wrap_range [of "q ! j" "q_ref ! j"] by auto
  moreover have "same_up_to_turns js q v" using v(2,3) by (auto simp: same_up_to_turns_def)
  ultimately show ?thesis using v(1) assms(1) by (auto simp: WrapConfiguration_def)
qed

text \<open>C8: The first candidate is the best one.  If the box is narrower than \<open>pi\<close> in the continuous
  joints, the candidates are the configurations from full turns in the sense that each is one, they
  come in the order of their distance to the box, and no configuration that differs from \<open>q\<close> by
  any numbers of full turns is closer to the box than the first.\<close>
theorem nearest_candidate_first:
  assumes "joints_ok q box js" "narrow box js"
  shows "\<exists>v vs. wrapped_candidates q box js = Inr (v # vs) \<and> sorted (map (dist_to box) (v # vs))
    \<and> (\<forall>u \<in> set (v # vs). same_up_to_turns js q u)
    \<and> (\<forall>u. same_up_to_turns js q u \<longrightarrow> dist_to box v \<le> dist_to box u)"
proof -
  obtain vs where vs: "wrapped_candidates q box js = Inr vs" "sorted (map (dist_to box) vs)"
      "\<forall>v \<in> set vs. same_up_to_turns js q v"
      "\<And>f. \<forall>j \<in> set js. f j \<in> set (choices q box j) \<Longrightarrow>
         \<exists>v \<in> set vs. \<forall>i < length q. v ! i = (if i \<in> set js then turn (f i) (q ! i) else q ! i)"
    using candidates_ok [OF assms(1)] by blast
  let ?d = "\<lambda>j. bound_distance (fst box ! j) (snd box ! j)"
  have "\<forall>j. \<exists>m. j \<in> set js \<longrightarrow> m \<in> set (choices q box j) \<and> (\<forall>k. ?d j (turn m (q ! j)) \<le> ?d j (turn k (q ! j)))"
  proof
    fix j
    show "\<exists>m. j \<in> set js \<longrightarrow> m \<in> set (choices q box j) \<and> (\<forall>k. ?d j (turn m (q ! j)) \<le> ?d j (turn k (q ! j)))"
      using assms(2) bound_distance_wrap [of "snd box ! j" "fst box ! j" "q ! j"]
      by (cases "j \<in> set js") (auto simp: narrow_def choices_def Let_def)
  qed
  then obtain f where f: "\<And>j. j \<in> set js \<Longrightarrow> f j \<in> set (choices q box j)"
      "\<And>j k. j \<in> set js \<Longrightarrow> ?d j (turn (f j) (q ! j)) \<le> ?d j (turn k (q ! j))"
    by metis
  obtain b where b: "b \<in> set vs" "\<forall>i < length q. b ! i = (if i \<in> set js then turn (f i) (q ! i) else q ! i)"
    using vs(4) f(1) by blast
  have dim: "length (fst box) = length q" using assms(1) by (simp add: joints_ok_def)
  have best: "dist_to box b \<le> dist_to box u" if u: "same_up_to_turns js q u" for u
  proof -
    obtain t where t: "\<forall>i < length q. u ! i = (if i \<in> set js then turn (t i) (q ! i) else q ! i)" "length u = length q"
      using u by (rule same_up_to_turnsE)
    have "length b = length q" using vs(3) b(1) by (simp add: same_up_to_turns_def)
    moreover have "(\<Sum>i \<leftarrow> [0..<length q]. ?d i (b ! i)) \<le> (\<Sum>i \<leftarrow> [0..<length q]. ?d i (u ! i))"
      by (rule sum_list_mono) (use b(2) t(1) f(2) in simp)
    ultimately show ?thesis using t(2) dim by (simp add: dist_to_eq)
  qed
  obtain v ws where c: "vs = v # ws" using b(1) by (cases vs) auto
  have "dist_to box v \<le> dist_to box b" using vs(2) b(1) c by auto
  then show ?thesis using vs(1-3) best c by (metis order_trans)
qed

text \<open>Giving up early is sound and complete for inclusion.  For a box narrower than \<open>pi\<close> in the continuous joints,
  when \<open>CalcWrapMultiplesPerJoint\<close> is asked to stop as soon as being inside is impossible: if it gives up, no
  configuration that differs from \<open>q\<close> by full turns is inside the box; and if one is inside, it does not give up and its only combination
  of multiples leads to that configuration.\<close>
theorem early_exit_exact:
  assumes "joints_ok q box js" "narrow box js" "js \<noteq> []" "same_up_to_turns js q u" "inside u box"
  shows "\<exists>ws m. CalcWrapMultiplesPerJoint q box js True = Inr ws \<and> ws \<noteq> []
    \<and> CartesianProductOfWrapMultiples ws = Inr [m] \<and> foldE apply_wrap m q = Inr u"
proof -
  obtain t where t: "\<forall>j \<in> set js. choices q box j = [t j]"
      "\<forall>i < length q. u ! i = (if i \<in> set js then turn (t i) (q ! i) else q ! i)" "length u = length q"
    using inside_choice [OF assms(1,2,4,5)] by blast
  obtain ws m v where w: "CalcWrapMultiplesPerJoint q box js True = Inr ws" "fst ` set ws = set js"
      "CartesianProductOfWrapMultiples ws = Inr [m]" "foldE apply_wrap m q = Inr v" "length v = length q"
      "\<forall>i < length q. v ! i = (if i \<in> set js then turn (t i) (q ! i) else q ! i)"
    using single_candidate [OF assms(1) t(1), of True] by blast
  have "v = u" using w(5,6) t(2,3) by (intro nth_equalityI) simp_all
  moreover have "ws \<noteq> []" using assms(3) w(2) by auto
  ultimately show ?thesis using w(1,3,4) by blast
qed

section \<open>Witnesses\<close>

lemma sample_joints_ok: "joints_ok [7, 1] ([0, 0], [1, 2]) [0]"
  by (simp add: joints_ok_def)

lemma sample_narrow: "narrow ([0, 0], [1, 2]) [0]"
  using pi_ge_two by (simp add: narrow_def)

theorem wrap_configuration_within_pi_witness: "\<exists>v. WrapConfiguration [0, 0] [0] [7, 1] = Inr v \<and> \<bar>v ! 0\<bar> \<le> pi"
  using wrap_configuration_within_pi [of "[7, 1]" "[0, 0]" "[0]"] by auto

theorem nearest_candidate_first_witness:
  "\<exists>v vs. wrapped_candidates [7, 1] ([0, 0], [1, 2]) [0] = Inr (v # vs)
     \<and> dist_to ([0, 0], [1, 2]) v \<le> dist_to ([0, 0], [1, 2]) [7, 1]"
proof -
  have "same_up_to_turns [0] [7, 1] [7, 1]" by (auto simp: same_up_to_turns_def intro: exI [of _ 0])
  then show ?thesis using nearest_candidate_first [OF sample_joints_ok sample_narrow] by blast
qed

theorem early_exit_exact_witness:
  "\<exists>ws m. CalcWrapMultiplesPerJoint [1 / 2 + 2 * pi, 1] ([0, 0], [1, 2]) [0] True = Inr ws
     \<and> CartesianProductOfWrapMultiples ws = Inr [m] \<and> foldE apply_wrap m [1 / 2 + 2 * pi, 1] = Inr [1 / 2, 1]"
proof -
  have "joints_ok [1 / 2 + 2 * pi, 1] ([0, 0], [1, 2]) [0]" by (simp add: joints_ok_def)
  moreover have "same_up_to_turns [0] [1 / 2 + 2 * pi, 1] [1 / 2, 1]"
    by (auto simp: same_up_to_turns_def less_Suc_eq turn_def intro: exI [of _ "-1"])
  moreover have "inside [1 / 2, 1] ([0, 0], [1, 2])"
    by (auto simp: inside_def less_Suc_eq)
  ultimately show ?thesis using early_exit_exact [OF _ sample_narrow] by blast
qed

end
