(* ===== verification/Config_Metric.thy ===== *)
theory Config_Metric
  imports Geodesic_Math
begin

text \<open>
  The metrics of \<open>GraphOfConfigs::DistanceFunc\<close> (\<open>motion/planning/internal/graph.h\<close>, \<open>graph.cc\<close>):
  weighted norms of the difference of two configurations whose continuous joints are wrapped
  first.  The closure that a \<open>DistanceFunc\<close> holds is the record of what it captures.  The locale
  \<open>config_metric\<close> is the contract the search relies on; its interpretation proves it for
  every distance function that \<open>MakeDistanceFunction\<close> returns on distinct joints.
\<close>

datatype metric_type = kL1Norm | kL2Norm | kLInfNorm

record distance_func =
  df_dim :: nat
  df_metric :: metric_type
  df_weights :: config
  df_joints :: "nat list"

definition l1_norm :: "config \<Rightarrow> real" where "l1_norm v = (\<Sum>x \<leftarrow> v. \<bar>x\<bar>)"
definition l2_norm :: "config \<Rightarrow> real" where "l2_norm v = sqrt (\<Sum>x \<leftarrow> v. x\<^sup>2)"
definition linf_norm :: "config \<Rightarrow> real" where "linf_norm v = foldr max (map abs v) 0"

definition norm_of :: "metric_type \<Rightarrow> config \<Rightarrow> real" where
  "norm_of t v = (case t of kL1Norm \<Rightarrow> l1_norm v | kL2Norm \<Rightarrow> l2_norm v | kLInfNorm \<Rightarrow> linf_norm v)"

text \<open>The loop adds each multiple, computed from the unchanged \<open>a\<close>, to the copy.\<close>

definition shift_joint :: "config \<Rightarrow> config \<Rightarrow> nat \<Rightarrow> config \<Rightarrow> config throws" where
  "shift_joint a b j v = (if j < length a \<and> j < length b
     then Inr (v[j := turn (CalcWrapMultiple (a ! j) (b ! j)) (v ! j)]) else Inl eigen_range)"

definition weighted_diff :: "config \<Rightarrow> config \<Rightarrow> config \<Rightarrow> config" where
  "weighted_diff w a b = map2 (*) (map2 (-) a b) w"

definition distance :: "distance_func \<Rightarrow> config \<Rightarrow> config \<Rightarrow> real throws" where
  "distance df a b = (if length a \<noteq> df_dim df \<or> length b \<noteq> df_dim df then Inl drake_error
     else bindE (foldE (shift_joint a b) (df_joints df) a) (\<lambda>a'.
       Inr (norm_of (df_metric df) (weighted_diff (df_weights df) a' b))))"

definition MakeDistanceFunction :: "nat \<Rightarrow> nat list \<Rightarrow> config option \<Rightarrow> metric_type \<Rightarrow> distance_func throws" where
  "MakeDistanceFunction n js weights t =
     (let w = (case weights of None \<Rightarrow> replicate n 1 | Some w \<Rightarrow> w) in
      if \<not> 0 < n \<or> length w \<noteq> n then Inl drake_error
      else Inr \<lparr> df_dim = length w, df_metric = t, df_weights = w, df_joints = js \<rparr>)"

section \<open>Norms\<close>

lemma sums_nonneg: "0 \<le> (\<Sum>x \<leftarrow> v. \<bar>x\<bar>)" "0 \<le> (\<Sum>x \<leftarrow> v. x\<^sup>2)" for v :: config
  by (induction v) auto

lemma l2_Cons: "l2_norm (x # xs) = sqrt (x\<^sup>2 + (l2_norm xs)\<^sup>2)"
  by (simp add: l2_norm_def sums_nonneg)

lemma norms_nonneg: "0 \<le> norm_of t v"
proof -
  have "0 \<le> foldr max (map abs v) 0" by (induction v) (auto simp: max_def)
  then show ?thesis
    by (cases t) (auto simp: norm_of_def l1_norm_def l2_norm_def linf_norm_def sums_nonneg)
qed

lemma l2_subadditive:
  assumes "list_all2 (\<lambda>z (x, y). \<bar>z\<bar> \<le> \<bar>x\<bar> + \<bar>y\<bar>) zs ps"
  shows "l2_norm zs \<le> l2_norm (map fst ps) + l2_norm (map snd ps)"
  using assms
proof (induction zs ps rule: list_all2_induct)
  case (Cons z zs p ps)
  obtain x y where p: "p = (x, y)" by (cases p)
  let ?X = "l2_norm (map fst ps)" and ?Y = "l2_norm (map snd ps)"
  have nn: "0 \<le> l2_norm v" for v using norms_nonneg [of kL2Norm v] by (simp add: norm_of_def)
  have "z\<^sup>2 \<le> (\<bar>x\<bar> + \<bar>y\<bar>)\<^sup>2" using Cons.hyps(1) p by (simp add: abs_le_square_iff [symmetric])
  moreover have "(l2_norm zs)\<^sup>2 \<le> (?X + ?Y)\<^sup>2" using Cons.IH nn by (simp add: power_mono)
  ultimately have "l2_norm (z # zs) \<le> sqrt ((\<bar>x\<bar> + \<bar>y\<bar>)\<^sup>2 + (?X + ?Y)\<^sup>2)"
    unfolding l2_Cons by (intro real_sqrt_le_mono) linarith
  also have "\<dots> \<le> sqrt (\<bar>x\<bar>\<^sup>2 + ?X\<^sup>2) + sqrt (\<bar>y\<bar>\<^sup>2 + ?Y\<^sup>2)" by (rule real_sqrt_sum_squares_triangle_ineq)
  finally show ?case by (simp add: p l2_Cons)
qed (simp add: l2_norm_def)

lemma norm_subadditive:
  assumes "list_all2 (\<lambda>z (x, y). \<bar>z\<bar> \<le> \<bar>x\<bar> + \<bar>y\<bar>) zs ps"
  shows "norm_of t zs \<le> norm_of t (map fst ps) + norm_of t (map snd ps)"
proof (cases t)
  case kL1Norm
  have "l1_norm zs \<le> l1_norm (map fst ps) + l1_norm (map snd ps)"
    using assms by (induction zs ps rule: list_all2_induct) (auto simp: l1_norm_def)
  then show ?thesis by (simp add: kL1Norm norm_of_def)
next
  case kL2Norm
  then show ?thesis using l2_subadditive [OF assms] by (simp add: norm_of_def)
next
  case kLInfNorm
  have "linf_norm zs \<le> linf_norm (map fst ps) + linf_norm (map snd ps)"
    using assms by (induction zs ps rule: list_all2_induct) (auto simp: linf_norm_def)
  then show ?thesis by (simp add: kLInfNorm norm_of_def)
qed

lemma norm_zero: "\<forall>x \<in> set v. x = 0 \<Longrightarrow> norm_of t v = 0"
proof -
  assume z: "\<forall>x \<in> set v. x = 0"
  then have "l1_norm v = 0" "(\<Sum>x \<leftarrow> v. x\<^sup>2) = 0" "linf_norm v = 0"
    by (induction v) (auto simp: l1_norm_def linf_norm_def)
  then show ?thesis by (cases t) (auto simp: norm_of_def l2_norm_def)
qed

section \<open>The distance\<close>

text \<open>The difference of two positions of a joint.\<close>

definition joint_diff :: "nat list \<Rightarrow> nat \<Rightarrow> real \<Rightarrow> real \<Rightarrow> real" where
  "joint_diff js i x y = (if i \<in> set js then turn (CalcWrapMultiple x y) x - y else x - y)"

lemma joint_diff_triangle: "\<bar>joint_diff js i x z\<bar> \<le> \<bar>joint_diff js i x y\<bar> + \<bar>joint_diff js i y z\<bar>"
proof (cases "i \<in> set js")
  case True
  let ?j = "CalcWrapMultiple x y" and ?k = "CalcWrapMultiple y z"
  have "\<bar>turn (CalcWrapMultiple x z) x - z\<bar> \<le> \<bar>turn (?j + ?k) x - z\<bar>" by (rule wrap_nearest)
  also have "turn (?j + ?k) x - z = (turn ?j x - y) + (turn ?k y - z)"
    by (simp add: turn_def algebra_simps)
  finally show ?thesis using True by (simp add: joint_diff_def)
qed (simp add: joint_diff_def)

lemma joint_diff_self: "joint_diff js i x x = 0"
proof -
  have "CalcWrapMultiple x x = 0" by (simp add: CalcWrapMultiple_def)
  then show ?thesis by (simp add: joint_diff_def)
qed

lemma shift_fold:
  assumes "distinct js" "\<forall>j \<in> set js. j < length a" "length b = length a" "length v = length a"
    and "\<forall>j \<in> set js. v ! j = a ! j"
  shows "\<exists>a'. foldE (shift_joint a b) js v = Inr a' \<and> length a' = length a
    \<and> (\<forall>i < length a. a' ! i = (if i \<in> set js then turn (CalcWrapMultiple (a ! i) (b ! i)) (a ! i) else v ! i))"
  using assms
proof (induction js arbitrary: v)
  case (Cons j js)
  let ?v = "v[j := turn (CalcWrapMultiple (a ! j) (b ! j)) (v ! j)]"
  have "\<exists>a'. foldE (shift_joint a b) js ?v = Inr a' \<and> length a' = length a
    \<and> (\<forall>i < length a. a' ! i = (if i \<in> set js then turn (CalcWrapMultiple (a ! i) (b ! i)) (a ! i) else ?v ! i))"
    by (rule Cons.IH) (use Cons.prems in \<open>auto simp: nth_list_update\<close>)
  then obtain a' where a': "foldE (shift_joint a b) js ?v = Inr a'" "length a' = length a"
    "\<forall>i < length a. a' ! i = (if i \<in> set js then turn (CalcWrapMultiple (a ! i) (b ! i)) (a ! i) else ?v ! i)"
    by blast
  have "foldE (shift_joint a b) (j # js) v = Inr a'" using a'(1) Cons.prems(2,3) by (simp add: shift_joint_def)
  moreover have "a' ! i = (if i \<in> set (j # js) then turn (CalcWrapMultiple (a ! i) (b ! i)) (a ! i) else v ! i)"
    if "i < length a" for i
    using a'(3) that Cons.prems by (cases "i = j") auto
  ultimately show ?case using a'(2) by blast
qed simp

text \<open>Sane distance functions: positions and weights of the dimension, distinct joints.\<close>

definition df_ok :: "distance_func \<Rightarrow> bool" where
  "df_ok df \<longleftrightarrow> 0 < df_dim df \<and> length (df_weights df) = df_dim df \<and> distinct (df_joints df)
     \<and> (\<forall>j \<in> set (df_joints df). j < df_dim df)"

definition diffs :: "distance_func \<Rightarrow> config \<Rightarrow> config \<Rightarrow> config" where
  "diffs df a b = map (\<lambda>i. joint_diff (df_joints df) i (a ! i) (b ! i) * df_weights df ! i) [0..<df_dim df]"

lemma distance_eq:
  assumes "df_ok df" "length a = df_dim df" "length b = df_dim df"
  shows "distance df a b = Inr (norm_of (df_metric df) (diffs df a b))"
proof -
  obtain a' where a': "foldE (shift_joint a b) (df_joints df) a = Inr a'" "length a' = length a"
    "\<forall>i < length a. a' ! i = (if i \<in> set (df_joints df) then turn (CalcWrapMultiple (a ! i) (b ! i)) (a ! i) else a ! i)"
    using shift_fold [of "df_joints df" a b a] assms by (auto simp: df_ok_def)
  have "weighted_diff (df_weights df) a' b = diffs df a b"
    by (rule nth_equalityI)
      (use a' assms in \<open>auto simp: weighted_diff_def diffs_def joint_diff_def df_ok_def\<close>)
  then show ?thesis using assms a'(1) by (simp add: distance_def)
qed

definition valid_config :: "distance_func \<Rightarrow> config \<Rightarrow> bool" where
  "valid_config df a \<longleftrightarrow> df_ok df \<and> length a = df_dim df"

definition dist_value :: "distance_func \<Rightarrow> config \<Rightarrow> config \<Rightarrow> real" where
  "dist_value df a b = projr (distance df a b)"

section \<open>The contract of a metric\<close>

locale config_metric =
  fixes valid :: "config \<Rightarrow> bool" and d :: "config \<Rightarrow> config \<Rightarrow> real"
  assumes nonneg: "valid a \<Longrightarrow> valid b \<Longrightarrow> 0 \<le> d a b"
    and self: "valid a \<Longrightarrow> d a a = 0"
    and triangle: "valid a \<Longrightarrow> valid b \<Longrightarrow> valid c \<Longrightarrow> d a c \<le> d a b + d b c"
begin

fun length_of :: "config \<Rightarrow> config list \<Rightarrow> real" where
  "length_of a [] = 0"
| "length_of a (b # bs) = d a b + length_of b bs"

lemma detour:
  "valid a \<Longrightarrow> \<forall>b \<in> set bs. valid b \<Longrightarrow> d a (last (a # bs)) \<le> length_of a bs"
proof (induction bs arbitrary: a)
  case (Cons b bs)
  then have "d b (last (b # bs)) \<le> length_of b bs" by simp
  moreover have "valid (last (b # bs))" using Cons.prems by (cases bs rule: rev_cases) auto
  ultimately show ?case using triangle [of a b "last (b # bs)"] Cons.prems by simp
qed (simp add: self)

text \<open>The distance to a fixed goal is a consistent estimate, and never more than the length of a path.\<close>

lemma consistent:
  "valid a \<Longrightarrow> valid b \<Longrightarrow> valid g \<Longrightarrow> d a b = c \<Longrightarrow> d a g \<le> c + d b g"
  using triangle by blast

end

interpretation met: config_metric "valid_config df" "dist_value df" for df
proof
  fix a b c
  assume a: "valid_config df a"
  then show "dist_value df a a = 0"
    by (auto simp: valid_config_def dist_value_def distance_eq diffs_def joint_diff_self intro!: norm_zero)
  assume b: "valid_config df b"
  show "0 \<le> dist_value df a b" using a b
    by (simp add: valid_config_def dist_value_def distance_eq norms_nonneg)
  assume c: "valid_config df c"
  let ?ps = "map (\<lambda>i. (diffs df a b ! i, diffs df b c ! i)) [0..<df_dim df]"
  have "list_all2 (\<lambda>z (x, y). \<bar>z\<bar> \<le> \<bar>x\<bar> + \<bar>y\<bar>) (diffs df a c) ?ps"
  proof (rule list_all2I)
    show "length (diffs df a c) = length ?ps" by (simp add: diffs_def)
    have "\<bar>joint_diff js i x z * w\<bar> \<le> \<bar>joint_diff js i x y * w\<bar> + \<bar>joint_diff js i y z * w\<bar>" for js i x y z w
      using mult_right_mono [OF joint_diff_triangle [of js i x z y] abs_ge_zero [of w]]
      by (simp add: abs_mult distrib_right)
    then show "\<forall>p \<in> set (zip (diffs df a c) ?ps). case p of (z, x, y) \<Rightarrow> \<bar>z\<bar> \<le> \<bar>x\<bar> + \<bar>y\<bar>"
      by (auto simp: set_zip diffs_def)
  qed
  from norm_subadditive [OF this, of "df_metric df"]
  have "norm_of (df_metric df) (diffs df a c) \<le> norm_of (df_metric df) (diffs df a b) + norm_of (df_metric df) (diffs df b c)"
  proof -
    have "map fst ?ps = diffs df a b" "map snd ?ps = diffs df b c"
      by (rule nth_equalityI; simp add: diffs_def)+
    then show ?thesis
      using norm_subadditive [OF \<open>list_all2 _ (diffs df a c) ?ps\<close>, of "df_metric df"] by simp
  qed
  then show "dist_value df a c \<le> dist_value df a b + dist_value df b c"
    using a b c by (simp add: valid_config_def dist_value_def distance_eq)
qed

section \<open>Properties\<close>

lemma joint_diff_turn:
  assumes "i \<in> set js"
  shows "joint_diff js i (turn k x) y = joint_diff js i x y"
proof -
  let ?m = "CalcWrapMultiple (turn k x) y"
  have "?m + k = CalcWrapMultiple x y"
    using wrap_range [of "turn k x" y] by (intro wrap_unique) (simp_all add: turn_turn)
  then show ?thesis using assms by (simp add: joint_diff_def turn_turn)
qed

text \<open>C19: Every distance function that \<open>MakeDistanceFunction\<close> returns for distinct joints is total on
  configurations of the dimension, never negative, zero from a configuration to itself, satisfies the triangle
  inequality in all three norms and for all weights, and does not see full turns of the continuous joints.\<close>
theorem distance_laws:
  assumes "MakeDistanceFunction n js w t = Inr df" "distinct js" "\<forall>j \<in> set js. j < n"
    and "length a = n" "length b = n" "length c = n" "same_up_to_turns js a a'"
  shows "\<exists>ab bc ac. distance df a b = Inr ab \<and> distance df b c = Inr bc \<and> distance df a c = Inr ac
    \<and> 0 \<le> ab \<and> ac \<le> ab + bc \<and> distance df a a = Inr 0 \<and> distance df a' b = Inr ab"
proof -
  have df: "df_ok df" "df_dim df = n" "df_joints df = js"
    using assms(1-3) by (auto simp: MakeDistanceFunction_def Let_def df_ok_def split: if_splits)
  have val: "valid_config df a" "valid_config df b" "valid_config df c"
    using df assms(4-6) by (auto simp: valid_config_def)
  have eq: "distance df x y = Inr (dist_value df x y)" if "length x = n" "length y = n" for x y
    using df that by (simp add: dist_value_def distance_eq)
  have a': "length a' = n" using assms(4,7) by (simp add: same_up_to_turns_def)
  have "diffs df a' b = diffs df a b"
  proof (rule nth_equalityI)
    fix i assume "i < length (diffs df a' b)"
    then have i: "i < length a" "i < df_dim df" using df(2) assms(4) by (simp_all add: diffs_def)
    have "joint_diff js i (a' ! i) (b ! i) = joint_diff js i (a ! i) (b ! i)"
    proof (cases "i \<in> set js")
      case True
      have "if i \<in> set js then \<exists>k. a' ! i = turn k (a ! i) else a' ! i = a ! i"
        using assms(7) i(1) unfolding same_up_to_turns_def by blast
      then obtain k where "a' ! i = turn k (a ! i)" using True by auto
      then show ?thesis using joint_diff_turn [OF True] by simp
    next
      case False
      then show ?thesis using assms(7) i(1) by (simp add: same_up_to_turns_def)
    qed
    then show "diffs df a' b ! i = diffs df a b ! i" using i(2) df(3) by (simp add: diffs_def)
  qed (simp add: diffs_def)
  then have "distance df a' b = distance df a b" using df a' assms(4,5) by (simp add: distance_eq)
  then show ?thesis
    using eq assms(4-6) met.nonneg [OF val(1,2)] met.triangle [OF val] met.self [OF val(1)] by auto
qed

section \<open>Witnesses\<close>

theorem distance_laws_witness:
  "\<exists>df ab. MakeDistanceFunction 2 [1] None kL2Norm = Inr df \<and> distance df [1, 2] [3, 4] = Inr ab \<and> 0 \<le> ab
     \<and> distance df [1, turn 5 2] [3, 4] = Inr ab"
proof -
  obtain df where df: "MakeDistanceFunction 2 [1] None kL2Norm = Inr df" by (simp add: MakeDistanceFunction_def)
  have "same_up_to_turns [1] [1, 2] [1, turn 5 2]" by (auto simp: same_up_to_turns_def less_Suc_eq)
  from distance_laws [OF df _ _ _ _ _ this, of "[3, 4]" "[0, 0]"] df show ?thesis by auto
qed

end
