(* ===== verification/Config_Graph.thy ===== *)
theory Config_Graph
  imports Config_Metric
begin

text \<open>
  \<open>motion/planning/internal/graph.cc\<close>: the graph of configurations and its A* search.
  Drake's \<open>GraphOfConvexSets\<close>, the base class, is seen through the accessors the code uses, the record
  \<open>gcs\<close>: the vertices, the point of a vertex (\<open>set().MaybeGetPoint()\<close>) and its outgoing edges in order.  Its
  own \<open>AddVertex\<close> and \<open>AddEdge\<close> are parameters, with their documented effect as hypotheses
  (\<open>adds_vertex\<close>, \<open>adds_edge\<close>).  Vertices and edges are pointers in the code and numbers here.

  A score is \<open>None\<close> for infinity.  The loops of the search and of the reconstruction of the path are
  partial functions: their value is \<open>None\<close> if they do not end.
\<close>

type_synonym vid = nat
type_synonym eid = nat

datatype convex_set = Point config | OtherSet

record gcs =
  Vertices :: "vid list"
  point_of :: "vid \<Rightarrow> config option"
  outgoing :: "vid \<Rightarrow> (eid \<times> vid) list"

record graph_of_configs =
  base :: gcs
  gc_dim :: nat
  dist_func :: distance_func
  edge_cost :: "eid \<Rightarrow> real option"

type_synonym base_add_vertex = "config \<Rightarrow> string \<Rightarrow> gcs \<Rightarrow> vid \<times> gcs"
type_synonym base_add_edge = "vid \<Rightarrow> vid \<Rightarrow> string \<Rightarrow> gcs \<Rightarrow> eid \<times> gcs"

definition GraphOfConfigs :: "gcs \<Rightarrow> nat \<Rightarrow> nat list \<Rightarrow> config option \<Rightarrow> metric_type \<Rightarrow> graph_of_configs throws" where
  "GraphOfConfigs b n js weights t = bindE (MakeDistanceFunction n js weights t) (\<lambda>df.
     if \<not> 0 < n \<or> df_dim df \<noteq> n then Inl ''DRAKE_DEMAND''
     else Inr \<lparr> base = b, gc_dim = n, dist_func = df, edge_cost = (\<lambda>_. None) \<rparr>)"

definition AddVertex ::
  "base_add_vertex \<Rightarrow> convex_set \<Rightarrow> string \<Rightarrow> graph_of_configs \<Rightarrow> (vid \<times> graph_of_configs) throws" where
  "AddVertex add set' name gc = (case set' of
     OtherSet \<Rightarrow> Inl ''GraphOfConfigs only supports Point vertices''
   | Point p \<Rightarrow> (case add p name (base gc) of (v, b) \<Rightarrow> Inr (v, gc\<lparr> base := b \<rparr>)))"

definition AddEdge ::
  "base_add_edge \<Rightarrow> vid \<Rightarrow> vid \<Rightarrow> string \<Rightarrow> graph_of_configs \<Rightarrow> (eid \<times> graph_of_configs) throws" where
  "AddEdge add u v name gc = (case (point_of (base gc) u, point_of (base gc) v) of
     (Some a, Some b) \<Rightarrow> bindE (distance (dist_func gc) a b) (\<lambda>c.
        case add u v name (base gc) of (e, g) \<Rightarrow> Inr (e, gc\<lparr> base := g, edge_cost := (edge_cost gc)(e \<mapsto> c) \<rparr>))
   | _ \<Rightarrow> Inl ''DRAKE_DEMAND'')"

definition GetEdgeCost :: "graph_of_configs \<Rightarrow> eid \<Rightarrow> real throws" where
  "GetEdgeCost gc e = (case edge_cost gc e of None \<Rightarrow> Inl ''out_of_range'' | Some c \<Rightarrow> Inr c)"

section \<open>The search\<close>

type_synonym score = "real option"

definition less_score :: "score \<Rightarrow> score \<Rightarrow> bool" where
  "less_score a b = (case a of None \<Rightarrow> False | Some x \<Rightarrow> (case b of None \<Rightarrow> True | Some y \<Rightarrow> x < y))"

definition plus_score :: "score \<Rightarrow> real \<Rightarrow> score" where
  "plus_score a c = map_option (\<lambda>x. x + c) a"

text \<open>\<open>operator[]\<close> of a \<open>std::map\<close> yields 0 for a missing key.\<close>

definition score_at :: "(vid \<Rightarrow> score option) \<Rightarrow> vid \<Rightarrow> score" where
  "score_at m v = (case m v of None \<Rightarrow> Some 0 | Some s \<Rightarrow> s)"

record astar =
  open_set :: "vid list"
  came_from :: "vid \<Rightarrow> vid option"
  g_score :: "vid \<Rightarrow> score option"
  f_score :: "vid \<Rightarrow> score option"

definition pick_step :: "(vid \<Rightarrow> score option) \<Rightarrow> vid \<Rightarrow> vid option \<times> score \<Rightarrow> vid option \<times> score" where
  "pick_step f v acc = (if less_score (score_at f v) (snd acc) then (Some v, score_at f v) else acc)"

definition pick :: "(vid \<Rightarrow> score option) \<Rightarrow> vid list \<Rightarrow> vid option" where
  "pick f vs = fst (fold (pick_step f) vs (None, None))"

definition relax :: "graph_of_configs \<Rightarrow> config \<Rightarrow> vid \<Rightarrow> eid \<times> vid \<Rightarrow> astar \<Rightarrow> astar throws" where
  "relax gc goal_config cur e s = (case e of (eid, n) \<Rightarrow>
     bindE (GetEdgeCost gc eid) (\<lambda>c.
       let tentative = plus_score (score_at (g_score s) cur) c in
       if less_score tentative (score_at (g_score s) n) then
         (case point_of (base gc) n of
            None \<Rightarrow> Inl ''DRAKE_DEMAND''
          | Some p \<Rightarrow> bindE (distance (dist_func gc) p goal_config) (\<lambda>h.
              Inr (s\<lparr> came_from := (came_from s)(n \<mapsto> cur),
                      g_score := (g_score s)(n \<mapsto> tentative),
                      f_score := (f_score s)(n \<mapsto> plus_score tentative h),
                      open_set := (if n \<in> set (open_set s) then open_set s else open_set s @ [n]) \<rparr>)))
       else Inr s))"

partial_function (option) rebuild :: "(vid \<Rightarrow> vid option) \<Rightarrow> vid \<Rightarrow> vid \<Rightarrow> vid list \<Rightarrow> vid list throws option" where
  "rebuild came start v path = (if v = start then Some (Inr (rev (path @ [start])))
     else case came v of
         None \<Rightarrow> Some (Inl ''out_of_range'')
       | Some u \<Rightarrow> rebuild came start u (path @ [v]))"

text \<open>One turn of the \<open>while\<close> loop adds what the callback adds to the graph, if there is one; an
  exception of the callback leaves the graph as far as it had come.\<close>

type_synonym add_edges = "(vid \<Rightarrow> graph_of_configs \<Rightarrow> unit throws \<times> graph_of_configs) option"
type_synonym search_result = "(score \<times> vid list) throws \<times> graph_of_configs"

definition call_add_edges :: "add_edges \<Rightarrow> vid \<Rightarrow> graph_of_configs \<Rightarrow> unit throws \<times> graph_of_configs" where
  "call_add_edges add v gc = (case add of None \<Rightarrow> (Inr (), gc) | Some f \<Rightarrow> f v gc)"

partial_function (option) astar_loop ::
  "add_edges \<Rightarrow> vid \<Rightarrow> vid \<Rightarrow> config \<Rightarrow> astar \<Rightarrow> graph_of_configs \<Rightarrow> search_result option" where
  "astar_loop add start goal goal_config s gc =
     (if open_set s = [] then Some (Inl ''No path found'', gc)
      else case pick (f_score s) (open_set s) of
        None \<Rightarrow> Some (Inl ''undefined: null vertex'', gc)
      | Some cur \<Rightarrow>
        if cur = goal then
          (case rebuild (came_from s) start goal [] of
             None \<Rightarrow> None
           | Some (Inl x) \<Rightarrow> Some (Inl x, gc)
           | Some (Inr path) \<Rightarrow> Some (Inr (score_at (g_score s) goal, path), gc))
        else
          (case call_add_edges add cur gc of
             (Inl x, gc1) \<Rightarrow> Some (Inl x, gc1)
           | (Inr _, gc1) \<Rightarrow>
             (case foldE (relax gc1 goal_config cur) (outgoing (base gc1) cur)
                     (s\<lparr> open_set := removeAll cur (open_set s) \<rparr>) of
                Inl x \<Rightarrow> Some (Inl x, gc1)
              | Inr s' \<Rightarrow> astar_loop add start goal goal_config s' gc1)))"

definition CalcShortestPath :: "add_edges \<Rightarrow> vid \<Rightarrow> vid \<Rightarrow> graph_of_configs \<Rightarrow> search_result option" where
  "CalcShortestPath add start goal gc =
     (case (point_of (base gc) start, point_of (base gc) goal) of
        (Some a, Some b) \<Rightarrow>
          (case distance (dist_func gc) a b of
             Inl x \<Rightarrow> Some (Inl x, gc)
           | Inr h \<Rightarrow>
               let inf = (\<lambda>v. if v \<in> set (Vertices (base gc)) then Some None else None) in
               astar_loop add start goal b
                 \<lparr> open_set = [start], came_from = (\<lambda>_. None),
                   g_score = inf(start \<mapsto> Some 0), f_score = inf(start \<mapsto> Some h) \<rparr> gc)
      | _ \<Rightarrow> Some (Inl ''DRAKE_DEMAND'', gc))"

section \<open>Well-formed graphs\<close>

definition point_at :: "graph_of_configs \<Rightarrow> vid \<Rightarrow> config" where
  "point_at gc v = the (point_of (base gc) v)"

definition vdist :: "graph_of_configs \<Rightarrow> vid \<Rightarrow> vid \<Rightarrow> real" where
  "vdist gc u v = dist_value (dist_func gc) (point_at gc u) (point_at gc v)"

text \<open>Every vertex has a point of the dimension, every edge leads to a vertex and costs
  the distance of its end points.\<close>

definition gc_inv :: "graph_of_configs \<Rightarrow> bool" where
  "gc_inv gc \<longleftrightarrow> df_ok (dist_func gc) \<and> gc_dim gc = df_dim (dist_func gc)
     \<and> (\<forall>v \<in> set (Vertices (base gc)). \<exists>p. point_of (base gc) v = Some p \<and> length p = gc_dim gc)
     \<and> (\<forall>u \<in> set (Vertices (base gc)). \<forall>(e, v) \<in> set (outgoing (base gc) u).
          v \<in> set (Vertices (base gc)) \<and> edge_cost gc e = Some (vdist gc u v))"

definition adds_vertex :: "base_add_vertex \<Rightarrow> bool" where
  "adds_vertex add \<longleftrightarrow> (\<forall>p name g v g'. add p name g = (v, g') \<longrightarrow> v \<notin> set (Vertices g)
     \<and> set (Vertices g') = insert v (set (Vertices g)) \<and> point_of g' = (point_of g)(v \<mapsto> p)
     \<and> outgoing g' = (outgoing g)(v := []))"

definition adds_edge :: "base_add_edge \<Rightarrow> bool" where
  "adds_edge add \<longleftrightarrow> (\<forall>u v name g e g'. u \<in> set (Vertices g) \<longrightarrow> v \<in> set (Vertices g) \<longrightarrow>
     add u v name g = (e, g') \<longrightarrow> (\<forall>w \<in> set (Vertices g). e \<notin> fst ` set (outgoing g w))
     \<and> Vertices g' = Vertices g \<and> point_of g' = point_of g \<and> outgoing g' = (outgoing g)(u := outgoing g u @ [(e, v)]))"

lemma gc_inv_valid:
  "gc_inv gc \<Longrightarrow> v \<in> set (Vertices (base gc)) \<Longrightarrow> valid_config (dist_func gc) (point_at gc v)"
  by (force simp: gc_inv_def valid_config_def point_at_def)

lemma gc_inv_distance:
  assumes "gc_inv gc" "u \<in> set (Vertices (base gc))" "v \<in> set (Vertices (base gc))"
  shows "distance (dist_func gc) (point_at gc u) (point_at gc v) = Inr (vdist gc u v)"
  using gc_inv_valid [OF assms(1,2)] gc_inv_valid [OF assms(1,3)]
  by (simp add: vdist_def valid_config_def dist_value_def distance_eq)

lemma gc_inv_point:
  "gc_inv gc \<Longrightarrow> v \<in> set (Vertices (base gc)) \<Longrightarrow> point_of (base gc) v = Some (point_at gc v)"
  by (force simp: gc_inv_def point_at_def)

lemma gc_inv_edge:
  "gc_inv gc \<Longrightarrow> u \<in> set (Vertices (base gc)) \<Longrightarrow> (e, v) \<in> set (outgoing (base gc) u)
   \<Longrightarrow> v \<in> set (Vertices (base gc)) \<and> edge_cost gc e = Some (vdist gc u v)"
  by (auto simp: gc_inv_def)

text \<open>Walks of the graph with their cost.\<close>

inductive walk :: "graph_of_configs \<Rightarrow> vid \<Rightarrow> vid list \<Rightarrow> vid \<Rightarrow> real \<Rightarrow> bool" for gc start where
  here: "walk gc start [start] start 0"
| step: "walk gc start p u c \<Longrightarrow> (e, v) \<in> set (outgoing (base gc) u) \<Longrightarrow> edge_cost gc e = Some k
    \<Longrightarrow> walk gc start (p @ [v]) v (c + k)"

inductive_cases walkE: "walk gc start p v c"

lemma walk_vertices:
  assumes "gc_inv gc" "start \<in> set (Vertices (base gc))" "walk gc start p v c"
  shows "v \<in> set (Vertices (base gc)) \<and> 0 \<le> c"
  using assms(3)
proof induction
  case here
  then show ?case using assms(2) by simp
next
  case (step p u c e v k)
  then have "v \<in> set (Vertices (base gc))" "k = vdist gc u v"
    using gc_inv_edge [OF assms(1)] by fastforce+
  moreover have "0 \<le> vdist gc u v"
    using met.nonneg [OF gc_inv_valid [OF assms(1)] gc_inv_valid [OF assms(1)]] step.IH \<open>v \<in> _\<close>
    by (simp add: vdist_def)
  ultimately show ?case using step.IH by simp
qed

section \<open>The chain of predecessors\<close>

text \<open>The chain from \<open>v\<close> back to the start, all of whose predecessors are in \<open>C\<close>.\<close>

inductive pred_chain :: "(vid \<Rightarrow> vid option) \<Rightarrow> vid \<Rightarrow> vid set \<Rightarrow> vid \<Rightarrow> vid list \<Rightarrow> bool" for came start C where
  stop: "pred_chain came start C start [start]"
| pred: "v \<noteq> start \<Longrightarrow> came v = Some u \<Longrightarrow> u \<in> C \<Longrightarrow> pred_chain came start C u xs \<Longrightarrow> pred_chain came start C v (xs @ [v])"

lemma chain_mono: "pred_chain came start C v xs \<Longrightarrow> C \<subseteq> C' \<Longrightarrow> pred_chain came start C' v xs"
  by (induction rule: pred_chain.induct) (auto intro: pred_chain.intros)

lemma chain_update: "pred_chain came start C v xs \<Longrightarrow> n \<notin> C \<Longrightarrow> v \<noteq> n \<Longrightarrow> pred_chain (came(n \<mapsto> w)) start C v xs"
proof (induction rule: pred_chain.induct)
  case (pred v u xs)
  then have "u \<noteq> n" by auto
  with pred show ?case by (intro pred_chain.pred) auto
qed (rule pred_chain.stop)

lemma chain_rebuild: "pred_chain came start C v xs \<Longrightarrow> rebuild came start v path = Some (Inr (xs @ rev path))"
  by (induction arbitrary: path rule: pred_chain.induct) (simp_all add: rebuild.simps)

section \<open>The choice of the next vertex\<close>

lemma pick_fold:
  assumes "\<forall>v \<in> set vs. score_at f v = Some (r v)" "score_at f c = Some (r c)"
  shows "\<exists>d. fold (pick_step f) vs (Some c, Some (r c)) = (Some d, Some (r d))
    \<and> d \<in> insert c (set vs) \<and> r d \<le> r c \<and> (\<forall>v \<in> set vs. r d \<le> r v)"
  using assms
proof (induction vs arbitrary: c)
  case (Cons v vs)
  show ?case
  proof (cases "r v < r c")
    case True
    then have "pick_step f v (Some c, Some (r c)) = (Some v, Some (r v))"
      using Cons.prems by (simp add: pick_step_def less_score_def)
    with Cons.IH [of v] Cons.prems True show ?thesis by fastforce
  next
    case False
    then have "pick_step f v (Some c, Some (r c)) = (Some c, Some (r c))"
      using Cons.prems by (simp add: pick_step_def less_score_def)
    with Cons.IH [of c] Cons.prems False show ?thesis by fastforce
  qed
qed simp

lemma pick_least:
  assumes "\<forall>v \<in> set vs. score_at f v = Some (r v)" "vs \<noteq> []"
  shows "\<exists>d. pick f vs = Some d \<and> d \<in> set vs \<and> (\<forall>v \<in> set vs. r d \<le> r v)"
proof -
  obtain c ws where vs: "vs = c # ws" using assms(2) by (cases vs) auto
  have "pick_step f c (None, None) = (Some c, Some (r c))"
    using assms(1) vs by (simp add: pick_step_def less_score_def)
  then show ?thesis using pick_fold [of ws f r c] assms(1) vs by (auto simp: pick_def)
qed

section \<open>The invariant of the search\<close>

definition gval :: "astar \<Rightarrow> vid \<Rightarrow> real" where "gval s v = the (score_at (g_score s) v)"

text \<open>\<open>C\<close> is the set of vertices already expanded, \<open>todo\<close> the edges of the current one that
  are still to be relaxed.\<close>

definition search_inv :: "graph_of_configs \<Rightarrow> vid \<Rightarrow> vid \<Rightarrow> vid set \<Rightarrow> (vid \<times> eid \<times> vid) set \<Rightarrow> astar \<Rightarrow> bool" where
  "search_inv gc start goal C todo s \<longleftrightarrow>
     C \<union> set (open_set s) \<subseteq> set (Vertices (base gc)) \<and> C \<inter> set (open_set s) = {} \<and> goal \<notin> C
     \<and> start \<in> C \<union> set (open_set s) \<and> gval s start = 0
     \<and> (\<forall>v \<in> set (Vertices (base gc)). score_at (g_score s) v = None \<longleftrightarrow> v \<notin> C \<union> set (open_set s))
     \<and> (\<forall>v \<in> set (Vertices (base gc)). score_at (f_score s) v = plus_score (score_at (g_score s) v) (vdist gc v goal))
     \<and> (\<forall>v \<in> C \<union> set (open_set s). \<exists>xs. pred_chain (came_from s) start C v xs \<and> walk gc start xs v (gval s v))
     \<and> (\<forall>u \<in> C. \<forall>(e, v) \<in> set (outgoing (base gc) u). (u, e, v) \<notin> todo \<longrightarrow>
          v \<in> C \<union> set (open_set s) \<and> gval s v \<le> gval s u + vdist gc u v)
     \<and> (\<forall>u \<in> C. \<forall>v \<in> set (open_set s). gval s u + vdist gc u goal \<le> gval s v + vdist gc v goal)"

lemma search_invD:
  assumes "search_inv gc start goal C todo s"
  shows "C \<subseteq> set (Vertices (base gc))" "set (open_set s) \<subseteq> set (Vertices (base gc))" "C \<inter> set (open_set s) = {}"
    "goal \<notin> C" "start \<in> C \<union> set (open_set s)" "gval s start = 0"
    "\<And>v. v \<in> set (Vertices (base gc)) \<Longrightarrow> score_at (g_score s) v = None \<longleftrightarrow> v \<notin> C \<union> set (open_set s)"
    "\<And>v. v \<in> set (Vertices (base gc)) \<Longrightarrow> score_at (f_score s) v = plus_score (score_at (g_score s) v) (vdist gc v goal)"
    "\<And>v. v \<in> C \<union> set (open_set s) \<Longrightarrow> \<exists>xs. pred_chain (came_from s) start C v xs \<and> walk gc start xs v (gval s v)"
    "\<And>u e v. u \<in> C \<Longrightarrow> (e, v) \<in> set (outgoing (base gc) u) \<Longrightarrow> (u, e, v) \<notin> todo \<Longrightarrow>
          v \<in> C \<union> set (open_set s) \<and> gval s v \<le> gval s u + vdist gc u v"
    "\<And>u v. u \<in> C \<Longrightarrow> v \<in> set (open_set s) \<Longrightarrow> gval s u + vdist gc u goal \<le> gval s v + vdist gc v goal"
  using assms unfolding search_inv_def by blast+

lemma search_invI:
  assumes "C \<subseteq> set (Vertices (base gc))" "set (open_set s) \<subseteq> set (Vertices (base gc))" "C \<inter> set (open_set s) = {}"
    "goal \<notin> C" "start \<in> C \<union> set (open_set s)" "gval s start = 0"
    "\<And>v. v \<in> set (Vertices (base gc)) \<Longrightarrow> score_at (g_score s) v = None \<longleftrightarrow> v \<notin> C \<union> set (open_set s)"
    "\<And>v. v \<in> set (Vertices (base gc)) \<Longrightarrow> score_at (f_score s) v = plus_score (score_at (g_score s) v) (vdist gc v goal)"
    "\<And>v. v \<in> C \<union> set (open_set s) \<Longrightarrow> \<exists>xs. pred_chain (came_from s) start C v xs \<and> walk gc start xs v (gval s v)"
    "\<And>u e v. u \<in> C \<Longrightarrow> (e, v) \<in> set (outgoing (base gc) u) \<Longrightarrow> (u, e, v) \<notin> todo \<Longrightarrow>
          v \<in> C \<union> set (open_set s) \<and> gval s v \<le> gval s u + vdist gc u v"
    "\<And>u v. u \<in> C \<Longrightarrow> v \<in> set (open_set s) \<Longrightarrow> gval s u + vdist gc u goal \<le> gval s v + vdist gc v goal"
  shows "search_inv gc start goal C todo s"
proof -
  have "\<forall>u \<in> C. \<forall>(e, v) \<in> set (outgoing (base gc) u). (u, e, v) \<notin> todo \<longrightarrow>
          v \<in> C \<union> set (open_set s) \<and> gval s v \<le> gval s u + vdist gc u v"
    using assms(10) by blast
  then show ?thesis
    unfolding search_inv_def
    by (intro conjI ballI) (rule assms(1-9,11) Un_least | assumption | fast)+
qed

lemma search_inv_score:
  assumes "search_inv gc start goal C todo s" "v \<in> C \<union> set (open_set s)"
  shows "score_at (g_score s) v = Some (gval s v)" "score_at (f_score s) v = Some (gval s v + vdist gc v goal)"
proof -
  have v: "v \<in> set (Vertices (base gc))" using assms search_invD(1,2) [OF assms(1)] by blast
  then show g: "score_at (g_score s) v = Some (gval s v)"
    using search_invD(7) [OF assms(1) v] assms(2) by (auto simp: gval_def)
  then show "score_at (f_score s) v = Some (gval s v + vdist gc v goal)"
    using search_invD(8) [OF assms(1) v] by (simp add: plus_score_def)
qed

text \<open>Optimality: every walk ends in an expanded vertex and is no cheaper, or
  some open vertex promises a total that is no more.\<close>

lemma walk_bound:
  assumes "gc_inv gc" "goal \<in> set (Vertices (base gc))" "start \<in> set (Vertices (base gc))"
    and "search_inv gc start goal C {} s" "walk gc start p v c"
  shows "(v \<in> C \<and> gval s v \<le> c) \<or> (\<exists>x \<in> set (open_set s). gval s x + vdist gc x goal \<le> c + vdist gc v goal)"
  using assms(5)
proof induction
  case here
  show ?case using search_invD(5,6) [OF assms(4)] by (cases "start \<in> C") force+
next
  case (step p u c e v k)
  have u: "u \<in> set (Vertices (base gc))" using walk_vertices [OF assms(1,3) step.hyps(1)] by simp
  have e: "v \<in> set (Vertices (base gc))" "k = vdist gc u v"
    using gc_inv_edge [OF assms(1) u step.hyps(2)] step.hyps(3) by auto
  show ?case
    using step.IH
  proof
    assume "u \<in> C \<and> gval s u \<le> c"
    then have "v \<in> C \<union> set (open_set s) \<and> gval s v \<le> c + k"
      using search_invD(10) [OF assms(4) _ step.hyps(2)] e(2) by force
    then show ?thesis by (cases "v \<in> C") force+
  next
    have "vdist gc u goal \<le> k + vdist gc v goal"
      using met.triangle [OF gc_inv_valid [OF assms(1) u] gc_inv_valid [OF assms(1) e(1)]
          gc_inv_valid [OF assms(1,2)]] e(2) by (simp add: vdist_def)
    moreover assume "\<exists>x \<in> set (open_set s). gval s x + vdist gc x goal \<le> c + vdist gc u goal"
    ultimately show ?thesis by force
  qed
qed

text \<open>Relaxing one edge of the current vertex.\<close>

lemma relax_step:
  assumes gc: "gc_inv gc" "goal \<in> set (Vertices (base gc))" "start \<in> set (Vertices (base gc))"
    and inv: "search_inv gc start goal C (insert (cur, e, n) todo) s"
    and cur: "cur \<in> C" "\<forall>u \<in> C. gval s u + vdist gc u goal \<le> gval s cur + vdist gc cur goal"
    and e: "(e, n) \<in> set (outgoing (base gc) cur)"
  shows "\<exists>s'. relax gc (point_at gc goal) cur (e, n) s = Inr s' \<and> search_inv gc start goal C todo s'
    \<and> (\<forall>u \<in> C. gval s' u = gval s u)"
proof -
  let ?c = "vdist gc cur n"
  let ?t = "gval s cur + ?c"
  have curV: "cur \<in> set (Vertices (base gc))" using cur(1) search_invD(1) [OF inv] by blast
  have n: "n \<in> set (Vertices (base gc))" and cost: "edge_cost gc e = Some ?c"
    using gc_inv_edge [OF gc(1) curV e] by auto
  have gcur: "score_at (g_score s) cur = Some (gval s cur)" using search_inv_score(1) [OF inv] cur(1) by simp
  have dnn: "0 \<le> ?c" using met.nonneg [OF gc_inv_valid [OF gc(1) curV] gc_inv_valid [OF gc(1) n]] by (simp add: vdist_def)
  have cons: "vdist gc cur goal \<le> ?c + vdist gc n goal"
    using met.triangle [OF gc_inv_valid [OF gc(1) curV] gc_inv_valid [OF gc(1) n] gc_inv_valid [OF gc(1,2)]]
    by (simp add: vdist_def)
  have gnn: "0 \<le> gval s cur" using search_invD(9) [OF inv] cur(1) walk_vertices [OF gc(1,3)] by blast
  show ?thesis
  proof (cases "less_score (Some ?t) (score_at (g_score s) n)")
    case False
    then obtain y where y: "score_at (g_score s) n = Some y" "y \<le> ?t"
      by (auto simp: less_score_def split: option.splits)
    have nf: "n \<in> C \<union> set (open_set s)" using search_invD(7) [OF inv n] y(1) by simp
    then have le: "gval s n \<le> ?t" using search_inv_score(1) [OF inv nf] y by simp
    have "search_inv gc start goal C todo s"
    proof (rule search_invI)
      fix u a v
      assume u: "u \<in> C" "(a, v) \<in> set (outgoing (base gc) u)" "(u, a, v) \<notin> todo"
      show "v \<in> C \<union> set (open_set s) \<and> gval s v \<le> gval s u + vdist gc u v"
      proof (cases "(u, a, v) = (cur, e, n)")
        case True
        then show ?thesis using nf le by simp
      next
        case False
        then show ?thesis using search_invD(10) [OF inv u(1,2)] u(3) by blast
      qed
    qed (fact search_invD(1-9,11) [OF inv])+
    then show ?thesis using False by (simp add: relax_def GetEdgeCost_def cost gcur plus_score_def)
  next
    case True
    have nC: "n \<notin> C"
    proof
      assume "n \<in> C"
      then have "?t < gval s n" using True search_inv_score(1) [OF inv, of n] by (simp add: less_score_def)
      then show False using cur(2) \<open>n \<in> C\<close> cons by force
    qed
    then have ncur: "n \<noteq> cur" using cur(1) by blast
    have nstart: "n \<noteq> start"
    proof
      assume "n = start"
      then have "n \<in> C \<union> set (open_set s)" "gval s n = 0" using search_invD(5,6) [OF inv] by auto
      then show False using True search_inv_score(1) [OF inv, of n] gnn dnn by (simp add: less_score_def)
    qed
    let ?op = "if n \<in> set (open_set s) then open_set s else open_set s @ [n]"
    define s' where "s' = s\<lparr> came_from := (came_from s)(n \<mapsto> cur), g_score := (g_score s)(n \<mapsto> Some ?t),
        f_score := (f_score s)(n \<mapsto> Some (?t + vdist gc n goal)), open_set := ?op \<rparr>"
    have r: "relax gc (point_at gc goal) cur (e, n) s = Inr s'"
      using True by (simp add: relax_def GetEdgeCost_def cost gcur plus_score_def gc_inv_point [OF gc(1) n]
          gc_inv_distance [OF gc(1) n gc(2)] s'_def)
    have op': "set (open_set s') = insert n (set (open_set s))" by (auto simp: s'_def)
    have g': "score_at (g_score s') v = (if v = n then Some ?t else score_at (g_score s) v)"
         "gval s' v = (if v = n then ?t else gval s v)"
         "score_at (f_score s') v = (if v = n then Some (?t + vdist gc n goal) else score_at (f_score s) v)" for v
      by (simp_all add: s'_def gval_def score_at_def)
    have paths: "\<exists>xs. pred_chain (came_from s') start C v xs \<and> walk gc start xs v (gval s' v)"
      if v: "v \<in> C \<union> set (open_set s')" for v
    proof (cases "v = n")
      case True
      obtain xs where xs: "pred_chain (came_from s) start C cur xs" "walk gc start xs cur (gval s cur)"
        using search_invD(9) [OF inv, of cur] cur(1) by blast
      have "pred_chain (came_from s') start C n (xs @ [n])"
        using chain_update [OF xs(1) nC] ncur nstart cur(1) by (intro pred_chain.pred) (auto simp: s'_def)
      then show ?thesis using walk.step [OF xs(2) e cost] True g'(2) by auto
    next
      case False
      then have "v \<in> C \<union> set (open_set s)" using v op' by auto
      then obtain xs where "pred_chain (came_from s) start C v xs" "walk gc start xs v (gval s v)"
        using search_invD(9) [OF inv] by blast
      moreover have "came_from s' = (came_from s)(n \<mapsto> cur)" "gval s' v = gval s v"
        using False g'(2) by (simp_all add: s'_def)
      ultimately show ?thesis using chain_update [OF _ nC False] by metis
    qed
    have mono: "gval s' v \<le> gval s v" if "v \<in> C \<union> set (open_set s)" for v
      using True search_inv_score(1) [OF inv that] g'(2) by (auto simp: less_score_def)
    have edges: "v \<in> C \<union> set (open_set s') \<and> gval s' v \<le> gval s' u + vdist gc u v"
      if u: "u \<in> C" "(a, v) \<in> set (outgoing (base gc) u)" "(u, a, v) \<notin> todo" for u a v
    proof (cases "(u, a, v) = (cur, e, n)")
      case True
      then show ?thesis using op' g'(2) ncur by simp
    next
      case False
      then have "v \<in> C \<union> set (open_set s) \<and> gval s v \<le> gval s u + vdist gc u v"
        using search_invD(10) [OF inv u(1,2)] u(3) by blast
      moreover have "gval s' u = gval s u" using u(1) nC g'(2) by auto
      ultimately show ?thesis using mono op' by force
    qed
    have order: "gval s' u + vdist gc u goal \<le> gval s' v + vdist gc v goal"
      if u: "u \<in> C" "v \<in> set (open_set s')" for u v
    proof (cases "v = n")
      case True
      then show ?thesis using u(1) cur(2) cons nC g'(2) by force
    next
      case False
      then have "gval s u + vdist gc u goal \<le> gval s v + vdist gc v goal"
        using search_invD(11) [OF inv u(1)] u(2) op' by simp
      then show ?thesis using u(1) nC g'(2) False by auto
    qed
    have "search_inv gc start goal C todo s'"
    proof (rule search_invI)
      show "C \<subseteq> set (Vertices (base gc))" "goal \<notin> C" using search_invD(1,4) [OF inv] by auto
      show "set (open_set s') \<subseteq> set (Vertices (base gc))" using search_invD(2) [OF inv] n op' by simp
      show "C \<inter> set (open_set s') = {}" using search_invD(3) [OF inv] nC op' by simp
      show "start \<in> C \<union> set (open_set s')" using search_invD(5) [OF inv] op' by auto
      show "gval s' start = 0" using search_invD(6) [OF inv] nstart g'(2) by simp
      show "(score_at (g_score s') v = None) = (v \<notin> C \<union> set (open_set s'))" if "v \<in> set (Vertices (base gc))" for v
        using search_invD(7) [OF inv that] g'(1) op' by simp
      show "score_at (f_score s') v = plus_score (score_at (g_score s') v) (vdist gc v goal)"
        if "v \<in> set (Vertices (base gc))" for v
        using search_invD(8) [OF inv that] g'(1,3) by (simp add: plus_score_def)
    qed (fact paths edges order)+
    then show ?thesis using r g'(2) nC by auto
  qed
qed

lemma relax_all:
  assumes gc: "gc_inv gc" "goal \<in> set (Vertices (base gc))" "start \<in> set (Vertices (base gc))"
    and "search_inv gc start goal C (Pair cur ` set es) s" "set es \<subseteq> set (outgoing (base gc) cur)"
    and "cur \<in> C" "\<forall>u \<in> C. gval s u + vdist gc u goal \<le> gval s cur + vdist gc cur goal"
  shows "\<exists>s'. foldE (relax gc (point_at gc goal) cur) es s = Inr s' \<and> search_inv gc start goal C {} s'"
  using assms(4-7)
proof (induction es arbitrary: s)
  case (Cons a es)
  obtain e n where a: "a = (e, n)" by (cases a)
  have "search_inv gc start goal C (insert (cur, e, n) (Pair cur ` set es)) s"
    using Cons.prems(1) a by simp
  from relax_step [OF gc this Cons.prems(3,4)] Cons.prems(2) a
  obtain s1 where s1: "relax gc (point_at gc goal) cur a s = Inr s1"
      "search_inv gc start goal C (Pair cur ` set es) s1" "\<forall>u \<in> C. gval s1 u = gval s u"
    by auto
  have "\<exists>s'. foldE (relax gc (point_at gc goal) cur) es s1 = Inr s' \<and> search_inv gc start goal C {} s'"
    by (rule Cons.IH [OF s1(2)]) (use Cons.prems s1(3) in auto)
  then show ?case using s1(1) by simp
qed simp

text \<open>Taking the current vertex out of the open set.\<close>

lemma expand:
  assumes inv: "search_inv gc start goal C {} s" and cur: "cur \<in> set (open_set s)" "cur \<noteq> goal"
    and least: "\<forall>v \<in> set (open_set s). gval s cur + vdist gc cur goal \<le> gval s v + vdist gc v goal"
  shows "search_inv gc start goal (insert cur C) (Pair cur ` set (outgoing (base gc) cur))
           (s\<lparr> open_set := removeAll cur (open_set s) \<rparr>)"
    and "\<forall>u \<in> insert cur C. gval s u + vdist gc u goal \<le> gval s cur + vdist gc cur goal"
proof -
  let ?s = "s\<lparr> open_set := removeAll cur (open_set s) \<rparr>"
  have U: "insert cur C \<union> set (open_set ?s) = C \<union> set (open_set s)" using cur(1) by auto
  have g: "gval ?s = gval s" by (rule ext) (simp add: gval_def)
  show "search_inv gc start goal (insert cur C) (Pair cur ` set (outgoing (base gc) cur)) ?s"
  proof (rule search_invI)
    show "insert cur C \<subseteq> set (Vertices (base gc))" "set (open_set ?s) \<subseteq> set (Vertices (base gc))"
      "insert cur C \<inter> set (open_set ?s) = {}" "goal \<notin> insert cur C"
      using search_invD(1-4) [OF inv] cur by auto
    show "start \<in> insert cur C \<union> set (open_set ?s)" unfolding U by (rule search_invD(5) [OF inv])
    show "gval ?s start = 0" unfolding g by (rule search_invD(6) [OF inv])
    show "(score_at (g_score ?s) v = None) = (v \<notin> insert cur C \<union> set (open_set ?s))"
      if "v \<in> set (Vertices (base gc))" for v
      unfolding U using search_invD(7) [OF inv that] by simp
    show "score_at (f_score ?s) v = plus_score (score_at (g_score ?s) v) (vdist gc v goal)"
      if "v \<in> set (Vertices (base gc))" for v
      using search_invD(8) [OF inv that] by simp
    show "\<exists>xs. pred_chain (came_from ?s) start (insert cur C) v xs \<and> walk gc start xs v (gval ?s v)"
      if v: "v \<in> insert cur C \<union> set (open_set ?s)" for v
    proof -
      obtain xs where "pred_chain (came_from s) start C v xs" "walk gc start xs v (gval s v)"
        using search_invD(9) [OF inv] v unfolding U by blast
      then show ?thesis unfolding g by (auto intro: chain_mono)
    qed
    show "v \<in> insert cur C \<union> set (open_set ?s) \<and> gval ?s v \<le> gval ?s u + vdist gc u v"
      if u: "u \<in> insert cur C" "(e, v) \<in> set (outgoing (base gc) u)"
        "(u, e, v) \<notin> Pair cur ` set (outgoing (base gc) cur)" for u e v
    proof -
      have "u \<in> C" using u by auto
      then show ?thesis unfolding U g using search_invD(10) [OF inv _ u(2)] by blast
    qed
    show "gval ?s u + vdist gc u goal \<le> gval ?s v + vdist gc v goal"
      if "u \<in> insert cur C" "v \<in> set (open_set ?s)" for u v
      unfolding g using search_invD(11) [OF inv] least that by auto
  qed
  show "\<forall>u \<in> insert cur C. gval s u + vdist gc u goal \<le> gval s cur + vdist gc cur goal"
    using search_invD(11) [OF inv _ cur(1)] by auto
qed

text \<open>What a search should return.\<close>

definition shortest :: "graph_of_configs \<Rightarrow> vid \<Rightarrow> vid \<Rightarrow> (score \<times> vid list) throws \<Rightarrow> bool" where
  "shortest gc start goal r \<longleftrightarrow>
     (\<exists>c p. r = Inr (Some c, p) \<and> walk gc start p goal c \<and> (\<forall>p' c'. walk gc start p' goal c' \<longrightarrow> c \<le> c'))
     \<or> (r = Inl ''No path found'' \<and> (\<forall>p c. \<not> walk gc start p goal c))"

text \<open>What the loop establishes, in terms of the set \<open>C\<close> of expanded vertices: a walk that leaves \<open>C\<close> cannot
  be continued to the goal at a lower cost than the one returned.\<close>

definition found :: "graph_of_configs \<Rightarrow> vid set \<Rightarrow> vid \<Rightarrow> vid \<Rightarrow> (score \<times> vid list) throws \<Rightarrow> bool" where
  "found gc C start goal r \<longleftrightarrow> C \<subseteq> set (Vertices (base gc)) \<and> goal \<notin> C
     \<and> ((\<exists>c p. r = Inr (Some c, p) \<and> walk gc start p goal c
           \<and> (\<forall>q u k. walk gc start q u k \<longrightarrow> u \<notin> C \<longrightarrow> c \<le> k + vdist gc u goal))
        \<or> (r = Inl ''No path found'' \<and> (\<forall>q u k. walk gc start q u k \<longrightarrow> u \<in> C)))"

lemma found_shortest:
  assumes "gc_inv gc" "goal \<in> set (Vertices (base gc))" "found gc C start goal r"
  shows "shortest gc start goal r"
proof -
  have z: "vdist gc goal goal = 0" using met.self [OF gc_inv_valid [OF assms(1,2)]] by (simp add: vdist_def)
  have C: "goal \<notin> C" using assms(3) by (simp add: found_def)
  from assms(3) consider (path) c p where "r = Inr (Some c, p)" "walk gc start p goal c"
      "\<And>q u k. walk gc start q u k \<Longrightarrow> u \<notin> C \<Longrightarrow> c \<le> k + vdist gc u goal"
    | (none) "r = Inl ''No path found''" "\<And>q u k. walk gc start q u k \<Longrightarrow> u \<in> C"
    unfolding found_def by blast
  then show ?thesis
  proof cases
    case path
    have "c \<le> c'" if "walk gc start p' goal c'" for p' c' using path(3) [OF that C] z by simp
    then show ?thesis using path(1,2) by (auto simp: shortest_def)
  next
    case none
    then show ?thesis using C by (auto simp: shortest_def)
  qed
qed

text \<open>Edges may be added while the search runs, at the vertex that is about to be expanded.\<close>

definition grows_at :: "vid set \<Rightarrow> graph_of_configs \<Rightarrow> graph_of_configs \<Rightarrow> bool" where
  "grows_at A gc gc' \<longleftrightarrow> set (Vertices (base gc')) = set (Vertices (base gc))
     \<and> point_of (base gc') = point_of (base gc) \<and> dist_func gc' = dist_func gc
     \<and> (\<forall>u \<in> set (Vertices (base gc)). set (outgoing (base gc) u) \<subseteq> set (outgoing (base gc') u))
     \<and> (\<forall>u \<in> set (Vertices (base gc)) - A. outgoing (base gc') u = outgoing (base gc) u)"

lemma grows_refl: "grows_at A gc gc"
  by (simp add: grows_at_def)

lemma grows_trans:
  assumes "grows_at A gc gc'" "grows_at B gc' gc''" "A \<union> B \<subseteq> D"
  shows "grows_at D gc gc''"
  unfolding grows_at_def
proof (intro conjI ballI)
  note g = assms(1,2) [unfolded grows_at_def]
  show "set (Vertices (base gc'')) = set (Vertices (base gc))" "point_of (base gc'') = point_of (base gc)"
    "dist_func gc'' = dist_func gc"
    using g by simp_all
  fix u assume u: "u \<in> set (Vertices (base gc))"
  then show "set (outgoing (base gc) u) \<subseteq> set (outgoing (base gc'') u)" using g by fastforce
next
  note g = assms(1,2) [unfolded grows_at_def]
  fix u assume "u \<in> set (Vertices (base gc)) - D"
  then have "u \<in> set (Vertices (base gc)) - A" "u \<in> set (Vertices (base gc)) - B" using assms(3) by auto
  then show "outgoing (base gc'') u = outgoing (base gc) u" using g by simp
qed

lemma grows_vdist: "grows_at A gc gc' \<Longrightarrow> vdist gc' u v = vdist gc u v"
  by (simp add: grows_at_def vdist_def point_at_def)

lemma grows_walk:
  assumes "gc_inv gc" "gc_inv gc'" "grows_at A gc gc'" "start \<in> set (Vertices (base gc))" "walk gc start p v c"
  shows "walk gc' start p v c"
  using assms(5)
proof induction
  case here
  show ?case by (rule walk.here)
next
  case (step p u c e v k)
  have u: "u \<in> set (Vertices (base gc))" using walk_vertices [OF assms(1,4) step.hyps(1)] by simp
  then have e: "(e, v) \<in> set (outgoing (base gc') u)" "u \<in> set (Vertices (base gc'))"
    using assms(3) step.hyps(2) by (auto simp: grows_at_def)
  have "edge_cost gc' e = Some k"
    using gc_inv_edge [OF assms(2) e(2,1)] gc_inv_edge [OF assms(1) u step.hyps(2)] step.hyps(3) grows_vdist [OF assms(3)]
    by simp
  then show ?case using walk.step [OF step.IH e(1)] by simp
qed

lemma search_inv_grows:
  assumes gc: "gc_inv gc" "gc_inv gc'" "grows_at {v} gc gc'" "v \<notin> C" "start \<in> set (Vertices (base gc))"
    and inv: "search_inv gc start goal C {} s"
  shows "search_inv gc' start goal C {} s"
proof (rule search_invI)
  have V: "set (Vertices (base gc')) = set (Vertices (base gc))" using gc(3) by (simp add: grows_at_def)
  note d = grows_vdist [OF gc(3)]
  show "C \<subseteq> set (Vertices (base gc'))" "set (open_set s) \<subseteq> set (Vertices (base gc'))"
    unfolding V by (fact search_invD(1,2) [OF inv])+
  show "score_at (g_score s) w = None \<longleftrightarrow> w \<notin> C \<union> set (open_set s)"
    "score_at (f_score s) w = plus_score (score_at (g_score s) w) (vdist gc' w goal)"
    if "w \<in> set (Vertices (base gc'))" for w
    using search_invD(7,8) [OF inv] that unfolding V d by blast+
  show "\<exists>xs. pred_chain (came_from s) start C w xs \<and> walk gc' start xs w (gval s w)" if "w \<in> C \<union> set (open_set s)" for w
    using search_invD(9) [OF inv that] grows_walk [OF gc(1-3,5)] by blast
  show "w \<in> C \<union> set (open_set s) \<and> gval s w \<le> gval s u + vdist gc' u w"
    if "u \<in> C" "(e, w) \<in> set (outgoing (base gc') u)" "(u, e, w) \<notin> {}" for u e w
  proof -
    have "u \<in> set (Vertices (base gc))" "u \<noteq> v" using search_invD(1) [OF inv] that(1) gc(4) by auto
    then have "(e, w) \<in> set (outgoing (base gc) u)" using gc(3) that(2) by (auto simp: grows_at_def)
    then show ?thesis unfolding d by (rule search_invD(10) [OF inv that(1) _ that(3)])
  qed
  show "gval s u + vdist gc' u goal \<le> gval s w + vdist gc' w goal" if "u \<in> C" "w \<in> set (open_set s)" for u w
    unfolding d by (rule search_invD(11) [OF inv that])
qed (fact search_invD(3-6) [OF inv])+

text \<open>The interface between the search and what supplies the edges: the callback never throws on a graph in its
  state, keeps that state, adds edges at the vertex it is called for only, and leaves it complete.\<close>

locale edge_supplier =
  fixes add :: add_edges and ok :: "graph_of_configs \<Rightarrow> bool" and complete :: "graph_of_configs \<Rightarrow> vid \<Rightarrow> bool"
  assumes ok_inv: "ok gc \<Longrightarrow> gc_inv gc"
    and supplies: "ok gc \<Longrightarrow> v \<in> set (Vertices (base gc)) \<Longrightarrow>
      \<exists>gc'. call_add_edges add v gc = (Inr (), gc') \<and> ok gc' \<and> grows_at {v} gc gc' \<and> complete gc' v"
    and complete_grows: "complete gc u \<Longrightarrow> ok gc \<Longrightarrow> u \<in> set (Vertices (base gc)) \<Longrightarrow> grows_at A gc gc' \<Longrightarrow> complete gc' u"
begin

lemma loop_result:
  assumes "ok gc" "goal \<in> set (Vertices (base gc))" "start \<in> set (Vertices (base gc))"
    and "search_inv gc start goal C {} s" "\<forall>u \<in> C. complete gc u"
  shows "\<exists>r gc' C'. astar_loop add start goal (point_at gc goal) s gc = Some (r, gc') \<and> ok gc'
    \<and> grows_at UNIV gc gc' \<and> found gc' C' start goal r \<and> (\<forall>u \<in> C'. complete gc' u)"
  using assms
proof (induction "card (set (Vertices (base gc)) - C)" arbitrary: C s gc rule: less_induct)
  case less
  note gc = ok_inv [OF less.prems(1)] less.prems(2,3) and inv = less.prems(4)
  show ?case
  proof (cases "open_set s = []")
    case True
    have "v \<in> C" if "walk gc start p v c" for p v c
      using walk_bound [OF gc inv that] True by simp
    then have "found gc C start goal (Inl ''No path found'')"
      using search_invD(1,4) [OF inv] by (auto simp: found_def)
    then show ?thesis using True less.prems(1,5) grows_refl by (subst astar_loop.simps) auto
  next
    case False
    have "\<forall>v \<in> set (open_set s). score_at (f_score s) v = Some (gval s v + vdist gc v goal)"
      using search_inv_score(2) [OF inv] by simp
    from pick_least [OF this False] obtain cur where cur: "pick (f_score s) (open_set s) = Some cur"
        "cur \<in> set (open_set s)"
        "\<forall>v \<in> set (open_set s). gval s cur + vdist gc cur goal \<le> gval s v + vdist gc v goal"
      by blast
    show ?thesis
    proof (cases "cur = goal")
      case True
      obtain xs where xs: "pred_chain (came_from s) start C goal xs" "walk gc start xs goal (gval s goal)"
        using search_invD(9) [OF inv] cur(2) True by blast
      have z: "vdist gc goal goal = 0" using met.self [OF gc_inv_valid [OF gc(1,2)]] by (simp add: vdist_def)
      have "gval s goal \<le> k + vdist gc u goal" if "walk gc start q u k" "u \<notin> C" for q u k
        using walk_bound [OF gc inv that(1)] that(2) cur(3) True z by force
      then have "found gc C start goal (Inr (Some (gval s goal), xs))"
        using xs(2) search_invD(1,4) [OF inv] by (auto simp: found_def)
      then show ?thesis
        using False cur(1,2) True chain_rebuild [OF xs(1), of "[]"] search_inv_score(1) [OF inv, of goal] less.prems(1,5) grows_refl
        by (subst astar_loop.simps) auto
    next
      case False2: False
      have curV: "cur \<in> set (Vertices (base gc))" "cur \<notin> C" using cur(2) search_invD(2,3) [OF inv] by auto
      from supplies [OF less.prems(1) curV(1)] obtain gc1 where
        gc1: "call_add_edges add cur gc = (Inr (), gc1)" "ok gc1" "grows_at {cur} gc gc1" "complete gc1 cur"
        by blast
      have V: "set (Vertices (base gc1)) = set (Vertices (base gc))" and p: "point_at gc1 goal = point_at gc goal"
        using gc1(3) by (auto simp: grows_at_def point_at_def)
      have gc1': "gc_inv gc1" "goal \<in> set (Vertices (base gc1))" "start \<in> set (Vertices (base gc1))"
        using ok_inv [OF gc1(2)] gc(2,3) V by auto
      have inv1: "search_inv gc1 start goal C {} s"
        by (rule search_inv_grows [OF gc(1) gc1'(1) gc1(3) curV(2) gc(3) inv])
      have "\<forall>v \<in> set (open_set s). gval s cur + vdist gc1 cur goal \<le> gval s v + vdist gc1 v goal"
        using cur(3) grows_vdist [OF gc1(3)] by simp
      note ex = expand [OF inv1 cur(2) False2 this]
      let ?s = "s\<lparr> open_set := removeAll cur (open_set s) \<rparr>"
      have g: "gval ?s = gval s" by (rule ext) (simp add: gval_def)
      have "\<forall>u \<in> insert cur C. gval ?s u + vdist gc1 u goal \<le> gval ?s cur + vdist gc1 cur goal"
        unfolding g by (rule ex(2))
      from relax_all [OF gc1' ex(1) subset_refl insertI1 this]
      obtain s' where s': "foldE (relax gc1 (point_at gc1 goal) cur) (outgoing (base gc1) cur) ?s = Inr s'"
          "search_inv gc1 start goal (insert cur C) {} s'" by blast
      have "set (Vertices (base gc)) - insert cur C \<subset> set (Vertices (base gc)) - C"
        using curV by blast
      then have "card (set (Vertices (base gc1)) - insert cur C) < card (set (Vertices (base gc)) - C)"
        unfolding V by (intro psubset_card_mono) auto
      moreover have "\<forall>u \<in> insert cur C. complete gc1 u"
        using gc1(4) complete_grows [OF _ less.prems(1) _ gc1(3)] less.prems(5) search_invD(1) [OF inv] by blast
      ultimately obtain r gc' C' where r: "astar_loop add start goal (point_at gc1 goal) s' gc1 = Some (r, gc')" "ok gc'"
          "grows_at UNIV gc1 gc'" "found gc' C' start goal r" "\<forall>u \<in> C'. complete gc' u"
        using less.hyps [OF _ gc1(2) gc1'(2,3) s'(2)] by blast
      have "astar_loop add start goal (point_at gc goal) s gc = Some (r, gc')"
        using False cur(1) False2 gc1(1) s'(1) r(1) p by (subst astar_loop.simps) simp
      moreover have "grows_at UNIV gc gc'" by (rule grows_trans [OF gc1(3) r(3)]) simp
      ultimately show ?thesis using r(2,4,5) by blast
    qed
  qed
qed

lemma search_result:
  assumes "ok gc" "start \<in> set (Vertices (base gc))" "goal \<in> set (Vertices (base gc))"
  shows "\<exists>r gc' C. CalcShortestPath add start goal gc = Some (r, gc') \<and> ok gc' \<and> grows_at UNIV gc gc'
    \<and> found gc' C start goal r \<and> (\<forall>u \<in> C. complete gc' u)"
proof -
  note inv = ok_inv [OF assms(1)]
  let ?V = "set (Vertices (base gc))"
  let ?inf = "\<lambda>v. if v \<in> ?V then Some None else None"
  let ?s = "\<lparr> open_set = [start], came_from = (\<lambda>_. None), g_score = ?inf(start \<mapsto> Some 0),
              f_score = ?inf(start \<mapsto> Some (vdist gc start goal)) \<rparr>"
  have init: "score_at (g_score ?s) v = (if v = start then Some 0 else None)"
      "score_at (f_score ?s) v = (if v = start then Some (vdist gc start goal) else None)" if "v \<in> ?V" for v
    using that by (simp_all add: score_at_def)
  have g0: "gval ?s start = 0" by (simp add: gval_def score_at_def)
  have "search_inv gc start goal {} {} ?s"
  proof (rule search_invI)
    show "\<exists>xs. pred_chain (came_from ?s) start {} v xs \<and> walk gc start xs v (gval ?s v)"
      if "v \<in> {} \<union> set (open_set ?s)" for v
    proof -
      have "v = start" using that by simp
      then show ?thesis using g0 by (auto intro: pred_chain.stop walk.here)
    qed
  qed (use assms(2) init g0 in \<open>auto simp: plus_score_def\<close>)
  from loop_result [OF assms(1,3,2) this] show ?thesis
    by (simp add: CalcShortestPath_def Let_def gc_inv_point [OF inv] gc_inv_distance [OF inv] assms(2,3))
qed

end

interpretation no_supply: edge_supplier None gc_inv "\<lambda>_ _. True"
  by unfold_locales (auto simp: call_add_edges_def grows_refl)

text \<open>Without a callback the graph does not change at all.\<close>

lemma astar_loop_None_graph:
  assumes "astar_loop add start goal q s gc = Some y"
  shows "add = None \<longrightarrow> snd y = gc"
  by (rule astar_loop.raw_induct [OF _ assms])
    (auto simp: call_add_edges_def split: if_splits option.splits sum.splits)

lemma search_None_graph: "CalcShortestPath None start goal gc = Some (r, gc') \<Longrightarrow> gc' = gc"
  by (auto simp: CalcShortestPath_def Let_def dest!: astar_loop_None_graph split: option.splits sum.splits)

section \<open>Building the graph\<close>

inductive built :: "base_add_vertex \<Rightarrow> base_add_edge \<Rightarrow> graph_of_configs \<Rightarrow> bool" for addv adde where
  construct: "GraphOfConfigs b n js weights t = Inr gc \<Longrightarrow> Vertices b = [] \<Longrightarrow> distinct js \<Longrightarrow> \<forall>j \<in> set js. j < n
    \<Longrightarrow> built addv adde gc"
| add_vertex: "built addv adde gc \<Longrightarrow> length p = gc_dim gc \<Longrightarrow> AddVertex addv (Point p) name gc = Inr (v, gc')
    \<Longrightarrow> built addv adde gc'"
| add_edge: "built addv adde gc \<Longrightarrow> u \<in> set (Vertices (base gc)) \<Longrightarrow> v \<in> set (Vertices (base gc))
    \<Longrightarrow> AddEdge adde u v name gc = Inr (e, gc') \<Longrightarrow> built addv adde gc'"

lemma gc_inv_construct:
  assumes "GraphOfConfigs b n js weights t = Inr gc" "Vertices b = []" "distinct js" "\<forall>j \<in> set js. j < n"
  shows "gc_inv gc"
  using assms
  by (auto simp: GraphOfConfigs_def MakeDistanceFunction_def bindE_Inr_iff gc_inv_def df_ok_def Let_def split: if_splits)

lemma gc_inv_AddVertex [inv_intros]:
  assumes "adds_vertex addv" "gc_inv gc" "length p = gc_dim gc" "AddVertex addv (Point p) name gc = Inr (v, gc')"
  shows "gc_inv gc' \<and> v \<in> set (Vertices (base gc'))"
proof -
  obtain b where b: "addv p name (base gc) = (v, b)" "gc' = gc\<lparr> base := b \<rparr>"
    using assms(4) by (auto simp: AddVertex_def split: prod.splits)
  have new: "v \<notin> set (Vertices (base gc))" "set (Vertices b) = insert v (set (Vertices (base gc)))"
      "point_of b = (point_of (base gc))(v \<mapsto> p)" "outgoing b = (outgoing (base gc))(v := [])"
    using assms(1) b(1) unfolding adds_vertex_def by blast+
  have old: "vdist gc' u w = vdist gc u w" if "u \<in> set (Vertices (base gc))" "w \<in> set (Vertices (base gc))" for u w
  proof -
    have "u \<noteq> v" "w \<noteq> v" using that new(1) by auto
    then show ?thesis by (simp add: vdist_def point_at_def b(2) new(3))
  qed
  have "w \<in> set (Vertices b) \<and> edge_cost gc e = Some (vdist gc' u w)"
    if "u \<in> set (Vertices b)" "(e, w) \<in> set (outgoing b u)" for u e w
  proof -
    have "u \<in> set (Vertices (base gc))" "(e, w) \<in> set (outgoing (base gc) u)"
      using that new(2,4) by (auto split: if_splits)
    with gc_inv_edge [OF assms(2) this] old show ?thesis by (simp add: new(2))
  qed
  moreover have "\<exists>q. point_of b w = Some q \<and> length q = gc_dim gc" if "w \<in> set (Vertices b)" for w
    using that assms(2,3) new by (cases "w = v") (auto simp: gc_inv_def)
  ultimately show ?thesis using assms(2) new(2) by (auto simp: gc_inv_def b(2))
qed

lemma gc_inv_AddEdge [inv_intros]:
  assumes "adds_edge adde" "gc_inv gc" "u \<in> set (Vertices (base gc))" "v \<in> set (Vertices (base gc))"
  shows "\<exists>e gc'. AddEdge adde u v name gc = Inr (e, gc') \<and> gc_inv gc'
    \<and> (e, v) \<in> set (outgoing (base gc') u) \<and> GetEdgeCost gc' e = Inr (vdist gc u v)"
proof -
  obtain e b where b: "adde u v name (base gc) = (e, b)" by (cases "adde u v name (base gc)")
  let ?gc = "gc\<lparr> base := b, edge_cost := (edge_cost gc)(e \<mapsto> vdist gc u v) \<rparr>"
  have new: "\<forall>w \<in> set (Vertices (base gc)). e \<notin> fst ` set (outgoing (base gc) w)" "Vertices b = Vertices (base gc)"
      "point_of b = point_of (base gc)" "outgoing b = (outgoing (base gc))(u := outgoing (base gc) u @ [(e, v)])"
    using assms(1,3,4) b unfolding adds_edge_def by blast+
  have r: "AddEdge adde u v name gc = Inr (e, ?gc)"
    using gc_inv_point [OF assms(2,3)] gc_inv_point [OF assms(2,4)] gc_inv_distance [OF assms(2-4)] b
    by (simp add: AddEdge_def)
  have d: "vdist ?gc x y = vdist gc x y" for x y by (simp add: vdist_def point_at_def new(3))
  have "y \<in> set (Vertices (base gc)) \<and> edge_cost ?gc a = Some (vdist gc x y)"
    if x: "x \<in> set (Vertices (base gc))" "(a, y) \<in> set (outgoing b x)" for x a y
  proof (cases "(x, a, y) = (u, e, v)")
    case True
    then show ?thesis using assms(4) by simp
  next
    case False
    then have o: "(a, y) \<in> set (outgoing (base gc) x)" using x(2) by (auto simp: new(4) split: if_splits)
    then have "a \<noteq> e" using new(1) x(1) by force
    then show ?thesis using gc_inv_edge [OF assms(2) x(1) o] by simp
  qed
  then have "gc_inv ?gc" using assms(2) by (auto simp: gc_inv_def new(2,3) d)
  then show ?thesis using r by (simp add: new(4) GetEdgeCost_def)
qed

section \<open>Properties\<close>

text \<open>A graph made by the constructor on distinct joints and any number of calls of \<open>AddVertex\<close> with
  points of the dimension and of \<open>AddEdge\<close> between its vertices is well formed: every edge has its cost on
  record, and it is the distance of its two ends at the time of every later call.\<close>
theorem built_graph_inv:
  assumes "adds_vertex addv" "adds_edge adde" "built addv adde gc"
  shows "gc_inv gc"
  using assms(3)
proof induction
  case (construct b n js weights t gc)
  then show ?case by (rule gc_inv_construct)
next
  case (add_vertex gc p name v gc')
  then show ?case using gc_inv_AddVertex [OF assms(1)] by blast
next
  case (add_edge gc u v name e gc')
  then show ?case using gc_inv_AddEdge [OF assms(2), of gc u v name] by auto
qed

text \<open>C1: The search is correct and ends.  On a graph in which every vertex has a configuration of the
  dimension and every edge costs the distance of its ends, for any of the three metrics, with or
  without continuous joints, \<open>CalcShortestPath\<close> without callback leaves the graph unchanged and returns the cost and the vertices of a walk
  of the graph from the start to the goal such that no walk between the two is cheaper, or throws
  \<open>No path found\<close> and there is no walk.\<close>
theorem shortest_path_correct:
  assumes "gc_inv gc" "start \<in> set (Vertices (base gc))" "goal \<in> set (Vertices (base gc))"
  shows "\<exists>r. CalcShortestPath None start goal gc = Some (r, gc) \<and> shortest gc start goal r"
proof -
  obtain r gc' C where "CalcShortestPath None start goal gc = Some (r, gc')" "gc_inv gc'" "grows_at UNIV gc gc'"
      "found gc' C start goal r"
    using no_supply.search_result [OF assms] by blast
  moreover from this(1) have "gc' = gc" by (rule search_None_graph)
  ultimately show ?thesis using found_shortest assms(1,3) by blast
qed

section \<open>Witnesses\<close>

text \<open>A base class that numbers the vertices and the edges one after the other.\<close>

definition number_vertex :: base_add_vertex where
  "number_vertex p name g = (let v = Suc (Max (insert 0 (set (Vertices g)))) in
     (v, g\<lparr> Vertices := Vertices g @ [v], point_of := (point_of g)(v \<mapsto> p), outgoing := (outgoing g)(v := []) \<rparr>))"

definition number_edge :: base_add_edge where
  "number_edge u v name g = (let e = Suc (Max (insert 0 (\<Union>w \<in> set (Vertices g). fst ` set (outgoing g w)))) in
     (e, g\<lparr> outgoing := (outgoing g)(u := outgoing g u @ [(e, v)]) \<rparr>))"

lemma Suc_Max_fresh: "finite A \<Longrightarrow> Suc (Max (insert 0 A)) \<notin> A"
  by (metis Max_ge Suc_n_not_le_n finite_insert insertCI)

lemma number_laws: "adds_vertex number_vertex" "adds_edge number_edge"
proof -
  show "adds_vertex number_vertex"
    using Suc_Max_fresh by (auto simp: adds_vertex_def number_vertex_def Let_def)
  have "Suc (Max (insert 0 (\<Union>w \<in> set vs. fst ` set (f w)))) \<notin> fst ` set (f w)"
    if "w \<in> set vs" for w :: vid and vs and f :: "vid \<Rightarrow> (eid \<times> vid) list"
    using Suc_Max_fresh [of "\<Union>w \<in> set vs. fst ` set (f w)"] that by blast
  then show "adds_edge number_edge" by (auto simp: adds_edge_def number_edge_def Let_def)
qed

definition no_vertices :: gcs where
  "no_vertices = \<lparr> Vertices = [], point_of = (\<lambda>_. None), outgoing = (\<lambda>_. []) \<rparr>"

definition one_joint :: distance_func where
  "one_joint = \<lparr> df_dim = 1, df_metric = kL1Norm, df_weights = [1], df_joints = [] \<rparr>"

definition two_vertices :: graph_of_configs where
  "two_vertices = \<lparr> base = \<lparr> Vertices = [1, 2], point_of = [1 \<mapsto> [0], 2 \<mapsto> [5]],
       outgoing = (\<lambda>_. [])(1 := [(1, 2)]) \<rparr>, gc_dim = 1, dist_func = one_joint, edge_cost = [1 \<mapsto> 5] \<rparr>"

lemma two_vertices_ok: "gc_inv two_vertices"
  by (auto simp: gc_inv_def two_vertices_def one_joint_def df_ok_def vdist_def dist_value_def point_at_def distance_def
      norm_of_def l1_norm_def weighted_diff_def)

theorem built_graph_inv_witness:
  "\<exists>gc v gc'. GraphOfConfigs no_vertices 1 [] None kL2Norm = Inr gc \<and> AddVertex number_vertex (Point [3]) ''a'' gc = Inr (v, gc')
     \<and> gc_inv gc'"
proof -
  obtain gc where gc: "GraphOfConfigs no_vertices 1 [] None kL2Norm = Inr gc" "gc_dim gc = 1"
    by (simp add: GraphOfConfigs_def MakeDistanceFunction_def)
  obtain v gc' where gc': "AddVertex number_vertex (Point [3]) ''a'' gc = Inr (v, gc')"
    by (simp add: AddVertex_def number_vertex_def Let_def)
  have "built number_vertex number_edge gc" by (rule built.construct [OF gc(1)]) (simp_all add: no_vertices_def)
  then have "built number_vertex number_edge gc'" using built.add_vertex [OF _ _ gc'] gc(2) by simp
  from built_graph_inv [OF number_laws this] gc(1) gc' show ?thesis by blast
qed

theorem shortest_path_correct_witness:
  "\<exists>c p. CalcShortestPath None 1 2 two_vertices = Some (Inr (Some c, p), two_vertices) \<and> walk two_vertices 1 p 2 c"
proof -
  have "walk two_vertices 1 ([1] @ [2]) 2 (0 + 5)"
    by (rule walk.step [OF walk.here]) (simp_all add: two_vertices_def)
  then show ?thesis
    using shortest_path_correct [OF two_vertices_ok, of 1 2]
    by (auto simp: shortest_def two_vertices_def)
qed

end
