(* ===== verification/Hop_Search.thy ===== *)
theory Hop_Search
  imports Config_Graph
begin

text \<open>
  \<open>motion/planning/single_mode_gcs_planner.cc\<close>: from a path in the graph of configurations to a path in the
  graph of convex sets (\<open>CalcHopsFromGoal\<close>, the descent in \<open>ConvertToGcsVertices\<close>) and to the regions
  of the convex hull planner (\<open>ConvertToCHullVertices\<close>).
  The graph of convex sets is Drake's: the functions take the sources of the incoming edges and
  the targets of the outgoing edges of a vertex, in Drake's order.  Hop counts stay below
  \<open>numeric_limits<int>::max()\<close> and are natural numbers.
\<close>

section \<open>Counting hops from the goal\<close>

definition hop_at :: "(vid \<Rightarrow> nat option) \<Rightarrow> vid \<Rightarrow> nat" where
  "hop_at d v = (case d v of None \<Rightarrow> 0 | Some n \<Rightarrow> n)"

definition visit_source ::
  "vid list \<Rightarrow> nat \<Rightarrow> vid \<Rightarrow> (vid \<Rightarrow> nat option) \<times> vid list \<Rightarrow> (vid \<Rightarrow> nat option) \<times> vid list" where
  "visit_source important n v = (\<lambda>(d, q).
     if v \<notin> set important then (d, q)
     else if d v = None then (d(v \<mapsto> Suc n), q @ [v])
     else (d, q))"

definition visit_sources ::
  "vid list \<Rightarrow> (vid \<Rightarrow> vid list) \<Rightarrow> vid \<Rightarrow> (vid \<Rightarrow> nat option) \<Rightarrow> vid list \<Rightarrow> (vid \<Rightarrow> nat option) \<times> vid list" where
  "visit_sources important ins u d q = fold (visit_source important (hop_at d u)) (ins u) (d, q)"

lemma visit_fold_measure:
  assumes "fold (visit_source important n) vs (d, q) = (d', q')"
  shows "2 * card (set important - dom d') + length q' \<le> 2 * card (set important - dom d) + length q"
  using assms
proof (induction vs arbitrary: d q)
  case (Cons v vs)
  obtain d1 q1 where 1: "visit_source important n v (d, q) = (d1, q1)" by (cases "visit_source important n v (d, q)")
  have "2 * card (set important - dom d1) + length q1 \<le> 2 * card (set important - dom d) + length q"
  proof (cases "v \<in> set important \<and> d v = None")
    case True
    then have "set important - dom d = insert v (set important - dom d1)" "v \<notin> set important - dom d1"
        "length q1 = Suc (length q)"
      using 1 by (auto simp: visit_source_def split: if_splits)
    then show ?thesis by simp
  next
    case False
    then show ?thesis using 1 by (auto simp: visit_source_def split: if_splits)
  qed
  moreover have "fold (visit_source important n) vs (d1, q1) = (d', q')" using Cons.prems 1 by simp
  ultimately show ?case using Cons.IH by force
qed simp

function hops_loop :: "vid list \<Rightarrow> (vid \<Rightarrow> vid list) \<Rightarrow> (vid \<Rightarrow> nat option) \<Rightarrow> vid list \<Rightarrow> (vid \<Rightarrow> nat option)" where
  "hops_loop important ins d [] = d"
| "hops_loop important ins d (u # q) = (case visit_sources important ins u d q of
     (d', q') \<Rightarrow> hops_loop important ins d' q')"
  by pat_completeness auto

termination
proof (relation "measure (\<lambda>(important, ins, d, q). 2 * card (set important - dom d) + length q)")
  fix important :: "vid list" and ins d u q d' q'
  assume "(d', q') = visit_sources important ins u d q"
  then have "fold (visit_source important (hop_at d u)) (ins u) (d, q) = (d', q')"
    by (simp add: visit_sources_def eq_commute)
  from visit_fold_measure [OF this]
  show "((important, ins, d', q'), (important, ins, d, u # q))
      \<in> measure (\<lambda>(important, ins, d, q). 2 * card (set important - dom d) + length q)"
    by simp
qed simp

definition CalcHopsFromGoal :: "vid list \<Rightarrow> (vid \<Rightarrow> vid list) \<Rightarrow> vid \<Rightarrow> (vid \<Rightarrow> nat option)" where
  "CalcHopsFromGoal important ins goal = hops_loop important ins [goal \<mapsto> 0] [goal]"

section \<open>The descent to the goal\<close>

definition less_hops :: "(vid \<Rightarrow> nat option) \<Rightarrow> vid \<Rightarrow> (vid \<times> nat) option \<Rightarrow> (vid \<times> nat) option" where
  "less_hops hops v best = (case hops v of
     None \<Rightarrow> best
   | Some n \<Rightarrow> (case best of None \<Rightarrow> Some (v, n) | Some (_, m) \<Rightarrow> if n < m then Some (v, n) else best))"

definition min_hops :: "(vid \<Rightarrow> nat option) \<Rightarrow> vid list \<Rightarrow> vid option" where
  "min_hops hops vs = map_option fst (fold (less_hops hops) vs None)"

partial_function (option) descend ::
  "(vid \<Rightarrow> nat option) \<Rightarrow> (vid \<Rightarrow> vid list) \<Rightarrow> vid \<Rightarrow> vid \<Rightarrow> vid list \<Rightarrow> vid list throws option" where
  "descend hops outs goal cur path = (if cur = goal then Some (Inr (path @ [cur]))
     else case min_hops hops (outs cur) of
       None \<Rightarrow> Some (Inl ''DRAKE_DEMAND'')
     | Some v \<Rightarrow> descend hops outs goal v (path @ [cur]))"

section \<open>Regions for the convex hull planner\<close>

type_synonym region_pairs = "vid \<Rightarrow> (nat \<times> nat) option"

definition pair_of :: "region_pairs \<Rightarrow> vid \<Rightarrow> (nat \<times> nat) throws" where
  "pair_of regions v = (case regions v of None \<Rightarrow> Inl ''out_of_range'' | Some ab \<Rightarrow> Inr ab)"

definition chull_step :: "region_pairs \<Rightarrow> vid \<Rightarrow> nat list \<Rightarrow> nat list throws" where
  "chull_step regions v verts = bindE (pair_of regions v) (\<lambda>(a, b).
     Inr (verts @ [if a = last verts then b else a]))"

definition ConvertToCHullVertices :: "region_pairs \<Rightarrow> nat list \<Rightarrow> vid list \<Rightarrow> nat list throws" where
  "ConvertToCHullVertices regions region_index gcc = (case gcc of
     [] \<Rightarrow> Inl ''out_of_range''
   | v # rest \<Rightarrow> bindE (pair_of regions v) (\<lambda>(i, j).
       bindE (case rest of
           [] \<Rightarrow> Inr (if i = j then [j] else [min i j, max i j])
         | w # _ \<Rightarrow> bindE (pair_of regions w) (\<lambda>(i', j').
             foldE (chull_step regions) rest (if i = i' \<or> i = j' then [j, i] else [i, j])))
         (mapE (\<lambda>k. if k < length region_index then Inr (region_index ! k) else Inl ''out_of_range''))))"

section \<open>Lemmas: the hop counts are exact\<close>

inductive hops :: "vid list \<Rightarrow> (vid \<Rightarrow> vid list) \<Rightarrow> vid \<Rightarrow> vid \<Rightarrow> nat \<Rightarrow> bool" for important ins goal where
  goal: "hops important ins goal goal 0"
| farther: "hops important ins goal u n \<Longrightarrow> v \<in> set (ins u) \<Longrightarrow> v \<in> set important
    \<Longrightarrow> hops important ins goal v (Suc n)"

text \<open>The invariant of the breadth first search: the queue holds the vertices of two consecutive levels, in order.\<close>

definition levels :: "(vid \<Rightarrow> nat option) \<Rightarrow> nat \<Rightarrow> vid list \<Rightarrow> bool" where
  "levels d n q \<longleftrightarrow> sorted (map (hop_at d) q) \<and> (\<forall>v \<in> set q. d v \<noteq> None \<and> n \<le> hop_at d v \<and> hop_at d v \<le> Suc n)"

definition bfs_inv ::
  "vid list \<Rightarrow> (vid \<Rightarrow> vid list) \<Rightarrow> vid \<Rightarrow> (vid \<Rightarrow> nat option) \<Rightarrow> vid set \<Rightarrow> vid list \<Rightarrow> bool" where
  "bfs_inv important ins goal d D q \<longleftrightarrow>
     d goal = Some 0 \<and> dom d = D \<union> set q \<and> (\<forall>v n. d v = Some n \<longrightarrow> hops important ins goal v n)
     \<and> (\<exists>n. levels d n q \<and> (\<forall>u \<in> D. hop_at d u \<le> n))
     \<and> (\<forall>u \<in> D. \<forall>v \<in> set (ins u) \<inter> set important. d v \<noteq> None \<and> hop_at d v \<le> Suc (hop_at d u))"

lemma visit_fold:
  assumes "fold (visit_source important n) vs (d, q) = (d', q')"
  shows "\<exists>new. q' = q @ new \<and> dom d' = dom d \<union> set new \<and> (\<forall>v \<in> dom d. d' v = d v)
    \<and> (\<forall>v \<in> set new. d' v = Some (Suc n) \<and> v \<in> set vs \<and> v \<in> set important)
    \<and> set vs \<inter> set important \<subseteq> dom d'"
  using assms
proof (induction vs arbitrary: d q)
  case (Cons v vs)
  obtain d1 q1 where 1: "visit_source important n v (d, q) = (d1, q1)" by (cases "visit_source important n v (d, q)")
  have "fold (visit_source important n) vs (d1, q1) = (d', q')" using Cons.prems 1 by simp
  from Cons.IH [OF this] obtain new where new: "q' = q1 @ new" "dom d' = dom d1 \<union> set new" "\<forall>w \<in> dom d1. d' w = d1 w"
      "\<forall>w \<in> set new. d' w = Some (Suc n) \<and> w \<in> set vs \<and> w \<in> set important" "set vs \<inter> set important \<subseteq> dom d'"
    by blast
  show ?case
  proof (cases "v \<in> set important \<and> d v = None")
    case True
    then have 2: "d1 = d(v \<mapsto> Suc n)" "q1 = q @ [v]" using 1 by (auto simp: visit_source_def)
    have "d' v = Some (Suc n)" using new(3) 2(1) by auto
    moreover have "\<forall>w \<in> dom d. d' w = d w"
    proof
      fix w assume "w \<in> dom d"
      then have "w \<in> dom d1" "w \<noteq> v" using True by (auto simp: 2)
      then show "d' w = d w" using new(3) by (simp add: 2)
    qed
    moreover have "q' = q @ (v # new)" "dom d' = dom d \<union> set (v # new)" using new(1,2) by (auto simp: 2)
    moreover have "set (v # vs) \<inter> set important \<subseteq> dom d'" using new(5) calculation(4) by auto
    ultimately show ?thesis using new(4) True by (intro exI [of _ "v # new"]) auto
  next
    case False
    then have 2: "d1 = d" "q1 = q" using 1 by (auto simp: visit_source_def split: if_splits)
    have "set (v # vs) \<inter> set important \<subseteq> dom d'"
    proof
      fix w assume w: "w \<in> set (v # vs) \<inter> set important"
      show "w \<in> dom d'"
      proof (cases "w = v")
        case True
        then have "w \<in> dom d1" using False w 2(1) by auto
        then show ?thesis using new(2) by simp
      next
        case False
        then show ?thesis using new(5) w by auto
      qed
    qed
    then show ?thesis using new(1-4) 2 by (intro exI [of _ new]) simp
  qed
qed auto

lemma bfs_step:
  assumes inv: "bfs_inv important ins goal d D (u # q)" and v: "visit_sources important ins u d q = (d', q')"
  shows "bfs_inv important ins goal d' (insert u D) q'"
proof -
  have I: "d goal = Some 0" "dom d = D \<union> set (u # q)" "\<And>v n. d v = Some n \<Longrightarrow> hops important ins goal v n"
      "\<And>w v. w \<in> D \<Longrightarrow> v \<in> set (ins w) \<Longrightarrow> v \<in> set important \<Longrightarrow> d v \<noteq> None \<and> hop_at d v \<le> Suc (hop_at d w)"
    using inv unfolding bfs_inv_def by blast+
  from inv obtain n where "levels d n (u # q)" and old: "\<forall>w \<in> D. hop_at d w \<le> n"
    unfolding bfs_inv_def by blast
  then have L: "sorted (map (hop_at d) q)" "\<forall>w \<in> set q. hop_at d u \<le> hop_at d w \<and> hop_at d w \<le> Suc n" "n \<le> hop_at d u"
      "d u \<noteq> None"
    by (auto simp: levels_def)
  let ?n = "hop_at d u"
  obtain new where new: "q' = q @ new" "dom d' = dom d \<union> set new" "\<forall>w \<in> dom d. d' w = d w"
      "\<forall>w \<in> set new. d' w = Some (Suc ?n) \<and> w \<in> set (ins u) \<and> w \<in> set important"
      "set (ins u) \<inter> set important \<subseteq> dom d'"
    using visit_fold [OF v [unfolded visit_sources_def]] by blast
  have same: "hop_at d' w = hop_at d w" if "w \<in> dom d" for w using new(3) that by (simp add: hop_at_def)
  have fresh: "hop_at d' w = Suc ?n" if "w \<in> set new" for w using new(4) that by (simp add: hop_at_def)
  have q: "set q \<subseteq> dom d" "u \<in> dom d" "D \<subseteq> dom d" using I(2) by auto
  have mq: "map (hop_at d') q = map (hop_at d) q" using q(1) same by auto
  have up: "hop_at d w \<le> Suc ?n" if "w \<in> set q" for w using L(2,3) that by force
  have hu: "hops important ins goal u ?n" using I(3) q(2) by (auto simp: hop_at_def)
  have "levels d' ?n q'"
  proof -
    have "sorted (map (hop_at d') q')"
    proof -
      have "map (hop_at d') new = replicate (length new) (Suc ?n)"
        using fresh by (intro replicate_eqI) auto
      then have "map (hop_at d') q' = map (hop_at d) q @ replicate (length new) (Suc ?n)" using mq new(1) by simp
      then show ?thesis using L(1) up by (auto simp: sorted_append)
    qed
    moreover have "d' w \<noteq> None \<and> ?n \<le> hop_at d' w \<and> hop_at d' w \<le> Suc ?n" if "w \<in> set q'" for w
    proof (cases "w \<in> set new")
      case True
      then show ?thesis using fresh new(4) by simp
    next
      case False
      then have w: "w \<in> set q" using that new(1) by auto
      then have "w \<in> dom d'" using q(1) new(2) by auto
      then show ?thesis using same [of w] q(1) L(2,3) w by force
    qed
    ultimately show ?thesis by (simp add: levels_def)
  qed
  moreover have "hop_at d' w \<le> ?n" if "w \<in> insert u D" for w
    using that old L(3) same q by (cases "w = u") force+
  moreover have "d' w \<noteq> None \<and> hop_at d' w \<le> Suc (hop_at d' x)"
    if x: "x \<in> insert u D" "w \<in> set (ins x) \<inter> set important" for x w
  proof (cases "x = u")
    case True
    show ?thesis
    proof (cases "w \<in> dom d")
      case True
      then have "hop_at d w \<le> Suc ?n" using I(2) old L(2,3) by force
      then show ?thesis using True new(2) same q(2) \<open>x = u\<close> by (metis Un_iff domIff)
    next
      case False
      then have "w \<in> set new" using x(2) new(2,5) \<open>x = u\<close> by auto
      then show ?thesis using fresh same q(2) new(4) \<open>x = u\<close> by simp
    qed
  next
    case False
    then have "x \<in> D" using x(1) by simp
    with I(4) x(2) have "w \<in> dom d" "hop_at d w \<le> Suc (hop_at d x)" by auto
    then show ?thesis using new(2) same q(3) \<open>x \<in> D\<close> by (metis Un_iff domIff subsetD)
  qed
  moreover have "hops important ins goal w m" if "d' w = Some m" for w m
  proof (cases "w \<in> set new")
    case True
    then have "m = Suc ?n" "w \<in> set (ins u)" "w \<in> set important" using new(4) that by auto
    then show ?thesis using hops.farther [OF hu] by simp
  next
    case False
    then have "w \<in> dom d" using that new(2) by auto
    then show ?thesis using I(3) new(3) that by simp
  qed
  moreover have "d' goal = Some 0" using I(1) new(3) by force
  moreover have "dom d' = insert u D \<union> set q'" using new(1,2) I(2) by auto
  ultimately show ?thesis unfolding bfs_inv_def by blast
qed

lemma bfs_end: "bfs_inv important ins goal d D q \<Longrightarrow> \<exists>D'. bfs_inv important ins goal (hops_loop important ins d q) D' []"
proof (induction important ins d q arbitrary: D rule: hops_loop.induct)
  case (2 important ins d u q)
  obtain d' q' where v: "visit_sources important ins u d q = (d', q')" by (cases "visit_sources important ins u d q")
  from "2.IH" [OF v [symmetric] bfs_step [OF "2.prems" v]] show ?case by (simp add: v)
qed auto

lemma bfs_done:
  assumes "bfs_inv important ins goal d D []"
  shows "d v = Some n \<longleftrightarrow> hops important ins goal v n \<and> (\<forall>m. hops important ins goal v m \<longrightarrow> n \<le> m)"
proof -
  have I: "d goal = Some 0" "dom d = D" "\<And>v n. d v = Some n \<Longrightarrow> hops important ins goal v n"
      "\<And>w v. w \<in> D \<Longrightarrow> v \<in> set (ins w) \<Longrightarrow> v \<in> set important \<Longrightarrow> d v \<noteq> None \<and> hop_at d v \<le> Suc (hop_at d w)"
    using assms unfolding bfs_inv_def by auto
  have least: "d w \<noteq> None \<and> hop_at d w \<le> m" if "hops important ins goal w m" for w m
    using that
  proof induction
    case goal
    show ?case by (simp add: I(1) hop_at_def)
  next
    case (farther u m v)
    then have "u \<in> D" using I(2) by auto
    with I(4) [OF this farther.hyps(2,3)] farther.IH show ?case by simp
  qed
  show ?thesis
  proof
    assume d: "d v = Some n"
    then show "hops important ins goal v n \<and> (\<forall>m. hops important ins goal v m \<longrightarrow> n \<le> m)"
      using I(3) least by (fastforce simp: hop_at_def)
  next
    assume h: "hops important ins goal v n \<and> (\<forall>m. hops important ins goal v m \<longrightarrow> n \<le> m)"
    then obtain k where k: "d v = Some k" "k \<le> n" using least [of v n] by (auto simp: hop_at_def)
    then show "d v = Some n" using I(3) h by (simp add: order_antisym)
  qed
qed

lemma hops_exact:
  "CalcHopsFromGoal important ins goal v = Some n
     \<longleftrightarrow> hops important ins goal v n \<and> (\<forall>m. hops important ins goal v m \<longrightarrow> n \<le> m)"
proof -
  have "bfs_inv important ins goal [goal \<mapsto> 0] {} [goal]"
    by (auto simp: bfs_inv_def levels_def hop_at_def intro: hops.goal)
  from bfs_end [OF this] obtain D where "bfs_inv important ins goal (hops_loop important ins [goal \<mapsto> 0] [goal]) D []"
    by blast
  from bfs_done [OF this] show ?thesis by (simp add: CalcHopsFromGoal_def)
qed


section \<open>Lemmas: the descent\<close>

lemma less_hops_fold:
  assumes "fold (less_hops d) vs best = r" "\<forall>v n. best = Some (v, n) \<longrightarrow> d v = Some n"
  shows "case r of None \<Rightarrow> best = None \<and> (\<forall>w \<in> set vs. d w = None)
    | Some (v, n) \<Rightarrow> d v = Some n \<and> (v \<in> set vs \<or> best = Some (v, n)) \<and> (\<forall>w \<in> set vs. \<forall>m. d w = Some m \<longrightarrow> n \<le> m)
         \<and> (\<forall>w m. best = Some (w, m) \<longrightarrow> n \<le> m)"
  using assms
proof (induction vs arbitrary: best)
  case Nil
  then show ?case by (auto split: option.split)
next
  case (Cons w vs)
  have 1: "fold (less_hops d) vs (less_hops d w best) = r" using Cons.prems(1) by simp
  have 2: "\<forall>v n. less_hops d w best = Some (v, n) \<longrightarrow> d v = Some n"
    using Cons.prems(2) by (auto simp: less_hops_def split: option.splits)
  have 3: "(d w = None \<and> less_hops d w best = best)
      \<or> (\<exists>v k. less_hops d w best = Some (v, k) \<and> (v = w \<or> best = Some (v, k))
          \<and> (\<forall>m. d w = Some m \<longrightarrow> k \<le> m) \<and> (\<forall>x m. best = Some (x, m) \<longrightarrow> k \<le> m))"
    by (auto simp: less_hops_def split: option.split)
  note IH = Cons.IH [OF 1 2]
  show ?case
  proof (cases r)
    case None
    then have "less_hops d w best = None" "\<forall>w \<in> set vs. d w = None" using IH by auto
    with 3 show ?thesis using None by auto
  next
    case (Some vn)
    obtain v n where r: "r = Some (v, n)" using Some by (cases vn) auto
    have a: "d v = Some n" "v \<in> set vs \<or> less_hops d w best = Some (v, n)" "\<forall>x \<in> set vs. \<forall>m. d x = Some m \<longrightarrow> n \<le> m"
        "\<forall>x m. less_hops d w best = Some (x, m) \<longrightarrow> n \<le> m"
      using IH r by auto
    from 3 show ?thesis
    proof
      assume "d w = None \<and> less_hops d w best = best"
      then show ?thesis using a r by auto
    next
      assume "\<exists>v k. less_hops d w best = Some (v, k) \<and> (v = w \<or> best = Some (v, k))
          \<and> (\<forall>m. d w = Some m \<longrightarrow> k \<le> m) \<and> (\<forall>x m. best = Some (x, m) \<longrightarrow> k \<le> m)"
      then obtain x k where x: "less_hops d w best = Some (x, k)" "x = w \<or> best = Some (x, k)"
          "\<And>m. d w = Some m \<Longrightarrow> k \<le> m" "\<And>y m. best = Some (y, m) \<Longrightarrow> k \<le> m" by blast
      have nk: "n \<le> k" using a(4) x(1) by blast
      have "v \<in> set (w # vs) \<or> best = Some (v, n)" using a(2) x(1,2) by auto
      moreover have "n \<le> m" if "y \<in> set (w # vs)" "d y = Some m" for y m
        using that a(3) x(3) nk by (cases "y = w") (auto intro: le_trans)
      moreover have "n \<le> m" if "best = Some (y, m)" for y m using x(4) [OF that] nk by simp
      ultimately show ?thesis using a(1) r by (simp only: option.case prod.case) blast
    qed
  qed
qed

lemma min_hops_None: "min_hops d vs = None \<longleftrightarrow> (\<forall>w \<in> set vs. d w = None)"
  using less_hops_fold [OF refl, of None d vs] by (force simp: min_hops_def split: option.splits)

lemma min_hops_Some:
  assumes "min_hops d vs = Some v"
  shows "v \<in> set vs" "\<exists>n. d v = Some n \<and> (\<forall>w \<in> set vs. \<forall>m. d w = Some m \<longrightarrow> n \<le> m)"
proof -
  obtain n where "fold (less_hops d) vs None = Some (v, n)" using assms by (auto simp: min_hops_def)
  with less_hops_fold [OF refl, of None d vs]
  show "v \<in> set vs" "\<exists>n. d v = Some n \<and> (\<forall>w \<in> set vs. \<forall>m. d w = Some m \<longrightarrow> n \<le> m)" by auto
qed

text \<open>Routes of the graph of convex sets to the goal: all vertices on the way are among the important ones.\<close>

inductive gcs_route :: "vid list \<Rightarrow> (vid \<Rightarrow> vid list) \<Rightarrow> vid \<Rightarrow> vid \<Rightarrow> vid list \<Rightarrow> bool" for important outs goal where
  stop: "gcs_route important outs goal goal [goal]"
| go: "v \<in> set (outs u) \<Longrightarrow> v \<in> set important \<or> v = goal \<Longrightarrow> gcs_route important outs goal v p
    \<Longrightarrow> gcs_route important outs goal u (u # p)"

lemma route_hops:
  assumes "\<And>u v. v \<in> set (outs u) \<longleftrightarrow> u \<in> set (ins v)"
    and "gcs_route important outs goal u p" "u \<in> set important \<or> u = goal"
  shows "\<exists>n. hops important ins goal u n \<and> Suc n \<le> length p"
  using assms(2,3)
proof induction
  case stop
  show ?case by (auto intro: hops.goal)
next
  case (go v u p)
  from go.IH [OF go.hyps(2)] obtain n where n: "hops important ins goal v n" "Suc n \<le> length p" by blast
  show ?case
  proof (cases "u = goal")
    case True
    then show ?thesis by (auto intro: hops.goal)
  next
    case False
    then have "hops important ins goal u (Suc n)"
      using hops.farther [OF n(1)] go.hyps(1) assms(1) go.prems by blast
    then show ?thesis using n(2) by (intro exI [of _ "Suc n"]) simp
  qed
qed

lemma descend_route:
  assumes adj: "\<And>u v. v \<in> set (outs u) \<longleftrightarrow> u \<in> set (ins v)"
    and "CalcHopsFromGoal important ins goal cur = Some n"
  shows "\<exists>p. descend (CalcHopsFromGoal important ins goal) outs goal cur path = Some (Inr (path @ p))
    \<and> length p = Suc n \<and> gcs_route important outs goal cur p"
  using assms(2)
proof (induction n arbitrary: cur path)
  case 0
  then have "hops important ins goal cur 0" by (simp add: hops_exact)
  then have "cur = goal" by cases
  then show ?case by (subst descend.simps) (auto intro: gcs_route.stop)
next
  case (Suc n)
  let ?d = "CalcHopsFromGoal important ins goal"
  have h: "hops important ins goal cur (Suc n)" "\<And>m. hops important ins goal cur m \<Longrightarrow> Suc n \<le> m"
    using Suc.prems by (simp_all add: hops_exact)
  have "cur \<noteq> goal" using h(2) [of 0] hops.goal by auto
  from h(1) obtain u where u: "hops important ins goal u n" "cur \<in> set (ins u)" "cur \<in> set important"
    by cases auto
  have dist: "?d w = Some k \<Longrightarrow> cur \<in> set (ins w) \<Longrightarrow> n \<le> k" for w k
    using h(2) hops.farther [where u = w and n = k, OF _ _ u(3)] by (fastforce simp: hops_exact)
  have "hops important ins goal u n \<and> (\<forall>m. hops important ins goal u m \<longrightarrow> n \<le> m)"
    using u(1) h(2) hops.farther [where u = u and ins = ins, OF _ u(2,3)] by fastforce
  then have du: "?d u = Some n" by (simp add: hops_exact)
  have uo: "u \<in> set (outs cur)" using u(2) adj by simp
  then obtain v where v: "min_hops ?d (outs cur) = Some v" using min_hops_None du by fastforce
  obtain k where k: "?d v = Some k" "\<forall>w \<in> set (outs cur). \<forall>m. ?d w = Some m \<longrightarrow> k \<le> m"
    using min_hops_Some(2) [OF v] by blast
  have vo: "v \<in> set (outs cur)" by (rule min_hops_Some(1) [OF v])
  have "k = n" using k(2) uo du dist [OF k(1)] vo adj by (simp add: order_antisym)
  with Suc.IH [of v "path @ [cur]"] k(1) obtain p where p:
    "descend ?d outs goal v (path @ [cur]) = Some (Inr (path @ cur # p))" "length p = Suc n" "gcs_route important outs goal v p"
    by auto
  have "v \<in> set important \<or> v = goal"
    using k(1) by (auto simp: hops_exact elim: hops.cases)
  from gcs_route.go [of v outs cur, OF vo this p(3)] p(1,2) v \<open>cur \<noteq> goal\<close>
  show ?case by (subst descend.simps) (auto intro!: exI [of _ "cur # p"])
qed

text \<open>C16: The descent ends at the goal with fewest regions: on a graph whose incoming and outgoing edges agree, from any
  start, the loop of \<open>ConvertToGcsVertices\<close> on the counts of \<open>CalcHopsFromGoal\<close> returns a route over important
  vertices such that no other has fewer vertices, or fails with \<open>DRAKE_DEMAND\<close> and there is no route.\<close>
theorem gcs_path_fewest_vertices:
  assumes "\<forall>u v. v \<in> set (outs u) \<longleftrightarrow> u \<in> set (ins v)"
  shows "(\<exists>p. descend (CalcHopsFromGoal important ins goal) outs goal start [] = Some (Inr p)
            \<and> gcs_route important outs goal start p
            \<and> (\<forall>p'. gcs_route important outs goal start p' \<longrightarrow> length p \<le> length p'))
    \<or> (descend (CalcHopsFromGoal important ins goal) outs goal start [] = Some (Inl ''DRAKE_DEMAND'')
        \<and> (\<forall>p. \<not> gcs_route important outs goal start p))"
proof -
  let ?d = "CalcHopsFromGoal important ins goal"
  have adj: "\<And>u v. v \<in> set (outs u) \<longleftrightarrow> u \<in> set (ins v)" using assms by blast
  have nonempty: "0 < length p" if "gcs_route important outs goal u p" for u p using that by cases auto
  show ?thesis
  proof (cases "start = goal")
    case True
    have "descend ?d outs goal start [] = Some (Inr [goal])" using True by (subst descend.simps) simp
    then show ?thesis using True nonempty gcs_route.stop by (fastforce simp: Suc_le_eq)
  next
    case False
    have first: "\<exists>v n. v \<in> set (outs start) \<and> ?d v = Some n \<and> n + 2 \<le> length p"
      if p: "gcs_route important outs goal start p" for p
      using p False
    proof cases
      case (go v q)
      from route_hops [OF adj go(4,3)] obtain n where n: "hops important ins goal v n" "Suc n \<le> length q" by blast
      obtain k where "?d v = Some k" "k \<le> n"
      proof -
        define k where "k = (LEAST k. hops important ins goal v k)"
        have "?d v = Some k" unfolding hops_exact k_def using n(1) by (blast intro: LeastI Least_le)
        moreover have "k \<le> n" unfolding k_def by (rule Least_le) (rule n(1))
        ultimately show ?thesis by (rule that)
      qed
      then show ?thesis using go(1,2) n(2) by force
    qed simp
    show ?thesis
    proof (cases "min_hops ?d (outs start)")
      case None
      then have "\<not> gcs_route important outs goal start p" for p using first min_hops_None by fastforce
      moreover have "descend ?d outs goal start [] = Some (Inl ''DRAKE_DEMAND'')"
        using None False by (subst descend.simps) simp
      ultimately show ?thesis by blast
    next
      case (Some v)
      note vo = min_hops_Some(1) [OF Some]
      obtain k where k: "?d v = Some k" "\<forall>w \<in> set (outs start). \<forall>m. ?d w = Some m \<longrightarrow> k \<le> m"
        using min_hops_Some(2) [OF Some] by blast
      obtain p where p: "descend ?d outs goal v [start] = Some (Inr ([start] @ p))" "length p = Suc k"
          "gcs_route important outs goal v p"
        using descend_route [OF adj k(1)] by blast
      have "v \<in> set important \<or> v = goal" using k(1) by (auto simp: hops_exact elim: hops.cases)
      from gcs_route.go [of v outs start, OF vo this p(3)] have r: "gcs_route important outs goal start (start # p)" .
      have "length (start # p) \<le> length p'" if "gcs_route important outs goal start p'" for p'
        using first [OF that] k(2) p(2) by force
      moreover have "descend ?d outs goal start [] = Some (Inr (start # p))"
        using Some False p(1) by (subst descend.simps) simp
      ultimately show ?thesis using r by blast
    qed
  qed
qed

section \<open>Lemmas: the chain of regions\<close>

definition region_set :: "region_pairs \<Rightarrow> vid \<Rightarrow> nat set" where
  "region_set regions v = (case regions v of None \<Rightarrow> {} | Some (i, j) \<Rightarrow> {i, j})"

text \<open>Consecutive intersections share one region, and no vertex can be skipped.\<close>

fun no_detour :: "nat set list \<Rightarrow> bool" where
  "no_detour (A # B # C # r) = (A \<inter> B \<noteq> {} \<and> A \<noteq> B \<and> A \<inter> C = {} \<and> no_detour (B # C # r))"
| "no_detour [A, B] = (A \<inter> B \<noteq> {} \<and> A \<noteq> B)"
| "no_detour _ = True"

lemma pair_sets: "{i :: nat, j} \<inter> {i', j'} \<noteq> {} \<Longrightarrow> {i, j} \<noteq> {i', j'} \<Longrightarrow> i \<noteq> j \<Longrightarrow> i' \<noteq> j' \<Longrightarrow>
    (i \<in> {i', j'} \<and> j \<notin> {i', j'}) \<or> (j \<in> {i', j'} \<and> i \<notin> {i', j'})"
  by auto

text \<open>\<open>l\<close> is the region the walk is in: it is in the next intersection, its predecessor is not.\<close>

lemma chull_rest_chain:
  assumes "\<forall>v \<in> set (u # vs). \<exists>i j. regions v = Some (i, j) \<and> i \<noteq> j"
    and "no_detour (map (region_set regions) (u # vs))"
    and "region_set regions u = {p, l}" "vs \<noteq> [] \<Longrightarrow> l \<in> region_set regions (hd vs) \<and> p \<notin> region_set regions (hd vs)"
  shows "\<exists>cs. foldE (chull_step regions) vs (pre @ [l]) = Inr (pre @ l # cs) \<and> length cs = length vs
    \<and> (\<forall>k < length vs. {(l # cs) ! k, cs ! k} = region_set regions (vs ! k))"
  using assms
proof (induction vs arbitrary: u p l pre)
  case (Cons w vs)
  obtain a b where ab: "regions w = Some (a, b)" "a \<noteq> b" using Cons.prems(1) by auto
  have l: "l \<in> {a, b}" using Cons.prems(4) ab(1) by (simp add: region_set_def)
  define x where "x = (if a = l then b else a)"
  have Rw: "region_set regions w = {l, x}" "x \<noteq> l" using l ab by (auto simp: region_set_def x_def)
  have next': "x \<in> region_set regions (hd vs) \<and> l \<notin> region_set regions (hd vs)" if "vs \<noteq> []"
  proof -
    from \<open>vs \<noteq> []\<close> obtain y ys where y: "vs = y # ys" by (cases vs) auto
    have d: "region_set regions u \<inter> region_set regions y = {}" "region_set regions w \<inter> region_set regions y \<noteq> {}"
      using Cons.prems(2) unfolding y list.map no_detour.simps by (cases ys; simp)+
    then show ?thesis using Cons.prems(3) Rw y by auto
  qed
  have nd: "no_detour (map (region_set regions) (w # vs))"
    using Cons.prems(2) by (cases vs) auto
  have st: "chull_step regions w (pre @ [l]) = Inr ((pre @ [l]) @ [x])"
    by (simp add: chull_step_def pair_of_def ab(1) x_def)
  have nx: "vs \<noteq> [] \<Longrightarrow> x \<in> region_set regions (hd vs) \<and> l \<notin> region_set regions (hd vs)" by (rule next')
  have A: "\<forall>v \<in> set (w # vs). \<exists>i j. regions v = Some (i, j) \<and> i \<noteq> j" using Cons.prems(1) by simp
  obtain cs where cs: "foldE (chull_step regions) vs ((pre @ [l]) @ [x]) = Inr ((pre @ [l]) @ x # cs)" "length cs = length vs"
      "\<forall>k < length vs. {(x # cs) ! k, cs ! k} = region_set regions (vs ! k)"
    using Cons.IH [OF A nd Rw(1) nx, of "pre @ [l]"] by auto
  have "{(l # x # cs) ! k, (x # cs) ! k} = region_set regions ((w # vs) ! k)" if "k < length (w # vs)" for k
    using that cs(3) Rw(1) by (cases k) auto
  then show ?case using st cs(1,2) by (intro exI [of _ "x # cs"]) simp
qed simp

text \<open>The regions for the convex hull planner are exactly those the path passes through: for a path of intersections,
  each of two different regions, where consecutive ones share a region and none can be skipped, the result is a list of
  regions, one more than intersections, in which the k-th and the next one are the two regions of the k-th intersection.\<close>
theorem chull_vertices_chain:
  assumes "vs \<noteq> []" "\<forall>v \<in> set vs. \<exists>i j. regions v = Some (i, j) \<and> i \<noteq> j \<and> i < length idx \<and> j < length idx"
    and "no_detour (map (region_set regions) vs)"
  shows "\<exists>cs. ConvertToCHullVertices regions idx vs = Inr (map ((!) idx) cs) \<and> length cs = Suc (length vs)
    \<and> (\<forall>k < length vs. {cs ! k, cs ! Suc k} = region_set regions (vs ! k))"
proof -
  obtain v rest where vs: "vs = v # rest" using assms(1) by (cases vs) auto
  obtain i j where ij: "regions v = Some (i, j)" "i \<noteq> j" using assms(2) vs by auto
  have idx: "mapE (\<lambda>k. if k < length idx then Inr (idx ! k) else Inl ''out_of_range'') cs = Inr (map ((!) idx) cs)"
    if "length cs = Suc (length vs)" "\<forall>k < length vs. {cs ! k, cs ! Suc k} = region_set regions (vs ! k)" for cs
  proof (rule mapE_total)
    note R = that(2) and len = that(1)
    fix c assume "c \<in> set cs"
    then obtain k where k: "k < length cs" "c = cs ! k" by (auto simp: in_set_conv_nth)
    have "\<exists>m < length vs. c \<in> {cs ! m, cs ! Suc m}"
    proof (cases "k < length vs")
      case True
      then show ?thesis using k(2) by auto
    next
      case False
      then have "k = Suc (length rest)" using k(1) len vs by simp
      then show ?thesis using k(2) vs by (intro exI [of _ "length rest"]) simp
    qed
    then obtain m where "m < length vs" "c \<in> region_set regions (vs ! m)" using R by blast
    then show "(if c < length idx then Inr (idx ! c) else Inl ''out_of_range'') = (Inr (idx ! c) :: nat throws)"
    proof -
      have "vs ! m \<in> set vs" using \<open>m < length vs\<close> by simp
      with assms(2) obtain i j where "regions (vs ! m) = Some (i, j)" "i < length idx" "j < length idx" by blast
      then show ?thesis using \<open>c \<in> region_set regions (vs ! m)\<close> by (auto simp: region_set_def)
    qed
  qed
  show ?thesis
  proof (cases rest)
    case Nil
    let ?cs = "[min i j, max i j]"
    have c: "length ?cs = Suc (length vs)" "\<forall>k < length vs. {?cs ! k, ?cs ! Suc k} = region_set regions (vs ! k)"
      using Nil vs ij by (auto simp: region_set_def min_def max_def)
    then show ?thesis using idx [OF c] Nil vs ij
      by (intro exI [of _ ?cs]) (simp add: ConvertToCHullVertices_def pair_of_def)
  next
    case (Cons w ws)
    obtain a b where ab: "regions w = Some (a, b)" "a \<noteq> b" using assms(2) vs Cons by auto
    have d: "{i, j} \<inter> {a, b} \<noteq> {}" "{i, j} \<noteq> {a, b}"
      using assms(3) region_set_def [of regions v] region_set_def [of regions w] unfolding vs Cons
      by (cases ws; simp add: ij(1) ab(1))+
    define l p where "l = (if i = a \<or> i = b then i else j)" and "p = (if i = a \<or> i = b then j else i)"
    have lp: "region_set regions v = {p, l}" "l \<in> region_set regions w" "p \<notin> region_set regions w"
      using pair_sets [OF d ij(2) ab(2)] ij ab by (auto simp: region_set_def l_def p_def)
    obtain cs where cs: "foldE (chull_step regions) rest ([p] @ [l]) = Inr ([p] @ l # cs)" "length cs = length rest"
        "\<forall>k < length rest. {(l # cs) ! k, cs ! k} = region_set regions (rest ! k)"
      using chull_rest_chain [of v rest regions p l "[p]"] assms(2,3) vs lp Cons by fastforce
    let ?cs = "p # l # cs"
    have c: "length ?cs = Suc (length vs)" "\<forall>k < length vs. {?cs ! k, ?cs ! Suc k} = region_set regions (vs ! k)"
      using cs(2,3) lp(1) vs by (auto simp: nth_Cons split: nat.splits)
    have "(if i = a \<or> i = b then [j, i] else [i, j]) = [p] @ [l]" by (simp add: l_def p_def)
    then show ?thesis using idx [OF c] c cs(1) vs Cons ij(1) ab(1)
      by (intro exI [of _ ?cs]) (simp add: ConvertToCHullVertices_def pair_of_def)
  qed
qed

section \<open>Witnesses\<close>

theorem gcs_path_fewest_vertices_witness:
  "\<exists>p. descend (CalcHopsFromGoal [2] ((\<lambda>_. [])(2 := [1], 3 := [2])) 3) ((\<lambda>_. [])(1 := [2], 2 := [3])) 3 1 [] = Some (Inr p)
    \<and> length p \<le> 3"
proof -
  let ?outs = "(\<lambda>_. [])(1 := [2], 2 := [3 :: vid])" and ?ins = "(\<lambda>_. [])(2 := [1], 3 := [2 :: vid])"
  have adj: "\<forall>u v. v \<in> set (?outs u) \<longleftrightarrow> u \<in> set (?ins v)" by auto
  have "gcs_route [2] ?outs 3 1 [1, 2, 3]"
    by (rule gcs_route.go [of 2] gcs_route.go [of 3] gcs_route.stop | simp)+
  then show ?thesis using gcs_path_fewest_vertices [OF adj, of "[2]" 3 1] by fastforce
qed

theorem chull_vertices_chain_witness:
  "\<exists>cs. ConvertToCHullVertices [1 \<mapsto> (0, 1), 2 \<mapsto> (1, 2)] [10, 20, 30] [1, 2] = Inr (map ((!) [10, 20, 30]) cs) \<and> length cs = 3"
proof -
  let ?R = "[1 \<mapsto> (0, 1), 2 \<mapsto> (1, 2)] :: region_pairs"
  have "{0, Suc 0} \<noteq> {Suc 0, 2}"
  proof
    assume eq: "{0, Suc 0} = {Suc 0, 2}"
    have "2 \<in> {0, Suc 0}" unfolding eq by simp
    then show False by simp
  qed
  then have "no_detour (map (region_set ?R) [1, 2])" by (simp add: region_set_def)
  from chull_vertices_chain [OF _ _ this, of "[10, 20, 30]"] show ?thesis by auto
qed

end
