(* ===== verification/Connecting_Set.thy ===== *)
theory Connecting_Set
  imports Config_Metric
begin

text \<open>
  \<open>CreateConnectingSet\<close> of \<open>motion/planning/single_mode_gcs_planner.cc\<close>: the convex set that joins a
  configuration outside the regions to a visible point of a region.  Matrices are lists of columns, or, for
  a polyhedron, of rows.  Eigen's Householder decomposition is the argument \<open>qr\<close>; what is used of it is
  \<open>qr_law\<close>: on columns the first of which has norm 1 it yields an orthonormal basis that starts with this column
  or its opposite.
\<close>

datatype connecting_set_type = kVPolytope | kNarrowBox | kNarrowEllipsoid

datatype connecting_set = VPolytope "config list" | HPolyhedron "real list list" "real list"

definition dot :: "real list \<Rightarrow> real list \<Rightarrow> real" where "dot a b = sum_list (map2 (*) a b)"

definition unit_vector :: "nat \<Rightarrow> nat \<Rightarrow> real list" where "unit_vector n i = (replicate n 0)[i := 1]"

definition CustomMakeAffineBallFromLineSegment ::
  "(real list list \<Rightarrow> real list list) \<Rightarrow> config \<Rightarrow> config \<Rightarrow> real \<Rightarrow> (real list list \<times> real list) throws" where
  "CustomMakeAffineBallFromLineSegment qr x1 x2 epsilon =
     (if length x1 \<noteq> length x2 \<or> \<not> 0 < epsilon then Inl drake_error
      else let len = l2_norm (map2 (-) x1 x2) in
        if len < 1 / 10 ^ 9 then Inl ''x_1 and x_2 are the same point''
        else let n = length x1;
                 center = map2 (\<lambda>a b. 1 / 2 * (a + b)) x1 x2;
                 r0 = map (\<lambda>d. d / len) (map2 (-) x1 x2);
                 Q = qr (r0 # map (unit_vector n) [1..<n])
             in Inr (map (\<lambda>(i, c). map (\<lambda>x. x * (if i = 0 then len / 2 else epsilon)) c) (enumerate 0 Q), center))"

definition CreateConnectingSet ::
  "(real list list \<Rightarrow> real list list) \<Rightarrow> config \<Rightarrow> config \<Rightarrow> connecting_set_type \<Rightarrow> real \<Rightarrow> connecting_set throws" where
  "CreateConnectingSet qr q1 q2 t epsilon =
     (if length q1 \<noteq> length q2 then Inl drake_error
      else case t of
        kVPolytope \<Rightarrow> Inr (VPolytope [q1, q2])
      | kNarrowBox \<Rightarrow> bindE (CustomMakeAffineBallFromLineSegment qr q1 q2 1) (\<lambda>(B, center).
          let len = l2_norm (map2 (-) q2 q1);
              R = B[0 := map (\<lambda>x. x / len * 2) (B ! 0)];
              side = (\<lambda>i. epsilon + (if i = 0 then len / 2 else 0))
          in if \<not> \<bar>l2_norm (R ! 0) - 1\<bar> < 1 / 10 ^ 6 then Inl ''DRAKE_DEMAND''
             else Inr (HPolyhedron (R @ map (map uminus) R)
                    (map (\<lambda>(i, r). dot r center + side i) (enumerate 0 R)
                     @ map (\<lambda>(i, r). - dot r center + side i) (enumerate 0 R))))
      | kNarrowEllipsoid \<Rightarrow> Inl ''Connecting set type not implemented'')"

section \<open>Lemmas\<close>

definition qr_law :: "nat \<Rightarrow> (real list list \<Rightarrow> real list list) \<Rightarrow> bool" where
  "qr_law n qr \<longleftrightarrow> (\<forall>M. length M = n \<longrightarrow> (\<forall>c \<in> set M. length c = n) \<longrightarrow> 0 < n \<longrightarrow> dot (M ! 0) (M ! 0) = 1 \<longrightarrow>
     length (qr M) = n \<and> (\<forall>c \<in> set (qr M). length c = n) \<and> (qr M ! 0 = M ! 0 \<or> qr M ! 0 = map uminus (M ! 0))
     \<and> (\<forall>i < n. \<forall>j < n. dot (qr M ! i) (qr M ! j) = (if i = j then 1 else 0)))"

lemma dot_index: "length a = length b \<Longrightarrow> dot a b = (\<Sum>i < length a. a ! i * b ! i)"
  by (simp add: dot_def sum_list_sum_nth atLeast0LessThan)

lemma dot_scale: "length a = length b \<Longrightarrow> dot (map (\<lambda>x. x / c) a) b = dot a b / c"
  "length a = length b \<Longrightarrow> dot a (map (\<lambda>x. x / c) b) = dot a b / c"
  by (simp_all add: dot_index sum_divide_distrib)

lemma dot_uminus: "length a = length b \<Longrightarrow> dot (map uminus a) b = - dot a b"
  by (simp add: dot_index sum_negf)

lemma dot_l2: "dot a a = (l2_norm a)\<^sup>2"
proof -
  have "map2 (*) a a = map (\<lambda>x. x\<^sup>2) a" by (simp add: list_eq_iff_nth_eq power2_eq_square)
  then show ?thesis by (simp add: dot_def l2_norm_def sums_nonneg)
qed

lemma l2_swap: "l2_norm (map2 (-) a b) = l2_norm (map2 (-) b a)"
proof -
  have "map (\<lambda>x. x\<^sup>2) (map2 (-) a b) = map (\<lambda>x. x\<^sup>2) (map2 (-) b a)"
  proof (rule nth_equalityI)
    fix i assume "i < length (map (\<lambda>x. x\<^sup>2) (map2 (-) a b))"
    then show "map (\<lambda>x. x\<^sup>2) (map2 (-) a b) ! i = map (\<lambda>x. x\<^sup>2) (map2 (-) b a) ! i"
      by (simp add: power2_commute)
  qed simp
  then show ?thesis by (simp add: l2_norm_def)
qed

text \<open>Points of the segment, seen from its middle.\<close>

lemma dot_segment:
  assumes "length q1 = length q2" "length r = length q1"
  shows "dot r (map2 (\<lambda>a b. a + t * (b - a)) q1 q2)
    = dot r (map2 (\<lambda>a b. 1 / 2 * (a + b)) q1 q2) + (1 / 2 - t) * dot r (map2 (-) q1 q2)"
  using assms by (simp add: dot_index sum_distrib_left sum.distrib [symmetric] algebra_simps add_divide_distrib)

text \<open>C20: The box joins its two points: if they are at least \<open>1e-9\<close> apart, \<open>CreateConnectingSet\<close> yields a polyhedron
  in which every point of the segment between them lies, with a margin of \<open>epsilon\<close> in each inequality.\<close>
theorem narrow_box_covers_segment:
  assumes "qr_law (length q1) qr" "length q1 = length q2" "1 / 10 ^ 9 \<le> l2_norm (map2 (-) q1 q2)"
  shows "\<exists>A b. CreateConnectingSet qr q1 q2 kNarrowBox epsilon = Inr (HPolyhedron A b) \<and> length A = length b
    \<and> (\<forall>t i. 0 \<le> t \<and> t \<le> 1 \<and> i < length A \<longrightarrow> dot (A ! i) (map2 (\<lambda>a b. a + t * (b - a)) q1 q2) + epsilon \<le> b ! i)"
proof -
  let ?n = "length q1"
  let ?d = "map2 (-) q1 q2" and ?c = "map2 (\<lambda>a b. 1 / 2 * (a + b)) q1 q2"
  define len where "len = l2_norm ?d"
  let ?r0 = "map (\<lambda>x. x / len) ?d"
  have pos: "0 < len" using assms(3) unfolding len_def by (rule less_le_trans [rotated]) simp
  have n: "0 < ?n"
  proof (rule ccontr)
    assume "\<not> 0 < ?n"
    then show False using pos by (simp add: len_def l2_norm_def)
  qed
  have dd: "dot ?d ?d = len\<^sup>2" by (simp add: dot_l2 len_def)
  define M where "M = ?r0 # map (unit_vector ?n) [1..<?n]"
  define Q where "Q = qr M"
  have r0: "dot ?r0 ?r0 = 1" 
  proof -
    have "dot ?r0 ?r0 = dot ?d ?d / len / len" by (subst dot_scale(1), simp, subst dot_scale(2), simp_all)
    then show ?thesis using pos by (simp add: dd power2_eq_square)
  qed
  have M: "length M = ?n" "\<forall>c \<in> set M. length c = ?n" "M ! 0 = ?r0"
    using n assms(2) by (auto simp: M_def unit_vector_def)
  from assms(1) have "length Q = ?n \<and> (\<forall>c \<in> set Q. length c = ?n) \<and> (Q ! 0 = ?r0 \<or> Q ! 0 = map uminus ?r0)
     \<and> (\<forall>i < ?n. \<forall>j < ?n. dot (Q ! i) (Q ! j) = (if i = j then 1 else 0))"
    unfolding qr_law_def Q_def using M n r0 by metis
  then have Q: "length Q = ?n" "\<And>i. i < ?n \<Longrightarrow> length (Q ! i) = ?n" "Q ! 0 = ?r0 \<or> Q ! 0 = map uminus ?r0"
      "\<And>i j. i < ?n \<Longrightarrow> j < ?n \<Longrightarrow> dot (Q ! i) (Q ! j) = (if i = j then 1 else 0)"
    by auto
  have along: "\<bar>dot (Q ! i) ?d\<bar> = (if i = 0 then len else 0)" if i: "i < ?n" for i
  proof -
    have "dot (Q ! i) ?r0 = dot (Q ! i) ?d / len" using Q(2) [OF i] assms(2) by (subst dot_scale(2)) simp_all
    moreover have "\<bar>dot (Q ! i) ?r0\<bar> = \<bar>dot (Q ! i) (Q ! 0)\<bar>"
    proof -
      have "dot (Q ! i) (map uminus ?r0) = - dot (Q ! i) ?r0"
        using Q(2) [OF i] assms(2) by (simp add: dot_index sum_negf)
      then show ?thesis using Q(3) by auto
    qed
    ultimately show ?thesis using Q(4) [OF i n] pos by (auto simp: abs_divide split: if_splits)
  qed
  define B where "B = map (\<lambda>(i, c). map (\<lambda>x. x * (if i = 0 then len / 2 else 1)) c) (enumerate 0 Q)"
  have ball: "CustomMakeAffineBallFromLineSegment qr q1 q2 1 = Inr (B, ?c)"
    unfolding CustomMakeAffineBallFromLineSegment_def Let_def B_def Q_def M_def len_def
    using assms(2,3) by (simp del: map_map upt_conv_Cons)
  have R: "B[0 := map (\<lambda>x. x / len * 2) (B ! 0)] = Q"
  proof (rule nth_equalityI)
    show "length (B[0 := map (\<lambda>x. x / len * 2) (B ! 0)]) = length Q" by (simp add: B_def)
    fix i assume "i < length (B[0 := map (\<lambda>x. x / len * 2) (B ! 0)])"
    then have i: "i < length Q" by (simp add: B_def)
    have Bi: "B ! i = map (\<lambda>x. x * (if i = 0 then len / 2 else 1)) (Q ! i)"
      using i by (simp add: B_def nth_enumerate_eq)
    have "map (\<lambda>x. x / len * 2) (map (\<lambda>x. x * (len / 2)) v) = v" for v
      using pos by (simp add: comp_def)
    then show "B[0 := map (\<lambda>x. x / len * 2) (B ! 0)] ! i = Q ! i"
      using Bi i n Q(1) by (cases "i = 0") (auto simp: B_def)
  qed
  have len2: "l2_norm (map2 (-) q2 q1) = len" by (simp add: len_def l2_swap)
  have norm1: "l2_norm (Q ! 0) = 1"
    using Q(4) [OF n n] norms_nonneg [of kL2Norm "Q ! 0"] by (simp add: dot_l2 norm_of_def power2_eq_1_iff)
  define side where "side = (\<lambda>i :: nat. epsilon + (if i = 0 then len / 2 else 0))"
  define b where "b = map (\<lambda>(i, r). dot r ?c + side i) (enumerate 0 Q) @ map (\<lambda>(i, r). - dot r ?c + side i) (enumerate 0 Q)"
  have result: "CreateConnectingSet qr q1 q2 kNarrowBox epsilon = Inr (HPolyhedron (Q @ map (map uminus) Q) b)"
    unfolding CreateConnectingSet_def connecting_set_type.case ball bindE_simps prod.case Let_def len2 R b_def side_def
    using assms(2) norm1 by simp
  have "dot ((Q @ map (map uminus) Q) ! i) (map2 (\<lambda>a b. a + t * (b - a)) q1 q2) + epsilon \<le> b ! i"
    if t: "0 \<le> t" "t \<le> 1" and i: "i < length (Q @ map (map uminus) Q)" for t i
  proof -
    let ?x = "map2 (\<lambda>a b. a + t * (b - a)) q1 q2"
    have bound: "\<bar>dot (Q ! k) ?x - dot (Q ! k) ?c\<bar> \<le> side k - epsilon" if k: "k < ?n" for k
    proof -
      have "dot (Q ! k) ?x - dot (Q ! k) ?c = (1 / 2 - t) * dot (Q ! k) ?d"
        using dot_segment [OF assms(2), of "Q ! k" t] Q(2) [OF k] by simp
      then have "\<bar>dot (Q ! k) ?x - dot (Q ! k) ?c\<bar> = \<bar>1 / 2 - t\<bar> * (if k = 0 then len else 0)"
        using along [OF k] by (simp add: abs_mult)
      moreover have "\<bar>1 / 2 - t\<bar> * len \<le> 1 / 2 * len"
      proof (rule mult_right_mono)
        show "\<bar>1 / 2 - t\<bar> \<le> 1 / 2" using t by linarith
      qed (use pos in simp)
      ultimately show ?thesis by (simp add: side_def)
    qed
    show ?thesis
    proof (cases "i < ?n")
      case True
      then have "b ! i = dot (Q ! i) ?c + side i" by (simp add: b_def nth_append Q(1) nth_enumerate_eq)
      then show ?thesis using bound [OF True] True Q(1) by (simp add: nth_append abs_le_iff)
    next
      case False
      then have k: "i - ?n < ?n" using i Q(1) by simp
      have "b ! i = - dot (Q ! (i - ?n)) ?c + side (i - ?n)"
        using False k by (simp add: b_def nth_append Q(1) nth_enumerate_eq)
      moreover have "dot ((Q @ map (map uminus) Q) ! i) ?x = - dot (Q ! (i - ?n)) ?x"
        using False k Q(1,2) assms(2) by (simp add: nth_append dot_uminus)
      ultimately show ?thesis using bound [OF k] by (simp add: abs_le_iff)
    qed
  qed
  moreover have "length (Q @ map (map uminus) Q) = length b" by (simp add: b_def)
  ultimately show ?thesis using result by blast
qed

section \<open>Witness\<close>

text \<open>In one dimension the decomposition is the column itself.\<close>

theorem narrow_box_covers_segment_witness:
  "\<exists>A b. CreateConnectingSet id [0] [2] kNarrowBox (1 / 100) = Inr (HPolyhedron A b) \<and> length A = length b
    \<and> (\<forall>i < length A. dot (A ! i) [2] + 1 / 100 \<le> b ! i)"
proof -
  have "qr_law (length [0 :: real]) id" by (auto simp: qr_law_def)
  from narrow_box_covers_segment [OF this, of "[2]" "1 / 100"] obtain A b where
    r: "CreateConnectingSet id [0] [2] kNarrowBox (1 / 100) = Inr (HPolyhedron A b)" "length A = length b"
    "\<forall>t i. 0 \<le> t \<and> t \<le> 1 \<and> i < length A \<longrightarrow>
       dot (A ! i) (map2 (\<lambda>a b. a + t * (b - a)) [0] [2]) + 1 / 100 \<le> b ! i"
    by (auto simp: l2_norm_def)
  from r(3) [rule_format, of 1] r(1,2) show ?thesis by auto
qed

end
