(* ===== verification/Gcs_Planner.thy ===== *)
theory Gcs_Planner
  imports Hop_Search Connecting_Set
begin

text \<open>
  \<open>SingleModeGcsPlanner\<close> (\<open>motion/planning/single_mode_gcs_planner.h\<close>, \<open>.cc\<close>): queries on the graph of
  configurations whose vertices are samples of intersections of regions and whose edges are added while the
  search runs.

  The record \<open>drake\<close> holds what is not in the repository: the base class of the graph, the operations of
  Drake's \<open>GcsTrajectoryOptimization\<close> on its state \<open>'t\<close>, and Eigen's decomposition.  The inspection of a
  configuration (\<open>IrisInspector\<close>) and the planner on convex hulls are arguments.  Names of vertices carry no numbers
  here.  An operation that throws leaves the planner as far as it had come.
\<close>

type_synonym subgraph = nat

record ('t, 'traj) drake =
  dr_add_vertex :: base_add_vertex
  dr_add_edge :: base_add_edge
  dr_remove_vertex :: "vid \<Rightarrow> gcs \<Rightarrow> gcs"
  dr_qr :: "real list list \<Rightarrow> real list list"
  opt_main :: "'t \<Rightarrow> subgraph"
  opt_vertices :: "'t \<Rightarrow> subgraph \<Rightarrow> vid list"
  opt_outs :: "'t \<Rightarrow> vid \<Rightarrow> vid list"
  opt_ins :: "'t \<Rightarrow> vid \<Rightarrow> vid list"
  opt_num_edges :: "'t \<Rightarrow> nat"
  opt_add_point :: "config \<Rightarrow> string \<Rightarrow> 't \<Rightarrow> subgraph \<times> 't"
  opt_add_set :: "connecting_set \<Rightarrow> string \<Rightarrow> 't \<Rightarrow> subgraph \<times> 't"
  opt_connect :: "subgraph \<Rightarrow> subgraph \<Rightarrow> 't \<Rightarrow> 't"
  opt_connect_pair :: "subgraph \<Rightarrow> subgraph \<Rightarrow> nat \<times> nat \<Rightarrow> 't \<Rightarrow> 't"
  opt_remove :: "subgraph \<Rightarrow> 't \<Rightarrow> 't"
  opt_solve :: "vid list \<Rightarrow> 't \<Rightarrow> 'traj \<times> bool"

record 't gcs_planner =
  gp_graph :: graph_of_configs
  gp_opt :: 't
  gp_regions :: region_pairs
  gp_lazy :: bool
  gp_set_type :: connecting_set_type
  gp_epsilon :: real
  gp_index :: "nat list"

record inspection =
  containing_regions :: "nat list"
  visible_region :: "nat option"
  visible_point :: "config option"

datatype terminal_type = kStart | kEnd

record terminal_node =
  q_subgraph :: "subgraph option"
  visible_subgraph :: "subgraph option"
  visible_set :: "connecting_set option"
  q_gcc :: "vid option"
  q_visible_gcc :: "vid option"
  tn_visible_region :: "nat option"

definition no_terminal :: terminal_node where
  "no_terminal = \<lparr> q_subgraph = None, visible_subgraph = None, visible_set = None, q_gcc = None, q_visible_gcc = None,
     tn_visible_region = None \<rparr>"

section \<open>Edges of the graph of configurations\<close>

definition has_incoming :: "graph_of_configs \<Rightarrow> vid \<Rightarrow> bool" where
  "has_incoming gc v = list_ex (\<lambda>u. v \<in> snd ` set (outgoing (base gc) u)) (Vertices (base gc))"

definition share_region :: "nat \<times> nat \<Rightarrow> nat \<times> nat \<Rightarrow> bool" where
  "share_region r r' = (case (r, r') of ((a, b), (a', b')) \<Rightarrow> a = a' \<or> a = b' \<or> b = a' \<or> b = b')"

definition add_graph_edge :: "base_add_edge \<Rightarrow> vid \<Rightarrow> vid \<Rightarrow> (graph_of_configs, unit) action" where
  "add_graph_edge adde u v gc = (case AddEdge adde u v [] gc of Inl x \<Rightarrow> (Inl x, gc) | Inr (_, gc') \<Rightarrow> (Inr (), gc'))"

definition add_edges_func :: "base_add_edge \<Rightarrow> region_pairs \<Rightarrow> vid \<Rightarrow> (graph_of_configs, unit) action" where
  "add_edges_func adde regions v gc =
     (if outgoing (base gc) v \<noteq> [] \<and> has_incoming gc v then (Inr (), gc)
      else case regions v of
        None \<Rightarrow> (Inr (), gc)
      | Some r \<Rightarrow> forX (Vertices (base gc)) (\<lambda>w.
          if v = w then returnX ()
          else case regions w of
            None \<Rightarrow> returnX ()
          | Some r' \<Rightarrow> if share_region r r' then add_graph_edge adde v w else returnX ()) gc)"

section \<open>Construction\<close>

record intersection =
  index_one :: nat
  index_two :: nat
  intersection_samples :: "config list"

text \<open>The part of the constructor that builds the graph of configurations: a vertex for each sample of an intersection, then
  the Chebyshev center of each region without intersections, then all edges unless they are added lazily.\<close>

definition add_sample ::
  "base_add_vertex \<Rightarrow> nat \<times> nat \<Rightarrow> config \<Rightarrow> (graph_of_configs \<times> region_pairs, unit) action" where
  "add_sample addv r q = (\<lambda>(gc, regions). case AddVertex addv (Point q) ''intersection'' gc of
     Inl x \<Rightarrow> (Inl x, (gc, regions)) | Inr (v, gc') \<Rightarrow> (Inr (), (gc', regions(v \<mapsto> r))))"

definition add_edges_everywhere :: "base_add_edge \<Rightarrow> region_pairs \<Rightarrow> (graph_of_configs, unit) action" where
  "add_edges_everywhere adde regions gc = forX (Vertices (base gc)) (add_edges_func adde regions) gc"

definition build_graph ::
  "('t, 'traj) drake \<Rightarrow> gcs \<Rightarrow> nat \<Rightarrow> nat list \<Rightarrow> config \<Rightarrow> nat list \<Rightarrow> intersection list \<Rightarrow> (nat \<Rightarrow> config) \<Rightarrow> nat \<Rightarrow> bool
   \<Rightarrow> (graph_of_configs \<times> region_pairs) throws" where
  "build_graph D b n joints velocity region_index intersections center cost_type lazy =
     bindE (GraphOfConfigs b n joints (Some (map inverse velocity)) kLInfNorm) (\<lambda>gc.
       case bindX (forX intersections (\<lambda>i. forX (intersection_samples i)
                (add_sample (dr_add_vertex D) (index_one i, index_two i)))) (\<lambda>_.
              forX [0..<length region_index] (\<lambda>k.
                if list_ex (\<lambda>i. index_one i = k \<or> index_two i = k) intersections then returnX ()
                else add_sample (dr_add_vertex D) (k, k) (center k))) (gc, \<lambda>_. None) of
         (Inl x, _) \<Rightarrow> Inl x
       | (Inr _, (gc1, regions)) \<Rightarrow>
           if cost_type \<noteq> 0 \<and> cost_type \<noteq> 1 then Inl ''Cost type not implemented''
           else if lazy then Inr (gc1, regions)
           else (case add_edges_everywhere (dr_add_edge D) regions gc1 of
               (Inl x, _) \<Rightarrow> Inl x | (Inr _, gc2) \<Rightarrow> Inr (gc2, regions)))"

section \<open>Terminals\<close>

definition graph_vertex :: "('t, 'traj) drake \<Rightarrow> config \<Rightarrow> string \<Rightarrow> ('t gcs_planner, vid) action" where
  "graph_vertex D q name p = (case AddVertex (dr_add_vertex D) (Point q) name (gp_graph p) of
     Inl x \<Rightarrow> (Inl x, p) | Inr (v, gc) \<Rightarrow> (Inr v, p\<lparr> gp_graph := gc \<rparr>))"

definition graph_edge :: "('t, 'traj) drake \<Rightarrow> vid \<Rightarrow> vid \<Rightarrow> ('t gcs_planner, unit) action" where
  "graph_edge D u v p = (case add_graph_edge (dr_add_edge D) u v (gp_graph p) of (x, gc) \<Rightarrow> (x, p\<lparr> gp_graph := gc \<rparr>))"

definition on_opt :: "('t \<Rightarrow> 'a \<times> 't) \<Rightarrow> ('t gcs_planner, 'a) action" where
  "on_opt f p = (case f (gp_opt p) of (x, t) \<Rightarrow> (Inr x, p\<lparr> gp_opt := t \<rparr>))"

text \<open>The edge between a terminal vertex and \<open>v\<close>: out of a start, into an end.\<close>

definition towards :: "terminal_type \<Rightarrow> ('x \<Rightarrow> 'x \<Rightarrow> 'b) \<Rightarrow> 'x \<Rightarrow> 'x \<Rightarrow> 'b" where
  "towards t f terminal v = (case t of kStart \<Rightarrow> f terminal v | kEnd \<Rightarrow> f v terminal)"

definition connect_regions ::
  "('t, 'traj) drake \<Rightarrow> nat list \<Rightarrow> terminal_type \<Rightarrow> vid \<Rightarrow> ('t gcs_planner, unit) action" where
  "connect_regions D indices t u p = forX (Vertices (base (gp_graph p))) (\<lambda>v. case gp_regions p v of
       None \<Rightarrow> returnX ()
     | Some (i, j) \<Rightarrow> if list_ex (\<lambda>k. i = k \<or> j = k) indices then towards t (graph_edge D) u v else returnX ()) p"

definition q_name :: "terminal_type \<Rightarrow> string" where
  "q_name t = (case t of kStart \<Rightarrow> ''q_start'' | kEnd \<Rightarrow> ''q_end'')"

definition DoAddConfig ::
  "('t, 'traj) drake \<Rightarrow> nat list \<Rightarrow> config \<Rightarrow> terminal_type \<Rightarrow> ('t gcs_planner, terminal_node) action" where
  "DoAddConfig D indices q t =
     bindX (getX (\<lambda>p. opt_main D (gp_opt p))) (\<lambda>main.
     bindX (on_opt (opt_add_point D q (q_name t))) (\<lambda>sub.
     bindX (graph_vertex D q (q_name t)) (\<lambda>v.
     bindX (getX (\<lambda>p. opt_num_edges D (gp_opt p))) (\<lambda>before.
     bindX (on_opt (\<lambda>o'. ((), towards t (opt_connect D) sub main o'))) (\<lambda>_.
     bindX (getX (\<lambda>p. opt_num_edges D (gp_opt p))) (\<lambda>after.
     if after = before then throwX ''Failed to connect the terminal node to the main GCS''
     else bindX (connect_regions D indices t v) (\<lambda>_.
       returnX \<lparr> q_subgraph = Some sub, visible_subgraph = None, visible_set = None, q_gcc = Some v,
                 q_visible_gcc = None, tn_visible_region = None \<rparr>)))))))"

definition DoAddConnectingSet ::
  "('t, 'traj) drake \<Rightarrow> config \<Rightarrow> nat \<times> config \<Rightarrow> terminal_type \<Rightarrow> ('t gcs_planner, terminal_node) action" where
  "DoAddConnectingSet D q vis t = (case vis of (k, visible_q) \<Rightarrow>
     bindX (getX (\<lambda>p. opt_main D (gp_opt p))) (\<lambda>main.
     bindX (graph_vertex D q (q_name t)) (\<lambda>v.
     bindX (graph_vertex D visible_q ''point_visible'') (\<lambda>w.
     bindX (towards t (graph_edge D) v w) (\<lambda>_.
     bindX (getX (\<lambda>p. list_ex (\<lambda>x. case gp_regions p x of None \<Rightarrow> False | Some (i, j) \<Rightarrow> i = k \<or> j = k)
                         (Vertices (base (gp_graph p))))) (\<lambda>found_vertices.
     bindX (connect_regions D [k] t w) (\<lambda>_.
     if \<not> found_vertices then throwX ''DRAKE_DEMAND''
     else bindX (\<lambda>p. (CreateConnectingSet (dr_qr D) q visible_q (gp_set_type p) (gp_epsilon p), p)) (\<lambda>cset.
     bindX (on_opt (opt_add_point D q (q_name t))) (\<lambda>sub.
     bindX (on_opt (opt_add_set D cset ''point_visible'')) (\<lambda>csub.
     bindX (getX (\<lambda>p. opt_num_edges D (gp_opt p))) (\<lambda>before.
     bindX (on_opt (\<lambda>o'. ((), towards t (\<lambda>a b. opt_connect_pair D a b (0, 0)) sub csub o'))) (\<lambda>_.
     bindX (on_opt (\<lambda>o'. ((), case t of kStart \<Rightarrow> opt_connect_pair D csub main (0, k) o'
                              | kEnd \<Rightarrow> opt_connect_pair D main csub (k, 0) o'))) (\<lambda>_.
     bindX (getX (\<lambda>p. opt_num_edges D (gp_opt p))) (\<lambda>after.
     if after = before then throwX ''Failed to connect the terminal node to the main GCS''
     else returnX \<lparr> q_subgraph = Some sub, visible_subgraph = Some csub, visible_set = Some cset, q_gcc = Some v,
                     q_visible_gcc = Some w, tn_visible_region = Some k \<rparr>))))))))))))))"

definition AddTerminal ::
  "('t, 'traj) drake \<Rightarrow> (config \<Rightarrow> inspection throws) \<Rightarrow> config \<Rightarrow> terminal_type \<Rightarrow> ('t gcs_planner, terminal_node) action" where
  "AddTerminal D inspect q t = bindX (liftX (inspect q)) (\<lambda>r.
     if containing_regions r \<noteq> [] then DoAddConfig D (containing_regions r) q t
     else case visible_region r of
       Some k \<Rightarrow> (case visible_point r of
           None \<Rightarrow> throwX ''bad_optional_access''
         | Some vq \<Rightarrow> DoAddConnectingSet D q (k, vq) t)
     | None \<Rightarrow> returnX no_terminal)"

definition remove_subgraph :: "('t, 'traj) drake \<Rightarrow> subgraph option \<Rightarrow> 't gcs_planner \<Rightarrow> 't gcs_planner" where
  "remove_subgraph D s p = (case s of None \<Rightarrow> p | Some i \<Rightarrow> p\<lparr> gp_opt := opt_remove D i (gp_opt p) \<rparr>)"

definition remove_gcc :: "('t, 'traj) drake \<Rightarrow> vid option \<Rightarrow> 't gcs_planner \<Rightarrow> 't gcs_planner" where
  "remove_gcc D v p = (case v of None \<Rightarrow> p
     | Some w \<Rightarrow> p\<lparr> gp_graph := (gp_graph p)\<lparr> base := dr_remove_vertex D w (base (gp_graph p)) \<rparr> \<rparr>)"

definition RemoveTerminalNode :: "('t, 'traj) drake \<Rightarrow> terminal_node \<Rightarrow> 't gcs_planner \<Rightarrow> 't gcs_planner" where
  "RemoveTerminalNode D t p =
     remove_gcc D (q_visible_gcc t) (remove_gcc D (q_gcc t)
       (remove_subgraph D (visible_subgraph t) (remove_subgraph D (q_subgraph t) p)))"

section \<open>Queries\<close>

definition add_terminals ::
  "('t, 'traj) drake \<Rightarrow> (config \<Rightarrow> inspection throws) \<Rightarrow> config \<Rightarrow> config
   \<Rightarrow> ('t gcs_planner, terminal_node \<times> terminal_node) action" where
  "add_terminals D inspect q1 q2 =
     bindX (AddTerminal D inspect q1 kStart) (\<lambda>s. bindX (AddTerminal D inspect q2 kEnd) (\<lambda>e. returnX (s, e)))"

definition callback :: "('t, 'traj) drake \<Rightarrow> 't gcs_planner \<Rightarrow> add_edges" where
  "callback D p = (if gp_lazy p then Some (add_edges_func (dr_add_edge D) (gp_regions p)) else None)"

text \<open>What the three queries share; \<open>answer\<close> makes the result from the terminals, the cost and the path.\<close>

definition answer_query ::
  "('t, 'traj) drake \<Rightarrow> (config \<Rightarrow> inspection throws)
   \<Rightarrow> (terminal_node \<Rightarrow> terminal_node \<Rightarrow> score \<Rightarrow> vid list \<Rightarrow> 't gcs_planner \<Rightarrow> 'a option throws option)
   \<Rightarrow> config \<Rightarrow> config \<Rightarrow> 't gcs_planner \<Rightarrow> ('a option throws \<times> 't gcs_planner) option" where
  "answer_query D inspect answer q1 q2 p = (case add_terminals D inspect q1 q2 p of
     (Inl x, p1) \<Rightarrow> Some (Inl x, p1)
   | (Inr (s, e), p1) \<Rightarrow> (case (q_gcc s, q_gcc e) of
       (Some a, Some b) \<Rightarrow> (case CalcShortestPath (callback D p1) a b (gp_graph p1) of
           None \<Rightarrow> None
         | Some (Inl x, gc) \<Rightarrow> Some (Inl x, p1\<lparr> gp_graph := gc \<rparr>)
         | Some (Inr (c, path), gc) \<Rightarrow>
             if path = [] then Some (Inr None, p1\<lparr> gp_graph := gc \<rparr>)
             else (case answer s e c path (p1\<lparr> gp_graph := gc \<rparr>) of
                 None \<Rightarrow> None
               | Some (Inl x) \<Rightarrow> Some (Inl x, p1\<lparr> gp_graph := gc \<rparr>)
               | Some (Inr a') \<Rightarrow>
                   Some (Inr a', RemoveTerminalNode D e (RemoveTerminalNode D s (p1\<lparr> gp_graph := gc \<rparr>)))))
     | _ \<Rightarrow> Some (Inr None, p1)))"

definition FastEstimatePathLength ::
  "('t, 'traj) drake \<Rightarrow> (config \<Rightarrow> inspection throws) \<Rightarrow> config \<Rightarrow> config
   \<Rightarrow> 't gcs_planner \<Rightarrow> (score option throws \<times> 't gcs_planner) option" where
  "FastEstimatePathLength D inspect = answer_query D inspect (\<lambda>s e c path p. Some (Inr (Some c)))"

definition add_unique :: "'x \<Rightarrow> 'x list \<Rightarrow> 'x list" where
  "add_unique x xs = (if x \<in> set xs then xs else xs @ [x])"

definition participating :: "region_pairs \<Rightarrow> vid list \<Rightarrow> vid list \<Rightarrow> vid list" where
  "participating regions main gcc = fold (\<lambda>v vs. case regions v of
     None \<Rightarrow> vs | Some (a, b) \<Rightarrow> add_unique (main ! b) (add_unique (main ! a) vs)) gcc []"

definition front_of :: "('t, 'traj) drake \<Rightarrow> 't gcs_planner \<Rightarrow> subgraph option \<Rightarrow> vid list" where
  "front_of D p s = (case s of None \<Rightarrow> [] | Some i \<Rightarrow> take 1 (opt_vertices D (gp_opt p) i))"

definition ConvertToGcsVertices ::
  "('t, 'traj) drake \<Rightarrow> 't gcs_planner \<Rightarrow> vid list \<Rightarrow> terminal_node \<Rightarrow> terminal_node \<Rightarrow> vid list throws option" where
  "ConvertToGcsVertices D p gcc s e =
     (let main = opt_vertices D (gp_opt p) (opt_main D (gp_opt p));
          important = participating (gp_regions p) main gcc
            @ front_of D p (visible_subgraph s) @ front_of D p (visible_subgraph e)
      in case (q_subgraph s, front_of D p (q_subgraph e)) of
        (Some i, goal # _) \<Rightarrow>
          (case opt_vertices D (gp_opt p) i of
             [start] \<Rightarrow> descend (CalcHopsFromGoal important (opt_ins D (gp_opt p)) goal) (opt_outs D (gp_opt p)) goal start []
           | _ \<Rightarrow> Some (Inl ''DRAKE_DEMAND''))
      | _ \<Rightarrow> Some (Inl ''DRAKE_DEMAND''))"

text \<open>A restriction that cannot be solved is logged; its trajectory is returned all the same.\<close>

definition CalcOptimalPath ::
  "('t, 'traj) drake \<Rightarrow> (config \<Rightarrow> inspection throws) \<Rightarrow> config \<Rightarrow> config
   \<Rightarrow> 't gcs_planner \<Rightarrow> ('traj option throws \<times> 't gcs_planner) option" where
  "CalcOptimalPath D inspect = answer_query D inspect (\<lambda>s e c path p.
     case ConvertToGcsVertices D p path s e of
       None \<Rightarrow> None
     | Some (Inl x) \<Rightarrow> Some (Inl x)
     | Some (Inr gcs_path) \<Rightarrow> Some (Inr (Some (fst (opt_solve D gcs_path (gp_opt p))))))"

text \<open>The planner on convex hulls gets the sets of the two ends and the regions between them.\<close>

definition end_sets :: "config \<Rightarrow> terminal_node \<Rightarrow> config \<times> connecting_set option" where
  "end_sets q t = (q, if visible_subgraph t = None then None else visible_set t)"

definition end_points :: "terminal_node \<Rightarrow> nat" where
  "end_points t = (if visible_subgraph t = None then 1 else 2)"

definition CalcOptimalPathCHulls ::
  "('t, 'traj) drake \<Rightarrow> (config \<Rightarrow> inspection throws)
   \<Rightarrow> (config \<times> connecting_set option \<Rightarrow> config \<times> connecting_set option \<Rightarrow> nat list \<Rightarrow> 'traj option throws)
   \<Rightarrow> config \<Rightarrow> config \<Rightarrow> 't gcs_planner \<Rightarrow> ('traj option throws \<times> 't gcs_planner) option" where
  "CalcOptimalPathCHulls D inspect solve q1 q2 = answer_query D inspect (\<lambda>s e c path p.
     case ConvertToCHullVertices (gp_regions p) (gp_index p)
            (drop (end_points s) (take (length path - end_points e) path)) of
       Inl x \<Rightarrow> Some (Inl x)
     | Inr is \<Rightarrow> Some (solve (end_sets q1 s) (end_sets q2 e) is)) q1 q2"

end
