(* ===== verification/Gcs_Queries.thy ===== *)
theory Gcs_Queries
  imports Gcs_Planner
begin

text \<open>
  What the queries of \<open>SingleModeGcsPlanner\<close> return: a search that adds its edges lazily finds the best
  route of the graph with all edges; a query that succeeds leaves a planner for the next one; a query that finds
  no path does not.
\<close>

section \<open>Adding edges\<close>

abbreviation verts :: "graph_of_configs \<Rightarrow> vid set" where "verts gc \<equiv> set (Vertices (base gc))"

definition targets :: "graph_of_configs \<Rightarrow> vid \<Rightarrow> vid set" where "targets gc u = snd ` set (outgoing (base gc) u)"

definition adjacent :: "region_pairs \<Rightarrow> vid \<Rightarrow> vid \<Rightarrow> bool" where
  "adjacent R u v \<longleftrightarrow> u \<noteq> v \<and> (\<exists>r r'. R u = Some r \<and> R v = Some r' \<and> share_region r r')"

lemma targets_grow: "grows_at A gc gc' \<Longrightarrow> u \<in> verts gc \<Longrightarrow> targets gc u \<subseteq> targets gc' u"
  by (auto simp: grows_at_def targets_def)

lemma targets_same: "grows_at A gc gc' \<Longrightarrow> u \<in> verts gc \<Longrightarrow> u \<notin> A \<Longrightarrow> targets gc' u = targets gc u"
  by (simp add: grows_at_def targets_def)

lemma grows_verts: "grows_at A gc gc' \<Longrightarrow> verts gc' = verts gc"
  by (simp add: grows_at_def)

lemma add_graph_edge_ok:
  assumes "adds_edge adde" "gc_inv gc" "u \<in> verts gc" "v \<in> verts gc"
  shows "\<exists>gc'. add_graph_edge adde u v gc = (Inr (), gc') \<and> gc_inv gc' \<and> grows_at {u} gc gc'
    \<and> targets gc' = (targets gc)(u := insert v (targets gc u))"
proof -
  obtain e gc' where e: "AddEdge adde u v [] gc = Inr (e, gc')" "gc_inv gc'"
    using gc_inv_AddEdge [OF assms, of "[]"] by blast
  obtain e1 b where b: "adde u v [] (base gc) = (e1, b)" by (cases "adde u v [] (base gc)")
  have new: "Vertices b = Vertices (base gc)" "point_of b = point_of (base gc)"
      "outgoing b = (outgoing (base gc))(u := outgoing (base gc) u @ [(e1, v)])"
    using assms(1,3,4) b unfolding adds_edge_def by blast+
  have gc': "base gc' = b" "dist_func gc' = dist_func gc"
    using e(1) b gc_inv_point [OF assms(2,3)] gc_inv_point [OF assms(2,4)]
    by (auto simp: AddEdge_def bindE_Inr_iff)
  have "targets gc' = (targets gc)(u := insert v (targets gc u))"
    by (rule ext) (simp add: targets_def gc'(1) new(3))
  then show ?thesis using e by (auto simp: add_graph_edge_def grows_at_def gc' new)
qed

lemma add_edges_func_ok:
  assumes "adds_edge adde" "gc_inv gc" "v \<in> verts gc"
  shows "\<exists>gc'. add_edges_func adde R v gc = (Inr (), gc') \<and> gc_inv gc' \<and> grows_at {v} gc gc'
    \<and> (if (outgoing (base gc) v \<noteq> [] \<and> has_incoming gc v) \<or> R v = None then gc' = gc
       else targets gc' = (targets gc)(v := targets gc v \<union> {w \<in> verts gc. adjacent R v w}))"
proof (cases "(outgoing (base gc) v \<noteq> [] \<and> has_incoming gc v) \<or> R v = None")
  case True
  then show ?thesis using assms(2) grows_refl by (auto simp: add_edges_func_def)
next
  case False
  then obtain r where r: "R v = Some r" by auto
  let ?f = "\<lambda>w. if v = w then returnX () else case R w of None \<Rightarrow> returnX ()
      | Some r' \<Rightarrow> if share_region r r' then add_graph_edge adde v w else returnX ()"
  let ?P = "\<lambda>ws gc'. gc_inv gc' \<and> grows_at {v} gc gc'
    \<and> targets gc' = (targets gc)(v := targets gc v \<union> {w \<in> set ws. adjacent R v w})"
  have "\<exists>gc'. forX (Vertices (base gc)) ?f gc = (Inr (), gc') \<and> ?P (Vertices (base gc)) gc'"
  proof (rule forX_succeeds)
    show "?P [] gc" using assms(2) grows_refl by auto
    fix ws w ws' gc1
    assume ws: "Vertices (base gc) = ws @ w # ws'" and P: "?P ws gc1"
    show "\<exists>gc'. ?f w gc1 = (Inr (), gc') \<and> ?P (ws @ [w]) gc'"
    proof (cases "adjacent R v w")
      case False
      then have "?f w gc1 = (Inr (), gc1)" using r by (auto simp: adjacent_def split: option.split)
      moreover have "{x \<in> set (ws @ [w]). adjacent R v x} = {x \<in> set ws. adjacent R v x}" using False by auto
      ultimately show ?thesis using P by (intro exI [of _ gc1]) (simp only: simp_thms)
    next
      case True
      then have f: "?f w gc1 = add_graph_edge adde v w gc1" using r by (auto simp: adjacent_def)
      have "v \<in> verts gc1" "w \<in> verts gc1" using P assms(3) ws by (auto simp: grows_at_def)
      from add_graph_edge_ok [OF assms(1) _ this] P obtain gc2 where
        2: "add_graph_edge adde v w gc1 = (Inr (), gc2)" "gc_inv gc2" "grows_at {v} gc1 gc2"
           "targets gc2 = (targets gc1)(v := insert w (targets gc1 v))"
        by blast
      have "targets gc2 = (targets gc)(v := targets gc v \<union> {x \<in> set (ws @ [w]). adjacent R v x})"
      proof -
        have "{x \<in> set (ws @ [w]). adjacent R v x} = insert w {x \<in> set ws. adjacent R v x}" using True by auto
        then show ?thesis using 2(4) P by (simp only: fun_upd_same fun_upd_upd Un_insert_right)
      qed
      moreover have "grows_at {v} gc gc2" using grows_trans [OF _ 2(3)] P by auto
      ultimately show ?thesis using f 2(1,2) by auto
    qed
  qed
  then show ?thesis using False r by (auto simp: add_edges_func_def)
qed

section \<open>The search with lazy edges\<close>

definition full :: "region_pairs \<Rightarrow> graph_of_configs \<Rightarrow> vid \<Rightarrow> bool" where
  "full R gc u \<longleftrightarrow> (\<forall>v \<in> verts gc. adjacent R u v \<longrightarrow> v \<in> targets gc u)"

text \<open>The graphs between the start of the search on \<open>g0\<close> and its end: a vertex has all its edges, or none besides
  those to the terminals.\<close>

definition lazy_ok :: "region_pairs \<Rightarrow> graph_of_configs \<Rightarrow> graph_of_configs \<Rightarrow> bool" where
  "lazy_ok R g0 gc \<longleftrightarrow> gc_inv gc \<and> grows_at UNIV g0 gc
     \<and> (\<forall>u \<in> verts gc. R u = None \<longrightarrow> targets gc u = targets g0 u)
     \<and> (\<forall>u \<in> verts gc. \<forall>v \<in> targets gc u. R u \<noteq> None \<longrightarrow> (R v = None \<and> v \<in> targets g0 u) \<or> adjacent R u v)
     \<and> (\<forall>u \<in> verts gc. R u \<noteq> None \<longrightarrow> full R gc u \<or> (\<forall>v \<in> targets gc u. R v = None))"

definition lazy_complete :: "region_pairs \<Rightarrow> graph_of_configs \<Rightarrow> vid \<Rightarrow> bool" where
  "lazy_complete R gc u \<longleftrightarrow> R u = None \<or> full R gc u \<or> (\<exists>v \<in> targets gc u. R v = None)"

lemma lazy_okD:
  assumes "lazy_ok R g0 gc"
  shows "gc_inv gc" "grows_at UNIV g0 gc" "\<And>u. u \<in> verts gc \<Longrightarrow> R u = None \<Longrightarrow> targets gc u = targets g0 u"
    "\<And>u v. u \<in> verts gc \<Longrightarrow> v \<in> targets gc u \<Longrightarrow> R u \<noteq> None \<Longrightarrow> (R v = None \<and> v \<in> targets g0 u) \<or> adjacent R u v"
    "\<And>u. u \<in> verts gc \<Longrightarrow> R u \<noteq> None \<Longrightarrow> full R gc u \<or> (\<forall>v \<in> targets gc u. R v = None)"
  using assms unfolding lazy_ok_def by blast+

lemma lazy_step:
  assumes "adds_edge adde" "lazy_ok R g0 gc" "v \<in> verts gc"
  shows "\<exists>gc'. add_edges_func adde R v gc = (Inr (), gc') \<and> lazy_ok R g0 gc' \<and> grows_at {v} gc gc' \<and> lazy_complete R gc' v"
proof -
  note ok = lazy_okD [OF assms(2)]
  from add_edges_func_ok [OF assms(1) ok(1) assms(3), of R] obtain gc' where
    gc': "add_edges_func adde R v gc = (Inr (), gc')" "gc_inv gc'" "grows_at {v} gc gc'" and
    c: "if (outgoing (base gc) v \<noteq> [] \<and> has_incoming gc v) \<or> R v = None then gc' = gc
       else targets gc' = (targets gc)(v := targets gc v \<union> {w \<in> verts gc. adjacent R v w})"
    by blast
  note V = grows_verts [OF gc'(3)]
  show ?thesis
  proof (cases "(outgoing (base gc) v \<noteq> [] \<and> has_incoming gc v) \<or> R v = None")
    case True
    then have "lazy_complete R gc v"
      using ok(5) [OF assms(3)] by (auto simp: lazy_complete_def targets_def neq_Nil_conv)
    then show ?thesis using c True gc' assms(2) by auto
  next
    case False
    then have t: "targets gc' = (targets gc)(v := targets gc v \<union> {w \<in> verts gc. adjacent R v w})" and Rv: "R v \<noteq> None"
      using c by auto
    have fv: "full R gc' v" using t by (auto simp: full_def V)
    have "grows_at UNIV g0 gc'" by (rule grows_trans [OF ok(2) gc'(3)]) simp
    moreover have "targets gc' u = targets g0 u" if "u \<in> verts gc'" "R u = None" for u
      using that ok(3) Rv t V by auto
    moreover have "(R w = None \<and> w \<in> targets g0 u) \<or> adjacent R u w"
      if "u \<in> verts gc'" "w \<in> targets gc' u" "R u \<noteq> None" for u w
      using that ok(4) [of u w] t V by (cases "u = v") auto
    moreover have "full R gc' u \<or> (\<forall>w \<in> targets gc' u. R w = None)" if "u \<in> verts gc'" "R u \<noteq> None" for u
      using that ok(5) [of u] t V fv by (cases "u = v") (auto simp: full_def)
    ultimately have "lazy_ok R g0 gc'" using gc'(2) unfolding lazy_ok_def by blast
    then show ?thesis using gc' fv by (auto simp: lazy_complete_def)
  qed
qed

lemma lazy_supplier:
  assumes "adds_edge adde"
  shows "edge_supplier (Some (add_edges_func adde R)) (lazy_ok R g0) (lazy_complete R)"
proof
  show "gc_inv gc" if "lazy_ok R g0 gc" for gc using that by (rule lazy_okD(1))
  show "\<exists>gc'. call_add_edges (Some (add_edges_func adde R)) v gc = (Inr (), gc') \<and> lazy_ok R g0 gc' \<and> grows_at {v} gc gc'
      \<and> lazy_complete R gc' v" if "lazy_ok R g0 gc" "v \<in> verts gc" for gc v
    using lazy_step [OF assms that] by (simp add: call_add_edges_def)
  show "lazy_complete R gc' u" if "lazy_complete R gc u" "lazy_ok R g0 gc" "u \<in> verts gc" "grows_at A gc gc'" for gc gc' u A
    using that(1) targets_grow [OF that(4,3)] grows_verts [OF that(4)] unfolding lazy_complete_def full_def by blast
qed

text \<open>Routes of the graph in which all vertices that share a region are joined.\<close>

inductive route :: "region_pairs \<Rightarrow> graph_of_configs \<Rightarrow> vid \<Rightarrow> vid list \<Rightarrow> vid \<Rightarrow> real \<Rightarrow> bool" for R gc start where
  here: "route R gc start [start] start 0"
| step: "route R gc start p u c \<Longrightarrow> v \<in> verts gc \<Longrightarrow> v \<in> targets gc u \<or> adjacent R u v
    \<Longrightarrow> route R gc start (p @ [v]) v (c + vdist gc u v)"

definition best_route :: "region_pairs \<Rightarrow> graph_of_configs \<Rightarrow> vid \<Rightarrow> vid \<Rightarrow> (score \<times> vid list) throws \<Rightarrow> bool" where
  "best_route R gc start goal r \<longleftrightarrow>
     (\<exists>c p. r = Inr (Some c, p) \<and> route R gc start p goal c \<and> (\<forall>p' c'. route R gc start p' goal c' \<longrightarrow> c \<le> c'))
     \<or> (r = Inl ''No path found'' \<and> (\<forall>p c. \<not> route R gc start p goal c))"

lemma route_verts: "route R gc start p v c \<Longrightarrow> start \<in> verts gc \<Longrightarrow> v \<in> verts gc"
  by (induction rule: route.induct) auto

text \<open>The way to the goal leaves the intersections at the vertex \<open>t\<close>: the goal, or the point its region is seen from.\<close>

definition one_exit :: "region_pairs \<Rightarrow> graph_of_configs \<Rightarrow> vid \<Rightarrow> vid \<Rightarrow> bool" where
  "one_exit R g goal t \<longleftrightarrow> t \<in> verts g \<and> goal \<in> verts g \<and> R goal = None
     \<and> (\<forall>u \<in> verts g. \<forall>v \<in> targets g u. R u \<noteq> None \<longrightarrow> R v = None \<longrightarrow> v = t)
     \<and> (t = goal \<or> goal \<in> targets g t) \<and> (\<forall>u \<in> verts g. goal \<in> targets g u \<longrightarrow> t = goal \<or> u = t)"

lemma walk_target:
  assumes "gc_inv gc" "start \<in> verts gc" "walk gc start p u c" "v \<in> targets gc u"
  shows "walk gc start (p @ [v]) v (c + vdist gc u v)"
proof -
  obtain e where e: "(e, v) \<in> set (outgoing (base gc) u)" using assms(4) by (auto simp: targets_def)
  have "u \<in> verts gc" using walk_vertices [OF assms(1-3)] by simp
  from gc_inv_edge [OF assms(1) this e] have "edge_cost gc e = Some (vdist gc u v)" by simp
  with walk.step [OF assms(3) e] show ?thesis by simp
qed

lemma lazy_walk_route:
  assumes "lazy_ok R g0 gc" "start \<in> verts g0" "walk gc start p v c"
  shows "route R g0 start p v c"
  using assms(3)
proof induction
  case here
  show ?case by (rule route.here)
next
  case (step p u c e v k)
  note ok = lazy_okD [OF assms(1)]
  have V: "verts gc = verts g0" by (rule grows_verts [OF ok(2)])
  have u: "u \<in> verts gc" using route_verts [OF step.IH assms(2)] V by simp
  have v: "v \<in> verts g0" "k = vdist g0 u v" "v \<in> targets gc u"
    using gc_inv_edge [OF ok(1) u step.hyps(2)] step.hyps(2,3) V grows_vdist [OF ok(2)] by (force simp: targets_def)+
  have "v \<in> targets g0 u \<or> adjacent R u v"
    using ok(3) [OF u] ok(4) [OF u v(3)] v(3) by (cases "R u = None") auto
  then show ?case using route.step [OF step.IH v(1)] v(2) by simp
qed

lemma vdist_laws:
  assumes "gc_inv gc" "u \<in> verts gc" "v \<in> verts gc" "w \<in> verts gc"
  shows "0 \<le> vdist gc u v" "vdist gc u w \<le> vdist gc u v + vdist gc v w" "vdist gc u u = 0"
  using met.nonneg [OF gc_inv_valid [OF assms(1,2)] gc_inv_valid [OF assms(1,3)]]
    met.triangle [OF gc_inv_valid [OF assms(1,2)] gc_inv_valid [OF assms(1,3)] gc_inv_valid [OF assms(1,4)]]
    met.self [OF gc_inv_valid [OF assms(1,2)]]
  by (simp_all add: vdist_def)

text \<open>A walk of the final graph that ends in an expanded vertex can be continued along any edge of the complete graph, or
  it can be continued directly to the goal.\<close>

lemma lazy_extend:
  assumes ok: "lazy_ok R g0 g1" and exit: "one_exit R g0 goal t" and start: "start \<in> verts g0"
    and w: "walk g1 start q u k" "lazy_complete R g1 u"
    and e: "v \<in> targets g0 u \<or> adjacent R u v" "v \<in> verts g0"
  shows "(\<exists>q'. walk g1 start q' v (k + vdist g0 u v)) \<or> (\<exists>q'. walk g1 start q' goal (k + vdist g0 u t + vdist g0 t goal))"
proof -
  note O = lazy_okD [OF ok]
  have V: "verts g1 = verts g0" by (rule grows_verts [OF O(2)])
  note d = grows_vdist [OF O(2)]
  have s1: "start \<in> verts g1" using start V by simp
  have u: "u \<in> verts g1" using walk_vertices [OF O(1) s1 w(1)] by simp
  have go: "\<exists>q'. walk g1 start q' v (k + vdist g0 u v)" if "v \<in> targets g1 u"
    using walk_target [OF O(1) s1 w(1) that] d by auto
  show ?thesis
  proof (cases "v \<in> targets g1 u")
    case False
    have "targets g0 u \<subseteq> targets g1 u" using targets_grow [OF O(2)] u V by simp
    with False e(1) have a: "adjacent R u v" by blast
    then have Ru: "R u \<noteq> None" by (auto simp: adjacent_def)
    have "\<not> full R g1 u" using False a e(2) V by (auto simp: full_def)
    then obtain x where x: "x \<in> targets g1 u" "R x = None" using w(2) Ru by (auto simp: lazy_complete_def)
    then have "x \<in> targets g0 u" using O(4) [OF u x(1) Ru] by (auto simp: adjacent_def)
    then have "x = t" using exit u V Ru x(2) by (auto simp: one_exit_def)
    with walk_target [OF O(1) s1 w(1) x(1)] have wt: "walk g1 start (q @ [t]) t (k + vdist g0 u t)" using d by simp
    have t: "t \<in> verts g1" using exit V by (simp add: one_exit_def)
    show ?thesis
    proof (cases "t = goal")
      case True
      then have "vdist g0 t goal = 0" using vdist_laws(3) [OF O(1) t t t] d by simp
      then show ?thesis using wt True by auto
    next
      case False
      then have "goal \<in> targets g1 t" using exit O(3) [OF t] x(2) \<open>x = t\<close> by (auto simp: one_exit_def)
      from walk_target [OF O(1) s1 wt this] show ?thesis using d by auto
    qed
  qed (use go in blast)
qed

lemma lazy_search_best:
  assumes adde: "adds_edge adde" and ok0: "lazy_ok R g0 g0" and exit: "one_exit R g0 goal t" and start: "start \<in> verts g0"
  shows "\<exists>r g1. CalcShortestPath (Some (add_edges_func adde R)) start goal g0 = Some (r, g1) \<and> lazy_ok R g0 g1
    \<and> best_route R g0 start goal r"
proof -
  have goal: "goal \<in> verts g0" "R goal = None" "t \<in> verts g0" using exit by (auto simp: one_exit_def)
  obtain r g1 C where run: "CalcShortestPath (Some (add_edges_func adde R)) start goal g0 = Some (r, g1)"
      and ok: "lazy_ok R g0 g1" and fd: "found g1 C start goal r" and C: "\<forall>u \<in> C. lazy_complete R g1 u"
    using edge_supplier.search_result [OF lazy_supplier [OF adde] ok0 start goal(1)] by blast
  note O = lazy_okD [OF ok] and inv0 = lazy_okD(1) [OF ok0]
  note d = grows_vdist [OF O(2)]
  have gC: "goal \<notin> C" using fd by (simp add: found_def)
  note ext = lazy_extend [OF ok exit start]
  have "best_route R g0 start goal r"
  proof (cases "\<exists>c p. r = Inr (Some c, p)")
    case True
    then obtain c p where r: "r = Inr (Some c, p)" "walk g1 start p goal c"
        and best: "\<And>q u k. walk g1 start q u k \<Longrightarrow> u \<notin> C \<Longrightarrow> c \<le> k + vdist g0 u goal"
      using fd d unfolding found_def by auto
    define rest where "rest u = (if u = goal then 0 else vdist g0 u t + vdist g0 t goal)" for u
    have rest_goal: "vdist g0 u goal \<le> rest u" if "u \<in> verts g0" for u
      using vdist_laws(2) [OF inv0 that goal(3,1)] vdist_laws(3) [OF inv0 goal(1) goal(1) goal(1)] by (simp add: rest_def)
    have rest_step: "rest u \<le> vdist g0 u v + rest v"
      if u: "u \<in> verts g0" and v: "v \<in> verts g0" and e: "v \<in> targets g0 u \<or> adjacent R u v" for u v
    proof -
      have nn: "0 \<le> vdist g0 u v" "0 \<le> vdist g0 v t" "0 \<le> vdist g0 t goal"
        using vdist_laws(1) [OF inv0 u v v] vdist_laws(1) [OF inv0 v goal(3,3)] vdist_laws(1) [OF inv0 goal(3,1,1)] by simp_all
      consider "u = goal" | "u \<noteq> goal" "v = goal" | "u \<noteq> goal" "v \<noteq> goal" by blast
      then show ?thesis
      proof cases
        case 1
        then show ?thesis using nn by (simp add: rest_def)
      next
        case 2
        then have "goal \<in> targets g0 u" using e goal(2) by (auto simp: adjacent_def)
        then have "t = goal \<or> u = t" using exit u by (auto simp: one_exit_def)
        then show ?thesis using 2 vdist_laws(3) [OF inv0 goal(3) goal(3) goal(3)] by (auto simp: rest_def)
      next
        case 3
        then show ?thesis using vdist_laws(2) [OF inv0 u v goal(3)] by (simp add: rest_def)
      qed
    qed
    have bound: "(\<exists>q. walk g1 start q u k) \<or> c \<le> k + rest u" if "route R g0 start p' u k" for p' u k
      using that
    proof induction
      case here
      show ?case by (auto intro: walk.here)
    next
      case (step p' u k v)
      have u: "u \<in> verts g0" by (rule route_verts [OF step.hyps(1) start])
      note rs = rest_step [OF u step.hyps(2,3)]
      show ?case
        using step.IH
      proof
        assume "\<exists>q. walk g1 start q u k"
        then obtain q where q: "walk g1 start q u k" by blast
        show ?thesis
        proof (cases "u \<in> C")
          case False
          then show ?thesis using best [OF q] rest_goal [OF u] rs by linarith
        next
          case True
          from ext [OF q _ step.hyps(3,2)] C True
          have "(\<exists>q'. walk g1 start q' v (k + vdist g0 u v))
              \<or> (\<exists>q'. walk g1 start q' goal (k + vdist g0 u t + vdist g0 t goal))" by blast
          then show ?thesis
          proof
            assume "\<exists>q'. walk g1 start q' goal (k + vdist g0 u t + vdist g0 t goal)"
            then have "c \<le> k + vdist g0 u t + vdist g0 t goal"
              using best [OF _ gC] vdist_laws(3) [OF inv0 goal(1) goal(1) goal(1)] by fastforce
            moreover have "u \<noteq> goal" using True gC by blast
            ultimately show ?thesis using rs by (simp add: rest_def)
          qed blast
        qed
      next
        assume "c \<le> k + rest u"
        then show ?thesis using rs by linarith
      qed
    qed
    have "c \<le> c'" if "route R g0 start p' goal c'" for p' c'
      using bound [OF that] best [OF _ gC] vdist_laws(3) [OF inv0 goal(1) goal(1) goal(1)] by (auto simp: rest_def)
    then show ?thesis using r lazy_walk_route [OF ok start r(2)] by (auto simp: best_route_def)
  next
    case False
    then have r: "r = Inl ''No path found''" "\<And>q u k. walk g1 start q u k \<Longrightarrow> u \<in> C"
      using fd unfolding found_def by blast+
    have "\<exists>q k. walk g1 start q u k" if "route R g0 start p' u k'" for p' u k'
      using that
    proof induction
      case here
      show ?case by (auto intro: walk.here)
    next
      case (step p' u k' v)
      then obtain q k where q: "walk g1 start q u k" by blast
      have "lazy_complete R g1 u" using C r(2) [OF q] by blast
      from ext [OF q this step.hyps(3,2)] r(2) gC show ?case by blast
    qed
    then have "\<not> route R g0 start p goal c" for p c using r(2) gC by blast
    then show ?thesis using r(1) by (simp add: best_route_def)
  qed
  then show ?thesis using run ok by blast
qed

section \<open>Adding and removing terminals\<close>

definition removes_vertex :: "(vid \<Rightarrow> gcs \<Rightarrow> gcs) \<Rightarrow> bool" where
  "removes_vertex rem \<longleftrightarrow> (\<forall>v g. set (Vertices (rem v g)) = set (Vertices g) - {v}
     \<and> (\<forall>u \<in> set (Vertices g) - {v}. point_of (rem v g) u = point_of g u
          \<and> outgoing (rem v g) u = filter (\<lambda>(e, x). x \<noteq> v) (outgoing g u)))"

definition drake_ok :: "('t, 'traj) drake \<Rightarrow> bool" where
  "drake_ok D \<longleftrightarrow> adds_vertex (dr_add_vertex D) \<and> adds_edge (dr_add_edge D) \<and> removes_vertex (dr_remove_vertex D)"

text \<open>What an operation on the terminals leaves alone.\<close>

definition same_rest :: "'t gcs_planner \<Rightarrow> 't gcs_planner \<Rightarrow> bool" where
  "same_rest p p' \<longleftrightarrow> gp_regions p' = gp_regions p \<and> gp_lazy p' = gp_lazy p \<and> gc_dim (gp_graph p') = gc_dim (gp_graph p)"

lemma grows_dim: "gc_inv gc \<Longrightarrow> gc_inv gc' \<Longrightarrow> grows_at A gc gc' \<Longrightarrow> gc_dim gc' = gc_dim gc"
  by (simp add: gc_inv_def grows_at_def)

lemma graph_vertex_ok:
  assumes "drake_ok D" "gc_inv (gp_graph p)" "length q = gc_dim (gp_graph p)" "graph_vertex D q name p = (Inr v, p')"
  shows "v \<notin> verts (gp_graph p)" "gc_inv (gp_graph p')" "verts (gp_graph p') = insert v (verts (gp_graph p))"
    "targets (gp_graph p') = (targets (gp_graph p))(v := {})" "same_rest p p'"
proof -
  obtain gc where gc: "AddVertex (dr_add_vertex D) (Point q) name (gp_graph p) = Inr (v, gc)" "p' = p\<lparr> gp_graph := gc \<rparr>"
    using assms(4) by (auto simp: graph_vertex_def split: sum.splits)
  obtain b where b: "dr_add_vertex D q name (base (gp_graph p)) = (v, b)" "gc = (gp_graph p)\<lparr> base := b \<rparr>"
    using gc(1) by (auto simp: AddVertex_def split: prod.splits)
  have law: "adds_vertex (dr_add_vertex D)" using assms(1) by (simp add: drake_ok_def)
  then have new: "v \<notin> verts (gp_graph p)" "set (Vertices b) = insert v (verts (gp_graph p))"
      "outgoing b = (outgoing (base (gp_graph p)))(v := [])"
    using b(1) unfolding adds_vertex_def by blast+
  show "v \<notin> verts (gp_graph p)" by (rule new(1))
  show "gc_inv (gp_graph p')" using gc_inv_AddVertex [OF law assms(2,3) gc(1)] gc(2) by simp
  show "verts (gp_graph p') = insert v (verts (gp_graph p))" using gc(2) b(2) new(2) by simp
  show "targets (gp_graph p') = (targets (gp_graph p))(v := {})"
    by (rule ext) (simp add: targets_def gc(2) b(2) new(3))
  show "same_rest p p'" by (simp add: same_rest_def gc(2) b(2))
qed

lemma graph_edge_ok:
  assumes "drake_ok D" "gc_inv (gp_graph p)" "u \<in> verts (gp_graph p)" "v \<in> verts (gp_graph p)"
  shows "\<exists>p'. graph_edge D u v p = (Inr (), p') \<and> gc_inv (gp_graph p') \<and> verts (gp_graph p') = verts (gp_graph p)
    \<and> targets (gp_graph p') = (targets (gp_graph p))(u := insert v (targets (gp_graph p) u)) \<and> same_rest p p'"
proof -
  have "adds_edge (dr_add_edge D)" using assms(1) by (simp add: drake_ok_def)
  from add_graph_edge_ok [OF this assms(2-4)] obtain gc where
    gc: "add_graph_edge (dr_add_edge D) u v (gp_graph p) = (Inr (), gc)" "gc_inv gc" "grows_at {u} (gp_graph p) gc"
      "targets gc = (targets (gp_graph p))(u := insert v (targets (gp_graph p) u))" by blast
  then show ?thesis using grows_verts [OF gc(3)] grows_dim [OF assms(2) gc(2,3)]
    by (auto simp: graph_edge_def same_rest_def)
qed

text \<open>The targets after edges were drawn between a new vertex \<open>u\<close> and the vertices in \<open>M\<close>.\<close>

definition linked :: "terminal_type \<Rightarrow> vid \<Rightarrow> vid set \<Rightarrow> (vid \<Rightarrow> vid set) \<Rightarrow> vid \<Rightarrow> vid set" where
  "linked t u M T = (case t of kStart \<Rightarrow> T(u := T u \<union> M) | kEnd \<Rightarrow> (\<lambda>v. if v \<in> M then insert u (T v) else T v))"

lemma towards_edge_ok:
  assumes "drake_ok D" "gc_inv (gp_graph p)" "u \<in> verts (gp_graph p)" "v \<in> verts (gp_graph p)"
  shows "\<exists>p'. towards t (graph_edge D) u v p = (Inr (), p') \<and> gc_inv (gp_graph p') \<and> verts (gp_graph p') = verts (gp_graph p)
    \<and> targets (gp_graph p') = linked t u {v} (targets (gp_graph p)) \<and> same_rest p p'"
proof (cases t)
  case kStart
  then show ?thesis using graph_edge_ok [OF assms] by (simp add: towards_def linked_def)
next
  case kEnd
  have "(\<lambda>x. if x \<in> {v} then insert u (T x) else T x) = T(v := insert u (T v))" for T :: "vid \<Rightarrow> vid set"
    by (rule ext) simp
  then show ?thesis using kEnd graph_edge_ok [OF assms(1,2,4,3)] by (simp add: towards_def linked_def)
qed

lemma linked_step: "linked t u {v} (linked t u M T) = linked t u (insert v M) T"
  by (cases t) (auto simp: linked_def fun_eq_iff)

lemma connect_regions_ok:
  assumes "drake_ok D" "gc_inv (gp_graph p)" "u \<in> verts (gp_graph p)" "connect_regions D indices t u p = (r, p')"
  shows "\<exists>M. r = Inr () \<and> M \<subseteq> verts (gp_graph p) \<inter> dom (gp_regions p) \<and> gc_inv (gp_graph p')
    \<and> verts (gp_graph p') = verts (gp_graph p) \<and> targets (gp_graph p') = linked t u M (targets (gp_graph p)) \<and> same_rest p p'"
proof -
  define hit where "hit v = (case gp_regions p v of None \<Rightarrow> False | Some (i, j) \<Rightarrow> list_ex (\<lambda>k. i = k \<or> j = k) indices)" for v
  let ?f = "\<lambda>v. case gp_regions p v of None \<Rightarrow> returnX ()
     | Some (i, j) \<Rightarrow> if list_ex (\<lambda>k. i = k \<or> j = k) indices then towards t (graph_edge D) u v else returnX ()"
  let ?P = "\<lambda>vs p'. gc_inv (gp_graph p') \<and> verts (gp_graph p') = verts (gp_graph p)
    \<and> targets (gp_graph p') = linked t u {v \<in> set vs. hit v} (targets (gp_graph p)) \<and> same_rest p p'"
  have "\<exists>p'. forX (Vertices (base (gp_graph p))) ?f p = (Inr (), p') \<and> ?P (Vertices (base (gp_graph p))) p'"
  proof (rule forX_succeeds [where P = ?P])
    show "?P [] p" using assms(2) by (cases t) (simp_all add: same_rest_def linked_def)
    fix vs v vs' p1
    assume vs: "Vertices (base (gp_graph p)) = vs @ v # vs'" and P: "?P vs p1"
    show "\<exists>p'. ?f v p1 = (Inr (), p') \<and> ?P (vs @ [v]) p'"
    proof (cases "hit v")
      case False
      then have "?f v p1 = (Inr (), p1)" by (auto simp: hit_def split: option.splits)
      moreover have "{x \<in> set (vs @ [v]). hit x} = {x \<in> set vs. hit x}" using False by auto
      ultimately show ?thesis using P by (intro exI [of _ p1]) (simp only: simp_thms)
    next
      case True
      then have f: "?f v p1 = towards t (graph_edge D) u v p1" by (auto simp: hit_def split: option.splits)
      have "u \<in> verts (gp_graph p1)" "v \<in> verts (gp_graph p1)" using P assms(3) vs by auto
      with towards_edge_ok [OF assms(1), of p1 u v t] P obtain p2 where
        2: "towards t (graph_edge D) u v p1 = (Inr (), p2)" "gc_inv (gp_graph p2)" "verts (gp_graph p2) = verts (gp_graph p1)"
          "targets (gp_graph p2) = linked t u {v} (targets (gp_graph p1))" "same_rest p1 p2"
        by blast
      have "{x \<in> set (vs @ [v]). hit x} = insert v {x \<in> set vs. hit x}" using True by auto
      then have "targets (gp_graph p2) = linked t u {x \<in> set (vs @ [v]). hit x} (targets (gp_graph p))"
        using 2(4) P by (simp add: linked_step)
      moreover have "same_rest p p2" using P 2(5) by (simp add: same_rest_def)
      ultimately show ?thesis using f 2(1,2,3) P by (intro exI [of _ p2]) (simp only: simp_thms)
    qed
  qed
  then obtain p2 where p2: "forX (Vertices (base (gp_graph p))) ?f p = (Inr (), p2)" "?P (Vertices (base (gp_graph p))) p2"
    by blast
  have M: "{v \<in> verts (gp_graph p). hit v} \<subseteq> verts (gp_graph p) \<inter> dom (gp_regions p)"
    by (auto simp: hit_def split: option.splits)
  have "r = Inr ()" "p' = p2" using p2(1) assms(4) unfolding connect_regions_def by simp_all
  then show ?thesis using p2(2) M by (intro exI [of _ "{v \<in> verts (gp_graph p). hit v}"]) (simp only: simp_thms)
qed

definition only_opt :: "'t gcs_planner \<Rightarrow> 't gcs_planner \<Rightarrow> bool" where
  "only_opt p p' \<longleftrightarrow> gp_graph p' = gp_graph p \<and> gp_regions p' = gp_regions p \<and> gp_lazy p' = gp_lazy p"

lemma only_opt_refl: "only_opt p p"
  by (simp add: only_opt_def)

lemma on_opt_only: "on_opt f p = (Inr x, p') \<Longrightarrow> only_opt p p'"
  by (auto simp: on_opt_def only_opt_def split: prod.splits)

lemma only_opt_trans: "only_opt p p1 \<Longrightarrow> only_opt p1 p2 \<Longrightarrow> only_opt p p2"
  by (simp add: only_opt_def)

lemma DoAddConfig_steps:
  assumes "DoAddConfig D indices q t p = (Inr s, p')"
  shows "\<exists>p1 v p2 p3. only_opt p p1 \<and> graph_vertex D q (q_name t) p1 = (Inr v, p2) \<and> only_opt p2 p3
    \<and> connect_regions D indices t v p3 = (Inr (), p') \<and> q_gcc s = Some v \<and> q_visible_gcc s = None"
proof -
  from assms obtain sub p1 v p2 p3 where 1: "on_opt (opt_add_point D q (q_name t)) p = (Inr sub, p1)"
      "graph_vertex D q (q_name t) p1 = (Inr v, p2)"
      "on_opt (\<lambda>o'. ((), towards t (opt_connect D) sub (opt_main D (gp_opt p)) o')) p2 = (Inr (), p3)"
      "connect_regions D indices t v p3 = (Inr (), p')" "q_gcc s = Some v" "q_visible_gcc s = None"
    by (auto simp: DoAddConfig_def bindX_Inr_iff split: if_splits)
  then show ?thesis using on_opt_only [OF 1(1)] on_opt_only [OF 1(3)] by blast
qed

lemma DoAddConnectingSet_steps:
  assumes "DoAddConnectingSet D q (k, vq) t p = (Inr s, p')"
  shows "\<exists>v p1 w p2 p3 p4. graph_vertex D q (q_name t) p = (Inr v, p1) \<and> graph_vertex D vq ''point_visible'' p1 = (Inr w, p2)
    \<and> towards t (graph_edge D) v w p2 = (Inr (), p3) \<and> connect_regions D [k] t w p3 = (Inr (), p4) \<and> only_opt p4 p'
    \<and> q_gcc s = Some v \<and> q_visible_gcc s = Some w"
proof -
  from assms obtain v p1 w p2 p3 p4 cset sub p5 csub p6 p7 where 1: "graph_vertex D q (q_name t) p = (Inr v, p1)"
      "graph_vertex D vq ''point_visible'' p1 = (Inr w, p2)" "towards t (graph_edge D) v w p2 = (Inr (), p3)"
      "connect_regions D [k] t w p3 = (Inr (), p4)"
      "on_opt (opt_add_point D q (q_name t)) p4 = (Inr sub, p5)" "on_opt (opt_add_set D cset ''point_visible'') p5 = (Inr csub, p6)"
      "on_opt (\<lambda>o'. ((), towards t (\<lambda>a b. opt_connect_pair D a b (0, 0)) sub csub o')) p6 = (Inr (), p7)"
      "on_opt (\<lambda>o'. ((), case t of kStart \<Rightarrow> opt_connect_pair D csub (opt_main D (gp_opt p)) (0, k) o'
                              | kEnd \<Rightarrow> opt_connect_pair D (opt_main D (gp_opt p)) csub (k, 0) o')) p7 = (Inr (), p')"
      "q_gcc s = Some v" "q_visible_gcc s = Some w"
    by (auto simp: DoAddConnectingSet_def bindX_Inr_iff split: if_splits)
  have "only_opt p4 p'"
    using on_opt_only [OF 1(5)] on_opt_only [OF 1(6)] on_opt_only [OF 1(7)] on_opt_only [OF 1(8)] by (simp add: only_opt_def)
  with 1 show ?thesis by blast
qed

text \<open>The effect of a terminal on the graph: \<open>v\<close> is its vertex, \<open>x\<close> the one that is linked to the vertices of the regions.\<close>

definition terminal_added ::
  "terminal_type \<Rightarrow> region_pairs \<Rightarrow> graph_of_configs \<Rightarrow> terminal_node \<Rightarrow> vid \<Rightarrow> vid \<Rightarrow> graph_of_configs \<Rightarrow> bool" where
  "terminal_added t R g s v x g' \<longleftrightarrow> v \<notin> verts g \<and> q_gcc s = Some v
     \<and> (\<exists>M. M \<subseteq> dom R \<and>
         ((q_visible_gcc s = None \<and> x = v \<and> verts g' = insert v (verts g) \<and> targets g' = linked t v M ((targets g)(v := {})))
         \<or> (q_visible_gcc s = Some x \<and> x \<notin> insert v (verts g) \<and> verts g' = insert x (insert v (verts g))
            \<and> targets g' = linked t x M (linked t v {x} ((targets g)(v := {}, x := {}))))))"

lemma AddTerminal_effect:
  assumes D: "drake_ok D" and inv: "gc_inv (gp_graph p)" and R: "dom (gp_regions p) \<subseteq> verts (gp_graph p)"
    and len: "length q = gc_dim (gp_graph p)"
      "\<And>r vq. inspect q = Inr r \<Longrightarrow> visible_point r = Some vq \<Longrightarrow> length vq = gc_dim (gp_graph p)"
    and add: "AddTerminal D inspect q t p = (Inr s, p')" "q_gcc s = Some v"
  shows "\<exists>x. terminal_added t (gp_regions p) (gp_graph p) s v x (gp_graph p') \<and> gc_inv (gp_graph p') \<and> same_rest p p'"
proof -
  obtain r where r: "inspect q = Inr r" and run: "(if containing_regions r \<noteq> [] then DoAddConfig D (containing_regions r) q t
     else case visible_region r of
       Some k \<Rightarrow> (case visible_point r of None \<Rightarrow> throwX ''bad_optional_access''
         | Some vq \<Rightarrow> DoAddConnectingSet D q (k, vq) t)
     | None \<Rightarrow> returnX no_terminal) p = (Inr s, p')"
    using add(1) by (auto simp: AddTerminal_def bindX_Inr_iff)
  show ?thesis
  proof (cases "containing_regions r \<noteq> []")
    case True
    then have "DoAddConfig D (containing_regions r) q t p = (Inr s, p')" using run by simp
    from DoAddConfig_steps [OF this] add(2) obtain p1 p2 p3 where
      1: "only_opt p p1" "graph_vertex D q (q_name t) p1 = (Inr v, p2)" "only_opt p2 p3"
        "connect_regions D (containing_regions r) t v p3 = (Inr (), p')" "q_visible_gcc s = None"
      by auto
    have g1: "gp_graph p1 = gp_graph p" using 1(1) by (simp add: only_opt_def)
    note a = graph_vertex_ok [OF D, of p1 q, unfolded g1, OF inv len(1) 1(2)]
    have g3: "gp_graph p3 = gp_graph p2" "gp_regions p3 = gp_regions p" "gp_lazy p3 = gp_lazy p"
      using 1(1,3) a(5) by (simp_all add: only_opt_def same_rest_def)
    have v3: "v \<in> verts (gp_graph p3)" and i3: "gc_inv (gp_graph p3)" using a(2,3) g3(1) by simp_all
    from connect_regions_ok [OF D i3 v3 1(4)] obtain M where
      M: "M \<subseteq> verts (gp_graph p3) \<inter> dom (gp_regions p3)" "gc_inv (gp_graph p')" "verts (gp_graph p') = verts (gp_graph p3)"
        "targets (gp_graph p') = linked t v M (targets (gp_graph p3))" "same_rest p3 p'" by blast
    have "terminal_added t (gp_regions p) (gp_graph p) s v v (gp_graph p')"
      unfolding terminal_added_def using a(1,3,4) M(1,3,4) g3 add(2) 1(5) by (intro conjI exI [of _ M] disjI1) auto
    moreover have "same_rest p p'" using M(5) a(5) g1 g3 by (simp add: same_rest_def)
    ultimately show ?thesis using M(2) by blast
  next
    case False
    then obtain k vq where k: "visible_region r = Some k" "visible_point r = Some vq"
        "DoAddConnectingSet D q (k, vq) t p = (Inr s, p')"
      using run add(2) by (auto simp: no_terminal_def split: option.splits)
    from DoAddConnectingSet_steps [OF k(3)] add(2) obtain p1 w p2 p3 p4 where
      1: "graph_vertex D q (q_name t) p = (Inr v, p1)" "graph_vertex D vq ''point_visible'' p1 = (Inr w, p2)"
        "towards t (graph_edge D) v w p2 = (Inr (), p3)" "connect_regions D [k] t w p3 = (Inr (), p4)" "only_opt p4 p'"
        "q_visible_gcc s = Some w"
      by auto
    note a = graph_vertex_ok [OF D inv len(1) 1(1)]
    have "length vq = gc_dim (gp_graph p1)" using len(2) [OF r k(2)] a(5) by (simp add: same_rest_def)
    note b = graph_vertex_ok [OF D a(2) this 1(2)]
    have "v \<in> verts (gp_graph p2)" "w \<in> verts (gp_graph p2)" using a(3) b(3) by simp_all
    with towards_edge_ok [OF D b(2), of v w t] 1(3) have
      c: "gc_inv (gp_graph p3)" "verts (gp_graph p3) = verts (gp_graph p2)"
        "targets (gp_graph p3) = linked t v {w} (targets (gp_graph p2))" "same_rest p2 p3"
      by auto
    have w3: "w \<in> verts (gp_graph p3)" using b(3) c(2) by simp
    from connect_regions_ok [OF D c(1) w3 1(4)] obtain M where
      M: "M \<subseteq> verts (gp_graph p3) \<inter> dom (gp_regions p3)" "gc_inv (gp_graph p4)" "verts (gp_graph p4) = verts (gp_graph p3)"
        "targets (gp_graph p4) = linked t w M (targets (gp_graph p3))" "same_rest p3 p4" by blast
    have g': "gp_graph p' = gp_graph p4" using 1(5) by (simp add: only_opt_def)
    have R3: "gp_regions p3 = gp_regions p" using a(5) b(5) c(4) by (simp add: same_rest_def)
    have T: "targets (gp_graph p') = linked t w M (linked t v {w} ((targets (gp_graph p))(v := {}, w := {})))"
      unfolding g' M(4) c(3) b(4) a(4) by simp
    have "terminal_added t (gp_regions p) (gp_graph p) s v w (gp_graph p')"
      unfolding terminal_added_def
    proof (intro conjI exI [of _ M] disjI2)
      show "M \<subseteq> dom (gp_regions p)" using M(1) R3 by auto
      show "w \<notin> insert v (verts (gp_graph p))" using b(1) a(3) by simp
      show "verts (gp_graph p') = insert w (insert v (verts (gp_graph p)))" using g' M(3) c(2) b(3) a(3) by simp
    qed (fact a(1) add(2) 1(6) T)+
    moreover have "same_rest p p'" using a(5) b(5) c(4) M(5) 1(5) by (simp add: same_rest_def only_opt_def)
    ultimately show ?thesis using M(2) g' by auto
  qed
qed

definition terminal_verts :: "terminal_node \<Rightarrow> vid set" where
  "terminal_verts s = set_option (q_gcc s) \<union> set_option (q_visible_gcc s)"

lemma remove_gcc_ok:
  assumes "drake_ok D" "gc_inv (gp_graph p)" "p' = remove_gcc D w p"
  shows "gc_inv (gp_graph p')" "verts (gp_graph p') = verts (gp_graph p) - set_option w"
    "\<And>u. u \<in> verts (gp_graph p') \<Longrightarrow> targets (gp_graph p') u = targets (gp_graph p) u - set_option w" "same_rest p p'"
proof -
  have "gc_inv (gp_graph p') \<and> verts (gp_graph p') = verts (gp_graph p) - set_option w
      \<and> (\<forall>u \<in> verts (gp_graph p'). targets (gp_graph p') u = targets (gp_graph p) u - set_option w) \<and> same_rest p p'"
  proof (cases w)
    case None
    then show ?thesis using assms(2,3) by (simp add: remove_gcc_def same_rest_def)
  next
    case (Some x)
    define g where "g = gp_graph p"
    define b where "b = dr_remove_vertex D x (base g)"
    have p': "gp_graph p' = g\<lparr> base := b \<rparr>" "same_rest p p'"
      using Some assms(3) by (simp_all add: remove_gcc_def g_def b_def same_rest_def)
    have law: "set (Vertices b) = verts g - {x}"
        "\<And>u. u \<in> verts g - {x} \<Longrightarrow> point_of b u = point_of (base g) u"
        "\<And>u. u \<in> verts g - {x} \<Longrightarrow> outgoing b u = filter (\<lambda>(e, y). y \<noteq> x) (outgoing (base g) u)"
      using assms(1) unfolding drake_ok_def removes_vertex_def b_def by blast+
    have inv: "gc_inv g" using assms(2) by (simp add: g_def)
    let ?g = "g\<lparr> base := b \<rparr>"
    have d: "vdist ?g u v = vdist g u v" if "u \<in> verts g - {x}" "v \<in> verts g - {x}" for u v
      using law(2) that by (simp add: vdist_def point_at_def)
    have "v \<in> set (Vertices b) \<and> edge_cost g e = Some (vdist ?g u v)"
      if "u \<in> set (Vertices b)" "(e, v) \<in> set (outgoing b u)" for u e v
    proof -
      have u: "u \<in> verts g - {x}" using that(1) law(1) by simp
      then have "(e, v) \<in> set (outgoing (base g) u)" "v \<noteq> x" using that(2) law(3) by auto
      with gc_inv_edge [OF inv _ this(1)] u d law(1) show ?thesis by auto
    qed
    moreover have "\<exists>q. point_of b u = Some q \<and> length q = gc_dim g" if "u \<in> set (Vertices b)" for u
      using that inv law(1,2) by (auto simp: gc_inv_def)
    ultimately have "gc_inv ?g" using inv by (auto simp: gc_inv_def)
    moreover have "targets ?g u = targets g u - {x}" if "u \<in> set (Vertices b)" for u
    proof -
      have "u \<in> verts g - {x}" using that law(1) by simp
      then show ?thesis using law(3) by (force simp: targets_def)
    qed
    ultimately show ?thesis using p' law(1) Some by (simp add: g_def [symmetric])
  qed
  then show "gc_inv (gp_graph p')" "verts (gp_graph p') = verts (gp_graph p) - set_option w"
    "\<And>u. u \<in> verts (gp_graph p') \<Longrightarrow> targets (gp_graph p') u = targets (gp_graph p) u - set_option w" "same_rest p p'"
    by blast+
qed

lemma RemoveTerminalNode_ok:
  assumes "drake_ok D" "gc_inv (gp_graph p)" "p' = RemoveTerminalNode D s p"
  shows "gc_inv (gp_graph p')" "verts (gp_graph p') = verts (gp_graph p) - terminal_verts s"
    "\<And>u. u \<in> verts (gp_graph p') \<Longrightarrow> targets (gp_graph p') u = targets (gp_graph p) u - terminal_verts s" "same_rest p p'"
proof -
  define p0 where "p0 = remove_subgraph D (visible_subgraph s) (remove_subgraph D (q_subgraph s) p)"
  have p0: "gp_graph p0 = gp_graph p" "same_rest p p0"
    by (auto simp: p0_def remove_subgraph_def same_rest_def split: option.split)
  have i0: "gc_inv (gp_graph p0)" using assms(2) p0(1) by simp
  note a = remove_gcc_ok [where w = "q_gcc s", OF assms(1) i0 refl, unfolded p0(1)]
  have p': "p' = remove_gcc D (q_visible_gcc s) (remove_gcc D (q_gcc s) p0)"
    by (simp add: assms(3) RemoveTerminalNode_def p0_def)
  note b = remove_gcc_ok [OF assms(1) a(1) p']
  show "gc_inv (gp_graph p')" by (rule b(1))
  show "verts (gp_graph p') = verts (gp_graph p) - terminal_verts s"
    using a(2) b(2) by (auto simp: terminal_verts_def)
  show "targets (gp_graph p') u = targets (gp_graph p) u - terminal_verts s" if "u \<in> verts (gp_graph p')" for u
  proof -
    have "u \<in> verts (gp_graph (remove_gcc D (q_gcc s) p0))" using that b(2) by simp
    then show ?thesis using a(3) b(3) [OF that] by (auto simp: terminal_verts_def)
  qed
  show "same_rest p p'" using a(4) b(4) p0(2) by (simp add: same_rest_def)
qed

section \<open>Between the queries\<close>

definition planner_ok :: "'t gcs_planner \<Rightarrow> bool" where
  "planner_ok p \<longleftrightarrow> gc_inv (gp_graph p) \<and> verts (gp_graph p) = dom (gp_regions p)
     \<and> (\<forall>u \<in> verts (gp_graph p). (\<forall>v \<in> targets (gp_graph p) u. adjacent (gp_regions p) u v)
          \<and> (targets (gp_graph p) u = {} \<or> full (gp_regions p) (gp_graph p) u))"

lemma targets_verts: "gc_inv gc \<Longrightarrow> u \<in> verts gc \<Longrightarrow> targets gc u \<subseteq> verts gc"
  using gc_inv_edge by (force simp: targets_def)

lemma terminal_addedE:
  assumes "terminal_added t R g s v x g'"
  obtains (inside) M where "M \<subseteq> dom R" "v \<notin> verts g" "q_gcc s = Some v" "q_visible_gcc s = None" "x = v"
      "verts g' = insert v (verts g)" "targets g' = linked t v M ((targets g)(v := {}))"
    | (seen) M where "M \<subseteq> dom R" "v \<notin> verts g" "q_gcc s = Some v" "q_visible_gcc s = Some x" "x \<noteq> v" "x \<notin> verts g"
      "verts g' = insert x (insert v (verts g))"
      "targets g' = linked t x M (linked t v {x} ((targets g)(v := {}, x := {})))"
  using assms unfolding terminal_added_def by blast

lemma terminal_added_verts:
  assumes "terminal_added t R g s v x g'"
  shows "verts g' = verts g \<union> terminal_verts s" "verts g \<inter> terminal_verts s = {}" "v \<in> verts g'" "x \<in> verts g'"
    "v \<notin> verts g" "x \<notin> verts g" "terminal_verts s \<subseteq> {v, x}"
  by (rule terminal_addedE [OF assms]; simp add: terminal_verts_def)+

lemma start_added_targets:
  assumes "terminal_added kStart R g s v x g'" "u \<in> verts g"
  shows "targets g' u = targets g u"
  by (rule terminal_addedE [OF assms(1)]; use assms(2) in \<open>auto simp: linked_def\<close>)

lemma end_added_targets:
  assumes "terminal_added kEnd R g e b t g'" "dom R \<subseteq> verts g"
  shows "\<exists>M \<subseteq> dom R. \<forall>u \<in> verts g. targets g' u = (if u \<in> M then insert t (targets g u) else targets g u)"
    "targets g' b = {}" "t = b \<or> targets g' t = {b}"
proof -
  have "(\<exists>M \<subseteq> dom R. \<forall>u \<in> verts g. targets g' u = (if u \<in> M then insert t (targets g u) else targets g u))
      \<and> targets g' b = {} \<and> (t = b \<or> targets g' t = {b})"
    using assms(1)
  proof (cases rule: terminal_addedE)
    case (inside M)
    then have "b \<notin> M" using assms(2) by blast
    moreover have "targets g' u = (if u \<in> M then insert t (targets g u) else targets g u)" if "u \<in> verts g" for u
      using that inside by (auto simp: linked_def)
    ultimately show ?thesis using inside by (auto simp: linked_def)
  next
    case (seen M)
    then have n: "b \<notin> M" "t \<notin> M" using assms(2) by blast+
    have "targets g' u = (if u \<in> M then insert t (targets g u) else targets g u)" if "u \<in> verts g" for u
    proof -
      have "u \<noteq> b" "u \<noteq> t" using that seen(2,6) by auto
      then show ?thesis by (simp add: seen(8) linked_def)
    qed
    moreover have "targets g' b = {}" "targets g' t = {b}" using n seen(5) by (simp_all add: seen(8) linked_def)
    ultimately show ?thesis using seen(1) by blast
  qed
  then show "\<exists>M \<subseteq> dom R. \<forall>u \<in> verts g. targets g' u = (if u \<in> M then insert t (targets g u) else targets g u)"
    "targets g' b = {}" "t = b \<or> targets g' t = {b}" by blast+
qed

lemma terminals_ready:
  assumes D: "drake_ok D" and ok: "planner_ok p"
    and lengths: "length q1 = gc_dim (gp_graph p)" "length q2 = gc_dim (gp_graph p)"
      "\<forall>q r vq. inspect q = Inr r \<longrightarrow> visible_point r = Some vq \<longrightarrow> length vq = gc_dim (gp_graph p)"
    and add: "add_terminals D inspect q1 q2 p = (Inr (s, e), p0)" "q_gcc s = Some a" "q_gcc e = Some b"
  shows "\<exists>t. one_exit (gp_regions p) (gp_graph p0) b t \<and> lazy_ok (gp_regions p) (gp_graph p0) (gp_graph p0)
    \<and> a \<in> verts (gp_graph p0) \<and> same_rest p p0
    \<and> verts (gp_graph p0) = verts (gp_graph p) \<union> terminal_verts s \<union> terminal_verts e
    \<and> verts (gp_graph p) \<inter> (terminal_verts s \<union> terminal_verts e) = {}"
proof -
  let ?R = "gp_regions p"
  have len: "length q1 = gc_dim (gp_graph p)" "length q2 = gc_dim (gp_graph p)"
      "\<And>q r vq. inspect q = Inr r \<Longrightarrow> visible_point r = Some vq \<Longrightarrow> length vq = gc_dim (gp_graph p)"
    using lengths by blast+
  obtain p1 where p1: "AddTerminal D inspect q1 kStart p = (Inr s, p1)" "AddTerminal D inspect q2 kEnd p1 = (Inr e, p0)"
    using add(1) by (auto simp: add_terminals_def bindX_Inr_iff)
  have P: "gc_inv (gp_graph p)" "verts (gp_graph p) = dom ?R"
      "\<And>u v. u \<in> verts (gp_graph p) \<Longrightarrow> v \<in> targets (gp_graph p) u \<Longrightarrow> adjacent ?R u v"
      "\<And>u. u \<in> verts (gp_graph p) \<Longrightarrow> targets (gp_graph p) u = {} \<or> full ?R (gp_graph p) u"
    using ok unfolding planner_ok_def by blast+
  obtain x where x: "terminal_added kStart ?R (gp_graph p) s a x (gp_graph p1)" "gc_inv (gp_graph p1)" "same_rest p p1"
    using AddTerminal_effect [OF D P(1) _ len(1) _ p1(1) add(2)] P(2) len(3) by blast
  have s1: "verts (gp_graph p1) = verts (gp_graph p) \<union> terminal_verts s" "a \<in> verts (gp_graph p1)"
      "verts (gp_graph p) \<inter> terminal_verts s = {}"
      "\<And>u. u \<in> verts (gp_graph p) \<Longrightarrow> targets (gp_graph p1) u = targets (gp_graph p) u"
    using terminal_added_verts(1-3) [OF x(1)] start_added_targets [OF x(1)] by blast+
  have R1: "gp_regions p1 = ?R" "gc_dim (gp_graph p1) = gc_dim (gp_graph p)" using x(3) by (simp_all add: same_rest_def)
  obtain t where t: "terminal_added kEnd ?R (gp_graph p1) e b t (gp_graph p0)" "gc_inv (gp_graph p0)" "same_rest p1 p0"
  proof -
    have 1: "dom (gp_regions p1) \<subseteq> verts (gp_graph p1)" "length q2 = gc_dim (gp_graph p1)"
        "\<And>r vq. inspect q2 = Inr r \<Longrightarrow> visible_point r = Some vq \<Longrightarrow> length vq = gc_dim (gp_graph p1)"
      using P(2) s1(1) len(2,3) by (simp_all add: R1)
    have "\<exists>t. terminal_added kEnd (gp_regions p1) (gp_graph p1) e b t (gp_graph p0) \<and> gc_inv (gp_graph p0) \<and> same_rest p1 p0"
      by (rule AddTerminal_effect [OF D x(2) 1(1,2) _ p1(2) add(3)]) (rule 1(3))
    then show ?thesis using that unfolding R1 by blast
  qed
  have e1: "verts (gp_graph p0) = verts (gp_graph p1) \<union> terminal_verts e" "verts (gp_graph p1) \<inter> terminal_verts e = {}"
      "b \<in> verts (gp_graph p0)" "t \<in> verts (gp_graph p0)" "b \<notin> verts (gp_graph p1)" "t \<notin> verts (gp_graph p1)"
      "terminal_verts e \<subseteq> {b, t}"
    by (fact terminal_added_verts [OF t(1)])+
  have "dom ?R \<subseteq> verts (gp_graph p1)" using P(2) s1(1) by blast
  note te = end_added_targets [OF t(1) this]
  from te(1) obtain M where M': "\<forall>u \<in> verts (gp_graph p1). targets (gp_graph p0) u
        = (if u \<in> M then insert t (targets (gp_graph p1) u) else targets (gp_graph p1) u)"
    by (elim exE conjE)
  note T = bspec [OF M']
  note Tb = te(2,3)
  have Rt: "?R t = None" "?R b = None" using e1(5,6) P(2) s1(1) by (blast intro: domI)+
  have RV: "?R u \<noteq> None \<longleftrightarrow> u \<in> verts (gp_graph p)" for u using P(2) by (auto simp: domIff)
  have old: "u \<in> verts (gp_graph p) \<Longrightarrow> u \<in> verts (gp_graph p1)" for u using s1(1) by simp
  have Told: "targets (gp_graph p0) u = (if u \<in> M then insert t (targets (gp_graph p) u) else targets (gp_graph p) u)"
    if "u \<in> verts (gp_graph p)" for u
    using T [OF old [OF that]] s1(4) [OF that] by simp
  have adjR: "?R v \<noteq> None" if "adjacent ?R u v" for u v using that by (auto simp: adjacent_def)
  have Tin: "v = t \<or> adjacent ?R u v" if "u \<in> verts (gp_graph p)" "v \<in> targets (gp_graph p0) u" for u v
    using Told [OF that(1)] that(2) P(3) [OF that(1)] by (cases "u \<in> M") auto
  have V0: "verts (gp_graph p0) = verts (gp_graph p1) \<union> {b, t}" using e1(1,3,4,7) by blast
  have exit: "one_exit ?R (gp_graph p0) b t"
    unfolding one_exit_def
  proof (intro conjI ballI impI)
    fix u v assume "u \<in> verts (gp_graph p0)" "v \<in> targets (gp_graph p0) u" "?R u \<noteq> None" "?R v = None"
    then show "v = t" using RV Tin [of u v] adjR by blast
  next
    fix u assume u: "u \<in> verts (gp_graph p0)" "b \<in> targets (gp_graph p0) u"
    show "t = b \<or> u = t"
    proof (cases "u \<in> verts (gp_graph p1)")
      case True
      have "b \<notin> targets (gp_graph p1) u" using targets_verts [OF x(2) True] e1(5) by blast
      then show ?thesis using T [OF True] u(2) by (auto split: if_splits)
    next
      case False
      then show ?thesis using u V0 Tb by auto
    qed
  qed (use e1(3,4) Rt(2) Tb in auto)
  have "grows_at UNIV (gp_graph p0) (gp_graph p0)" by (rule grows_refl)
  moreover have "(?R v = None \<and> v \<in> targets (gp_graph p0) u) \<or> adjacent ?R u v"
    if "u \<in> verts (gp_graph p0)" "v \<in> targets (gp_graph p0) u" "?R u \<noteq> None" for u v
    using that RV Tin [of u v] Rt(1) by blast
  moreover have "full ?R (gp_graph p0) u \<or> (\<forall>v \<in> targets (gp_graph p0) u. ?R v = None)"
    if "u \<in> verts (gp_graph p0)" "?R u \<noteq> None" for u
  proof -
    have u: "u \<in> verts (gp_graph p)" using that(2) RV by simp
    from P(4) [OF u] show ?thesis
    proof
      assume "targets (gp_graph p) u = {}"
      then show ?thesis using Told [OF u] Rt(1) by (auto split: if_splits)
    next
      assume "full ?R (gp_graph p) u"
      then have "full ?R (gp_graph p0) u"
        using Told [OF u] adjR RV unfolding full_def by (metis insertI2)
      then show ?thesis ..
    qed
  qed
  ultimately have "lazy_ok ?R (gp_graph p0) (gp_graph p0)" using t(2) unfolding lazy_ok_def by blast
  moreover have "same_rest p p0" using x(3) t(3) by (simp add: same_rest_def)
  moreover have "a \<in> verts (gp_graph p0)" using s1(2) e1(1) by simp
  moreover have "verts (gp_graph p0) = verts (gp_graph p) \<union> terminal_verts s \<union> terminal_verts e" using s1(1) e1(1) by simp
  moreover have "verts (gp_graph p) \<inter> (terminal_verts s \<union> terminal_verts e) = {}" using s1(1,3) e1(2) by auto
  ultimately show ?thesis using exit by blast
qed

lemma terminals_restored:
  assumes D: "drake_ok D" and ok: "lazy_ok (gp_regions p) g0 (gp_graph p)"
    and V: "verts g0 = dom (gp_regions p) \<union> terminal_verts s \<union> terminal_verts e"
      "dom (gp_regions p) \<inter> (terminal_verts s \<union> terminal_verts e) = {}"
    and p': "p' = RemoveTerminalNode D e (RemoveTerminalNode D s p)"
  shows "planner_ok p' \<and> gp_regions p' = gp_regions p \<and> gp_lazy p' = gp_lazy p"
proof -
  let ?N = "terminal_verts s \<union> terminal_verts e" and ?R = "gp_regions p"
  note O = lazy_okD [OF ok]
  note a = RemoveTerminalNode_ok [where s = s, OF D O(1) refl]
  note b = RemoveTerminalNode_ok [OF D a(1) p']
  have rest: "same_rest p p'" using a(4) b(4) by (simp add: same_rest_def)
  then have R: "gp_regions p' = ?R" "gp_lazy p' = gp_lazy p" by (simp_all add: same_rest_def)
  have Vp: "verts (gp_graph p) = dom ?R \<union> ?N" using grows_verts [OF O(2)] V(1) by auto
  have V': "verts (gp_graph p') = dom ?R" using a(2) b(2) Vp V(2) by blast
  have T: "targets (gp_graph p') u = targets (gp_graph p) u - ?N" if "u \<in> dom ?R" for u
  proof -
    have u': "u \<in> verts (gp_graph p')" using that V' by simp
    then have "u \<in> verts (gp_graph (RemoveTerminalNode D s p))" using b(2) by simp
    then show ?thesis using a(3) b(3) [OF u'] by auto
  qed
  have "planner_ok p'"
    unfolding planner_ok_def R V'
  proof (intro conjI ballI)
    show "gc_inv (gp_graph p')" by (rule b(1))
    fix u assume u: "u \<in> dom ?R"
    have up: "u \<in> verts (gp_graph p)" "?R u \<noteq> None" using u Vp by auto
    show "adjacent ?R u v" if "v \<in> targets (gp_graph p') u" for v
    proof -
      have v: "v \<in> targets (gp_graph p) u" "v \<notin> ?N" using that T [OF u] by auto
      then have "v \<in> dom ?R" using targets_verts [OF O(1) up(1)] Vp by blast
      then show ?thesis using O(4) [OF up(1) v(1) up(2)] by auto
    qed
    show "targets (gp_graph p') u = {} \<or> full ?R (gp_graph p') u"
    proof (cases "full ?R (gp_graph p) u")
      case True
      have "v \<in> targets (gp_graph p') u" if v: "v \<in> verts (gp_graph p')" "adjacent ?R u v" for v
      proof -
        have "v \<in> verts (gp_graph p)" "v \<notin> ?N" using v(1) V' Vp V(2) by auto
        then show ?thesis using True v(2) T [OF u] by (auto simp: full_def)
      qed
      then show ?thesis by (simp add: full_def)
    next
      case False
      then have no: "\<forall>v \<in> targets (gp_graph p) u. ?R v = None" using O(5) [OF up] by blast
      have "v \<in> ?N" if v: "v \<in> targets (gp_graph p) u" for v
      proof -
        have "v \<notin> dom ?R" using no v by auto
        then show ?thesis using targets_verts [OF O(1) up(1)] v Vp by blast
      qed
      then show ?thesis using T [OF u] by blast
    qed
  qed (rule refl)
  then show ?thesis using R by simp
qed

lemma route_nonempty: "route R gc start p v c \<Longrightarrow> p \<noteq> []"
  by (cases rule: route.cases) auto

section \<open>Properties\<close>

text \<open>C4: Estimates are exact and leave the planner ready: on a planner that adds its edges lazily, in the state that
  construction and queries leave, when both configurations could be attached to the graph, \<open>FastEstimatePathLength\<close>
  ends.  It returns the cost of a cheapest route of the graph in which all samples that share a region are joined,
  although the search never adds most of those edges, and the planner is in such a state again.  Or there is no route:
  then it throws, and both terminals are still in the graph, which is in no such state.\<close>
theorem estimate_is_best:
  assumes "drake_ok D" "planner_ok p" "gp_lazy p" "length q1 = gc_dim (gp_graph p)" "length q2 = gc_dim (gp_graph p)"
    and "\<forall>q r vq. inspect q = Inr r \<longrightarrow> visible_point r = Some vq \<longrightarrow> length vq = gc_dim (gp_graph p)"
    and "add_terminals D inspect q1 q2 p = (Inr (s, e), p0)" "q_gcc s = Some a" "q_gcc e = Some b"
  shows "\<exists>r p'. FastEstimatePathLength D inspect q1 q2 p = Some (r, p')
    \<and> ((\<exists>c path. r = Inr (Some (Some c)) \<and> route (gp_regions p) (gp_graph p0) a path b c
           \<and> (\<forall>path' c'. route (gp_regions p) (gp_graph p0) a path' b c' \<longrightarrow> c \<le> c')
           \<and> planner_ok p' \<and> gp_regions p' = gp_regions p \<and> gp_lazy p')
      \<or> (r = Inl ''No path found'' \<and> (\<forall>path c. \<not> route (gp_regions p) (gp_graph p0) a path b c)
           \<and> a \<in> verts (gp_graph p') \<and> b \<in> verts (gp_graph p') \<and> \<not> planner_ok p'))"
proof -
  obtain t where t: "one_exit (gp_regions p) (gp_graph p0) b t" "lazy_ok (gp_regions p) (gp_graph p0) (gp_graph p0)"
      "a \<in> verts (gp_graph p0)" "same_rest p p0"
      "verts (gp_graph p0) = verts (gp_graph p) \<union> terminal_verts s \<union> terminal_verts e"
      "verts (gp_graph p) \<inter> (terminal_verts s \<union> terminal_verts e) = {}"
    using terminals_ready [OF assms(1,2,4-9)] by blast
  have R: "gp_regions p0 = gp_regions p" "gp_lazy p0" using t(4) assms(3) by (simp_all add: same_rest_def)
  have adde: "adds_edge (dr_add_edge D)" using assms(1) by (simp add: drake_ok_def)
  obtain r g1 where run: "CalcShortestPath (callback D p0) a b (gp_graph p0) = Some (r, g1)"
      and ok: "lazy_ok (gp_regions p) (gp_graph p0) g1" and best: "best_route (gp_regions p) (gp_graph p0) a b r"
    using lazy_search_best [OF adde t(2,1,3)] R by (auto simp: callback_def)
  have dom: "verts (gp_graph p) = dom (gp_regions p)" using assms(2) by (simp add: planner_ok_def)
  show ?thesis
  proof (cases "\<exists>c path. r = Inr (Some c, path)")
    case True
    then obtain c path where r: "r = Inr (Some c, path)" "route (gp_regions p) (gp_graph p0) a path b c"
        "\<forall>path' c'. route (gp_regions p) (gp_graph p0) a path' b c' \<longrightarrow> c \<le> c'"
      using best by (auto simp: best_route_def)
    let ?p1 = "p0\<lparr> gp_graph := g1 \<rparr>"
    have "FastEstimatePathLength D inspect q1 q2 p
        = Some (Inr (Some (Some c)), RemoveTerminalNode D e (RemoveTerminalNode D s ?p1))"
      by (simp add: FastEstimatePathLength_def answer_query_def assms(7-9) run r(1) route_nonempty [OF r(2)])
    moreover have "planner_ok (RemoveTerminalNode D e (RemoveTerminalNode D s ?p1))
        \<and> gp_regions (RemoveTerminalNode D e (RemoveTerminalNode D s ?p1)) = gp_regions p
        \<and> gp_lazy (RemoveTerminalNode D e (RemoveTerminalNode D s ?p1))"
      using terminals_restored [OF assms(1), of ?p1 "gp_graph p0" s e] ok t(5,6) R dom by simp
    ultimately show ?thesis using r(2,3) by blast
  next
    case False
    then have r: "r = Inl ''No path found''" "\<forall>path c. \<not> route (gp_regions p) (gp_graph p0) a path b c"
      using best unfolding best_route_def by blast+
    have "FastEstimatePathLength D inspect q1 q2 p = Some (Inl ''No path found'', p0\<lparr> gp_graph := g1 \<rparr>)"
      by (simp add: FastEstimatePathLength_def answer_query_def assms(7-9) run r(1))
    moreover have "verts g1 = verts (gp_graph p0)" by (rule grows_verts [OF lazy_okD(2) [OF ok]])
    moreover have "b \<in> verts (gp_graph p0)" using t(1) by (simp add: one_exit_def)
    moreover have "a \<notin> dom (gp_regions p)"
      using t(6) dom assms(8) by (auto simp: terminal_verts_def)
    ultimately show ?thesis using r t(3) R by (auto simp: planner_ok_def)
  qed
qed

section \<open>A planner in which a failed query breaks the next one\<close>

definition sample_remove :: "vid \<Rightarrow> gcs \<Rightarrow> gcs" where
  "sample_remove v g = g\<lparr> Vertices := filter (\<lambda>u. u \<noteq> v) (Vertices g),
     outgoing := (\<lambda>u. filter (\<lambda>(e, x). x \<noteq> v) (outgoing g u)) \<rparr>"

text \<open>A state of the trajectory optimisation that counts its edges, and a graph with three samples, one of the regions
  0 and 1, one of 2 and 3, one of 3 and 4.\<close>

definition sample_drake :: "(nat, unit) drake" where
  "sample_drake = \<lparr> dr_add_vertex = number_vertex, dr_add_edge = number_edge, dr_remove_vertex = sample_remove,
     dr_qr = id, opt_main = (\<lambda>_. 0), opt_vertices = (\<lambda>_ _. []), opt_outs = (\<lambda>_ _. []), opt_ins = (\<lambda>_ _. []),
     opt_num_edges = id, opt_add_point = (\<lambda>_ _ t. (1, t)), opt_add_set = (\<lambda>_ _ t. (2, t)),
     opt_connect = (\<lambda>_ _ t. Suc t), opt_connect_pair = (\<lambda>_ _ _ t. Suc t), opt_remove = (\<lambda>_ t. t),
     opt_solve = (\<lambda>_ _. ((), True)) \<rparr>"

definition sample_graph :: "vid list \<Rightarrow> (vid \<Rightarrow> config option) \<Rightarrow> (vid \<Rightarrow> (eid \<times> vid) list) \<Rightarrow> (eid \<Rightarrow> real option) \<Rightarrow> graph_of_configs" where
  "sample_graph vs pts out costs = \<lparr> base = \<lparr> Vertices = vs, point_of = pts, outgoing = out \<rparr>, gc_dim = 1,
     dist_func = one_joint, edge_cost = costs \<rparr>"

definition sample_regions :: region_pairs where "sample_regions = [1 \<mapsto> (0, 1), 2 \<mapsto> (2, 3), 3 \<mapsto> (3, 4)]"

definition sample_state :: "graph_of_configs \<Rightarrow> nat \<Rightarrow> nat gcs_planner" where
  "sample_state g n = \<lparr> gp_graph = g, gp_opt = n, gp_regions = sample_regions, gp_lazy = True,
     gp_set_type = kNarrowBox, gp_epsilon = 1, gp_index = [0, 1, 2, 3, 4] \<rparr>"

definition sample_planner :: "nat gcs_planner" where
  "sample_planner = sample_state (sample_graph [1, 2, 3] [1 \<mapsto> [0], 2 \<mapsto> [10], 3 \<mapsto> [20]] (\<lambda>_. []) (\<lambda>_. None)) 0"

definition sample_inspect :: "config \<Rightarrow> inspection throws" where
  "sample_inspect q = Inr \<lparr> containing_regions = (if q = [1] then [0] else if q = [9] then [2] else [4]),
     visible_region = None, visible_point = None \<rparr>"

lemma one_joint_distance: "distance one_joint [x] [y] = Inr \<bar>x - y\<bar>"
  by (simp add: distance_def one_joint_def norm_of_def l1_norm_def weighted_diff_def)

lemmas sample_run = sample_state_def sample_regions_def sample_graph_def sample_drake_def sample_inspect_def one_joint_distance
  AddVertex_def AddEdge_def number_vertex_def number_edge_def bindX_def Let_def towards_def

abbreviation at_vertex :: "vid \<Rightarrow> terminal_node" where
  "at_vertex v \<equiv> \<lparr> q_subgraph = Some 1, visible_subgraph = None, visible_set = None, q_gcc = Some v, q_visible_gcc = None,
     tn_visible_region = None \<rparr>"

definition graph_after_first :: graph_of_configs where
  "graph_after_first = sample_graph [1, 2, 3, 4, 5] [1 \<mapsto> [0], 2 \<mapsto> [10], 3 \<mapsto> [20], 4 \<mapsto> [1], 5 \<mapsto> [9]]
     ((\<lambda>_. [])(4 := [(1, 1)], 5 := [], 2 := [(2, 5)])) [1 \<mapsto> 1, 2 \<mapsto> 1]"

lemmas sample_terminals = add_terminals_def AddTerminal_def DoAddConfig_def connect_regions_def graph_vertex_def graph_edge_def
  on_opt_def add_graph_edge_def sample_run

lemma first_terminals:
  "add_terminals sample_drake sample_inspect [1] [9] sample_planner
    = (Inr (at_vertex 4, at_vertex 5), sample_state graph_after_first 2)"
  by (simp add: sample_planner_def graph_after_first_def sample_terminals) (simp add: numeral_2_eq_2)

lemmas sample_search = CalcShortestPath_def astar_loop.simps call_add_edges_def pick_def pick_step_def relax_def
  score_at_def less_score_def plus_score_def GetEdgeCost_def add_edges_func_def has_incoming_def share_region_def sample_run

lemma first_search:
  "CalcShortestPath (Some (add_edges_func number_edge sample_regions)) 4 5 graph_after_first
    = Some (Inl ''No path found'', graph_after_first)"
  by (simp add: graph_after_first_def sample_search)

definition graph_after_second :: graph_of_configs where
  "graph_after_second = sample_graph [1, 2, 3, 4, 5, 6, 7]
     [1 \<mapsto> [0], 2 \<mapsto> [10], 3 \<mapsto> [20], 4 \<mapsto> [1], 5 \<mapsto> [9], 6 \<mapsto> [9], 7 \<mapsto> [21]]
     ((\<lambda>_. [])(4 := [(1, 1)], 5 := [], 2 := [(2, 5)], 6 := [(3, 2)], 7 := [], 3 := [(4, 7)])) [1 \<mapsto> 1, 2 \<mapsto> 1, 3 \<mapsto> 1, 4 \<mapsto> 1]"

lemma second_terminals:
  "add_terminals sample_drake sample_inspect [9] [21] (sample_state graph_after_first 2)
    = (Inr (at_vertex 6, at_vertex 7), sample_state graph_after_second 4)"
  by (simp add: graph_after_first_def graph_after_second_def sample_terminals) (simp add: numeral_eq_Suc)

lemma second_search:
  "CalcShortestPath (Some (add_edges_func number_edge sample_regions)) 6 7 graph_after_second
    = Some (Inl ''No path found'', graph_after_second)"
  by (simp add: graph_after_second_def sample_search)

definition fresh_graph :: graph_of_configs where
  "fresh_graph = sample_graph [1, 2, 3, 4, 5] [1 \<mapsto> [0], 2 \<mapsto> [10], 3 \<mapsto> [20], 4 \<mapsto> [9], 5 \<mapsto> [21]]
     ((\<lambda>_. [])(4 := [(1, 2)], 5 := [], 3 := [(2, 5)])) [1 \<mapsto> 1, 2 \<mapsto> 1]"

lemma fresh_terminals:
  "add_terminals sample_drake sample_inspect [9] [21] sample_planner
    = (Inr (at_vertex 4, at_vertex 5), sample_state fresh_graph 2)"
  by (simp add: fresh_graph_def sample_planner_def sample_terminals) (simp add: numeral_eq_Suc)

lemma sample_ok: "drake_ok sample_drake" "planner_ok sample_planner" "gp_lazy sample_planner"
    "gc_dim (gp_graph sample_planner) = 1"
proof -
  have "removes_vertex sample_remove" by (auto simp: removes_vertex_def sample_remove_def)
  then show "drake_ok sample_drake" using number_laws by (simp add: drake_ok_def sample_drake_def)
  show "planner_ok sample_planner" "gp_lazy sample_planner" "gc_dim (gp_graph sample_planner) = 1"
    by (auto simp: planner_ok_def sample_planner_def sample_state_def sample_regions_def sample_graph_def targets_def gc_inv_def one_joint_def df_ok_def)
qed

lemma sample_route:
  "route (gp_regions sample_planner) fresh_graph 4 ((([4] @ [2]) @ [3]) @ [5]) 5
     (((0 + vdist fresh_graph 4 2) + vdist fresh_graph 2 3) + vdist fresh_graph 3 5)"
proof -
  have "adjacent (gp_regions sample_planner) 2 3"
    by (simp add: adjacent_def sample_planner_def sample_state_def sample_regions_def share_region_def)
  then show ?thesis
    by (intro route.step route.here) (simp_all add: fresh_graph_def sample_graph_def targets_def)
qed

text \<open>A query that finds no path breaks later queries: there is a planner in the state construction leaves on which
  an estimate between two regions that are not connected throws; afterwards an estimate that the fresh planner
  answers throws as well.  The terminal left behind gives the samples of its region an outgoing edge, so the search
  takes them for vertices whose edges were added.\<close>
theorem failed_query_breaks_next:
  "\<exists>(D :: (nat, unit) drake) inspect p p1 q1 q2 q3 c. drake_ok D \<and> planner_ok p \<and> gp_lazy p
     \<and> FastEstimatePathLength D inspect q1 q2 p = Some (Inl ''No path found'', p1)
     \<and> fst (the (FastEstimatePathLength D inspect q2 q3 p)) = Inr (Some (Some c))
     \<and> fst (the (FastEstimatePathLength D inspect q2 q3 p1)) = Inl ''No path found''"
proof -
  have cb: "callback sample_drake (sample_state g n)
      = Some (add_edges_func number_edge sample_regions)" for g n
    by (simp add: callback_def sample_state_def sample_drake_def)
  have st: "(sample_state g n)\<lparr> gp_graph := g' \<rparr> = sample_state g' n" "gp_graph (sample_state g n) = g" for g g' n
    by (simp_all add: sample_state_def)
  have 1: "FastEstimatePathLength sample_drake sample_inspect [1] [9] sample_planner
      = Some (Inl ''No path found'', sample_state graph_after_first 2)"
    by (simp add: FastEstimatePathLength_def answer_query_def first_terminals cb st first_search)
  have 2: "fst (the (FastEstimatePathLength sample_drake sample_inspect [9] [21] (sample_state graph_after_first 2)))
      = Inl ''No path found''"
    by (simp add: FastEstimatePathLength_def answer_query_def second_terminals cb st second_search)
  have "\<forall>q r vq. sample_inspect q = Inr r \<longrightarrow> visible_point r = Some vq \<longrightarrow> length vq = gc_dim (gp_graph sample_planner)"
    by (simp add: sample_inspect_def)
  note ready = terminals_ready [OF sample_ok(1,2) _ _ this fresh_terminals]
  obtain t where t: "one_exit (gp_regions sample_planner) fresh_graph 5 t"
      "lazy_ok (gp_regions sample_planner) fresh_graph fresh_graph" "4 \<in> verts fresh_graph"
    using ready [of 4 5] sample_ok(4) unfolding st by (simp only: terminal_node.select_convs) force
  have "adds_edge number_edge" by (rule number_laws)
  from lazy_search_best [OF this t(2,1,3)] obtain c path g1 where
    "CalcShortestPath (Some (add_edges_func number_edge (gp_regions sample_planner))) 4 5 fresh_graph = Some (Inr (Some c, path), g1)"
    "route (gp_regions sample_planner) fresh_graph 4 path 5 c"
    using sample_route unfolding best_route_def by blast
  moreover have "gp_regions sample_planner = sample_regions"
    by (simp add: sample_planner_def sample_state_def)
  ultimately have "fst (the (FastEstimatePathLength sample_drake sample_inspect [9] [21] sample_planner)) = Inr (Some (Some c))"
    using route_nonempty by (simp add: FastEstimatePathLength_def answer_query_def fresh_terminals cb st)
  with 1 2 sample_ok show ?thesis by blast
qed

theorem estimate_is_best_witness:
  "\<exists>c p'. FastEstimatePathLength sample_drake sample_inspect [9] [21] sample_planner = Some (Inr (Some (Some c)), p') \<and> planner_ok p'"
proof -
  have len: "\<forall>q r vq. sample_inspect q = Inr r \<longrightarrow> visible_point r = Some vq \<longrightarrow> length vq = gc_dim (gp_graph sample_planner)"
    by (simp add: sample_inspect_def)
  have g: "gp_graph (sample_state fresh_graph 2) = fresh_graph" by (simp add: sample_state_def)
  from estimate_is_best [OF sample_ok(1-3) _ _ len fresh_terminals, where a = 4 and b = 5] sample_ok(4) sample_route
  show ?thesis unfolding g by (simp only: terminal_node.select_convs) fastforce
qed

end
