(* ===== verification/Iris_Inspector.thy ===== *)
theory Iris_Inspector
  imports Gcs_Planner
begin

text \<open>
  \<open>motion/iris/iris_inspector.h\<close>, \<open>.cc\<close>: where configurations lie with respect to the convex regions of a
  robot.  The record \<open>inspector_env\<close> holds what the inspector calls: the solver of the closest point problem
  (with the bounds on continuous joints), the constraint checks of the robot, its continuous joints.
  A region is its polyhedron with its index and bounding box.  The mutable part of the inspector, the state of a
  coverage evaluation, is the record \<open>coverage\<close>.
\<close>

record hpoly =
  hp_A :: "real list list"
  hp_b :: "real list"

record iris_region =
  ir_set :: hpoly
  ir_index :: nat
  ir_aabb :: "aabb option"

record inspector_env =
  closest_point :: "hpoly \<Rightarrow> config \<Rightarrow> config option"
  check_satisfied :: "config \<Rightarrow> bool"
  check_edge :: "config \<Rightarrow> config \<Rightarrow> bool"
  turning_joints :: "nat list"

definition PointInSet :: "hpoly \<Rightarrow> config \<Rightarrow> bool" where
  "PointInSet P q = list_all (\<lambda>(r, b). dot r q \<le> b) (zip (hp_A P) (hp_b P))"

section \<open>One region\<close>

record against_region =
  ar_inside :: bool
  ar_satisfied :: "bool option"
  ar_visible :: "config option"

definition EvalConfigAgainstRegion :: "inspector_env \<Rightarrow> config \<Rightarrow> hpoly \<Rightarrow> bool \<Rightarrow> bool \<Rightarrow> against_region" where
  "EvalConfigAgainstRegion E q P satisfied visibility =
     \<lparr> ar_inside = PointInSet P q,
       ar_satisfied = (if satisfied then Some (check_satisfied E q) else None),
       ar_visible = (if PointInSet P q \<or> \<not> visibility then None
                     else case closest_point E P q of
                       None \<Rightarrow> None
                     | Some q_c \<Rightarrow> if check_edge E q q_c then Some q_c else None) \<rparr>"

definition CalcDistanceUpperBoundToRegion :: "config \<Rightarrow> hpoly \<Rightarrow> real" where
  "CalcDistanceUpperBoundToRegion q P = fold (\<lambda>(r, b) d. if 0 < dot r q - b then max d ((dot r q - b) / l2_norm r) else d)
     (zip (hp_A P) (hp_b P)) 0"

record against_iris_region =
  ai_inside :: bool
  ai_satisfied :: "bool option"
  ai_connecting :: "(config \<times> config) option"
  ai_distance :: "real option"

text \<open>The loop over the wrapped configurations, at most one of which may be inside.  The second vertex of
  the connecting set is moved back by the offset of the wrapping.\<close>

definition unwrap :: "config \<Rightarrow> config \<Rightarrow> config \<Rightarrow> config" where
  "unwrap q q_wrapped v = map2 (-) v (map2 (-) q_wrapped q)"

fun wrapped_loop ::
  "inspector_env \<Rightarrow> config \<Rightarrow> hpoly \<Rightarrow> bool \<Rightarrow> nat \<Rightarrow> config list \<Rightarrow> against_iris_region \<Rightarrow> against_iris_region throws" where
  "wrapped_loop E q P visibility n [] r = Inr r"
| "wrapped_loop E q P visibility n (w # ws) r =
     (let e = EvalConfigAgainstRegion E w P False visibility in
      if ar_inside e then (if n = 1 then Inr (r\<lparr> ai_inside := True \<rparr>) else Inl ''DRAKE_DEMAND'')
      else case ar_visible e of
        Some v \<Rightarrow> Inr (r\<lparr> ai_connecting := Some (q, unwrap q w v) \<rparr>)
      | None \<Rightarrow>
          if visibility then wrapped_loop E q P visibility n ws r
          else if ai_distance r \<noteq> None then Inl ''DRAKE_DEMAND''
          else wrapped_loop E q P visibility n ws (r\<lparr> ai_distance := Some (CalcDistanceUpperBoundToRegion w P) \<rparr>))"

definition EvalConfigAgainstIrisRegion ::
  "inspector_env \<Rightarrow> config \<Rightarrow> iris_region \<Rightarrow> bool \<Rightarrow> bool \<Rightarrow> against_iris_region throws" where
  "EvalConfigAgainstIrisRegion E q R satisfied visibility =
     (let r = \<lparr> ai_inside = False, ai_satisfied = (if satisfied then Some (check_satisfied E q) else None),
                ai_connecting = None, ai_distance = None \<rparr>
      in case ir_aabb R of
        None \<Rightarrow> Inl ''aabb is not available. Consider migrating.''
      | Some box \<Rightarrow> bindE (CalcWrapMultiplesPerJoint q box (turning_joints E) (\<not> visibility)) (\<lambda>wraps.
          if \<not> visibility \<and> wraps = [] \<and> turning_joints E \<noteq> []
          then Inr (r\<lparr> ai_distance := Some (CalcDistanceUpperBoundToRegion q (ir_set R)) \<rparr>)
          else bindE (CartesianProductOfWrapMultiples wraps) (\<lambda>combinations.
            bindE (CalcSortedWrappedConfigs q box combinations) (\<lambda>configs.
              wrapped_loop E q (ir_set R) visibility (length configs) configs r))))"

definition IsEdgeInsideRegion :: "inspector_env \<Rightarrow> config \<times> config \<Rightarrow> iris_region \<Rightarrow> bool throws" where
  "IsEdgeInsideRegion E edge R = bindE (EvalConfigAgainstIrisRegion E (fst edge) R False False) (\<lambda>r1.
     if \<not> ai_inside r1 then Inr False
     else bindE (EvalConfigAgainstIrisRegion E (snd edge) R False False) (\<lambda>r2. Inr (ai_inside r2)))"

fun IsEdgeCoveredByAnyIrisRegion :: "inspector_env \<Rightarrow> config \<times> config \<Rightarrow> iris_region list \<Rightarrow> bool throws" where
  "IsEdgeCoveredByAnyIrisRegion E edge [] = Inr False"
| "IsEdgeCoveredByAnyIrisRegion E edge (R # Rs) = bindE (IsEdgeInsideRegion E edge R) (\<lambda>b.
     if b then Inr True else IsEdgeCoveredByAnyIrisRegion E edge Rs)"

section \<open>All regions\<close>

definition classify_region ::
  "inspector_env \<Rightarrow> config \<Rightarrow> iris_region \<Rightarrow> nat list \<times> real list \<Rightarrow> (nat list \<times> real list) throws" where
  "classify_region E q R acc = bindE (EvalConfigAgainstIrisRegion E q R False False) (\<lambda>r.
     if ai_inside r then Inr (fst acc @ [ir_index R], snd acc)
     else case ai_distance r of None \<Rightarrow> Inl ''DRAKE_DEMAND'' | Some d \<Rightarrow> Inr (fst acc, snd acc @ [d]))"

fun first_visible :: "inspector_env \<Rightarrow> config \<Rightarrow> iris_region list \<Rightarrow> inspection throws" where
  "first_visible E q [] = Inr \<lparr> containing_regions = [], visible_region = None, visible_point = None \<rparr>"
| "first_visible E q (R # Rs) = bindE (EvalConfigAgainstIrisRegion E q R False True) (\<lambda>r.
     case ai_connecting r of
       Some (_, v) \<Rightarrow> Inr \<lparr> containing_regions = [], visible_region = Some (ir_index R), visible_point = Some v \<rparr>
     | None \<Rightarrow> first_visible E q Rs)"

text \<open>Regions at equal distance are tried in their order; \<open>std::sort\<close> leaves it open.\<close>

definition EvalConfigAgainstIrisRegions :: "inspector_env \<Rightarrow> iris_region list \<Rightarrow> config \<Rightarrow> inspection throws" where
  "EvalConfigAgainstIrisRegions E Rs q = bindE (foldE (classify_region E q) Rs ([], [])) (\<lambda>(containing, distances).
     if containing \<noteq> []
     then Inr \<lparr> containing_regions = containing, visible_region = None, visible_point = None \<rparr>
     else first_visible E q (map (\<lambda>i. Rs ! i) (sort_key (\<lambda>i. distances ! i) [0..<length distances])))"

definition InsideAnyRegion :: "iris_region list \<Rightarrow> config \<Rightarrow> bool" where
  "InsideAnyRegion Rs q = list_ex (\<lambda>R. PointInSet (ir_set R) q) Rs"

text \<open>The sampled points of an edge: multiples of the step from the first end.  Binary rounding of the steps is
  idealised, the loop ends for a positive step only.\<close>

definition edge_point :: "config \<Rightarrow> config \<Rightarrow> real \<Rightarrow> config" where
  "edge_point q1 q2 u = map2 (\<lambda>x y. x + u * (y - x)) q1 q2"

function edge_loop :: "iris_region list \<Rightarrow> config \<times> config \<Rightarrow> real \<Rightarrow> real \<Rightarrow> real \<Rightarrow> bool" where
  "edge_loop Rs edge d h step = (if 0 < h \<and> step \<le> d
     then (if InsideAnyRegion Rs (edge_point (fst edge) (snd edge) (step / d)) then edge_loop Rs edge d h (step + h) else False)
     else True)"
  by pat_completeness auto

termination edge_loop
proof (relation "measure (\<lambda>(Rs, edge, d, h, step). nat (\<lfloor>(d - step) / h\<rfloor> + 1))", goal_cases)
  case (2 Rs edge d h step)
  have "0 \<le> \<lfloor>(d - step) / h\<rfloor>" using 2 by simp
  moreover have "(d - (step + h)) / h = (d - step) / h - 1" using 2 by (simp add: field_simps)
  ultimately show ?case by simp
qed simp

declare edge_loop.simps [simp del]

definition IsEdgeCoveredByRegions :: "real \<Rightarrow> iris_region list \<Rightarrow> config \<times> config \<Rightarrow> bool" where
  "IsEdgeCoveredByRegions h Rs edge = (let d = l2_norm (map2 (-) (snd edge) (fst edge)) in
     if d < h then InsideAnyRegion Rs (fst edge) \<and> InsideAnyRegion Rs (snd edge)
     else edge_loop Rs edge d h 0)"

definition GetRegionsContainingConfig :: "iris_region list \<Rightarrow> config \<Rightarrow> nat list" where
  "GetRegionsContainingConfig Rs q = map ir_index (filter (\<lambda>R. PointInSet (ir_set R) q) Rs)"

definition MaybeCalcEdgeToRegions :: "inspector_env \<Rightarrow> iris_region list \<Rightarrow> config \<Rightarrow> (nat \<times> config) option throws" where
  "MaybeCalcEdgeToRegions E Rs q = bindE (EvalConfigAgainstIrisRegions E Rs q) (\<lambda>r.
     case containing_regions r of
       i # _ \<Rightarrow> Inr (Some (i, q))
     | [] \<Rightarrow> (case visible_region r of
           None \<Rightarrow> Inr None
         | Some i \<Rightarrow> (case visible_point r of None \<Rightarrow> Inl ''bad_optional_access'' | Some v \<Rightarrow> Inr (Some (i, v)))))"

text \<open>The closest valid configuration: the quadratic program, with the weights of the fixed instances, is an argument;
  \<open>fix_parts\<close> puts the fixed instances of \<open>q\<close> back into its solution.\<close>

definition CalcClosestValidConfToRegion ::
  "inspector_env \<Rightarrow> bool \<Rightarrow> (config \<Rightarrow> iris_region \<Rightarrow> (config \<times> real) option) \<Rightarrow> (config \<Rightarrow> config \<Rightarrow> config)
   \<Rightarrow> config \<Rightarrow> iris_region \<Rightarrow> (config \<times> real) option throws" where
  "CalcClosestValidConfToRegion E identity_mapping program fix_parts q R =
     (if turning_joints E \<noteq> [] then Inl ''not implemented for models with continuous revolute joints''
      else if \<not> identity_mapping then Inl ''not implemented yet for models with mimic joints''
      else case program q R of
        None \<Rightarrow> Inr None
      | Some (q_sol, cost) \<Rightarrow>
          if check_satisfied E (fix_parts q q_sol) then Inr (Some (fix_parts q q_sol, cost)) else Inr None)"

definition max_error :: "config \<Rightarrow> iris_region \<Rightarrow> real" where
  "max_error q R = Max (set (map (\<lambda>(r, b). dot r q - b) (zip (hp_A (ir_set R)) (hp_b (ir_set R)))))"

definition keep_closer :: "(config \<times> real) option \<Rightarrow> (config \<times> real) option \<Rightarrow> (config \<times> real) option" where
  "keep_closer r best = (case r of None \<Rightarrow> best
     | Some (q, d) \<Rightarrow> (case best of None \<Rightarrow> Some (q, d) | Some (_, d') \<Rightarrow> if d < d' then Some (q, d) else best))"

definition CalcClosestValidConfToRegions ::
  "inspector_env \<Rightarrow> bool \<Rightarrow> (config \<Rightarrow> iris_region \<Rightarrow> (config \<times> real) option) \<Rightarrow> (config \<Rightarrow> config \<Rightarrow> config)
   \<Rightarrow> config \<Rightarrow> iris_region list \<Rightarrow> config option throws" where
  "CalcClosestValidConfToRegions E identity_mapping program fix_parts q Rs =
     bindE (foldE (\<lambda>R best. bindE (CalcClosestValidConfToRegion E identity_mapping program fix_parts q R)
                    (\<lambda>r. Inr (keep_closer r best)))
       (sort_key (max_error q) Rs) None) (\<lambda>best. Inr (map_option fst best))"

text \<open>The centre of a region, its sampler with the state of the generator, and the check of many configurations are
  Drake's: arguments.\<close>

fun chain_samples :: "('g \<Rightarrow> config \<Rightarrow> config \<times> 'g) \<Rightarrow> nat \<Rightarrow> 'g \<Rightarrow> config \<Rightarrow> config list" where
  "chain_samples sample 0 gen q = []"
| "chain_samples sample (Suc n) gen q = q # (case sample gen q of (q', gen') \<Rightarrow> chain_samples sample n gen' q')"

definition IsValidViaSampling ::
  "('g \<Rightarrow> config \<Rightarrow> config \<times> 'g) \<Rightarrow> 'g \<Rightarrow> config \<Rightarrow> (config list \<Rightarrow> bool) \<Rightarrow> nat \<Rightarrow> bool" where
  "IsValidViaSampling sample gen0 centre check_all n = check_all (chain_samples sample n gen0 centre)"

section \<open>Coverage\<close>

datatype coverage_type = kCoveredByVolume | kCoveredByVisibility | kUncovered | kViolatesConstraints

record coverage =
  config_points :: "config list"
  result_types :: "coverage_type list"
  evaluated_regions :: "nat list"

definition IrisInspector :: coverage where
  "IrisInspector = \<lparr> config_points = [], result_types = [], evaluated_regions = [] \<rparr>"

text \<open>\<open>std::vector::resize\<close> keeps the first elements.\<close>

definition resize :: "nat \<Rightarrow> 'x \<Rightarrow> 'x list \<Rightarrow> 'x list" where
  "resize n x xs = take n xs @ replicate (n - length xs) x"

definition SetPointsForIrisCoverageEvaluation :: "config list \<Rightarrow> coverage \<Rightarrow> coverage" where
  "SetPointsForIrisCoverageEvaluation points c =
     c\<lparr> config_points := points, result_types := resize (length points) kUncovered (result_types c), evaluated_regions := [] \<rparr>"

definition update_type :: "coverage_type \<Rightarrow> against_iris_region \<Rightarrow> coverage_type throws" where
  "update_type t r = (case ai_satisfied r of
     None \<Rightarrow> Inl ''DRAKE_DEMAND''
   | Some ok \<Rightarrow> Inr (if ai_inside r then kCoveredByVolume
                     else if ai_connecting r \<noteq> None then kCoveredByVisibility
                     else if \<not> ok then kViolatesConstraints else t))"

definition evaluate_point :: "inspector_env \<Rightarrow> iris_region \<Rightarrow> config \<times> coverage_type \<Rightarrow> coverage_type throws" where
  "evaluate_point E R = (\<lambda>(q, t).
     if t = kCoveredByVolume \<or> t = kViolatesConstraints then Inr t
     else bindE (EvalConfigAgainstIrisRegion E q R True (t \<noteq> kCoveredByVisibility)) (update_type t))"

text \<open>The points of one region are updated one after the other; an exception leaves the earlier ones updated.\<close>

fun evaluate_points :: "inspector_env \<Rightarrow> iris_region \<Rightarrow> config list \<Rightarrow> (coverage_type list, unit) action" where
  "evaluate_points E R [] ts = (Inr (), ts)"
| "evaluate_points E R (q # qs) ts = (case ts of
     [] \<Rightarrow> (Inl ''out_of_range'', [])
   | t # ts' \<Rightarrow> (case evaluate_point E R (q, t) of
         Inl x \<Rightarrow> (Inl x, t # ts')
       | Inr t' \<Rightarrow> (case evaluate_points E R qs ts' of (x, ts'') \<Rightarrow> (x, t' # ts''))))"

definition evaluate_region :: "inspector_env \<Rightarrow> iris_region \<Rightarrow> (coverage, unit) action" where
  "evaluate_region E R c = (if ir_index R \<in> set (evaluated_regions c) then (Inr (), c)
     else case evaluate_points E R (config_points c) (result_types c) of
       (Inl x, ts) \<Rightarrow> (Inl x, c\<lparr> result_types := ts \<rparr>)
     | (Inr _, ts) \<Rightarrow> (Inr (), c\<lparr> result_types := ts, evaluated_regions := evaluated_regions c @ [ir_index R] \<rparr>))"

record coverage_result =
  volume_covered :: nat
  visibility_covered :: nat
  uncovered :: nat
  violates_constraints :: nat

definition count_types :: "coverage_type list \<Rightarrow> coverage_result" where
  "count_types ts = \<lparr> volume_covered = count_list ts kCoveredByVolume, visibility_covered = count_list ts kCoveredByVisibility,
     uncovered = count_list ts kUncovered, violates_constraints = count_list ts kViolatesConstraints \<rparr>"

definition EvaluateCoverage :: "inspector_env \<Rightarrow> iris_region list \<Rightarrow> (coverage, coverage_result) action" where
  "EvaluateCoverage E Rs c = (if config_points c = [] then (Inr (count_types []), c)
     else bindX (forX Rs (evaluate_region E)) (\<lambda>_ c'. (Inr (count_types (result_types c')), c')) c)"


section \<open>A configuration against one region\<close>

text \<open>A region is usable for a configuration when it has its bounding box, of the right dimension and narrower
  than \<open>pi\<close> in the continuous joints.\<close>

definition region_ok :: "inspector_env \<Rightarrow> config \<Rightarrow> iris_region \<Rightarrow> bool" where
  "region_ok E q R \<longleftrightarrow> (\<exists>box. ir_aabb R = Some box \<and> joints_ok q box (turning_joints E) \<and> narrow box (turning_joints E)
     \<and> (\<forall>v. length v = length q \<and> PointInSet (ir_set R) v \<longrightarrow> inside v box))"

definition contains :: "inspector_env \<Rightarrow> config \<Rightarrow> iris_region \<Rightarrow> bool" where
  "contains E q R \<longleftrightarrow> (\<exists>v. same_up_to_turns (turning_joints E) q v \<and> PointInSet (ir_set R) v)"

definition sees_at :: "inspector_env \<Rightarrow> iris_region \<Rightarrow> config \<Rightarrow> config option" where
  "sees_at E R w = (case closest_point E (ir_set R) w of None \<Rightarrow> None | Some c \<Rightarrow> if check_edge E w c then Some c else None)"

definition candidates :: "inspector_env \<Rightarrow> config \<Rightarrow> iris_region \<Rightarrow> config list" where
  "candidates E q R = projr (wrapped_candidates q (the (ir_aabb R)) (turning_joints E))"

definition sees :: "inspector_env \<Rightarrow> config \<Rightarrow> iris_region \<Rightarrow> bool" where
  "sees E q R \<longleftrightarrow> (\<exists>w \<in> set (candidates E q R). sees_at E R w \<noteq> None)"

lemma EvalConfigAgainstRegion_simps [simp]:
  "ar_inside (EvalConfigAgainstRegion E w P s v) = PointInSet P w"
  "ar_visible (EvalConfigAgainstRegion E w (ir_set R) s v) = (if PointInSet (ir_set R) w \<or> \<not> v then None else sees_at E R w)"
  by (auto simp: EvalConfigAgainstRegion_def sees_at_def split: option.splits)

text \<open>Either every continuous joint has one multiple and there is one candidate, which is in the region iff any equivalent
  configuration is; or some joint has two, no equivalent configuration is in the region, and the check for inclusion
  gives up early.\<close>

lemma contains_cases:
  assumes "region_ok E q R" "ir_aabb R = Some box"
  obtains (one) v where "\<And>ex. \<exists>ws m. CalcWrapMultiplesPerJoint q box (turning_joints E) ex = Inr ws
        \<and> (turning_joints E \<noteq> [] \<longrightarrow> ws \<noteq> []) \<and> CartesianProductOfWrapMultiples ws = Inr [m]
        \<and> CalcSortedWrappedConfigs q box [m] = Inr [v]"
      "candidates E q R = [v]" "same_up_to_turns (turning_joints E) q v" "contains E q R \<longleftrightarrow> PointInSet (ir_set R) v"
  | (many) "CalcWrapMultiplesPerJoint q box (turning_joints E) True = Inr []" "turning_joints E \<noteq> []" "\<not> contains E q R"
proof -
  have ok: "joints_ok q box (turning_joints E)" "narrow box (turning_joints E)"
      "\<And>v. length v = length q \<Longrightarrow> PointInSet (ir_set R) v \<Longrightarrow> inside v box"
    using assms unfolding region_ok_def by auto
  let ?js = "turning_joints E"
  have choice: "\<exists>t. (\<forall>j \<in> set ?js. choices q box j = [t j])
      \<and> (\<forall>i < length q. u ! i = (if i \<in> set ?js then turn (t i) (q ! i) else q ! i)) \<and> length u = length q"
    if "same_up_to_turns ?js q u" "PointInSet (ir_set R) u" for u
    by (rule inside_choice [OF ok(1,2) that(1)]) (use ok(3) that in \<open>auto simp: same_up_to_turns_def\<close>)
  show thesis
  proof (cases "\<exists>j \<in> set ?js. length (choices q box j) = 2")
    case True
    then have n: "\<not> contains E q R" using choice unfolding contains_def by fastforce
    have "CalcWrapMultiplesPerJoint q box ?js True = Inr []"
      using CalcWrapMultiplesPerJoint_cases [OF ok(1), of True] True by auto
    then show thesis by (rule many) (use True n in auto)
  next
    case False
    have one': "\<forall>j \<in> set ?js. choices q box j = [hd (choices q box j)]"
    proof
      fix j assume "j \<in> set ?js"
      then have "length (choices q box j) \<noteq> 2" using False by blast
      then show "choices q box j = [hd (choices q box j)]" by (simp add: choices_def Let_def split: if_splits)
    qed
    obtain ws m v where w: "CalcWrapMultiplesPerJoint q box ?js False = Inr ws" "CartesianProductOfWrapMultiples ws = Inr [m]"
        "CalcSortedWrappedConfigs q box [m] = Inr [v]" "length v = length q"
        "\<forall>i < length q. v ! i = (if i \<in> set ?js then turn (hd (choices q box i)) (q ! i) else q ! i)"
        "fst ` set ws = set ?js"
      using single_candidate [OF ok(1) one', of False] by blast
    have same: "CalcWrapMultiplesPerJoint q box ?js ex = Inr ws" for ex
    proof (cases ex)
      case True
      have "\<forall>j \<in> set ?js. length (choices q box j) = 1" using False choices_length by blast
      then show ?thesis using w(1) True by (simp only: CalcWrapMultiplesPerJoint_def wraps_loop_single simp_thms)
    qed (use w(1) in simp)
    have 1: "\<And>ex. \<exists>ws m. CalcWrapMultiplesPerJoint q box ?js ex = Inr ws
        \<and> (?js \<noteq> [] \<longrightarrow> ws \<noteq> []) \<and> CartesianProductOfWrapMultiples ws = Inr [m]
        \<and> CalcSortedWrappedConfigs q box [m] = Inr [v]"
      using same w(2,3,6) by auto
    have 2: "candidates E q R = [v]" using w(1-3) assms(2) by (simp add: candidates_def wrapped_candidates_def)
    have 3: "same_up_to_turns ?js q v" using w(4,5) unfolding same_up_to_turns_def by auto
    have "u = v" if u: "same_up_to_turns ?js q u" "PointInSet (ir_set R) u" for u
    proof -
      obtain t where "\<forall>j \<in> set ?js. choices q box j = [t j]"
          "\<forall>i < length q. u ! i = (if i \<in> set ?js then turn (t i) (q ! i) else q ! i)" "length u = length q"
        using choice [OF u] by blast
      then show ?thesis using w(4,5) by (intro nth_equalityI) simp_all
    qed
    then have "contains E q R \<longleftrightarrow> PointInSet (ir_set R) v" using 3 unfolding contains_def by blast
    from one [OF 1 2 3 this] show thesis .
  qed
qed

lemma wrapped_loop_visible:
  assumes "\<And>w. w \<in> set ws \<Longrightarrow> \<not> PointInSet (ir_set R) w" "ai_connecting r = None" "\<not> ai_inside r"
  shows "\<exists>r'. wrapped_loop E q (ir_set R) True n ws r = Inr r' \<and> \<not> ai_inside r' \<and> ai_satisfied r' = ai_satisfied r
    \<and> (case ai_connecting r' of None \<Rightarrow> \<forall>w \<in> set ws. sees_at E R w = None
        | Some (p, v) \<Rightarrow> p = q \<and> (\<exists>w \<in> set ws. \<exists>c. sees_at E R w = Some c \<and> v = unwrap q w c))"
  using assms(1)
proof (induction ws)
  case (Cons w ws)
  have n: "\<not> PointInSet (ir_set R) w" using Cons.prems by simp
  show ?case
  proof (cases "sees_at E R w")
    case None
    from Cons.IH Cons.prems obtain r' where r': "wrapped_loop E q (ir_set R) True n ws r = Inr r'" "\<not> ai_inside r'"
        "ai_satisfied r' = ai_satisfied r"
        "case ai_connecting r' of None \<Rightarrow> \<forall>w \<in> set ws. sees_at E R w = None
          | Some (p, v) \<Rightarrow> p = q \<and> (\<exists>w \<in> set ws. \<exists>c. sees_at E R w = Some c \<and> v = unwrap q w c)"
      by auto
    from r'(4) have "case ai_connecting r' of None \<Rightarrow> \<forall>w \<in> set (w # ws). sees_at E R w = None
          | Some (p, v) \<Rightarrow> p = q \<and> (\<exists>w \<in> set (w # ws). \<exists>c. sees_at E R w = Some c \<and> v = unwrap q w c)"
      using None by (auto split: option.splits)
    then show ?thesis using r'(1-3) None n by (simp add: Let_def)
  next
    case (Some c)
    then show ?thesis using n assms(3) by (auto simp: Let_def)
  qed
qed (simp add: assms)

text \<open>The evaluation against one region decides inclusion up to full turns; without the check of the visibility it gives a
  distance otherwise, with it a connecting segment iff some candidate sees the region.\<close>

definition verdict :: "inspector_env \<Rightarrow> config \<Rightarrow> iris_region \<Rightarrow> bool \<Rightarrow> bool \<Rightarrow> against_iris_region \<Rightarrow> bool" where
  "verdict E q R s visibility r \<longleftrightarrow> ai_inside r = contains E q R \<and> ai_satisfied r = (if s then Some (check_satisfied E q) else None)
     \<and> (\<not> visibility \<longrightarrow> ai_connecting r = None \<and> (\<not> ai_inside r \<longrightarrow> ai_distance r \<noteq> None))
     \<and> (visibility \<longrightarrow> (ai_connecting r \<noteq> None \<longleftrightarrow> \<not> contains E q R \<and> sees E q R)
         \<and> (\<forall>p v. ai_connecting r = Some (p, v) \<longrightarrow>
              p = q \<and> (\<exists>w \<in> set (candidates E q R). \<exists>c. sees_at E R w = Some c \<and> v = unwrap q w c)))"

lemma EvalConfigAgainstIrisRegion_ok:
  assumes "region_ok E q R"
  shows "\<exists>r. EvalConfigAgainstIrisRegion E q R s visibility = Inr r \<and> verdict E q R s visibility r"
proof -
  let ?js = "turning_joints E"
  obtain box where box: "ir_aabb R = Some box" "joints_ok q box ?js" using assms unfolding region_ok_def by blast
  let ?r = "\<lparr> ai_inside = False, ai_satisfied = (if s then Some (check_satisfied E q) else None),
    ai_connecting = None, ai_distance = None \<rparr> :: against_iris_region"
  show ?thesis
    using assms box(1)
  proof (cases rule: contains_cases)
    case (one v)
    obtain ws m where w: "CalcWrapMultiplesPerJoint q box ?js (\<not> visibility) = Inr ws" "?js \<noteq> [] \<longrightarrow> ws \<noteq> []"
        "CartesianProductOfWrapMultiples ws = Inr [m]" "CalcSortedWrappedConfigs q box [m] = Inr [v]"
      using one(1) by blast
    have e: "EvalConfigAgainstIrisRegion E q R s visibility = wrapped_loop E q (ir_set R) visibility (Suc 0) [v] ?r"
    proof -
      have "\<not> (\<not> visibility \<and> ws = [] \<and> ?js \<noteq> [])" using w(2) by blast
      then show ?thesis
        by (simp only: EvalConfigAgainstIrisRegion_def Let_def box(1) option.case w(1,3,4) bindE_simps if_False) simp
    qed
    show ?thesis
      unfolding e verdict_def sees_def one(2,4) by (cases "sees_at E R v") (auto simp: Let_def)
  next
    case many
    show ?thesis
    proof (cases visibility)
      case False
      then show ?thesis using box(1) many by (simp add: EvalConfigAgainstIrisRegion_def verdict_def)
    next
      case True
      obtain vs where vs: "wrapped_candidates q box ?js = Inr vs" "\<forall>v \<in> set vs. same_up_to_turns ?js q v"
        using candidates_ok [OF box(2)] by blast
      have c: "candidates E q R = vs" using vs(1) box(1) by (simp add: candidates_def)
      have e: "EvalConfigAgainstIrisRegion E q R s visibility = wrapped_loop E q (ir_set R) True (length vs) vs ?r"
        using box(1) vs(1) True
        by (auto simp: EvalConfigAgainstIrisRegion_def wrapped_candidates_def bindE_Inr_iff)
      have "\<And>w. w \<in> set vs \<Longrightarrow> \<not> PointInSet (ir_set R) w" using vs(2) many(3) unfolding contains_def by blast
      from wrapped_loop_visible [OF this, where r = ?r and E = E and q = q and n = "length vs"]
      obtain r' where r': "wrapped_loop E q (ir_set R) True (length vs) vs ?r = Inr r'" "\<not> ai_inside r'"
          "ai_satisfied r' = (if s then Some (check_satisfied E q) else None)"
          "case ai_connecting r' of None \<Rightarrow> \<forall>w \<in> set vs. sees_at E R w = None
            | Some (p, v) \<Rightarrow> p = q \<and> (\<exists>w \<in> set vs. \<exists>c. sees_at E R w = Some c \<and> v = unwrap q w c)"
        by auto
      have "verdict E q R s visibility r'"
        using r'(2-4) many(3) True unfolding verdict_def sees_def c by (auto split: option.splits)
      then show ?thesis using e r'(1) by auto
    qed
  qed
qed

section \<open>A configuration against all regions\<close>

lemma classify_fold:
  assumes "\<forall>R \<in> set Rs. region_ok E q R"
  shows "\<exists>ds. foldE (classify_region E q) Rs (is, ds0) = Inr (is @ map ir_index (filter (contains E q) Rs), ds0 @ ds)
    \<and> length ds = length (filter (\<lambda>R. \<not> contains E q R) Rs)"
  using assms
proof (induction Rs arbitrary: "is" ds0)
  case (Cons R Rs)
  have "region_ok E q R" using Cons.prems by simp
  from EvalConfigAgainstIrisRegion_ok [OF this, of False False] obtain r where
    r: "EvalConfigAgainstIrisRegion E q R False False = Inr r" "verdict E q R False False r" by blast
  show ?case
  proof (cases "contains E q R")
    case True
    then show ?thesis using r Cons.IH [of "is @ [ir_index R]" ds0] Cons.prems by (simp add: classify_region_def verdict_def)
  next
    case False
    then obtain d where "ai_distance r = Some d" using r(2) by (auto simp: verdict_def)
    then have c: "classify_region E q R (is, ds0) = Inr (is, ds0 @ [d])"
      using r False by (simp add: classify_region_def verdict_def)
    from Cons.IH [of "is" "ds0 @ [d]"] Cons.prems obtain ds where
      "foldE (classify_region E q) Rs (is, ds0 @ [d]) = Inr (is @ map ir_index (filter (contains E q) Rs), (ds0 @ [d]) @ ds)"
      "length ds = length (filter (\<lambda>R. \<not> contains E q R) Rs)" by auto
    then show ?thesis using False c by (intro exI [of _ "d # ds"]) simp
  qed
qed simp

lemma first_visible_ok:
  assumes "\<forall>R \<in> set Rs. region_ok E q R \<and> \<not> contains E q R"
  shows "\<exists>r. first_visible E q Rs = Inr r \<and> containing_regions r = [] \<and>
    (if \<exists>R \<in> set Rs. sees E q R
     then \<exists>R \<in> set Rs. \<exists>w \<in> set (candidates E q R). \<exists>c. sees_at E R w = Some c
       \<and> visible_region r = Some (ir_index R) \<and> visible_point r = Some (unwrap q w c)
     else visible_region r = None \<and> visible_point r = None)"
  using assms
proof (induction Rs)
  case (Cons R Rs)
  have "region_ok E q R" "\<not> contains E q R" using Cons.prems by simp_all
  from EvalConfigAgainstIrisRegion_ok [OF this(1), of False True] this(2) obtain r where
    r: "EvalConfigAgainstIrisRegion E q R False True = Inr r" "verdict E q R False True r" by blast
  show ?case
  proof (cases "ai_connecting r")
    case None
    then have "\<not> sees E q R" using r(2) \<open>\<not> contains E q R\<close> by (simp add: verdict_def)
    moreover have "first_visible E q (R # Rs) = first_visible E q Rs" using r(1) None by simp
    moreover obtain x where x: "first_visible E q Rs = Inr x" "containing_regions x = []"
      "if \<exists>R \<in> set Rs. sees E q R
       then \<exists>R \<in> set Rs. \<exists>w \<in> set (candidates E q R). \<exists>c. sees_at E R w = Some c
         \<and> visible_region x = Some (ir_index R) \<and> visible_point x = Some (unwrap q w c)
       else visible_region x = None \<and> visible_point x = None" using Cons by auto
    ultimately show ?thesis by (intro exI [of _ x]) (auto split: if_splits)
  next
    case (Some pv)
    then obtain w c where w: "w \<in> set (candidates E q R)" "sees_at E R w = Some c" "pv = (q, unwrap q w c)"
      using r(2) by (cases pv) (auto simp: verdict_def)
    then have "\<exists>R' \<in> set (R # Rs). sees E q R'" by (auto simp: sees_def)
    moreover have "first_visible E q (R # Rs) = Inr \<lparr> containing_regions = [], visible_region = Some (ir_index R),
        visible_point = Some (unwrap q w c) \<rparr>" using r(1) Some w(3) by simp
    ultimately show ?thesis using w(1,2) by auto
  qed
qed simp

text \<open>C7: The inspection of a configuration is exact.  For usable regions it raises nothing and lists, in their order,
  exactly the regions that contain some configuration equal to \<open>q\<close> up to full turns.  When there is none it names a region
  that one of the wrapped candidates of \<open>q\<close> sees, with the visible point turned back to \<open>q\<close>, and no region only when none is
  seen.\<close>
theorem inspection_exact:
  assumes "\<forall>R \<in> set Rs. region_ok E q R"
  shows "\<exists>r. EvalConfigAgainstIrisRegions E Rs q = Inr r
    \<and> containing_regions r = map ir_index (filter (contains E q) Rs)
    \<and> (if containing_regions r = [] \<and> (\<exists>R \<in> set Rs. sees E q R)
       then \<exists>R \<in> set Rs. \<exists>w \<in> set (candidates E q R). \<exists>c. sees_at E R w = Some c
         \<and> visible_region r = Some (ir_index R) \<and> visible_point r = Some (unwrap q w c)
       else visible_region r = None)"
proof -
  obtain ds where ds: "foldE (classify_region E q) Rs ([], []) = Inr (map ir_index (filter (contains E q) Rs), ds)"
      "length ds = length (filter (\<lambda>R. \<not> contains E q R) Rs)"
    using classify_fold [OF assms, of "[]" "[]"] by auto
  show ?thesis
  proof (cases "filter (contains E q) Rs = []")
    case False
    then show ?thesis using ds(1) by (simp add: EvalConfigAgainstIrisRegions_def)
  next
    case True
    then have n: "\<forall>R \<in> set Rs. \<not> contains E q R" by (simp add: filter_empty_conv)
    then have len: "length ds = length Rs" using ds(2) by (simp add: filter_True)
    let ?o = "map (\<lambda>i. Rs ! i) (sort_key (\<lambda>i. ds ! i) [0..<length ds])"
    have o: "set ?o = set Rs" by (simp only: set_map set_sort set_upt len) (auto simp: in_set_conv_nth)
    then have "\<forall>R \<in> set ?o. region_ok E q R \<and> \<not> contains E q R" using assms n by blast
    from first_visible_ok [OF this, unfolded o] obtain r where
      r: "first_visible E q ?o = Inr r" "containing_regions r = []"
        "if \<exists>R \<in> set Rs. sees E q R
         then \<exists>R \<in> set Rs. \<exists>w \<in> set (candidates E q R). \<exists>c. sees_at E R w = Some c
           \<and> visible_region r = Some (ir_index R) \<and> visible_point r = Some (unwrap q w c)
         else visible_region r = None \<and> visible_point r = None" by blast
    have "EvalConfigAgainstIrisRegions E Rs q = Inr r" using ds(1) True r(1) by (simp add: EvalConfigAgainstIrisRegions_def)
    then show ?thesis using r(2,3) True by (auto split: if_splits)
  qed
qed

section \<open>Coverage of a set of points\<close>

text \<open>What the coverage of a point should be.  Whether a point that violates the constraints is in the first region
  counts; a point that violates them and is not in the first region is not looked at again.\<close>

definition coverage_spec :: "inspector_env \<Rightarrow> iris_region list \<Rightarrow> config \<Rightarrow> coverage_type" where
  "coverage_spec E Rs q = (case Rs of
     [] \<Rightarrow> kUncovered
   | R # _ \<Rightarrow>
       if \<not> check_satisfied E q \<and> \<not> contains E q R then kViolatesConstraints
       else if list_ex (contains E q) Rs then kCoveredByVolume
       else if list_ex (sees E q) Rs then kCoveredByVisibility else kUncovered)"

text \<open>A point from which an edge is free satisfies the constraints.\<close>

definition edges_sound :: "inspector_env \<Rightarrow> config \<Rightarrow> iris_region list \<Rightarrow> bool" where
  "edges_sound E q Rs \<longleftrightarrow> (\<forall>R \<in> set Rs. sees E q R \<longrightarrow> check_satisfied E q)"

lemma evaluate_point_ok:
  assumes "region_ok E q R"
  shows "evaluate_point E R (q, t) = Inr (
    if t = kCoveredByVolume \<or> t = kViolatesConstraints then t
    else if contains E q R then kCoveredByVolume
    else if t = kUncovered \<and> sees E q R then kCoveredByVisibility
    else if \<not> check_satisfied E q then kViolatesConstraints else t)"
proof -
  obtain r where r: "EvalConfigAgainstIrisRegion E q R True (t \<noteq> kCoveredByVisibility) = Inr r"
      "verdict E q R True (t \<noteq> kCoveredByVisibility) r"
    using EvalConfigAgainstIrisRegion_ok [OF assms] by blast
  show ?thesis
    by (cases t) (use r in \<open>simp_all add: evaluate_point_def update_type_def verdict_def del: not_None_eq\<close>)
qed

lemma evaluate_point_spec:
  assumes "\<forall>R \<in> set (Rs @ [R]). region_ok E q R" "edges_sound E q (Rs @ [R])"
  shows "evaluate_point E R (q, coverage_spec E Rs q) = Inr (coverage_spec E (Rs @ [R]) q)"
proof -
  have "region_ok E q R" using assms(1) by simp
  from evaluate_point_ok [OF this, of "coverage_spec E Rs q"] show ?thesis
    using assms(2) by (cases Rs) (auto simp: coverage_spec_def edges_sound_def list_ex_iff)
qed

lemma evaluate_points_map:
  "\<forall>q \<in> set qs. evaluate_point E R (q, f q) = Inr (g q)
   \<Longrightarrow> evaluate_points E R qs (map f qs) = (Inr (), map g qs)"
  by (induction qs) auto

text \<open>The inspector after the regions \<open>Rs\<close>.\<close>

definition evaluated :: "inspector_env \<Rightarrow> config list \<Rightarrow> iris_region list \<Rightarrow> coverage" where
  "evaluated E qs Rs = \<lparr> config_points = qs, result_types = map (coverage_spec E Rs) qs, evaluated_regions = map ir_index Rs \<rparr>"

lemma evaluate_regions_ok:
  assumes "\<forall>q \<in> set qs. (\<forall>R \<in> set Rs. region_ok E q R) \<and> edges_sound E q Rs" "distinct (map ir_index Rs)"
    "Rs = Rs1 @ Rs2"
  shows "forX Rs2 (evaluate_region E) (evaluated E qs Rs1) = (Inr (), evaluated E qs Rs)"
proof -
  have "\<exists>c'. forX Rs2 (evaluate_region E) (evaluated E qs Rs1) = (Inr (), c') \<and> c' = evaluated E qs (Rs1 @ Rs2)"
  proof (rule forX_succeeds [where P = "\<lambda>xs c. c = evaluated E qs (Rs1 @ xs)"])
    fix xs1 R xs2 c
    assume x: "Rs2 = xs1 @ R # xs2" "c = evaluated E qs (Rs1 @ xs1)"
    let ?Rs = "Rs1 @ xs1"
    have "evaluate_point E R (q, coverage_spec E ?Rs q) = Inr (coverage_spec E (?Rs @ [R]) q)" if "q \<in> set qs" for q
    proof (rule evaluate_point_spec)
      show "\<forall>R \<in> set (?Rs @ [R]). region_ok E q R" using assms(1,3) x(1) that by auto
      have "edges_sound E q Rs" using assms(1) that by blast
      then show "edges_sound E q (?Rs @ [R])" using assms(3) x(1) by (auto simp: edges_sound_def)
    qed
    then have "evaluate_points E R qs (map (coverage_spec E ?Rs) qs) = (Inr (), map (coverage_spec E (?Rs @ [R])) qs)"
      by (intro evaluate_points_map) blast
    moreover have "ir_index R \<notin> set (map ir_index Rs1 @ map ir_index xs1)" using assms(2,3) x(1) by auto
    ultimately show "\<exists>c'. evaluate_region E R c = (Inr (), c') \<and> c' = evaluated E qs (Rs1 @ xs1 @ [R])"
      unfolding x(2) by (simp add: evaluate_region_def evaluated_def)
  qed simp
  then show ?thesis using assms(3) by simp
qed

lemma evaluate_region_done:
  "ir_index R \<in> set (evaluated_regions c) \<Longrightarrow> evaluate_region E R c = (Inr (), c)"
  by (simp add: evaluate_region_def)

lemma evaluate_regions_done:
  "ir_index ` set Rs \<subseteq> set (evaluated_regions c) \<Longrightarrow> forX Rs (evaluate_region E) c = (Inr (), c)"
  by (induction Rs) (simp_all add: bindX_def evaluate_region_done)

lemma evaluate_region_marks:
  "evaluate_region E R c = (Inr (), c') \<Longrightarrow>
     insert (ir_index R) (set (evaluated_regions c)) = set (evaluated_regions c') \<and> config_points c' = config_points c"
  by (auto simp: evaluate_region_def split: if_splits prod.splits sum.splits)

lemma evaluate_regions_marks:
  "forX Rs (evaluate_region E) c = (Inr (), c') \<Longrightarrow>
     ir_index ` set Rs \<union> set (evaluated_regions c) = set (evaluated_regions c') \<and> config_points c' = config_points c"
proof (induction Rs arbitrary: c)
  case (Cons R Rs)
  then obtain c1 where c1: "evaluate_region E R c = (Inr (), c1)" "forX Rs (evaluate_region E) c1 = (Inr (), c')"
    by (auto simp: bindX_Inr_iff)
  from evaluate_region_marks [OF c1(1)] Cons.IH [OF c1(2)] show ?case by auto
qed simp

lemma forX_append: "forX (xs @ ys) f = bindX (forX xs f) (\<lambda>_. forX ys f)"
  by (induction xs) (auto simp: bindX_def fun_eq_iff split: prod.splits sum.splits)

lemma count_types_total:
  "volume_covered (count_types ts) + visibility_covered (count_types ts) + uncovered (count_types ts)
     + violates_constraints (count_types ts) = length ts"
proof -
  have "count_list ts kCoveredByVolume + count_list ts kCoveredByVisibility + count_list ts kUncovered
     + count_list ts kViolatesConstraints = length ts"
    by (induction ts) (auto, metis coverage_type.exhaust)
  then show ?thesis by (simp add: count_types_def)
qed

lemma SetPoints_fresh: "SetPointsForIrisCoverageEvaluation qs IrisInspector = evaluated E qs []"
proof -
  have "coverage_spec E [] = (\<lambda>_. kUncovered)" by (simp add: coverage_spec_def fun_eq_iff)
  then show ?thesis
    by (simp add: SetPointsForIrisCoverageEvaluation_def IrisInspector_def evaluated_def resize_def map_replicate_const)
qed

lemma EvaluateCoverage_from:
  assumes "\<forall>q \<in> set qs. (\<forall>R \<in> set (Rs1 @ Rs2). region_ok E q R) \<and> edges_sound E q (Rs1 @ Rs2)"
    "distinct (map ir_index (Rs1 @ Rs2))" "qs \<noteq> []"
  shows "EvaluateCoverage E (Rs1 @ Rs2) (evaluated E qs Rs1)
    = (Inr (count_types (map (coverage_spec E (Rs1 @ Rs2)) qs)), evaluated E qs (Rs1 @ Rs2))"
proof -
  have "forX Rs1 (evaluate_region E) (evaluated E qs Rs1) = (Inr (), evaluated E qs Rs1)"
    by (rule evaluate_regions_done) (simp add: evaluated_def)
  then have "forX (Rs1 @ Rs2) (evaluate_region E) (evaluated E qs Rs1) = (Inr (), evaluated E qs (Rs1 @ Rs2))"
    using evaluate_regions_ok [OF assms(1,2) refl] by (simp add: forX_append bindX_Inr)
  then show ?thesis using assms(3) by (simp add: EvaluateCoverage_def bindX_Inr) (simp add: evaluated_def)
qed

text \<open>The coverage is exact.  For usable regions with different indices and a fresh inspector, the evaluation raises nothing,
  gives every point the type it should have, and its counts are those of the types: they sum to the number of points.\<close>
theorem coverage_exact:
  assumes "\<forall>q \<in> set qs. (\<forall>R \<in> set Rs. region_ok E q R) \<and> edges_sound E q Rs" "distinct (map ir_index Rs)" "qs \<noteq> []"
  shows "\<exists>r c. EvaluateCoverage E Rs (SetPointsForIrisCoverageEvaluation qs IrisInspector) = (Inr r, c)
    \<and> result_types c = map (coverage_spec E Rs) qs \<and> r = count_types (map (coverage_spec E Rs) qs)
    \<and> volume_covered r + visibility_covered r + uncovered r + violates_constraints r = length qs"
proof -
  have "EvaluateCoverage E Rs (SetPointsForIrisCoverageEvaluation qs IrisInspector)
      = (Inr (count_types (map (coverage_spec E Rs) qs)), evaluated E qs Rs)"
    using EvaluateCoverage_from [of qs "[]" Rs E] assms by (simp add: SetPoints_fresh [of qs E])
  moreover have "result_types (evaluated E qs Rs) = map (coverage_spec E Rs) qs" by (simp add: evaluated_def)
  ultimately show ?thesis using count_types_total by fastforce
qed

text \<open>The evaluation is incremental: evaluating again after regions were added gives the result, and leaves the state, of
  evaluating all regions at once.\<close>
theorem coverage_incremental:
  assumes "EvaluateCoverage E Rs1 c = (Inr r, c1)"
  shows "EvaluateCoverage E (Rs1 @ Rs2) c1 = EvaluateCoverage E (Rs1 @ Rs2) c"
proof (cases "config_points c = []")
  case True
  then show ?thesis using assms by (simp add: EvaluateCoverage_def)
next
  case False
  then have 1: "forX Rs1 (evaluate_region E) c = (Inr (), c1)"
    using assms by (auto simp: EvaluateCoverage_def bindX_def split: prod.splits sum.splits)
  then have 2: "ir_index ` set Rs1 \<subseteq> set (evaluated_regions c1)" "config_points c1 = config_points c"
    using evaluate_regions_marks by blast+
  have "forX (Rs1 @ Rs2) (evaluate_region E) c1 = forX (Rs1 @ Rs2) (evaluate_region E) c"
    using 1 evaluate_regions_done [OF 2(1)] by (simp add: forX_append bindX_Inr)
  then show ?thesis using 2(2) False by (simp add: EvaluateCoverage_def bindX_def)
qed

text \<open>A new set of points inherits the verdicts of the previous set, because \<open>resize\<close> keeps the old types: a point covered
  by a region in one evaluation makes any point that takes its place in the list count as covered.\<close>
theorem new_points_inherit_coverage:
  assumes "EvaluateCoverage E Rs (SetPointsForIrisCoverageEvaluation [p] IrisInspector) = (Inr r, c)"
    "result_types c = [kCoveredByVolume]"
  shows "fst (EvaluateCoverage E Rs (SetPointsForIrisCoverageEvaluation [q] c)) = Inr \<lparr> volume_covered = 1, visibility_covered = 0,
     uncovered = 0, violates_constraints = 0 \<rparr>"
proof -
  let ?c = "SetPointsForIrisCoverageEvaluation [q] c"
  have "\<exists>c'. forX Rs (evaluate_region E) ?c = (Inr (), c') \<and> config_points c' = [q] \<and> result_types c' = [kCoveredByVolume]"
    by (rule forX_succeeds [where P = "\<lambda>_ c. config_points c = [q] \<and> result_types c = [kCoveredByVolume]"])
      (use assms(2) in \<open>auto simp: SetPointsForIrisCoverageEvaluation_def resize_def evaluate_region_def evaluate_point_def\<close>)
  then obtain c' where "forX Rs (evaluate_region E) ?c = (Inr (), c')" "result_types c' = [kCoveredByVolume]" by blast
  then show ?thesis
    by (simp add: EvaluateCoverage_def bindX_Inr count_types_def) (simp add: SetPointsForIrisCoverageEvaluation_def)
qed

section \<open>Edges\<close>

lemma IsEdgeInsideRegion_ok:
  assumes "region_ok E (fst e) R" "region_ok E (snd e) R"
  shows "IsEdgeInsideRegion E e R = Inr (contains E (fst e) R \<and> contains E (snd e) R)"
  using EvalConfigAgainstIrisRegion_ok [OF assms(1), of False False] EvalConfigAgainstIrisRegion_ok [OF assms(2), of False False]
  by (auto simp: IsEdgeInsideRegion_def verdict_def)

text \<open>The loop visits the multiples of the step up to the length of the edge.\<close>

lemma edge_loop_iff:
  assumes "0 < h"
  shows "edge_loop Rs e d h s \<longleftrightarrow> (\<forall>k. s + real k * h \<le> d \<longrightarrow> InsideAnyRegion Rs (edge_point (fst e) (snd e) ((s + real k * h) / d)))"
  using assms
proof (induction Rs e d h s rule: edge_loop.induct)
  case (1 Rs e d h s)
  let ?ok = "\<lambda>s. InsideAnyRegion Rs (edge_point (fst e) (snd e) (s / d))"
  show ?case
  proof (cases "s \<le> d \<and> ?ok s")
    case True
    then have "edge_loop Rs e d h s = edge_loop Rs e d h (s + h)" using 1(2) by (subst edge_loop.simps) simp
    also have "\<dots> \<longleftrightarrow> (\<forall>k. s + h + real k * h \<le> d \<longrightarrow> ?ok (s + h + real k * h))"
      using True 1(2) by (intro 1(1)) simp_all
    also have "\<dots> \<longleftrightarrow> (\<forall>k. s + real (Suc k) * h \<le> d \<longrightarrow> ?ok (s + real (Suc k) * h))"
      by (simp add: algebra_simps)
    also have "\<dots> \<longleftrightarrow> (\<forall>k. s + real k * h \<le> d \<longrightarrow> ?ok (s + real k * h))"
    proof (intro iffI allI)
      fix k assume "\<forall>k. s + real (Suc k) * h \<le> d \<longrightarrow> ?ok (s + real (Suc k) * h)"
      then show "s + real k * h \<le> d \<longrightarrow> ?ok (s + real k * h)" using True by (cases k) simp_all
    qed blast
    finally show ?thesis .
  next
    case False
    show ?thesis
    proof (cases "s \<le> d")
      case True
      then have "\<not> edge_loop Rs e d h s" using False 1(2) by (subst edge_loop.simps) simp
      moreover have "\<not> (s + real 0 * h \<le> d \<longrightarrow> ?ok (s + real 0 * h))" using True False by simp
      ultimately show ?thesis by blast
    next
      case c: False
      then have "edge_loop Rs e d h s" by (subst edge_loop.simps) simp
      moreover have "\<not> s + real k * h \<le> d" for k
      proof -
        have "0 \<le> real k * h" using 1(2) by simp
        then show ?thesis using c by linarith
      qed
      ultimately show ?thesis by blast
    qed
  qed
qed

text \<open>A region, the interval from 0 to 1, and an inspector for one joint.\<close>

definition unit_region :: iris_region where
  "unit_region = \<lparr> ir_set = \<lparr> hp_A = [[1], [-1]], hp_b = [1, 0] \<rparr>, ir_index = 7, ir_aabb = Some ([0], [1]) \<rparr>"

definition sample_inspector :: "nat list \<Rightarrow> inspector_env" where
  "sample_inspector js = \<lparr> closest_point = (\<lambda>_ _. None), check_satisfied = (\<lambda>_. True), check_edge = (\<lambda>_ _. False), turning_joints = js \<rparr>"

lemma in_unit_region: "PointInSet (ir_set unit_region) [x] \<longleftrightarrow> 0 \<le> x \<and> x \<le> 1"
  by (auto simp: PointInSet_def unit_region_def dot_def)

lemma unit_region_ok: "set js \<subseteq> {0} \<Longrightarrow> distinct js \<Longrightarrow> region_ok (sample_inspector js) [x] unit_region"
proof -
  assume js: "set js \<subseteq> {0}" "distinct js"
  have "inside v ([0], [1])" if v: "length v = length [x]" "PointInSet (ir_set unit_region) v" for v
  proof -
    obtain y where "v = [y]" using v(1) by (auto simp: length_Suc_conv)
    then show ?thesis using v(2) in_unit_region [of y] by (simp add: inside_def)
  qed
  moreover have "joints_ok [x] ([0], [1]) js" using js by (auto simp: joints_ok_def)
  moreover have "narrow ([0], [1]) js" using js(1) pi_ge_two by (auto simp: narrow_def)
  ultimately show ?thesis by (simp add: region_ok_def unit_region_def sample_inspector_def)
qed

lemma unit_region_contains: "contains (sample_inspector [0]) [x] unit_region \<longleftrightarrow> (\<exists>k. 0 \<le> turn k x \<and> turn k x \<le> 1)"
proof
  assume "contains (sample_inspector [0]) [x] unit_region"
  then obtain v where v: "same_up_to_turns [0] [x] v" "PointInSet (ir_set unit_region) v"
    by (auto simp: contains_def sample_inspector_def)
  obtain y k where "v = [y]" "y = turn k x" using v(1) by (auto simp: same_up_to_turns_def length_Suc_conv)
  then show "\<exists>k. 0 \<le> turn k x \<and> turn k x \<le> 1" using v(2) in_unit_region by auto
next
  assume "\<exists>k. 0 \<le> turn k x \<and> turn k x \<le> 1"
  then obtain k where "0 \<le> turn k x \<and> turn k x \<le> 1" by blast
  then have "same_up_to_turns [0] [x] [turn k x] \<and> PointInSet (ir_set unit_region) [turn k x]"
    by (auto simp: same_up_to_turns_def in_unit_region)
  then show "contains (sample_inspector [0]) [x] unit_region" by (auto simp: contains_def sample_inspector_def)
qed

text \<open>An edge of a full turn is reported to be inside a region it leaves: only its ends are looked at, and they are equal up to
  a turn.  The edge of a continuous joint from 1/2 to 1/2 + 2 pi counts as inside the interval from 0 to 1, although its middle is not in that
  interval up to any turns.\<close>
theorem full_turn_edge_inside:
  "IsEdgeInsideRegion (sample_inspector [0]) ([1 / 2], [1 / 2 + 2 * pi]) unit_region = Inr True
   \<and> \<not> contains (sample_inspector [0]) (edge_point [1 / 2] [1 / 2 + 2 * pi] (1 / 2)) unit_region"
proof -
  have ok: "region_ok (sample_inspector [0]) [x] unit_region" for x by (rule unit_region_ok) auto
  have in1: "contains (sample_inspector [0]) [1 / 2] unit_region"
    unfolding unit_region_contains by (rule exI [of _ 0]) simp
  have in2: "contains (sample_inspector [0]) [1 / 2 + 2 * pi] unit_region"
    unfolding unit_region_contains by (rule exI [of _ "-1"]) (simp add: turn_def)
  have "\<not> (0 \<le> turn k (1 / 2 + pi) \<and> turn k (1 / 2 + pi) \<le> 1)" for k
  proof (cases "0 \<le> k")
    case True
    then have "0 \<le> of_int k * (2 * pi)" by simp
    then show ?thesis using pi_ge_two by (simp add: turn_def algebra_simps)
  next
    case False
    then have "of_int k * (2 * pi) \<le> of_int (-1) * (2 * pi)" by (intro mult_right_mono of_int_le_iff [THEN iffD2]) auto
    then show ?thesis using pi_ge_two by (simp add: turn_def algebra_simps)
  qed
  then have "\<not> contains (sample_inspector [0]) [1 / 2 + pi] unit_region" unfolding unit_region_contains by blast
  moreover have "edge_point [1 / 2] [1 / 2 + 2 * pi] (1 / 2) = [1 / 2 + pi]" by (simp add: edge_point_def)
  ultimately show ?thesis using ok in1 in2 by (simp add: IsEdgeInsideRegion_ok)
qed

text \<open>The end of an edge is not sampled.  The steps stop short of it unless they divide the length, so an edge whose end is in no
  region counts as covered.\<close>
theorem edge_end_not_checked:
  "IsEdgeCoveredByRegions (1 / 10) [unit_region] ([0], [21 / 20]) \<and> \<not> InsideAnyRegion [unit_region] [21 / 20]"
proof -
  have inside_iff: "InsideAnyRegion [unit_region] [x] \<longleftrightarrow> 0 \<le> x \<and> x \<le> 1" for x
    by (simp add: InsideAnyRegion_def in_unit_region)
  have d: "l2_norm [21 / 20] = 21 / 20" by (simp add: l2_norm_def)
  have "real k * (1 / 10) \<le> 1" if "0 + real k * (1 / 10) \<le> 21 / 20" for k
  proof -
    have "real k \<le> 10.5" using that by simp
    then have "k \<le> 10" by linarith
    then show ?thesis by simp
  qed
  then have "edge_loop [unit_region] ([0], [21 / 20]) (21 / 20) (1 / 10) 0"
    by (subst edge_loop_iff) (auto simp: edge_point_def inside_iff)
  then show ?thesis by (simp add: IsEdgeCoveredByRegions_def Let_def inside_iff d)
qed

section \<open>Witnesses\<close>

theorem inspection_exact_witness:
  "\<exists>r. EvalConfigAgainstIrisRegions (sample_inspector [0]) [unit_region] [1 / 2 + 2 * pi] = Inr r \<and> containing_regions r = [7]"
proof -
  have "region_ok (sample_inspector [0]) [1 / 2 + 2 * pi] unit_region" by (rule unit_region_ok) auto
  moreover have "contains (sample_inspector [0]) [1 / 2 + 2 * pi] unit_region"
    unfolding unit_region_contains by (rule exI [of _ "-1"]) (simp add: turn_def)
  moreover have "ir_index unit_region = 7" by (simp add: unit_region_def)
  ultimately show ?thesis using inspection_exact [of "[unit_region]" "sample_inspector [0]" "[1 / 2 + 2 * pi]"] by auto
qed

lemma sample_not_seen: "\<not> sees (sample_inspector js) q R"
  by (simp add: sees_def sees_at_def sample_inspector_def)

lemma sample_contains: "contains (sample_inspector []) [x] unit_region \<longleftrightarrow> 0 \<le> x \<and> x \<le> 1"
proof -
  have "same_up_to_turns [] [x] v \<longleftrightarrow> v = [x]" for v by (auto simp: same_up_to_turns_def length_Suc_conv)
  then show ?thesis by (simp add: contains_def in_unit_region sample_inspector_def)
qed

theorem coverage_exact_witness:
  "\<exists>c. EvaluateCoverage (sample_inspector []) [unit_region] (SetPointsForIrisCoverageEvaluation [[1 / 2], [3]] IrisInspector)
     = (Inr \<lparr> volume_covered = 1, visibility_covered = 0, uncovered = 1, violates_constraints = 0 \<rparr>, c)"
proof -
  have ok: "region_ok (sample_inspector []) [x] unit_region" for x by (rule unit_region_ok) auto
  have "coverage_spec (sample_inspector []) [unit_region] [1 / 2] = kCoveredByVolume"
    "coverage_spec (sample_inspector []) [unit_region] [3] = kUncovered"
    using sample_not_seen by (auto simp: coverage_spec_def sample_contains) (simp_all add: sample_inspector_def)
  then have "count_types (map (coverage_spec (sample_inspector []) [unit_region]) [[1 / 2], [3]])
    = \<lparr> volume_covered = 1, visibility_covered = 0, uncovered = 1, violates_constraints = 0 \<rparr>"
    by (simp add: count_types_def)
  then show ?thesis
    using coverage_exact [of "[[1 / 2], [3]]" "[unit_region]" "sample_inspector []"] ok sample_not_seen
    by (auto simp: edges_sound_def)
qed

lemma sample_coverage:
  "\<exists>r c. EvaluateCoverage (sample_inspector []) [unit_region] (SetPointsForIrisCoverageEvaluation [[1 / 2]] IrisInspector) = (Inr r, c)
     \<and> result_types c = [kCoveredByVolume]"
proof -
  have ok: "region_ok (sample_inspector []) [1 / 2] unit_region" by (rule unit_region_ok) auto
  have "EvaluateCoverage (sample_inspector []) [unit_region] (evaluated (sample_inspector []) [[1 / 2]] [])
    = (Inr (count_types (map (coverage_spec (sample_inspector []) [unit_region]) [[1 / 2]])),
       evaluated (sample_inspector []) [[1 / 2]] [unit_region])"
    using EvaluateCoverage_from [of "[[1 / 2]]" "[]" "[unit_region]" "sample_inspector []"] ok sample_not_seen
    by (simp add: edges_sound_def)
  moreover have "coverage_spec (sample_inspector []) [unit_region] [1 / 2] = kCoveredByVolume"
    by (simp add: coverage_spec_def sample_contains)
  ultimately show ?thesis by (simp add: SetPoints_fresh [of "[[1 / 2]]" "sample_inspector []"] evaluated_def)
qed

theorem coverage_incremental_witness:
  "\<exists>c. EvaluateCoverage (sample_inspector []) ([unit_region] @ []) c
     = EvaluateCoverage (sample_inspector []) ([unit_region] @ []) (SetPointsForIrisCoverageEvaluation [[1 / 2]] IrisInspector)"
  using sample_coverage coverage_incremental by blast

theorem new_points_inherit_coverage_witness:
  "\<exists>c. fst (EvaluateCoverage (sample_inspector []) [unit_region] (SetPointsForIrisCoverageEvaluation [[3]] c))
     = Inr \<lparr> volume_covered = 1, visibility_covered = 0, uncovered = 0, violates_constraints = 0 \<rparr>
     \<and> \<not> contains (sample_inspector []) [3] unit_region"
  using sample_coverage new_points_inherit_coverage [of _ _ "[1 / 2]" _ _ "[3]"] by (force simp: sample_contains)

end
