(* ===== verification/Manager_Spec.thy ===== *)
theory Manager_Spec
  imports Iris_Manager
begin

text \<open>
  What the IRIS manager promises, without its data structures: a line of waiting requests, the set of the ids
  whose job runs and the set of those whose job has ended but was not collected.  The deque with its set of
  ids and the map of futures implement it (\<open>iris_manager_refines\<close>).
\<close>

record service =
  waiting :: "iris_build_request list"
  running :: "request_id set"
  ended :: "request_id set"
  waiting_room :: nat
  work_places :: nat
  closed :: bool

definition known :: "service \<Rightarrow> request_id set" where
  "known s = req_id ` set (waiting s) \<union> running s \<union> ended s"

text \<open>One pass of the service thread: ended jobs are collected, then the first request in line leaves it if there is a
  place, and its job runs if the request names a context.\<close>

definition serve_next :: "service \<Rightarrow> service" where
  "serve_next s = (let s1 = s\<lparr> ended := {} \<rparr> in case waiting s of
     [] \<Rightarrow> s1
   | r # rs \<Rightarrow> if card (running s) < work_places s
       then s1\<lparr> waiting := rs, running := (if valid_request r then insert (req_id r) (running s) else running s) \<rparr>
       else s1)"

definition service_event :: "(iris_build_request, 'res) rm_event \<Rightarrow> service \<Rightarrow> service" where
  "service_event ev s = (case ev of
     EvQueue r \<Rightarrow> if req_id r \<notin> known s \<and> length (waiting s) < waiting_room s then s\<lparr> waiting := waiting s @ [r] \<rparr> else s
   | EvClear \<Rightarrow> s\<lparr> waiting := [] \<rparr>
   | EvFinish i t \<Rightarrow> if i \<in> running s \<and> t \<noteq> Pending then s\<lparr> running := running s - {i}, ended := insert i (ended s) \<rparr> else s
   | EvStop \<Rightarrow> s\<lparr> closed := True \<rparr>
   | EvRun \<Rightarrow> if closed s then s else serve_next s)"

definition jobs_in :: "(request_id \<Rightarrow> 'res job_future option) \<Rightarrow> bool \<Rightarrow> request_id set" where
  "jobs_in jobs done = {i. \<exists>f. jobs i = Some f \<and> future_result_ready f = done}"

definition service_of :: "(iris_build_request, 'res, 'g) resource_manager \<Rightarrow> service" where
  "service_of m = \<lparr> waiting = queued_requests (rm_queue m), running = jobs_in (rj_job (rm_runner m)) False,
     ended = jobs_in (rj_job (rm_runner m)) True, waiting_room = rq_capacity (rm_queue m),
     work_places = rj_capacity (rm_runner m), closed = stop_triggered m \<rparr>"

text \<open>A request with a context id, of which alone the code defines what starting its job does.\<close>

definition carries_id :: "iris_build_request \<Rightarrow> bool" where "carries_id r \<longleftrightarrow> ctx_id (ib_context r) \<noteq> None"

definition event_defined :: "(iris_build_request, 'res) rm_event \<Rightarrow> bool" where
  "event_defined ev \<longleftrightarrow> (case ev of EvQueue r \<Rightarrow> carries_id r | _ \<Rightarrow> True)"

lemma waiting_carry_ids:
  assumes "event_defined ev" "\<forall>r \<in> set (waiting s). carries_id r"
  shows "\<forall>r \<in> set (waiting (service_event ev s)). carries_id r"
  using assms by (cases ev; cases "waiting s") (auto simp: event_defined_def service_event_def serve_next_def Let_def)

section \<open>The simulation\<close>

lemma jobs_in_union: "jobs_in (rj_job j) False \<union> jobs_in (rj_job j) True = fst ` set (active_jobs j)"
proof -
  have "i \<in> jobs_in (rj_job j) False \<union> jobs_in (rj_job j) True \<longleftrightarrow> rj_Contains j i" for i
    by (auto simp: jobs_in_def rj_Contains_job)
  then show ?thesis by (auto simp: rj_Contains_def)
qed

lemma jobs_in_card: "rj_inv j \<Longrightarrow> jobs_in (rj_job j) True = {} \<Longrightarrow> card (jobs_in (rj_job j) False) = rj_Size j"
proof -
  assume "rj_inv j" "jobs_in (rj_job j) True = {}"
  then have "jobs_in (rj_job j) False = set (map fst (active_jobs j))" "distinct (map fst (active_jobs j))"
    using jobs_in_union [of j] by (simp_all add: rj_inv_def)
  then show ?thesis by (simp only: distinct_card) (simp add: rj_Size_def)
qed

lemma known_iff: "rm_inv m \<Longrightarrow> req_id r \<in> known (service_of m) \<longleftrightarrow> HasJob m (req_id r)"
  using rq_inv_ids [OF rm_invD(1), of m] jobs_in_union [of "rm_runner m"]
  by (auto simp: known_def service_of_def HasJob_def rq_Contains_def rj_Contains_def)

lemma refines_queue:
  assumes "rm_inv m"
  shows "service_of (snd (QueueRequest r m)) = service_event (EvQueue r) (service_of m)"
  using assms
proof (cases rule: QueueRequest_cases [of m r])
  case known
  then show ?thesis using known_iff [OF assms, of r] by (simp add: service_event_def)
next
  case full
  then show ?thesis by (simp add: service_event_def rq_Size_def rq_Capacity_def) (simp add: service_of_def)
next
  case (added q)
  then show ?thesis using known_iff [OF assms, of r]
    by (auto simp: service_event_def rq_Enqueue_def service_of_def split: if_splits)
qed

lemma in_jobs_iff: "i \<in> jobs_in jobs d \<longleftrightarrow> (case jobs i of None \<Rightarrow> False | Some f \<Rightarrow> future_result_ready f = d)"
  by (simp add: jobs_in_def split: option.split)

lemma finished_ready: "future_result_ready (if c then f\<lparr> fut_state := t \<rparr> else f) = (if c then t \<noteq> Pending else future_result_ready f)"
  by (cases t) (simp_all add: future_result_ready_def)

lemma not_ready_iff: "\<not> future_result_ready f \<longleftrightarrow> fut_state f = Pending"
  by (simp add: future_result_ready_def split: thread_state.split)

lemma jobs_in_finish:
  "jobs_in (rj_job (rj_finish i t j)) d = (if t \<noteq> Pending \<and> i \<in> jobs_in (rj_job j) False
     then if d then insert i (jobs_in (rj_job j) True) else jobs_in (rj_job j) False - {i} else jobs_in (rj_job j) d)"
proof (rule set_eqI)
  fix k
  have "rj_job (rj_finish i t j) k = (case rj_job j k of None \<Rightarrow> None
      | Some f \<Rightarrow> Some (if k = i \<and> \<not> future_result_ready f then f\<lparr> fut_state := t \<rparr> else f))"
    by (simp add: rj_job_finish not_ready_iff split: option.split)
  then show "k \<in> jobs_in (rj_job (rj_finish i t j)) d \<longleftrightarrow> k \<in> (if t \<noteq> Pending \<and> i \<in> jobs_in (rj_job j) False
     then if d then insert i (jobs_in (rj_job j) True) else jobs_in (rj_job j) False - {i} else jobs_in (rj_job j) d)"
    by (cases "rj_job j k"; cases "k = i"; cases d) (simp_all add: in_jobs_iff finished_ready)
qed

lemma cleanup_jobs:
  fixes m :: "('r, 'res, 'g) resource_manager"
  assumes "rj_inv (rm_runner m)"
  obtains j' where "(iris_Cleanup :: ('r, 'res, 'g) cleanup_impl) m = (Inr (), m\<lparr> rm_runner := j' \<rparr>)" "rj_inv j'"
    "rj_capacity j' = rj_capacity (rm_runner m)"
    "jobs_in (rj_job j') False = jobs_in (rj_job (rm_runner m)) False" "jobs_in (rj_job j') True = {}"
proof -
  let ?is = "sorted_list_of_set (GetCompletedJobIds (rm_runner m))"
  have f: "finite (GetCompletedJobIds (rm_runner m))" by (simp add: GetCompletedJobIds_def)
  then have s: "set ?is = GetCompletedJobIds (rm_runner m)" by simp
  from retrieve_all_complete [OF assms, of ?is] s obtain j' where
    j: "retrieve_all ?is (rm_runner m) = (Inr (), j')" "rj_inv j'" "rj_capacity j' = rj_capacity (rm_runner m)"
      "fst ` set (active_jobs j') = fst ` set (active_jobs (rm_runner m)) - set ?is"
      "\<forall>k. k \<notin> set ?is \<longrightarrow> rj_job j' k = rj_job (rm_runner m) k" by auto
  have gone: "rj_job j' k = None" if "k \<in> set ?is" for k
    using that j(4) rj_Contains_job [of j' k] by (auto simp: rj_Contains_def)
  have done_iff: "k \<in> set ?is \<longleftrightarrow> (\<exists>f. rj_job (rm_runner m) k = Some f \<and> future_result_ready f)" for k
    unfolding s by (rule GetCompletedJobIds_iff [OF assms])
  have job: "rj_job j' k = (case rj_job (rm_runner m) k of None \<Rightarrow> None
      | Some f \<Rightarrow> if future_result_ready f then None else Some f)" for k
    using gone [of k] j(5) done_iff [of k] by (cases "k \<in> set ?is") (auto split: option.splits)
  show thesis
  proof
    show "(iris_Cleanup :: ('r, 'res, 'g) cleanup_impl) m = (Inr (), m\<lparr> rm_runner := j' \<rparr>)"
      using j(1) by (simp add: iris_Cleanup_def)
    show "jobs_in (rj_job j') False = jobs_in (rj_job (rm_runner m)) False" "jobs_in (rj_job j') True = {}"
      by (auto simp: jobs_in_def job split: option.splits if_splits)
  qed (fact j)+
qed

lemma jobs_in_insert:
  assumes "InsertNewJob i j = (Inr (), j')"
  shows "jobs_in (rj_job j') False = insert i (jobs_in (rj_job j) False)"
    "jobs_in (rj_job j) True = {} \<Longrightarrow> jobs_in (rj_job j') True = {}"
  using InsertNewJob_fields(1) [OF assms]
  by (auto simp: jobs_in_def rj_job_insert [OF assms] future_result_ready_def rj_Contains_job split: if_splits)

text \<open>One \<open>RunOnce\<close> when nothing is left to collect, some request waits and a place is free.\<close>

lemma refines_run_once:
  fixes m :: "(iris_build_request, iris_build_result, 'g) resource_manager"
  assumes "rm_inv m" "queued_requests (rm_queue m) = r # rs" "rj_Size (rm_runner m) < rj_Capacity (rm_runner m)"
    "jobs_in (rj_job (rm_runner m)) True = {}" "carries_id r"
  shows "service_of (snd (RunOnce iris_StartJobImpl m)) = (service_of m)\<lparr> waiting := rs,
    running := (if valid_request r then insert (req_id r) (running (service_of m)) else running (service_of m)) \<rparr>"
proof -
  obtain q where q: "rq_PopNextRequest (rm_queue m) = Inr (r, q)" using assms(2) by (simp add: rq_PopNextRequest_def)
  note qf = rq_Pop_fields [OF q]
  let ?m = "m\<lparr> rm_queue := q \<rparr>"
  have new: "\<not> HasJob ?m (req_id r)"
    using rm_invD(1,3) [OF assms(1)] qf(1,2) rq_inv_ids [OF rm_invD(1) [OF assms(1)]]
    by (auto simp: HasJob_def rq_Contains_def rj_Contains_def)
  then have start: "StartJob iris_StartJobImpl r ?m = iris_StartJobImpl r ?m"
    using assms(3) by (simp add: StartJob_def)
  show ?thesis
  proof (cases "valid_request r")
    case False
    then have "the (ctx_id (ib_context r)) = 0" using assms(5) by (auto simp: valid_request_def carries_id_def)
    then have "snd (RunOnce iris_StartJobImpl m) = ?m" using q start by (simp add: RunOnce_def iris_StartJobImpl_def)
    then show ?thesis using qf(1,3) False assms(2) by (simp add: service_of_def)
  next
    case True
    obtain j' where j: "InsertNewJob (req_id r) (rm_runner m) = (Inr (), j')"
      using new assms(3) by (cases rule: InsertNewJob_cases [of "rm_runner m" "req_id r"]) (auto simp: HasJob_def)
    have "snd (RunOnce iris_StartJobImpl m) = ?m\<lparr> rm_runner := j' \<rparr>"
      using q start True j by (auto simp: RunOnce_def iris_StartJobImpl_def valid_request_def)
    then show ?thesis
      using qf(1,3) True assms(2,4) jobs_in_insert [OF j] InsertNewJob_fields(3) [OF j] by (simp add: service_of_def)
  qed
qed

lemma refines_run:
  fixes m :: "(iris_build_request, iris_build_result, 'g) resource_manager"
  assumes "rm_inv m" "\<forall>r \<in> set (queued_requests (rm_queue m)). carries_id r"
  shows "service_of (snd (Run_body iris_Cleanup iris_StartJobImpl m)) = serve_next (service_of m)"
proof -
  obtain j' where c: "iris_Cleanup m = (Inr (), m\<lparr> rm_runner := j' \<rparr>)" "rj_inv j'" "rj_capacity j' = rj_capacity (rm_runner m)"
    "jobs_in (rj_job j') False = jobs_in (rj_job (rm_runner m)) False" "jobs_in (rj_job j') True = {}"
    by (rule cleanup_jobs [OF rm_invD(2) [OF assms(1)]])
  let ?m = "m\<lparr> rm_runner := j' \<rparr>"
  have s1: "service_of ?m = (service_of m)\<lparr> ended := {} \<rparr>" using c(3-5) by (simp add: service_of_def)
  have size: "card (running (service_of m)) = rj_Size j'" "rj_Size j' \<le> rj_Capacity j'"
    using jobs_in_card [OF c(2,5)] c(2,4) by (simp_all add: service_of_def rj_inv_def rj_Size_def rj_Capacity_def)
  have places: "work_places (service_of m) = rj_Capacity j'" using c(3) by (simp add: service_of_def rj_Capacity_def)
  show ?thesis
  proof (cases "queued_requests (rm_queue m)")
    case Nil
    then have "waiting (service_of m) = []" by (simp add: service_of_def)
    then show ?thesis using Nil s1 c(1) by (simp add: serve_next_def Run_body_def rq_Empty_def)
  next
    case (Cons r rs)
    then have w: "waiting (service_of m) = r # rs" by (simp add: service_of_def)
    show ?thesis
    proof (cases "rj_Size j' < rj_Capacity j'")
      case False
      then show ?thesis using s1 c(1) w size places by (simp add: serve_next_def Run_body_def)
    next
      case True
      have "fst ` set (active_jobs j') \<subseteq> fst ` set (active_jobs (rm_runner m))"
        using jobs_in_union [of j'] jobs_in_union [of "rm_runner m"] c(4,5) by auto
      then have "rm_inv ?m" using assms(1) c(2) by (auto simp: rm_inv_def)
      then have "service_of (snd (RunOnce iris_StartJobImpl ?m)) = (service_of ?m)\<lparr> waiting := rs,
          running := (if valid_request r then insert (req_id r) (running (service_of ?m)) else running (service_of ?m)) \<rparr>"
        using Cons True c(5) assms(2) by (intro refines_run_once) simp_all
      then show ?thesis using True s1 c(1) w size places Cons
        by (simp add: serve_next_def Run_body_def rq_Empty_def)
    qed
  qed
qed

lemma refines_event:
  fixes m :: "(iris_build_request, iris_build_result, 'g) resource_manager"
  assumes "rm_inv m" "\<forall>r \<in> set (queued_requests (rm_queue m)). carries_id r"
  shows "service_of (rm_event iris_Cleanup iris_StartJobImpl ev m) = service_event ev (service_of m)"
proof (cases ev)
  case (EvQueue r)
  then show ?thesis using refines_queue [OF assms(1), of r] by (simp add: rm_event_def)
next
  case EvClear
  then show ?thesis by (simp add: rm_event_def service_event_def service_of_def ClearQueue_def rq_Clear_def)
next
  case (EvFinish i t)
  then show ?thesis by (auto simp: rm_event_def service_event_def service_of_def jobs_in_finish)
next
  case EvStop
  then show ?thesis by (simp add: rm_event_def service_event_def service_of_def Stop_def)
next
  case EvRun
  then show ?thesis using refines_run [OF assms]
    by (simp add: rm_event_def service_event_def Running_def) (simp add: service_of_def)
qed

text \<open>C5: The IRIS manager implements the service for events that come one after the other, as long as every request carries a context id
  (for one without, which the service makes of the id 0, the code reads an empty optional).  From its construction on, whatever calls arrive, jobs
  end and passes of the loop are made, its state is the state of the abstract service after the same events: requests wait in line at most once
  and up to the capacity of the queue, leave it in order when a place is free after the ended jobs were collected, and the jobs of
  those whose id is not 0 run until their thread ends.  Calls of \<open>QueueRequest\<close> that overlap are the subject of \<open>interleaving_safe\<close> and
  \<open>duplicate_guard_race\<close> in \<open>Resource_Manager\<close>: two of them with the same id may both queue it.\<close>
theorem iris_manager_refines:
  fixes m :: "(iris_build_request, iris_build_result, 'g) resource_manager"
  assumes "ResourceManager (Inr g) n k = Inr m" "\<forall>ev \<in> set evs. event_defined ev"
  shows "service_of (fold (rm_event iris_Cleanup iris_StartJobImpl) evs m)
    = fold service_event evs \<lparr> waiting = [], running = {}, ended = {}, waiting_room = nat n, work_places = nat k, closed = False \<rparr>"
proof -
  have "service_of (fold (rm_event iris_Cleanup iris_StartJobImpl) evs m) = fold service_event evs (service_of m)"
    if "rm_inv m" "\<forall>r \<in> set (queued_requests (rm_queue m)). carries_id r" for m :: "(iris_build_request, iris_build_result, 'g) resource_manager"
    using that assms(2)
  proof (induction evs arbitrary: m)
    case (Cons ev evs)
    let ?m = "rm_event iris_Cleanup iris_StartJobImpl ev m"
    have s: "service_of ?m = service_event ev (service_of m)" by (rule refines_event [OF Cons.prems(1,2)])
    have "\<forall>r \<in> set (waiting (service_of ?m)). carries_id r"
      unfolding s by (rule waiting_carry_ids) (use Cons.prems in \<open>simp_all add: service_of_def\<close>)
    then have "\<forall>r \<in> set (queued_requests (rm_queue ?m)). carries_id r" by (simp add: service_of_def)
    from Cons.IH [OF iris.event_inv [OF Cons.prems(1)] this] Cons.prems(3) s show ?case by simp
  qed simp
  moreover have "queued_requests (rm_queue m) = []"
    using assms(1) by (auto simp: ResourceManager_def RequestQueue_def bindE_Inr_iff split: if_splits)
  moreover have "service_of m = \<lparr> waiting = [], running = {}, ended = {}, waiting_room = nat n, work_places = nat k, closed = False \<rparr>"
    using assms(1) by (auto simp: ResourceManager_def RequestQueue_def JobRunner_def service_of_def jobs_in_def rj_job_def bindE_Inr_iff
        split: if_splits)
  ultimately show ?thesis using ResourceManager_inv [OF assms(1)] by simp
qed

section \<open>Witnesses\<close>

theorem iris_manager_refines_witness:
  "\<exists>m :: (iris_build_request, iris_build_result, unit) resource_manager. ResourceManager (Inr ()) 2 1 = Inr m
     \<and> running (service_of (fold (rm_event iris_Cleanup iris_StartJobImpl)
         [EvQueue (sample_build_request ''a''), EvQueue (sample_build_request ''b''), EvRun, EvRun] m)) = {''a''}"
proof -
  obtain m :: "(iris_build_request, iris_build_result, unit) resource_manager"
    where m: "ResourceManager (Inr ()) 2 1 = Inr m"
    by (simp add: ResourceManager_def RequestQueue_def JobRunner_def)
  have "running (fold service_event [EvQueue (sample_build_request ''a''), EvQueue (sample_build_request ''b''), EvRun, EvRun]
      \<lparr> waiting = [], running = {}, ended = {}, waiting_room = nat 2, work_places = nat 1, closed = False \<rparr>) = {''a''}"
    by (simp add: service_event_def known_def serve_next_def sample_build_request_valid sample_build_request_id)
  moreover have "\<forall>ev \<in> set [EvQueue (sample_build_request ''a''), EvQueue (sample_build_request ''b''), EvRun, EvRun]. event_defined ev"
    by (simp add: event_defined_def carries_id_def sample_build_request_def)
  note iris_manager_refines [OF m this]
  ultimately show ?thesis using m by (metis (no_types, lifting))
qed

end
