(* ===== verification/Piecewise_Polynomials.thy ===== *)
theory Piecewise_Polynomials
  imports Prelude
begin

text \<open>
  \<open>client/client/cpp/planning_service_client/trajectories.h\<close>, \<open>.cc\<close>, class \<open>PiecewisePolynomial\<close>: the polynomials of the
  client library.  An Eigen matrix is its number of rows with the list of its columns; doubles are reals.
  What is undefined in C++ (the front of an empty vector, an index out of range) is an error here.
  The value of \<open>std::nextafter\<close> towards minus infinity is the argument \<open>prev\<close>, because reals have none.
\<close>

type_synonym vec = "real list"

record matrix =
  mx_rows :: nat
  mx_cols :: "vec list"

record piecewise =
  pp_coefficients :: "matrix list"
  pp_breaks :: "real list"
  pp_dim :: nat
  pp_degree :: int

definition out_of_range :: exn where "out_of_range = ''undefined: index out of range''"
definition client_throw :: exn where "client_throw = ''CLIENT_THROW_UNLESS''"

definition vadd :: "vec \<Rightarrow> vec \<Rightarrow> vec" where "vadd = map2 (+)"
definition vscale :: "real \<Rightarrow> vec \<Rightarrow> vec" where "vscale c = map ((*) c)"
definition clamp :: "real \<Rightarrow> real \<Rightarrow> real \<Rightarrow> real" where "clamp t lo hi = (if t < lo then lo else if hi < t then hi else t)"

section \<open>Construction\<close>

definition matrix_degree :: "matrix \<Rightarrow> int" where "matrix_degree m = int (length (mx_cols m)) - 1"

definition increasing :: "real list \<Rightarrow> bool" where
  "increasing bs = list_all (\<lambda>i. bs ! (i - 1) < bs ! i) [1..<length bs]"

definition PiecewisePolynomial :: "matrix list \<Rightarrow> real list \<Rightarrow> piecewise throws" where
  "PiecewisePolynomial cs bs = (case cs of
     [] \<Rightarrow> Inl out_of_range
   | c # rest \<Rightarrow>
       if bs = [] \<or> length cs \<noteq> length bs - 1 then Inl client_throw
       else if \<not> list_all (\<lambda>m. mx_rows m = mx_rows c) rest then Inl client_throw
       else if \<not> increasing bs then Inl client_throw
       else Inr \<lparr> pp_coefficients = cs, pp_breaks = bs, pp_dim = mx_rows c,
                  pp_degree = foldl (\<lambda>d m. max d (matrix_degree m)) (matrix_degree c) rest \<rparr>)"

definition pp_start :: "piecewise \<Rightarrow> real" where "pp_start p = hd (pp_breaks p)"
definition pp_end :: "piecewise \<Rightarrow> real" where "pp_end p = last (pp_breaks p)"
definition pp_duration :: "piecewise \<Rightarrow> real" where "pp_duration p = pp_end p - pp_start p"

definition pp_Constant :: "vec \<Rightarrow> real \<Rightarrow> real \<Rightarrow> piecewise throws" where
  "pp_Constant conf t0 t1 = PiecewisePolynomial [\<lparr> mx_rows = length conf, mx_cols = [conf] \<rparr>] [t0, t1]"

definition pp_ShiftTime :: "real \<Rightarrow> piecewise \<Rightarrow> piecewise" where
  "pp_ShiftTime d p = p\<lparr> pp_breaks := map (\<lambda>t. t + d) (pp_breaks p) \<rparr>"

section \<open>Evaluation\<close>

text \<open>The binary search; the callers keep \<open>start < end\<close>.\<close>

function GetRecursiveSegment :: "real list \<Rightarrow> real \<Rightarrow> nat \<Rightarrow> nat \<Rightarrow> nat" where
  "GetRecursiveSegment bs t s e = (if e \<le> s + 1 then s
     else let mid = (s + e) div 2 in
       if t < bs ! mid then GetRecursiveSegment bs t s mid
       else if t > bs ! mid then GetRecursiveSegment bs t mid e
       else mid)"
  by pat_completeness auto

termination GetRecursiveSegment
  by (relation "measure (\<lambda>(bs, t, s, e). e - s)") auto

declare GetRecursiveSegment.simps [simp del]

definition FindSegment :: "piecewise \<Rightarrow> real \<Rightarrow> int" where
  "FindSegment p t = (if t < pp_start p then 0 else if t > pp_end p then int (length (pp_breaks p)) - 2
     else int (GetRecursiveSegment (pp_breaks p) (clamp t (pp_start p) (pp_end p)) 0 (length (pp_breaks p) - 1)))"

definition segment_at :: "piecewise \<Rightarrow> real \<Rightarrow> (matrix \<times> real) throws" where
  "segment_at p t = (if pp_breaks p = [] then Inl out_of_range
     else let s = FindSegment p t in
       if s < 0 \<or> int (length (pp_coefficients p)) \<le> s then Inl out_of_range
       else let m = pp_coefficients p ! nat s in
         if mx_cols m = [] then Inl out_of_range
         else Inr (m, clamp t (pp_start p) (pp_end p) - pp_breaks p ! nat s))"

definition poly_value :: "matrix \<Rightarrow> real \<Rightarrow> vec" where
  "poly_value m t = foldl (\<lambda>acc i. vadd acc (vscale (t ^ i) (mx_cols m ! i))) (mx_cols m ! 0) [1..<length (mx_cols m)]"

definition Value :: "piecewise \<Rightarrow> real \<Rightarrow> vec throws" where
  "Value p t = bindE (segment_at p t) (\<lambda>(m, u). Inr (poly_value m u))"

definition poly_derivative :: "nat \<Rightarrow> matrix \<Rightarrow> real \<Rightarrow> vec" where
  "poly_derivative n m t = (if length (mx_cols m) = 1 then replicate n 0
     else foldl (\<lambda>acc i. vadd acc (vscale (of_nat i * t ^ (i - 1)) (mx_cols m ! i))) (mx_cols m ! 1) [2..<length (mx_cols m)])"

definition EvalDerivative :: "piecewise \<Rightarrow> real \<Rightarrow> vec throws" where
  "EvalDerivative p t = bindE (segment_at p t) (\<lambda>(m, u). Inr (poly_derivative (pp_dim p) m u))"

definition matrix_derivative :: "nat \<Rightarrow> matrix \<Rightarrow> matrix" where
  "matrix_derivative n m = (if length (mx_cols m) = 1 then \<lparr> mx_rows = n, mx_cols = [replicate n 0] \<rparr>
     else \<lparr> mx_rows = n, mx_cols = map (\<lambda>j. vscale (of_nat j) (mx_cols m ! j)) [1..<length (mx_cols m)] \<rparr>)"

definition Derivative :: "piecewise \<Rightarrow> piecewise throws" where
  "Derivative p = PiecewisePolynomial (map (matrix_derivative (pp_dim p)) (pp_coefficients p)) (pp_breaks p)"

section \<open>Cutting and joining\<close>

text \<open>\<open>int\<close> arithmetic: exact as long as no intermediate product exceeds 31 bits (\<open>binomial_coeff_fits\<close>).\<close>

definition BinomialCoeff :: "int \<Rightarrow> int \<Rightarrow> int" where
  "BinomialCoeff n k = (if k > n \<or> k < 0 then 0 else if k = 0 \<or> k = n then 1
     else foldl (\<lambda>result i. result * (n - i + 1) div i) 1 [1..k])"

definition ShiftPolynomialCoefficients :: "matrix \<Rightarrow> real \<Rightarrow> real \<Rightarrow> matrix" where
  "ShiftPolynomialCoefficients m old_base new_base = (let delta = new_base - old_base; n = length (mx_cols m) in
     m\<lparr> mx_cols := map (\<lambda>j. foldl (\<lambda>acc i. vadd acc (vscale (of_int (BinomialCoeff (int i) (int j)) * delta ^ (i - j)) (mx_cols m ! i)))
                         (replicate (mx_rows m) 0) [j..<n]) [0..<n] \<rparr>)"

text \<open>The pieces \<open>s\<close> to \<open>e\<close> with the first cut at \<open>a\<close> and the last ending at \<open>b\<close>.\<close>

definition cut_breaks :: "piecewise \<Rightarrow> nat \<Rightarrow> nat \<Rightarrow> real \<Rightarrow> real \<Rightarrow> real list" where
  "cut_breaks p s e a b = a # map ((!) (pp_breaks p)) [s + 1..<e + 1] @ [b]"

definition cut_coefficients :: "piecewise \<Rightarrow> nat \<Rightarrow> nat \<Rightarrow> real \<Rightarrow> matrix list" where
  "cut_coefficients p s e a = ShiftPolynomialCoefficients (pp_coefficients p ! s) (pp_breaks p ! s) a
     # map ((!) (pp_coefficients p)) [s + 1..<e + 1]"

definition SlicePiecewisePolynomial :: "(real \<Rightarrow> real) \<Rightarrow> piecewise \<Rightarrow> real \<Rightarrow> real \<Rightarrow> piecewise throws" where
  "SlicePiecewisePolynomial prev p a b =
     (if \<not> a < b \<or> \<not> a \<ge> pp_start p \<or> \<not> b \<le> pp_end p then Inl client_throw
      else let s = nat (FindSegment p a); e = nat (FindSegment p (prev b)) in
        PiecewisePolynomial (cut_coefficients p s e a) (cut_breaks p s e a b))"

definition MergePiecewisePolynomials :: "piecewise \<Rightarrow> piecewise \<Rightarrow> piecewise throws" where
  "MergePiecewisePolynomials l r =
     PiecewisePolynomial (pp_coefficients l @ pp_coefficients r) (pp_breaks l @ tl (pp_breaks r))"

section \<open>Messages\<close>

record piecewise_proto =
  pb_breaks :: "real list"
  pb_dim :: nat
  pb_coeffs :: "real list list"

definition matrix_row :: "matrix \<Rightarrow> nat \<Rightarrow> real list" where
  "matrix_row m j = map (\<lambda>c. c ! j) (mx_cols m)"

text \<open>The bound \<open>breaks_.size() - 1\<close> is of type \<open>size_t\<close>.\<close>

definition pp_ToProto :: "piecewise \<Rightarrow> piecewise_proto" where
  "pp_ToProto p = \<lparr> pb_breaks = pp_breaks p, pb_dim = pp_dim p,
     pb_coeffs = concat (map (\<lambda>i. map (matrix_row (pp_coefficients p ! i)) [0..<pp_dim p])
       [0..<unat (of_nat (length (pp_breaks p)) - 1 :: 64 word)]) \<rparr>"

definition matrix_of_rows :: "nat \<Rightarrow> real list list \<Rightarrow> matrix throws" where
  "matrix_of_rows n rows = (case rows of
     [] \<Rightarrow> Inl out_of_range
   | r # _ \<Rightarrow> if list_all (\<lambda>x. length x = length r) rows
       then Inr \<lparr> mx_rows = n, mx_cols = map (\<lambda>k. map (\<lambda>x. x ! k) rows) [0..<length r] \<rparr>
       else Inl ''Eigen: sizes differ'')"

definition pp_FromProto :: "piecewise_proto \<Rightarrow> piecewise throws" where
  "pp_FromProto msg =
     (if int (length (pb_coeffs msg)) \<noteq> (int (length (pb_breaks msg)) - 1) * int (pb_dim msg) then Inl client_throw
      else bindE (mapE (\<lambda>i. matrix_of_rows (pb_dim msg) (take (pb_dim msg) (drop (i * pb_dim msg) (pb_coeffs msg))))
                   [0..<length (pb_breaks msg) - 1]) (\<lambda>cs.
        Inr \<lparr> pp_coefficients = cs, pp_breaks = pb_breaks msg, pp_dim = pb_dim msg,
              pp_degree = foldl (\<lambda>d m. max d (matrix_degree m)) 0 cs \<rparr>))"

section \<open>Comparison\<close>

text \<open>Eigen's \<open>isApprox\<close> of two matrices is the argument \<open>approx\<close>.\<close>

definition IsCloseTo :: "(matrix \<Rightarrow> matrix \<Rightarrow> real \<Rightarrow> bool) \<Rightarrow> piecewise \<Rightarrow> piecewise \<Rightarrow> real \<Rightarrow> bool" where
  "IsCloseTo approx p r tol = (pp_dim p = pp_dim r \<and> pp_degree p = pp_degree r \<and> length (pp_breaks p) = length (pp_breaks r)
     \<and> list_all (\<lambda>(a, b). \<not> \<bar>a - b\<bar> > tol) (zip (pp_breaks p) (pp_breaks r))
     \<and> list_all (\<lambda>(a, b). approx a b tol) (zip (pp_coefficients p) (pp_coefficients r)))"

section \<open>Well-formed polynomials\<close>

definition mx_ok :: "nat \<Rightarrow> matrix \<Rightarrow> bool" where
  "mx_ok n m \<longleftrightarrow> mx_rows m = n \<and> mx_cols m \<noteq> [] \<and> (\<forall>c \<in> set (mx_cols m). length c = n)"

definition pp_ok :: "piecewise \<Rightarrow> bool" where
  "pp_ok p \<longleftrightarrow> pp_coefficients p \<noteq> [] \<and> length (pp_breaks p) = Suc (length (pp_coefficients p))
     \<and> sorted_wrt (<) (pp_breaks p) \<and> (\<forall>m \<in> set (pp_coefficients p). mx_ok (pp_dim p) m)
     \<and> pp_degree p = Max (matrix_degree ` set (pp_coefficients p))"

lemma increasing_iff: "increasing bs \<longleftrightarrow> sorted_wrt (<) bs"
proof -
  have "increasing bs \<longleftrightarrow> (\<forall>i. Suc i < length bs \<longrightarrow> bs ! i < bs ! Suc i)"
  proof
    assume "increasing bs"
    then have a: "\<forall>i. 1 \<le> i \<and> i < length bs \<longrightarrow> bs ! (i - 1) < bs ! i" by (simp add: increasing_def list_all_iff)
    show "\<forall>i. Suc i < length bs \<longrightarrow> bs ! i < bs ! Suc i"
    proof (intro allI impI)
      fix i assume "Suc i < length bs"
      then show "bs ! i < bs ! Suc i" using a [rule_format, of "Suc i"] by simp
    qed
  next
    assume a: "\<forall>i. Suc i < length bs \<longrightarrow> bs ! i < bs ! Suc i"
    have "bs ! (i - 1) < bs ! i" if "1 \<le> i" "i < length bs" for i
      using a [rule_format, of "i - 1"] that by simp
    then show "increasing bs" by (simp add: increasing_def list_all_iff)
  qed
  then show ?thesis by (simp add: sorted_wrt_iff_nth_Suc_transp)
qed

lemma foldl_max: "foldl (\<lambda>d m. max d (f m)) (d :: int) ms = Max (insert d (f ` set ms))"
proof (induction ms arbitrary: d)
  case (Cons m ms)
  have "Max (insert (max d (f m)) (f ` set ms)) = Max (insert d (insert (f m) (f ` set ms)))"
    by (cases "ms = []") (simp_all add: max.assoc)
  then show ?case by (simp add: Cons.IH)
qed simp

lemma PiecewisePolynomial_ok:
  assumes "cs \<noteq> []" "length bs = Suc (length cs)" "sorted_wrt (<) bs" "\<forall>m \<in> set cs. mx_ok n m"
  shows "\<exists>p. PiecewisePolynomial cs bs = Inr p \<and> pp_ok p \<and> pp_coefficients p = cs \<and> pp_breaks p = bs \<and> pp_dim p = n"
proof -
  obtain c rest where c: "cs = c # rest" using assms(1) by (cases cs) auto
  let ?p = "\<lparr> pp_coefficients = cs, pp_breaks = bs, pp_dim = n,
      pp_degree = foldl (\<lambda>d m. max d (matrix_degree m)) (matrix_degree c) rest \<rparr>"
  have "bs \<noteq> []" using assms(2) by auto
  then have "PiecewisePolynomial cs bs = Inr ?p"
    using assms(2-4) c by (auto simp: PiecewisePolynomial_def increasing_iff mx_ok_def list_all_iff)
  moreover have "pp_ok ?p" using assms c by (simp add: pp_ok_def foldl_max)
  ultimately show ?thesis by auto
qed

section \<open>One polynomial\<close>

lemma terms_fold:
  assumes "length acc = n" "\<forall>i \<in> set is. length (cs ! i) = n"
  shows "length (foldl (\<lambda>acc i. vadd acc (vscale (f i) (cs ! i))) acc is) = n \<and>
    (\<forall>k < n. foldl (\<lambda>acc i. vadd acc (vscale (f i) (cs ! i))) acc is ! k = acc ! k + (\<Sum>i \<leftarrow> is. f i * cs ! i ! k))"
  using assms
proof (induction "is" arbitrary: acc)
  case (Cons i "is")
  have "length (vadd acc (vscale (f i) (cs ! i))) = n" using Cons.prems by (simp add: vadd_def vscale_def)
  from Cons.IH [OF this] Cons.prems show ?case by (simp add: vadd_def vscale_def)
qed simp

lemma mx_okD:
  assumes "mx_ok n m"
  shows "mx_cols m \<noteq> []" "mx_rows m = n" "i < length (mx_cols m) \<Longrightarrow> length (mx_cols m ! i) = n"
  using assms by (auto simp: mx_ok_def)

lemma sum_from_1: "0 < n \<Longrightarrow> f 0 + (\<Sum>i \<leftarrow> [1..<n]. f i) = (\<Sum>i < n. f i)" for f :: "nat \<Rightarrow> real"
proof -
  assume "0 < n"
  then have "(\<Sum>i < n. f i) = f 0 + sum f {1..<n}"
    by (simp add: lessThan_atLeast0 sum.atLeast_Suc_lessThan)
  then show ?thesis by (simp add: interv_sum_list_conv_sum_set_nat)
qed

lemma poly_value_nth:
  assumes "mx_ok n m"
  shows "length (poly_value m t) = n"
    "k < n \<Longrightarrow> poly_value m t ! k = (\<Sum>i < length (mx_cols m). t ^ i * mx_cols m ! i ! k)"
proof -
  have "\<forall>i \<in> set [1..<length (mx_cols m)]. length (mx_cols m ! i) = n" "length (mx_cols m ! 0) = n"
    using mx_okD(1,3) [OF assms] by auto
  from terms_fold [OF this(2,1), of "\<lambda>i. t ^ i"]
  show "length (poly_value m t) = n"
    "k < n \<Longrightarrow> poly_value m t ! k = (\<Sum>i < length (mx_cols m). t ^ i * mx_cols m ! i ! k)"
    using sum_from_1 [of "length (mx_cols m)" "\<lambda>i. t ^ i * mx_cols m ! i ! k"] mx_okD(1) [OF assms]
    by (simp_all add: poly_value_def)
qed

text \<open>The loop of \<open>BinomialCoeff\<close> divides without a remainder.\<close>

lemma binomial_step: "k < n \<Longrightarrow> int (n choose k) * (int n - int k) = int (n choose Suc k) * int (Suc k)"
proof -
  assume k: "k < n"
  have "(n - k) * (n choose k) = Suc k * (n choose Suc k)"
    using binomial_absorb_comp [of n k] binomial_absorption [of k "n"] by simp
  then have "int ((n - k) * (n choose k)) = int (Suc k * (n choose Suc k))" by (simp only:)
  then show ?thesis using k by (simp add: of_nat_diff algebra_simps)
qed

lemma BinomialCoeff_loop:
  "k \<le> n \<Longrightarrow> foldl (\<lambda>result i. result * (int n - i + 1) div i) 1 [1..int k] = int (n choose k)"
proof (induction k)
  case (Suc k)
  have "[1..int (Suc k)] = [1..int k] @ [int (Suc k)]" using upto_rec2 [of 1 "int (Suc k)"] by simp
  moreover have "int (n choose k) * (int n - int (Suc k) + 1) div int (Suc k) = int (n choose Suc k)"
  proof -
    have "int (n choose k) * (int n - int (Suc k) + 1) = int (n choose Suc k) * int (Suc k)"
      using binomial_step [of k n] Suc.prems by simp
    then show ?thesis by (simp only:) simp
  qed
  ultimately show ?case using Suc by simp
qed simp

lemma BinomialCoeff_eq: "BinomialCoeff (int n) (int k) = int (n choose k)"
proof -
  consider "n < k" | "k = 0" | "k = n" | "0 < k" "k < n" by linarith
  then show ?thesis
    by cases (simp_all add: BinomialCoeff_def binomial_eq_0 BinomialCoeff_loop)
qed

text \<open>For polynomials of degree at most 29 no product of the loop exceeds a 32 bit \<open>int\<close>; for degree 30 one does.\<close>

lemma binomial_coeff_fits:
  assumes "n \<le> 29" "k < n"
  shows "int (n choose k) * (int n - int k) < 2 ^ 31"
proof -
  have mono: "m choose j \<le> m' choose j" if "m \<le> m'" for m m' j
    using that
  proof (induction rule: dec_induct)
    case (step i)
    have "i choose j \<le> Suc i choose j" by (cases j) simp_all
    with step show ?case by simp
  qed simp
  have 1: "int (n choose k) * (int n - int k) = int (n * (n - 1 choose k))"
  proof -
    have "int ((n - k) * (n choose k)) = int (n * (n - 1 choose k))" by (simp only: binomial_absorb_comp)
    then show ?thesis using assms(2) by (simp add: of_nat_diff mult.commute)
  qed
  have "n - 1 choose k \<le> 28 choose k" by (rule mono) (use assms in simp)
  also have "\<dots> \<le> 28 choose 14" using binomial_maximum' [of 14 k] by simp
  also have "(28 choose 14 :: nat) = 40116600" by (simp add: binomial_fact' fact_numeral)
  finally have "n * (n - 1 choose k) \<le> 29 * 40116600" using assms by (intro mult_mono) auto
  then have "int (n * (n - 1 choose k)) \<le> int 1163381400" by (intro of_nat_mono) simp
  then show ?thesis unfolding 1 by simp
qed

lemma binomial_coeff_overflows: "int (30 choose 15) * (int 30 - int 15) \<ge> 2 ^ 31"
  by (simp add: binomial_fact' fact_numeral)

lemma shift_value:
  assumes "mx_ok n m"
  shows "mx_ok n (ShiftPolynomialCoefficients m a b)" "poly_value (ShiftPolynomialCoefficients m a b) (t - b) = poly_value m (t - a)"
proof -
  let ?N = "length (mx_cols m)" and ?S = "ShiftPolynomialCoefficients m a b" and ?d = "b - a"
  let ?col = "\<lambda>j. foldl (\<lambda>acc i. vadd acc (vscale (of_int (BinomialCoeff (int i) (int j)) * ?d ^ (i - j)) (mx_cols m ! i)))
    (replicate (mx_rows m) 0) [j..<?N]"
  have S: "mx_rows ?S = n" "mx_cols ?S = map ?col [0..<?N]"
    using mx_okD(2) [OF assms] by (simp_all add: ShiftPolynomialCoefficients_def Let_def)
  have col: "length (?col j) = n \<and> (\<forall>k < n. ?col j ! k = (\<Sum>i = j..<?N. real (i choose j) * ?d ^ (i - j) * mx_cols m ! i ! k))" for j
  proof -
    have "length (replicate (mx_rows m) (0 :: real)) = n" "\<forall>i \<in> set [j..<?N]. length (mx_cols m ! i) = n"
      using mx_okD [OF assms] by auto
    from terms_fold [OF this, of "\<lambda>i. of_int (BinomialCoeff (int i) (int j)) * ?d ^ (i - j)"]
    show ?thesis using mx_okD(2) [OF assms] by (simp add: BinomialCoeff_eq interv_sum_list_conv_sum_set_nat)
  qed
  show ok: "mx_ok n ?S" using S col mx_okD(1) [OF assms] by (auto simp: mx_ok_def)
  show "poly_value ?S (t - b) = poly_value m (t - a)"
  proof (rule nth_equalityI)
    show "length (poly_value ?S (t - b)) = length (poly_value m (t - a))"
      using poly_value_nth(1) ok assms by simp
    fix k assume "k < length (poly_value ?S (t - b))"
    then have k: "k < n" using poly_value_nth(1) [OF ok] by simp
    let ?u = "t - b" and ?c = "\<lambda>i. mx_cols m ! i ! k"
    have "poly_value ?S ?u ! k = (\<Sum>j < ?N. ?u ^ j * (\<Sum>i = j..<?N. real (i choose j) * ?d ^ (i - j) * ?c i))"
      using poly_value_nth(2) [OF ok k] S(2) col k by simp
    also have "\<dots> = (\<Sum>j < ?N. \<Sum>i = j..<?N. real (i choose j) * ?u ^ j * ?d ^ (i - j) * ?c i)"
      by (simp add: sum_distrib_left algebra_simps)
    also have "\<dots> = (\<Sum>i < ?N. \<Sum>j \<le> i. real (i choose j) * ?u ^ j * ?d ^ (i - j) * ?c i)"
    proof -
      have "(\<Sum>j < ?N. \<Sum>i = j..<?N. f i j) = (\<Sum>i < ?N. \<Sum>j \<le> i. f i j)" for f :: "nat \<Rightarrow> nat \<Rightarrow> real"
        by (simp add: sum.Sigma) (rule sum.reindex_bij_witness [where i = "\<lambda>(i, j). (j, i)" and j = "\<lambda>(j, i). (i, j)"]; auto)
      then show ?thesis .
    qed
    also have "\<dots> = (\<Sum>i < ?N. (?u + ?d) ^ i * ?c i)"
      by (simp only: binomial_ring [of ?u ?d] sum_distrib_right)
    also have "\<dots> = poly_value m (t - a) ! k" using poly_value_nth(2) [OF assms k] by simp
    finally show "poly_value ?S ?u ! k = poly_value m (t - a) ! k" .
  qed
qed

section \<open>Segments\<close>

lemma breaks_less: "pp_ok p \<Longrightarrow> i < j \<Longrightarrow> j \<le> length (pp_coefficients p) \<Longrightarrow> pp_breaks p ! i < pp_breaks p ! j"
  by (rule sorted_wrt_nth_less) (auto simp: pp_ok_def)

lemma breaks_le: "pp_ok p \<Longrightarrow> i \<le> j \<Longrightarrow> j \<le> length (pp_coefficients p) \<Longrightarrow> pp_breaks p ! i \<le> pp_breaks p ! j"
  using breaks_less [of p i j] by (cases "i = j") auto

lemma pp_bounds:
  assumes "pp_ok p"
  shows "pp_start p = pp_breaks p ! 0" "pp_end p = pp_breaks p ! length (pp_coefficients p)" "0 < length (pp_coefficients p)"
    "pp_start p < pp_end p"
proof -
  have len: "length (pp_breaks p) = Suc (length (pp_coefficients p))" using assms by (simp add: pp_ok_def)
  then have "pp_breaks p \<noteq> []" by auto
  then show 1: "pp_start p = pp_breaks p ! 0" "pp_end p = pp_breaks p ! length (pp_coefficients p)"
    using len by (simp_all add: pp_start_def pp_end_def hd_conv_nth last_conv_nth)
  show 2: "0 < length (pp_coefficients p)" using assms by (simp add: pp_ok_def)
  show "pp_start p < pp_end p" unfolding 1 using breaks_less [OF assms 2] by simp
qed

text \<open>A time is in segment \<open>i\<close> from its start up to but without its end; the last segment includes its end, and the first and
  last take the times outside.\<close>

definition in_segment :: "piecewise \<Rightarrow> nat \<Rightarrow> real \<Rightarrow> bool" where
  "in_segment p i t \<longleftrightarrow> i < length (pp_coefficients p) \<and> (i = 0 \<or> pp_breaks p ! i \<le> t)
     \<and> (Suc i = length (pp_coefficients p) \<or> t < pp_breaks p ! Suc i)"

lemma in_segment_unique:
  assumes "pp_ok p" "in_segment p i t" "in_segment p j t"
  shows "i = j"
proof -
  have "\<not> i < j" if "in_segment p i t" "in_segment p j t" for i j
  proof
    assume "i < j"
    then have "pp_breaks p ! Suc i \<le> pp_breaks p ! j" using that by (intro breaks_le [OF assms(1)]) (auto simp: in_segment_def)
    then show False using that \<open>i < j\<close> by (auto simp: in_segment_def)
  qed
  from this [OF assms(2,3)] this [OF assms(3,2)] show ?thesis by simp
qed

lemma GetRecursiveSegment_ok:
  assumes "s < e" "bs ! s \<le> t" "t \<le> bs ! e"
  shows "s \<le> GetRecursiveSegment bs t s e \<and> GetRecursiveSegment bs t s e < e
    \<and> bs ! GetRecursiveSegment bs t s e \<le> t \<and> (t = bs ! GetRecursiveSegment bs t s e
      \<or> t < bs ! Suc (GetRecursiveSegment bs t s e) \<or> Suc (GetRecursiveSegment bs t s e) = e)"
  using assms
proof (induction bs t s e rule: GetRecursiveSegment.induct)
  case (1 bs t s e)
  let ?mid = "(s + e) div 2"
  show ?case
  proof (cases "e \<le> s + 1")
    case True
    then have "e = Suc s" using 1(3) by simp
    then show ?thesis using 1(4,5) by (simp add: GetRecursiveSegment.simps [of bs t s "Suc s"])
  next
    case False
    then have m: "s < ?mid" "?mid < e" by auto
    consider (lo) "t < bs ! ?mid" | (hi) "t > bs ! ?mid" | (at_mid) "t = bs ! ?mid" by linarith
    then show ?thesis
    proof cases
      case lo
      then have "GetRecursiveSegment bs t s e = GetRecursiveSegment bs t s ?mid"
        using False by (subst GetRecursiveSegment.simps) (simp add: Let_def)
      then show ?thesis using 1(1) [OF False refl lo m(1) 1(4)] lo m by auto
    next
      case hi
      then have e: "GetRecursiveSegment bs t s e = GetRecursiveSegment bs t ?mid e"
        using False by (subst GetRecursiveSegment.simps) (simp add: Let_def)
      have "\<not> t < bs ! ?mid" "bs ! ?mid \<le> t" using hi by simp_all
      from 1(2) [OF False refl this(1) hi m(2) this(2) 1(5)] show ?thesis unfolding e using m by auto
    next
      case at_mid
      then have "GetRecursiveSegment bs t s e = ?mid" using False by (subst GetRecursiveSegment.simps) (simp add: Let_def)
      then show ?thesis using at_mid m by simp
    qed
  qed
qed

lemma FindSegment_in:
  assumes "pp_ok p"
  shows "\<exists>i. FindSegment p t = int i \<and> in_segment p i t"
proof -
  let ?n = "length (pp_coefficients p)"
  note b = pp_bounds [OF assms]
  have len: "length (pp_breaks p) = Suc ?n" using assms by (simp add: pp_ok_def)
  consider "t < pp_start p" | "t > pp_end p" | "pp_start p \<le> t" "t \<le> pp_end p" by linarith
  then show ?thesis
  proof cases
    case 1
    moreover have "pp_breaks p ! 0 < pp_breaks p ! Suc 0" using b(3) by (intro breaks_less [OF assms]) (simp_all add: Suc_le_eq)
    ultimately have "t < pp_breaks p ! Suc 0" using b(1) by simp
    then have "in_segment p 0 t" using b(3) by (simp add: in_segment_def)
    then show ?thesis using 1 by (auto simp: FindSegment_def)
  next
    case 2
    then have "pp_breaks p ! (?n - 1) \<le> t" using b(2,3) breaks_le [OF assms, of "?n - 1" ?n] by simp
    then have "in_segment p (?n - 1) t" using b(3) by (simp add: in_segment_def)
    moreover have "int (?n - 1) = int ?n - 1" using b(3) by linarith
    then have "FindSegment p t = int (?n - 1)" using 2 b(4) len by (simp add: FindSegment_def)
    ultimately show ?thesis by metis
  next
    case 3
    let ?i = "GetRecursiveSegment (pp_breaks p) t 0 ?n"
    from GetRecursiveSegment_ok [of 0 ?n "pp_breaks p" t] 3 b have
      i: "?i < ?n" "pp_breaks p ! ?i \<le> t" "t = pp_breaks p ! ?i \<or> t < pp_breaks p ! Suc ?i \<or> Suc ?i = ?n" by auto
    have "pp_breaks p ! ?i < pp_breaks p ! Suc ?i" using i(1) by (intro breaks_less [OF assms]) auto
    then have "in_segment p ?i t" using i by (auto simp: in_segment_def)
    moreover have "FindSegment p t = int ?i" using 3 len by (simp add: FindSegment_def clamp_def)
    ultimately show ?thesis by blast
  qed
qed

lemma FindSegment_eq: "pp_ok p \<Longrightarrow> in_segment p i t \<Longrightarrow> FindSegment p t = int i"
  using FindSegment_in [of p t] in_segment_unique by blast

lemma segment_at_eq:
  assumes "pp_ok p" "in_segment p i t"
  shows "segment_at p t = Inr (pp_coefficients p ! i, clamp t (pp_start p) (pp_end p) - pp_breaks p ! i)"
proof -
  have "i < length (pp_coefficients p)" "pp_breaks p \<noteq> []" using assms by (auto simp: in_segment_def pp_ok_def)
  moreover then have "mx_cols (pp_coefficients p ! i) \<noteq> []" using assms(1) by (simp add: pp_ok_def mx_ok_def)
  ultimately show ?thesis using FindSegment_eq [OF assms] by (simp add: segment_at_def Let_def)
qed

lemma Value_eq:
  "pp_ok p \<Longrightarrow> in_segment p i t \<Longrightarrow>
     Value p t = Inr (poly_value (pp_coefficients p ! i) (clamp t (pp_start p) (pp_end p) - pp_breaks p ! i))"
  by (simp add: Value_def segment_at_eq)

lemma Value_total: "pp_ok p \<Longrightarrow> \<exists>v. Value p t = Inr v \<and> length v = pp_dim p"
proof -
  assume p: "pp_ok p"
  obtain i where i: "in_segment p i t" using FindSegment_in [OF p] by blast
  then have "mx_ok (pp_dim p) (pp_coefficients p ! i)" using p by (auto simp: pp_ok_def in_segment_def)
  then show ?thesis using Value_eq [OF p i] poly_value_nth(1) by simp
qed

lemma clamp_inside: "lo \<le> t \<Longrightarrow> t \<le> hi \<Longrightarrow> clamp t lo hi = t"
  by (simp add: clamp_def)

lemma Value_clamp:
  assumes "pp_ok p"
  shows "Value p (clamp t (pp_start p) (pp_end p)) = Value p t"
proof -
  let ?n = "length (pp_coefficients p)"
  note b = pp_bounds [OF assms]
  obtain i where i: "in_segment p i t" using FindSegment_in [OF assms] by blast
  have "in_segment p i (clamp t (pp_start p) (pp_end p))"
  proof -
    have "i = 0 \<or> pp_breaks p ! i \<le> clamp t (pp_start p) (pp_end p)"
      using i b breaks_le [OF assms, of i ?n] by (auto simp: in_segment_def clamp_def)
    moreover have "Suc i = ?n \<or> clamp t (pp_start p) (pp_end p) < pp_breaks p ! Suc i"
    proof (cases "Suc i = ?n")
      case False
      then have "pp_start p < pp_breaks p ! Suc i" using i b(1) breaks_less [OF assms, of 0 "Suc i"] by (simp add: in_segment_def)
      then show ?thesis using i False b(4) by (auto simp: in_segment_def clamp_def)
    qed simp
    ultimately show ?thesis using i by (simp add: in_segment_def)
  qed
  moreover have "clamp (clamp t (pp_start p) (pp_end p)) (pp_start p) (pp_end p) = clamp t (pp_start p) (pp_end p)"
    using b(4) by (simp add: clamp_def)
  ultimately show ?thesis using i by (simp add: Value_eq [OF assms])
qed

section \<open>Cutting\<close>

lemma cut_breaks_nth:
  assumes "s \<le> e"
  shows "length (cut_breaks p s e a b) = e - s + 2" "cut_breaks p s e a b ! 0 = a"
    "0 < j \<Longrightarrow> j \<le> e - s \<Longrightarrow> cut_breaks p s e a b ! j = pp_breaks p ! (s + j)"
    "cut_breaks p s e a b ! Suc (e - s) = b"
proof -
  show "length (cut_breaks p s e a b) = e - s + 2" "cut_breaks p s e a b ! 0 = a" "cut_breaks p s e a b ! Suc (e - s) = b"
    using assms by (simp_all add: cut_breaks_def nth_append del: upt_Suc)
  assume "0 < j" "j \<le> e - s"
  then obtain i where "j = Suc i" "i < e - s" by (cases j) auto
  then show "cut_breaks p s e a b ! j = pp_breaks p ! (s + j)" by (simp add: cut_breaks_def nth_append del: upt_Suc)
qed

lemma cut_coefficients_nth:
  assumes "s \<le> e"
  shows "length (cut_coefficients p s e a) = Suc (e - s)"
    "cut_coefficients p s e a ! 0 = ShiftPolynomialCoefficients (pp_coefficients p ! s) (pp_breaks p ! s) a"
    "0 < j \<Longrightarrow> j \<le> e - s \<Longrightarrow> cut_coefficients p s e a ! j = pp_coefficients p ! (s + j)"
  using assms by (simp_all add: cut_coefficients_def nth_Cons' del: upt_Suc)

lemma cut_value:
  assumes p: "pp_ok p" and s: "in_segment p s a" and e: "s \<le> e" "e < length (pp_coefficients p)"
    and a: "pp_start p \<le> a" "a < b" and b: "pp_breaks p ! e < b" "b \<le> pp_breaks p ! Suc e"
  shows "\<exists>q. PiecewisePolynomial (cut_coefficients p s e a) (cut_breaks p s e a b) = Inr q \<and> pp_ok q \<and> pp_dim q = pp_dim p
    \<and> pp_start q = a \<and> pp_end q = b \<and> (\<forall>t. a \<le> t \<and> (t < b \<or> b = pp_end p) \<longrightarrow> Value q t = Value p t)
    \<and> Value q b = Inr (poly_value (pp_coefficients p ! e) (b - pp_breaks p ! e))"
proof -
  let ?n = "length (pp_coefficients p)" and ?bs = "cut_breaks p s e a b" and ?cs = "cut_coefficients p s e a"
  note B = cut_breaks_nth [OF e(1), where p = p and a = a and b = b]
    and C = cut_coefficients_nth [OF e(1), where p = p and a = a]
  note bd = pp_bounds [OF p]
  have ok: "mx_ok (pp_dim p) (pp_coefficients p ! i)" if "i < ?n" for i using p that by (simp add: pp_ok_def)
  have up: "?bs ! j < ?bs ! Suc j" if "j \<le> e - s" for j
  proof (cases "j = e - s")
    case True
    then show ?thesis using B a(2) b(1) e(1) by (cases "j = 0") simp_all
  next
    case False
    then have j: "Suc j \<le> e - s" using that by simp
    have "pp_breaks p ! (s + j) < pp_breaks p ! (s + Suc j)" using e j by (intro breaks_less [OF p]) auto
    then show ?thesis using B(2,3) j s e by (cases "j = 0") (auto simp: in_segment_def)
  qed
  have "sorted_wrt (<) ?bs" using up B(1) by (simp add: sorted_wrt_iff_nth_Suc_transp)
  moreover have "\<forall>m \<in> set ?cs. mx_ok (pp_dim p) m"
  proof -
    have "mx_ok (pp_dim p) (?cs ! j)" if "j < length ?cs" for j
      using that C ok e shift_value(1) by (cases "j = 0") auto
    then show ?thesis by (simp add: all_set_conv_all_nth)
  qed
  moreover have "length ?bs = Suc (length ?cs)" "?cs \<noteq> []" using B(1) C(1) by auto
  ultimately obtain q where q: "PiecewisePolynomial ?cs ?bs = Inr q" "pp_ok q" "pp_coefficients q = ?cs" "pp_breaks q = ?bs"
      "pp_dim q = pp_dim p"
    using PiecewisePolynomial_ok [of ?cs ?bs "pp_dim p"] by blast
  have ends: "pp_start q = a" "pp_end q = b" using pp_bounds(1,2) [OF q(2)] q(3,4) B(2,4) C(1) by simp_all
  have "Value q t = Value p t" if t: "a \<le> t" "t < b \<or> b = pp_end p" for t
  proof -
    obtain i where i: "in_segment p i t" using FindSegment_in [OF p] by blast
    have si: "s \<le> i"
    proof (rule ccontr)
      assume "\<not> s \<le> i"
      then have "pp_breaks p ! Suc i \<le> pp_breaks p ! s" "t < pp_breaks p ! Suc i" "pp_breaks p ! s \<le> a"
        using i s breaks_le [OF p, of "Suc i" s] by (auto simp: in_segment_def)
      then show False using t(1) by simp
    qed
    have ie: "i \<le> e"
    proof (rule ccontr)
      assume "\<not> i \<le> e"
      then have ie: "Suc e \<le> i" "i < ?n" using i by (auto simp: in_segment_def)
      then have "pp_breaks p ! Suc e \<le> t" using i breaks_le [OF p, of "Suc e" i] by (simp add: in_segment_def)
      then have "b = pp_end p" using t(2) b(2) by simp
      moreover have "pp_breaks p ! Suc e < pp_breaks p ! ?n" using ie by (intro breaks_less [OF p]) auto
      ultimately show False using b(2) bd(2) by simp
    qed
    have c: "clamp t a b = clamp t (pp_start p) (pp_end p)"
      using t a b(2) e breaks_le [OF p, of "Suc e" ?n] bd(2) by (auto simp: clamp_def)
    have "in_segment q (i - s) t"
    proof -
      have "i - s = 0 \<or> ?bs ! (i - s) \<le> t" 
      proof (cases "i = s")
        case False
        then have "0 < i - s" "i - s \<le> e - s" "pp_breaks p ! i \<le> t" using si ie i by (auto simp: in_segment_def)
        then show ?thesis using B(3) [of "i - s"] si by simp
      qed simp
      moreover have "Suc (i - s) = length ?cs \<or> t < ?bs ! Suc (i - s)"
      proof (cases "i = e")
        case False
        then have "Suc (i - s) \<le> e - s" "Suc i < ?n" using si ie e(2) by auto
        then show ?thesis using B(3) [of "Suc (i - s)"] si i by (simp add: in_segment_def)
      qed (simp add: C(1))
      ultimately show ?thesis using C(1) ie si by (simp add: in_segment_def q(3,4))
    qed
    from Value_eq [OF q(2) this] have "Value q t = Inr (poly_value (?cs ! (i - s)) (clamp t (pp_start p) (pp_end p) - ?bs ! (i - s)))"
      by (simp add: ends c q(3,4))
    also have "poly_value (?cs ! (i - s)) (clamp t (pp_start p) (pp_end p) - ?bs ! (i - s))
      = poly_value (pp_coefficients p ! i) (clamp t (pp_start p) (pp_end p) - pp_breaks p ! i)"
    proof (cases "i = s")
      case True
      then show ?thesis using B(2) C(2) shift_value(2) [OF ok] e by simp
    next
      case False
      then show ?thesis using B(3) [of "i - s"] C(3) [of "i - s"] si ie by simp
    qed
    finally show ?thesis using Value_eq [OF p i] by simp
  qed
  moreover have "Value q b = Inr (poly_value (pp_coefficients p ! e) (b - pp_breaks p ! e))"
  proof -
    have "in_segment q (e - s) b"
      using C(1) B(2) B(3) [of "e - s"] b(1) a(2) e(1) by (cases "e = s") (auto simp: in_segment_def q(3,4))
    from Value_eq [OF q(2) this] have "Value q b = Inr (poly_value (?cs ! (e - s)) (b - ?bs ! (e - s)))"
      using a(2) by (simp add: ends q(3,4) clamp_def)
    also have "poly_value (?cs ! (e - s)) (b - ?bs ! (e - s)) = poly_value (pp_coefficients p ! e) (b - pp_breaks p ! e)"
    proof (cases "e = s")
      case True
      then show ?thesis using B(2) C(2) shift_value(2) [OF ok] e by simp
    next
      case False
      then show ?thesis using B(3) [of "e - s"] C(3) [of "e - s"] e(1) by simp
    qed
    finally show ?thesis .
  qed
  ultimately show ?thesis using q(1,2,5) ends by blast
qed

text \<open>What the client relies on from the next smaller double: it is smaller, and no break and no start of a slice lies in between.\<close>

definition previous_value :: "(real \<Rightarrow> real) \<Rightarrow> real \<Rightarrow> real set \<Rightarrow> bool" where
  "previous_value prev b xs \<longleftrightarrow> prev b < b \<and> (\<forall>x \<in> xs. x < b \<longrightarrow> x \<le> prev b)"

text \<open>Neighbouring polynomials meet at the break between them.\<close>

definition pp_continuous :: "piecewise \<Rightarrow> bool" where
  "pp_continuous p \<longleftrightarrow> (\<forall>i. Suc i < length (pp_coefficients p) \<longrightarrow>
     poly_value (pp_coefficients p ! i) (pp_breaks p ! Suc i - pp_breaks p ! i) = poly_value (pp_coefficients p ! Suc i) 0)"

lemma continuous_end:
  assumes "pp_ok p" "pp_continuous p" "e < length (pp_coefficients p)" "pp_breaks p ! e < b" "b \<le> pp_breaks p ! Suc e" "b \<le> pp_end p"
    "pp_start p \<le> b"
  shows "Value p b = Inr (poly_value (pp_coefficients p ! e) (b - pp_breaks p ! e))"
proof (cases "Suc e < length (pp_coefficients p) \<and> b = pp_breaks p ! Suc e")
  case True
  then have "in_segment p (Suc e) b"
    using breaks_less [OF assms(1), of "Suc e" "Suc (Suc e)"] by (auto simp: in_segment_def)
  from Value_eq [OF assms(1) this] show ?thesis
    using assms(2,6,7) True by (simp add: pp_continuous_def clamp_inside)
next
  case False
  then have "in_segment p e b" using assms(3,4,5) by (auto simp: in_segment_def)
  from Value_eq [OF assms(1) this] show ?thesis using assms(6,7) by (simp add: clamp_inside)
qed

text \<open>A slice is the polynomial it was cut from; at its end it continues its last segment.\<close>

lemma slice_ok:
  assumes "pp_ok p" "pp_start p \<le> a" "a < b" "b \<le> pp_end p" "previous_value prev b (insert a (set (pp_breaks p)))"
  shows "\<exists>q. SlicePiecewisePolynomial prev p a b = Inr q \<and> pp_ok q \<and> pp_dim q = pp_dim p \<and> pp_start q = a \<and> pp_end q = b
    \<and> (\<forall>t. a \<le> t \<and> (t < b \<or> b = pp_end p) \<longrightarrow> Value q t = Value p t) \<and> (pp_continuous p \<longrightarrow> Value q b = Value p b)"
proof -
  let ?n = "length (pp_coefficients p)"
  obtain s where s: "FindSegment p a = int s" "in_segment p s a" using FindSegment_in [OF assms(1)] by blast
  obtain e where e: "FindSegment p (prev b) = int e" "in_segment p e (prev b)" using FindSegment_in [OF assms(1)] by blast
  have prev: "prev b < b" "a \<le> prev b" "\<And>i. i \<le> ?n \<Longrightarrow> pp_breaks p ! i < b \<Longrightarrow> pp_breaks p ! i \<le> prev b"
    using assms(1,3,5) by (auto simp: previous_value_def pp_ok_def)
  have "s \<le> e"
  proof (rule ccontr)
    assume "\<not> s \<le> e"
    then have "pp_breaks p ! Suc e \<le> pp_breaks p ! s" "prev b < pp_breaks p ! Suc e" "pp_breaks p ! s \<le> a"
      using s(2) e(2) breaks_le [OF assms(1), of "Suc e" s] by (auto simp: in_segment_def)
    then show False using prev(2) by simp
  qed
  moreover have "e < ?n" using e(2) by (simp add: in_segment_def)
  moreover have "pp_breaks p ! e < b"
    using e(2) prev(1) pp_bounds(1) [OF assms(1)] assms(2,3) by (cases "e = 0") (auto simp: in_segment_def)
  moreover have "b \<le> pp_breaks p ! Suc e"
  proof (cases "Suc e = ?n")
    case True
    then show ?thesis using assms(4) pp_bounds(2) [OF assms(1)] by simp
  next
    case False
    then have "prev b < pp_breaks p ! Suc e" "Suc e \<le> ?n" using e(2) by (auto simp: in_segment_def)
    then show ?thesis using prev(3) [of "Suc e"] by linarith
  qed
  moreover note continuous_end [OF assms(1)]
  ultimately show ?thesis
    using cut_value [OF assms(1) s(2) _ _ assms(2,3), of e] assms(2-4) s(1) e(1) by (auto simp: SlicePiecewisePolynomial_def)
qed

section \<open>Derivatives\<close>

lemma poly_derivative_nth:
  assumes "mx_ok n m"
  shows "length (poly_derivative n m t) = n"
    "k < n \<Longrightarrow> poly_derivative n m t ! k = (\<Sum>i < length (mx_cols m). of_nat i * t ^ (i - 1) * mx_cols m ! i ! k)"
proof -
  let ?N = "length (mx_cols m)"
  have N: "?N = 1 \<or> 2 \<le> ?N" using mx_okD(1) [OF assms] by (cases "mx_cols m"; cases "tl (mx_cols m)") auto
  let ?g = "\<lambda>k i. of_nat i * t ^ (i - 1) * mx_cols m ! i ! k"
  have sum: "mx_cols m ! 1 ! k + (\<Sum>i \<leftarrow> [2..<?N]. ?g k i) = (\<Sum>i < ?N. ?g k i)" if "2 \<le> ?N" for k
  proof -
    have "0 < ?N" "1 < ?N" using that by linarith+
    then have "[0..<?N] = 0 # 1 # [2..<?N]" by (simp only: upt_conv_Cons numeral_2_eq_2 One_nat_def)
    then have "(\<Sum>i \<leftarrow> [0..<?N]. ?g k i) = mx_cols m ! 1 ! k + (\<Sum>i \<leftarrow> [2..<?N]. ?g k i)" by simp
    then show ?thesis by (simp add: interv_sum_list_conv_sum_set_nat atLeast0LessThan)
  qed
  have "\<forall>i \<in> set [2..<?N]. length (mx_cols m ! i) = n" "2 \<le> ?N \<Longrightarrow> length (mx_cols m ! 1) = n"
    using mx_okD(3) [OF assms] by auto
  note t = terms_fold [OF this(2,1), of "\<lambda>i. of_nat i * t ^ (i - 1)"]
  show "length (poly_derivative n m t) = n" using N t by (auto simp: poly_derivative_def)
  show "poly_derivative n m t ! k = (\<Sum>i < ?N. ?g k i)" if "k < n"
    using N t sum [of k] that by (auto simp: poly_derivative_def)
qed

lemma matrix_derivative_value:
  assumes "mx_ok n m"
  shows "mx_ok n (matrix_derivative n m)" "poly_value (matrix_derivative n m) t = poly_derivative n m t"
proof -
  let ?N = "length (mx_cols m)"
  show ok: "mx_ok n (matrix_derivative n m)"
  proof (cases "?N = 1")
    case False
    then have "2 \<le> ?N" using mx_okD(1) [OF assms] by (cases "mx_cols m"; cases "tl (mx_cols m)") auto
    moreover have "length (vscale (of_nat j) (mx_cols m ! j)) = n" if "j < ?N" for j
      using mx_okD(3) [OF assms that] by (simp add: vscale_def)
    ultimately show ?thesis using False mx_okD(1) [OF assms] by (auto simp: mx_ok_def matrix_derivative_def simp del: upt_Suc)
  qed (simp add: mx_ok_def matrix_derivative_def)
  show "poly_value (matrix_derivative n m) t = poly_derivative n m t"
  proof (rule nth_equalityI)
    show "length (poly_value (matrix_derivative n m) t) = length (poly_derivative n m t)"
      using poly_value_nth(1) [OF ok] poly_derivative_nth(1) [OF assms] by simp
    fix k assume "k < length (poly_value (matrix_derivative n m) t)"
    then have k: "k < n" using poly_value_nth(1) [OF ok] by simp
    have r: "poly_derivative n m t ! k = (\<Sum>i < ?N. of_nat i * t ^ (i - 1) * mx_cols m ! i ! k)"
      using poly_derivative_nth(2) [OF assms k] .
    show "poly_value (matrix_derivative n m) t ! k = poly_derivative n m t ! k"
    proof (cases "?N = 1")
      case True
      then show ?thesis unfolding poly_value_nth(2) [OF ok k] r using k by (simp add: matrix_derivative_def)
    next
      case False
      then have N: "0 < ?N" using mx_okD(1) [OF assms] by simp
      have c: "mx_cols (matrix_derivative n m) ! i ! k = of_nat (Suc i) * mx_cols m ! Suc i ! k" if "i < ?N - 1" for i
        using False that k mx_okD(3) [OF assms, of "Suc i"] by (simp add: matrix_derivative_def vscale_def del: upt_Suc)
      have "poly_value (matrix_derivative n m) t ! k = (\<Sum>i < ?N - 1. t ^ i * (of_nat (Suc i) * mx_cols m ! Suc i ! k))"
        unfolding poly_value_nth(2) [OF ok k] using False c by (intro sum.cong) (simp_all add: matrix_derivative_def)
      also have "\<dots> = (\<Sum>i < Suc (?N - 1). of_nat i * t ^ (i - 1) * mx_cols m ! i ! k)"
        by (subst sum.lessThan_Suc_shift) (simp add: algebra_simps)
      also have "Suc (?N - 1) = ?N" using N by simp
      finally show ?thesis unfolding r .
    qed
  qed
qed

lemma poly_value_DERIV:
  assumes "mx_ok n m" "k < n"
  shows "((\<lambda>x. poly_value m (x - b) ! k) has_real_derivative poly_derivative n m (t - b) ! k) (at t)"
  unfolding poly_value_nth(2) [OF assms] poly_derivative_nth(2) [OF assms]
  by (rule derivative_eq_intros refl | simp)+

lemma EvalDerivative_eq:
  "pp_ok p \<Longrightarrow> in_segment p i t \<Longrightarrow> EvalDerivative p t
     = Inr (poly_derivative (pp_dim p) (pp_coefficients p ! i) (clamp t (pp_start p) (pp_end p) - pp_breaks p ! i))"
  by (simp add: EvalDerivative_def segment_at_eq)

text \<open>C24: The derivative of a piecewise polynomial is one: \<open>Derivative\<close> succeeds, its value is what \<open>EvalDerivative\<close> computes at every
  time, and strictly between two breaks that is the derivative of every coordinate of the value.\<close>
theorem derivative_correct:
  assumes "pp_ok p"
  shows "\<exists>d. Derivative p = Inr d \<and> pp_ok d \<and> (\<forall>t. Value d t = EvalDerivative p t)
    \<and> (\<forall>i t k. i < length (pp_coefficients p) \<and> pp_breaks p ! i < t \<and> t < pp_breaks p ! Suc i \<and> k < pp_dim p \<longrightarrow>
        ((\<lambda>x. projr (Value p x) ! k) has_real_derivative projr (EvalDerivative p t) ! k) (at t))"
proof -
  let ?cs = "map (matrix_derivative (pp_dim p)) (pp_coefficients p)" and ?n = "length (pp_coefficients p)"
  have ok: "mx_ok (pp_dim p) (pp_coefficients p ! i)" if "i < ?n" for i using assms that by (simp add: pp_ok_def)
  have "?cs \<noteq> []" "length (pp_breaks p) = Suc (length ?cs)" "sorted_wrt (<) (pp_breaks p)" "\<forall>m \<in> set ?cs. mx_ok (pp_dim p) m"
    using assms matrix_derivative_value(1) by (auto simp: pp_ok_def)
  from PiecewisePolynomial_ok [OF this] obtain d where d: "Derivative p = Inr d" "pp_ok d" "pp_coefficients d = ?cs"
      "pp_breaks d = pp_breaks p" "pp_dim d = pp_dim p"
    by (auto simp: Derivative_def)
  have ends: "pp_start d = pp_start p" "pp_end d = pp_end p" by (simp_all add: pp_start_def pp_end_def d(4))
  have "Value d t = EvalDerivative p t" for t
  proof -
    obtain i where i: "in_segment p i t" using FindSegment_in [OF assms] by blast
    then have "in_segment d i t" "i < ?n" by (simp_all add: in_segment_def d(3,4))
    then show ?thesis
      using matrix_derivative_value(2) [OF ok] by (simp add: Value_eq [OF d(2)] EvalDerivative_eq [OF assms i] d(3,4) ends)
  qed
  moreover have "((\<lambda>x. projr (Value p x) ! k) has_real_derivative projr (EvalDerivative p t) ! k) (at t)"
    if t: "i < ?n" "pp_breaks p ! i < t" "t < pp_breaks p ! Suc i" "k < pp_dim p" for i t k
  proof -
    have in_i: "in_segment p i x \<and> clamp x (pp_start p) (pp_end p) = x" if "x \<in> {pp_breaks p ! i<..<pp_breaks p ! Suc i}" for x
    proof -
      have "pp_start p \<le> pp_breaks p ! i" "pp_breaks p ! Suc i \<le> pp_end p"
        using t(1) pp_bounds [OF assms] breaks_le [OF assms, of 0 i] breaks_le [OF assms, of "Suc i" ?n] by auto
      then show ?thesis using that t(1) by (auto simp: in_segment_def clamp_def)
    qed
    have der: "((\<lambda>x. poly_value (pp_coefficients p ! i) (x - pp_breaks p ! i) ! k) has_real_derivative
        poly_derivative (pp_dim p) (pp_coefficients p ! i) (t - pp_breaks p ! i) ! k) (at t)"
      by (rule poly_value_DERIV [OF ok [OF t(1)] t(4)])
    have same: "projr (Value p x) ! k = poly_value (pp_coefficients p ! i) (x - pp_breaks p ! i) ! k"
      if "x \<in> {pp_breaks p ! i<..<pp_breaks p ! Suc i}" for x
      using in_i [OF that] Value_eq [OF assms, of i x] by simp
    from der have "((\<lambda>x. projr (Value p x) ! k) has_real_derivative
        poly_derivative (pp_dim p) (pp_coefficients p ! i) (t - pp_breaks p ! i) ! k) (at t)"
      by (rule has_field_derivative_transform_within_open [where S = "{pp_breaks p ! i<..<pp_breaks p ! Suc i}"])
        (use t(2,3) same in auto)
    then show ?thesis using in_i [of t] t EvalDerivative_eq [OF assms, of i t] by simp
  qed
  ultimately show ?thesis using d(1,2) by blast
qed

section \<open>Shifting and joining\<close>

lemma shift_time_ok:
  assumes "pp_ok p"
  shows "pp_ok (pp_ShiftTime d p)" "pp_start (pp_ShiftTime d p) = pp_start p + d" "pp_end (pp_ShiftTime d p) = pp_end p + d"
    "Value (pp_ShiftTime d p) t = Value p (t - d)"
proof -
  let ?q = "pp_ShiftTime d p"
  show ok: "pp_ok ?q" using assms by (simp add: pp_ok_def pp_ShiftTime_def sorted_wrt_map)
  have ne: "pp_breaks p \<noteq> []" using assms by (auto simp: pp_ok_def)
  then show ends: "pp_start ?q = pp_start p + d" "pp_end ?q = pp_end p + d"
    by (simp_all add: pp_start_def pp_end_def pp_ShiftTime_def hd_map last_map)
  obtain i where i: "in_segment p i (t - d)" using FindSegment_in [OF assms] by blast
  have len: "length (pp_breaks p) = Suc (length (pp_coefficients p))" using assms by (simp add: pp_ok_def)
  have "in_segment ?q i t" using i len by (auto simp: in_segment_def pp_ShiftTime_def)
  moreover have "clamp t (pp_start p + d) (pp_end p + d) = clamp (t - d) (pp_start p) (pp_end p) + d" by (auto simp: clamp_def)
  ultimately show "Value ?q t = Value p (t - d)"
    using i len by (simp add: Value_eq [OF ok] Value_eq [OF assms] ends) (simp add: pp_ShiftTime_def in_segment_def)
qed

lemma join_value:
  assumes l: "pp_ok l" and r: "pp_ok r" and meet: "pp_end l = pp_start r" "pp_dim l = pp_dim r"
  shows "\<exists>q. MergePiecewisePolynomials l r = Inr q \<and> pp_ok q \<and> pp_dim q = pp_dim l \<and> pp_start q = pp_start l \<and> pp_end q = pp_end r
    \<and> (\<forall>t. Value q t = (if t < pp_end l then Value l t else Value r t))"
proof -
  let ?L = "length (pp_coefficients l)" and ?R = "length (pp_coefficients r)"
  let ?bs = "pp_breaks l @ tl (pp_breaks r)" and ?cs = "pp_coefficients l @ pp_coefficients r"
  have len: "length (pp_breaks l) = Suc ?L" "length (pp_breaks r) = Suc ?R" using l r by (simp_all add: pp_ok_def)
  have bl: "?bs ! i = pp_breaks l ! i" if "i \<le> ?L" for i using that len by (simp add: nth_append)
  have br: "?bs ! (?L + i) = pp_breaks r ! i" if "i \<le> ?R" for i
    using that len meet(1) pp_bounds(1) [OF r] pp_bounds(2) [OF l] by (cases i) (simp_all add: nth_append nth_tl)
  have up: "?bs ! j < ?bs ! Suc j" if "j < ?L + ?R" for j
  proof (cases "j < ?L")
    case True
    then show ?thesis using bl [of j] bl [of "Suc j"] breaks_less [OF l, of j "Suc j"] by simp
  next
    case False
    then have "j - ?L < ?R" "j = ?L + (j - ?L)" using that by auto
    then show ?thesis using br [of "j - ?L"] br [of "Suc (j - ?L)"] breaks_less [OF r, of "j - ?L" "Suc (j - ?L)"] by simp
  qed
  have "?cs \<noteq> []" "length ?bs = Suc (length ?cs)" "\<forall>m \<in> set ?cs. mx_ok (pp_dim l) m"
    using l r len meet(2) by (auto simp: pp_ok_def)
  moreover have "sorted_wrt (<) ?bs" using up len by (simp add: sorted_wrt_iff_nth_Suc_transp)
  ultimately obtain q where q: "MergePiecewisePolynomials l r = Inr q" "pp_ok q" "pp_coefficients q = ?cs" "pp_breaks q = ?bs"
      "pp_dim q = pp_dim l"
    using PiecewisePolynomial_ok [of ?cs ?bs "pp_dim l"] by (auto simp: MergePiecewisePolynomials_def)
  have ends: "pp_start q = pp_start l" "pp_end q = pp_end r"
    using pp_bounds(1,2) [OF q(2)] pp_bounds(1) [OF l] pp_bounds(2) [OF r] bl [of 0] br [of ?R] q(3,4) by simp_all
  have val: "Value q t = (if t < pp_end l then Value l t else Value r t)" for t
  proof (cases "t < pp_end l")
    case True
    obtain i where i: "in_segment l i t" using FindSegment_in [OF l] by blast
    then have "Suc i \<le> ?L" by (simp add: in_segment_def)
    then have "in_segment q i t" using i True bl [of i] bl [of "Suc i"] pp_bounds(2) [OF l]
      by (cases "Suc i = ?L") (auto simp: in_segment_def q(3,4))
    moreover have "clamp t (pp_start l) (pp_end r) = clamp t (pp_start l) (pp_end l)"
      using True meet(1) pp_bounds(4) [OF r] by (auto simp: clamp_def)
    ultimately show ?thesis
      using True i bl [of i] by (simp add: Value_eq [OF q(2)] Value_eq [OF l] ends q(3,4)) (simp add: in_segment_def nth_append)
  next
    case False
    obtain i where i: "in_segment r i t" using FindSegment_in [OF r] by blast
    then have iR: "i < ?R" by (simp add: in_segment_def)
    have "pp_breaks r ! i \<le> t" using i False meet(1) pp_bounds(1) [OF r] by (cases "i = 0") (auto simp: in_segment_def)
    then have "in_segment q (?L + i) t" using i iR br [of i] br [of "Suc i"] by (auto simp: in_segment_def q(3,4))
    moreover have "clamp t (pp_start l) (pp_end r) = clamp t (pp_start r) (pp_end r)"
      using False meet(1) pp_bounds(4) [OF l] by (auto simp: clamp_def)
    ultimately show ?thesis
      using False i iR br [of i] by (simp add: Value_eq [OF q(2)] Value_eq [OF r] ends q(3,4))
  qed
  then show ?thesis using q(1,2,5) ends by blast
qed

section \<open>Messages\<close>

lemma take_drop_concat:
  assumes "i < length xss" "\<forall>xs \<in> set xss. length xs = n"
  shows "take n (drop (i * n) (concat xss)) = xss ! i"
  using assms
proof (induction xss arbitrary: i)
  case (Cons xs xss)
  then show ?case by (cases i) simp_all
qed simp

lemma matrix_rows_roundtrip:
  assumes "mx_ok n m" "0 < n"
  shows "matrix_of_rows n (map (matrix_row m) [0..<n]) = Inr m"
proof -
  have rows: "map (matrix_row m) [0..<n] = matrix_row m 0 # map (matrix_row m) [1..<n]"
    using assms(2) by (simp add: upt_conv_Cons)
  have "map (\<lambda>k. map (\<lambda>x. x ! k) (map (matrix_row m) [0..<n])) [0..<length (matrix_row m 0)] = mx_cols m"
  proof (rule nth_equalityI)
    fix k assume "k < length (map (\<lambda>k. map (\<lambda>x. x ! k) (map (matrix_row m) [0..<n])) [0..<length (matrix_row m 0)])"
    then have k: "k < length (mx_cols m)" by (simp add: matrix_row_def)
    then show "map (\<lambda>k. map (\<lambda>x. x ! k) (map (matrix_row m) [0..<n])) [0..<length (matrix_row m 0)] ! k = mx_cols m ! k"
      using mx_okD(3) [OF assms(1) k] by (simp add: matrix_row_def) (rule nth_equalityI; simp add: matrix_row_def)
  qed (simp add: matrix_row_def)
  moreover have "list_all (\<lambda>x. length x = length (matrix_row m 0)) (map (matrix_row m) [0..<n])"
    by (simp add: list_all_iff matrix_row_def)
  ultimately show ?thesis using mx_okD(2) [OF assms(1)] unfolding matrix_of_rows_def rows by simp
qed

lemma pp_roundtrip:
  assumes "pp_ok p" "0 < pp_dim p" "length (pp_breaks p) < 2 ^ 64"
  shows "pp_FromProto (pp_ToProto p) = Inr p"
proof -
  let ?n = "length (pp_coefficients p)" and ?d = "pp_dim p"
  have len: "length (pp_breaks p) = Suc ?n" using assms(1) by (simp add: pp_ok_def)
  have ok: "mx_ok ?d (pp_coefficients p ! i)" if "i < ?n" for i using assms(1) that by (simp add: pp_ok_def)
  have count: "unat (of_nat (length (pp_breaks p)) - 1 :: 64 word) = ?n"
    using assms(3) len by (simp add: unat_of_nat)
  let ?xss = "map (\<lambda>i. map (matrix_row (pp_coefficients p ! i)) [0..<?d]) [0..<?n]"
  have msg: "pp_ToProto p = \<lparr> pb_breaks = pp_breaks p, pb_dim = ?d, pb_coeffs = concat ?xss \<rparr>"
    by (simp add: pp_ToProto_def count)
  have all: "length (concat ?xss) = ?n * ?d" by (simp add: length_concat comp_def sum_list_triv)
  have "matrix_of_rows ?d (take ?d (drop (i * ?d) (concat ?xss))) = Inr (pp_coefficients p ! i)" if "i < ?n" for i
    using take_drop_concat [of i ?xss ?d] matrix_rows_roundtrip [OF ok [OF that] assms(2)] that by simp
  then have "mapE (\<lambda>i. matrix_of_rows ?d (take ?d (drop (i * ?d) (concat ?xss)))) [0..<?n] = Inr (map ((!) (pp_coefficients p)) [0..<?n])"
    by (intro mapE_total) simp
  moreover have "foldl (\<lambda>d m. max d (matrix_degree m)) 0 (pp_coefficients p) = pp_degree p"
  proof -
    have "0 \<le> matrix_degree m" if "m \<in> set (pp_coefficients p)" for m
      using assms(1) that by (auto simp: pp_ok_def mx_ok_def matrix_degree_def Suc_le_eq)
    moreover have "pp_coefficients p \<noteq> []" using assms(1) by (simp add: pp_ok_def)
    ultimately have "0 \<le> Max (matrix_degree ` set (pp_coefficients p))" by (auto simp: Max_ge_iff neq_Nil_conv)
    then show ?thesis using \<open>pp_coefficients p \<noteq> []\<close> assms(1) by (simp add: foldl_max pp_ok_def)
  qed
  ultimately show ?thesis using all len by (simp add: msg pp_FromProto_def map_nth)
qed

text \<open>A polynomial of at least one dimension survives the message: reading what \<open>ToProtoImpl\<close> wrote gives it back, with its
  degree.\<close>
theorem proto_roundtrip:
  assumes "pp_ok p" "0 < pp_dim p" "length (pp_breaks p) < 2 ^ 64"
  shows "pp_FromProto (pp_ToProto p) = Inr p"
  by (rule pp_roundtrip [OF assms])

text \<open>The loop over the segments of a polynomial without breaks, as the default constructor makes it, runs \<open>2 ^ 64 - 1\<close> times.\<close>

lemma empty_proto_iterations: "unat (of_nat 0 - 1 :: 64 word) = 2 ^ 64 - 1"
  by (simp add: unsigned_minus_1_eq_mask mask_eq_exp_minus_1)

section \<open>Witnesses\<close>

definition sample_matrices :: "matrix list" where
  "sample_matrices = [\<lparr> mx_rows = 1, mx_cols = [[0], [1]] \<rparr>, \<lparr> mx_rows = 1, mx_cols = [[1], [2]] \<rparr>]"

definition sample_pp :: piecewise where
  "sample_pp = \<lparr> pp_coefficients = sample_matrices, pp_breaks = [0, 1, 2], pp_dim = 1, pp_degree = 1 \<rparr>"

lemma sample_pp_ok: "pp_ok sample_pp"
  by (simp add: pp_ok_def sample_pp_def sample_matrices_def mx_ok_def matrix_degree_def)

lemma sample_pp_ends: "pp_start sample_pp = 0" "pp_end sample_pp = 2" "pp_dim sample_pp = 1" "pp_breaks sample_pp = [0, 1, 2]"
  by (simp_all add: sample_pp_def pp_start_def pp_end_def)

theorem derivative_correct_witness:
  "\<exists>d. Derivative sample_pp = Inr d \<and> Value d (1 / 2) = EvalDerivative sample_pp (1 / 2)"
  using derivative_correct [OF sample_pp_ok] by blast

theorem proto_roundtrip_witness: "pp_FromProto (pp_ToProto sample_pp) = Inr sample_pp"
  by (rule proto_roundtrip) (simp_all add: sample_pp_ok sample_pp_ends)

end
