(* ===== verification/Timed_Trajectories.thy ===== *)
theory Timed_Trajectories
  imports Piecewise_Polynomials
begin

text \<open>
  \<open>client/client/cpp/planning_service_client/trajectories.h\<close>, \<open>.cc\<close>, class \<open>TimedTrajectory\<close>: a path over a parameter
  \<open>s\<close> with a time scaling \<open>s (t)\<close> and an offset between local and global time.  The default constructor leaves the
  offset undefined and is not modelled.  Messages of exceptions are shortened.
\<close>

record timed =
  tt_path :: piecewise
  tt_scaling :: piecewise
  tt_offset :: real

definition IsApprox :: "real \<Rightarrow> real \<Rightarrow> real \<Rightarrow> bool" where "IsApprox a b tol = (\<bar>a - b\<bar> < tol)"

definition front :: "vec \<Rightarrow> real throws" where "front v = (case v of [] \<Rightarrow> Inl out_of_range | x # _ \<Rightarrow> Inr x)"

text \<open>The value of the time scaling.\<close>

definition s_of :: "piecewise \<Rightarrow> real \<Rightarrow> real throws" where "s_of sc t = bindE (Value sc t) front"

definition TimedTrajectory :: "piecewise \<Rightarrow> piecewise \<Rightarrow> real \<Rightarrow> timed throws" where
  "TimedTrajectory path sc offset =
     (if pp_dim sc \<noteq> 1 then Inl ''Time scaling must be a scalar trajectory.''
      else bindE (s_of sc (pp_start sc)) (\<lambda>s0.
        if \<not> IsApprox (pp_start path) s0 (1 / 10 ^ 6) then Inl ''Path start must match time scaling start''
        else bindE (s_of sc (pp_end sc)) (\<lambda>s1.
          if \<not> IsApprox (pp_end path) s1 (1 / 10 ^ 6) then Inl ''Path end must match time scaling end''
          else Inr \<lparr> tt_path = path, tt_scaling = sc, tt_offset = offset \<rparr>)))"

definition start_time :: "timed \<Rightarrow> real" where "start_time T = pp_start (tt_scaling T)"
definition end_time :: "timed \<Rightarrow> real" where "end_time T = pp_end (tt_scaling T)"
definition global_start_time :: "timed \<Rightarrow> real" where "global_start_time T = pp_start (tt_scaling T) + tt_offset T"
definition global_end_time :: "timed \<Rightarrow> real" where "global_end_time T = pp_end (tt_scaling T) + tt_offset T"

definition tt_Value :: "timed \<Rightarrow> real \<Rightarrow> vec throws" where
  "tt_Value T t = bindE (s_of (tt_scaling T) t) (Value (tt_path T))"

definition tt_EvalDerivative :: "timed \<Rightarrow> real \<Rightarrow> vec throws" where
  "tt_EvalDerivative T t = bindE (s_of (tt_scaling T) t) (\<lambda>s. bindE (bindE (EvalDerivative (tt_scaling T) t) front) (\<lambda>ds.
     bindE (EvalDerivative (tt_path T) s) (\<lambda>v. Inr (vscale ds v))))"

definition GlobalValue :: "timed \<Rightarrow> real \<Rightarrow> vec throws" where "GlobalValue T t = tt_Value T (t - tt_offset T)"

definition EvalGlobalDerivative :: "timed \<Rightarrow> real \<Rightarrow> vec throws" where
  "EvalGlobalDerivative T t = tt_EvalDerivative T (t - tt_offset T)"

definition tt_ShiftTime :: "real \<Rightarrow> timed \<Rightarrow> timed" where
  "tt_ShiftTime d T = T\<lparr> tt_scaling := pp_ShiftTime d (tt_scaling T) \<rparr>"

definition SetGlobalTimeOffset :: "real \<Rightarrow> timed \<Rightarrow> timed" where "SetGlobalTimeOffset d T = T\<lparr> tt_offset := d \<rparr>"
definition ShiftGlobalTimeOffset :: "real \<Rightarrow> timed \<Rightarrow> timed" where "ShiftGlobalTimeOffset d T = T\<lparr> tt_offset := tt_offset T + d \<rparr>"

definition tt_Constant :: "vec \<Rightarrow> real \<Rightarrow> real \<Rightarrow> timed throws" where
  "tt_Constant conf t0 t1 = bindE (pp_Constant conf t0 t1) (\<lambda>path.
     bindE (PiecewisePolynomial [\<lparr> mx_rows = 1, mx_cols = [[t0], [1]] \<rparr>] [t0, t1]) (\<lambda>sc.
       TimedTrajectory path sc 0))"

definition ConstantSystemTimedTrajectory :: "(string \<times> vec) list \<Rightarrow> real \<Rightarrow> real \<Rightarrow> (string \<times> timed) list throws" where
  "ConstantSystemTimedTrajectory conf t0 t1 = mapE (\<lambda>(k, q). bindE (tt_Constant q t0 t1) (\<lambda>T. Inr (k, T))) conf"

section \<open>Messages\<close>

record timed_proto =
  tp_path :: piecewise_proto
  tp_scaling :: piecewise_proto
  tp_offset :: real

definition tt_ToProto :: "timed \<Rightarrow> timed_proto" where
  "tt_ToProto T = \<lparr> tp_path = pp_ToProto (tt_path T), tp_scaling = pp_ToProto (tt_scaling T), tp_offset = tt_offset T \<rparr>"

definition tt_FromProto :: "timed_proto \<Rightarrow> timed throws" where
  "tt_FromProto msg = bindE (pp_FromProto (tp_path msg)) (\<lambda>p. bindE (pp_FromProto (tp_scaling msg)) (\<lambda>sc.
     Inr \<lparr> tt_path = p, tt_scaling = sc, tt_offset = tp_offset msg \<rparr>))"

section \<open>Slices and merges\<close>

definition clamp_duration :: real where "clamp_duration = 1 / 10 ^ 3"

text \<open>Everything of \<open>p\<close> from \<open>a\<close> on: the loops of \<open>SliceFromTime\<close> over the remaining breaks and coefficients.\<close>

definition cut_from :: "piecewise \<Rightarrow> real \<Rightarrow> piecewise throws" where
  "cut_from p a = (let s = nat (FindSegment p a) in
     PiecewisePolynomial (ShiftPolynomialCoefficients (pp_coefficients p ! s) (pp_breaks p ! s) a # drop (s + 1) (pp_coefficients p))
       (a # drop (s + 1) (pp_breaks p)))"

definition SliceFromTime :: "timed \<Rightarrow> real \<Rightarrow> bool \<Rightarrow> timed throws" where
  "SliceFromTime T t clamp_end =
     (if t < start_time T then Inl ''Cannot slice trajectory before its start time.''
      else if t \<ge> end_time T then
        (if clamp_end then bindE (tt_Value T (end_time T)) (\<lambda>v. tt_Constant v (end_time T) (end_time T + clamp_duration))
         else Inl ''Cannot slice trajectory after its end time.'')
      else bindE (s_of (tt_scaling T) t) (\<lambda>s.
        bindE (cut_from (tt_scaling T) t) (\<lambda>sc. bindE (cut_from (tt_path T) s) (\<lambda>path.
          TimedTrajectory path sc (tt_offset T)))))"

definition Slice :: "(real \<Rightarrow> real) \<Rightarrow> timed \<Rightarrow> real \<Rightarrow> real \<Rightarrow> timed throws" where
  "Slice prev T t1 t2 =
     (if t1 > t2 then Inl ''Slice start time must be less than or equal to end time.''
      else let t2 = (if t2 - t1 < clamp_duration then t1 + clamp_duration else t2) in
        if t1 > end_time T then bindE (tt_Value T (end_time T)) (\<lambda>v. tt_Constant v t1 t2)
        else let ts = clamp t1 (start_time T) (end_time T); te = clamp t2 (start_time T) (end_time T) in
          if ts \<ge> te then Inl ''Slice start time must be before end time after clamping.''
          else bindE (s_of (tt_scaling T) ts) (\<lambda>s1. bindE (s_of (tt_scaling T) te) (\<lambda>s2.
            if s1 \<ge> s2 then Inl ''Slice requires monotonically increasing time scaling''
            else bindE (SlicePiecewisePolynomial prev (tt_scaling T) ts te) (\<lambda>sc.
              bindE (SlicePiecewisePolynomial prev (tt_path T) s1 s2) (\<lambda>path.
                TimedTrajectory path sc (tt_offset T))))))"

definition vnorm :: "vec \<Rightarrow> real" where "vnorm v = sqrt (\<Sum>x \<leftarrow> v. x\<^sup>2)"
definition vminus :: "vec \<Rightarrow> vec \<Rightarrow> vec" where "vminus = map2 (-)"

definition add_first :: "real \<Rightarrow> matrix \<Rightarrow> matrix" where
  "add_first d m = m\<lparr> mx_cols := (case mx_cols m of [] \<Rightarrow> [] | c # cs \<Rightarrow> (c[0 := c ! 0 + d]) # cs) \<rparr>"

definition check_continuity :: "timed \<Rightarrow> timed \<Rightarrow> bool \<Rightarrow> bool \<Rightarrow> real \<Rightarrow> unit throws" where
  "check_continuity T1 T2 pos vel tol =
     (if \<not> pos \<and> \<not> vel then Inr ()
      else bindE (tt_Value T1 (end_time T1)) (\<lambda>p1. bindE (tt_Value T2 (start_time T2)) (\<lambda>p2.
        if pos \<and> vnorm (vminus p1 p2) > tol then Inl ''Cannot merge trajectories: position discontinuity at merge point.''
        else if \<not> vel then Inr ()
        else bindE (tt_EvalDerivative T1 (end_time T1)) (\<lambda>v1. bindE (tt_EvalDerivative T2 (start_time T2)) (\<lambda>v2.
          if vnorm (vminus v1 v2) > tol then Inl ''Cannot merge trajectories: velocity discontinuity at merge point.''
          else Inr ())))))"

definition shift_scaling :: "real \<Rightarrow> real \<Rightarrow> piecewise \<Rightarrow> piecewise throws" where
  "shift_scaling t_shift s_shift sc = (let shifted = pp_ShiftTime t_shift sc in
     PiecewisePolynomial (map (add_first s_shift) (pp_coefficients shifted)) (pp_breaks shifted))"

definition Merge :: "timed \<Rightarrow> timed \<Rightarrow> bool \<Rightarrow> bool \<Rightarrow> real \<Rightarrow> timed throws" where
  "Merge T1 T2 pos vel tol =
     (if pp_dim (tt_path T1) \<noteq> pp_dim (tt_path T2) then Inl client_throw
      else bindE (check_continuity T1 T2 pos vel tol) (\<lambda>_.
        let s_shift = pp_end (tt_path T1) - pp_start (tt_path T2); t_shift = end_time T1 - start_time T2;
            path2 = pp_ShiftTime s_shift (tt_path T2)
        in bindE (shift_scaling t_shift s_shift (tt_scaling T2)) (\<lambda>sc2.
          bindE (MergePiecewisePolynomials (tt_path T1) path2) (\<lambda>path.
            bindE (MergePiecewisePolynomials (tt_scaling T1) sc2) (\<lambda>sc.
              TimedTrajectory path sc (tt_offset T1))))))"

section \<open>Well-formed trajectories\<close>

definition tt_ok :: "timed \<Rightarrow> bool" where
  "tt_ok T \<longleftrightarrow> pp_ok (tt_path T) \<and> pp_ok (tt_scaling T)
     \<and> TimedTrajectory (tt_path T) (tt_scaling T) (tt_offset T) = Inr T"

definition s_at :: "piecewise \<Rightarrow> real \<Rightarrow> real" where "s_at sc t = projr (s_of sc t)"

lemma s_of_eq: "pp_ok sc \<Longrightarrow> pp_dim sc = 1 \<Longrightarrow> s_of sc t = Inr (s_at sc t)"
proof -
  assume "pp_ok sc" "pp_dim sc = 1"
  then obtain v where "Value sc t = Inr v" "length v = 1" using Value_total [of sc t] by auto
  then show ?thesis by (cases v) (simp_all add: s_at_def s_of_def front_def)
qed

lemma s_at_cong: "Value sc t = Value sc' t' \<Longrightarrow> s_at sc t = s_at sc' t'"
  by (simp add: s_at_def s_of_def)

lemma TimedTrajectory_iff:
  assumes "pp_ok sc"
  shows "TimedTrajectory path sc d = Inr T \<longleftrightarrow> pp_dim sc = 1 \<and> \<bar>pp_start path - s_at sc (pp_start sc)\<bar> < 1 / 10 ^ 6
    \<and> \<bar>pp_end path - s_at sc (pp_end sc)\<bar> < 1 / 10 ^ 6 \<and> T = \<lparr> tt_path = path, tt_scaling = sc, tt_offset = d \<rparr>"
  using s_of_eq [OF assms] by (auto simp: TimedTrajectory_def IsApprox_def bindE_Inr_iff split: if_splits)

lemma tt_okD:
  assumes "tt_ok T"
  shows "pp_ok (tt_path T)" "pp_ok (tt_scaling T)" "pp_dim (tt_scaling T) = 1"
    "\<bar>pp_start (tt_path T) - s_at (tt_scaling T) (start_time T)\<bar> < 1 / 10 ^ 6"
    "\<bar>pp_end (tt_path T) - s_at (tt_scaling T) (end_time T)\<bar> < 1 / 10 ^ 6"
  using assms by (auto simp: tt_ok_def TimedTrajectory_iff start_time_def end_time_def)

lemma tt_Value_eq: "tt_ok T \<Longrightarrow> tt_Value T t = Value (tt_path T) (s_at (tt_scaling T) t)"
  using tt_okD(2,3) by (simp add: tt_Value_def s_of_eq)

text \<open>What \<open>TimedTrajectory\<close> makes of well-formed parts that meet.\<close>

lemma TimedTrajectory_ok:
  assumes "pp_ok path" "pp_ok sc" "pp_dim sc = 1"
    "\<bar>pp_start path - s_at sc (pp_start sc)\<bar> < 1 / 10 ^ 6" "\<bar>pp_end path - s_at sc (pp_end sc)\<bar> < 1 / 10 ^ 6"
  shows "\<exists>T. TimedTrajectory path sc d = Inr T \<and> tt_ok T \<and> tt_path T = path \<and> tt_scaling T = sc \<and> tt_offset T = d"
  using assms by (simp add: TimedTrajectory_iff tt_ok_def)

section \<open>Slices from a time on\<close>

lemma drop_nth_map: "map ((!) xs) [k..<length xs] = drop k xs"
  by (rule nth_equalityI) simp_all

lemma cut_from_eq:
  assumes "pp_ok p" "in_segment p s a"
  shows "cut_from p a = PiecewisePolynomial (cut_coefficients p s (length (pp_coefficients p) - 1) a)
    (cut_breaks p s (length (pp_coefficients p) - 1) a (pp_end p))"
proof -
  let ?n = "length (pp_coefficients p)"
  have s: "s < ?n" using assms(2) by (simp add: in_segment_def)
  have len: "length (pp_breaks p) = Suc ?n" using assms(1) by (simp add: pp_ok_def)
  have br: "map ((!) (pp_breaks p)) [s + 1..<?n] @ [pp_end p] = drop (s + 1) (pp_breaks p)"
    using drop_nth_map [of "pp_breaks p" "s + 1"] len s pp_bounds(2) [OF assms(1)] by simp
  have n: "?n - 1 + 1 = ?n" using s by simp
  show ?thesis
    by (simp only: cut_from_def Let_def cut_coefficients_def cut_breaks_def n FindSegment_eq [OF assms] nat_int br drop_nth_map)
qed

lemma cut_from_ok:
  assumes "pp_ok p" "pp_start p \<le> a" "a < pp_end p"
  shows "\<exists>q. cut_from p a = Inr q \<and> pp_ok q \<and> pp_dim q = pp_dim p \<and> pp_start q = a \<and> pp_end q = pp_end p
    \<and> (\<forall>t \<ge> a. Value q t = Value p t)"
proof -
  let ?n = "length (pp_coefficients p)"
  note b = pp_bounds [OF assms(1)]
  obtain s where s: "in_segment p s a" using FindSegment_in [OF assms(1)] by blast
  have n: "s \<le> ?n - 1" "?n - 1 < ?n" "Suc (?n - 1) = ?n" using s by (auto simp: in_segment_def)
  have "pp_breaks p ! (?n - 1) < pp_end p" unfolding b(2) by (rule breaks_less [OF assms(1)]) (use n in auto)
  from cut_value [OF assms(1) s n(1,2) assms(2,3) this] show ?thesis
    using b(2) n(3) cut_from_eq [OF assms(1) s] by auto
qed

text \<open>A slice from a time on is the rest of the trajectory.  When the time is inside and the path has not ended there, the slice is
  made; it starts at that time, keeps the end and the offset to global time, and has the same value at every later time whose path
  parameter is not before the one at the cut.\<close>
theorem slice_from_time:
  assumes "tt_ok T" "start_time T \<le> t" "t < end_time T"
    "pp_start (tt_path T) \<le> s_at (tt_scaling T) t" "s_at (tt_scaling T) t < pp_end (tt_path T)"
  shows "\<exists>S. SliceFromTime T t c = Inr S \<and> tt_ok S \<and> start_time S = t \<and> end_time S = end_time T \<and> tt_offset S = tt_offset T
    \<and> (\<forall>u \<ge> t. s_at (tt_scaling T) t \<le> s_at (tt_scaling T) u \<longrightarrow> tt_Value S u = tt_Value T u)"
proof -
  let ?s = "s_at (tt_scaling T)"
  note ok = tt_okD [OF assms(1)]
  obtain sc where sc: "cut_from (tt_scaling T) t = Inr sc" "pp_ok sc" "pp_dim sc = 1" "pp_start sc = t" "pp_end sc = end_time T"
      "\<forall>u \<ge> t. Value sc u = Value (tt_scaling T) u"
    using cut_from_ok [OF ok(2)] assms(2,3) ok(3) by (auto simp: start_time_def end_time_def)
  obtain path where path: "cut_from (tt_path T) (?s t) = Inr path" "pp_ok path" "pp_start path = ?s t" "pp_end path = pp_end (tt_path T)"
      "\<forall>u \<ge> ?s t. Value path u = Value (tt_path T) u"
    using cut_from_ok [OF ok(1) assms(4,5)] by auto
  have same: "s_at sc u = ?s u" if "t \<le> u" for u using sc(6) that by (intro s_at_cong) simp
  have "\<bar>pp_end (tt_path T) - s_at sc (end_time T)\<bar> < 1 / 10 ^ 6" using ok(5) same [of "end_time T"] assms(3) by simp
  then obtain S where S: "TimedTrajectory path sc (tt_offset T) = Inr S" "tt_ok S" "tt_path S = path" "tt_scaling S = sc"
      "tt_offset S = tt_offset T"
    using TimedTrajectory_ok [OF path(2) sc(2,3), where d = "tt_offset T"] path(3,4) sc(4,5) same [of t] by auto
  have "SliceFromTime T t c = Inr S"
    using assms(2,3) sc(1) path(1) S(1) s_of_eq [OF ok(2,3)] by (simp add: SliceFromTime_def)
  moreover have "tt_Value S u = tt_Value T u" if "t \<le> u" "?s t \<le> ?s u" for u
    using that same path(5) by (simp add: tt_Value_eq [OF S(2)] tt_Value_eq [OF assms(1)] S(3,4))
  ultimately show ?thesis using S(2,5) by (auto simp: start_time_def end_time_def S(4) sc(4,5))
qed

section \<open>Slices between two times\<close>

text \<open>A slice between two inner times at least \<open>kDefaultSliceClampDuration\<close> apart, with a continuous time scaling, is the
  trajectory between them.\<close>
theorem slice_between:
  assumes "tt_ok T" "start_time T \<le> t1" "t1 + clamp_duration \<le> t2" "t2 \<le> end_time T" "pp_continuous (tt_scaling T)"
    "pp_start (tt_path T) \<le> s_at (tt_scaling T) t1" "s_at (tt_scaling T) t1 < s_at (tt_scaling T) t2"
    "s_at (tt_scaling T) t2 \<le> pp_end (tt_path T)"
    "previous_value prev t2 (insert t1 (set (pp_breaks (tt_scaling T))))"
    "previous_value prev (s_at (tt_scaling T) t2) (insert (s_at (tt_scaling T) t1) (set (pp_breaks (tt_path T))))"
  shows "\<exists>S. Slice prev T t1 t2 = Inr S \<and> tt_ok S \<and> start_time S = t1 \<and> end_time S = t2 \<and> tt_offset S = tt_offset T
    \<and> (\<forall>u. t1 \<le> u \<and> u < t2 \<and> s_at (tt_scaling T) t1 \<le> s_at (tt_scaling T) u \<and> s_at (tt_scaling T) u < s_at (tt_scaling T) t2
         \<longrightarrow> tt_Value S u = tt_Value T u)"
proof -
  let ?s = "s_at (tt_scaling T)"
  note ok = tt_okD [OF assms(1)]
  have lt: "t1 < t2" using assms(3) by (simp add: clamp_duration_def)
  obtain sc where sc: "SlicePiecewisePolynomial prev (tt_scaling T) t1 t2 = Inr sc" "pp_ok sc" "pp_dim sc = 1" "pp_start sc = t1" "pp_end sc = t2"
      "\<forall>u. t1 \<le> u \<and> u < t2 \<longrightarrow> Value sc u = Value (tt_scaling T) u" "Value sc t2 = Value (tt_scaling T) t2"
    using slice_ok [OF ok(2) _ lt _ assms(9)] assms(2,4,5) ok(3) by (auto simp: start_time_def end_time_def)
  obtain path where path: "SlicePiecewisePolynomial prev (tt_path T) (?s t1) (?s t2) = Inr path" "pp_ok path" "pp_start path = ?s t1"
      "pp_end path = ?s t2" "\<forall>u. ?s t1 \<le> u \<and> u < ?s t2 \<longrightarrow> Value path u = Value (tt_path T) u"
    using slice_ok [OF ok(1) assms(6-8,10)] by auto
  have same: "s_at sc u = ?s u" if "t1 \<le> u" "u \<le> t2" for u
    using sc(6,7) that by (intro s_at_cong) (cases "u = t2"; simp)
  obtain S where S: "TimedTrajectory path sc (tt_offset T) = Inr S" "tt_ok S" "tt_path S = path" "tt_scaling S = sc" "tt_offset S = tt_offset T"
    using TimedTrajectory_ok [OF path(2) sc(2,3), where d = "tt_offset T"] path(3,4) sc(4,5) same [of t1] same [of t2] lt by auto
  have "clamp t1 (start_time T) (end_time T) = t1" "clamp t2 (start_time T) (end_time T) = t2"
    using assms(2,4) lt by (simp_all add: clamp_def)
  moreover have "\<not> t2 - t1 < clamp_duration" "\<not> t1 > end_time T" using assms(3,4) lt by auto
  ultimately have "Slice prev T t1 t2 = Inr S"
    using lt sc(1) path(1) S(1) s_of_eq [OF ok(2,3)] assms(7) by (simp add: Slice_def Let_def)
  moreover have "tt_Value S u = tt_Value T u" if "t1 \<le> u" "u < t2" "?s t1 \<le> ?s u" "?s u < ?s t2" for u
    using that same path(5) by (simp add: tt_Value_eq [OF S(2)] tt_Value_eq [OF assms(1)] S(3,4))
  ultimately show ?thesis using S(2,5) by (auto simp: start_time_def end_time_def S(4) sc(4,5))
qed

text \<open>A slice past the end loses the offset to global time: clamped to the end it is the constant end value, but its offset is zero, so its
  global start is not the global end of the trajectory it continues.\<close>
theorem late_slice_loses_offset:
  assumes "tt_ok T" "end_time T \<le> t"
  shows "\<exists>S. SliceFromTime T t True = Inr S \<and> start_time S = end_time T \<and> tt_offset S = 0
    \<and> global_start_time S = global_end_time T - tt_offset T"
proof -
  note ok = tt_okD [OF assms(1)]
  obtain v where v: "Value (tt_path T) (s_at (tt_scaling T) (end_time T)) = Inr v" using Value_total [OF ok(1)] by blast
  let ?e = "end_time T" and ?f = "end_time T + clamp_duration"
  have lt: "?e < ?f" by (simp add: clamp_duration_def)
  obtain p where p: "pp_Constant v ?e ?f = Inr p" "pp_ok p" "pp_breaks p = [?e, ?f]"
    using PiecewisePolynomial_ok [of "[\<lparr> mx_rows = length v, mx_cols = [v] \<rparr>]" "[?e, ?f]" "length v"] lt
    by (auto simp: pp_Constant_def mx_ok_def)
  obtain sc where sc: "PiecewisePolynomial [\<lparr> mx_rows = 1, mx_cols = [[?e], [1]] \<rparr>] [?e, ?f] = Inr sc" "pp_ok sc" "pp_breaks sc = [?e, ?f]"
      "pp_coefficients sc = [\<lparr> mx_rows = 1, mx_cols = [[?e], [1]] \<rparr>]" "pp_dim sc = 1"
    using PiecewisePolynomial_ok [of "[\<lparr> mx_rows = 1, mx_cols = [[?e], [1]] \<rparr>]" "[?e, ?f]" 1] lt by (auto simp: mx_ok_def)
  have ends: "pp_start sc = ?e" "pp_end sc = ?f" "pp_start p = ?e" "pp_end p = ?f"
    by (simp_all add: pp_start_def pp_end_def p(3) sc(3))
  have "s_at sc u = u" if "?e \<le> u" "u \<le> ?f" for u
  proof -
    have "in_segment sc 0 u" by (simp add: in_segment_def sc(4))
    from Value_eq [OF sc(2) this] show ?thesis
      using that by (simp add: s_at_def s_of_def front_def sc(3,4) ends clamp_inside poly_value_def vadd_def vscale_def)
  qed
  from this [of ?e] this [of ?f] lt obtain S where "TimedTrajectory p sc 0 = Inr S" "tt_scaling S = sc" "tt_offset S = 0"
    using TimedTrajectory_ok [OF p(2) sc(2,5), of 0] by (auto simp: ends)
  then have "SliceFromTime T t True = Inr S \<and> start_time S = ?e \<and> tt_offset S = 0"
    using assms(2) v p(1) sc(1) pp_bounds(4) [OF ok(2)]
    by (simp add: SliceFromTime_def tt_Value_eq [OF assms(1)] tt_Constant_def start_time_def end_time_def ends)
  then show ?thesis by (auto simp: global_start_time_def global_end_time_def start_time_def end_time_def)
qed

section \<open>Merges\<close>

lemma add_first_ok:
  assumes "mx_ok 1 m"
  shows "mx_ok 1 (add_first d m)" "poly_value (add_first d m) u ! 0 = poly_value m u ! 0 + d"
proof -
  obtain c cs where c: "mx_cols m = c # cs" using assms by (cases "mx_cols m") (auto simp: mx_ok_def)
  show ok: "mx_ok 1 (add_first d m)" using assms by (auto simp: mx_ok_def add_first_def c)
  have "(\<Sum>i < length (mx_cols (add_first d m)). u ^ i * mx_cols (add_first d m) ! i ! 0)
      = (\<Sum>i < Suc (length cs). u ^ i * (if i = 0 then c ! 0 + d else mx_cols m ! i ! 0))"
  proof (rule sum.cong)
    fix i assume "i \<in> {..<Suc (length cs)}"
    then show "u ^ i * mx_cols (add_first d m) ! i ! 0 = u ^ i * (if i = 0 then c ! 0 + d else mx_cols m ! i ! 0)"
      using assms by (cases i) (auto simp: add_first_def c mx_ok_def)
  qed (simp add: add_first_def c)
  also have "\<dots> = (\<Sum>i < length (mx_cols m). u ^ i * mx_cols m ! i ! 0) + d"
  proof -
    have "length (mx_cols m) = Suc (length cs)" by (simp add: c)
    then show ?thesis by (simp only: sum.lessThan_Suc_shift) (simp add: c)
  qed
  finally show "poly_value (add_first d m) u ! 0 = poly_value m u ! 0 + d"
    using poly_value_nth(2) [OF ok, of 0] poly_value_nth(2) [OF assms, of 0] by simp
qed

lemma shift_scaling_ok:
  assumes "pp_ok sc" "pp_dim sc = 1"
  shows "\<exists>q. shift_scaling d e sc = Inr q \<and> pp_ok q \<and> pp_dim q = 1 \<and> pp_start q = pp_start sc + d \<and> pp_end q = pp_end sc + d
    \<and> (\<forall>u. s_at q u = s_at sc (u - d) + e)"
proof -
  let ?sh = "pp_ShiftTime d sc"
  note sh = shift_time_ok [OF assms(1), of d]
  have cs: "pp_coefficients ?sh = pp_coefficients sc" "pp_dim ?sh = 1" using assms(2) by (simp_all add: pp_ShiftTime_def)
  have m1: "mx_ok 1 m" if "m \<in> set (pp_coefficients sc)" for m using assms that by (simp add: pp_ok_def)
  have "map (add_first e) (pp_coefficients ?sh) \<noteq> []" "length (pp_breaks ?sh) = Suc (length (map (add_first e) (pp_coefficients ?sh)))"
      "sorted_wrt (<) (pp_breaks ?sh)" "\<forall>m \<in> set (map (add_first e) (pp_coefficients ?sh)). mx_ok 1 m"
    using sh(1) add_first_ok(1) m1 cs(1) by (auto simp: pp_ok_def)
  from PiecewisePolynomial_ok [OF this] obtain q where q: "shift_scaling d e sc = Inr q" "pp_ok q"
      "pp_coefficients q = map (add_first e) (pp_coefficients sc)" "pp_breaks q = pp_breaks ?sh" "pp_dim q = 1"
    by (auto simp: shift_scaling_def Let_def cs(1))
  have ends: "pp_start q = pp_start ?sh" "pp_end q = pp_end ?sh" by (simp_all add: pp_start_def pp_end_def q(4))
  have "s_at q u = s_at sc (u - d) + e" for u
  proof -
    obtain i where i: "in_segment ?sh i u" using FindSegment_in [OF sh(1)] by blast
    then have iq: "in_segment q i u" "i < length (pp_coefficients sc)" by (simp_all add: in_segment_def q(3,4) cs(1))
    let ?m = "pp_coefficients sc ! i" and ?w = "clamp u (pp_start ?sh) (pp_end ?sh) - pp_breaks ?sh ! i"
    have ok: "mx_ok 1 ?m" using m1 iq(2) by simp
    have v: "poly_value (add_first e ?m) ?w = [poly_value ?m ?w ! 0 + e]" "poly_value ?m ?w = [poly_value ?m ?w ! 0]"
      using poly_value_nth(1) [OF add_first_ok(1) [OF ok]] poly_value_nth(1) [OF ok] add_first_ok(2) [OF ok]
      by (auto simp: list_eq_iff_nth_eq)
    have "Value q u = Inr [poly_value ?m ?w ! 0 + e]"
      using Value_eq [OF q(2) iq(1)] iq(2) v(1) by (simp add: q(3,4) ends)
    moreover have "Value sc (u - d) = Inr [poly_value ?m ?w ! 0]"
      using Value_eq [OF sh(1) i] sh(4) v(2) by (simp add: cs(1))
    ultimately show ?thesis by (simp add: s_at_def s_of_def front_def)
  qed
  then show ?thesis using q(1,2,5) ends sh(2,3) by auto
qed

text \<open>C25: A merge is one trajectory after the other.  Trajectories of the same dimension that pass the checks of continuity are merged; the
  result starts with the first, lasts as long as both, and has the values of the first before its end and of the second, moved behind
  it, from there on, wherever the path parameter does not leave the path it belongs to.\<close>
theorem merge_concatenates:
  assumes "tt_ok T1" "tt_ok T2" "pp_dim (tt_path T1) = pp_dim (tt_path T2)" "check_continuity T1 T2 pos vel tol = Inr ()"
  shows "\<exists>M. Merge T1 T2 pos vel tol = Inr M \<and> tt_ok M \<and> start_time M = start_time T1 \<and> tt_offset M = tt_offset T1
    \<and> end_time M = end_time T1 + (end_time T2 - start_time T2)
    \<and> (\<forall>u < end_time T1. s_at (tt_scaling T1) u < pp_end (tt_path T1) \<longrightarrow> tt_Value M u = tt_Value T1 u)
    \<and> (\<forall>u \<ge> end_time T1. pp_start (tt_path T2) \<le> s_at (tt_scaling T2) (u - (end_time T1 - start_time T2)) \<longrightarrow>
         tt_Value M u = tt_Value T2 (u - (end_time T1 - start_time T2)))"
proof -
  let ?d = "end_time T1 - start_time T2" and ?e = "pp_end (tt_path T1) - pp_start (tt_path T2)"
  let ?s1 = "s_at (tt_scaling T1)" and ?s2 = "s_at (tt_scaling T2)"
  note ok1 = tt_okD [OF assms(1)] and ok2 = tt_okD [OF assms(2)]
  obtain sc2 where sc2: "shift_scaling ?d ?e (tt_scaling T2) = Inr sc2" "pp_ok sc2" "pp_dim sc2 = 1" "pp_start sc2 = end_time T1"
      "pp_end sc2 = end_time T2 + ?d" "\<And>u. s_at sc2 u = ?s2 (u - ?d) + ?e"
    using shift_scaling_ok [OF ok2(2,3), of ?d ?e] by (auto simp: start_time_def end_time_def)
  note sh = shift_time_ok [OF ok2(1), of ?e]
  obtain path where path: "MergePiecewisePolynomials (tt_path T1) (pp_ShiftTime ?e (tt_path T2)) = Inr path" "pp_ok path"
      "pp_start path = pp_start (tt_path T1)" "pp_end path = pp_end (tt_path T2) + ?e"
      "\<And>u. Value path u = (if u < pp_end (tt_path T1) then Value (tt_path T1) u else Value (tt_path T2) (u - ?e))"
    using join_value [OF ok1(1) sh(1)] sh(2-4) assms(3) by (auto simp: pp_ShiftTime_def)
  obtain sc where sc: "MergePiecewisePolynomials (tt_scaling T1) sc2 = Inr sc" "pp_ok sc" "pp_dim sc = 1" "pp_start sc = start_time T1"
      "pp_end sc = end_time T2 + ?d" "\<And>u. Value sc u = (if u < end_time T1 then Value (tt_scaling T1) u else Value sc2 u)"
    using join_value [OF ok1(2) sc2(2)] sc2(3-5) ok1(3) by (auto simp: start_time_def end_time_def)
  have s: "s_at sc u = (if u < end_time T1 then ?s1 u else ?s2 (u - ?d) + ?e)" for u
    using s_at_cong [of sc u "tt_scaling T1" u] s_at_cong [of sc u sc2 u] sc(6) [of u] sc2(6) [of u] by auto
  have lt: "start_time T1 < end_time T1" "start_time T2 < end_time T2"
    using pp_bounds(4) [OF ok1(2)] pp_bounds(4) [OF ok2(2)] by (simp_all add: start_time_def end_time_def)
  have "\<bar>pp_start path - s_at sc (pp_start sc)\<bar> < 1 / 10 ^ 6" using ok1(4) lt(1) by (simp add: path(3) sc(4) s)
  moreover have "\<bar>pp_end path - s_at sc (pp_end sc)\<bar> < 1 / 10 ^ 6" using ok2(5) lt(2) by (simp add: path(4) sc(5) s)
  ultimately obtain M where M: "TimedTrajectory path sc (tt_offset T1) = Inr M" "tt_ok M" "tt_path M = path" "tt_scaling M = sc"
      "tt_offset M = tt_offset T1"
    using TimedTrajectory_ok [OF path(2) sc(2,3), of "tt_offset T1"] by blast
  have "Merge T1 T2 pos vel tol = Inr M"
    using assms(3,4) sc2(1) path(1) sc(1) M(1) by (simp add: Merge_def Let_def)
  moreover have "start_time M = start_time T1" "end_time M = end_time T1 + (end_time T2 - start_time T2)"
    using sc(4,5) by (simp_all add: M(4) start_time_def [of M] end_time_def [of M])
  moreover have "tt_Value M u = tt_Value T1 u" if "u < end_time T1" "?s1 u < pp_end (tt_path T1)" for u
    using that by (simp add: tt_Value_eq [OF M(2)] tt_Value_eq [OF assms(1)] M(3,4) s path(5))
  moreover have "tt_Value M u = tt_Value T2 (u - ?d)" if "u \<ge> end_time T1" "pp_start (tt_path T2) \<le> ?s2 (u - ?d)" for u
    using that by (simp add: tt_Value_eq [OF M(2)] tt_Value_eq [OF assms(2)] M(3,4) s path(5))
  ultimately show ?thesis using M(2,5) by blast
qed

section \<open>Messages\<close>

lemma pp_roundtrip_timed:
  assumes "tt_ok T" "0 < pp_dim (tt_path T)" "length (pp_breaks (tt_path T)) < 2 ^ 64" "length (pp_breaks (tt_scaling T)) < 2 ^ 64"
  shows "tt_FromProto (tt_ToProto T) = Inr T"
  using pp_roundtrip [OF tt_okD(1) [OF assms(1)] assms(2,3)] pp_roundtrip [OF tt_okD(2) [OF assms(1)] _ assms(4)] tt_okD(3) [OF assms(1)]
  by (simp add: tt_FromProto_def tt_ToProto_def)

section \<open>Witnesses\<close>

text \<open>The identity on a straight path.\<close>

definition sample_line :: piecewise where
  "sample_line = \<lparr> pp_coefficients = [\<lparr> mx_rows = 1, mx_cols = [[0], [1]] \<rparr>], pp_breaks = [0, 2], pp_dim = 1, pp_degree = 1 \<rparr>"

definition sample_timed :: "real \<Rightarrow> timed" where
  "sample_timed d = \<lparr> tt_path = sample_line, tt_scaling = sample_line, tt_offset = d \<rparr>"

lemma sample_line_ok: "pp_ok sample_line" "pp_dim sample_line = 1" "pp_start sample_line = 0" "pp_end sample_line = 2"
  "pp_breaks sample_line = [0, 2]" "pp_continuous sample_line"
  by (simp_all add: pp_ok_def sample_line_def mx_ok_def matrix_degree_def pp_start_def pp_end_def pp_continuous_def)

lemma sample_line_value: "0 \<le> u \<Longrightarrow> u \<le> 2 \<Longrightarrow> s_at sample_line u = u"
proof -
  assume "0 \<le> u" "u \<le> 2"
  moreover have "in_segment sample_line 0 u" by (simp add: in_segment_def sample_line_def)
  ultimately show ?thesis
    using Value_eq [OF sample_line_ok(1), of 0 u]
    by (simp add: s_at_def s_of_def front_def sample_line_ok clamp_inside) (simp add: sample_line_def poly_value_def vadd_def vscale_def)
qed

lemma sample_timed_ok: "tt_ok (sample_timed d)"
  using sample_line_ok sample_line_value
  by (simp add: tt_ok_def sample_timed_def TimedTrajectory_iff)

lemma sample_timed_times: "start_time (sample_timed d) = 0" "end_time (sample_timed d) = 2"
  "tt_path (sample_timed d) = sample_line" "tt_scaling (sample_timed d) = sample_line" "tt_offset (sample_timed d) = d"
  by (simp_all add: start_time_def end_time_def sample_timed_def sample_line_ok)

theorem slice_from_time_witness:
  "\<exists>S. SliceFromTime (sample_timed 5) 1 False = Inr S \<and> start_time S = 1 \<and> tt_Value S (3 / 2) = tt_Value (sample_timed 5) (3 / 2)"
  using slice_from_time [OF sample_timed_ok, where d1 = 5 and t = 1 and c = False]
  by (auto simp: sample_timed_times sample_line_ok sample_line_value)

theorem slice_between_witness:
  "\<exists>S. Slice (\<lambda>b. b - 1 / 4) (sample_timed 5) (1 / 2) 1 = Inr S \<and> tt_Value S (3 / 4) = tt_Value (sample_timed 5) (3 / 4)"
proof -
  have "\<exists>S. Slice (\<lambda>b. b - 1 / 4) (sample_timed 5) (1 / 2) 1 = Inr S \<and> tt_ok S \<and> start_time S = 1 / 2 \<and> end_time S = 1
    \<and> tt_offset S = tt_offset (sample_timed 5)
    \<and> (\<forall>u. 1 / 2 \<le> u \<and> u < 1 \<and> s_at sample_line (1 / 2) \<le> s_at sample_line u \<and> s_at sample_line u < s_at sample_line 1
         \<longrightarrow> tt_Value S u = tt_Value (sample_timed 5) u)"
    using slice_between [OF sample_timed_ok, of 5 "1 / 2" 1 "\<lambda>b. b - 1 / 4"]
    by (simp add: sample_timed_times sample_line_ok sample_line_value previous_value_def clamp_duration_def)
  then show ?thesis by (auto simp: sample_line_value)
qed

theorem late_slice_loses_offset_witness:
  "\<exists>S. SliceFromTime (sample_timed 5) 3 True = Inr S \<and> global_start_time S \<noteq> global_end_time (sample_timed 5)"
  using late_slice_loses_offset [OF sample_timed_ok, of 5 3] by (auto simp: sample_timed_times)

theorem merge_concatenates_witness:
  "\<exists>M. Merge (sample_timed 5) (sample_timed 7) False False 0 = Inr M \<and> end_time M = 4 \<and> tt_Value M 3 = tt_Value (sample_timed 7) 1"
proof -
  have "check_continuity (sample_timed 5) (sample_timed 7) False False 0 = Inr ()" by (simp add: check_continuity_def)
  from merge_concatenates [OF sample_timed_ok sample_timed_ok _ this]
  obtain M where M: "Merge (sample_timed 5) (sample_timed 7) False False 0 = Inr M" "end_time M = 4"
    "\<forall>u \<ge> 2. 0 \<le> s_at sample_line (u - 2) \<longrightarrow> tt_Value M u = tt_Value (sample_timed 7) (u - 2)"
    by (auto simp: sample_timed_times sample_line_ok)
  from M(3) [rule_format, of 3] M(1,2) show ?thesis by (simp add: sample_line_value)
qed

end
