(* ===== verification/Mobile_Groups.thy ===== *)
theory Mobile_Groups
  imports Holonomic
begin

text \<open>
  The part of \<open>motion/robot_model.cc\<close> that reads the structure of a robot off Drake's plant: the bodies that move as one
  (\<open>PartitionMobileBodies\<close>), the open kinematic chains (\<open>group_kinematic_chains\<close>) and the arms made of them.  The plant is the
  record \<open>structure\<close>: its joints, in the order of their indices, with the instance each belongs to and the bodies it joins, the
  instance of each body, and the number of positions of each instance.  Instances \<open>0\<close> and \<open>1\<close> are Drake's world and default
  instances.
\<close>

record joint =
  jt_type :: string
  jt_instance :: nat
  jt_parent :: nat
  jt_child :: nat

record plant_structure =
  ps_joints :: "joint list"
  ps_body_instance :: "nat \<Rightarrow> nat"
  ps_num_instances :: nat
  ps_num_positions :: "nat \<Rightarrow> nat"

section \<open>Mobile groups\<close>

definition is_weld :: "joint \<Rightarrow> bool" where "is_weld j = (jt_type j = ''weld'')"

text \<open>The first group with one of two welded bodies takes the other one.\<close>

fun add_weld :: "nat \<Rightarrow> nat \<Rightarrow> nat list list \<Rightarrow> nat list list" where
  "add_weld p c [] = [[p, c]]"
| "add_weld p c (g # gs) = (if p \<in> set g then (g @ [c]) # gs
     else if c \<in> set g then (g @ [p]) # gs else g # add_weld p c gs)"

definition add_single :: "nat \<Rightarrow> nat list list \<Rightarrow> nat list list" where
  "add_single b gs = (if list_ex (\<lambda>g. b \<in> set g) gs then gs else gs @ [[b]])"

definition add_joint :: "joint \<Rightarrow> nat list list \<Rightarrow> nat list list" where
  "add_joint j gs = (if is_weld j then add_weld (jt_parent j) (jt_child j) gs
     else add_single (jt_child j) (add_single (jt_parent j) gs))"

text \<open>The inner loop of the merge: group \<open>g\<close> takes in every later group it shares a body with, as it has grown by then.\<close>

fun absorb :: "nat list \<Rightarrow> nat list list \<Rightarrow> nat list \<times> nat list list" where
  "absorb g [] = (g, [])"
| "absorb g (h # hs) = (if list_ex (\<lambda>b. b \<in> set h) g then absorb (remdups_adj (sort (g @ h))) hs
     else (case absorb g hs of (g', hs') \<Rightarrow> (g', h # hs')))"

lemma absorb_length: "length (snd (absorb g hs)) \<le> length hs"
  by (induction hs arbitrary: g) (auto split: prod.split intro: le_SucI, metis snd_conv)

function merge_groups :: "nat list list \<Rightarrow> nat list list" where
  "merge_groups [] = []"
| "merge_groups (g # gs) = (case absorb g gs of (g', gs') \<Rightarrow> g' # merge_groups gs')"
  by pat_completeness auto
termination
  using absorb_length by (relation "measure length") (auto simp: less_Suc_eq_le, metis snd_conv)

definition PartitionMobileBodies :: "joint list \<Rightarrow> nat list list" where
  "PartitionMobileBodies js = fold (\<lambda>j gs. merge_groups (add_joint j gs)) js []"

text \<open>What they are to be: the classes of the bodies that welds connect.\<close>

definition welds :: "joint list \<Rightarrow> (nat \<times> nat) set" where
  "welds js = {(jt_parent j, jt_child j) | j. j \<in> set js \<and> is_weld j}"

definition welded :: "joint list \<Rightarrow> (nat \<times> nat) set" where "welded js = (welds js \<union> (welds js)\<inverse>)\<^sup>*"

definition jointed :: "joint list \<Rightarrow> nat set" where "jointed js = jt_parent ` set js \<union> jt_child ` set js"

fun apart :: "nat list list \<Rightarrow> bool" where
  "apart [] = True"
| "apart (g # gs) = ((\<forall>h \<in> set gs. set g \<inter> set h = {}) \<and> apart gs)"

lemma absorb_apart: "\<forall>h \<in> set hs. set g \<inter> set h = {} \<Longrightarrow> absorb g hs = (g, hs)"
  by (induction hs) (auto simp: list_ex_iff)

lemma merge_apart: "apart gs \<Longrightarrow> merge_groups gs = gs"
  by (induction gs) (auto simp: absorb_apart)

lemma absorb_shared:
  assumes "apart hs" "x \<in> set g" "\<forall>h \<in> set hs. set g \<inter> set h \<subseteq> {x}"
  shows "\<exists>g'. absorb g hs = (g', filter (\<lambda>h. x \<notin> set h) hs) \<and> set g' = set g \<union> \<Union> (set ` {h \<in> set hs. x \<in> set h})"
  using assms
proof (induction hs)
  case (Cons h hs)
  show ?case
  proof (cases "x \<in> set h")
    case True
    then have rest: "x \<notin> set k" if "k \<in> set hs" for k using Cons.prems(1) that by auto
    let ?m = "remdups_adj (sort (g @ h))"
    have "absorb ?m hs = (?m, hs)"
      by (rule absorb_apart) (use Cons.prems(1,3) rest in fastforce)
    moreover have "filter (\<lambda>h. x \<notin> set h) hs = hs" using rest by simp
    moreover have "{k \<in> set (h # hs). x \<in> set k} = {h}" using True rest by auto
    ultimately show ?thesis using Cons.prems(2) True by (auto simp: list_ex_iff)
  next
    case False
    then have "set g \<inter> set h = {}" using Cons.prems(3) by auto
    moreover obtain g' where "absorb g hs = (g', filter (\<lambda>h. x \<notin> set h) hs)"
        "set g' = set g \<union> \<Union> (set ` {h \<in> set hs. x \<in> set h})"
      using Cons.IH Cons.prems by auto
    moreover have "{k \<in> set (h # hs). x \<in> set k} = {k \<in> set hs. x \<in> set k}" using False by auto
    ultimately show ?thesis using False by (auto simp: list_ex_iff)
  qed
qed simp

text \<open>Welding \<open>p\<close> to \<open>c\<close> joins the groups of the two and leaves the others.\<close>

definition weld_class :: "nat \<Rightarrow> nat \<Rightarrow> nat set set \<Rightarrow> nat set" where
  "weld_class p c Gs = {p, c} \<union> \<Union> {G \<in> Gs. p \<in> G \<or> c \<in> G}"

lemma add_weld_bodies: "\<Union> (set ` set (add_weld p c gs)) = {p, c} \<union> \<Union> (set ` set gs)"
  by (induction gs) auto

lemma merge_shared:
  assumes "apart (g # gs)" "p \<in> set g" "apart gs" "\<forall>h \<in> set gs. p \<notin> set h"
  shows "apart (merge_groups ((g @ [c]) # gs))
    \<and> set ` set (merge_groups ((g @ [c]) # gs)) = insert (weld_class p c (set ` set (g # gs))) {G \<in> set ` set (g # gs). p \<notin> G \<and> c \<notin> G}"
proof -
  have "set (g @ [c]) \<inter> set h \<subseteq> {c}" if "h \<in> set gs" for h using assms(1) that by auto
  then obtain g' where g': "absorb (g @ [c]) gs = (g', filter (\<lambda>h. c \<notin> set h) gs)"
      "set g' = set (g @ [c]) \<union> \<Union> (set ` {h \<in> set gs. c \<in> set h})"
    using absorb_shared [OF assms(3), of c "g @ [c]"] by auto
  have ap: "apart (filter P gs)" for P using assms(3) by (induction gs) auto
  have "set g' \<inter> set h = {}" if h: "h \<in> set gs" "c \<notin> set h" for h
  proof -
    have "set k \<inter> set h = {}" if "k \<in> set gs" "c \<in> set k" for k
      using assms(3) h that by (induction gs) auto
    then show ?thesis using g'(2) assms(1) h by auto
  qed
  then have "apart (g' # filter (\<lambda>h. c \<notin> set h) gs)" using ap by simp
  moreover have "set g' = weld_class p c (set ` set (g # gs))"
    using assms(2,4) g'(2) by (auto simp: weld_class_def)
  moreover have "set ` set (filter (\<lambda>h. c \<notin> set h) gs) = {G \<in> set ` set (g # gs). p \<notin> G \<and> c \<notin> G}"
    using assms(2,4) by auto
  ultimately show ?thesis by (simp add: g'(1) merge_apart [OF ap])
qed

lemma weld_class_commute: "weld_class p c Gs = weld_class c p Gs"
  by (auto simp: weld_class_def)

lemma merge_weld:
  assumes "apart gs"
  shows "apart (merge_groups (add_weld p c gs))
    \<and> set ` set (merge_groups (add_weld p c gs)) = insert (weld_class p c (set ` set gs)) {G \<in> set ` set gs. p \<notin> G \<and> c \<notin> G}"
  using assms
proof (induction gs)
  case Nil
  then show ?case by (simp add: weld_class_def)
next
  case (Cons g gs)
  have others: "\<forall>h \<in> set gs. b \<notin> set h" if "b \<in> set g" for b using Cons.prems that by auto
  consider "p \<in> set g" | "p \<notin> set g" "c \<in> set g" | "p \<notin> set g" "c \<notin> set g" by blast
  then show ?case
  proof cases
    case 1
    show ?thesis using merge_shared [OF Cons.prems 1 _ others [OF 1]] Cons.prems 1 by simp
  next
    case 2
    show ?thesis using merge_shared [OF Cons.prems 2(2) _ others [OF 2(2)], of p] Cons.prems 2
      by (simp add: weld_class_commute [of p c] conj_commute)
  next
    case 3
    have "\<forall>h \<in> set (add_weld p c gs). set g \<inter> set h = {}"
    proof
      fix h assume "h \<in> set (add_weld p c gs)"
      then have "set h \<subseteq> {p, c} \<union> \<Union> (set ` set gs)" using add_weld_bodies [of p c gs] by blast
      then show "set g \<inter> set h = {}" using 3 Cons.prems by auto
    qed
    from absorb_apart [OF this] have eq: "merge_groups (add_weld p c (g # gs)) = g # merge_groups (add_weld p c gs)"
      using 3 by simp
    let ?m = "merge_groups (add_weld p c gs)"
    note IH = Cons.IH [OF apart.simps(2) [THEN iffD1, OF Cons.prems, THEN conjunct2]]
    have wc: "weld_class p c (set ` set (g # gs)) = weld_class p c (set ` set gs)"
      using 3 by (auto simp: weld_class_def)
    have "set g \<inter> set h = {}" if "h \<in> set ?m" for h
    proof -
      have "set h \<in> insert (weld_class p c (set ` set gs)) {G \<in> set ` set gs. p \<notin> G \<and> c \<notin> G}" using IH that by blast
      then have "set h \<subseteq> {p, c} \<union> \<Union> (set ` set gs)" by (auto simp: weld_class_def)
      then show ?thesis using 3 Cons.prems by auto
    qed
    moreover have "{G \<in> set ` set (g # gs). p \<notin> G \<and> c \<notin> G} = insert (set g) {G \<in> set ` set gs. p \<notin> G \<and> c \<notin> G}"
      using 3 by auto
    ultimately show ?thesis using IH unfolding eq wc by auto
  qed
qed

text \<open>The relation \<open>welded\<close> when a joint is added.\<close>

lemma welded_equiv: "refl (welded js)" "sym (welded js)" "trans (welded js)"
  by (auto simp: welded_def refl_rtrancl trans_rtrancl intro: sym_rtrancl sym_Un_converse)

lemma welded_commute: "(a, b) \<in> welded js \<Longrightarrow> (b, a) \<in> welded js"
  using welded_equiv(2) by (rule symD)

lemma welded_trans: "(a, b) \<in> welded js \<Longrightarrow> (b, c) \<in> welded js \<Longrightarrow> (a, c) \<in> welded js"
  using welded_equiv(3) by (rule transD)

lemma welded_refl [simp]: "(a, a) \<in> welded js" by (simp add: welded_def)

lemma jointed_snoc: "jointed (js @ [j]) = {jt_parent j, jt_child j} \<union> jointed js"
  by (auto simp: jointed_def)

lemma welded_snoc:
  "(a, b) \<in> welded (js @ [j]) \<longleftrightarrow> (a, b) \<in> welded js \<or> (is_weld j \<and>
     ((a, jt_parent j) \<in> welded js \<or> (a, jt_child j) \<in> welded js) \<and> ((b, jt_parent j) \<in> welded js \<or> (b, jt_child j) \<in> welded js))"
proof (cases "is_weld j")
  case True
  let ?p = "jt_parent j" and ?c = "jt_child j"
  have "welds (js @ [j]) \<union> (welds (js @ [j]))\<inverse> = insert (?p, ?c) (insert (?c, ?p) (welds js \<union> (welds js)\<inverse>))"
    using True by (auto simp: welds_def)
  then have "welded (js @ [j]) = (insert (?p, ?c) (insert (?c, ?p) (welds js \<union> (welds js)\<inverse>)))\<^sup>*"
    by (simp add: welded_def)
  moreover have comm: "(?p, y) \<in> welded js \<longleftrightarrow> (y, ?p) \<in> welded js" "(?c, y) \<in> welded js \<longleftrightarrow> (y, ?c) \<in> welded js" for y
    using welded_commute by blast+
  moreover have tr: "(a, x) \<in> welded js \<Longrightarrow> (b, x) \<in> welded js \<Longrightarrow> (a, b) \<in> welded js" for x
    using welded_commute welded_trans by blast
  ultimately show ?thesis
    unfolding rtrancl_insert welded_def [symmetric] using True tr by (simp add: comm) blast
next
  case False
  then have "welds (js @ [j]) = welds js" by (auto simp: welds_def)
  then show ?thesis using False by (simp add: welded_def)
qed

lemma welded_alone: "a \<notin> jointed js \<Longrightarrow> (a, b) \<in> welded js \<longleftrightarrow> b = a"
proof
  assume a: "a \<notin> jointed js" and "(a, b) \<in> welded js"
  from this(2) show "b = a" unfolding welded_def
    by (cases rule: converse_rtranclE) (use a in \<open>auto simp: jointed_def welds_def\<close>)
qed simp

lemma welded_class_alone: "a \<notin> jointed js \<Longrightarrow> welded js `` {a} = {a}"
  using welded_alone by auto

lemma class_mem: "G \<in> A // welded js \<Longrightarrow> b \<in> G \<Longrightarrow> G = welded js `` {b}"
  by (auto simp: quotient_def intro: welded_commute welded_trans)

lemma add_single_classes:
  assumes "apart gs" "set ` set gs = A // welded js" "jointed js \<subseteq> A"
  shows "apart (add_single b gs) \<and> set ` set (add_single b gs) = insert b A // welded js"
proof (cases "list_ex (\<lambda>g. b \<in> set g) gs")
  case True
  then obtain g where g: "g \<in> set gs" "b \<in> set g" by (auto simp: list_ex_iff)
  then have "set g \<in> A // welded js" using assms(2) by blast
  then have "welded js `` {b} \<in> A // welded js" using class_mem [OF _ g(2)] by simp
  then have "insert b A // welded js = A // welded js" by (auto simp: quotient_def)
  then show ?thesis using True assms(1,2) by (simp add: add_single_def)
next
  case False
  then have no: "b \<notin> G" if "G \<in> A // welded js" for G using assms(2) that by (auto simp: list_ex_iff)
  have "b \<notin> A"
  proof
    assume "b \<in> A"
    then have "welded js `` {b} \<in> A // welded js" by (rule quotientI)
    from no [OF this] show False by simp
  qed
  then have "welded js `` {b} = {b}" using assms(3) welded_class_alone by blast
  then have "insert b A // welded js = insert {b} (A // welded js)" by (auto simp: quotient_def)
  moreover have "apart (gs @ [[b]])"
    using assms(1) False by (induction gs) auto
  ultimately show ?thesis using False assms(2) by (auto simp: add_single_def)
qed

lemma weld_classes:
  assumes "apart gs" "set ` set gs = jointed js // welded js" "is_weld j"
  shows "apart (merge_groups (add_joint j gs)) \<and> set ` set (merge_groups (add_joint j gs)) = jointed (js @ [j]) // welded (js @ [j])"
proof -
  let ?p = "jt_parent j" and ?c = "jt_child j"
  have one: "welded js `` {a} = {a} \<union> \<Union> {G \<in> jointed js // welded js. a \<in> G}" for a
  proof (cases "a \<in> jointed js")
    case True
    then have "welded js `` {a} \<in> jointed js // welded js" by (rule quotientI)
    moreover have "a \<in> welded js `` {a}" by simp
    ultimately have "{G \<in> jointed js // welded js. a \<in> G} = {welded js `` {a}}" using class_mem by blast
    then show ?thesis by auto
  next
    case False
    have "a \<notin> G" if G: "G \<in> jointed js // welded js" for G
    proof
      assume "a \<in> G"
      then have "G = {a}" using class_mem [OF G] welded_class_alone [OF False] by simp
      moreover obtain x where "x \<in> jointed js" "G = welded js `` {x}" using G by (auto elim!: quotientE)
      moreover from this have "x \<in> G" by simp
      ultimately show False using False by simp
    qed
    then show ?thesis using welded_class_alone [OF False] by auto
  qed
  have K: "weld_class ?p ?c (jointed js // welded js) = welded js `` {?p} \<union> welded js `` {?c}"
    unfolding one weld_class_def by auto
  have new: "welded (js @ [j]) `` {a} = (if (a, ?p) \<in> welded js \<or> (a, ?c) \<in> welded js
      then welded js `` {?p} \<union> welded js `` {?c} else welded js `` {a})" for a
  proof -
    have comm: "(x, ?p) \<in> welded js \<longleftrightarrow> (?p, x) \<in> welded js" "(x, ?c) \<in> welded js \<longleftrightarrow> (?c, x) \<in> welded js" for x
      using welded_commute by blast+
    have via: "(a, b) \<in> welded js \<Longrightarrow> (x, a) \<in> welded js \<Longrightarrow> (x, b) \<in> welded js" for b x by (rule welded_trans)
    show ?thesis
      by (rule set_eqI) (use assms(3) via [of _ ?p] via [of _ ?c] in \<open>simp add: welded_snoc comm, blast\<close>)
  qed
  have "jointed (js @ [j]) // welded (js @ [j])
      = insert (welded js `` {?p} \<union> welded js `` {?c}) {G \<in> jointed js // welded js. ?p \<notin> G \<and> ?c \<notin> G}" (is "?L = ?R")
  proof
    show "?L \<subseteq> ?R"
    proof
      fix G assume "G \<in> ?L"
      then obtain a where a: "a \<in> {?p, ?c} \<union> jointed js" "G = welded (js @ [j]) `` {a}" by (auto simp: quotient_def jointed_snoc)
      show "G \<in> ?R"
      proof (cases "(a, ?p) \<in> welded js \<or> (a, ?c) \<in> welded js")
        case False
        then have "a \<in> jointed js" using a(1) by auto
        then show ?thesis using a(2) False by (simp add: new quotientI)
      qed (use a(2) in \<open>simp add: new\<close>)
    qed
    show "?R \<subseteq> ?L"
    proof
      fix G assume "G \<in> ?R"
      then consider "G = welded (js @ [j]) `` {?p}" | a where "a \<in> jointed js" "G = welded js `` {a}" "?p \<notin> G" "?c \<notin> G"
        by (auto simp: new quotient_def)
      then show "G \<in> ?L"
        by cases (auto simp: quotient_def jointed_snoc new)
    qed
  qed
  then show ?thesis using merge_weld [OF assms(1), of ?p ?c] assms(2,3) by (simp add: add_joint_def K)
qed

lemma mobile_groups_classes:
  "apart (PartitionMobileBodies js) \<and> set ` set (PartitionMobileBodies js) = jointed js // welded js"
proof (induction js rule: rev_induct)
  case Nil
  then show ?case by (simp add: PartitionMobileBodies_def jointed_def)
next
  case (snoc j js)
  let ?gs = "PartitionMobileBodies js"
  have step: "PartitionMobileBodies (js @ [j]) = merge_groups (add_joint j ?gs)" by (simp add: PartitionMobileBodies_def)
  show ?case
  proof (cases "is_weld j")
    case True
    show ?thesis unfolding step using weld_classes [OF _ _ True] snoc.IH by blast
  next
    case False
    then have same: "welded (js @ [j]) = welded js" using welded_snoc [of _ _ js j] by auto
    have parent: "apart (add_single (jt_parent j) ?gs) \<and> set ` set (add_single (jt_parent j) ?gs) = insert (jt_parent j) (jointed js) // welded js"
      by (rule add_single_classes) (use snoc.IH in auto)
    have "apart (add_joint j ?gs) \<and> set ` set (add_joint j ?gs) = insert (jt_child j) (insert (jt_parent j) (jointed js)) // welded js"
      using False add_single_classes [OF conjunct1 [OF parent] conjunct2 [OF parent], of "jt_child j"] by (auto simp: add_joint_def)
    then show ?thesis unfolding step same by (simp add: merge_apart jointed_snoc insert_commute)
  qed
qed

text \<open>C26: The mobile groups are the classes of the bodies that welds connect: every body of a joint is in exactly one group, and two of
  them are in the same group exactly when a chain of weld joints leads from one to the other, whatever the order of the joints.\<close>
theorem mobile_groups_correct:
  assumes "a \<in> jointed js"
  shows "(\<exists>!i. i < length (PartitionMobileBodies js) \<and> a \<in> set (PartitionMobileBodies js ! i))
    \<and> (\<forall>g \<in> set (PartitionMobileBodies js). a \<in> set g \<longrightarrow> set g = {b. (a, b) \<in> welded js})"
proof -
  have unique: "\<exists>!i. i < length gs \<and> a \<in> set (gs ! i)" if "apart gs" "\<exists>g \<in> set gs. a \<in> set g" for gs
    using that
  proof (induction gs)
    case (Cons g gs)
    show ?case
    proof (cases "a \<in> set g")
      case True
      then have no: "a \<notin> set (gs ! i)" if "i < length gs" for i using Cons.prems(1) that by (auto simp: disjoint_iff)
      show ?thesis
      proof (rule ex1I [of _ 0])
        show "k = 0" if "k < length (g # gs) \<and> a \<in> set ((g # gs) ! k)" for k using that no by (cases k) auto
      qed (use True in simp)
    next
      case False
      have "\<exists>!i. i < length gs \<and> a \<in> set (gs ! i)" by (rule Cons.IH) (use Cons.prems False in auto)
      then obtain i where i: "i < length gs" "a \<in> set (gs ! i)" "\<And>k. k < length gs \<and> a \<in> set (gs ! k) \<Longrightarrow> k = i"
        by (elim ex1E) blast
      show ?thesis
      proof (rule ex1I [of _ "Suc i"])
        show "k = Suc i" if "k < length (g # gs) \<and> a \<in> set ((g # gs) ! k)" for k
          using that False i(3) by (cases k) auto
      qed (use i(1,2) in simp)
    qed
  qed simp
  note classes = mobile_groups_classes [of js]
  have "welded js `` {a} \<in> set ` set (PartitionMobileBodies js)" using classes assms by (simp add: quotientI)
  then have "\<exists>g \<in> set (PartitionMobileBodies js). a \<in> set g" by force
  moreover have "set g = {b. (a, b) \<in> welded js}" if "g \<in> set (PartitionMobileBodies js)" "a \<in> set g" for g
  proof -
    have "set g \<in> jointed js // welded js" using classes that(1) by blast
    from class_mem [OF this that(2)] show ?thesis by auto
  qed
  ultimately show ?thesis using unique [OF conjunct1 [OF classes]] by simp
qed

section \<open>A body to draw\<close>

text \<open>\<open>GetVisualBodyInTheSameMobileGroup\<close>, for a frame on the body \<open>b\<close>; \<open>visual\<close> says which bodies have visual geometry (Drake).\<close>

definition GetVisualBodyInTheSameMobileGroup :: "(nat \<Rightarrow> bool) \<Rightarrow> nat list list \<Rightarrow> nat \<Rightarrow> nat throws" where
  "GetVisualBodyInTheSameMobileGroup visual groups b = (case find (\<lambda>g. b \<in> set g) groups of
       None \<Rightarrow> Inl ''The body is not part of any mobile body group.''
     | Some g \<Rightarrow> (case find visual g of
           None \<Rightarrow> Inl ''Frame is in a mobile body group, but no collision body found in that group.''
         | Some v \<Rightarrow> Inr v))"

lemma visual_body_welded:
  assumes "b \<in> jointed js"
  shows "case GetVisualBodyInTheSameMobileGroup visual (PartitionMobileBodies js) b of
      Inr v \<Rightarrow> visual v \<and> (b, v) \<in> welded js | Inl _ \<Rightarrow> \<forall>v. (b, v) \<in> welded js \<longrightarrow> \<not> visual v"
proof -
  let ?gs = "PartitionMobileBodies js"
  have "set ` set ?gs = jointed js // welded js" using mobile_groups_classes by blast
  then have "welded js `` {b} \<in> set ` set ?gs" using assms by (simp add: quotientI)
  then obtain g where g: "find (\<lambda>g. b \<in> set g) ?gs = Some g"
    by (cases "find (\<lambda>g. b \<in> set g) ?gs") (force simp: find_None_iff)+
  then have "g \<in> set ?gs" "b \<in> set g" by (auto simp: find_Some_iff)
  then have "set g = welded js `` {b}" using mobile_groups_classes [of js] class_mem by (metis image_eqI)
  then show ?thesis
    by (auto simp: GetVisualBodyInTheSameMobileGroup_def g find_None_iff find_Some_iff split: option.split)
qed

section \<open>Kinematic chains\<close>

definition find_parent_model_index :: "plant_structure \<Rightarrow> nat \<Rightarrow> nat throws" where
  "find_parent_model_index ps i = (case find (\<lambda>j. ps_body_instance ps (jt_parent j) \<noteq> i) (filter (\<lambda>j. jt_instance j = i) (ps_joints ps)) of
       None \<Rightarrow> Inl ''RobotModel:FindParentModelIndex: No parent model index found''
     | Some j \<Rightarrow> Inr (ps_body_instance ps (jt_parent j)))"

text \<open>The first chain with the parent takes the instance.\<close>

fun add_to_chain :: "nat \<Rightarrow> nat \<Rightarrow> nat list list \<Rightarrow> nat list list option" where
  "add_to_chain p i [] = None"
| "add_to_chain p i (c # cs) = (if p \<in> set c then Some ((c @ [i]) # cs) else map_option ((#) c) (add_to_chain p i cs))"

definition chain_step :: "plant_structure \<Rightarrow> nat \<Rightarrow> nat list \<times> nat list list \<Rightarrow> (nat list \<times> nat list list) throws" where
  "chain_step ps i st = (case st of (env, opens) \<Rightarrow>
     if i = 0 \<or> i = 1 then Inr st
     else bindE (find_parent_model_index ps i) (\<lambda>p.
       if p \<in> set env then Inr (if ps_num_positions ps i = 0 then (env @ [i], opens) else (env, opens @ [[i]]))
       else case add_to_chain p i opens of
           None \<Rightarrow> Inl ''RobotModel:FindArms: The parent is not part of the environment or any open kinematic chain''
         | Some opens' \<Rightarrow> Inr (env, opens')))"

definition group_kinematic_chains :: "plant_structure \<Rightarrow> (nat list \<times> nat list list) throws" where
  "group_kinematic_chains ps = foldE (chain_step ps) [0..<ps_num_instances ps] ([0, 1], [])"

definition parent_is :: "plant_structure \<Rightarrow> nat \<Rightarrow> nat \<Rightarrow> bool" where
  "parent_is ps i p \<longleftrightarrow> find_parent_model_index ps i = Inr p"

text \<open>A chain starts with a moving instance on the environment, and every further instance hangs on an earlier one of the chain.\<close>

fun hangs :: "plant_structure \<Rightarrow> nat list \<Rightarrow> nat list \<Rightarrow> bool" where
  "hangs ps before [] = True"
| "hangs ps before (i # is) = ((\<exists>p \<in> set before. parent_is ps i p) \<and> hangs ps (before @ [i]) is)"

definition chain_ok :: "plant_structure \<Rightarrow> nat list \<Rightarrow> nat list \<Rightarrow> bool" where
  "chain_ok ps env c \<longleftrightarrow> (case c of [] \<Rightarrow> False
     | i # is \<Rightarrow> 2 \<le> i \<and> ps_num_positions ps i > 0 \<and> (\<exists>p \<in> set env. parent_is ps i p) \<and> hangs ps [i] is)"

definition chains_inv :: "plant_structure \<Rightarrow> nat \<Rightarrow> nat list \<times> nat list list \<Rightarrow> bool" where
  "chains_inv ps k st \<longleftrightarrow> (case st of (env, opens) \<Rightarrow> distinct (env @ concat opens) \<and> set env \<union> set (concat opens) = {0, 1} \<union> {..<k}
     \<and> {0, 1} \<subseteq> set env
     \<and> (\<forall>i \<in> set env. 2 \<le> i \<longrightarrow> ps_num_positions ps i = 0 \<and> (\<exists>p \<in> set env. parent_is ps i p))
     \<and> (\<forall>c \<in> set opens. chain_ok ps env c))"

lemma hangs_snoc: "hangs ps b (is @ [i]) \<longleftrightarrow> hangs ps b is \<and> (\<exists>p \<in> set (b @ is). parent_is ps i p)"
  by (induction "is" arbitrary: b) auto

lemma chain_ok_snoc: "chain_ok ps env c \<Longrightarrow> p \<in> set c \<Longrightarrow> parent_is ps i p \<Longrightarrow> chain_ok ps env (c @ [i])"
  by (cases c) (auto simp: chain_ok_def hangs_snoc)

lemma chain_ok_mono: "chain_ok ps env c \<Longrightarrow> set env \<subseteq> set env' \<Longrightarrow> chain_ok ps env' c"
  by (auto simp: chain_ok_def split: list.splits)

lemma add_to_chain_None: "add_to_chain p i cs = None \<longleftrightarrow> p \<notin> set (concat cs)"
  by (induction cs) auto

lemma add_to_chain_Some:
  assumes "add_to_chain p i cs = Some cs'" "parent_is ps i p" "\<forall>c \<in> set cs. chain_ok ps env c"
  shows "set (concat cs') = insert i (set (concat cs)) \<and> (\<forall>c \<in> set cs'. chain_ok ps env c)
    \<and> (i \<notin> set (concat cs) \<and> distinct (concat cs) \<longrightarrow> distinct (concat cs'))"
  using assms
proof (induction cs arbitrary: cs')
  case (Cons c cs)
  show ?case
  proof (cases "p \<in> set c")
    case True
    then show ?thesis using Cons.prems chain_ok_snoc by (auto 0 3)
  next
    case False
    then obtain ds where ds: "add_to_chain p i cs = Some ds" "cs' = c # ds" using Cons.prems(1) by auto
    then show ?thesis using Cons.IH [OF ds(1) Cons.prems(2)] Cons.prems(3) by auto
  qed
qed simp

lemma chains_invI:
  assumes "distinct (env @ concat opens)" "set env \<union> set (concat opens) = {0, 1} \<union> {..<k}" "{0, 1} \<subseteq> set env"
    "\<forall>i \<in> set env. 2 \<le> i \<longrightarrow> ps_num_positions ps i = 0 \<and> (\<exists>p \<in> set env. parent_is ps i p)" "\<forall>c \<in> set opens. chain_ok ps env c"
  shows "chains_inv ps k (env, opens)"
  unfolding chains_inv_def prod.case by (intro conjI assms)

lemma chain_step_inv:
  assumes "chains_inv ps k st" "chain_step ps k st = Inr st'"
  shows "chains_inv ps (Suc k) st'"
proof -
  obtain env opens where st: "st = (env, opens)" by (cases st)
  note inv = assms(1) [unfolded chains_inv_def st prod.case]
  note d = inv [THEN conjunct1] and known = inv [THEN conjunct2, THEN conjunct1]
    and w = inv [THEN conjunct2, THEN conjunct2, THEN conjunct1]
    and e = inv [THEN conjunct2, THEN conjunct2, THEN conjunct2, THEN conjunct1]
    and c = inv [THEN conjunct2, THEN conjunct2, THEN conjunct2, THEN conjunct2]
  show ?thesis
  proof (cases "k = 0 \<or> k = 1")
    case True
    then have "{0, 1} \<union> {..<Suc k} = {0, 1} \<union> {..<k}" by auto
    with known have "set env \<union> set (concat opens) = {0, 1} \<union> {..<Suc k}" by (rule trans [OF _ sym])
    moreover have "st' = (env, opens)" using True assms(2) by (auto simp: chain_step_def st)
    ultimately show ?thesis using chains_invI [OF d _ w e c] by simp
  next
    case False
    have "k \<notin> set env \<union> set (concat opens)" unfolding known using False by simp
    then have new: "k \<notin> set env" "k \<notin> set (concat opens)" by simp_all
    have more: "insert k (set env \<union> set (concat opens)) = {0, 1} \<union> {..<Suc k}" unfolding known by auto
    obtain p where p: "parent_is ps k p"
      using assms(2) False by (auto simp: chain_step_def st bindE_Inr_iff parent_is_def)
    then have fp: "find_parent_model_index ps k = Inr p" by (simp add: parent_is_def)
    consider "p \<in> set env" "ps_num_positions ps k = 0" | "p \<in> set env" "ps_num_positions ps k > 0" | "p \<notin> set env" by blast
    then show ?thesis
    proof cases
      case 1
      have c1: "\<forall>c \<in> set opens. chain_ok ps (env @ [k]) c" using c chain_ok_mono [of ps env _ "env @ [k]"] by auto
      have d1: "distinct ((env @ [k]) @ concat opens)" using d new by auto
      have k1: "set (env @ [k]) \<union> set (concat opens) = {0, 1} \<union> {..<Suc k}" using more by simp
      have w1: "{0, 1} \<subseteq> set (env @ [k])" using w by simp
      have e1: "\<forall>i \<in> set (env @ [k]). 2 \<le> i \<longrightarrow> ps_num_positions ps i = 0 \<and> (\<exists>p \<in> set (env @ [k]). parent_is ps i p)"
        using e p 1 by auto
      show ?thesis using chains_invI [OF d1 k1 w1 e1 c1] assms(2) False fp 1 by (simp add: chain_step_def st)
    next
      case 2
      have c1: "\<forall>c \<in> set (opens @ [[k]]). chain_ok ps env c" using c p 2 False by (auto simp: chain_ok_def [of ps env "[k]"])
      have d1: "distinct (env @ concat (opens @ [[k]]))" using d new by auto
      have k1: "set env \<union> set (concat (opens @ [[k]])) = {0, 1} \<union> {..<Suc k}" using more by simp
      show ?thesis using chains_invI [OF d1 k1 w e c1] assms(2) False fp 2 by (simp add: chain_step_def st)
    next
      case 3
      then obtain cs where cs: "add_to_chain p k opens = Some cs" "st' = (env, cs)"
        using assms(2) False fp by (auto simp: chain_step_def st split: option.splits)
      note added = add_to_chain_Some [OF cs(1) p c]
      have k1: "set env \<union> set (concat cs) = {0, 1} \<union> {..<Suc k}" using conjunct1 [OF added] more by simp
      have d1: "distinct (env @ concat cs)" using added d new by auto
      show ?thesis unfolding cs(2) by (rule chains_invI [OF d1 k1 w e conjunct1 [OF conjunct2 [OF added]]])
    qed
  qed
qed

lemma chain_step_ok:
  assumes "chains_inv ps k st" "2 \<le> k"
  shows "is_ok (chain_step ps k st) \<longleftrightarrow> (\<exists>p. parent_is ps k p \<and> (p < 2 \<or> p < k))"
proof -
  obtain env opens where st: "st = (env, opens)" by (cases st)
  have known: "set env \<union> set (concat opens) = {0, 1} \<union> {..<k}" using assms(1) by (auto simp: chains_inv_def st)
  show ?thesis
  proof (cases "find_parent_model_index ps k")
    case (Inr p)
    have "p < 2 \<or> p < k \<longleftrightarrow> p \<in> set env \<union> set (concat opens)" unfolding known by auto
    moreover have "is_ok (chain_step ps k st) \<longleftrightarrow> p \<in> set env \<union> set (concat opens)"
      using assms(2) Inr add_to_chain_None [of p k opens]
      by (auto simp: chain_step_def st split: option.split)
    ultimately show ?thesis using Inr by (auto simp: parent_is_def)
  qed (use assms(2) in \<open>simp add: chain_step_def st parent_is_def\<close>)
qed

lemma chains_upto:
  "(\<forall>st. foldE (chain_step ps) [0..<k] ([0, 1], []) = Inr st \<longrightarrow> chains_inv ps k st)
   \<and> (is_ok (foldE (chain_step ps) [0..<k] ([0, 1], [])) \<longleftrightarrow> (\<forall>i \<in> {2..<k}. \<exists>p. parent_is ps i p \<and> (p < 2 \<or> p < i)))"
proof (induction k)
  case 0
  show ?case by (simp add: chains_inv_def)
next
  case (Suc k)
  let ?f = "\<lambda>k. foldE (chain_step ps) [0..<k] ([0, 1], [])"
  have step: "?f (Suc k) = bindE (?f k) (chain_step ps k)" by (simp add: foldE_append bindE_def split: sum.split)
  show ?case
  proof (cases "?f k")
    case (Inl e)
    then show ?thesis using Suc.IH unfolding step by (auto simp: not_less_eq)
  next
    case (Inr st)
    then have inv: "chains_inv ps k st" using Suc.IH by blast
    have "is_ok (chain_step ps k st) \<longleftrightarrow> k < 2 \<or> (\<exists>p. parent_is ps k p \<and> (p < 2 \<or> p < k))"
      using chain_step_ok [OF inv] by (cases "k < 2") (auto simp: chain_step_def less_2_cases_iff split: prod.split)
    moreover have "{2..<Suc k} = (if k < 2 then {} else insert k {2..<k})" by auto
    ultimately show ?thesis using Suc.IH Inr chain_step_inv [OF inv] unfolding step by auto
  qed
qed

lemma kinematic_chains_inv:
  assumes "group_kinematic_chains ps = Inr (env, opens)"
  shows "distinct (concat opens)" "set env \<union> set (concat opens) = {0, 1} \<union> {..<ps_num_instances ps}"
    "\<forall>i \<in> set env. 2 \<le> i \<longrightarrow> ps_num_positions ps i = 0"
  using chains_upto [of ps "ps_num_instances ps"] assms by (auto simp: group_kinematic_chains_def chains_inv_def)

text \<open>The kinematic chains partition the model instances.  They are found exactly when every instance but Drake's own two has a parent
  instance that is one of those two or comes before it; then the environment and the chains have every instance exactly once, the
  instances of the environment do not move and stand on it, and a chain is a moving instance on the environment followed by
  instances that each hang on an earlier one of the chain.\<close>
theorem kinematic_chains_correct:
  "(is_ok (group_kinematic_chains ps) \<longleftrightarrow> (\<forall>i \<in> {2..<ps_num_instances ps}. \<exists>p. parent_is ps i p \<and> (p < 2 \<or> p < i)))
   \<and> (\<forall>env opens. group_kinematic_chains ps = Inr (env, opens) \<longrightarrow>
        distinct (env @ concat opens) \<and> set env \<union> set (concat opens) = {0, 1} \<union> {..<ps_num_instances ps}
        \<and> (\<forall>i \<in> set env. 2 \<le> i \<longrightarrow> ps_num_positions ps i = 0 \<and> (\<exists>p \<in> set env. parent_is ps i p))
        \<and> (\<forall>c \<in> set opens. chain_ok ps env c))"
  using chains_upto [of ps "ps_num_instances ps"] by (auto simp: group_kinematic_chains_def chains_inv_def)

section \<open>Witnesses\<close>

text \<open>A base welded to the world, a two-link arm on it with a tool welded to the last link, and a camera welded to the world.  The welds
  of the tool come out of order.\<close>

definition sample_structure :: plant_structure where
  "sample_structure = \<lparr> ps_joints = [\<lparr> jt_type = ''weld'', jt_instance = 2, jt_parent = 0, jt_child = 1 \<rparr>,
      \<lparr> jt_type = ''revolute'', jt_instance = 3, jt_parent = 1, jt_child = 2 \<rparr>, \<lparr> jt_type = ''revolute'', jt_instance = 3, jt_parent = 2, jt_child = 3 \<rparr>,
      \<lparr> jt_type = ''weld'', jt_instance = 4, jt_parent = 5, jt_child = 4 \<rparr>, \<lparr> jt_type = ''weld'', jt_instance = 4, jt_parent = 3, jt_child = 5 \<rparr>],
    ps_body_instance = (\<lambda>b. [0, 2, 3, 3, 4, 4] ! b), ps_num_instances = 5, ps_num_positions = (\<lambda>i. if i = 3 then 2 else 0) \<rparr>"

lemma sample_groups: "PartitionMobileBodies (ps_joints sample_structure) = [[0, 1], [2], [3, 4, 5]]"
  by (simp add: PartitionMobileBodies_def sample_structure_def add_joint_def is_weld_def add_single_def)

theorem mobile_groups_correct_witness: "(3, 4) \<in> welded (ps_joints sample_structure) \<and> (1, 2) \<notin> welded (ps_joints sample_structure)"
proof -
  have j: "3 \<in> jointed (ps_joints sample_structure)" "1 \<in> jointed (ps_joints sample_structure)"
    by (auto simp: jointed_def sample_structure_def)
  have "{3, 4, 5} = {b. (3, b) \<in> welded (ps_joints sample_structure)}" "{0, 1} = {b. (1, b) \<in> welded (ps_joints sample_structure)}"
    using mobile_groups_correct [OF j(1)] mobile_groups_correct [OF j(2)] by (simp_all add: sample_groups)
  then have "(3, b) \<in> welded (ps_joints sample_structure) \<longleftrightarrow> b \<in> {3, 4, 5}" "(1, b) \<in> welded (ps_joints sample_structure) \<longleftrightarrow> b \<in> {0, 1}" for b
    by blast+
  then show ?thesis by simp
qed

theorem kinematic_chains_correct_witness:
  "group_kinematic_chains sample_structure = Inr ([0, 1, 2], [[3, 4]]) \<and> chain_ok sample_structure [0, 1, 2] [3, 4]"
proof -
  have "group_kinematic_chains sample_structure = Inr ([0, 1, 2], [[3, 4]])"
    by (simp add: group_kinematic_chains_def chain_step_def find_parent_model_index_def sample_structure_def upt_rec numeral_eq_Suc)
  then show ?thesis using kinematic_chains_correct [of sample_structure] by simp
qed

end
