(* ===== verification/Robot_State.thy ===== *)
theory Robot_State
  imports Mobile_Groups
begin

text \<open>
  The positions of a robot: the conversions of \<open>motion/robot_model.cc\<close> between the vector of all positions and the vectors of the
  model instances, the client's variant of them in \<open>draco/client_conversions.cc\<close>, the copying of a reference configuration
  into idle instances and arms, and the arms themselves.  The plant is the record of \<open>Holonomic\<close>, whose masks say which
  positions an instance has; \<open>rb_names\<close> are the names of the instances in the order of their indices.  A system configuration, a
  \<open>std::map\<close> from names to vectors, is a list of pairs with distinct names.
\<close>

record robot =
  rb_plant :: plant
  rb_names :: "string list"

type_synonym system_conf = "(string \<times> real list) list"

section \<open>Drake's access to the positions of an instance\<close>

definition mask_of :: "plant \<Rightarrow> nat \<Rightarrow> bool list" where
  "mask_of p i = (case map_of (instance_masks p) i of None \<Rightarrow> replicate (num_positions p) False | Some m \<Rightarrow> m)"

definition instance_positions :: "plant \<Rightarrow> nat \<Rightarrow> nat list" where
  "instance_positions p i = filter (\<lambda>k. mask_of p i ! k) [0..<num_positions p]"

definition instance_dim :: "plant \<Rightarrow> nat \<Rightarrow> nat" where "instance_dim p i = length (instance_positions p i)"

definition GetPositionsFromArray :: "plant \<Rightarrow> nat \<Rightarrow> real list \<Rightarrow> real list throws" where
  "GetPositionsFromArray p i q = (if length q \<noteq> num_positions p then Inl drake_throw else Inr (map ((!) q) (instance_positions p i)))"

definition SetPositionsInArray :: "plant \<Rightarrow> nat \<Rightarrow> real list \<Rightarrow> real list \<Rightarrow> real list throws" where
  "SetPositionsInArray p i v q = (if length q \<noteq> num_positions p \<or> length v \<noteq> instance_dim p i then Inl drake_throw
     else Inr (fill_free (instance_positions p i) v q))"

text \<open>What Drake guarantees of the masks: there is one for each instance with positions, and every position is in exactly one.\<close>

definition plant_ok :: "plant \<Rightarrow> bool" where
  "plant_ok p \<longleftrightarrow> distinct (map fst (instance_masks p))
     \<and> (\<forall>k < num_positions p. \<exists>!i. i \<in> fst ` set (instance_masks p) \<and> mask_of p i ! k)
     \<and> (\<forall>(i, m) \<in> set (instance_masks p). length m = num_positions p \<and> instance_positions p i \<noteq> [])"

definition robot_ok :: "robot \<Rightarrow> bool" where
  "robot_ok r \<longleftrightarrow> plant_ok (rb_plant r) \<and> distinct (rb_names r) \<and> (\<forall>i \<in> fst ` set (instance_masks (rb_plant r)). i < length (rb_names r))"

section \<open>Slots\<close>

text \<open>A value made of slots, each of which can be read and written without touching the others.\<close>

locale slots =
  fixes ok :: "'p \<Rightarrow> bool" and insts :: "'p \<Rightarrow> 'i set" and whole :: "'p \<Rightarrow> 'q \<Rightarrow> bool" and fits :: "'p \<Rightarrow> 'i \<Rightarrow> 'v \<Rightarrow> bool"
    and get :: "'p \<Rightarrow> 'i \<Rightarrow> 'q \<Rightarrow> exn + 'v" and put :: "'p \<Rightarrow> 'i \<Rightarrow> 'v \<Rightarrow> 'q \<Rightarrow> exn + 'q"
  assumes put_law: "ok p \<Longrightarrow> i \<in> insts p \<Longrightarrow> fits p i v \<Longrightarrow> whole p q \<Longrightarrow>
      \<exists>q'. put p i v q = Inr q' \<and> whole p q' \<and> get p i q' = Inr v \<and> (\<forall>j \<in> insts p. j \<noteq> i \<longrightarrow> get p j q' = get p j q)"
    and get_law: "ok p \<Longrightarrow> i \<in> insts p \<Longrightarrow> whole p q \<Longrightarrow> \<exists>v. get p i q = Inr v \<and> fits p i v"
    and ext_law: "ok p \<Longrightarrow> whole p q \<Longrightarrow> whole p q' \<Longrightarrow> \<forall>i \<in> insts p. get p i q = get p i q' \<Longrightarrow> q = q'"
begin

definition put_all :: "'p \<Rightarrow> ('i \<Rightarrow> 'v option) \<Rightarrow> 'i list \<Rightarrow> 'q \<Rightarrow> exn + 'q" where
  "put_all p val is q = foldE (\<lambda>i q. case val i of None \<Rightarrow> Inr q | Some v \<Rightarrow> put p i v q) is q"

lemma put_all_law:
  assumes "ok p" "whole p q" "\<forall>i \<in> set is. \<forall>v. val i = Some v \<longrightarrow> i \<in> insts p \<and> fits p i v"
  shows "\<exists>q'. put_all p val is q = Inr q' \<and> whole p q'
    \<and> (\<forall>j \<in> insts p. get p j q' = (case val j of Some v \<Rightarrow> if j \<in> set is then Inr v else get p j q | None \<Rightarrow> get p j q))"
  using assms(2,3)
proof (induction "is" arbitrary: q)
  case Nil
  then show ?case by (auto simp: put_all_def split: option.split)
next
  case (Cons i "is")
  show ?case
  proof (cases "val i")
    case None
    then show ?thesis using Cons.IH [OF Cons.prems(1)] Cons.prems(2) by (auto simp: put_all_def split: option.split)
  next
    case (Some v)
    then have "i \<in> insts p" "fits p i v" using Cons.prems(2) by auto
    from put_law [OF assms(1) this Cons.prems(1)] obtain q1 where q1: "put p i v q = Inr q1" "whole p q1"
        "get p i q1 = Inr v" "\<forall>j \<in> insts p. j \<noteq> i \<longrightarrow> get p j q1 = get p j q" by blast
    have "\<forall>i \<in> set is. \<forall>v. val i = Some v \<longrightarrow> i \<in> insts p \<and> fits p i v" using Cons.prems(2) by simp
    from Cons.IH [OF q1(2) this] obtain q' where q': "put_all p val is q1 = Inr q'" "whole p q'"
        "\<forall>j \<in> insts p. get p j q' = (case val j of Some v \<Rightarrow> if j \<in> set is then Inr v else get p j q1 | None \<Rightarrow> get p j q1)" by blast
    have "put_all p val (i # is) q = Inr q'" using q1(1) q'(1) Some by (simp add: put_all_def)
    moreover have "get p j q' = (case val j of Some v \<Rightarrow> if j \<in> set (i # is) then Inr v else get p j q | None \<Rightarrow> get p j q)"
      if "j \<in> insts p" for j
      using that q'(3) q1(3,4) Some by (cases "j = i") (auto split: option.split)
    ultimately show ?thesis using q'(2) by blast
  qed
qed

text \<open>Writing what was read of another value makes that value.\<close>

lemma put_all_copy:
  assumes "ok p" "whole p q" "whole p q0" "insts p \<subseteq> set is" "\<forall>i. i \<notin> insts p \<longrightarrow> val i = None"
    "\<forall>i \<in> insts p. \<exists>v. val i = Some v \<and> get p i q0 = Inr v"
  shows "put_all p val is q = Inr q0"
proof -
  have "\<forall>i \<in> set is. \<forall>v. val i = Some v \<longrightarrow> i \<in> insts p \<and> fits p i v"
  proof (intro ballI allI impI)
    fix i v assume v: "val i = Some v"
    then have i: "i \<in> insts p" using assms(5) by (cases "i \<in> insts p") auto
    then have "get p i q0 = Inr v" using assms(6) v by auto
    then show "i \<in> insts p \<and> fits p i v" using i get_law [OF assms(1) i assms(3)] by auto
  qed
  from put_all_law [OF assms(1,2) this] obtain q' where q': "put_all p val is q = Inr q'" "whole p q'"
      "\<forall>j \<in> insts p. get p j q' = (case val j of Some v \<Rightarrow> if j \<in> set is then Inr v else get p j q | None \<Rightarrow> get p j q)" by blast
  have "\<forall>i \<in> insts p. get p i q' = get p i q0" using q'(3) assms(4,6) by fastforce
  from ext_law [OF assms(1) q'(2) assms(3) this] q'(1) show ?thesis by simp
qed

end

lemma instance_positions_props: "distinct (instance_positions p i)" "\<forall>k \<in> set (instance_positions p i). k < num_positions p \<and> mask_of p i ! k"
  by (auto simp: instance_positions_def)

lemma fill_free_map:
  assumes "distinct is" "length v = length is" "\<forall>i \<in> set is. i < length q"
  shows "map ((!) (fill_free is v q)) is = v"
  by (rule nth_equalityI) (use assms fill_free_nth [of "is" v _ q] in auto)

lemma masks_apart:
  assumes "plant_ok p" "i \<in> fst ` set (instance_masks p)" "j \<in> fst ` set (instance_masks p)" "i \<noteq> j"
    "k \<in> set (instance_positions p i)"
  shows "k \<notin> set (instance_positions p j)"
  using assms by (auto simp: plant_ok_def instance_positions_def)

interpretation ps: slots plant_ok "\<lambda>p. fst ` set (instance_masks p)" "\<lambda>p q. length q = num_positions p" "\<lambda>p i v. length v = instance_dim p i"
  GetPositionsFromArray SetPositionsInArray
proof
  fix p i and v q :: "real list"
  assume a: "plant_ok p" "i \<in> fst ` set (instance_masks p)" "length v = instance_dim p i" "length q = num_positions p"
  let ?q = "fill_free (instance_positions p i) v q"
  have "map ((!) ?q) (instance_positions p i) = v"
    by (rule fill_free_map) (use instance_positions_props a in \<open>auto simp: instance_dim_def\<close>)
  moreover have "map ((!) ?q) (instance_positions p j) = map ((!) q) (instance_positions p j)"
    if "j \<in> fst ` set (instance_masks p)" "j \<noteq> i" for j
    using masks_apart [OF a(1) that(1) a(2) that(2)] by (auto intro!: map_cong fill_free_other)
  ultimately show "\<exists>q'. SetPositionsInArray p i v q = Inr q' \<and> length q' = num_positions p \<and> GetPositionsFromArray p i q' = Inr v
      \<and> (\<forall>j \<in> fst ` set (instance_masks p). j \<noteq> i \<longrightarrow> GetPositionsFromArray p j q' = GetPositionsFromArray p j q)"
    using a by (auto simp: SetPositionsInArray_def GetPositionsFromArray_def)
next
  fix p i and q :: "real list"
  assume "plant_ok p" "i \<in> fst ` set (instance_masks p)" "length q = num_positions p"
  then show "\<exists>v. GetPositionsFromArray p i q = Inr v \<and> length v = instance_dim p i"
    by (simp add: GetPositionsFromArray_def instance_dim_def)
next
  fix p and q q' :: "real list"
  assume a: "plant_ok p" "length q = num_positions p" "length q' = num_positions p"
    "\<forall>i \<in> fst ` set (instance_masks p). GetPositionsFromArray p i q = GetPositionsFromArray p i q'"
  show "q = q'"
  proof (rule nth_equalityI)
    fix k assume k: "k < length q"
    have "\<exists>!i. i \<in> fst ` set (instance_masks p) \<and> mask_of p i ! k"
      using a(1) k a(2) unfolding plant_ok_def by (elim conjE) simp
    then obtain i where i: "i \<in> fst ` set (instance_masks p)" "mask_of p i ! k" by (elim ex1E conjE)
    then have "k \<in> set (instance_positions p i)" using k a(2) by (simp add: instance_positions_def)
    moreover have "GetPositionsFromArray p i q = GetPositionsFromArray p i q'" using a(4) i(1) by (rule bspec)
    ultimately show "q ! k = q' ! k" using a(2,3) by (simp add: GetPositionsFromArray_def)
  qed (use a in simp)
qed

section \<open>System configurations\<close>

abbreviation instances :: "robot \<Rightarrow> nat list" where "instances r \<equiv> [0..<length (rb_names r)]"

definition ToGeneralizedPosition :: "robot \<Rightarrow> system_conf \<Rightarrow> real list throws" where
  "ToGeneralizedPosition r c =
     (if list_ex (\<lambda>(k, _). k \<notin> set (rb_names r)) c
      then Inl ''RobotModel:ToGeneralizedPosition: Sysconf includes robot name which is not specified in the robot model.''
      else foldE (\<lambda>i q. if instance_dim (rb_plant r) i > 0 then
          (case map_of c (rb_names r ! i) of
             None \<Rightarrow> Inl ''PartialSysconfError''
           | Some v \<Rightarrow> SetPositionsInArray (rb_plant r) i v q) else Inr q)
        (instances r) (replicate (num_positions (rb_plant r)) 0))"

definition IsSysconfComplete :: "robot \<Rightarrow> system_conf \<Rightarrow> bool" where
  "IsSysconfComplete r c = list_all (\<lambda>i. instance_dim (rb_plant r) i > 0 \<longrightarrow> rb_names r ! i \<in> fst ` set c) (instances r)"

definition ToSystemConf :: "robot \<Rightarrow> real list \<Rightarrow> system_conf throws" where
  "ToSystemConf r q = mapE (\<lambda>i. bindE (GetPositionsFromArray (rb_plant r) i q) (\<lambda>v. Inr (rb_names r ! i, v)))
     (filter (\<lambda>i. instance_dim (rb_plant r) i > 0) (instances r))"

text \<open>An instance named in a configuration must exist and move.\<close>

definition named_instance :: "robot \<Rightarrow> string \<Rightarrow> nat throws" where
  "named_instance r k = (case find (\<lambda>i. rb_names r ! i = k) (instances r) of
       None \<Rightarrow> Inl drake_throw
     | Some i \<Rightarrow> if instance_dim (rb_plant r) i > 0 then Inr i else Inl drake_throw)"

definition ReduceSystemConf :: "robot \<Rightarrow> holonomic_mapping \<Rightarrow> system_conf \<Rightarrow> system_conf throws" where
  "ReduceSystemConf r h c = mapE (\<lambda>(k, v). bindE (named_instance r k) (\<lambda>i. bindE (ReduceInstance h i v) (\<lambda>w. Inr (k, w)))) c"

definition LiftSystemConf :: "robot \<Rightarrow> holonomic_mapping \<Rightarrow> system_conf \<Rightarrow> system_conf throws" where
  "LiftSystemConf r h c = mapE (\<lambda>(k, v). bindE (named_instance r k) (\<lambda>i. bindE (LiftInstance h i v) (\<lambda>w. Inr (k, w)))) c"

definition GetModelStartIndex :: "plant \<Rightarrow> nat \<Rightarrow> nat throws" where
  "GetModelStartIndex p i = (if instance_dim p i = 0 then Inl drake_throw
     else case find (\<lambda>k. mask_of p i ! k) [0..<num_positions p] of None \<Rightarrow> Inl ''DRAKE_DEMAND(start_position >= 0)'' | Some k \<Rightarrow> Inr k)"

definition CalcContinuousRevoluteJointIndices :: "robot \<Rightarrow> (string \<times> nat) list \<Rightarrow> nat list throws" where
  "CalcContinuousRevoluteJointIndices r = mapE (\<lambda>(k, pos). case find (\<lambda>i. rb_names r ! i = k) (instances r) of
       None \<Rightarrow> Inl drake_throw
     | Some i \<Rightarrow> bindE (GetModelStartIndex (rb_plant r) i) (\<lambda>start. Inr (start + pos)))"

text \<open>The client's conversion, in \<open>draco/client_conversions.cc\<close>.\<close>

datatype to_generalized_behavior = kThrowOnMissing | kAssumeZeroOnMissing | kCompleteFromReferenceOnMissing | kArm

definition client_ToGeneralizedPosition :: "robot \<Rightarrow> system_conf \<Rightarrow> to_generalized_behavior \<Rightarrow> system_conf option \<Rightarrow> real list throws" where
  "client_ToGeneralizedPosition r c behavior ref_opt =
     foldE (\<lambda>i q. if instance_dim (rb_plant r) i = 0 then Inr q
       else case map_of c (rb_names r ! i) of
           Some v \<Rightarrow> if length v \<noteq> instance_dim (rb_plant r) i then Inl ''ToGeneralizedPosition: Size mismatch for robot instance''
             else SetPositionsInArray (rb_plant r) i v q
         | None \<Rightarrow> if behavior = kThrowOnMissing then Inl ''ToGeneralizedPosition: Missing configuration for robot instance''
             else if behavior = kCompleteFromReferenceOnMissing
             then (case ref_opt of None \<Rightarrow> Inl ''ToGeneralizedPosition: Missing reference configuration''
               | Some ref \<Rightarrow> (case map_of ref (rb_names r ! i) of
                     None \<Rightarrow> Inl ''ToGeneralizedPosition: Missing reference configuration''
                   | Some v \<Rightarrow> SetPositionsInArray (rb_plant r) i v q))
             else Inr q)
       (instances r) (replicate (num_positions (rb_plant r)) 0)"

section \<open>Idle instances and arms\<close>

definition copy_instance :: "plant \<Rightarrow> real list \<Rightarrow> nat \<Rightarrow> real list \<Rightarrow> real list throws" where
  "copy_instance p ref i v = bindE (GetPositionsFromArray p i ref) (\<lambda>x. SetPositionsInArray p i x v)"

definition SetIdleModelsConfigToRef :: "plant \<Rightarrow> holonomic_mapping \<Rightarrow> real list \<Rightarrow> real list \<Rightarrow> nat set \<Rightarrow> real list throws" where
  "SetIdleModelsConfigToRef p h q q_ref active = (let q = (if active = {} then q_ref else q) in
     bindE (Lift h q) (\<lambda>q_lifted. bindE (Lift h q_ref) (\<lambda>ref_lifted.
       bindE (foldE (\<lambda>i v. if i \<in> active then Inr v else copy_instance p ref_lifted i v) (map fst (instance_masks p)) q_lifted)
         (Reduce h))))"

text \<open>An arm: its instances in the order of the chain, its name, and the mask of its positions.\<close>

record arm =
  arm_instances :: "nat list"
  arm_name :: string
  arm_mask :: "bool list"

definition get_arm_index :: "arm list \<Rightarrow> nat \<Rightarrow> nat option" where
  "get_arm_index arms i = find (\<lambda>a. i \<in> set (arm_instances (arms ! a))) [0..<length arms]"

definition SetIdleArmsConfigToRef :: "robot \<Rightarrow> holonomic_mapping \<Rightarrow> arm list \<Rightarrow> real list \<Rightarrow> real list \<Rightarrow> nat set \<Rightarrow> real list throws" where
  "SetIdleArmsConfigToRef r h arms q q_ref active = (let p = rb_plant r; active_arms = get_arm_index arms ` active in
     if arms = [] then Inl ''DRAKE_DEMAND(num_arms() > 0)''
     else bindE (Lift h q) (\<lambda>q_lifted. bindE (Lift h q_ref) (\<lambda>ref_lifted.
       bindE (foldE (\<lambda>i v. if instance_dim p i > 0 \<and> get_arm_index arms i \<noteq> None \<and> get_arm_index arms i \<notin> active_arms
           then copy_instance p ref_lifted i v else Inr v) (instances r) q_lifted)
         (Reduce h))))"

text \<open>The arms from the chains of the plant.  A directive of the model belongs to the arm of the instance it makes; parsing the
  directives of an arm into a plant of its own is Drake's work, of which \<open>arm_positions\<close> is the number of positions.\<close>

datatype directive = AddCollisionFilterGroup | AddDirectives | AddFrame string | AddModel string | AddModelInstance string
  | AddWeld string string | NoDirective

definition directive_in :: "(string \<Rightarrow> nat throws) \<Rightarrow> (string \<Rightarrow> nat throws) \<Rightarrow> nat list \<Rightarrow> nat list \<Rightarrow> directive \<Rightarrow> bool throws" where
  "directive_in frame_instance model_named env chain d = (case d of
       AddCollisionFilterGroup \<Rightarrow> Inr False
     | AddDirectives \<Rightarrow> Inl ''RobotModel:FindArms: add_directives not supported yet.''
     | AddFrame k \<Rightarrow> bindE (frame_instance k) (\<lambda>i. Inr (i \<in> set chain))
     | AddModel k \<Rightarrow> bindE (model_named k) (\<lambda>i. Inr (i \<in> set chain))
     | AddModelInstance k \<Rightarrow> Inl ''RobotModel:FindArms: add_model_instance not supported yet.''
     | AddWeld parent child \<Rightarrow> bindE (frame_instance parent) (\<lambda>p. bindE (frame_instance child) (\<lambda>c.
         if c \<in> set chain then (if p \<in> set chain \<or> p \<in> set env then Inr True else Inl ''DRAKE_DEMAND'') else Inr False))
     | NoDirective \<Rightarrow> Inl ''RobotModel:FindArms: Unknown directive encountered in DMD.'')"

definition arm_directives :: "(string \<Rightarrow> nat throws) \<Rightarrow> (string \<Rightarrow> nat throws) \<Rightarrow> nat list \<Rightarrow> nat list \<Rightarrow> directive list \<Rightarrow> directive list throws" where
  "arm_directives frame_instance model_named env chain dmd =
     foldE (\<lambda>d acc. bindE (directive_in frame_instance model_named env chain d) (\<lambda>b. Inr (if b then acc @ [d] else acc))) dmd []"

definition RobotArm :: "plant \<Rightarrow> nat list \<Rightarrow> nat \<Rightarrow> string \<Rightarrow> arm throws" where
  "RobotArm p is positions name =
     (let msk = fold (\<lambda>i m. map2 (\<or>) m (mask_of p i)) is (replicate (num_positions p) False) in
      if length (filter id msk) = positions then Inr \<lparr> arm_instances = is, arm_name = name, arm_mask = msk \<rparr>
      else Inl ''DRAKE_DEMAND(dof_mask_.count() == plant_->num_positions())'')"

definition GetPositionFromOriginalPlant :: "plant \<Rightarrow> arm \<Rightarrow> real list \<Rightarrow> real list throws" where
  "GetPositionFromOriginalPlant p a q = (if length q \<noteq> num_positions p then Inl ''DRAKE_DEMAND''
     else Inr (map ((!) q) (filter (\<lambda>k. arm_mask a ! k) [0..<num_positions p])))"

definition FindArms :: "robot \<Rightarrow> plant_structure \<Rightarrow> (string \<Rightarrow> nat throws) \<Rightarrow> (string \<Rightarrow> nat throws) \<Rightarrow> (directive list \<Rightarrow> nat throws)
    \<Rightarrow> directive list \<Rightarrow> arm list throws" where
  "FindArms r ps frame_instance model_named arm_positions dmd = bindE (group_kinematic_chains ps) (\<lambda>(env, opens).
     mapE (\<lambda>chain. bindE (arm_directives frame_instance model_named env chain dmd) (\<lambda>ds. bindE (arm_positions ds) (\<lambda>n.
       RobotArm (rb_plant r) chain n (''arm'' @ concat (map (\<lambda>i. ''_'' @ rb_names r ! i) chain))))) opens)"

section \<open>The conversions\<close>

lemma foldE_cong: "(\<And>x s. x \<in> set xs \<Longrightarrow> f x s = g x s) \<Longrightarrow> foldE f xs s = foldE g xs s"
  by (induction xs arbitrary: s) (auto simp: bindE_def split: sum.split)

lemma foldE_mono:
  assumes "foldE f xs s = Inr t" "\<And>x s t. x \<in> set xs \<Longrightarrow> f x s = Inr t \<Longrightarrow> g x s = Inr t"
  shows "foldE g xs s = Inr t"
  using assms by (induction xs arbitrary: s) (auto simp: bindE_Inr_iff)

lemma dim_pos_iff: "plant_ok p \<Longrightarrow> instance_dim p i > 0 \<longleftrightarrow> i \<in> fst ` set (instance_masks p)"
proof
  assume ok: "plant_ok p" and "i \<in> fst ` set (instance_masks p)"
  then obtain m where m: "(i, m) \<in> set (instance_masks p)" by auto
  have "\<forall>(i, m) \<in> set (instance_masks p). length m = num_positions p \<and> instance_positions p i \<noteq> []"
    using ok unfolding plant_ok_def by (elim conjE)
  from bspec [OF this m] show "instance_dim p i > 0" by (simp add: instance_dim_def)
next
  assume pos: "instance_dim p i > 0"
  show "i \<in> fst ` set (instance_masks p)"
  proof (rule ccontr)
    assume "i \<notin> fst ` set (instance_masks p)"
    then have "map_of (instance_masks p) i = None" by (simp add: map_of_eq_None_iff)
    then show False using pos by (simp add: instance_dim_def instance_positions_def mask_of_def)
  qed
qed

lemma positioned_instance: "plant_ok p \<Longrightarrow> k \<in> set (instance_positions p i) \<Longrightarrow> i \<in> fst ` set (instance_masks p)"
  using dim_pos_iff [of p i] by (auto simp: instance_dim_def)

lemma robot_okD:
  assumes "robot_ok r"
  shows "plant_ok (rb_plant r)" "distinct (rb_names r)" "fst ` set (instance_masks (rb_plant r)) \<subseteq> set (instances r)"
  using assms by (auto simp: robot_ok_def)

definition conf_at :: "robot \<Rightarrow> system_conf \<Rightarrow> nat \<Rightarrow> real list option" where
  "conf_at r c i = (if instance_dim (rb_plant r) i > 0 then map_of c (rb_names r ! i) else None)"

lemma ToGeneralizedPosition_complete:
  assumes "IsSysconfComplete r c" "\<forall>k \<in> fst ` set c. k \<in> set (rb_names r)"
  shows "ToGeneralizedPosition r c = ps.put_all (rb_plant r) (conf_at r c) (instances r) (replicate (num_positions (rb_plant r)) 0)"
proof -
  have "\<not> list_ex (\<lambda>(k, _). k \<notin> set (rb_names r)) c" using assms(2) by (auto simp: list_ex_iff)
  moreover have "instance_dim (rb_plant r) i = 0" if "i < length (rb_names r)" "map_of c (rb_names r ! i) = None" for i
    using assms(1) that by (auto simp: IsSysconfComplete_def list_all_iff map_of_eq_None_iff)
  ultimately show ?thesis
    unfolding ToGeneralizedPosition_def ps.put_all_def
    by (auto intro!: foldE_cong simp: conf_at_def split: option.split)
qed

text \<open>C27: Positions survive the round trip through a system configuration: a vector of all positions is split into the vectors of its
  instances, the result is complete, and both the robot model's and the client's conversion make the vector of it again.\<close>
theorem positions_roundtrip:
  assumes "robot_ok r" "length q = num_positions (rb_plant r)"
  shows "\<exists>c. ToSystemConf r q = Inr c \<and> IsSysconfComplete r c \<and> ToGeneralizedPosition r c = Inr q
    \<and> client_ToGeneralizedPosition r c b ref = Inr q"
proof -
  let ?p = "rb_plant r" and ?is = "filter (\<lambda>i. instance_dim (rb_plant r) i > 0) (instances r)"
  let ?get = "\<lambda>i. map ((!) q) (instance_positions ?p i)"
  let ?c = "map (\<lambda>i. (rb_names r ! i, ?get i)) ?is"
  note ok = robot_okD [OF assms(1)]
  have c: "ToSystemConf r q = Inr ?c"
    unfolding ToSystemConf_def by (rule mapE_total) (simp add: GetPositionsFromArray_def assms(2))
  have complete: "IsSysconfComplete r ?c" by (force simp: IsSysconfComplete_def list_all_iff)
  have known: "\<forall>k \<in> fst ` set ?c. k \<in> set (rb_names r)" by auto
  have at: "map_of ?c (rb_names r ! i) = Some (?get i)" if "i < length (rb_names r)" "instance_dim ?p i > 0" for i
  proof (rule map_of_is_SomeI)
    show "distinct (map fst ?c)" using ok(2) by (auto simp: distinct_map inj_on_def nth_eq_iff_index_eq o_def)
    show "(rb_names r ! i, ?get i) \<in> set ?c" using that by auto
  qed
  have pos: "ToGeneralizedPosition r ?c = Inr q"
    unfolding ToGeneralizedPosition_complete [OF complete known]
  proof (rule ps.put_all_copy [OF ok(1) _ assms(2) ok(3)])
    show "\<forall>i. i \<notin> fst ` set (instance_masks ?p) \<longrightarrow> conf_at r ?c i = None"
      using dim_pos_iff [OF ok(1)] by (simp add: conf_at_def)
    show "\<forall>i \<in> fst ` set (instance_masks ?p). \<exists>v. conf_at r ?c i = Some v \<and> GetPositionsFromArray ?p i q = Inr v"
    proof
      fix i assume i: "i \<in> fst ` set (instance_masks ?p)"
      then have "instance_dim ?p i > 0" using dim_pos_iff [OF ok(1)] by blast
      moreover have "i < length (rb_names r)" using ok(3) i by auto
      ultimately show "\<exists>v. conf_at r ?c i = Some v \<and> GetPositionsFromArray ?p i q = Inr v"
        using at by (simp add: conf_at_def GetPositionsFromArray_def assms(2))
    qed
  qed simp
  have "client_ToGeneralizedPosition r ?c b ref = Inr q"
    unfolding client_ToGeneralizedPosition_def
  proof (rule foldE_mono)
    show "foldE (\<lambda>i q. if instance_dim ?p i > 0 then (case map_of ?c (rb_names r ! i) of None \<Rightarrow> Inl ''PartialSysconfError''
           | Some v \<Rightarrow> SetPositionsInArray ?p i v q) else Inr q) (instances r) (replicate (num_positions ?p) 0) = Inr q"
      using pos by (simp add: ToGeneralizedPosition_def split: if_splits)
  qed (auto simp: SetPositionsInArray_def split: option.splits if_splits)
  then show ?thesis using c complete pos by blast
qed

text \<open>The client's conversion is the robot model's one on the configurations of the robot's own instances: names the robot does not
  have, which the robot model refuses, are passed over in silence.\<close>
theorem client_conversion_agrees:
  "client_ToGeneralizedPosition r c kThrowOnMissing ref = Inr q \<longleftrightarrow>
     ToGeneralizedPosition r (filter (\<lambda>(k, _). k \<in> set (rb_names r)) c) = Inr q"
proof -
  let ?c = "filter (\<lambda>(k, _). k \<in> set (rb_names r)) c"
  have known: "\<not> list_ex (\<lambda>(k, _). k \<notin> set (rb_names r)) ?c" by (auto simp: list_ex_iff)
  have lookup: "map_of ?c k = map_of c k" if "k \<in> set (rb_names r)" for k
    using that by (induction c) auto
  show ?thesis
  proof
    assume "client_ToGeneralizedPosition r c kThrowOnMissing ref = Inr q"
    then show "ToGeneralizedPosition r ?c = Inr q"
      unfolding client_ToGeneralizedPosition_def ToGeneralizedPosition_def if_not_P [OF known]
      by (rule foldE_mono) (auto simp: lookup split: if_splits option.splits)
  next
    assume "ToGeneralizedPosition r ?c = Inr q"
    then show "client_ToGeneralizedPosition r c kThrowOnMissing ref = Inr q"
      unfolding client_ToGeneralizedPosition_def ToGeneralizedPosition_def if_not_P [OF known]
      by (rule foldE_mono) (auto simp: lookup SetPositionsInArray_def split: if_splits option.splits)
  qed
qed

section \<open>Idle instances\<close>

text \<open>Which positions the reduced index \<open>j\<close> stands for, and that lifting and reducing keep them.\<close>

lemma mapping_length: "HolonomicMapping p = Inr h \<Longrightarrow> hm_n h = num_positions p \<and> (is_identity h \<longrightarrow> hm_m h = num_positions p)"
  by (auto simp: HolonomicMapping_def Let_def bindE_Inr_iff split: if_splits)

lemma free_indices_of:
  assumes "HolonomicMapping p = Inr h" "\<not> is_identity h"
  shows "minimal_to_full h = filter (\<lambda>i. i \<notin> fst ` set (mimicking_joints h)) [0..<num_positions p]" "length (minimal_to_full h) = hm_m h"
  using HolonomicMapping_inv [OF assms(1)] assms mapping_length [OF assms(1)] by (auto simp: hm_inv_def)

lemma Lift_total:
  assumes "HolonomicMapping p = Inr h" "length q = hm_m h"
  shows "\<exists>v. Lift h q = Inr v \<and> length v = num_positions p \<and> (\<forall>j < hm_m h. \<forall>k. LiftedIndex h j = Inr k \<longrightarrow> k < num_positions p \<and> v ! k = q ! j)"
proof (cases "is_identity h")
  case True
  then show ?thesis using assms mapping_length [OF assms(1)] by (simp add: Lift_def LiftedIndex_def)
next
  case False
  note free = free_indices_of [OF assms(1) False]
  obtain v where v: "Lift h q = Inr v" using assms(2) False by (simp add: Lift_def)
  then have "length v = num_positions p" using False assms(2) mapping_length [OF assms(1)] by (auto simp: Lift_def)
  moreover have "k < num_positions p \<and> v ! k = q ! j" if "j < hm_m h" "LiftedIndex h j = Inr k" for j k
  proof -
    have k: "k = minimal_to_full h ! j" using that False by (simp add: LiftedIndex_def)
    then have "k \<in> set (minimal_to_full h)" using free(2) that(1) by simp
    then have "k < num_positions p" unfolding free(1) by simp
    then show ?thesis using Lift_free [OF HolonomicMapping_inv [OF assms(1)] False assms(2) that(1)] v k by simp
  qed
  ultimately show ?thesis using v by blast
qed

lemma Reduce_total:
  assumes "HolonomicMapping p = Inr h" "length v = num_positions p"
  shows "\<exists>q. Reduce h v = Inr q \<and> length q = hm_m h \<and> (\<forall>j < hm_m h. \<forall>k. LiftedIndex h j = Inr k \<longrightarrow> q ! j = v ! k)"
  using assms mapping_length [OF assms(1)] free_indices_of [OF assms(1)]
  by (cases "is_identity h") (auto simp: Reduce_def LiftedIndex_def)

lemma get_nth:
  assumes "GetPositionsFromArray p i v = GetPositionsFromArray p i w" "length v = num_positions p" "length w = num_positions p"
    "k \<in> set (instance_positions p i)"
  shows "v ! k = w ! k"
  using assms by (auto simp: GetPositionsFromArray_def)

text \<open>Copying a reference into the instances of a set.\<close>

lemma copy_instances:
  assumes "plant_ok p" "length v = num_positions p" "length ref = num_positions p" "\<And>i. idle i \<Longrightarrow> i \<in> fst ` set (instance_masks p)"
  shows "\<exists>w. foldE (\<lambda>i v. if idle i then copy_instance p ref i v else Inr v) is v = Inr w \<and> length w = num_positions p
    \<and> (\<forall>i k. k \<in> set (instance_positions p i) \<longrightarrow> w ! k = (if idle i \<and> i \<in> set is then ref ! k else v ! k))"
proof -
  let ?val = "\<lambda>i. if idle i then Some (map ((!) ref) (instance_positions p i)) else None"
  have get: "GetPositionsFromArray p i ref = Inr (map ((!) ref) (instance_positions p i))" for i
    by (simp add: GetPositionsFromArray_def assms(3))
  have all: "foldE (\<lambda>i v. if idle i then copy_instance p ref i v else Inr v) is v = ps.put_all p ?val is v"
    unfolding ps.put_all_def by (rule foldE_cong) (simp add: copy_instance_def get)
  have "\<forall>i \<in> set is. \<forall>x. ?val i = Some x \<longrightarrow> i \<in> fst ` set (instance_masks p) \<and> length x = instance_dim p i"
    using assms(4) by (auto simp: instance_dim_def)
  from ps.put_all_law [OF assms(1,2) this] obtain w where w: "ps.put_all p ?val is v = Inr w" "length w = num_positions p"
      "\<forall>i \<in> fst ` set (instance_masks p). GetPositionsFromArray p i w = (case ?val i of Some x \<Rightarrow> if i \<in> set is then Inr x
        else GetPositionsFromArray p i v | None \<Rightarrow> GetPositionsFromArray p i v)"
    by (elim exE conjE)
  have "w ! k = (if idle i \<and> i \<in> set is then ref ! k else v ! k)" if k: "k \<in> set (instance_positions p i)" for i k
  proof -
    note i = positioned_instance [OF assms(1) k]
    have "GetPositionsFromArray p i w = GetPositionsFromArray p i (if idle i \<and> i \<in> set is then ref else v)"
      using bspec [OF w(3) i] get by simp
    from get_nth [OF this w(2) _ k] show ?thesis using assms(2,3) by simp
  qed
  then show ?thesis unfolding all using w(1,2) by blast
qed

lemma reduce_copied:
  assumes "plant_ok p" "HolonomicMapping p = Inr h" "length q = hm_m h" "length q_ref = hm_m h"
    "\<And>i. idle i \<Longrightarrow> i \<in> fst ` set (instance_masks p) \<inter> set is"
  shows "\<exists>r. bindE (Lift h q) (\<lambda>q_lifted. bindE (Lift h q_ref) (\<lambda>ref_lifted.
      bindE (foldE (\<lambda>i v. if idle i then copy_instance p ref_lifted i v else Inr v) is q_lifted) (Reduce h))) = Inr r \<and> length r = hm_m h
    \<and> (\<forall>j k i. j < hm_m h \<and> LiftedIndex h j = Inr k \<and> k \<in> set (instance_positions p i) \<longrightarrow> r ! j = (if idle i then q_ref ! j else q ! j))"
proof -
  obtain v where v: "Lift h q = Inr v" "length v = num_positions p"
      "\<forall>j < hm_m h. \<forall>k. LiftedIndex h j = Inr k \<longrightarrow> k < num_positions p \<and> v ! k = q ! j"
    using Lift_total [OF assms(2,3)] by blast
  obtain ref where ref: "Lift h q_ref = Inr ref" "length ref = num_positions p"
      "\<forall>j < hm_m h. \<forall>k. LiftedIndex h j = Inr k \<longrightarrow> k < num_positions p \<and> ref ! k = q_ref ! j"
    using Lift_total [OF assms(2,4)] by blast
  obtain w where w: "foldE (\<lambda>i v. if idle i then copy_instance p ref i v else Inr v) is v = Inr w" "length w = num_positions p"
      "\<forall>i k. k \<in> set (instance_positions p i) \<longrightarrow> w ! k = (if idle i \<and> i \<in> set is then ref ! k else v ! k)"
    using copy_instances [OF assms(1) v(2) ref(2), of idle "is"] assms(5) by blast
  obtain r where r: "Reduce h w = Inr r" "length r = hm_m h" "\<forall>j < hm_m h. \<forall>k. LiftedIndex h j = Inr k \<longrightarrow> r ! j = w ! k"
    using Reduce_total [OF assms(2) w(2)] by blast
  have "r ! j = (if idle i then q_ref ! j else q ! j)"
    if "j < hm_m h" "LiftedIndex h j = Inr k" "k \<in> set (instance_positions p i)" for i j k
    using that v(3) ref(3) w(3) r(3) assms(5) [of i] by auto
  then show ?thesis using v(1) ref(1) w(1) r(1,2) by auto
qed

text \<open>C28: Idle instances take the reference and active ones keep their positions: after \<open>SetIdleModelsConfigToRef\<close> every joint of the
  reduced configuration that belongs to an active instance is as it was, and every other one is the reference's, also where joints
  mimic one another and also when no instance is active.\<close>
theorem idle_models_take_reference:
  assumes "plant_ok p" "HolonomicMapping p = Inr h" "length q = hm_m h" "length q_ref = hm_m h"
  shows "\<exists>r. SetIdleModelsConfigToRef p h q q_ref active = Inr r \<and> length r = hm_m h
    \<and> (\<forall>j k i. j < hm_m h \<and> LiftedIndex h j = Inr k \<and> k \<in> set (instance_positions p i)
         \<longrightarrow> r ! j = (if i \<in> active then q ! j else q_ref ! j))"
proof -
  let ?is = "map fst (instance_masks p)" and ?q = "if active = {} then q_ref else q"
  let ?idle = "\<lambda>i. i \<notin> active \<and> i \<in> set ?is"
  have same: "foldE (\<lambda>i v. if i \<in> active then Inr v else copy_instance p ref i v) ?is v
      = foldE (\<lambda>i v. if ?idle i then copy_instance p ref i v else Inr v) ?is v" for ref v
    by (rule foldE_cong) simp
  have len: "length ?q = hm_m h" using assms(3,4) by simp
  have "\<exists>r. SetIdleModelsConfigToRef p h q q_ref active = Inr r \<and> length r = hm_m h
      \<and> (\<forall>j k i. j < hm_m h \<and> LiftedIndex h j = Inr k \<and> k \<in> set (instance_positions p i) \<longrightarrow> r ! j = (if ?idle i then q_ref ! j else ?q ! j))"
    unfolding SetIdleModelsConfigToRef_def Let_def same by (rule reduce_copied [OF assms(1,2) len assms(4)]) simp
  then obtain r where r: "SetIdleModelsConfigToRef p h q q_ref active = Inr r" "length r = hm_m h"
      "\<forall>j k i. j < hm_m h \<and> LiftedIndex h j = Inr k \<and> k \<in> set (instance_positions p i) \<longrightarrow> r ! j = (if ?idle i then q_ref ! j else ?q ! j)"
    by (elim exE conjE)
  have "r ! j = (if i \<in> active then q ! j else q_ref ! j)"
    if "j < hm_m h" "LiftedIndex h j = Inr k" "k \<in> set (instance_positions p i)" for j k i
  proof -
    have "i \<in> set ?is" using positioned_instance [OF assms(1) that(3)] by simp
    moreover have "r ! j = (if ?idle i then q_ref ! j else ?q ! j)" using r(3) that by blast
    ultimately show ?thesis by auto
  qed
  then show ?thesis using r(1,2) by blast
qed

section \<open>Arms\<close>

lemma distinct_concat_unique:
  assumes "distinct (concat xss)" "a < length xss" "b < length xss" "x \<in> set (xss ! a)" "x \<in> set (xss ! b)"
  shows "a = b"
  using assms
proof (induction xss arbitrary: a b)
  case (Cons xs xss)
  have "x \<in> set (concat xss)" if "c < length xss" "x \<in> set (xss ! c)" for c using that nth_mem by fastforce
  then show ?case using Cons by (cases a; cases b) (auto simp: disjoint_iff)
qed simp

lemma find_unique:
  assumes "a < n" "P a" "\<And>b. b < n \<Longrightarrow> P b \<Longrightarrow> b = a"
  shows "find P [0..<n] = Some a"
proof (cases "find P [0..<n]")
  case (Some b)
  then have "b < n" "P b" by (auto simp: find_Some_iff)
  then show ?thesis using Some assms(3) by simp
qed (use assms(1,2) in \<open>auto simp: find_None_iff\<close>)

lemma RobotArm_mask:
  assumes "plant_ok p" "RobotArm p is n name = Inr a"
  shows "arm_instances a = is \<and> (k < num_positions p \<longrightarrow> (arm_mask a ! k \<longleftrightarrow> (\<exists>i \<in> set is. k \<in> set (instance_positions p i))))"
proof -
  have len: "length (mask_of p i) = num_positions p" for i
  proof (cases "map_of (instance_masks p) i")
    case (Some m)
    have "\<forall>(i, m) \<in> set (instance_masks p). length m = num_positions p \<and> instance_positions p i \<noteq> []"
      using assms(1) unfolding plant_ok_def by (elim conjE)
    from bspec [OF this map_of_SomeD [OF Some]] show ?thesis using Some by (simp add: mask_of_def)
  qed (simp add: mask_of_def)
  have "length (fold (\<lambda>i m. map2 (\<or>) m (mask_of p i)) is m) = num_positions p
      \<and> (k < num_positions p \<longrightarrow> (fold (\<lambda>i m. map2 (\<or>) m (mask_of p i)) is m ! k \<longleftrightarrow> m ! k \<or> (\<exists>i \<in> set is. mask_of p i ! k)))"
    if "length m = num_positions p" for m
    using that by (induction "is" arbitrary: m) (auto simp: len)
  from this [of "replicate (num_positions p) False"] show ?thesis
    using assms(2) by (auto simp: RobotArm_def Let_def instance_positions_def split: if_splits)
qed

text \<open>C29: The arms share nothing and leave out no moving instance: every moving instance but Drake's own two is in exactly one arm, which
  \<open>get_arm_index\<close> finds, and no position is in the masks of two arms.\<close>
theorem arms_correct:
  assumes "robot_ok r" "FindArms r ps frame_instance model_named arm_positions dmd = Inr arms"
    "\<And>i. ps_num_positions ps i = instance_dim (rb_plant r) i"
  shows "(\<forall>i. 2 \<le> i \<and> i < ps_num_instances ps \<and> instance_dim (rb_plant r) i > 0 \<longrightarrow>
       (\<exists>a < length arms. i \<in> set (arm_instances (arms ! a)) \<and> get_arm_index arms i = Some a))
    \<and> (\<forall>a < length arms. \<forall>i \<in> set (arm_instances (arms ! a)). get_arm_index arms i = Some a)
    \<and> (\<forall>a < length arms. \<forall>b < length arms. \<forall>k < num_positions (rb_plant r). arm_mask (arms ! a) ! k \<and> arm_mask (arms ! b) ! k \<longrightarrow> a = b)"
proof -
  let ?p = "rb_plant r"
  note ok = robot_okD(1) [OF assms(1)]
  let ?arm = "\<lambda>env chain. bindE (arm_directives frame_instance model_named env chain dmd) (\<lambda>ds. bindE (arm_positions ds) (\<lambda>n.
       RobotArm ?p chain n (''arm'' @ concat (map (\<lambda>i. ''_'' @ rb_names r ! i) chain))))"
  obtain env opens where g1: "group_kinematic_chains ps = Inr (env, opens)" and made: "mapE (?arm env) opens = Inr arms"
    using assms(2) unfolding FindArms_def by (cases "group_kinematic_chains ps") auto
  have "list_all2 (\<lambda>c a. \<exists>n name. RobotArm ?p c n name = Inr a) opens arms"
  proof (rule list_all2_mono [OF made [unfolded mapE_Inr_iff]])
    show "\<exists>n name. RobotArm ?p c n name = Inr a" if "?arm env c = Inr a" for c a
      using that by (fastforce simp: bindE_Inr_iff simp del: append.simps)
  qed
  note g = g1 this
  have len: "length arms = length opens" using list_all2_lengthD [OF g(2)] by simp
  have arm: "arm_instances (arms ! a) = opens ! a
      \<and> (k < num_positions ?p \<longrightarrow> (arm_mask (arms ! a) ! k \<longleftrightarrow> (\<exists>i \<in> set (opens ! a). k \<in> set (instance_positions ?p i))))" if "a < length arms" for a k
    using list_all2_nthD2 [OF g(2) that] RobotArm_mask [OF ok] by blast
  note struct = kinematic_chains_inv [OF g(1)]
  have uniq: "a = b" if "a < length arms" "b < length arms" "i \<in> set (opens ! a)" "i \<in> set (opens ! b)" for a b i
    using distinct_concat_unique [of opens a b i] struct(1) that len by simp
  have found: "get_arm_index arms i = Some a" if "a < length arms" "i \<in> set (arm_instances (arms ! a))" for a i
    unfolding get_arm_index_def by (rule find_unique) (use that arm uniq in auto)
  have "\<exists>a < length arms. i \<in> set (arm_instances (arms ! a)) \<and> get_arm_index arms i = Some a"
    if i: "2 \<le> i" "i < ps_num_instances ps" "instance_dim ?p i > 0" for i
  proof -
    have "i \<in> set env \<union> set (concat opens)" unfolding struct(2) using i(2) by simp
    moreover have "i \<notin> set env" using struct(3) i(1,3) assms(3) by force
    ultimately obtain c where "c \<in> set opens" "i \<in> set c" by auto
    then obtain a where "a < length opens" "i \<in> set (opens ! a)" by (metis in_set_conv_nth)
    then show ?thesis using found arm len by auto
  qed
  moreover have "a = b" if ab: "a < length arms" "b < length arms" "k < num_positions ?p" "arm_mask (arms ! a) ! k" "arm_mask (arms ! b) ! k" for a b k
  proof -
    obtain i j where ij: "i \<in> set (opens ! a)" "k \<in> set (instance_positions ?p i)" "j \<in> set (opens ! b)" "k \<in> set (instance_positions ?p j)"
      using ab arm by blast
    have "i = j"
      using masks_apart [OF ok positioned_instance [OF ok ij(2)] positioned_instance [OF ok ij(4)] _ ij(2)] ij(4) by blast
    then show ?thesis using uniq ab(1,2) ij(1,3) by blast
  qed
  ultimately show ?thesis using found by blast
qed

text \<open>The same for idle arms: an instance of an arm with an active instance keeps its positions.\<close>

lemma idle_arms_take_reference:
  assumes "robot_ok r" "HolonomicMapping (rb_plant r) = Inr h" "length q = hm_m h" "length q_ref = hm_m h" "arms \<noteq> []"
  shows "\<exists>q'. SetIdleArmsConfigToRef r h arms q q_ref active = Inr q' \<and> length q' = hm_m h
    \<and> (\<forall>j k i. j < hm_m h \<and> LiftedIndex h j = Inr k \<and> k \<in> set (instance_positions (rb_plant r) i)
         \<longrightarrow> q' ! j = (if get_arm_index arms i \<noteq> None \<and> get_arm_index arms i \<notin> get_arm_index arms ` active then q_ref ! j else q ! j))"
proof -
  let ?p = "rb_plant r"
  let ?idle = "\<lambda>i. instance_dim ?p i > 0 \<and> get_arm_index arms i \<noteq> None \<and> get_arm_index arms i \<notin> get_arm_index arms ` active"
  note ok = robot_okD [OF assms(1)]
  have "?idle i \<Longrightarrow> i \<in> fst ` set (instance_masks ?p) \<inter> set (instances r)" for i
    using dim_pos_iff [OF ok(1)] ok(3) by blast
  from reduce_copied [OF ok(1) assms(2-4), of ?idle, OF this] obtain q' where
      q': "SetIdleArmsConfigToRef r h arms q q_ref active = Inr q'" "length q' = hm_m h"
      "\<forall>j k i. j < hm_m h \<and> LiftedIndex h j = Inr k \<and> k \<in> set (instance_positions ?p i) \<longrightarrow> q' ! j = (if ?idle i then q_ref ! j else q ! j)"
    using assms(5) unfolding SetIdleArmsConfigToRef_def Let_def by auto
  have "instance_dim ?p i > 0" if "k \<in> set (instance_positions ?p i)" for i k using that by (auto simp: instance_dim_def)
  then show ?thesis using q' by (intro exI [of _ q']) auto
qed

section \<open>Witnesses\<close>

text \<open>The plant of \<open>sample_structure\<close>: only the arm has positions, and the gripper's second finger mimics the first.\<close>

definition sample_robot :: robot where
  "sample_robot = \<lparr> rb_plant = \<lparr> num_positions = 4, couplers = [(3, 2, -1, 0)], instance_masks = [(3, [True, True, False, False]), (4, [False, False, True, True])] \<rparr>,
     rb_names = [''world'', ''default'', ''base'', ''arm'', ''gripper''] \<rparr>"

lemma sample_masks:
  "mask_of (rb_plant sample_robot) i = (if i = 3 then [True, True, False, False] else if i = 4 then [False, False, True, True] else replicate 4 False)"
  by (simp add: mask_of_def sample_robot_def)

lemma sample_robot_ok: "robot_ok sample_robot"
proof -
  have "\<exists>!i. i \<in> fst ` set (instance_masks (rb_plant sample_robot)) \<and> mask_of (rb_plant sample_robot) i ! k" if "k < 4" for k
  proof (cases "k < 2")
    case True
    then have "k = 0 \<or> k = 1" by auto
    then show ?thesis unfolding sample_masks by (intro ex1I [of _ 3]) (auto simp: sample_robot_def)
  next
    case False
    with that have "k = 2 \<or> k = 3" by auto
    then show ?thesis unfolding sample_masks by (intro ex1I [of _ 4]) (auto simp: sample_robot_def)
  qed
  moreover have "num_positions (rb_plant sample_robot) = 4" by (simp add: sample_robot_def)
  moreover have "instance_positions (rb_plant sample_robot) 3 = [0, 1]" "instance_positions (rb_plant sample_robot) 4 = [2, 3]"
    unfolding instance_positions_def sample_masks by (simp_all add: sample_robot_def upt_rec)
  moreover have "instance_masks (rb_plant sample_robot) = [(3, [True, True, False, False]), (4, [False, False, True, True])]"
      "rb_names sample_robot = [''world'', ''default'', ''base'', ''arm'', ''gripper'']"
    by (simp_all add: sample_robot_def)
  ultimately show ?thesis unfolding robot_ok_def plant_ok_def by simp
qed

theorem positions_roundtrip_witness:
  "\<exists>c. ToSystemConf sample_robot [1, 2, 3, -3] = Inr c \<and> ToGeneralizedPosition sample_robot c = Inr [1, 2, 3, -3]"
  using positions_roundtrip [OF sample_robot_ok, of "[1, 2, 3, -3]"] by (auto simp: sample_robot_def)

definition robot_mapping :: holonomic_mapping where
  "robot_mapping = \<lparr> hm_n = 4, hm_m = 3, is_identity = False, mimicking_joints = [(3, 2, -1, 0)], minimal_to_full = [0, 1, 2],
     hm_instances = [(3, \<lparr> im_start = 0, im_count = 2, im_free = [0, 1] \<rparr>), (4, \<lparr> im_start = 2, im_count = 2, im_free = [0] \<rparr>)] \<rparr>"

lemma robot_mapping_ok: "HolonomicMapping (rb_plant sample_robot) = Inr robot_mapping"
  by (simp add: HolonomicMapping_def sample_robot_def robot_mapping_def Let_def free_indices_def instance_mapping_def numeral_eq_Suc)

theorem idle_models_take_reference_witness:
  "\<exists>r. SetIdleModelsConfigToRef (rb_plant sample_robot) robot_mapping [1, 2, 3] [7, 8, 9] {3} = Inr r \<and> r ! 0 = 1 \<and> r ! 2 = 9"
proof -
  have len: "length [1, 2, 3 :: real] = hm_m robot_mapping" "length [7, 8, 9 :: real] = hm_m robot_mapping" by (simp_all add: robot_mapping_def)
  obtain r where r: "SetIdleModelsConfigToRef (rb_plant sample_robot) robot_mapping [1, 2, 3] [7, 8, 9] {3} = Inr r"
      "\<forall>j k i. j < hm_m robot_mapping \<and> LiftedIndex robot_mapping j = Inr k \<and> k \<in> set (instance_positions (rb_plant sample_robot) i)
         \<longrightarrow> r ! j = (if i \<in> {3} then [1, 2, 3] ! j else [7, 8, 9] ! j)"
    using idle_models_take_reference [OF robot_okD(1) [OF sample_robot_ok] robot_mapping_ok len, of "{3}"] by blast
  have "0 \<in> set (instance_positions (rb_plant sample_robot) 3)" "2 \<in> set (instance_positions (rb_plant sample_robot) 4)"
    unfolding instance_positions_def sample_masks by (simp_all add: sample_robot_def)
  moreover have "LiftedIndex robot_mapping 0 = Inr 0" "LiftedIndex robot_mapping 2 = Inr 2" "hm_m robot_mapping = 3"
    by (simp_all add: LiftedIndex_def robot_mapping_def)
  ultimately have "r ! 0 = 1" "r ! 2 = 9" using r(2) [rule_format, of 0 0 3] r(2) [rule_format, of 2 2 4] by simp_all
  then show ?thesis using r(1) by blast
qed

text \<open>The arms of the sample: its gripper hangs on the arm.\<close>

definition robot_structure :: plant_structure where "robot_structure = sample_structure\<lparr> ps_num_positions := instance_dim (rb_plant sample_robot) \<rparr>"

definition robot_arm :: arm where
  "robot_arm = \<lparr> arm_instances = [3, 4], arm_name = ''arm_arm_gripper'', arm_mask = [True, True, True, True] \<rparr>"

lemma robot_arms: "FindArms sample_robot robot_structure (\<lambda>_. Inr 3) (\<lambda>k. Inr (if k = ''arm'' then 3 else if k = ''gripper'' then 4 else 2))
    (\<lambda>ds. Inr (2 * length ds)) [AddModel ''base'', AddModel ''arm'', AddModel ''gripper''] = Inr [robot_arm]"
proof -
  have dim: "instance_dim (rb_plant sample_robot) i = (if i = 3 \<or> i = 4 then 2 else 0)" for i
    unfolding instance_dim_def instance_positions_def sample_masks by (simp add: sample_robot_def upt_rec)
  have "group_kinematic_chains robot_structure = Inr ([0, 1, 2], [[3, 4]])"
    by (simp add: group_kinematic_chains_def chain_step_def find_parent_model_index_def robot_structure_def sample_structure_def dim
        upt_rec numeral_eq_Suc)
  moreover have "num_positions (rb_plant sample_robot) = 4" "rb_names sample_robot = [''world'', ''default'', ''base'', ''arm'', ''gripper'']"
    by (simp_all add: sample_robot_def)
  ultimately show ?thesis
    by (simp add: FindArms_def arm_directives_def directive_in_def RobotArm_def sample_masks robot_arm_def numeral_eq_Suc)
qed

theorem arms_correct_witness: "get_arm_index [robot_arm] 4 = Some 0"
  using arms_correct [OF sample_robot_ok robot_arms] by (simp add: robot_structure_def robot_arm_def)

end
