(* ===== verification/Kinematic_Hash.thy ===== *)
theory Kinematic_Hash
  imports Mobile_Groups
begin

text \<open>
  \<open>RobotModel::HashKinematics\<close>: what the hash of a robot is made of.  A joint has, beside what \<open>Mobile_Groups\<close> needs, its three
  fixed transforms, of Drake's type \<open>'x\<close>, on which the code only asks \<open>IsExactlyIdentity\<close>.  The tree, a \<open>std::map\<close>, is a list sorted
  by body; a parent without a joint of its own, which Drake's plants do not have, is an error.
\<close>

record 'x hash_joint = joint +
  hj_weld :: 'x
  hj_parent_frame :: 'x
  hj_child_frame :: 'x

record 'x kinematic_info =
  ki_parent :: nat
  ki_transforms :: "'x list"
  ki_joint :: nat
  ki_downstream :: bool

type_synonym 'x tree = "(nat \<times> 'x kinematic_info) list"

definition kinematic_info :: "('x \<Rightarrow> bool) \<Rightarrow> (nat \<Rightarrow> bool) \<Rightarrow> nat \<Rightarrow> 'x hash_joint \<Rightarrow> 'x kinematic_info" where
  "kinematic_info ident colliding n j = \<lparr> ki_parent = jt_parent j,
     ki_transforms = (if jt_type j = ''weld'' \<and> \<not> ident (hj_weld j) then [hj_weld j] else [])
       @ (if ident (hj_parent_frame j) then [] else [hj_parent_frame j]) @ (if ident (hj_child_frame j) then [] else [hj_child_frame j]),
     ki_joint = n, ki_downstream = colliding (jt_child j) \<rparr>"

definition world_node :: "'x kinematic_info" where
  "world_node = \<lparr> ki_parent = 0, ki_transforms = [], ki_joint = 0, ki_downstream = True \<rparr>"

definition kinematic_tree :: "('x \<Rightarrow> bool) \<Rightarrow> (nat \<Rightarrow> bool) \<Rightarrow> 'x hash_joint list \<Rightarrow> 'x tree throws" where
  "kinematic_tree ident colliding js =
     bindE (foldE (\<lambda>(n, j) t. if jt_child j \<in> fst ` set t then Inl ''DRAKE_DEMAND(kinematic_info_tree.count(child_body_idx) == 0)''
         else Inr (insort_key fst (jt_child j, kinematic_info ident colliding n j) t)) (enumerate 0 js) [])
       (\<lambda>t. Inr (insort_key fst (0, world_node) (filter (\<lambda>(b, _). b \<noteq> 0) t)))"

definition set_downstream :: "nat \<Rightarrow> 'x tree \<Rightarrow> 'x tree" where
  "set_downstream b t = map (\<lambda>(c, i). (c, if c = b then i\<lparr> ki_downstream := True \<rparr> else i)) t"

definition unmarked :: "'x tree \<Rightarrow> nat" where "unmarked t = length (filter (\<lambda>(_, i). \<not> ki_downstream i) t)"

lemma set_downstream_Cons: "set_downstream b ((c, i) # t) = (c, if c = b then i\<lparr> ki_downstream := True \<rparr> else i) # set_downstream b t"
  by (simp add: set_downstream_def)

lemma unmarked_Cons: "unmarked ((c, i) # t) = (if ki_downstream i then 0 else 1) + unmarked t"
  by (simp add: unmarked_def)

lemma set_downstream_unmarked_le: "unmarked (set_downstream b t) \<le> unmarked t"
proof (induction t)
  case (Cons x t)
  then show ?case by (cases x) (simp add: set_downstream_Cons unmarked_Cons)
qed (simp add: set_downstream_def)

lemma set_downstream_unmarked: "map_of t b = Some i \<Longrightarrow> \<not> ki_downstream i \<Longrightarrow> unmarked (set_downstream b t) < unmarked t"
proof (induction t)
  case (Cons x t)
  then show ?case using set_downstream_unmarked_le [of b t]
    by (cases x) (auto simp: set_downstream_Cons unmarked_Cons split: if_splits)
qed simp

text \<open>The inner loop: marking upwards until the world or a marked body.\<close>

function propagate :: "nat \<Rightarrow> 'x tree \<Rightarrow> 'x tree throws" where
  "propagate b t = (if b = 0 then Inr t else case map_of t b of
       None \<Rightarrow> Inl ''invalid index''
     | Some i \<Rightarrow> if ki_downstream i then Inr t else propagate (ki_parent i) (set_downstream b t))"
  by pat_completeness auto
termination
  by (relation "measure (\<lambda>(b, t). unmarked t)") (auto simp: set_downstream_unmarked)

definition propagate_from :: "nat \<Rightarrow> 'x tree \<Rightarrow> 'x tree throws" where
  "propagate_from b t = (case map_of t b of
       None \<Rightarrow> Inr t
     | Some i \<Rightarrow> if b = 0 \<or> \<not> ki_downstream i then Inr t else propagate (ki_parent i) t)"

definition mark_downstream :: "'x tree \<Rightarrow> 'x tree throws" where "mark_downstream t = foldE propagate_from (map fst t) t"

text \<open>What is fed to the hasher.\<close>

datatype 'x hashed = HTransform 'x | HType string

definition hash_node :: "'x hash_joint list \<Rightarrow> 'x kinematic_info \<Rightarrow> 'x hashed list throws" where
  "hash_node js i = (if \<not> ki_downstream i then Inr []
     else if ki_joint i < length js then Inr (map HTransform (ki_transforms i) @ [HType (jt_type (js ! ki_joint i))])
     else Inl ''get_joint: out of range'')"

definition HashKinematics :: "('x \<Rightarrow> bool) \<Rightarrow> (nat \<Rightarrow> bool) \<Rightarrow> 'x hash_joint list \<Rightarrow> 'x hashed list throws" where
  "HashKinematics ident colliding js = bindE (kinematic_tree ident colliding js) (\<lambda>t. bindE (mark_downstream t) (\<lambda>t.
     bindE (mapE (\<lambda>(_, i). hash_node js i) t) (\<lambda>xs. Inr (concat xs))))"

section \<open>Marking\<close>

declare propagate.simps [simp del]

definition parent_in :: "'x tree \<Rightarrow> nat \<Rightarrow> nat option" where "parent_in t b = map_option ki_parent (map_of t b)"

definition down :: "'x tree \<Rightarrow> nat \<Rightarrow> bool" where "down t b \<longleftrightarrow> (\<exists>i. map_of t b = Some i \<and> ki_downstream i)"

definition up :: "'x tree \<Rightarrow> (nat \<times> nat) set" where "up t = {(b, p). b \<noteq> 0 \<and> parent_in t b = Some p}"

text \<open>Every parent has a node of its own.\<close>

definition tree_closed :: "'x tree \<Rightarrow> bool" where
  "tree_closed t \<longleftrightarrow> (\<forall>b p. parent_in t b = Some p \<longrightarrow> p = 0 \<or> parent_in t p \<noteq> None)"

lemma set_downstream_map: "map_of (set_downstream b t) c = map_option (\<lambda>i. if c = b then i\<lparr> ki_downstream := True \<rparr> else i) (map_of t c)"
proof (induction t)
  case (Cons x t)
  then show ?case by (cases x) (simp add: set_downstream_Cons)
qed (simp add: set_downstream_def)

lemma set_downstream_shape [simp]: "parent_in (set_downstream b t) = parent_in t" "map fst (set_downstream b t) = map fst t"
  "up (set_downstream b t) = up t" "tree_closed (set_downstream b t) = tree_closed t"
proof -
  show eq: "parent_in (set_downstream b t) = parent_in t"
  proof
    show "parent_in (set_downstream b t) c = parent_in t c" for c
      by (cases "map_of t c") (simp_all add: parent_in_def set_downstream_map)
  qed
  show "map fst (set_downstream b t) = map fst t" by (simp add: set_downstream_def split_def)
  show "up (set_downstream b t) = up t" "tree_closed (set_downstream b t) = tree_closed t" by (simp_all add: up_def tree_closed_def eq)
qed

lemma set_downstream_down: "down (set_downstream b t) c \<longleftrightarrow> down t c \<or> c = b \<and> parent_in t b \<noteq> None"
  by (cases "map_of t c") (auto simp: down_def set_downstream_map parent_in_def)

text \<open>What one walk upwards does: it marks bodies above its start, and every body it marks has a marked parent, or the world, above it.\<close>

definition marks_upwards :: "nat \<Rightarrow> 'x tree \<Rightarrow> 'x tree \<Rightarrow> bool" where
  "marks_upwards b t t' \<longleftrightarrow> map fst t' = map fst t \<and> parent_in t' = parent_in t \<and> (\<forall>c. down t c \<longrightarrow> down t' c)
     \<and> (b = 0 \<or> down t' b)
     \<and> (\<forall>c. down t' c \<and> \<not> down t c \<longrightarrow> (b, c) \<in> (up t)\<^sup>* \<and> (\<forall>p. parent_in t c = Some p \<longrightarrow> p = 0 \<or> down t' p))"

lemma marks_step:
  assumes "b \<noteq> 0" "parent_in t b = Some p" "marks_upwards p (set_downstream b t) t'"
  shows "marks_upwards b t t'"
proof -
  note m = assms(3) [unfolded marks_upwards_def set_downstream_shape]
  have "down t' b" using m assms(2) by (auto simp: set_downstream_down)
  moreover have "(b, p) \<in> up t" using assms(1,2) by (simp add: up_def)
  moreover have "down t c \<Longrightarrow> down t' c" for c using m by (auto simp: set_downstream_down)
  moreover have "(b, c) \<in> (up t)\<^sup>* \<and> (\<forall>q. parent_in t c = Some q \<longrightarrow> q = 0 \<or> down t' q)" if "down t' c" "\<not> down t c" for c
  proof (cases "c = b")
    case True
    then show ?thesis using m assms(2) by auto
  next
    case False
    then have "\<not> down (set_downstream b t) c" using that(2) by (simp add: set_downstream_down)
    then have "(p, c) \<in> (up t)\<^sup>*" "\<forall>q. parent_in t c = Some q \<longrightarrow> q = 0 \<or> down t' q" using m that(1) by blast+
    then show ?thesis using \<open>(b, p) \<in> up t\<close> by (simp add: converse_rtrancl_into_rtrancl)
  qed
  ultimately show ?thesis using m unfolding marks_upwards_def by blast
qed

lemma propagate_marks:
  "tree_closed t \<Longrightarrow> b = 0 \<or> parent_in t b \<noteq> None \<Longrightarrow> \<exists>t'. propagate b t = Inr t' \<and> marks_upwards b t t'"
proof (induction b t rule: propagate.induct)
  case (1 b t)
  show ?case
  proof (cases "b = 0")
    case True
    then show ?thesis by (simp add: propagate.simps [of 0 t] marks_upwards_def)
  next
    case False
    then obtain i where i: "map_of t b = Some i" using 1(3) by (auto simp: parent_in_def)
    then have p: "parent_in t b = Some (ki_parent i)" by (simp add: parent_in_def)
    show ?thesis
    proof (cases "ki_downstream i")
      case True
      then have "down t b" using i by (simp add: down_def)
      then show ?thesis using True False i by (simp add: propagate.simps [of b t] marks_upwards_def)
    next
      case no: False
      have "ki_parent i = 0 \<or> parent_in t (ki_parent i) \<noteq> None" using 1(2) p unfolding tree_closed_def by blast
      then obtain t' where t': "propagate (ki_parent i) (set_downstream b t) = Inr t'" "marks_upwards (ki_parent i) (set_downstream b t) t'"
        using 1(1) [OF False i no] 1(2) by auto
      have "propagate b t = Inr t'" using False i no t'(1) by (simp add: propagate.simps [of b t])
      then show ?thesis using marks_step [OF False p t'(2)] by blast
    qed
  qed
qed

text \<open>The outer loop: what is marked and not yet visited may still lack a marked parent.\<close>

definition pending :: "nat set \<Rightarrow> 'x tree \<Rightarrow> bool" where
  "pending bs t \<longleftrightarrow> (\<forall>c p. c \<noteq> 0 \<and> down t c \<and> parent_in t c = Some p \<longrightarrow> p = 0 \<or> down t p \<or> c \<in> bs)"

lemma propagate_from_marks:
  assumes "tree_closed t" "pending (insert b bs) t"
  shows "\<exists>t'. propagate_from b t = Inr t' \<and> map fst t' = map fst t \<and> parent_in t' = parent_in t \<and> pending bs t'
    \<and> (\<forall>c. down t c \<longrightarrow> down t' c) \<and> (\<forall>c. down t' c \<and> \<not> down t c \<longrightarrow> down t b \<and> (b, c) \<in> (up t)\<^sup>*)"
proof (cases "b \<noteq> 0 \<and> down t b")
  case False
  then have "propagate_from b t = Inr t" by (auto simp: propagate_from_def down_def split: option.split)
  moreover have "pending bs t" using assms(2) False by (auto simp: pending_def)
  ultimately show ?thesis by blast
next
  case True
  then obtain i where i: "map_of t b = Some i" "ki_downstream i" by (auto simp: down_def)
  then have p: "parent_in t b = Some (ki_parent i)" by (simp add: parent_in_def)
  then have "ki_parent i = 0 \<or> parent_in t (ki_parent i) \<noteq> None" using assms(1) unfolding tree_closed_def by blast
  from propagate_marks [OF assms(1) this] obtain t' where t': "propagate (ki_parent i) t = Inr t'" "marks_upwards (ki_parent i) t t'" by blast
  note m = t'(2) [unfolded marks_upwards_def]
  have "(b, ki_parent i) \<in> up t" using True p by (simp add: up_def)
  then have above: "down t' c \<and> \<not> down t c \<longrightarrow> down t b \<and> (b, c) \<in> (up t)\<^sup>*" for c
    using m True by (simp add: converse_rtrancl_into_rtrancl)
  have "pending bs t'"
    unfolding pending_def
  proof (intro allI impI, elim conjE)
    fix c q assume c: "c \<noteq> 0" "down t' c" "parent_in t' c = Some q"
    then have q: "parent_in t c = Some q" using m by simp
    show "q = 0 \<or> down t' q \<or> c \<in> bs"
    proof (cases "down t c")
      case True
      then have "q = 0 \<or> down t q \<or> c = b \<or> c \<in> bs" using assms(2) c(1) q unfolding pending_def by blast
      then show ?thesis using m p q by auto
    next
      case False
      then show ?thesis using m c(2) q by blast
    qed
  qed
  then show ?thesis using m above i True t'(1) by (auto simp: propagate_from_def)
qed

lemma mark_all:
  assumes "tree_closed t" "pending (set bs) t"
  shows "\<exists>t'. foldE propagate_from bs t = Inr t' \<and> parent_in t' = parent_in t \<and> pending {} t'
    \<and> (\<forall>c. down t c \<longrightarrow> down t' c) \<and> (\<forall>c. down t' c \<longrightarrow> (\<exists>d. down t d \<and> (d, c) \<in> (up t)\<^sup>*))"
  using assms
proof (induction bs arbitrary: t)
  case Nil
  then show ?case by auto
next
  case (Cons b bs)
  obtain t1 where t1: "propagate_from b t = Inr t1" "parent_in t1 = parent_in t" "pending (set bs) t1" "\<forall>c. down t c \<longrightarrow> down t1 c"
      "\<forall>c. down t1 c \<and> \<not> down t c \<longrightarrow> down t b \<and> (b, c) \<in> (up t)\<^sup>*"
    using propagate_from_marks [OF Cons.prems(1), of b "set bs"] Cons.prems(2) by auto
  have shape: "tree_closed t1 \<longleftrightarrow> tree_closed t" "up t1 = up t" by (simp_all add: tree_closed_def up_def t1(2))
  obtain t2 where t2: "foldE propagate_from bs t1 = Inr t2" "parent_in t2 = parent_in t1" "pending {} t2" "\<forall>c. down t1 c \<longrightarrow> down t2 c"
      "\<forall>c. down t2 c \<longrightarrow> (\<exists>d. down t1 d \<and> (d, c) \<in> (up t1)\<^sup>*)"
    using Cons.IH [of t1] Cons.prems(1) t1(3) shape(1) by blast
  have "\<exists>d. down t d \<and> (d, c) \<in> (up t)\<^sup>*" if c: "down t2 c" for c
  proof -
    obtain d where d: "down t1 d" "(d, c) \<in> (up t)\<^sup>*" using t2(5) c unfolding shape(2) by blast
    show ?thesis
    proof (cases "down t d")
      case False
      then have "down t b" "(b, d) \<in> (up t)\<^sup>*" using t1(5) d(1) by blast+
      then show ?thesis using d(2) by (meson rtrancl_trans)
    qed (use d in blast)
  qed
  then show ?case using t1(1,2,4) t2(1-4) by simp
qed

section \<open>The tree\<close>

lemma insort_map_of: "b \<notin> fst ` set t \<Longrightarrow> map_of (insort_key fst (b, i) t) = (map_of t)(b \<mapsto> i)"
  by (induction t) (auto simp: fun_eq_iff)

lemma tree_build:
  assumes "distinct (map (jt_child \<circ> snd) xs)"
  shows "\<exists>t. foldE (\<lambda>(n, j) t. if jt_child j \<in> fst ` set t then Inl ''DRAKE_DEMAND(kinematic_info_tree.count(child_body_idx) == 0)''
         else Inr (insort_key fst (jt_child j, kinematic_info ident colliding n j) t)) xs [] = Inr t
      \<and> fst ` set t = (jt_child \<circ> snd) ` set xs
      \<and> (\<forall>(n, j) \<in> set xs. map_of t (jt_child j) = Some (kinematic_info ident colliding n j))"
  using assms
proof (induction xs rule: rev_induct)
  case (snoc x xs)
  obtain n j where x: "x = (n, j)" by (cases x)
  obtain t where t: "foldE (\<lambda>(n, j) t. if jt_child j \<in> fst ` set t then Inl ''DRAKE_DEMAND(kinematic_info_tree.count(child_body_idx) == 0)''
         else Inr (insort_key fst (jt_child j, kinematic_info ident colliding n j) t)) xs [] = Inr t"
      "fst ` set t = (jt_child \<circ> snd) ` set xs"
      "\<forall>(n, j) \<in> set xs. map_of t (jt_child j) = Some (kinematic_info ident colliding n j)"
    using snoc.IH snoc.prems by auto
  have new: "jt_child j \<notin> fst ` set t" using snoc.prems t(2) x by auto
  have "fst ` set (insort_key fst (jt_child j, kinematic_info ident colliding n j) t) = (jt_child \<circ> snd) ` set (xs @ [x])"
    using t(2) x by (auto simp: set_insort_key)
  moreover have "map_of (insort_key fst (jt_child j, kinematic_info ident colliding n j) t) (jt_child k) = Some (kinematic_info ident colliding m k)"
    if mk: "(m, k) \<in> set (xs @ [x])" for m k
  proof (cases "(m, k) \<in> set xs")
    case True
    then have "jt_child k \<in> (jt_child \<circ> snd) ` set xs" by force
    then have "jt_child k \<noteq> jt_child j" using new t(2) by metis
    then show ?thesis using True t(3) by (auto simp: insort_map_of [OF new])
  next
    case False
    then show ?thesis using mk x by (simp add: insort_map_of [OF new])
  qed
  ultimately show ?case using t(1) new x by (auto simp: foldE_append)
qed simp

lemma filter_all_nonzero: "0 \<notin> fst ` set t \<Longrightarrow> filter (\<lambda>(b, _). b \<noteq> 0) t = t"
  by (induction t) auto

lemma kinematic_tree_map:
  assumes "distinct (map jt_child js)" "\<forall>j \<in> set js. jt_child j \<noteq> 0"
  shows "\<exists>t. kinematic_tree ident colliding js = Inr t \<and> fst ` set t = insert 0 (jt_child ` set js) \<and> map_of t 0 = Some world_node
    \<and> (\<forall>n < length js. map_of t (jt_child (js ! n)) = Some (kinematic_info ident colliding n (js ! n)))"
proof -
  have "map (jt_child \<circ> snd) (enumerate 0 js) = map jt_child js" by (metis map_map map_snd_enumerate)
  then obtain t where t: "foldE (\<lambda>(n, j) t. if jt_child j \<in> fst ` set t then Inl ''DRAKE_DEMAND(kinematic_info_tree.count(child_body_idx) == 0)''
         else Inr (insort_key fst (jt_child j, kinematic_info ident colliding n j) t)) (enumerate 0 js) [] = Inr t"
      "fst ` set t = (jt_child \<circ> snd) ` set (enumerate 0 js)"
      "\<forall>(n, j) \<in> set (enumerate 0 js). map_of t (jt_child j) = Some (kinematic_info ident colliding n j)"
    using tree_build [of "enumerate 0 js" ident colliding] assms(1) by auto
  have keys: "fst ` set t = jt_child ` set js"
    using t(2) by (metis image_comp list.set_map map_snd_enumerate)
  then have no: "0 \<notin> fst ` set t" using assms(2) by force
  have tree: "kinematic_tree ident colliding js = Inr (insort_key fst (0, world_node) t)"
    unfolding kinematic_tree_def t(1) filter_all_nonzero [OF no] bindE_simps by (simp only: filter_all_nonzero [OF no])
  have "map_of t (jt_child (js ! n)) = Some (kinematic_info ident colliding n (js ! n))" if "n < length js" for n
    using t(3) that by (force simp: in_set_enumerate_eq)
  then have "map_of (insort_key fst (0, world_node) t) (jt_child (js ! n)) = Some (kinematic_info ident colliding n (js ! n))"
    if "n < length js" for n
    using that bspec [OF assms(2) nth_mem [OF that]] by (simp add: insort_map_of [OF no])
  moreover have "fst ` set (insort_key fst (0, world_node) t) = insert 0 (jt_child ` set js)" using keys by (simp add: set_insort_key)
  moreover have "map_of (insort_key fst (0, world_node) t) 0 = Some world_node" by (simp add: insort_map_of [OF no])
  ultimately show ?thesis using tree by blast
qed

section \<open>What is hashed\<close>

definition above :: "'x hash_joint list \<Rightarrow> (nat \<times> nat) set" where "above js = (\<lambda>j. (jt_child j, jt_parent j)) ` set js"

text \<open>C30: The nodes that are hashed are those above a collision geometry.  In a kinematic tree the marking succeeds and marks a body
  exactly when it, or a body that hangs on it directly or indirectly, has collision geometry.\<close>
theorem downstream_correct:
  assumes "distinct (map jt_child js)" "\<forall>j \<in> set js. jt_child j \<noteq> 0 \<and> (jt_parent j = 0 \<or> jt_parent j \<in> jt_child ` set js)"
  shows "\<exists>t t'. kinematic_tree ident colliding js = Inr t \<and> mark_downstream t = Inr t'
    \<and> (\<forall>b \<in> jt_child ` set js. down t' b \<longleftrightarrow> (\<exists>d \<in> jt_child ` set js. colliding d \<and> (d, b) \<in> (above js)\<^sup>*))"
proof -
  obtain t where t: "kinematic_tree ident colliding js = Inr t" "fst ` set t = insert 0 (jt_child ` set js)" "map_of t 0 = Some world_node"
      "\<forall>n < length js. map_of t (jt_child (js ! n)) = Some (kinematic_info ident colliding n (js ! n))"
    using kinematic_tree_map [of js ident colliding] assms by blast
  have child: "\<exists>n. map_of t (jt_child j) = Some (kinematic_info ident colliding n j)" if "j \<in> set js" for j
    using that t(4) by (metis in_set_conv_nth)
  have parent: "parent_in t b = Some p \<longleftrightarrow> b = 0 \<and> p = 0 \<or> (b, p) \<in> above js" for b p
  proof (cases "b \<in> jt_child ` set js")
    case True
    then obtain j where j: "j \<in> set js" "b = jt_child j" by blast
    then have "k = j" if "k \<in> set js" "jt_child k = b" for k using assms(1) that by (auto simp: distinct_map inj_on_def)
    then show ?thesis using child [OF j(1)] j assms(2) by (auto simp: parent_in_def kinematic_info_def above_def)
  next
    case False
    then have "b = 0 \<or> map_of t b = None" using t(2) by (auto simp: map_of_eq_None_iff)
    then show ?thesis using False t(3) by (auto simp: parent_in_def world_node_def above_def)
  qed
  have up: "up t = above js" using parent assms(2) by (auto simp: up_def above_def)
  have closed: "tree_closed t"
    unfolding tree_closed_def
  proof (intro allI impI)
    fix b p assume "parent_in t b = Some p"
    then have "p = 0 \<or> p \<in> jt_child ` set js" using parent assms(2) by (auto simp: above_def)
    then show "p = 0 \<or> parent_in t p \<noteq> None" using child by (auto simp: parent_in_def)
  qed
  have "pending (set (map fst t)) t"
    unfolding pending_def down_def by (auto dest!: map_of_SomeD) force
  from mark_all [OF closed this] obtain t' where t': "mark_downstream t = Inr t'" "parent_in t' = parent_in t" "pending {} t'"
      "\<forall>c. down t c \<longrightarrow> down t' c" "\<forall>c. down t' c \<longrightarrow> (\<exists>d. down t d \<and> (d, c) \<in> (above js)\<^sup>*)"
    unfolding mark_downstream_def up by blast
  have start: "down t b \<longleftrightarrow> colliding b" if "b \<in> jt_child ` set js" for b
    using that child by (force simp: down_def kinematic_info_def)
  have reach: "c = 0 \<or> down t' c" if "(d, c) \<in> (above js)\<^sup>*" "down t' d" for d c
    using that
  proof (induction rule: rtrancl_induct)
    case (step y z)
    then have y: "y \<noteq> 0" "parent_in t' y = Some z" using parent t'(2) assms(2) by (auto simp: above_def)
    then show ?case using step.IH step.prems t'(3) unfolding pending_def by blast
  qed simp
  have "down t' b \<longleftrightarrow> (\<exists>d \<in> jt_child ` set js. colliding d \<and> (d, b) \<in> (above js)\<^sup>*)" if b: "b \<in> jt_child ` set js" for b
  proof
    assume "down t' b"
    then obtain d where d: "down t d" "(d, b) \<in> (above js)\<^sup>*" using t'(5) by blast
    have "d \<in> jt_child ` set js" using d(2) by (cases rule: converse_rtranclE) (use b in \<open>auto simp: above_def\<close>)
    then show "\<exists>d \<in> jt_child ` set js. colliding d \<and> (d, b) \<in> (above js)\<^sup>*" using d start by blast
  next
    assume "\<exists>d \<in> jt_child ` set js. colliding d \<and> (d, b) \<in> (above js)\<^sup>*"
    then obtain d where "d \<in> jt_child ` set js" "colliding d" "(d, b) \<in> (above js)\<^sup>*" by blast
    moreover have "b \<noteq> 0" using b assms(2) by auto
    ultimately show "down t' b" using start t'(4) reach by blast
  qed
  then show ?thesis using t(1) t'(1) by blast
qed

definition hinge :: "nat \<Rightarrow> nat \<Rightarrow> 'x \<Rightarrow> 'x \<Rightarrow> 'x hash_joint" where
  "hinge p c x y = \<lparr> jt_type = ''revolute'', jt_instance = 2, jt_parent = p, jt_child = c, hj_weld = x, hj_parent_frame = x, hj_child_frame = y \<rparr>"

text \<open>The hash forgets which body hangs on which.  Two joints in series and two joints side by side on the world feed the hasher the
  same data, and so do a joint whose frame is offset on its parent and one whose frame is offset on its child, which are different
  robots.\<close>
theorem hash_forgets_structure:
  "HashKinematics (\<lambda>x. x = e) (\<lambda>_. True) [hinge 0 1 e e, hinge 1 2 e e] = HashKinematics (\<lambda>x. x = e) (\<lambda>_. True) [hinge 0 1 e e, hinge 0 2 e e]
   \<and> HashKinematics (\<lambda>x. x = e) (\<lambda>_. True) [hinge 0 1 x e] = HashKinematics (\<lambda>x. x = e) (\<lambda>_. True) [hinge 0 1 e x]"
  by (simp add: HashKinematics_def kinematic_tree_def kinematic_info_def world_node_def hinge_def mark_downstream_def propagate_from_def
      propagate.simps hash_node_def)

theorem downstream_correct_witness:
  "\<exists>t t'. kinematic_tree (\<lambda>x. x = (0::nat)) (\<lambda>b. b = 2) [hinge 0 1 (0::nat) 0, hinge 1 2 (0::nat) 0, hinge 1 3 (0::nat) 0] = Inr t \<and> mark_downstream t = Inr t'
     \<and> down t' 1 \<and> \<not> down t' 3"
proof -
  let ?js = "[hinge 0 1 (0::nat) 0, hinge 1 2 (0::nat) 0, hinge 1 3 (0::nat) 0]"
  have j: "distinct (map jt_child ?js)" "\<forall>j \<in> set ?js. jt_child j \<noteq> 0 \<and> (jt_parent j = 0 \<or> jt_parent j \<in> jt_child ` set ?js)"
    by (auto simp: hinge_def)
  obtain t t' where t: "kinematic_tree (\<lambda>x. x = (0::nat)) (\<lambda>b. b = 2) ?js = Inr t" "mark_downstream t = Inr t'"
      "\<forall>b \<in> jt_child ` set ?js. down t' b \<longleftrightarrow> (\<exists>d \<in> jt_child ` set ?js. d = 2 \<and> (d, b) \<in> (above ?js)\<^sup>*)"
    using downstream_correct [OF j, of "\<lambda>x. x = (0::nat)" "\<lambda>b. b = 2"] by (elim exE conjE)
  have a: "above ?js = {(1, 0), (2, 1), (3, 1)}" by (simp add: above_def hinge_def)
  have "(2, 1) \<in> (above ?js)\<^sup>*" unfolding a by (rule r_into_rtrancl) simp
  moreover have low: "c \<in> {0, 1, 2}" if "(2, c) \<in> (above ?js)\<^sup>*" for c
    using that unfolding a by (induction rule: rtrancl_induct) auto
  have "(2, 3) \<notin> (above ?js)\<^sup>*" using low [of 3] by auto
  ultimately show ?thesis using t by (auto simp: hinge_def)
qed

end
