(* ===== verification/Anchor_Sequences.thy ===== *)
theory Anchor_Sequences
  imports Robot_State File_System Timed_Trajectories
begin

text \<open>
  The multimodal planning of \<open>draco/planner\<close>: resolving an anchor (\<open>resolve_anchor.cc\<close>), resolving a sequence of anchors, the waypoint
  anchors between two poses, and the plan put together of them (\<open>solve_generalized_multimodal.cc\<close>).  What these use of Drake and of the
  other planners is the record \<open>draco\<close>: the validity check and the classification of collisions, the inverse kinematics, the
  cached seeds, the deconfliction of the sample based planner, kinematics, and the arithmetic of rigid transforms, of type \<open>'x\<close>.
  Logging and the visualizer are left out; messages are shortened but for the text that the code itself looks for.
\<close>

type_synonym conf = "real list"

record 'x frame_relative_pose =
  frame_A :: string
  frame_B :: string
  X_AB :: 'x

record 'x anchor =
  an_conf :: system_conf
  an_poses :: "'x frame_relative_pose list"

datatype collision_type = kNone | kArmSelfOnly | kAcrossArmsOnly | kArmEnvOnly | kMixed

record ik_result =
  ik_success :: bool
  ik_collision :: collision_type
  ik_value :: conf
  ik_message :: "string option"

record 'x draco =
  dr_robot :: robot
  dr_frame_instance :: "string \<Rightarrow> nat throws"
  dr_valid :: "conf \<Rightarrow> bool"
  dr_collisions :: "conf \<Rightarrow> collision_type"
  dr_SolveIk :: "'x frame_relative_pose list \<Rightarrow> conf \<Rightarrow> ik_result"
  dr_SolveGlobalIk :: "'x frame_relative_pose list \<Rightarrow> conf \<Rightarrow> ik_result"
  dr_closest_seeds :: "'x frame_relative_pose list \<Rightarrow> conf \<Rightarrow> conf list"
  dr_nearest_valid :: "conf list \<Rightarrow> nat set \<Rightarrow> conf option \<Rightarrow> conf option"
  dr_relative :: "conf \<Rightarrow> string \<Rightarrow> string \<Rightarrow> 'x throws"
  dr_mul :: "'x \<Rightarrow> 'x \<Rightarrow> 'x"
  dr_inverse :: "'x \<Rightarrow> 'x"
  dr_translation :: "'x \<Rightarrow> real"
  dr_rotation :: "'x \<Rightarrow> real"
  dr_interpolate :: "'x \<Rightarrow> 'x \<Rightarrow> real \<Rightarrow> 'x"

section \<open>One anchor\<close>

datatype resolved = Valid conf | Failed string | Conflicted conf "nat set"

definition model_named :: "robot \<Rightarrow> string \<Rightarrow> nat throws" where
  "model_named r k = (case find (\<lambda>i. rb_names r ! i = k) (instances r) of None \<Rightarrow> Inl ''GetModelInstanceByName'' | Some i \<Rightarrow> Inr i)"

definition failure_status_message :: "ik_result \<Rightarrow> string throws" where
  "failure_status_message ik = (case ik_message ik of None \<Rightarrow> Inl drake_throw | Some m \<Rightarrow> Inr m)"

definition set_fixed :: "robot \<Rightarrow> system_conf \<Rightarrow> conf \<Rightarrow> conf throws" where
  "set_fixed r = foldE (\<lambda>(k, v) q. bindE (model_named r k) (\<lambda>i. SetPositionsInArray (rb_plant r) i v q))"

definition frame_models :: "('x, 'z) draco_scheme \<Rightarrow> 'x frame_relative_pose list \<Rightarrow> nat set \<Rightarrow> nat set throws" where
  "frame_models D = foldE (\<lambda>pose fx. bindE (dr_frame_instance D (frame_A pose)) (\<lambda>i. bindE (dr_frame_instance D (frame_B pose)) (\<lambda>j.
     Inr (insert j (insert i fx)))))"

text \<open>The end of \<open>ResolveAnchorConf\<close>: a configuration to be checked, that may already be known to need deconfliction.\<close>

definition check_resolved :: "('x, 'z) draco_scheme \<Rightarrow> conf \<Rightarrow> bool \<Rightarrow> nat set \<Rightarrow> resolved" where
  "check_resolved D q need fx = (if dr_valid D q then Valid q
     else if need \<or> dr_collisions D q = kAcrossArmsOnly then Conflicted q fx
     else Failed ''DracoPlanner:ResolveAnchorConf: Could not resolve the anchor conf'')"

definition resolve_ik :: "('x, 'z) draco_scheme \<Rightarrow> ik_result \<Rightarrow> nat set \<Rightarrow> resolved throws" where
  "resolve_ik D ik fx = (if \<not> ik_success ik
     then bindE (failure_status_message ik) (\<lambda>m. Inr (Failed (''IK optimization failed: '' @ m)))
     else case ik_collision ik of
         kMixed \<Rightarrow> bindE (failure_status_message ik) (\<lambda>m. Inr (Failed (''IK solution is in unavoidable collision: '' @ m)))
       | kArmEnvOnly \<Rightarrow> bindE (failure_status_message ik) (\<lambda>m. Inr (Failed (''IK solution is in unavoidable collision: '' @ m)))
       | kAcrossArmsOnly \<Rightarrow> Inr (check_resolved D (ik_value ik) True fx)
       | kArmSelfOnly \<Rightarrow> bindE (failure_status_message ik) (\<lambda>m. Inr (Failed (''IK solution is in self-collision: '' @ m)))
       | kNone \<Rightarrow> Inr (Valid (ik_value ik)))"

definition ResolveAnchorConf :: "('x, 'z) draco_scheme \<Rightarrow> 'x anchor \<Rightarrow> conf option \<Rightarrow> bool \<Rightarrow> resolved throws" where
  "ResolveAnchorConf D anchor q_ref_opt only_use_passed_seed =
     bindE (mapE (model_named (dr_robot D) \<circ> fst) (an_conf anchor)) (\<lambda>fixed.
       if IsSysconfComplete (dr_robot D) (an_conf anchor) then
         (if an_poses anchor \<noteq> [] then Inr (Failed ''The anchor has a complete fixed sysconf, as well as frame relative poses to solve for.'')
          else bindE (ToGeneralizedPosition (dr_robot D) (an_conf anchor)) (\<lambda>q.
            Inr (if dr_valid D q then Valid q else Failed ''The anchor is complete conf and not valid.'')))
       else case q_ref_opt of
           None \<Rightarrow> Inl drake_throw
         | Some q_ref \<Rightarrow> bindE (set_fixed (dr_robot D) (an_conf anchor) q_ref) (\<lambda>q_ref.
             bindE (frame_models D (an_poses anchor) (set fixed)) (\<lambda>fx.
               if an_poses anchor \<noteq> []
               then resolve_ik D ((if only_use_passed_seed then dr_SolveIk D else dr_SolveGlobalIk D) (an_poses anchor) q_ref) fx
               else if an_conf anchor = [] then Inr (Failed ''No frame relative poses provided, and no fixed system configuration provided.'')
               else Inr (check_resolved D q_ref False fx))))"

section \<open>A sequence of anchors\<close>

text \<open>The loop over the anchors for one seed: each anchor from the last configuration, until one fails.\<close>

fun resolve_from :: "('x, 'z) draco_scheme \<Rightarrow> conf \<Rightarrow> 'x anchor list \<Rightarrow> conf list \<Rightarrow> nat set \<Rightarrow> bool
    \<Rightarrow> (conf list \<times> nat set \<times> bool \<times> string option) throws" where
  "resolve_from D seed [] configs fx needs = Inr (configs, fx, needs, None)"
| "resolve_from D seed (a # as) configs fx needs =
     bindE (ResolveAnchorConf D a (Some (if configs = [] then seed else last configs)) True) (\<lambda>r. case r of
         Valid q \<Rightarrow> resolve_from D seed as (configs @ [q]) fx needs
       | Conflicted q models \<Rightarrow> resolve_from D seed as (configs @ [q]) (fx \<union> models) True
       | Failed e \<Rightarrow> Inr (configs, fx, needs, Some e))"

definition shift_all :: "conf \<Rightarrow> conf list \<Rightarrow> conf list" where
  "shift_all q configs = (let delta = vminus q (hd configs) in map (\<lambda>c. vadd c delta) configs)"

definition longer :: "conf list \<Rightarrow> conf list \<Rightarrow> conf list" where "longer cs best = (if length cs > length best then cs else best)"

definition failed_anchor :: "string \<Rightarrow> string" where "failed_anchor e = ''Failed to resolve anchor: '' @ e"

text \<open>The loop over the seeds; \<open>first\<close> is whether the seed is the first one.\<close>

fun try_seeds :: "('x, 'z) draco_scheme \<Rightarrow> 'x anchor list \<Rightarrow> conf \<Rightarrow> bool \<Rightarrow> bool \<Rightarrow> bool \<Rightarrow> conf list \<Rightarrow> string option \<Rightarrow> conf list
    \<Rightarrow> (string + conf list) throws" where
  "try_seeds D anchors q_ref only longest first [] msg best =
     Inr (if longest \<and> best \<noteq> [] then Inr best
       else Inl (''All seeds failed to resolve the sequential anchors. Best seed failed: ''
         @ (case msg of None \<Rightarrow> ''No seeds were available.'' | Some m \<Rightarrow> m)))"
| "try_seeds D anchors q_ref only longest first (seed # seeds) msg best =
     bindE (resolve_from D seed anchors [] {} False) (\<lambda>(configs, fx, needs, failed).
       let msg = (if first then map_option failed_anchor failed else msg);
           best = (if failed \<noteq> None \<and> longest then longer configs best else best)
       in if \<not> longest \<and> (case failed of None \<Rightarrow> False | Some e \<Rightarrow> string_includes e ''unavoidable collision'')
          then Inr (Inl (failed_anchor (the failed)))
          else if failed = None \<or> best \<noteq> [] \<and> longest then
            (if \<not> needs then Inr (Inr configs)
             else case dr_nearest_valid D configs fx (if only then Some q_ref else None) of
                 None \<Rightarrow> if longest then try_seeds D anchors q_ref only longest False seeds msg (longer configs best)
                   else Inr (Inl ''Failed to deconflict the multiple conflicting configurations.'')
               | Some q \<Rightarrow> Inr (Inr (shift_all q configs)))
          else try_seeds D anchors q_ref only longest False seeds msg best)"

definition ToDracoFrameRelativePoses :: "('x, 'z) draco_scheme \<Rightarrow> 'x frame_relative_pose list \<Rightarrow> 'x frame_relative_pose list throws" where
  "ToDracoFrameRelativePoses D = mapE (\<lambda>p. bindE (dr_frame_instance D (frame_A p)) (\<lambda>_. bindE (dr_frame_instance D (frame_B p)) (\<lambda>_. Inr p)))"

definition SolveSequentialAnchors :: "('x, 'z) draco_scheme \<Rightarrow> 'x anchor list \<Rightarrow> conf \<Rightarrow> bool \<Rightarrow> bool \<Rightarrow> (string + conf list) throws" where
  "SolveSequentialAnchors D anchors q_ref only longest =
     (if anchors = [] then Inr (Inr [])
      else bindE (if only then Inr [] else mapE (\<lambda>a. ToDracoFrameRelativePoses D (an_poses a)) anchors) (\<lambda>frps.
        try_seeds D anchors q_ref only longest True
          (if concat frps = [] then [q_ref] else dr_closest_seeds D (concat frps) q_ref) None []))"

section \<open>Waypoints\<close>

text \<open>\<open>static_cast<int>\<close> of a double truncates; values outside of the range of \<open>int\<close> are undefined in C++ and not modelled.\<close>

definition cast_int :: "real \<Rightarrow> int" where "cast_int x = (if x \<ge> 0 then \<lfloor>x\<rfloor> else \<lceil>x\<rceil>)"

definition steps_for :: "real \<Rightarrow> real \<Rightarrow> real \<Rightarrow> real \<Rightarrow> int" where
  "steps_for tn rn max_t max_r = max (max (cast_int (tn / max_t)) (cast_int (rn / max_r))) 3"

definition pose_steps :: "('x, 'z) draco_scheme \<Rightarrow> real \<Rightarrow> real \<Rightarrow> 'x \<Rightarrow> 'x \<Rightarrow> int" where
  "pose_steps D max_t max_r X Y = (let d = dr_mul D (dr_inverse D X) Y in steps_for (dr_translation D d) (dr_rotation D d) max_t max_r)"

definition interpolated :: "('x, 'z) draco_scheme \<Rightarrow> 'x frame_relative_pose list \<Rightarrow> 'x frame_relative_pose list \<Rightarrow> int \<Rightarrow> 'x anchor list" where
  "interpolated D starts goals n = map (\<lambda>i. \<lparr> an_conf = [],
      an_poses = map2 (\<lambda>s g. s\<lparr> X_AB := dr_interpolate D (X_AB s) (X_AB g) (real i / (real_of_int n - 1)) \<rparr>) starts goals \<rparr>) [0..<nat n]"

definition start_value :: "resolved \<Rightarrow> conf option" where
  "start_value r = (case r of Valid q \<Rightarrow> Some q | Conflicted q _ \<Rightarrow> Some q | Failed _ \<Rightarrow> None)"

definition world :: string where "world = ''world''"

definition relative_poses :: "('x, 'z) draco_scheme \<Rightarrow> conf \<Rightarrow> 'x frame_relative_pose \<Rightarrow> ('x frame_relative_pose \<times> 'x frame_relative_pose) throws" where
  "relative_poses D q p = bindE (dr_relative D q (frame_A p) (frame_B p)) (\<lambda>X_AB_start. bindE (dr_relative D q world (frame_A p)) (\<lambda>X_WA.
     Inr (\<lparr> frame_A = world, frame_B = frame_B p, X_AB = dr_mul D X_WA X_AB_start \<rparr>,
          \<lparr> frame_A = world, frame_B = frame_B p, X_AB = dr_mul D (dr_mul D X_WA (X_AB p)) X_AB_start \<rparr>)))"

definition needed_num_steps :: "('x, 'z) draco_scheme \<Rightarrow> real \<Rightarrow> real \<Rightarrow> ('x frame_relative_pose \<times> 'x frame_relative_pose) list \<Rightarrow> int" where
  "needed_num_steps D max_t max_r ps = fold (\<lambda>(s, g) n. max n (pose_steps D max_t max_r (X_AB s) (X_AB g))) ps 0"

definition ConstructWaypointAnchorsFromRelativeTransforms :: "('x, 'z) draco_scheme \<Rightarrow> 'x anchor \<Rightarrow> 'x frame_relative_pose list \<Rightarrow> conf option
    \<Rightarrow> real \<Rightarrow> real \<Rightarrow> 'x anchor list throws" where
  "ConstructWaypointAnchorsFromRelativeTransforms D anchor offsets q_ref_opt max_t max_r =
     bindE (ResolveAnchorConf D anchor q_ref_opt False) (\<lambda>r. case start_value r of
         None \<Rightarrow> Inr []
       | Some q \<Rightarrow> bindE (mapE (relative_poses D q) offsets) (\<lambda>ps. let n = needed_num_steps D max_t max_r ps in
           Inr (if n = 0 then [] else interpolated D (map fst ps) (map snd ps) n)))"

text \<open>For absolute poses a conflicted start has no error message, and asking for it throws.\<close>

definition absolute_poses :: "('x, 'z) draco_scheme \<Rightarrow> conf \<Rightarrow> 'x frame_relative_pose \<Rightarrow> ('x frame_relative_pose \<times> 'x frame_relative_pose) throws" where
  "absolute_poses D q g = bindE (dr_relative D q (frame_A g) (frame_B g)) (\<lambda>X. Inr (g\<lparr> X_AB := X \<rparr>, g))"

definition ConstructWaypointAnchorsFromAbsoluteTransforms :: "('x, 'z) draco_scheme \<Rightarrow> 'x anchor \<Rightarrow> 'x frame_relative_pose list \<Rightarrow> conf option
    \<Rightarrow> real \<Rightarrow> real \<Rightarrow> (string + 'x anchor list) throws" where
  "ConstructWaypointAnchorsFromAbsoluteTransforms D anchor goals q_ref_opt max_t max_r =
     bindE (ResolveAnchorConf D anchor q_ref_opt True) (\<lambda>r. case r of
         Conflicted _ _ \<Rightarrow> Inl drake_throw
       | Failed e \<Rightarrow> Inr (Inl (''Could not resolve start anchor because '' @ e))
       | Valid q \<Rightarrow> bindE (mapE (absolute_poses D q) goals) (\<lambda>ps. let n = needed_num_steps D max_t max_r ps in
           Inr (if n = 0 then Inl ''Could not interpolate waypoint anchors because the needed number of steps is zero.''
             else Inr (interpolated D (map fst ps) (map snd ps) n))))"

definition ConstructWaypointAnchorsFromWayposesVec :: "'x frame_relative_pose list list \<Rightarrow> system_conf option \<Rightarrow> 'x anchor list" where
  "ConstructWaypointAnchorsFromWayposesVec wayposes fixed_opt =
     map (\<lambda>frps. \<lparr> an_conf = (case fixed_opt of None \<Rightarrow> [] | Some c \<Rightarrow> c), an_poses = frps \<rparr>) wayposes"

section \<open>The problem and the plan\<close>

record 'x generalized_problem =
  gp_start_anchors :: "'x anchor list"
  gp_goal_anchors :: "'x anchor list"
  gp_fast_estimate :: bool
  gp_partial_start :: bool
  gp_partial_goal :: bool
  gp_async_partial :: bool

record 'x multimodal_problem =
  mp_start :: "'x anchor"
  mp_start_poses :: "'x frame_relative_pose list"
  mp_goal :: "'x anchor"
  mp_goal_poses :: "'x frame_relative_pose list"
  mp_async_partial :: bool

definition ConstructGeneralizedProblemFromMultimodal :: "('x, 'z) draco_scheme \<Rightarrow> 'x multimodal_problem \<Rightarrow> real \<Rightarrow> real \<Rightarrow> 'x generalized_problem throws" where
  "ConstructGeneralizedProblemFromMultimodal D P max_t max_r =
     bindE (ConstructWaypointAnchorsFromRelativeTransforms D (mp_start P) (mp_start_poses P) None max_t max_r) (\<lambda>starts.
       bindE (client_ToGeneralizedPosition (dr_robot D) (an_conf (mp_start P)) kThrowOnMissing None) (\<lambda>q_ref.
         bindE (ConstructWaypointAnchorsFromRelativeTransforms D (mp_goal P) (mp_goal_poses P) (Some q_ref) max_t max_r) (\<lambda>goals.
           Inr \<lparr> gp_start_anchors = starts, gp_goal_anchors = rev goals @ [mp_goal P], gp_fast_estimate = False,
             gp_partial_start = False, gp_partial_goal = False, gp_async_partial = mp_async_partial P \<rparr>)))"

definition ConstructGeneralizedProblemFromCartesianLinearProblem :: "('x, 'z) draco_scheme \<Rightarrow> 'x anchor \<Rightarrow> 'x frame_relative_pose list \<Rightarrow> bool
    \<Rightarrow> real \<Rightarrow> real \<Rightarrow> (string + 'x generalized_problem) throws" where
  "ConstructGeneralizedProblemFromCartesianLinearProblem D start poses async max_t max_r =
     bindE (ConstructWaypointAnchorsFromAbsoluteTransforms D start poses None max_t max_r) (\<lambda>r. Inr (case r of
         Inl e \<Rightarrow> Inl e
       | Inr starts \<Rightarrow> Inr \<lparr> gp_start_anchors = starts, gp_goal_anchors = [], gp_fast_estimate = False,
           gp_partial_start = False, gp_partial_goal = False, gp_async_partial = async \<rparr>))"

text \<open>The splining of a sequence, the planner of the transit and the combination of timed paths, of type \<open>'t\<close>.\<close>

record ('x, 't) multimodal_planner = "'x draco" +
  mg_spline :: "conf list \<Rightarrow> string + 't"
  mg_transit :: "conf \<Rightarrow> conf \<Rightarrow> bool \<Rightarrow> string + 't"
  mg_end_time :: "'t \<Rightarrow> real"
  mg_combine :: "'t list \<Rightarrow> 't throws"

record 't multimodal_result =
  mr_trajectory :: 't
  mr_transit_start :: real
  mr_transit_end :: real

text \<open>Going on after a \<open>std::expected\<close>, with a text put before its error.\<close>

definition bindF :: "string \<Rightarrow> (string + 'a) throws \<Rightarrow> ('a \<Rightarrow> (string + 'b) throws) \<Rightarrow> (string + 'b) throws" where
  "bindF msg m k = bindE m (\<lambda>r. case r of Inl e \<Rightarrow> Inr (Inl (msg @ e)) | Inr x \<Rightarrow> k x)"

definition demand :: "bool \<Rightarrow> (string + unit) throws" where "demand b = (if b then Inr (Inr ()) else Inl ''DRAKE_DEMAND'')"

definition spline_if_long :: "('x, 't, 'z) multimodal_planner_scheme \<Rightarrow> conf list \<Rightarrow> (string + 't list) throws" where
  "spline_if_long D qs = Inr (if length qs > 1 then (case mg_spline D qs of Inl e \<Rightarrow> Inl e | Inr t \<Rightarrow> Inr [t]) else Inr [])"

definition total_time :: "('x, 't, 'z) multimodal_planner_scheme \<Rightarrow> 't list \<Rightarrow> real" where
  "total_time D ts = sum_list (map (mg_end_time D) ts)"

definition SolveGeneralizedMultiModalPlan :: "('x, 't, 'z) multimodal_planner_scheme \<Rightarrow> 'x generalized_problem \<Rightarrow> system_conf
    \<Rightarrow> (string + 't multimodal_result) throws" where
  "SolveGeneralizedMultiModalPlan D P start_sysconf =
     bindE (client_ToGeneralizedPosition (dr_robot D) start_sysconf kThrowOnMissing None) (\<lambda>q_ref.
       if \<not> dr_valid D q_ref then Inr (Inl ''Start configuration is invalid.'')
       else bindF ''Failed to resolve start sequential wayposes: ''
         (if gp_start_anchors P = [] then Inr (Inr []) else SolveSequentialAnchors D (gp_start_anchors P) q_ref True (gp_partial_start P)) (\<lambda>starts.
         let start_seq = q_ref # starts in
         bindF '''' (demand (gp_start_anchors P = [] \<or> gp_partial_start P \<or> length start_seq = length (gp_start_anchors P) + 1)) (\<lambda>_.
         bindF ''Failed to resolve goal sequential wayposes: ''
           (SolveSequentialAnchors D (gp_goal_anchors P) (last start_seq) False (gp_partial_goal P)) (\<lambda>goal_seq.
         bindF '''' (demand (gp_partial_goal P \<or> length goal_seq = length (gp_goal_anchors P))) (\<lambda>_.
         bindF ''Failed to solve the transit plan between start and goal anchor sequences.''
           (Inr (if goal_seq = [] then Inr [] else case mg_transit D (last start_seq) (hd goal_seq) (gp_fast_estimate P) of
               Inl _ \<Rightarrow> Inl '''' | Inr t \<Rightarrow> Inr [t])) (\<lambda>transit.
         bindF ''Could not spline the start sequence: '' (spline_if_long D start_seq) (\<lambda>first.
         bindF ''Could not spline the goal sequence: '' (spline_if_long D goal_seq) (\<lambda>last.
         bindE (mg_combine D (first @ transit @ last)) (\<lambda>trajectory.
           Inr (Inr \<lparr> mr_trajectory = trajectory, mr_transit_start = total_time D first,
             mr_transit_end = total_time D first + total_time D transit \<rparr>))))))))))"

section \<open>What a solved sequence is\<close>

fun follows :: "('x, 'z) draco_scheme \<Rightarrow> bool \<Rightarrow> conf \<Rightarrow> 'x anchor list \<Rightarrow> conf list \<Rightarrow> bool" where
  "follows D conflicts q [] cs = (cs = [])"
| "follows D conflicts q (a # as) cs = (case cs of [] \<Rightarrow> False | c # cs \<Rightarrow>
     (ResolveAnchorConf D a (Some q) True = Inr (Valid c) \<or> conflicts \<and> (\<exists>m. ResolveAnchorConf D a (Some q) True = Inr (Conflicted c m)))
     \<and> follows D conflicts c as cs)"

lemma follows_length: "follows D b q as cs \<Longrightarrow> length cs = length as"
  by (induction as arbitrary: q cs) (auto split: list.splits)

lemma resolve_from_follows:
  assumes "resolve_from D seed as cs fx nd = Inr (cs', fx', nd', failed)"
  shows "\<exists>ds. cs' = cs @ ds \<and> length ds \<le> length as \<and> (failed \<noteq> None \<longrightarrow> length ds < length as) \<and> (nd \<longrightarrow> nd')
    \<and> (failed = None \<longrightarrow> follows D nd' (if cs = [] then seed else last cs) as ds)"
  using assms
proof (induction as arbitrary: cs fx nd)
  case (Cons a as)
  let ?q = "if cs = [] then seed else last cs"
  obtain r where r: "ResolveAnchorConf D a (Some ?q) True = Inr r" using Cons.prems by (auto simp: bindE_Inr_iff)
  show ?case
  proof (cases r)
    case (Valid q)
    then have "resolve_from D seed as (cs @ [q]) fx nd = Inr (cs', fx', nd', failed)" using Cons.prems r by simp
    from Cons.IH [OF this] show ?thesis using r Valid by force
  next
    case (Conflicted q m)
    then have "resolve_from D seed as (cs @ [q]) (fx \<union> m) True = Inr (cs', fx', nd', failed)" using Cons.prems r by simp
    from Cons.IH [OF this] show ?thesis using r Conflicted by force
  next
    case (Failed e)
    then show ?thesis using Cons.prems r by auto
  qed
qed simp

text \<open>Also where the loop stops early it has resolved a beginning of the anchors, perhaps with conflicts.\<close>

lemma resolve_from_prefix:
  assumes "resolve_from D seed as cs fx nd = Inr (cs', fx', nd', failed)"
  shows "\<exists>ds. cs' = cs @ ds \<and> length ds \<le> length as \<and> follows D True (if cs = [] then seed else last cs) (take (length ds) as) ds"
  using assms
proof (induction as arbitrary: cs fx nd)
  case (Cons a as)
  let ?q = "if cs = [] then seed else last cs"
  obtain r where r: "ResolveAnchorConf D a (Some ?q) True = Inr r" using Cons.prems by (auto simp: bindE_Inr_iff)
  have next_anchor: ?case if go: "resolve_from D seed as (cs @ [q]) fx1 nd1 = Inr (cs', fx', nd', failed)"
    and q: "r = Valid q \<or> (\<exists>m. r = Conflicted q m)" for q fx1 nd1
  proof -
    obtain ds where ds: "cs' = (cs @ [q]) @ ds" "length ds \<le> length as" "follows D True q (take (length ds) as) ds" using Cons.IH [OF go] by auto
    then have "follows D True ?q (take (length (q # ds)) (a # as)) (q # ds)" using r q by auto
    then show ?thesis using ds by (intro exI [of _ "q # ds"]) simp
  qed
  show ?case
  proof (cases r)
    case (Failed e)
    then show ?thesis using Cons.prems r by auto
  qed (use Cons.prems r next_anchor in auto)
qed simp

text \<open>A sequence of configurations that solves the anchors: each is the resolution of its anchor from the one before it, the first
  from a seed; or all are shifted by one vector that takes the first of such a sequence to the configuration the deconfliction found.\<close>

definition solves :: "('x, 'z) draco_scheme \<Rightarrow> 'x anchor list \<Rightarrow> conf list \<Rightarrow> bool" where
  "solves D anchors cs \<longleftrightarrow> (\<exists>seed. follows D False seed anchors cs)
     \<or> (\<exists>seed cs0 fx q_opt q. follows D True seed anchors cs0 \<and> dr_nearest_valid D cs0 fx q_opt = Some q \<and> cs = shift_all q cs0)"

text \<open>What a partial solution is: the same for a beginning of the anchors, perhaps none, and conflicts may be left in it.\<close>

definition solves_beginning :: "('x, 'z) draco_scheme \<Rightarrow> 'x anchor list \<Rightarrow> conf list \<Rightarrow> bool" where
  "solves_beginning D anchors cs \<longleftrightarrow> length cs \<le> length anchors
     \<and> (solves D (take (length cs) anchors) cs \<or> (\<exists>seed. follows D True seed (take (length cs) anchors) cs))"

lemma solves_length: "solves D anchors cs \<Longrightarrow> length cs = length anchors"
  using follows_length by (fastforce simp: solves_def shift_all_def Let_def)

lemma try_seeds_solves:
  "try_seeds D anchors q_ref only False first seeds msg best = Inr (Inr cs) \<Longrightarrow> solves D anchors cs"
proof (induction seeds arbitrary: first msg best)
  case (Cons seed seeds)
  then obtain configs fx needs failed where r: "resolve_from D seed anchors [] {} False = Inr (configs, fx, needs, failed)"
    by (auto simp: bindE_Inr_iff)
  note f = resolve_from_follows [OF r]
  show ?case
  proof (cases failed)
    case None
    then have fol: "follows D needs seed anchors configs" using f by simp
    show ?thesis
    proof (cases needs)
      case True
      then obtain q where "dr_nearest_valid D configs fx (if only then Some q_ref else None) = Some q" "cs = shift_all q configs"
        using Cons.prems r None by (auto split: option.splits)
      moreover have "follows D True seed anchors configs" using fol True by simp
      ultimately show ?thesis unfolding solves_def by blast
    next
      case False
      then show ?thesis using Cons.prems r None fol by (auto simp: solves_def)
    qed
  next
    case (Some e)
    then show ?thesis using Cons r by (auto simp: Let_def split: if_splits)
  qed
qed simp

lemma sequence_solves: "SolveSequentialAnchors D anchors q_ref only False = Inr (Inr cs) \<Longrightarrow> solves D anchors cs"
proof (cases "anchors = []")
  case True
  assume "SolveSequentialAnchors D anchors q_ref only False = Inr (Inr cs)"
  then show ?thesis using True by (simp add: SolveSequentialAnchors_def solves_def)
next
  case False
  assume "SolveSequentialAnchors D anchors q_ref only False = Inr (Inr cs)"
  then obtain first seeds where "try_seeds D anchors q_ref only False first seeds None [] = Inr (Inr cs)"
    using False unfolding SolveSequentialAnchors_def by (auto simp: bindE_Inr_iff simp del: try_seeds.simps)
  then show ?thesis by (rule try_seeds_solves)
qed

lemma shift_all_length: "length (shift_all q cs) = length cs"
  by (simp add: shift_all_def Let_def)

lemma try_seeds_beginning:
  "try_seeds D anchors q_ref only True first seeds msg best = Inr (Inr cs) \<Longrightarrow> solves_beginning D anchors best \<Longrightarrow> solves_beginning D anchors cs"
proof (induction seeds arbitrary: first msg best)
  case Nil
  then show ?case by (simp split: if_splits)
next
  case (Cons seed seeds)
  then obtain configs fx needs failed where r: "resolve_from D seed anchors [] {} False = Inr (configs, fx, needs, failed)"
    by (auto simp: bindE_Inr_iff)
  have f: "length configs \<le> length anchors" "follows D True seed (take (length configs) anchors) configs" using resolve_from_prefix [OF r] by auto
  then have c: "solves_beginning D anchors configs" by (auto simp: solves_beginning_def)
  then have b: "solves_beginning D anchors (longer configs b)" if "solves_beginning D anchors b" for b using that by (simp add: longer_def)
  have n: "solves_beginning D anchors []" by (simp add: solves_beginning_def)
  have sh: "solves_beginning D anchors (shift_all q configs)" if "dr_nearest_valid D configs fx q' = Some q" for q q'
  proof -
    have "solves D (take (length configs) anchors) (shift_all q configs)" unfolding solves_def using f(2) that by blast
    then show ?thesis using f(1) by (simp add: solves_beginning_def shift_all_length)
  qed
  show ?case
  proof (cases needs)
    case False
    then show ?thesis using Cons r c b n by (cases failed) (auto simp: Let_def split: if_splits)
  next
    case True
    then show ?thesis using Cons r c b n sh by (cases failed) (auto simp: Let_def split: if_splits option.splits)
  qed
qed

lemma sequence_solves_beginning:
  assumes "SolveSequentialAnchors D anchors q_ref only True = Inr (Inr cs)"
  shows "solves_beginning D anchors cs"
proof (cases "anchors = []")
  case True
  then show ?thesis using assms by (simp add: SolveSequentialAnchors_def solves_beginning_def)
next
  case False
  then obtain first seeds where "try_seeds D anchors q_ref only True first seeds None [] = Inr (Inr cs)"
    using assms unfolding SolveSequentialAnchors_def by (auto simp: bindE_Inr_iff simp del: try_seeds.simps)
  then show ?thesis by (rule try_seeds_beginning) (simp add: solves_beginning_def)
qed

text \<open>C32: A solved sequence has one configuration for every anchor.  When no partial solution is asked for, what is returned is the
  resolution of each anchor from the one before it, starting from a seed; or, when arms collide on the way, such a sequence
  shifted as a whole to where the deconfliction moved its first configuration.\<close>
theorem sequence_solved:
  assumes "SolveSequentialAnchors D anchors q_ref only False = Inr (Inr cs)"
  shows "length cs = length anchors \<and> solves D anchors cs"
  using sequence_solves [OF assms] solves_length by blast

text \<open>The longest partial solution is not the one returned: when partial solutions are allowed and the first seed resolves at least one
  anchor before it fails, its shorter sequence is returned at once, whatever the other seeds would have given.\<close>
theorem partial_shadows_solution:
  assumes "mapE (\<lambda>a. ToDracoFrameRelativePoses D (an_poses a)) anchors = Inr frps" "concat frps \<noteq> []"
    "dr_closest_seeds D (concat frps) q_ref = seed # seeds"
    "resolve_from D seed anchors [] {} False = Inr (cs, fx, False, Some e)" "cs \<noteq> []"
  shows "SolveSequentialAnchors D anchors q_ref False True = Inr (Inr cs) \<and> length cs < length anchors"
proof -
  have "length cs < length anchors" using resolve_from_follows [OF assms(4)] by auto
  moreover from this have "anchors \<noteq> []" by auto
  moreover have "longer cs [] = cs" using assms(5) by (simp add: longer_def)
  ultimately have "try_seeds D anchors q_ref False True True (seed # seeds) None [] = Inr (Inr cs)" using assms(4,5) by (simp add: Let_def)
  then show ?thesis using assms(1-3) \<open>length cs < length anchors\<close> \<open>anchors \<noteq> []\<close>
    by (simp add: SolveSequentialAnchors_def del: try_seeds.simps concat_eq_Nil_conv)
qed

text \<open>After a failed deconfliction even an empty sequence is returned as a solution.\<close>

lemma empty_solution_returned:
  assumes "resolve_from D seed1 anchors [] {} False = Inr (configs, fx, True, None)" "dr_nearest_valid D configs fx None = None" "configs \<noteq> []"
    "resolve_from D seed2 anchors [] {} False = Inr ([], fx', False, Some e)"
  shows "try_seeds D anchors q_ref False True True (seed1 # seed2 # seeds) None [] = Inr (Inr [])"
  using assms by (simp add: longer_def Let_def)

section \<open>Waypoints\<close>

lemma fold_max_ge: "n \<le> fold (\<lambda>x n. max n (f x)) xs (n :: int) \<and> (x \<in> set xs \<longrightarrow> f x \<le> fold (\<lambda>x n. max n (f x)) xs n)"
proof (induction xs arbitrary: n)
  case (Cons y ys)
  from Cons.IH [of "max n (f y)"] show ?case by auto
qed simp

lemma needed_num_steps_ge: "(s, g) \<in> set ps \<Longrightarrow> pose_steps D max_t max_r (X_AB s) (X_AB g) \<le> needed_num_steps D max_t max_r ps"
  using fold_max_ge [of 0 "\<lambda>(s, g). pose_steps D max_t max_r (X_AB s) (X_AB g)" ps "(s, g)"]
  by (simp add: needed_num_steps_def split_def)

lemma pose_steps_ge: "3 \<le> pose_steps D max_t max_r X Y"
  by (simp add: pose_steps_def steps_for_def Let_def)

lemma needed_num_steps_zero: "needed_num_steps D max_t max_r ps = 0 \<longleftrightarrow> ps = []"
proof (cases ps)
  case (Cons p qs)
  obtain s g where "p = (s, g)" by (cases p)
  then show ?thesis using needed_num_steps_ge [of s g ps D max_t max_r] pose_steps_ge [of D max_t max_r "X_AB s" "X_AB g"] Cons by simp
qed (simp add: needed_num_steps_def)

lemma spacing_bound:
  assumes "0 < m" "0 \<le> d" "3 \<le> n" "\<lfloor>d / m\<rfloor> \<le> n"
  shows "d / (real_of_int n - 1) < 2 * m"
proof -
  have "d / m < real_of_int \<lfloor>d / m\<rfloor> + 1" by linarith
  also have "\<dots> \<le> 2 * (real_of_int n - 1)"
  proof -
    have "k + 1 \<le> 2 * (x - 1)" if "k \<le> x" "3 \<le> x" for k x :: real using that by simp
    from this [of "real_of_int \<lfloor>d / m\<rfloor>" "real_of_int n"] show ?thesis using assms(3,4) by simp
  qed
  finally have "d < 2 * (real_of_int n - 1) * m" using assms(1) by (simp add: pos_divide_less_eq)
  then show ?thesis using assms(3) by (simp add: pos_divide_less_eq mult_ac)
qed

text \<open>The spacing of waypoints: between two waypoints neither the translation nor the rotation of a pose reaches twice the maximal
  spacing; but the maximum itself is not kept, since \<open>n\<close> waypoints make \<open>n - 1\<close> steps and \<open>n\<close> is the rounded quotient: a
  translation of three or more times the maximum is always cut into steps that are too long.\<close>
theorem waypoint_spacing:
  assumes "0 < max_t" "0 < max_r" "(s, g) \<in> set ps" "dr_mul D (dr_inverse D (X_AB s)) (X_AB g) = d" "0 \<le> dr_translation D d" "0 \<le> dr_rotation D d"
    "needed_num_steps D max_t max_r ps = n"
  shows "dr_translation D d / (real_of_int n - 1) < 2 * max_t \<and> dr_rotation D d / (real_of_int n - 1) < 2 * max_r
    \<and> (ps = [(s, g)] \<and> 3 * max_t \<le> dr_translation D d \<and> dr_rotation D d / max_r \<le> dr_translation D d / max_t
         \<longrightarrow> max_t < dr_translation D d / (real_of_int n - 1))"
proof -
  let ?q = "dr_translation D d / max_t" and ?r = "dr_rotation D d / max_r"
  have nonneg: "0 \<le> ?q" "0 \<le> ?r" using assms(1,2,5,6) by simp_all
  then have steps: "pose_steps D max_t max_r (X_AB s) (X_AB g) = max (max \<lfloor>?q\<rfloor> \<lfloor>?r\<rfloor>) 3"
    by (simp add: pose_steps_def steps_for_def cast_int_def assms(4))
  then have n: "3 \<le> n" "\<lfloor>?q\<rfloor> \<le> n" "\<lfloor>?r\<rfloor> \<le> n" using needed_num_steps_ge [OF assms(3), of D max_t max_r] assms(7) by simp_all
  have "max_t < dr_translation D d / (real_of_int n - 1)"
    if one: "ps = [(s, g)]" "3 * max_t \<le> dr_translation D d" "?r \<le> ?q"
  proof -
    have "\<lfloor>?r\<rfloor> \<le> \<lfloor>?q\<rfloor>" using one(3) by (rule floor_mono)
    moreover have "3 \<le> ?q" using one(2) assms(1) by (simp add: pos_le_divide_eq)
    then have "3 \<le> \<lfloor>?q\<rfloor>" by linarith
    ultimately have "n = \<lfloor>?q\<rfloor>" using steps assms(7) one(1) by (simp add: needed_num_steps_def)
    then have "real_of_int n - 1 < ?q" by linarith
    then have "(real_of_int n - 1) * max_t < dr_translation D d" using assms(1) by (simp add: pos_less_divide_eq)
    then show ?thesis using n(1) by (simp add: pos_less_divide_eq mult_ac)
  qed
  then show ?thesis using spacing_bound [OF assms(1,5) n(1,2)] spacing_bound [OF assms(2,6) n(1,3)] by blast
qed

lemma interpolated_length: "length (interpolated D starts goals n) = nat n"
  by (simp add: interpolated_def)

lemma interpolated_ends:
  assumes "3 \<le> n" "\<And>X Y. dr_interpolate D X Y 0 = X" "\<And>X Y. dr_interpolate D X Y 1 = Y"
    "list_all2 (\<lambda>s g. frame_A g = frame_A s \<and> frame_B g = frame_B s) starts (goals :: 'x frame_relative_pose list)"
  shows "an_poses (hd (interpolated D starts goals n)) = starts \<and> an_poses (last (interpolated D starts goals n)) = goals"
proof -
  have len: "length starts = length goals" using list_all2_lengthD [OF assms(4)] .
  have "[0..<nat n] = 0 # [1..<nat n]" using assms(1) by (simp add: upt_conv_Cons)
  moreover have "map2 (\<lambda>s g. s\<lparr> X_AB := X_AB s \<rparr>) starts goals = starts"
    using len by (intro nth_equalityI) simp_all
  ultimately have first: "an_poses (hd (interpolated D starts goals n)) = starts" by (simp add: interpolated_def assms(2))
  have ne: "[0..<nat n] \<noteq> []" using assms(1) by simp
  have upper: "last [0..<nat n] = nat n - 1" using assms(1) by (intro last_upt) simp
  have one: "real (nat n - 1) / (real_of_int n - 1) = 1" using assms(1) by (simp add: of_nat_diff)
  have "map2 (\<lambda>s g. s\<lparr> X_AB := X_AB g \<rparr>) starts goals = goals"
    using assms(4) len by (intro nth_equalityI) (auto simp: list_all2_conv_all_nth)
  then have "an_poses (last (interpolated D starts goals n)) = goals"
    unfolding interpolated_def last_map [OF ne] upper one by (simp add: assms(3))
  then show ?thesis using first by blast
qed

text \<open>A Cartesian move leads from where the robot is to the goal poses.  When the waypoints of an absolute move are made, the start
  anchor resolved to a configuration, the first waypoint holds the poses the frames have there and the last one the goal poses.\<close>
theorem cartesian_waypoints_reach_goal:
  assumes "ConstructWaypointAnchorsFromAbsoluteTransforms D anchor goals q_ref_opt max_t max_r = Inr (Inr ws)"
    "\<And>X Y. dr_interpolate D X Y 0 = X" "\<And>X Y. dr_interpolate D X Y 1 = Y"
  shows "\<exists>q. ResolveAnchorConf D anchor q_ref_opt True = Inr (Valid q) \<and> 3 \<le> length ws \<and> an_poses (last ws) = goals
    \<and> list_all2 (\<lambda>g s. dr_relative D q (frame_A g) (frame_B g) = Inr (X_AB s) \<and> frame_A s = frame_A g \<and> frame_B s = frame_B g)
        goals (an_poses (hd ws))"
proof -
  obtain r where r: "ResolveAnchorConf D anchor q_ref_opt True = Inr r"
    using assms(1) by (auto simp: ConstructWaypointAnchorsFromAbsoluteTransforms_def bindE_Inr_iff)
  then obtain q where "r = Valid q"
    using assms(1) by (cases r) (simp_all add: ConstructWaypointAnchorsFromAbsoluteTransforms_def)
  with r have q: "ResolveAnchorConf D anchor q_ref_opt True = Inr (Valid q)" by simp
  then obtain ps where ps: "mapE (absolute_poses D q) goals = Inr ps" "needed_num_steps D max_t max_r ps \<noteq> 0"
      "ws = interpolated D (map fst ps) (map snd ps) (needed_num_steps D max_t max_r ps)"
    using assms(1) by (auto simp: ConstructWaypointAnchorsFromAbsoluteTransforms_def bindE_Inr_iff Let_def split: if_splits)
  let ?n = "needed_num_steps D max_t max_r ps"
  have "ps \<noteq> []" using ps(2) by (auto simp: needed_num_steps_def)
  then obtain s g where "(s, g) \<in> set ps" by (cases ps) auto
  then have n: "3 \<le> ?n" using needed_num_steps_ge pose_steps_ge by (metis order_trans)
  have rel: "list_all2 (\<lambda>g p. snd p = g \<and> frame_A (fst p) = frame_A g \<and> frame_B (fst p) = frame_B g
      \<and> dr_relative D q (frame_A g) (frame_B g) = Inr (X_AB (fst p))) goals ps"
    using ps(1) unfolding mapE_Inr_iff by (rule list_all2_mono) (auto simp: absolute_poses_def bindE_Inr_iff)
  then have goals: "map snd ps = goals" by (induction) auto
  have "list_all2 (\<lambda>s g. frame_A g = frame_A s \<and> frame_B g = frame_B s) (map fst ps) (map snd ps)"
    using rel by (induction) auto
  note ends = interpolated_ends [OF n assms(2,3) this]
  have "list_all2 (\<lambda>g s. dr_relative D q (frame_A g) (frame_B g) = Inr (X_AB s) \<and> frame_A s = frame_A g \<and> frame_B s = frame_B g) goals (map fst ps)"
    using rel by (induction) auto
  then show ?thesis using q n ends goals ps(3) by (simp add: interpolated_length nat_le_iff)
qed

section \<open>The plan\<close>

lemma bindF_Inr_iff: "bindF msg m k = Inr (Inr y) \<longleftrightarrow> (\<exists>x. m = Inr (Inr x) \<and> k x = Inr (Inr y))"
proof (cases m)
  case (Inr r)
  then show ?thesis by (cases r) (simp_all add: bindF_def)
qed (simp add: bindF_def)

lemma bindF_simps [simp]: "bindF msg (Inr (Inr x)) k = k x" "bindF msg (Inr (Inl e)) k = Inr (Inl (msg @ e))" "bindF msg (Inl e) k = Inl e"
  by (simp_all add: bindF_def)

text \<open>C31: A multimodal plan is what was asked for.  A plan that is returned begins at the current configuration, which is valid.  When no
  partial solutions are allowed it has one configuration for each start anchor and one for each goal anchor, and \<open>solves\<close> says which: all of
  them resolve their anchors, each from the configuration before it, or, when arms collide in some of them, all are shifted by one vector
  to a place that the deconfliction chose, where it is not claimed that they still meet their anchors.  When partial solutions are allowed it
  is the same for a beginning of the anchors, that may be empty, and in which conflicts may be left.  A transit joins the last start
  configuration to the first goal configuration, if there is one; the trajectory is these parts in this order, and the reported times are
  those of its transit.\<close>
theorem multimodal_plan_correct:
  assumes "SolveGeneralizedMultiModalPlan D P c = Inr (Inr r)"
  shows "\<exists>q_ref starts goals first transit final.
      client_ToGeneralizedPosition (dr_robot D) c kThrowOnMissing None = Inr q_ref \<and> dr_valid D q_ref
    \<and> (if gp_partial_start P then solves_beginning D (gp_start_anchors P) starts else solves D (gp_start_anchors P) starts)
    \<and> (if gp_partial_goal P then solves_beginning D (gp_goal_anchors P) goals else solves D (gp_goal_anchors P) goals)
    \<and> spline_if_long D (q_ref # starts) = Inr (Inr first) \<and> spline_if_long D goals = Inr (Inr final)
    \<and> (if goals = [] then transit = [] else \<exists>t. transit = [t] \<and> mg_transit D (last (q_ref # starts)) (hd goals) (gp_fast_estimate P) = Inr t)
    \<and> mg_combine D (first @ transit @ final) = Inr (mr_trajectory r)
    \<and> mr_transit_start r = total_time D first \<and> mr_transit_end r = mr_transit_start r + total_time D transit"
proof -
  obtain q_ref where q: "client_ToGeneralizedPosition (dr_robot D) c kThrowOnMissing None = Inr q_ref" "dr_valid D q_ref"
    using assms by (auto simp: SolveGeneralizedMultiModalPlan_def bindE_Inr_iff split: if_splits)
  note run = assms [unfolded SolveGeneralizedMultiModalPlan_def q(1) bindE_simps Let_def, simplified q(2) if_False not_True_eq_False]
  from run obtain starts where s: "(if gp_start_anchors P = [] then Inr (Inr [])
      else SolveSequentialAnchors D (gp_start_anchors P) q_ref True (gp_partial_start P)) = Inr (Inr starts)"
    unfolding bindF_Inr_iff by blast
  note run = run [unfolded s bindF_simps]
  from run obtain goals where g: "SolveSequentialAnchors D (gp_goal_anchors P) (last (q_ref # starts)) False (gp_partial_goal P) = Inr (Inr goals)"
    unfolding bindF_Inr_iff by blast
  from run obtain transit first final where
      t: "(if goals = [] then Inr [] else case mg_transit D (last (q_ref # starts)) (hd goals) (gp_fast_estimate P) of
        Inl _ \<Rightarrow> Inl ('''' :: string) | Inr t \<Rightarrow> Inr [t]) = Inr transit"
      "spline_if_long D (q_ref # starts) = Inr (Inr first)" "spline_if_long D goals = Inr (Inr final)"
      "bindE (mg_combine D (first @ transit @ final)) (\<lambda>trajectory. Inr (Inr \<lparr> mr_trajectory = trajectory, mr_transit_start = total_time D first,
         mr_transit_end = total_time D first + total_time D transit \<rparr>)) = Inr (Inr r :: string + _)"
    unfolding bindF_Inr_iff g sum.inject by blast
  have "if gp_partial_start P then solves_beginning D (gp_start_anchors P) starts else solves D (gp_start_anchors P) starts"
    using s sequence_solves [of D "gp_start_anchors P" q_ref True starts] sequence_solves_beginning [of D "gp_start_anchors P" q_ref True starts]
    by (cases "gp_start_anchors P = []"; cases "gp_partial_start P") (simp_all add: solves_def solves_beginning_def)
  moreover have "if gp_partial_goal P then solves_beginning D (gp_goal_anchors P) goals else solves D (gp_goal_anchors P) goals"
    using g sequence_solves sequence_solves_beginning by (cases "gp_partial_goal P") simp_all
  moreover have "if goals = [] then transit = [] else \<exists>t. transit = [t] \<and> mg_transit D (last (q_ref # starts)) (hd goals) (gp_fast_estimate P) = Inr t"
    using t(1) by (auto split: if_splits sum.splits)
  moreover have "mg_combine D (first @ transit @ final) = Inr (mr_trajectory r)" "mr_transit_start r = total_time D first"
      "mr_transit_end r = mr_transit_start r + total_time D transit"
    using t(4) by (auto simp: bindE_Inr_iff)
  ultimately show ?thesis using q t(2,3) by blast
qed

section \<open>What a resolved anchor keeps\<close>

lemma model_named_nth: "distinct (rb_names r) \<Longrightarrow> model_named r k = Inr i \<longleftrightarrow> i < length (rb_names r) \<and> rb_names r ! i = k"
  by (auto simp: model_named_def find_None_iff nth_eq_iff_index_eq split: option.splits intro: find_unique dest!: find_Some_iff [THEN iffD1])

lemma fill_free_Nil: "instance_dim p i = 0 \<Longrightarrow> SetPositionsInArray p i v q = Inr q' \<Longrightarrow> q' = q"
  by (auto simp: SetPositionsInArray_def instance_dim_def fill_free_def split: if_splits)

lemma set_fixed_positions:
  assumes "robot_ok r" "set_fixed r c q = Inr q'" "distinct (map fst c)" "length q = num_positions (rb_plant r)"
  shows "length q' = num_positions (rb_plant r) \<and> (\<forall>i < length (rb_names r). instance_dim (rb_plant r) i > 0 \<longrightarrow>
    GetPositionsFromArray (rb_plant r) i q' = (case map_of c (rb_names r ! i) of Some v \<Rightarrow> Inr v | None \<Rightarrow> GetPositionsFromArray (rb_plant r) i q))"
  using assms(2-4)
proof (induction c arbitrary: q)
  case Nil
  then show ?case by (simp add: set_fixed_def)
next
  case (Cons x c)
  let ?p = "rb_plant r"
  obtain k v where x: "x = (k, v)" by (cases x)
  note ok = robot_okD [OF assms(1)]
  from Cons.prems(1) obtain i q1 where i: "model_named r k = Inr i" "SetPositionsInArray ?p i v q = Inr q1" and rest: "set_fixed r c q1 = Inr q'"
    by (auto simp: set_fixed_def x bindE_Inr_iff)
  then have name: "i < length (rb_names r)" "rb_names r ! i = k" using model_named_nth [OF ok(2)] by auto
  have len: "length q1 = num_positions ?p" using i(2) Cons.prems(3) by (auto simp: SetPositionsInArray_def split: if_splits)
  have same: "GetPositionsFromArray ?p j q1 = (if j = i then Inr v else GetPositionsFromArray ?p j q)"
    if j: "j < length (rb_names r)" "instance_dim ?p j > 0" for j
  proof (cases "instance_dim ?p i > 0")
    case True
    have v: "length v = instance_dim ?p i" using i(2) by (auto simp: SetPositionsInArray_def split: if_splits)
    show ?thesis
      using ps.put_law [OF ok(1) _ v Cons.prems(3)] dim_pos_iff [OF ok(1)] True j(2) i(2) by fastforce
  next
    case False
    then show ?thesis using fill_free_Nil [OF _ i(2)] j(2) by auto
  qed
  have IH: "length q' = num_positions ?p \<and> (\<forall>i < length (rb_names r). instance_dim ?p i > 0 \<longrightarrow>
      GetPositionsFromArray ?p i q' = (case map_of c (rb_names r ! i) of Some v \<Rightarrow> Inr v | None \<Rightarrow> GetPositionsFromArray ?p i q1))"
    by (rule Cons.IH [OF rest _ len]) (use Cons.prems(2) x in simp)
  have "map_of c k = None" using Cons.prems(2) x by (simp add: map_of_eq_None_iff)
  then have "GetPositionsFromArray ?p j q' = (case map_of (x # c) (rb_names r ! j) of Some v \<Rightarrow> Inr v | None \<Rightarrow> GetPositionsFromArray ?p j q)"
    if j: "j < length (rb_names r)" "instance_dim ?p j > 0" for j
    using IH same [OF j] j name ok(2) x by (auto simp: nth_eq_iff_index_eq split: option.split)
  then show ?case using IH by blast
qed

text \<open>An anchor without poses keeps its configuration and fills the rest from the reference: the resolved configuration has the
  anchor's positions at every instance the anchor names and the reference's at every other one, and when it is returned as valid
  it satisfies the constraints.\<close>
theorem resolved_keeps_anchor:
  assumes "robot_ok (dr_robot D)" "distinct (map fst (an_conf a))" "an_poses a = []" "length q_ref = num_positions (rb_plant (dr_robot D))"
    "\<not> IsSysconfComplete (dr_robot D) (an_conf a)" "ResolveAnchorConf D a (Some q_ref) only = Inr r" "start_value r = Some q"
  shows "(\<forall>i < length (rb_names (dr_robot D)). instance_dim (rb_plant (dr_robot D)) i > 0 \<longrightarrow>
      GetPositionsFromArray (rb_plant (dr_robot D)) i q = (case map_of (an_conf a) (rb_names (dr_robot D) ! i) of
        Some v \<Rightarrow> Inr v | None \<Rightarrow> GetPositionsFromArray (rb_plant (dr_robot D)) i q_ref))
    \<and> (r = Valid q \<longleftrightarrow> dr_valid D q)"
proof -
  obtain q' fx where q': "set_fixed (dr_robot D) (an_conf a) q_ref = Inr q'" "r = check_resolved D q' False fx \<or> (\<exists>e. r = Failed e)"
    using assms(3,5,6) by (auto simp: ResolveAnchorConf_def bindE_Inr_iff split: if_splits)
  then have "r = check_resolved D q' False fx" "q' = q"
    using assms(7) by (auto simp: start_value_def check_resolved_def split: if_splits)
  moreover from this have "r = Valid q \<longleftrightarrow> dr_valid D q" by (auto simp: check_resolved_def)
  ultimately show ?thesis using set_fixed_positions [OF assms(1) q'(1) assms(2,4)] by blast
qed

section \<open>Witnesses\<close>

text \<open>Poses on a line, and an inverse kinematics whose reach is the second position of its seed; one cached seed reaches further.\<close>

definition sample_ik :: "real frame_relative_pose list \<Rightarrow> conf \<Rightarrow> ik_result" where
  "sample_ik ps q = (if X_AB (hd ps) > q ! 1
     then \<lparr> ik_success = False, ik_collision = kNone, ik_value = q, ik_message = Some ''too far'' \<rparr>
     else \<lparr> ik_success = True, ik_collision = kNone, ik_value = [X_AB (hd ps), q ! 1, 0, 0], ik_message = None \<rparr>)"

definition sample_draco :: "(real, conf list) multimodal_planner" where
  "sample_draco = \<lparr> dr_robot = sample_robot, dr_frame_instance = (\<lambda>_. Inr 3), dr_valid = (\<lambda>_. True), dr_collisions = (\<lambda>_. kNone),
     dr_SolveIk = sample_ik, dr_SolveGlobalIk = sample_ik, dr_closest_seeds = (\<lambda>_ q. [q, [0, 5, 0, 0]]), dr_nearest_valid = (\<lambda>qs _ _. Some (hd qs)),
     dr_relative = (\<lambda>q _ _. Inr (q ! 0)), dr_mul = (+), dr_inverse = uminus, dr_translation = abs, dr_rotation = (\<lambda>_. 0),
     dr_interpolate = (\<lambda>x y t. x + t * (y - x)), mg_spline = Inr, mg_transit = (\<lambda>a b _. Inr [a, b]), mg_end_time = (\<lambda>t. real (length t)),
     mg_combine = (\<lambda>ts. Inr (concat ts)) \<rparr>"

definition pose_at :: "real \<Rightarrow> real frame_relative_pose" where
  "pose_at x = \<lparr> frame_A = ''world'', frame_B = ''arm::tool'', X_AB = x \<rparr>"

definition anchor_at :: "real \<Rightarrow> real anchor" where "anchor_at x = \<lparr> an_conf = [], an_poses = [pose_at x] \<rparr>"

lemma sample_dim: "instance_dim (rb_plant sample_robot) i = (if i = 3 \<or> i = 4 then 2 else 0)"
  unfolding instance_dim_def instance_positions_def sample_masks by (simp add: sample_robot_def upt_rec)

lemma sample_names: "rb_names sample_robot = [''world'', ''default'', ''base'', ''arm'', ''gripper'']" "num_positions (rb_plant sample_robot) = 4"
  by (simp_all add: sample_robot_def)

lemma sample_positions: "instance_positions (rb_plant sample_robot) 3 = [0, 1]" "instance_positions (rb_plant sample_robot) 4 = [2, 3]"
  unfolding instance_positions_def sample_masks by (simp_all add: sample_robot_def upt_rec)

lemma sample_set: "SetPositionsInArray (rb_plant sample_robot) 3 [a, b] [p, q, r, s] = Inr [a, b, r, s]"
  "SetPositionsInArray (rb_plant sample_robot) 4 [a, b] [p, q, r, s] = Inr [p, q, a, b]"
  by (simp_all add: SetPositionsInArray_def sample_names sample_dim sample_positions fill_free_def)

lemma sample_instances: "[0..<length (rb_names sample_robot)] = [0, 1, 2, 3, 4]"
  by (simp add: sample_names upt_rec)

lemma sample_name: "rb_names sample_robot ! 3 = ''arm''" "rb_names sample_robot ! 4 = ''gripper''"
  by (simp_all add: sample_names)

lemma sample_zero: "replicate (num_positions (rb_plant sample_robot)) 0 = [0, 0, 0, 0 :: real]"
  by (simp add: sample_names numeral_eq_Suc)

lemma sample_resolve: "ResolveAnchorConf sample_draco (anchor_at x) (Some q) b
    = Inr (if x > q ! 1 then Failed ''IK optimization failed: too far'' else Valid [x, q ! 1, 0, 0])"
proof -
  have "\<not> IsSysconfComplete sample_robot []" by (simp add: IsSysconfComplete_def sample_dim sample_names)
  then show ?thesis
    by (simp add: ResolveAnchorConf_def sample_draco_def anchor_at_def pose_at_def set_fixed_def frame_models_def resolve_ik_def sample_ik_def
        failure_status_message_def)
qed

theorem sequence_solved_witness:
  "SolveSequentialAnchors sample_draco [anchor_at 1, anchor_at 2] [0, 2, 0, 0] True False = Inr (Inr [[1, 2, 0, 0], [2, 2, 0, 0]])
   \<and> solves sample_draco [anchor_at 1, anchor_at 2] [[1, 2, 0, 0], [2, 2, 0, 0]]"
proof -
  have r: "SolveSequentialAnchors sample_draco [anchor_at 1, anchor_at 2] [0, 2, 0, 0] True False = Inr (Inr [[1, 2, 0, 0], [2, 2, 0, 0]])"
    by (simp add: SolveSequentialAnchors_def sample_resolve Let_def)
  show ?thesis using r sequence_solved [OF r] by blast
qed

lemma sample_frps: "mapE (\<lambda>a. ToDracoFrameRelativePoses sample_draco (an_poses a)) [anchor_at x, anchor_at y] = Inr [[pose_at x], [pose_at y]]"
  by (simp add: ToDracoFrameRelativePoses_def anchor_at_def sample_draco_def)

theorem partial_shadows_solution_witness:
  "SolveSequentialAnchors sample_draco [anchor_at 1, anchor_at 3] [0, 1, 0, 0] False True = Inr (Inr [[1, 1, 0, 0]])
   \<and> resolve_from sample_draco [0, 5, 0, 0] [anchor_at 1, anchor_at 3] [] {} False = Inr ([[1, 5, 0, 0], [3, 5, 0, 0]], {}, False, None)"
proof -
  have "dr_closest_seeds sample_draco (concat [[pose_at 1], [pose_at 3]]) [0, 1, 0, 0] = [0, 1, 0, 0] # [[0, 5, 0, 0]]" by (simp add: sample_draco_def)
  moreover have "resolve_from sample_draco [0, 1, 0, 0] [anchor_at 1, anchor_at 3] [] {} False
      = Inr ([[1, 1, 0, 0]], {}, False, Some ''IK optimization failed: too far'')"
    by (simp add: sample_resolve)
  ultimately show ?thesis using partial_shadows_solution [OF sample_frps, of 1 3] by (simp add: sample_resolve)
qed

theorem waypoint_spacing_witness:
  "needed_num_steps sample_draco (1 / 10) (1 / 10) [(pose_at 0, pose_at (4 / 10))] = 4 \<and> 1 / 10 < (4 / 10) / (real_of_int 4 - 1)"
proof -
  have n: "needed_num_steps sample_draco (1 / 10) (1 / 10) [(pose_at 0, pose_at (4 / 10))] = 4"
    by (simp add: needed_num_steps_def pose_steps_def steps_for_def cast_int_def sample_draco_def pose_at_def)
  have d: "dr_mul sample_draco (dr_inverse sample_draco (X_AB (pose_at 0))) (X_AB (pose_at (4 / 10))) = 4 / 10"
    by (simp add: sample_draco_def pose_at_def)
  show ?thesis using n waypoint_spacing [OF _ _ _ d _ _ n] by (simp add: sample_draco_def)
qed

theorem cartesian_waypoints_reach_goal_witness:
  "\<exists>ws. ConstructWaypointAnchorsFromAbsoluteTransforms sample_draco \<lparr> an_conf = [(''arm'', [1, 2]), (''gripper'', [0, 0])], an_poses = [] \<rparr>
      [pose_at 2] None 1 1 = Inr (Inr ws) \<and> an_poses (last ws) = [pose_at 2] \<and> length ws \<ge> 3"
proof -
  let ?a = "\<lparr> an_conf = [(''arm'', [1, 2]), (''gripper'', [0, 0])], an_poses = [] \<rparr> :: real anchor"
  have pos: "ToGeneralizedPosition sample_robot (an_conf ?a) = Inr [1, 2, 0, 0]"
    by (simp add: ToGeneralizedPosition_def sample_instances sample_zero sample_dim sample_set sample_name) (simp add: sample_names)
  have "IsSysconfComplete sample_robot (an_conf ?a)" by (simp add: IsSysconfComplete_def sample_dim sample_names)
  then have "ResolveAnchorConf sample_draco ?a None True = Inr (Valid [1, 2, 0, 0])"
    using pos by (simp add: ResolveAnchorConf_def sample_draco_def model_named_def sample_names)
  then obtain ws where ws: "ConstructWaypointAnchorsFromAbsoluteTransforms sample_draco ?a [pose_at 2] None 1 1 = Inr (Inr ws)"
    by (auto simp: ConstructWaypointAnchorsFromAbsoluteTransforms_def absolute_poses_def sample_draco_def needed_num_steps_def pose_steps_def
        steps_for_def cast_int_def pose_at_def Let_def)
  then show ?thesis using cartesian_waypoints_reach_goal [OF ws] by (auto simp: sample_draco_def)
qed

theorem multimodal_plan_correct_witness:
  "\<exists>r q_ref goals. SolveGeneralizedMultiModalPlan sample_draco \<lparr> gp_start_anchors = [], gp_goal_anchors = [anchor_at 1], gp_fast_estimate = False,
       gp_partial_start = False, gp_partial_goal = False, gp_async_partial = False \<rparr> [(''arm'', [1, 2]), (''gripper'', [0, 0])] = Inr (Inr r)
     \<and> solves sample_draco [anchor_at 1] goals"
proof -
  let ?P = "\<lparr> gp_start_anchors = [], gp_goal_anchors = [anchor_at 1], gp_fast_estimate = False, gp_partial_start = False, gp_partial_goal = False,
    gp_async_partial = False \<rparr>" and ?c = "[(''arm'', [1, 2]), (''gripper'', [0, 0 :: real])]"
  have pos: "client_ToGeneralizedPosition (dr_robot sample_draco) ?c kThrowOnMissing None = Inr [1, 2, 0, 0]"
    by (simp add: client_ToGeneralizedPosition_def sample_draco_def sample_instances sample_zero sample_dim sample_set sample_name)
  have "SolveSequentialAnchors sample_draco [anchor_at 1] [1, 2, 0, 0] False False = Inr (Inr [[1, 2, 0, 0]])"
    using sample_resolve by (simp add: SolveSequentialAnchors_def ToDracoFrameRelativePoses_def Let_def) (simp add: anchor_at_def sample_draco_def)
  then have r: "SolveGeneralizedMultiModalPlan sample_draco ?P ?c = Inr (Inr \<lparr> mr_trajectory = [[1, 2, 0, 0], [1, 2, 0, 0]], mr_transit_start = 0, mr_transit_end = 2 \<rparr>)"
    using pos by (simp add: SolveGeneralizedMultiModalPlan_def demand_def spline_if_long_def total_time_def) (simp add: sample_draco_def)
  show ?thesis using r multimodal_plan_correct [OF r] by auto
qed

theorem resolved_keeps_anchor_witness:
  "\<exists>q. ResolveAnchorConf sample_draco \<lparr> an_conf = [(''gripper'', [3, 4])], an_poses = [] \<rparr> (Some [1, 2, 0, 0]) True = Inr (Valid q)
     \<and> GetPositionsFromArray (rb_plant sample_robot) 3 q = Inr [1, 2]"
proof -
  let ?a = "\<lparr> an_conf = [(''gripper'', [3, 4])], an_poses = [] \<rparr> :: real anchor"
  have part: "\<not> IsSysconfComplete (dr_robot sample_draco) (an_conf ?a)" by (simp add: IsSysconfComplete_def sample_dim sample_names sample_draco_def)
  then have r: "ResolveAnchorConf sample_draco ?a (Some [1, 2, 0, 0]) True = Inr (Valid [1, 2, 3, 4])"
    by (simp add: ResolveAnchorConf_def sample_draco_def model_named_def sample_instances set_fixed_def sample_set frame_models_def check_resolved_def)
       (simp add: sample_names sample_set)
  have "robot_ok (dr_robot sample_draco)" using sample_robot_ok by (simp add: sample_draco_def)
  note all = resolved_keeps_anchor [OF this _ _ _ part r, of "[1, 2, 3, 4]"]
  have "GetPositionsFromArray (rb_plant sample_robot) 3 [1, 2, 3, 4] = GetPositionsFromArray (rb_plant sample_robot) 3 [1, 2, 0, 0]"
    using all by (simp add: sample_draco_def sample_names sample_dim start_value_def)
  then show ?thesis using r by (auto simp: GetPositionsFromArray_def sample_names sample_positions)
qed

end
