(* ===== verification/Path_Math.thy ===== *)
theory Path_Math
  imports Timed_Trajectories "HOL-Library.Sublist"
begin

text \<open>
  \<open>motion/splining/internal/path_math.cc\<close>: matching waypoints to a path, smoothing them, cutting and joining trajectories, and
  the conversion of Bezier curves to the power form.  Drake's trajectories of type \<open>'p\<close> and its solver of quadratic programs are
  the record \<open>drake\<close>; \<open>drake_laws\<close> says what its documentation promises of them.  Logging is left out.
\<close>

record 'p drake =
  dk_rows :: "'p \<Rightarrow> nat"
  dk_cols :: "'p \<Rightarrow> nat"
  dk_empty :: "'p \<Rightarrow> bool"
  dk_start :: "'p \<Rightarrow> real"
  dk_end :: "'p \<Rightarrow> real"
  dk_value :: "'p \<Rightarrow> real \<Rightarrow> vec"
  dk_derivative :: "'p \<Rightarrow> real \<Rightarrow> vec"
  dk_slice :: "'p \<Rightarrow> real \<Rightarrow> real \<Rightarrow> 'p throws"
  dk_concat :: "'p \<Rightarrow> 'p \<Rightarrow> 'p throws"
  dk_shift :: "real \<Rightarrow> 'p \<Rightarrow> 'p"
  dk_add :: "real \<Rightarrow> 'p \<Rightarrow> 'p"
  dk_default :: 'p
  dk_cubic :: "real list \<Rightarrow> vec list \<Rightarrow> vec \<Rightarrow> vec \<Rightarrow> 'p throws"
  dk_hold :: "real list \<Rightarrow> vec list \<Rightarrow> 'p"
  dk_times :: "'p \<Rightarrow> real list"
  dk_coefficients :: "'p \<Rightarrow> vec list list"
  dk_qp :: "(vec list \<Rightarrow> real) \<Rightarrow> (vec \<times> vec) list \<Rightarrow> vec list option"

definition unless_throw :: exn where "unless_throw = ''DRAKE_THROW_UNLESS''"

section \<open>Times of waypoints\<close>

text \<open>The loop over the samples; \<open>None\<close> is the infinite distance.\<close>

definition closer :: "real \<Rightarrow> real \<Rightarrow> real \<times> real option \<Rightarrow> real \<times> real option" where
  "closer t d best = (case snd best of None \<Rightarrow> (t, Some d) | Some b \<Rightarrow> if d < b then (t, Some d) else best)"

function match_loop :: "(real \<Rightarrow> real) \<Rightarrow> real \<Rightarrow> real \<Rightarrow> real \<Rightarrow> real \<times> real option \<Rightarrow> real \<times> real option" where
  "match_loop f e h t best = (if 0 < h \<and> t \<le> e then match_loop f e h (t + h) (closer t (f t) best) else best)"
  by pat_completeness auto

termination match_loop
proof (relation "measure (\<lambda>(f, e, h, t, best). nat (\<lfloor>(e - t) / h\<rfloor> + 1))", goal_cases)
  case (2 f e h t best)
  have "0 \<le> \<lfloor>(e - t) / h\<rfloor>" using 2 by simp
  moreover have "(e - (t + h)) / h = (e - t) / h - 1" using 2 by (simp add: field_simps)
  ultimately show ?case by simp
qed simp

declare match_loop.simps [simp del]

definition FindBestMatchTime :: "('p, 'z) drake_scheme \<Rightarrow> vec \<Rightarrow> 'p \<Rightarrow> real \<Rightarrow> real \<Rightarrow> real \<Rightarrow> real throws" where
  "FindBestMatchTime D q path start_t end_t h =
     (if \<not> h > 0 \<or> length q \<noteq> dk_rows D path \<or> \<not> dk_start D path \<le> start_t \<or> \<not> dk_end D path \<ge> end_t then Inl unless_throw
      else Inr (fst (match_loop (\<lambda>t. vnorm (vminus (dk_value D path t) q)) end_t h start_t (start_t, None))))"

fun match_from :: "('p, 'z) drake_scheme \<Rightarrow> 'p \<Rightarrow> real \<Rightarrow> real \<Rightarrow> real \<Rightarrow> real \<Rightarrow> vec list \<Rightarrow> real list throws" where
  "match_from D path start_i end_t gap h [] = Inr []"
| "match_from D path start_i end_t gap h (w # ws) =
     bindE (FindBestMatchTime D w path start_i (end_t - real (length ws) * gap) h) (\<lambda>b.
       bindE (match_from D path (b + gap) end_t gap h ws) (\<lambda>bs. Inr (b # bs)))"

definition FindBestMatchTimes :: "('p, 'z) drake_scheme \<Rightarrow> vec list \<Rightarrow> 'p \<Rightarrow> real \<Rightarrow> real \<Rightarrow> real \<Rightarrow> real \<Rightarrow> real list throws" where
  "FindBestMatchTimes D waypts path start_t end_t gap h = match_from D path start_t end_t gap h waypts"

section \<open>Smoothing\<close>

definition second_difference :: "real list \<Rightarrow> vec list \<Rightarrow> vec list \<Rightarrow> nat \<Rightarrow> nat \<Rightarrow> real" where
  "second_difference ts vs e i j =
     (vs ! (i + 2) ! j - vs ! (i + 1) ! j + e ! (i + 2) ! j - e ! (i + 1) ! j) / (ts ! (i + 2) - ts ! (i + 1))
     - (vs ! (i + 1) ! j - vs ! i ! j + e ! (i + 1) ! j - e ! i ! j) / (ts ! (i + 1) - ts ! i)"

definition first_difference :: "real list \<Rightarrow> vec list \<Rightarrow> vec \<Rightarrow> vec list \<Rightarrow> nat \<Rightarrow> real" where
  "first_difference ts vs tangent e j = (vs ! 1 ! j + e ! 1 ! j - vs ! 0 ! j) / (ts ! 1 - ts ! 0) - tangent ! j"

text \<open>The cost of the program: \<open>nd\<close> is the length of the first value.\<close>

definition smoothing_cost :: "real list \<Rightarrow> vec list \<Rightarrow> vec option \<Rightarrow> nat \<Rightarrow> vec list \<Rightarrow> real" where
  "smoothing_cost ts vs tangent nd e =
     (\<Sum>i \<leftarrow> [0..<length ts - 2]. \<Sum>j \<leftarrow> [0..<nd]. (second_difference ts vs e i j)\<^sup>2)
     + (case tangent of None \<Rightarrow> 0 | Some v \<Rightarrow> (\<Sum>j \<leftarrow> [0..<nd]. 1000 * (first_difference ts vs v e j)\<^sup>2))"

definition smoothing_bounds :: "nat \<Rightarrow> nat \<Rightarrow> vec \<Rightarrow> (vec \<times> vec) list" where
  "smoothing_bounds n nd epsilon = map (\<lambda>i. if i > 0 then (map uminus epsilon, epsilon) else (replicate nd 0, replicate nd 0)) [0..<n]"

definition SmoothWaypoints :: "('p, 'z) drake_scheme \<Rightarrow> real list \<Rightarrow> vec list \<Rightarrow> vec option \<Rightarrow> vec \<Rightarrow> vec list throws" where
  "SmoothWaypoints D ts vs maybe_tangent epsilon =
     (if length ts \<noteq> length vs then Inl unless_throw
      else bindE (case vs of [] \<Rightarrow> Inl out_of_range | v # _ \<Rightarrow> Inr (length v)) (\<lambda>nd.
        if length epsilon \<noteq> nd then Inl unless_throw
        else if (case maybe_tangent of None \<Rightarrow> False | Some v \<Rightarrow> length v \<noteq> nd) then Inl unless_throw
        else if maybe_tangent \<noteq> None \<and> 0 < nd \<and> length vs < 2 then Inl out_of_range
        else case dk_qp D (smoothing_cost ts vs maybe_tangent nd) (smoothing_bounds (length ts) nd epsilon) of
            None \<Rightarrow> Inl ''Failed to solve the smoothing program''
          | Some e \<Rightarrow> Inr (map2 vadd vs e)))"

section \<open>A path towards new waypoints\<close>

definition CalcCubicPath :: "('p, 'z) drake_scheme \<Rightarrow> real list \<Rightarrow> vec list \<Rightarrow> vec \<Rightarrow> 'p throws" where
  "CalcCubicPath D ts vs start_tangent =
     (if length ts \<noteq> length vs then Inl unless_throw
      else let n = length ts in
        if n < 2 then Inl out_of_range
        else dk_cubic D ts vs start_tangent (vscale (1 / (ts ! (n - 1) - ts ! (n - 2))) (vminus (vs ! (n - 1)) (vs ! (n - 2)))))"

definition CalcSamplesAndTangentFromNewWaypts :: "('p, 'z) drake_scheme \<Rightarrow> vec list \<Rightarrow> 'p \<Rightarrow> real \<Rightarrow> real \<Rightarrow> real \<Rightarrow> real \<Rightarrow> bool \<Rightarrow> vec
    \<Rightarrow> (real list \<times> vec list \<times> vec) throws" where
  "CalcSamplesAndTangentFromNewWaypts D waypts path time_now delta_switch spacing h smoothing epsilon =
     (if \<not> delta_switch > 0 then Inl unless_throw
      else bindE (FindBestMatchTimes D waypts path time_now (dk_end D path) spacing h) (\<lambda>best.
        let switch = time_now + delta_switch;
            kept = filter (\<lambda>(t, w). t > switch + spacing / 2) (zip best waypts);
            ts = switch # map fst kept;
            vs = dk_value D path switch # map snd kept;
            tangent = dk_derivative D path switch
        in if \<not> smoothing then Inr (ts, vs, tangent)
           else bindE (SmoothWaypoints D ts vs (Some tangent) epsilon) (\<lambda>vs'. Inr (ts, vs', tangent))))"

definition CalcTrailingPathTowardWaypts :: "('p, 'z) drake_scheme \<Rightarrow> vec list \<Rightarrow> 'p \<Rightarrow> real \<Rightarrow> real \<Rightarrow> real \<Rightarrow> real \<Rightarrow> bool \<Rightarrow> vec
    \<Rightarrow> 'p throws" where
  "CalcTrailingPathTowardWaypts D waypts path time_now delta_switch spacing h smoothing epsilon =
     bindE (CalcSamplesAndTangentFromNewWaypts D waypts path time_now delta_switch spacing h smoothing epsilon)
       (\<lambda>(ts, vs, tangent). CalcCubicPath D ts vs tangent)"

section \<open>Cutting and joining\<close>

definition MergePath :: "('p, 'z) drake_scheme \<Rightarrow> 'p \<Rightarrow> real \<Rightarrow> 'p \<Rightarrow> 'p throws" where
  "MergePath D original time_now other = (let time_switch = dk_start D other in
     if time_switch < time_now then Inl ''MergeTrajectory: time_switch is less than time_now. Cannot merge trajectories.''
     else bindE (dk_slice D original time_now time_switch) (\<lambda>r. dk_concat D r other))"

text \<open>A path with its time scaling, the path first.\<close>

definition MergeTrajectory :: "('p, 'z) drake_scheme \<Rightarrow> 'p \<times> 'p \<Rightarrow> real \<Rightarrow> 'p \<times> 'p \<Rightarrow> ('p \<times> 'p) throws" where
  "MergeTrajectory D original time_now other =
     bindE (MergePath D (snd original) time_now (snd other)) (\<lambda>scaling.
       bindE (front (dk_value D scaling time_now)) (\<lambda>s_now.
         bindE (MergePath D (fst original) s_now (fst other)) (\<lambda>path. Inr (path, scaling))))"

definition my_epsilon :: real where "my_epsilon = 1 / 10 ^ 12"

definition snap_start :: "('p, 'z) drake_scheme \<Rightarrow> real \<Rightarrow> 'p \<Rightarrow> 'p" where
  "snap_start D x p = (if \<bar>dk_start D p - x\<bar> < my_epsilon then dk_shift D (x - dk_start D p) p else p)"

definition combine_step :: "('p, 'z) drake_scheme \<Rightarrow> real \<Rightarrow> 'p \<times> 'p \<Rightarrow> 'p \<times> 'p \<Rightarrow> ('p \<times> 'p) throws" where
  "combine_step D tol = (\<lambda>(pp, tp) (rp, rt).
     if dk_rows D tp \<noteq> 1 \<or> dk_cols D tp \<noteq> 1 then Inl unless_throw
     else if dk_empty D rp \<or> dk_empty D pp then Inr (pp, tp)
     else let s = dk_end D rp; t = dk_end D rt in
       if vnorm (vminus (dk_value D rp s) (dk_value D pp (dk_start D pp))) > tol
       then Inl ''CombineSequentialSystemTimedTrajectories: The trajectories are not continuous.''
       else let shift_s = s - dk_start D pp; shift_t = t - dk_start D tp;
                pp = snap_start D s (dk_shift D shift_s pp);
                tp = snap_start D t (dk_add D shift_s (dk_shift D shift_t tp))
         in bindE (dk_concat D rp pp) (\<lambda>rp. bindE (dk_concat D rt tp) (\<lambda>rt. Inr (rp, rt))))"

definition CombineSequentialSystemTimedTrajectories :: "('p, 'z) drake_scheme \<Rightarrow> ('p \<times> 'p) list \<Rightarrow> real \<Rightarrow> ('p \<times> 'p) throws" where
  "CombineSequentialSystemTimedTrajectories D xs tol = foldE (combine_step D tol) xs (dk_default D, dk_default D)"

definition MakeUniformTimingForPath :: "('p, 'z) drake_scheme \<Rightarrow> 'p \<Rightarrow> real \<Rightarrow> 'p" where
  "MakeUniformTimingForPath D path t_start =
     dk_hold D [t_start, dk_end D path - dk_start D path + t_start] [[dk_start D path], [dk_end D path]]"

text \<open>A segment is the list of the coefficients of its entries.\<close>

definition constant_segment :: "vec list \<Rightarrow> bool" where
  "constant_segment = list_all (\<lambda>cs. list_all (\<lambda>c. \<not> \<bar>c\<bar> > 1 / 10 ^ 10) (drop 1 cs))"

definition RemoveConstantPrepend :: "('p, 'z) drake_scheme \<Rightarrow> 'p \<Rightarrow> 'p throws" where
  "RemoveConstantPrepend D pp =
     (case find (\<lambda>i. \<not> constant_segment (dk_coefficients D pp ! i)) [0..<length (dk_coefficients D pp)] of
       Some i \<Rightarrow> dk_slice D pp (dk_times D pp ! i) (dk_end D pp)
     | None \<Rightarrow> Inr pp)"

section \<open>Bezier curves\<close>

text \<open>Products of type \<open>int\<close>: what does not fit is undefined in C++.\<close>

function factorial :: "int \<Rightarrow> int throws" where
  "factorial n = (if \<not> n \<ge> 0 then Inl unless_throw else if n = 0 then Inr 1
     else bindE (factorial (n - 1)) (\<lambda>f. if n * f < 2 ^ 31 then Inr (n * f) else Inl ''undefined: signed overflow''))"
  by pat_completeness auto
termination factorial by (relation "measure nat") auto

declare factorial.simps [simp del]

definition bezier_coeff :: "int \<Rightarrow> nat \<Rightarrow> nat \<Rightarrow> real \<Rightarrow> real throws" where
  "bezier_coeff order j k duration =
     bindE (factorial order) (\<lambda>a. bindE (factorial (order - int j)) (\<lambda>b. bindE (factorial (int k)) (\<lambda>c. bindE (factorial (int j - int k)) (\<lambda>d.
       Inr (real_of_int (a div b) * ((-1) ^ (k + j) / real_of_int c / real_of_int d) / duration ^ j)))))"

record bezier =
  bz_order :: nat
  bz_points :: "vec list"

definition power_column :: "real \<Rightarrow> bezier \<Rightarrow> nat \<Rightarrow> nat \<Rightarrow> vec throws" where
  "power_column duration b n j = foldE (\<lambda>k acc. bindE (bezier_coeff (int (bz_order b)) j k duration) (\<lambda>c.
     Inr (vadd acc (vscale c (bz_points b ! k))))) [0..<j + 1] (replicate n 0)"

definition power_form :: "real \<Rightarrow> bezier \<Rightarrow> nat \<Rightarrow> matrix throws" where
  "power_form duration b n = bindE (mapE (power_column duration b n) [0..<bz_order b + 1]) (\<lambda>cs. Inr \<lparr> mx_rows = n, mx_cols = cs \<rparr>)"

text \<open>A segment that is no Bezier curve is \<open>None\<close>.  The result is what the constructor of the piecewise polynomial is given.\<close>

fun bezier_segments :: "nat \<Rightarrow> real \<Rightarrow> (real \<times> bezier option) list \<Rightarrow> (matrix list \<times> real list) throws" where
  "bezier_segments n t [] = Inr ([], [t])"
| "bezier_segments n t ((d, b) # segs) = (case b of
       None \<Rightarrow> Inl ''CompositeBezierCurveToPiecewisePolynomial: segment is not a BezierCurve''
     | Some b \<Rightarrow> bindE (power_form d b n) (\<lambda>m. bindE (bezier_segments n (t + d) segs) (\<lambda>(ms, ts). Inr (m # ms, t # ts))))"

definition CompositeBezierCurveToPiecewisePolynomial :: "nat \<Rightarrow> real \<Rightarrow> (real \<times> bezier option) list \<Rightarrow> (matrix list \<times> real list) throws" where
  "CompositeBezierCurveToPiecewisePolynomial rows start_t segs = bezier_segments rows start_t segs"

section \<open>Matching\<close>

text \<open>What a scan over samples leaves: the distance of the best time, which is least among the samples.\<close>

lemma match_loop_some:
  assumes "0 < h" "snd best = Some b"
  shows "\<exists>t' b'. match_loop f e h t best = (t', Some b') \<and> b' \<le> b \<and> (t' = fst best \<and> b' = b \<or> t \<le> t' \<and> t' \<le> e \<and> b' = f t')
    \<and> (\<forall>k. t + real k * h \<le> e \<longrightarrow> b' \<le> f (t + real k * h))"
  using assms
proof (induction f e h t best arbitrary: b rule: match_loop.induct)
  case (1 f e h t best)
  show ?case
  proof (cases "t \<le> e")
    case True
    obtain c where c: "snd (closer t (f t) best) = Some c" "c \<le> b" "c \<le> f t"
        "fst (closer t (f t) best) = t \<and> c = f t \<or> fst (closer t (f t) best) = fst best \<and> c = b"
      using 1(3) by (cases "f t < b") (auto simp: closer_def)
    obtain t' b' where ih: "match_loop f e h (t + h) (closer t (f t) best) = (t', Some b')" "b' \<le> c"
        "t' = fst (closer t (f t) best) \<and> b' = c \<or> t + h \<le> t' \<and> t' \<le> e \<and> b' = f t'"
        "\<forall>k. t + h + real k * h \<le> e \<longrightarrow> b' \<le> f (t + h + real k * h)"
      using 1(1) [OF _ 1(2) c(1)] 1(2) True by auto
    have "b' \<le> f (t + real k * h)" if "t + real k * h \<le> e" for k
    proof (cases k)
      case 0
      then show ?thesis using ih(2) c(3) by simp
    next
      case (Suc m)
      then have eq: "t + real k * h = t + h + real m * h" by (simp add: algebra_simps)
      show ?thesis using ih(4) that unfolding eq by blast
    qed
    moreover have "t' = fst best \<and> b' = b \<or> t \<le> t' \<and> t' \<le> e \<and> b' = f t'" using ih(3) c(4) 1(2) True by auto
    ultimately show ?thesis using ih(1,2) c(2) 1(2) True by (subst match_loop.simps) auto
  next
    case False
    moreover have "\<not> t + real k * h \<le> e" for k
    proof -
      have "0 \<le> real k * h" using 1(2) by simp
      then show ?thesis using False by linarith
    qed
    ultimately show ?thesis using 1(3) by (subst match_loop.simps) (cases best, auto)
  qed
qed

lemma match_best:
  fixes e h s :: real and f :: "real \<Rightarrow> real"
  assumes "0 < h"
  defines "b \<equiv> fst (match_loop f e h s (s, None))"
  shows "s \<le> b" "b \<le> max s e" "\<forall>k. s + real k * h \<le> e \<longrightarrow> f b \<le> f (s + real k * h)"
proof -
  have "s \<le> b \<and> b \<le> max s e \<and> (\<forall>k. s + real k * h \<le> e \<longrightarrow> f b \<le> f (s + real k * h))"
  proof (cases "s \<le> e")
    case True
    obtain t' b' where m: "match_loop f e h (s + h) (s, Some (f s)) = (t', Some b')" "b' \<le> f s"
        "t' = s \<and> b' = f s \<or> s + h \<le> t' \<and> t' \<le> e \<and> b' = f t'"
        "\<forall>k. s + h + real k * h \<le> e \<longrightarrow> b' \<le> f (s + h + real k * h)"
      using match_loop_some [OF assms(1), of "(s, Some (f s))" "f s" f e "s + h"] by auto
    have b: "b = t'" using True m(1) assms(1) by (simp add: b_def match_loop.simps [of f e h s] closer_def)
    have "f b \<le> f (s + real k * h)" if "s + real k * h \<le> e" for k
    proof (cases k)
      case 0
      then show ?thesis using m(2,3) b by auto
    next
      case (Suc n)
      then have eq: "s + real k * h = s + h + real n * h" by (simp add: algebra_simps)
      have "b' \<le> f (s + real k * h)" using m(4) that unfolding eq by blast
      then show ?thesis using m(3) b by auto
    qed
    then show ?thesis using m(3) b True assms(1) by auto
  next
    case False
    have "\<not> s + real k * h \<le> e" for k
    proof -
      have "0 \<le> real k * h" using assms(1) by simp
      then show ?thesis using False by linarith
    qed
    then show ?thesis using False by (simp add: b_def match_loop.simps)
  qed
  then show "s \<le> b" "b \<le> max s e" "\<forall>k. s + real k * h \<le> e \<longrightarrow> f b \<le> f (s + real k * h)" by blast+
qed

text \<open>The distance of a waypoint to the path.\<close>

definition offset_at :: "('p, 'z) drake_scheme \<Rightarrow> 'p \<Rightarrow> vec \<Rightarrow> real \<Rightarrow> real" where
  "offset_at D path w t = vnorm (vminus (dk_value D path t) w)"

lemma match_from_ok:
  assumes "0 < h" "0 \<le> gap" "\<forall>w \<in> set ws. length w = dk_rows D path" "dk_start D path \<le> s" "e = dk_end D path"
    "ws \<noteq> [] \<longrightarrow> s + real (length ws - 1) * gap \<le> e"
  shows "\<exists>bs. match_from D path s e gap h ws = Inr bs \<and> length bs = length ws
    \<and> (\<forall>i < length bs. s + real i * gap \<le> bs ! i \<and> bs ! i \<le> e - real (length ws - 1 - i) * gap)
    \<and> (\<forall>i. Suc i < length bs \<longrightarrow> bs ! i + gap \<le> bs ! Suc i)
    \<and> (\<forall>i < length bs. let low = (if i = 0 then s else bs ! (i - 1) + gap) in
         \<forall>k. low + real k * h \<le> e - real (length ws - 1 - i) * gap \<longrightarrow> offset_at D path (ws ! i) (bs ! i) \<le> offset_at D path (ws ! i) (low + real k * h))"
  using assms(3,4,6)
proof (induction ws arbitrary: s)
  case (Cons w ws)
  let ?e = "e - real (length ws) * gap"
  define b where "b = fst (match_loop (offset_at D path w) ?e h s (s, None))"
  have se: "s \<le> ?e" using Cons.prems(3) by simp
  have b: "s \<le> b" "b \<le> ?e" "\<forall>k. s + real k * h \<le> ?e \<longrightarrow> offset_at D path w b \<le> offset_at D path w (s + real k * h)"
    using match_best [OF assms(1), where s = s and f = "offset_at D path w" and e = ?e] se unfolding b_def [symmetric] by auto
  have "0 \<le> real (length ws) * gap" using assms(2) by simp
  then have first: "FindBestMatchTime D w path s ?e h = Inr b"
    using Cons.prems(1,2) assms(1,5) by (simp add: FindBestMatchTime_def b_def offset_at_def [abs_def])
  have "b + gap + real (length ws - 1) * gap \<le> e" if ne: "ws \<noteq> []"
  proof -
    obtain m where "length ws = Suc m" using ne by (cases "length ws") auto
    then show ?thesis using b(2) by (simp add: algebra_simps)
  qed
  then have p3: "ws \<noteq> [] \<longrightarrow> b + gap + real (length ws - 1) * gap \<le> e" by blast
  have p2: "dk_start D path \<le> b + gap" using Cons.prems(2) b(1) assms(2) by linarith
  have p1: "\<forall>w \<in> set ws. length w = dk_rows D path" using Cons.prems(1) by simp
  obtain bs where bs: "match_from D path (b + gap) e gap h ws = Inr bs" "length bs = length ws"
      "\<forall>i < length bs. b + gap + real i * gap \<le> bs ! i \<and> bs ! i \<le> e - real (length ws - 1 - i) * gap"
      "\<forall>i. Suc i < length bs \<longrightarrow> bs ! i + gap \<le> bs ! Suc i"
      "\<forall>i < length bs. let low = (if i = 0 then b + gap else bs ! (i - 1) + gap) in
         \<forall>k. low + real k * h \<le> e - real (length ws - 1 - i) * gap \<longrightarrow> offset_at D path (ws ! i) (bs ! i) \<le> offset_at D path (ws ! i) (low + real k * h)"
    using Cons.IH [OF p1 p2 p3] by (elim exE conjE)
  have r: "match_from D path s e gap h (w # ws) = Inr (b # bs)" using first bs(1) by simp
  have "s + real i * gap \<le> (b # bs) ! i \<and> (b # bs) ! i \<le> e - real (length (w # ws) - 1 - i) * gap" if "i < length (b # bs)" for i
  proof (cases i)
    case 0
    then show ?thesis using b by simp
  next
    case (Suc j)
    then have "b + gap + real j * gap \<le> bs ! j \<and> bs ! j \<le> e - real (length ws - 1 - j) * gap" using bs(3) that by simp
    moreover have "real i * gap = gap + real j * gap" using Suc by (simp add: algebra_simps)
    ultimately show ?thesis using Suc b(1) by simp
  qed
  moreover have "(b # bs) ! i + gap \<le> (b # bs) ! Suc i" if "Suc i < length (b # bs)" for i
  proof (cases i)
    case 0
    then show ?thesis using bs(3) [rule_format, of 0] that by simp
  next
    case (Suc j)
    then show ?thesis using bs(4) that by simp
  qed
  moreover have "let low = (if i = 0 then s else (b # bs) ! (i - 1) + gap) in \<forall>k. low + real k * h \<le> e - real (length (w # ws) - 1 - i) * gap
      \<longrightarrow> offset_at D path ((w # ws) ! i) ((b # bs) ! i) \<le> offset_at D path ((w # ws) ! i) (low + real k * h)" if "i < length (b # bs)" for i
  proof (cases i)
    case 0
    then show ?thesis using b(3) by simp
  next
    case (Suc j)
    then have "j < length bs" using that by simp
    from bs(5) [rule_format, OF this] show ?thesis using Suc by (cases j) (simp_all add: Let_def)
  qed
  ultimately show ?case using r bs(2) by (intro exI [of _ "b # bs"]) simp
qed simp

section \<open>The samples of a trailing path\<close>

lemma subseq_set: "subseq xs ys \<Longrightarrow> set xs \<subseteq> set ys"
  by (auto dest: list_emb_set)

lemma subseq_sorted_wrt: "subseq xs ys \<Longrightarrow> sorted_wrt R ys \<Longrightarrow> sorted_wrt R xs"
proof (induction xs ys rule: list_emb.induct)
  case (list_emb_Cons2 x y xs ys)
  then show ?case using subseq_set [of xs ys] by auto
qed auto

text \<open>If the path leaves room for the waypoints, the samples of the trailing path begin with the switch, which is on the
  path, are more than half of the minimum spacing apart in time, and the rest of them are waypoints in their order.\<close>

theorem trailing_samples:
  assumes "0 < h" "0 < gap" "0 < delta" "\<forall>w \<in> set ws. length w = dk_rows D path" "dk_start D path \<le> now"
    "ws \<noteq> [] \<longrightarrow> now + real (length ws - 1) * gap \<le> dk_end D path"
  shows "\<exists>ts vs. CalcSamplesAndTangentFromNewWaypts D ws path now delta gap h False epsilon
      = Inr ((now + delta) # ts, dk_value D path (now + delta) # vs, dk_derivative D path (now + delta))
    \<and> length vs = length ts \<and> subseq vs ws \<and> (\<forall>t \<in> set ts. t \<le> dk_end D path)
    \<and> sorted_wrt (\<lambda>a b. a + gap / 2 < b) ((now + delta) # ts)"
proof -
  have gap: "0 \<le> gap" using assms(2) by simp
  obtain bs where bs: "match_from D path now (dk_end D path) gap h ws = Inr bs" "length bs = length ws"
      "\<forall>i < length bs. now + real i * gap \<le> bs ! i \<and> bs ! i \<le> dk_end D path - real (length ws - 1 - i) * gap"
      "\<forall>i. Suc i < length bs \<longrightarrow> bs ! i + gap \<le> bs ! Suc i"
    using match_from_ok [OF assms(1) gap assms(4,5) refl assms(6)] by (elim exE conjE)
  have sorted: "sorted_wrt (\<lambda>a b. a + gap \<le> b) bs"
    using bs(4) gap by (subst sorted_wrt_iff_nth_Suc_transp) (auto simp: transp_def)
  let ?kept = "filter (\<lambda>(t, w). t > now + delta + gap / 2) (zip bs ws)"
  have "subseq (map snd ?kept) (map snd (zip bs ws))" by (intro subseq_map subseq_filter_left)
  then have sub: "subseq (map snd ?kept) ws" using bs(2) by simp
  have "subseq (map fst ?kept) (map fst (zip bs ws))" by (intro subseq_map subseq_filter_left)
  then have kept: "subseq (map fst ?kept) bs" using bs(2) by simp
  have "b \<le> dk_end D path" if b: "b \<in> set bs" for b
  proof -
    obtain i where "i < length bs" "bs ! i = b" using b by (auto simp: in_set_conv_nth)
    moreover have "0 \<le> real (length ws - 1 - i) * gap" using gap by simp
    ultimately show ?thesis using bs(3) by fastforce
  qed
  then have "\<forall>t \<in> set (map fst ?kept). t \<le> dk_end D path" using subseq_set [OF kept] by blast
  moreover have "sorted_wrt (\<lambda>a b. a + gap / 2 < b) ((now + delta) # map fst ?kept)"
  proof -
    have "sorted_wrt (\<lambda>a b. a + gap \<le> b) (map fst ?kept)" by (rule subseq_sorted_wrt [OF kept sorted])
    then have "sorted_wrt (\<lambda>a b. a + gap / 2 < b) (map fst ?kept)"
      by (rule sorted_wrt_mono_rel [rotated]) (use assms(2) in auto)
    then show ?thesis by auto
  qed
  ultimately show ?thesis using bs(1) sub assms(3)
    by (intro exI [of _ "map fst ?kept"] exI [of _ "map snd ?kept"])
      (simp add: CalcSamplesAndTangentFromNewWaypts_def FindBestMatchTimes_def Let_def)
qed

text \<open>When no waypoint is kept the one sample left has no predecessor for the end tangent.\<close>

lemma no_waypoint_left:
  assumes "0 < delta" "FindBestMatchTimes D ws path now (dk_end D path) gap h = Inr bs" "\<forall>b \<in> set bs. b \<le> now + delta + gap / 2"
  shows "CalcTrailingPathTowardWaypts D ws path now delta gap h False epsilon = Inl out_of_range"
proof -
  have "filter (\<lambda>(t, w). t > now + delta + gap / 2) (zip bs ws) = []"
    using assms(3) by (fastforce simp: filter_empty_conv dest: set_zip_leftD)
  then show ?thesis using assms(1,2)
    by (simp add: CalcTrailingPathTowardWaypts_def CalcSamplesAndTangentFromNewWaypts_def Let_def CalcCubicPath_def)
qed

section \<open>Smoothed waypoints\<close>

text \<open>The documented behaviour of the solver: a solution keeps the bounds and costs no more than anything else that does.\<close>

definition within_bounds :: "vec list \<Rightarrow> (vec \<times> vec) list \<Rightarrow> bool" where
  "within_bounds e bs \<longleftrightarrow> list_all2 (\<lambda>v (l, u). length v = length l \<and> (\<forall>j < length v. l ! j \<le> v ! j \<and> v ! j \<le> u ! j)) e bs"

definition qp_law :: "('p, 'z) drake_scheme \<Rightarrow> bool" where
  "qp_law D \<longleftrightarrow> (\<forall>c bs e. dk_qp D c bs = Some e \<longrightarrow> within_bounds e bs \<and> (\<forall>e'. within_bounds e' bs \<longrightarrow> c e \<le> c e'))"

lemma smoothing_bounds_nth:
  "length (smoothing_bounds n nd eps) = n"
  "i < n \<Longrightarrow> smoothing_bounds n nd eps ! i = (if i > 0 then (map uminus eps, eps) else (replicate nd 0, replicate nd 0))"
  by (simp_all add: smoothing_bounds_def)

theorem smoothed_close:
  assumes "qp_law D" "\<forall>v \<in> set vs. length v = length eps" "SmoothWaypoints D ts vs tangent eps = Inr ws" "\<forall>x \<in> set eps. 0 \<le> x"
  shows "length ws = length vs" "ws ! 0 = vs ! 0"
    "\<forall>i < length vs. \<forall>j < length eps. \<bar>ws ! i ! j - vs ! i ! j\<bar> \<le> eps ! j"
    "\<exists>e. ws = map2 vadd vs e \<and> smoothing_cost ts vs tangent (length eps) e \<le> smoothing_cost ts vs tangent (length eps) (replicate (length vs) (replicate (length eps) 0))"
proof -
  obtain v vs' where vs: "vs = v # vs'" using assms(3) by (cases vs) (auto simp: SmoothWaypoints_def split: if_splits)
  have len: "length ts = length vs" using assms(3) by (auto simp: SmoothWaypoints_def split: if_splits)
  have nd: "length v = length eps" using assms(2) vs by simp
  have e0: "(case dk_qp D (smoothing_cost ts vs tangent (length eps)) (smoothing_bounds (length vs) (length eps) eps) of
      None \<Rightarrow> Inl ''Failed to solve the smoothing program'' | Some e \<Rightarrow> Inr (map2 vadd vs e)) = Inr ws"
    using assms(3) vs nd len unfolding SmoothWaypoints_def by (auto split: if_splits simp del: list.map zip_Cons1)
  then obtain e where e: "dk_qp D (smoothing_cost ts vs tangent (length eps)) (smoothing_bounds (length vs) (length eps) eps) = Some e"
      "ws = map2 vadd vs e" by (auto split: option.splits)
  have w: "within_bounds e (smoothing_bounds (length vs) (length eps) eps)"
    "\<forall>e'. within_bounds e' (smoothing_bounds (length vs) (length eps) eps)
      \<longrightarrow> smoothing_cost ts vs tangent (length eps) e \<le> smoothing_cost ts vs tangent (length eps) e'"
    using assms(1) e(1) unfolding qp_law_def by blast+
  have le: "length e = length vs" using w(1) by (auto simp: within_bounds_def smoothing_bounds_nth dest: list_all2_lengthD)
  have le_i: "length (e ! i) = length eps" "j < length eps \<Longrightarrow> \<bar>e ! i ! j\<bar> \<le> eps ! j" "i = 0 \<Longrightarrow> j < length eps \<Longrightarrow> e ! i ! j = 0"
    if "i < length vs" for i j
    using list_all2_nthD [OF w(1) [unfolded within_bounds_def], of i] that le assms(4)
    by (force simp: smoothing_bounds_nth split: if_splits)+
  show "length ws = length vs" using e(2) le by simp
  have nth: "ws ! i ! j = vs ! i ! j + e ! i ! j" "length (ws ! i) = length eps" if "i < length vs" "j < length eps" for i j
    using that le le_i(1) assms(2) by (auto simp: e(2) vadd_def)
  show "\<forall>i < length vs. \<forall>j < length eps. \<bar>ws ! i ! j - vs ! i ! j\<bar> \<le> eps ! j" using nth le_i(2) by simp
  have "length (e ! 0) = length eps" using le_i(1) [of 0] vs by simp
  then show "ws ! 0 = vs ! 0" using le_i(3) [of 0] le vs nd
    by (cases e) (auto simp: e(2) vadd_def intro!: nth_equalityI)
  have "within_bounds (replicate (length vs) (replicate (length eps) 0)) (smoothing_bounds (length vs) (length eps) eps)"
    using assms(4) by (auto simp: within_bounds_def list_all2_conv_all_nth smoothing_bounds_nth)
  then show "\<exists>e. ws = map2 vadd vs e \<and> smoothing_cost ts vs tangent (length eps) e
      \<le> smoothing_cost ts vs tangent (length eps) (replicate (length vs) (replicate (length eps) 0))"
    using w(2) e(2) by blast
qed

section \<open>Power form of Bezier curves\<close>

definition bernstein_value :: "nat \<Rightarrow> vec list \<Rightarrow> real \<Rightarrow> nat \<Rightarrow> real" where
  "bernstein_value m points u r = (\<Sum>k \<le> m. real (m choose k) * (1 - u) ^ (m - k) * u ^ k * points ! k ! r)"

lemma bernstein_term:
  assumes "k \<le> m"
  shows "(\<Sum>j \<le> m. real (m choose j) * real (j choose k) * (-1) ^ (k + j) * u ^ j) = real (m choose k) * (1 - u) ^ (m - k) * u ^ k"
proof -
  have "(\<Sum>j \<le> m. real (m choose j) * real (j choose k) * (-1) ^ (k + j) * u ^ j)
      = (\<Sum>j \<in> {k..m}. real (m choose j) * real (j choose k) * (-1) ^ (k + j) * u ^ j)"
    by (rule sum.mono_neutral_right) (auto simp: not_le)
  also have "\<dots> = (\<Sum>i \<le> m - k. real (m choose (k + i)) * real ((k + i) choose k) * (-1) ^ (k + (k + i)) * u ^ (k + i))"
    by (rule sum.reindex_bij_witness [of _ "\<lambda>i. k + i" "\<lambda>j. j - k"]) (use assms in auto)
  also have "\<dots> = (\<Sum>i \<le> m - k. real (m choose k) * u ^ k * (real ((m - k) choose i) * (- u) ^ i * 1 ^ (m - k - i)))"
  proof (rule sum.cong [OF refl])
    fix i assume i: "i \<in> {..m - k}"
    then have "(m choose (k + i)) * ((k + i) choose k) = (m choose k) * ((m - k) choose i)"
      using assms by (subst choose_mult) auto
    then have c: "real (m choose (k + i)) * real ((k + i) choose k) = real (m choose k) * real ((m - k) choose i)"
      by (metis of_nat_mult)
    have "(-1 :: real) ^ (k + (k + i)) = (-1) ^ (2 * k + i)" by (simp add: mult_2 add.assoc)
    then have "(-1 :: real) ^ (k + (k + i)) = (-1) ^ i" by (simp add: power_add power_mult)
    then show "real (m choose (k + i)) * real ((k + i) choose k) * (-1) ^ (k + (k + i)) * u ^ (k + i)
        = real (m choose k) * u ^ k * (real ((m - k) choose i) * (- u) ^ i * 1 ^ (m - k - i))"
      using c by (simp add: power_add power_minus [of u])
  qed
  also have "\<dots> = real (m choose k) * u ^ k * (\<Sum>i \<le> m - k. real ((m - k) choose i) * (- u) ^ i * 1 ^ (m - k - i))"
    by (simp only: sum_distrib_left)
  also have "(\<Sum>i \<le> m - k. real ((m - k) choose i) * (- u) ^ i * 1 ^ (m - k - i)) = (- u + 1) ^ (m - k)"
    by (rule binomial_ring [symmetric])
  finally show ?thesis by (simp add: algebra_simps)
qed

lemma power_to_bernstein:
  "(\<Sum>j \<le> m. (\<Sum>k \<le> j. real (m choose j) * real (j choose k) * (-1) ^ (k + j) * points ! k ! r) * u ^ j) = bernstein_value m points u r"
proof -
  have "(\<Sum>j \<le> m. (\<Sum>k \<le> j. real (m choose j) * real (j choose k) * (-1) ^ (k + j) * points ! k ! r) * u ^ j)
      = (\<Sum>j \<le> m. \<Sum>k \<le> m. real (m choose j) * real (j choose k) * (-1) ^ (k + j) * u ^ j * points ! k ! r)"
  proof (rule sum.cong [OF refl])
    fix j assume "j \<in> {..m}"
    then have "(\<Sum>k \<le> m. real (m choose j) * real (j choose k) * (-1) ^ (k + j) * u ^ j * points ! k ! r)
        = (\<Sum>k \<le> j. real (m choose j) * real (j choose k) * (-1) ^ (k + j) * u ^ j * points ! k ! r)"
      by (intro sum.mono_neutral_right) (auto simp: not_le)
    then show "(\<Sum>k \<le> j. real (m choose j) * real (j choose k) * (-1) ^ (k + j) * points ! k ! r) * u ^ j
        = (\<Sum>k \<le> m. real (m choose j) * real (j choose k) * (-1) ^ (k + j) * u ^ j * points ! k ! r)"
      by (simp add: sum_distrib_right sum_distrib_left mult_ac)
  qed
  also have "\<dots> = (\<Sum>k \<le> m. \<Sum>j \<le> m. real (m choose j) * real (j choose k) * (-1) ^ (k + j) * u ^ j * points ! k ! r)"
    by (rule sum.swap)
  also have "\<dots> = bernstein_value m points u r"
    unfolding bernstein_value_def sum_distrib_right [symmetric] by (rule sum.cong [OF refl]) (simp add: bernstein_term)
  finally show ?thesis .
qed

lemma factorial_eq: "m \<le> 12 \<Longrightarrow> factorial (int m) = Inr (fact m)"
proof (induction m)
  case 0
  then show ?case by (subst factorial.simps) simp
next
  case (Suc m)
  have "fact (Suc m) \<le> (fact 12 :: int)" by (rule fact_mono) (use Suc.prems in simp)
  also have "(fact 12 :: int) < 2 ^ 31" by (simp add: fact_numeral)
  finally have "fact (Suc m) < (2 ^ 31 :: int)" .
  then show ?case using Suc.IH Suc.prems by (subst factorial.simps) (simp add: algebra_simps)
qed

lemma factorial_overflow: "factorial 13 = Inl ''undefined: signed overflow''"
  using factorial_eq [of 12] by (subst factorial.simps) (simp add: fact_numeral)

lemma bezier_coeff_eq:
  assumes "k \<le> j" "j \<le> m" "m \<le> 12"
  shows "bezier_coeff (int m) j k d = Inr (real (m choose j) * real (j choose k) * (-1) ^ (k + j) / d ^ j)"
proof -
  have f: "factorial (int m) = Inr (fact m)" "factorial (int m - int j) = Inr (fact (m - j))"
    "factorial (int k) = Inr (fact k)" "factorial (int j - int k) = Inr (fact (j - k))"
    using factorial_eq [of m] factorial_eq [of "m - j"] factorial_eq [of k] factorial_eq [of "j - k"] assms by (simp_all add: of_nat_diff)
  have "(fact (m - j) :: int) dvd fact m" by (rule fact_dvd) simp
  then have q: "real_of_int (fact m div fact (m - j)) = fact m / fact (m - j)" by (simp add: real_of_int_div)
  have c: "real (m choose j) = fact m / (fact j * fact (m - j))" "real (j choose k) = fact j / (fact k * fact (j - k))"
    using assms by (simp_all add: binomial_fact)
  show ?thesis unfolding bezier_coeff_def f bindE_simps q c by (simp add: field_simps)
qed

lemma foldE_terms:
  assumes "\<And>k. k \<in> set ks \<Longrightarrow> g k = Inr (c k)" "length acc = n" "\<forall>k \<in> set ks. length (ps ! k) = n"
  shows "\<exists>v. foldE (\<lambda>k acc. bindE (g k) (\<lambda>c. Inr (vadd acc (vscale c (ps ! k))))) ks acc = Inr v \<and> length v = n
    \<and> (\<forall>r < n. v ! r = acc ! r + (\<Sum>k \<leftarrow> ks. c k * ps ! k ! r))"
  using assms
proof (induction ks arbitrary: acc)
  case (Cons k ks)
  have l: "length (vadd acc (vscale (c k) (ps ! k))) = n" using Cons.prems by (simp add: vadd_def vscale_def)
  obtain v where "foldE (\<lambda>k acc. bindE (g k) (\<lambda>c. Inr (vadd acc (vscale c (ps ! k))))) ks (vadd acc (vscale (c k) (ps ! k))) = Inr v"
      "length v = n" "\<forall>r < n. v ! r = vadd acc (vscale (c k) (ps ! k)) ! r + (\<Sum>k \<leftarrow> ks. c k * ps ! k ! r)"
    using Cons.IH [OF _ l] Cons.prems by auto
  then show ?case using Cons.prems by (intro exI [of _ v]) (simp add: vadd_def vscale_def)
qed simp

definition bezier_ok :: "nat \<Rightarrow> bezier \<Rightarrow> bool" where
  "bezier_ok n b \<longleftrightarrow> length (bz_points b) = Suc (bz_order b) \<and> (\<forall>p \<in> set (bz_points b). length p = n)"

lemma power_column_eq:
  assumes "bezier_ok n b" "bz_order b \<le> 12" "j \<le> bz_order b"
  shows "\<exists>v. power_column d b n j = Inr v \<and> length v = n \<and> (\<forall>r < n. v ! r =
    (\<Sum>k \<le> j. real (bz_order b choose j) * real (j choose k) * (-1) ^ (k + j) * bz_points b ! k ! r) / d ^ j)"
proof -
  let ?c = "\<lambda>k. real (bz_order b choose j) * real (j choose k) * (-1) ^ (k + j) / d ^ j"
  obtain v where v: "power_column d b n j = Inr v" "length v = n"
      "\<forall>r < n. v ! r = replicate n 0 ! r + (\<Sum>k \<leftarrow> [0..<j + 1]. ?c k * bz_points b ! k ! r)"
    using foldE_terms [of "[0..<j + 1]" "\<lambda>k. bezier_coeff (int (bz_order b)) j k d" ?c "replicate n 0" n "bz_points b"]
      bezier_coeff_eq [OF _ assms(3,2)] assms by (auto simp: power_column_def bezier_ok_def simp del: upt_Suc)
  have "(\<Sum>k \<leftarrow> [0..<j + 1]. ?c k * bz_points b ! k ! r)
      = (\<Sum>k \<le> j. real (bz_order b choose j) * real (j choose k) * (-1) ^ (k + j) * bz_points b ! k ! r) / d ^ j" for r
    by (simp add: interv_sum_list_conv_sum_set_nat atLeast0LessThan lessThan_Suc_atMost sum_divide_distrib mult_ac del: upt_Suc)
  then show ?thesis using v by (intro exI [of _ v]) simp
qed

lemma power_form_eq:
  assumes "bezier_ok n b" "bz_order b \<le> 12" "d \<noteq> 0"
  shows "\<exists>m. power_form d b n = Inr m \<and> mx_ok n m \<and> (\<forall>t. \<forall>r < n. poly_value m t ! r = bernstein_value (bz_order b) (bz_points b) (t / d) r)"
proof -
  let ?p = "\<lambda>j. projr (power_column d b n j)"
  have col: "power_column d b n j = Inr (?p j)" "length (?p j) = n"
    "r < n \<Longrightarrow> ?p j ! r = (\<Sum>k \<le> j. real (bz_order b choose j) * real (j choose k) * (-1) ^ (k + j) * bz_points b ! k ! r) / d ^ j"
    if "j \<le> bz_order b" for j r using power_column_eq [OF assms(1,2) that, of d] by auto
  let ?m = "\<lparr> mx_rows = n, mx_cols = map ?p [0..<bz_order b + 1] \<rparr>"
  have f: "power_form d b n = Inr ?m"
    unfolding power_form_def by (subst mapE_total [where g = ?p]) (auto intro!: col(1) simp del: upt_Suc)
  have ok: "mx_ok n ?m" by (auto simp: mx_ok_def col(2) simp del: upt_Suc)
  have "poly_value ?m t ! r = bernstein_value (bz_order b) (bz_points b) (t / d) r" if r: "r < n" for t r
  proof -
    have "poly_value ?m t ! r = (\<Sum>j \<le> bz_order b. t ^ j * ?p j ! r)"
      using poly_value_nth(2) [OF ok r] by (simp add: lessThan_Suc_atMost del: upt_Suc)
    also have "\<dots> = (\<Sum>j \<le> bz_order b. (\<Sum>k \<le> j. real (bz_order b choose j) * real (j choose k) * (-1) ^ (k + j) * bz_points b ! k ! r) * (t / d) ^ j)"
      by (rule sum.cong [OF refl]) (simp add: col(3) [OF _ r] power_divide)
    finally show ?thesis by (simp only: power_to_bernstein)
  qed
  then show ?thesis using f ok by blast
qed

text \<open>C34: A composite Bezier curve becomes a piecewise polynomial with the same breaks and, on every segment, the same values,
  if the orders are at most 12, so that no factorial exceeds an \<open>int\<close>.\<close>

theorem bezier_to_power_form:
  assumes "\<forall>(d, b) \<in> set segs. d \<noteq> 0 \<and> (\<exists>c. b = Some c \<and> bezier_ok n c \<and> bz_order c \<le> 12)"
  shows "\<exists>ms ts. CompositeBezierCurveToPiecewisePolynomial n t0 segs = Inr (ms, ts) \<and> length ms = length segs \<and> length ts = Suc (length segs)
    \<and> ts ! 0 = t0 \<and> (\<forall>i < length segs. ts ! Suc i = ts ! i + fst (segs ! i) \<and> mx_ok n (ms ! i)
        \<and> (\<forall>t. \<forall>r < n. poly_value (ms ! i) (t - ts ! i) ! r =
             bernstein_value (bz_order (the (snd (segs ! i)))) (bz_points (the (snd (segs ! i)))) ((t - ts ! i) / fst (segs ! i)) r))"
  unfolding CompositeBezierCurveToPiecewisePolynomial_def
  using assms
proof (induction segs arbitrary: t0)
  case (Cons x segs)
  obtain d b where x: "x = (d, Some b)" "bezier_ok n b" "bz_order b \<le> 12" "d \<noteq> 0" using Cons.prems by (cases x) auto
  obtain m where m: "power_form d b n = Inr m" "mx_ok n m"
      "\<forall>t. \<forall>r < n. poly_value m t ! r = bernstein_value (bz_order b) (bz_points b) (t / d) r"
    using power_form_eq [OF x(2-4)] by (elim exE conjE)
  have pre: "\<forall>(d, b) \<in> set segs. d \<noteq> 0 \<and> (\<exists>c. b = Some c \<and> bezier_ok n c \<and> bz_order c \<le> 12)" using Cons.prems by simp
  obtain ms ts where i: "bezier_segments n (t0 + d) segs = Inr (ms, ts)" "length ms = length segs" "length ts = Suc (length segs)"
      "ts ! 0 = t0 + d" "\<forall>i < length segs. ts ! Suc i = ts ! i + fst (segs ! i) \<and> mx_ok n (ms ! i)
        \<and> (\<forall>t. \<forall>r < n. poly_value (ms ! i) (t - ts ! i) ! r =
             bernstein_value (bz_order (the (snd (segs ! i)))) (bz_points (the (snd (segs ! i)))) ((t - ts ! i) / fst (segs ! i)) r)"
    using Cons.IH [OF pre, of "t0 + d"] by (elim exE conjE)
  show ?case
    by (intro exI [of _ "m # ms"] exI [of _ "t0 # ts"])
      (use i m x in \<open>auto simp: less_Suc_eq_0_disj\<close>)
qed simp

section \<open>Joined trajectories\<close>

text \<open>What Drake documents of trajectories that are not empty.\<close>

definition join_laws :: "('p, 'z) drake_scheme \<Rightarrow> bool" where
  "join_laws D \<longleftrightarrow>
     (\<forall>p. \<not> dk_empty D p \<longrightarrow> dk_start D p \<le> dk_end D p) \<and>
     (\<forall>p d t. \<not> dk_empty D p \<longrightarrow> \<not> dk_empty D (dk_shift D d p) \<and> dk_rows D (dk_shift D d p) = dk_rows D p
        \<and> dk_start D (dk_shift D d p) = dk_start D p + d \<and> dk_end D (dk_shift D d p) = dk_end D p + d
        \<and> dk_value D (dk_shift D d p) t = dk_value D p (t - d)) \<and>
     (\<forall>p c t. \<not> dk_empty D p \<longrightarrow> \<not> dk_empty D (dk_add D c p) \<and> dk_rows D (dk_add D c p) = dk_rows D p
        \<and> dk_start D (dk_add D c p) = dk_start D p \<and> dk_end D (dk_add D c p) = dk_end D p
        \<and> dk_value D (dk_add D c p) t = map ((+) c) (dk_value D p t)) \<and>
     (\<forall>p q. \<not> dk_empty D p \<longrightarrow> \<not> dk_empty D q \<longrightarrow> dk_end D p = dk_start D q \<longrightarrow> dk_rows D p = dk_rows D q \<longrightarrow>
        (\<exists>r. dk_concat D p q = Inr r \<and> \<not> dk_empty D r \<and> dk_rows D r = dk_rows D p \<and> dk_start D r = dk_start D p \<and> dk_end D r = dk_end D q
          \<and> (\<forall>t. dk_value D r t = (if t < dk_end D p then dk_value D p t else dk_value D q t))))"

lemma join_lawsD:
  assumes "join_laws D"
  shows "\<not> dk_empty D p \<Longrightarrow> dk_start D p \<le> dk_end D p"
    "\<not> dk_empty D p \<Longrightarrow> \<not> dk_empty D (dk_shift D d p)" "\<not> dk_empty D p \<Longrightarrow> dk_rows D (dk_shift D d p) = dk_rows D p"
    "\<not> dk_empty D p \<Longrightarrow> dk_start D (dk_shift D d p) = dk_start D p + d" "\<not> dk_empty D p \<Longrightarrow> dk_end D (dk_shift D d p) = dk_end D p + d"
    "\<not> dk_empty D p \<Longrightarrow> dk_value D (dk_shift D d p) t = dk_value D p (t - d)"
    "\<not> dk_empty D p \<Longrightarrow> \<not> dk_empty D (dk_add D c p)" "\<not> dk_empty D p \<Longrightarrow> dk_rows D (dk_add D c p) = dk_rows D p"
    "\<not> dk_empty D p \<Longrightarrow> dk_start D (dk_add D c p) = dk_start D p" "\<not> dk_empty D p \<Longrightarrow> dk_end D (dk_add D c p) = dk_end D p"
    "\<not> dk_empty D p \<Longrightarrow> dk_value D (dk_add D c p) t = map ((+) c) (dk_value D p t)"
  using assms unfolding join_laws_def by blast+

lemma join_concat:
  assumes "join_laws D" "\<not> dk_empty D p" "\<not> dk_empty D q" "dk_end D p = dk_start D q" "dk_rows D p = dk_rows D q"
  obtains r where "dk_concat D p q = Inr r" "\<not> dk_empty D r" "dk_rows D r = dk_rows D p" "dk_start D r = dk_start D p" "dk_end D r = dk_end D q"
    "\<And>t. dk_value D r t = (if t < dk_end D p then dk_value D p t else dk_value D q t)"
proof -
  obtain r where "dk_concat D p q = Inr r" "\<not> dk_empty D r" "dk_rows D r = dk_rows D p" "dk_start D r = dk_start D p" "dk_end D r = dk_end D q"
    "\<forall>t. dk_value D r t = (if t < dk_end D p then dk_value D p t else dk_value D q t)"
    using assms(1) [unfolded join_laws_def, THEN conjunct2, THEN conjunct2, THEN conjunct2, rule_format, OF assms(2-5)] by (elim exE conjE)
  then show thesis using that by simp
qed

lemma snap_exact: "join_laws D \<Longrightarrow> \<not> dk_empty D p \<Longrightarrow> dk_start D p = x \<Longrightarrow> snap_start D x p = dk_shift D 0 p"
  by (simp add: snap_start_def my_epsilon_def)

definition dur :: "('p, 'z) drake_scheme \<Rightarrow> 'p \<Rightarrow> real" where "dur D p = dk_end D p - dk_start D p"

text \<open>Where piece \<open>k\<close> begins in the result; \<open>f\<close> takes the path or the time scaling of a piece.\<close>

definition piece_start :: "('p, 'z) drake_scheme \<Rightarrow> ('p \<times> 'p \<Rightarrow> 'p) \<Rightarrow> ('p \<times> 'p) list \<Rightarrow> nat \<Rightarrow> real" where
  "piece_start D f xs k = dk_start D (f (hd xs)) + (\<Sum>x \<leftarrow> take k xs. dur D (f x))"

definition plays :: "('p, 'z) drake_scheme \<Rightarrow> ('p \<times> 'p) list \<Rightarrow> 'p \<times> 'p \<Rightarrow> bool" where
  "plays D xs = (\<lambda>(P, T). \<forall>k < length xs. \<forall>\<tau> s. dk_start D (snd (xs ! k)) \<le> \<tau> \<longrightarrow> \<tau> < dk_end D (snd (xs ! k)) \<longrightarrow>
     dk_value D (snd (xs ! k)) \<tau> = [s] \<longrightarrow> dk_start D (fst (xs ! k)) \<le> s \<longrightarrow> s < dk_end D (fst (xs ! k)) \<longrightarrow>
     dk_value D T (piece_start D snd xs k + (\<tau> - dk_start D (snd (xs ! k)))) = [piece_start D fst xs k + (s - dk_start D (fst (xs ! k)))]
     \<and> dk_value D P (piece_start D fst xs k + (s - dk_start D (fst (xs ! k)))) = dk_value D (fst (xs ! k)) s)"

definition piece_ok :: "('p, 'z) drake_scheme \<Rightarrow> nat \<Rightarrow> 'p \<times> 'p \<Rightarrow> bool" where
  "piece_ok D n = (\<lambda>(p, t). \<not> dk_empty D p \<and> \<not> dk_empty D t \<and> dk_rows D p = n \<and> dk_rows D t = 1 \<and> dk_cols D t = 1)"

definition joined :: "('p, 'z) drake_scheme \<Rightarrow> nat \<Rightarrow> ('p \<times> 'p) list \<Rightarrow> 'p \<times> 'p \<Rightarrow> bool" where
  "joined D n xs = (\<lambda>(P, T). \<not> dk_empty D P \<and> \<not> dk_empty D T \<and> dk_rows D P = n \<and> dk_rows D T = 1
     \<and> dk_start D P = dk_start D (fst (hd xs)) \<and> dk_start D T = dk_start D (snd (hd xs))
     \<and> dk_end D P = piece_start D fst xs (length xs) \<and> dk_end D T = piece_start D snd xs (length xs) \<and> plays D xs (P, T))"

lemma piece_start_snoc:
  "xs \<noteq> [] \<Longrightarrow> k \<le> length xs \<Longrightarrow> piece_start D f (xs @ [x]) k = piece_start D f xs k"
  "xs \<noteq> [] \<Longrightarrow> piece_start D f (xs @ [x]) (Suc (length xs)) = piece_start D f xs (length xs) + dur D (f x)"
  by (simp_all add: piece_start_def)

lemma piece_inside:
  assumes "\<forall>x \<in> set xs. 0 \<le> dur D (f x)" "k < length xs"
  shows "piece_start D f xs k + dur D (f (xs ! k)) \<le> piece_start D f xs (length xs)"
proof -
  have "(\<Sum>x \<leftarrow> xs. dur D (f x)) = (\<Sum>x \<leftarrow> take (Suc k) xs. dur D (f x)) + (\<Sum>x \<leftarrow> drop (Suc k) xs. dur D (f x))"
    by (metis append_take_drop_id map_append sum_list_append)
  moreover have "0 \<le> (\<Sum>x \<leftarrow> drop (Suc k) xs. dur D (f x))"
    by (rule sum_list_nonneg) (use assms(1) in \<open>auto dest: in_set_dropD\<close>)
  ultimately show ?thesis using assms(2) by (simp add: piece_start_def take_Suc_conv_app_nth)
qed

lemma combine_first:
  assumes "dk_empty D rp" "piece_ok D n x"
  shows "combine_step D tol x (rp, rt) = Inr x" "joined D n [x] x"
  using assms by (auto simp: combine_step_def piece_ok_def joined_def plays_def piece_start_def dur_def)

lemma combine_next:
  assumes laws: "join_laws D" and j: "joined D n xs acc" and x: "piece_ok D n x" and ne: "xs \<noteq> []" and all: "\<forall>x \<in> set xs. piece_ok D n x"
    and r: "combine_step D tol x acc = Inr acc'"
  shows "joined D n (xs @ [x]) acc'"
proof -
  obtain P T where acc: "acc = (P, T)" by (cases acc)
  obtain p t where xp: "x = (p, t)" by (cases x)
  note l = join_lawsD [OF laws]
  have jd: "\<not> dk_empty D P" "\<not> dk_empty D T" "dk_rows D P = n" "dk_rows D T = 1" "dk_start D P = dk_start D (fst (hd xs))"
    "dk_start D T = dk_start D (snd (hd xs))" "dk_end D P = piece_start D fst xs (length xs)"
    "dk_end D T = piece_start D snd xs (length xs)" and plays: "plays D xs (P, T)"
    using j by (auto simp: joined_def acc)
  have xd: "\<not> dk_empty D p" "\<not> dk_empty D t" "dk_rows D p = n" "dk_rows D t = 1" "dk_cols D t = 1" using x by (auto simp: piece_ok_def xp)
  define ss where "ss = dk_end D P - dk_start D p"
  define st where "st = dk_end D T - dk_start D t"
  define p' where "p' = dk_shift D 0 (dk_shift D ss p)"
  define t' where "t' = dk_shift D 0 (dk_add D ss (dk_shift D st t))"
  have p': "\<not> dk_empty D p'" "dk_rows D p' = n" "dk_start D p' = dk_end D P" "dk_end D p' = dk_end D P + dur D p"
    "\<And>u. dk_value D p' u = dk_value D p (u - ss)"
    using xd by (simp_all add: p'_def l ss_def dur_def)
  have t': "\<not> dk_empty D t'" "dk_rows D t' = 1" "dk_start D t' = dk_end D T" "dk_end D t' = dk_end D T + dur D t"
    "\<And>u. dk_value D t' u = map ((+) ss) (dk_value D t (u - st))"
    using xd by (simp_all add: t'_def l st_def dur_def)
  obtain P' where P': "dk_concat D P p' = Inr P'" "\<not> dk_empty D P'" "dk_rows D P' = n" "dk_start D P' = dk_start D P"
      "dk_end D P' = dk_end D p'" "\<And>u. dk_value D P' u = (if u < dk_end D P then dk_value D P u else dk_value D p' u)"
    using join_concat [OF laws jd(1) p'(1)] p'(2,3) jd(3) by metis
  obtain T' where T': "dk_concat D T t' = Inr T'" "\<not> dk_empty D T'" "dk_rows D T' = 1" "dk_start D T' = dk_start D T"
      "dk_end D T' = dk_end D t'" "\<And>u. dk_value D T' u = (if u < dk_end D T then dk_value D T u else dk_value D t' u)"
    using join_concat [OF laws jd(2) t'(1)] t'(2,3) jd(4) by metis
  have snap: "snap_start D (dk_end D P) (dk_shift D ss p) = p'" "snap_start D (dk_end D T) (dk_add D ss (dk_shift D st t)) = t'"
    unfolding p'_def t'_def using xd by (auto intro!: snap_exact [OF laws] simp: l ss_def st_def)
  have acc': "acc' = (P', T')"
    using r xd jd(1,2) snap P'(1) T'(1) by (simp add: combine_step_def acc xp Let_def ss_def [symmetric] st_def [symmetric] split: if_splits)
  have durs: "\<forall>x \<in> set xs. 0 \<le> dur D (fst x)" "\<forall>x \<in> set xs. 0 \<le> dur D (snd x)"
    using all l(1) by (fastforce simp: piece_ok_def dur_def)+
  have "plays D (xs @ [x]) (P', T')"
    unfolding plays_def case_prod_conv
  proof (intro allI impI)
    fix k \<tau> s
    assume a: "k < length (xs @ [x])" "dk_start D (snd ((xs @ [x]) ! k)) \<le> \<tau>" "\<tau> < dk_end D (snd ((xs @ [x]) ! k))"
      "dk_value D (snd ((xs @ [x]) ! k)) \<tau> = [s]" "dk_start D (fst ((xs @ [x]) ! k)) \<le> s" "s < dk_end D (fst ((xs @ [x]) ! k))"
    show "dk_value D T' (piece_start D snd (xs @ [x]) k + (\<tau> - dk_start D (snd ((xs @ [x]) ! k))))
          = [piece_start D fst (xs @ [x]) k + (s - dk_start D (fst ((xs @ [x]) ! k)))]
        \<and> dk_value D P' (piece_start D fst (xs @ [x]) k + (s - dk_start D (fst ((xs @ [x]) ! k)))) = dk_value D (fst ((xs @ [x]) ! k)) s"
    proof (cases "k < length xs")
      case True
      then have b: "piece_start D snd xs k + (\<tau> - dk_start D (snd (xs ! k))) < dk_end D T"
        "piece_start D fst xs k + (s - dk_start D (fst (xs ! k))) < dk_end D P"
        using a(3,6) piece_inside [OF durs(1) True] piece_inside [OF durs(2) True] jd(7,8) by (auto simp: nth_append dur_def)
      have "dk_value D T (piece_start D snd xs k + (\<tau> - dk_start D (snd (xs ! k)))) = [piece_start D fst xs k + (s - dk_start D (fst (xs ! k)))]
        \<and> dk_value D P (piece_start D fst xs k + (s - dk_start D (fst (xs ! k)))) = dk_value D (fst (xs ! k)) s"
        using plays True a(2-6) unfolding plays_def by (simp add: nth_append)
      then show ?thesis using True b by (simp add: nth_append piece_start_snoc [OF ne] P'(6) T'(6))
    next
      case False
      then have k: "k = length xs" using a(1) by simp
      have v: "dk_value D t \<tau> = [s]" "dk_start D t \<le> \<tau>" "dk_start D p \<le> s" using a(2,4,5) by (simp_all add: k xp)
      have "dk_end D T + (\<tau> - dk_start D t) - st = \<tau>" "dk_end D P + (s - dk_start D p) - ss = s" "ss + s = dk_end D P + (s - dk_start D p)"
        by (simp_all add: st_def ss_def)
      note e = this
      have "dk_value D T' (dk_end D T + (\<tau> - dk_start D t)) = [dk_end D P + (s - dk_start D p)]"
        using v(2) by (simp add: T'(6) t'(5) e(1) v(1)) (simp add: ss_def)
      moreover have "dk_value D P' (dk_end D P + (s - dk_start D p)) = dk_value D p s" using v(3) by (simp add: P'(6) p'(5) e(2))
      ultimately show ?thesis by (simp add: k xp piece_start_snoc [OF ne] jd(7,8) [symmetric])
    qed
  qed
  then show ?thesis
    using P' T' p'(4) t'(4) jd ne by (simp add: joined_def acc' piece_start_snoc xp)
qed

lemma combine_joined:
  assumes "join_laws D" "joined D n xs acc" "xs \<noteq> []" "\<forall>x \<in> set (xs @ ys). piece_ok D n x" "foldE (combine_step D tol) ys acc = Inr r"
  shows "joined D n (xs @ ys) r"
  using assms(2-5)
proof (induction ys arbitrary: xs acc)
  case (Cons y ys)
  then obtain acc' where a: "combine_step D tol y acc = Inr acc'" "foldE (combine_step D tol) ys acc' = Inr r" by (auto simp: bindE_Inr_iff)
  have "joined D n (xs @ [y]) acc'" by (rule combine_next [OF assms(1)]) (use Cons.prems a in auto)
  then show ?case using Cons.IH [of "xs @ [y]" acc'] Cons.prems a by simp
qed simp

text \<open>C33: The combination of trajectories that are not empty begins as the first, lasts as long as all of them, and plays every one
  in its turn: where piece \<open>k\<close> is at \<open>s\<close> of its path at its time \<open>\<tau>\<close>, the result is at the same place of the same path.\<close>

theorem combined_plays_in_turn:
  assumes "join_laws D" "dk_empty D (dk_default D)" "xs \<noteq> []" "\<forall>x \<in> set xs. piece_ok D n x"
    "CombineSequentialSystemTimedTrajectories D xs tol = Inr (P, T)"
  shows "dk_start D T = dk_start D (snd (hd xs)) \<and> dk_end D T = dk_start D T + (\<Sum>x \<leftarrow> xs. dur D (snd x)) \<and>
    (\<forall>k < length xs. \<forall>\<tau> s. dk_start D (snd (xs ! k)) \<le> \<tau> \<and> \<tau> < dk_end D (snd (xs ! k)) \<and> dk_value D (snd (xs ! k)) \<tau> = [s]
        \<and> dk_start D (fst (xs ! k)) \<le> s \<and> s < dk_end D (fst (xs ! k)) \<longrightarrow>
      dk_value D P (hd (dk_value D T (dk_start D T + (\<Sum>x \<leftarrow> take k xs. dur D (snd x)) + (\<tau> - dk_start D (snd (xs ! k))))))
        = dk_value D (fst (xs ! k)) s)"
proof -
  obtain x ys where xs: "xs = x # ys" using assms(3) by (cases xs) auto
  have "piece_ok D n x" using assms(4) xs by simp
  note f = combine_first [OF assms(2) this]
  have "foldE (combine_step D tol) ys x = Inr (P, T)"
    using assms(5) f(1) by (simp add: CombineSequentialSystemTimedTrajectories_def xs)
  then have j: "joined D n xs (P, T)" using combine_joined [OF assms(1) f(2), of ys tol] assms(4) by (simp add: xs)
  then have d: "dk_start D T = dk_start D (snd (hd xs))" "dk_end D T = piece_start D snd xs (length xs)" "plays D xs (P, T)"
    by (simp_all add: joined_def)
  have "dk_value D P (hd (dk_value D T (piece_start D snd xs k + (\<tau> - dk_start D (snd (xs ! k)))))) = dk_value D (fst (xs ! k)) s"
    if "k < length xs" "dk_start D (snd (xs ! k)) \<le> \<tau>" "\<tau> < dk_end D (snd (xs ! k))" "dk_value D (snd (xs ! k)) \<tau> = [s]"
      "dk_start D (fst (xs ! k)) \<le> s" "s < dk_end D (fst (xs ! k))" for k \<tau> s
    using d(3) that unfolding plays_def by simp
  then show ?thesis using d(1,2) by (simp add: piece_start_def)
qed

text \<open>An empty path in the middle discards everything before it.\<close>

theorem empty_path_discards:
  assumes "dk_empty D e" "dk_empty D (dk_default D)" "dk_rows D t = 1" "dk_cols D t = 1"
    "CombineSequentialSystemTimedTrajectories D xs tol = Inr r"
  shows "CombineSequentialSystemTimedTrajectories D (xs @ (e, t) # ys) tol =
    (if ys = [] then Inr (e, t) else CombineSequentialSystemTimedTrajectories D ys tol)"
proof -
  have "foldE (combine_step D tol) (xs @ (e, t) # ys) (dk_default D, dk_default D) = foldE (combine_step D tol) ys (e, t)"
    using assms by (cases r) (simp add: CombineSequentialSystemTimedTrajectories_def foldE_append combine_step_def)
  moreover have "combine_step D tol y (e, t) = combine_step D tol y (dk_default D, dk_default D)" for y
    using assms(1,2) by (cases y) (simp add: combine_step_def)
  ultimately show ?thesis by (cases ys) (simp_all add: CombineSequentialSystemTimedTrajectories_def)
qed

section \<open>Merged and shortened trajectories\<close>

definition slice_law :: "('p, 'z) drake_scheme \<Rightarrow> bool" where
  "slice_law D \<longleftrightarrow> (\<forall>p a b r. dk_slice D p a b = Inr r \<longrightarrow> \<not> dk_empty D p \<longrightarrow> \<not> dk_empty D r \<and> dk_rows D r = dk_rows D p \<and> dk_start D r = a \<and> dk_end D r = b
     \<and> (\<forall>t. a \<le> t \<and> t \<le> b \<longrightarrow> dk_value D r t = dk_value D p t))"

lemma slice_lawD:
  assumes "slice_law D" "dk_slice D p a b = Inr r" "\<not> dk_empty D p"
  shows "\<not> dk_empty D r" "dk_rows D r = dk_rows D p" "dk_start D r = a" "dk_end D r = b" "a \<le> t \<Longrightarrow> t \<le> b \<Longrightarrow> dk_value D r t = dk_value D p t"
  using assms unfolding slice_law_def by blast+

lemma MergePath_ok:
  assumes "join_laws D" "slice_law D" "\<not> dk_empty D p" "\<not> dk_empty D q" "dk_rows D p = dk_rows D q" "MergePath D p now q = Inr r"
  shows "now \<le> dk_start D q" "dk_start D r = now" "dk_end D r = dk_end D q"
    "now \<le> t \<Longrightarrow> dk_value D r t = (if t < dk_start D q then dk_value D p t else dk_value D q t)"
proof -
  obtain c where c: "dk_slice D p now (dk_start D q) = Inr c" "dk_concat D c q = Inr r" "now \<le> dk_start D q"
    using assms(6) by (auto simp: MergePath_def Let_def bindE_Inr_iff split: if_splits)
  note sl = slice_lawD [OF assms(2) c(1) assms(3)]
  obtain r' where "dk_concat D c q = Inr r'" "dk_start D r' = dk_start D c" "dk_end D r' = dk_end D q"
      "\<And>t. dk_value D r' t = (if t < dk_end D c then dk_value D c t else dk_value D q t)"
    using join_concat [OF assms(1) sl(1) assms(4)] sl assms(5) by metis
  then show "now \<le> dk_start D q" "dk_start D r = now" "dk_end D r = dk_end D q"
    "now \<le> t \<Longrightarrow> dk_value D r t = (if t < dk_start D q then dk_value D p t else dk_value D q t)"
    using c sl by auto
qed

text \<open>A merged trajectory follows the original, from the time of the merge up to the switch, and the other one from there.\<close>

theorem merged_switches:
  assumes "join_laws D" "slice_law D" "\<forall>p \<in> {fst A, snd A, fst B, snd B}. \<not> dk_empty D p" "dk_rows D (fst A) = dk_rows D (fst B)"
    "dk_rows D (snd A) = dk_rows D (snd B)" "MergeTrajectory D A now B = Inr (P, T)" "now < dk_start D (snd B)" "dk_value D (snd A) now = [s_now]"
  shows "dk_start D T = now" "dk_end D T = dk_end D (snd B)"
    "now \<le> t \<Longrightarrow> t < dk_start D (snd B) \<Longrightarrow> dk_value D T t = dk_value D (snd A) t"
    "dk_start D (snd B) \<le> t \<Longrightarrow> dk_value D T t = dk_value D (snd B) t"
    "s_now \<le> s \<Longrightarrow> s < dk_start D (fst B) \<Longrightarrow> dk_value D P s = dk_value D (fst A) s"
    "dk_start D (fst B) \<le> s \<Longrightarrow> dk_value D P s = dk_value D (fst B) s"
proof -
  obtain s0 where m: "MergePath D (snd A) now (snd B) = Inr T" "front (dk_value D T now) = Inr s0" "MergePath D (fst A) s0 (fst B) = Inr P"
    using assms(6) by (auto simp: MergeTrajectory_def bindE_Inr_iff)
  have ne: "\<not> dk_empty D (fst A)" "\<not> dk_empty D (snd A)" "\<not> dk_empty D (fst B)" "\<not> dk_empty D (snd B)" using assms(3) by auto
  note T = MergePath_ok [OF assms(1,2) ne(2,4) assms(5) m(1)]
  note P = MergePath_ok [OF assms(1,2) ne(1,3) assms(4) m(3)]
  have "s0 = s_now" using m(2) T(4) [of now] assms(7,8) by (simp add: front_def)
  then show "dk_start D T = now" "dk_end D T = dk_end D (snd B)"
    "now \<le> t \<Longrightarrow> t < dk_start D (snd B) \<Longrightarrow> dk_value D T t = dk_value D (snd A) t"
    "dk_start D (snd B) \<le> t \<Longrightarrow> dk_value D T t = dk_value D (snd B) t"
    "s_now \<le> s \<Longrightarrow> s < dk_start D (fst B) \<Longrightarrow> dk_value D P s = dk_value D (fst A) s"
    "dk_start D (fst B) \<le> s \<Longrightarrow> dk_value D P s = dk_value D (fst B) s"
    using T P by auto
qed

lemma remove_constant_prepend_ok:
  assumes "slice_law D" "\<not> dk_empty D p" "RemoveConstantPrepend D p = Inr r"
  shows "(r = p \<and> list_all constant_segment (dk_coefficients D p)) \<or>
    (\<exists>i < length (dk_coefficients D p). list_all constant_segment (take i (dk_coefficients D p)) \<and> \<not> constant_segment (dk_coefficients D p ! i)
       \<and> dk_start D r = dk_times D p ! i \<and> dk_end D r = dk_end D p
       \<and> (\<forall>t. dk_times D p ! i \<le> t \<and> t \<le> dk_end D p \<longrightarrow> dk_value D r t = dk_value D p t))"
proof (cases "find (\<lambda>i. \<not> constant_segment (dk_coefficients D p ! i)) [0..<length (dk_coefficients D p)]")
  case None
  then have "\<forall>i < length (dk_coefficients D p). constant_segment (dk_coefficients D p ! i)" by (simp add: find_None_iff)
  then show ?thesis using assms(3) None by (simp add: RemoveConstantPrepend_def list_all_length)
next
  case (Some i)
  then have i: "i < length (dk_coefficients D p)" "\<not> constant_segment (dk_coefficients D p ! i)" "\<forall>j < i. constant_segment (dk_coefficients D p ! j)"
    by (auto simp: find_Some_iff)
  have "dk_slice D p (dk_times D p ! i) (dk_end D p) = Inr r" using assms(3) Some by (simp add: RemoveConstantPrepend_def)
  from slice_lawD [OF assms(1) this assms(2)] show ?thesis using i by (intro disjI2 exI [of _ i]) (simp add: list_all_length)
qed

section \<open>Examples\<close>

text \<open>A trajectory as an interval, the number of its rows and a function.\<close>

type_synonym curve = "real \<times> real \<times> nat \<times> (real \<Rightarrow> vec)"

definition curve_value :: "curve \<Rightarrow> real \<Rightarrow> vec" where "curve_value p = snd (snd (snd p))"
definition curve_rows :: "curve \<Rightarrow> nat" where "curve_rows p = fst (snd (snd p))"

definition sample_drake :: "curve drake" where
  "sample_drake = \<lparr> dk_rows = curve_rows, dk_cols = \<lambda>_. 1, dk_empty = \<lambda>p. fst (snd p) < fst p, dk_start = fst, dk_end = fst \<circ> snd,
     dk_value = curve_value, dk_derivative = \<lambda>_ _. [1], dk_slice = \<lambda>p a b. if a \<le> b then Inr (a, b, curve_rows p, curve_value p) else Inl unless_throw,
     dk_concat = \<lambda>p q. Inr (fst p, fst (snd q), curve_rows p, \<lambda>t. if t < fst (snd p) then curve_value p t else curve_value q t),
     dk_shift = \<lambda>d p. (fst p + d, fst (snd p) + d, curve_rows p, \<lambda>t. curve_value p (t - d)),
     dk_add = \<lambda>c p. (fst p, fst (snd p), curve_rows p, \<lambda>t. map ((+) c) (curve_value p t)),
     dk_default = (1, 0, 1, \<lambda>_. []), dk_cubic = \<lambda>_ _ _ _. Inl unless_throw, dk_hold = \<lambda>_ _. (1, 0, 1, \<lambda>_. []),
     dk_times = \<lambda>_. [], dk_coefficients = \<lambda>_. [], dk_qp = \<lambda>_ _. None \<rparr>"

lemma sample_drake_laws: "join_laws sample_drake"
  by (auto simp: join_laws_def sample_drake_def curve_value_def curve_rows_def)

definition first_piece :: "curve \<times> curve" where "first_piece = ((0, 1, 1, \<lambda>s. [s]), (0, 1, 1, \<lambda>t. [t]))"
definition second_piece :: "curve \<times> curve" where "second_piece = ((5, 6, 1, \<lambda>s. [s - 4]), (2, 4, 1, \<lambda>t. [5 + (t - 2) / 2]))"

lemma sample_combined: "\<exists>P T. CombineSequentialSystemTimedTrajectories sample_drake [first_piece, second_piece] 0 = Inr (P, T)"
  by (simp add: CombineSequentialSystemTimedTrajectories_def combine_step_def first_piece_def second_piece_def sample_drake_def
      curve_rows_def curve_value_def vnorm_def vminus_def Let_def)

theorem combined_plays_in_turn_witness:
  "\<exists>P T. CombineSequentialSystemTimedTrajectories sample_drake [first_piece, second_piece] 0 = Inr (P, T)
    \<and> dk_end sample_drake T = 3 \<and> dk_value sample_drake P (hd (dk_value sample_drake T 2)) = [3 / 2]"
proof -
  let ?xs = "[first_piece, second_piece]"
  have pre: "dk_empty sample_drake (dk_default sample_drake)" "?xs \<noteq> []" "\<forall>x \<in> set ?xs. piece_ok sample_drake 1 x"
    by (simp_all add: sample_drake_def piece_ok_def first_piece_def second_piece_def curve_rows_def)
  obtain P T where c: "CombineSequentialSystemTimedTrajectories sample_drake ?xs 0 = Inr (P, T)" using sample_combined by blast
  have v: "dk_start sample_drake (snd first_piece) = 0" "dur sample_drake (snd first_piece) = 1" "dur sample_drake (snd second_piece) = 2"
    "dk_start sample_drake (snd second_piece) = 2" "dk_end sample_drake (snd second_piece) = 4"
    "dk_value sample_drake (snd second_piece) 3 = [11 / 2]" "dk_start sample_drake (fst second_piece) = 5" "dk_end sample_drake (fst second_piece) = 6"
    "dk_value sample_drake (fst second_piece) (11 / 2) = [3 / 2]"
    by (simp_all add: sample_drake_def first_piece_def second_piece_def dur_def curve_value_def)
  note r = combined_plays_in_turn [OF sample_drake_laws pre c]
  have T0: "dk_start sample_drake T = 0" using r v by simp
  have "dk_end sample_drake T = 3" using r v by simp
  moreover have "dk_value sample_drake P (hd (dk_value sample_drake T 2)) = [3 / 2]"
    using r [THEN conjunct2, THEN conjunct2, rule_format, of 1 3 "11 / 2"] v T0 by simp
  ultimately show ?thesis using c by blast
qed

theorem trailing_samples_witness:
  "\<exists>ts vs. CalcSamplesAndTangentFromNewWaypts sample_drake [[3], [5]] (0, 10, 1, \<lambda>s. [s]) 0 1 1 (1 / 2) False [] = Inr (1 # ts, [1] # vs, [1])
    \<and> subseq vs [[3], [5]]"
proof -
  have "\<exists>ts vs. CalcSamplesAndTangentFromNewWaypts sample_drake [[3], [5]] (0, 10, 1, \<lambda>s. [s]) 0 1 1 (1 / 2) False []
      = Inr ((0 + 1) # ts, dk_value sample_drake (0, 10, 1, \<lambda>s. [s]) (0 + 1) # vs, dk_derivative sample_drake (0, 10, 1, \<lambda>s. [s]) (0 + 1))
    \<and> length vs = length ts \<and> subseq vs [[3], [5]] \<and> (\<forall>t \<in> set ts. t \<le> dk_end sample_drake (0, 10, 1, \<lambda>s. [s]))
    \<and> sorted_wrt (\<lambda>a b. a + 1 / 2 < b) ((0 + 1) # ts)"
    by (rule trailing_samples) (simp_all add: sample_drake_def curve_rows_def)
  then show ?thesis by (auto simp: sample_drake_def curve_value_def)
qed

theorem bezier_to_power_form_witness:
  "\<exists>ms ts. CompositeBezierCurveToPiecewisePolynomial 1 0 [(2, Some \<lparr> bz_order = 2, bz_points = [[0], [1], [4]] \<rparr>)] = Inr (ms, ts)
    \<and> poly_value (ms ! 0) 1 ! 0 = 3 / 2"
proof -
  let ?b = "\<lparr> bz_order = 2, bz_points = [[0], [1], [4]] \<rparr>"
  have "\<forall>(d, b) \<in> set [(2 :: real, Some ?b)]. d \<noteq> 0 \<and> (\<exists>c. b = Some c \<and> bezier_ok 1 c \<and> bz_order c \<le> 12)" by (simp add: bezier_ok_def)
  from bezier_to_power_form [OF this, of 0] obtain ms ts where r: "CompositeBezierCurveToPiecewisePolynomial 1 0 [(2, Some ?b)] = Inr (ms, ts)"
      "ts ! 0 = 0" "poly_value (ms ! 0) (1 - ts ! 0) ! 0 = bernstein_value 2 [[0], [1], [4]] ((1 - ts ! 0) / 2) 0"
    by auto
  have "bernstein_value 2 [[0], [1], [4]] (1 / 2) 0 = 3 / 2" by (simp add: bernstein_value_def numeral_2_eq_2 power2_eq_square)
  then show ?thesis using r by auto
qed

end
