(* ===== verification/Arm_Collisions.thy ===== *)
theory Arm_Collisions
  imports Anchor_Sequences Path_Math
begin

text \<open>
  Collisions between the arms along a trajectory of the whole system, and the best approach before one, in
  \<open>draco/planner/solve_generalized_multimodal.cc\<close>, with the conversions of trajectories in \<open>draco/client_conversions.cc\<close>.
  The collision check of the arms, Drake's slices of polynomials, the splining of an arm and TOPP-RA are members of
  \<open>plan_env\<close>; a spliner is that of the whole robot, \<open>None\<close>, or that of an arm.  A trajectory of the system is the list of its
  entries, whose order only matters for which of two errors is met first.
\<close>

type_synonym sys_traj = "(string \<times> timed) list"

record ('x, 'p) plan_env =
  pe_planner :: "('x, 'p \<times> 'p) multimodal_planner"
  pe_drake :: "'p drake"
  pe_arms :: "arm list"
  pe_arms_collide :: "conf \<Rightarrow> bool"
  pe_slice :: "piecewise \<Rightarrow> real \<Rightarrow> real \<Rightarrow> piecewise throws"
  pe_spliner_models :: "nat option \<Rightarrow> string list"
  pe_convert :: "nat option \<Rightarrow> (string \<times> piecewise \<times> piecewise) list \<Rightarrow> ('p \<times> 'p) throws"
  pe_entities :: "nat option \<Rightarrow> 'p \<times> 'p \<Rightarrow> (string \<times> piecewise \<times> piecewise) list"
  pe_toppra :: "nat option \<Rightarrow> 'p \<Rightarrow> 'p option"

abbreviation pe_robot :: "('x, 'p, 'z) plan_env_scheme \<Rightarrow> robot" where "pe_robot E \<equiv> dr_robot (pe_planner E)"

section \<open>Conversions\<close>

definition sys_at :: "sys_traj \<Rightarrow> string \<Rightarrow> timed throws" where
  "sys_at T k = (case map_of T k of None \<Rightarrow> Inl out_of_range | Some tr \<Rightarrow> Inr tr)"

definition sys_put :: "sys_traj \<Rightarrow> sys_traj \<Rightarrow> sys_traj" where "sys_put new T = fold (\<lambda>(k, tr). AList.update k tr) new T"

definition ToPathParameterizedTrajectory :: "('x, 'p, 'z) plan_env_scheme \<Rightarrow> nat option \<Rightarrow> sys_traj \<Rightarrow> ('p \<times> 'p) throws" where
  "ToPathParameterizedTrajectory E sp T = bindE (mapE (\<lambda>k. case map_of T k of
       None \<Rightarrow> Inl ''ToPathParameterizedTrajectory: Missing trajectory for robot instance''
     | Some tr \<Rightarrow> Inr (k, tt_path tr, tt_scaling tr)) (pe_spliner_models E sp)) (pe_convert E sp)"

definition ToSystemTimedTrajectory :: "('x, 'p, 'z) plan_env_scheme \<Rightarrow> nat option \<Rightarrow> 'p \<times> 'p \<Rightarrow> sys_traj throws" where
  "ToSystemTimedTrajectory E sp ppt = mapE (\<lambda>(k, path, sc). bindE (TimedTrajectory path sc 0) (\<lambda>tr. Inr (k, tr))) (pe_entities E sp ppt)"

section \<open>The time of a collision\<close>

text \<open>The configurations at local time \<open>t\<close> of every trajectory.\<close>

definition sysconf_at :: "sys_traj \<Rightarrow> real \<Rightarrow> system_conf throws" where
  "sysconf_at T t = mapE (\<lambda>(k, tr). bindE (GlobalValue tr (t + tt_offset tr)) (\<lambda>v. Inr (k, v))) T"

definition final_time :: "sys_traj \<Rightarrow> real" where "final_time T = fold (\<lambda>(k, tr) m. max m (end_time tr)) T 0"

definition arms_collide_in :: "('x, 'p, 'z) plan_env_scheme \<Rightarrow> system_conf \<Rightarrow> system_conf \<Rightarrow> bool throws" where
  "arms_collide_in E now c = bindE (client_ToGeneralizedPosition (pe_robot E) c kCompleteFromReferenceOnMissing (Some now))
     (\<lambda>q. Inr (pe_arms_collide E q))"

text \<open>The loop over the samples, until one is in collision.\<close>

function collision_scan :: "(real \<Rightarrow> bool throws) \<Rightarrow> real \<Rightarrow> real \<Rightarrow> real \<Rightarrow> real option throws" where
  "collision_scan f final h t = (if 0 < h \<and> t \<le> final
     then bindE (f t) (\<lambda>b. if b then Inr (Some t) else collision_scan f final h (t + h)) else Inr None)"
  by pat_completeness auto

termination collision_scan
proof (relation "measure (\<lambda>(f, final, h, t). nat (\<lfloor>(final - t) / h\<rfloor> + 1))", goal_cases)
  case (2 f final h t b)
  have "0 \<le> \<lfloor>(final - t) / h\<rfloor>" using 2 by simp
  moreover have "(final - (t + h)) / h = (final - t) / h - 1" using 2 by (simp add: field_simps)
  ultimately show ?case by simp
qed simp

declare collision_scan.simps [simp del]

definition TimeOfArmsCollision :: "('x, 'p, 'z) plan_env_scheme \<Rightarrow> sys_traj \<Rightarrow> real \<Rightarrow> real option throws" where
  "TimeOfArmsCollision E T h = (if \<not> h > 0 then Inl ''DRAKE_DEMAND(step > 0)''
     else bindE (sysconf_at T 0) (\<lambda>now. collision_scan (\<lambda>t. bindE (sysconf_at T t) (arms_collide_in E now)) (final_time T) h 0))"

section \<open>The best approach\<close>

text \<open>The same with a check that every trajectory has begun.\<close>

definition started_sysconf_at :: "sys_traj \<Rightarrow> real \<Rightarrow> system_conf throws" where
  "started_sysconf_at T t = mapE (\<lambda>(k, tr). if \<not> global_start_time tr \<le> t + tt_offset tr + 1 / 10 ^ 6 then Inl unless_throw
     else bindE (GlobalValue tr (t + tt_offset tr)) (\<lambda>v. Inr (k, v))) T"

definition stop_model :: "('x, 'p, 'z) plan_env_scheme \<Rightarrow> real \<Rightarrow> nat \<Rightarrow> sys_traj \<times> sys_traj \<Rightarrow> (sys_traj \<times> sys_traj) throws" where
  "stop_model E t_constant i = (\<lambda>(T, arm_T). if instance_dim (rb_plant (pe_robot E)) i = 0 then Inr (T, arm_T)
     else let k = rb_names (pe_robot E) ! i in
       bindE (sys_at T k) (\<lambda>tr. let t_max = min t_constant (end_time tr) in
         bindE (pe_slice E (tt_scaling tr) (pp_start (tt_scaling tr)) t_max) (\<lambda>sc. bindE (s_of (tt_scaling tr) t_max) (\<lambda>s.
           bindE (pe_slice E (tt_path tr) (pp_start (tt_path tr)) s) (\<lambda>path. bindE (TimedTrajectory path sc (tt_offset tr)) (\<lambda>tr.
             Inr (sys_put [(k, tr)] T, sys_put [(k, tr)] arm_T)))))))"

text \<open>One arm: its trajectories are cut, and retimed if TOPP-RA succeeds.\<close>

definition stop_arm :: "('x, 'p, 'z) plan_env_scheme \<Rightarrow> real \<Rightarrow> nat \<Rightarrow> sys_traj \<Rightarrow> sys_traj throws" where
  "stop_arm E t_constant a T = (if \<not> a < length (pe_arms E) then Inl out_of_range
     else bindE (foldE (stop_model E t_constant) (arm_instances (pe_arms E ! a)) (T, [])) (\<lambda>(T, arm_T).
       bindE (ToPathParameterizedTrajectory E (Some a) arm_T) (\<lambda>(path, _).
         bindE (RemoveConstantPrepend (pe_drake E) path) (\<lambda>path. case pe_toppra E (Some a) path of
             None \<Rightarrow> Inr T
           | Some timing \<Rightarrow> bindE (ToSystemTimedTrajectory E (Some a) (path, timing)) (\<lambda>new. Inr (sys_put new T))))))"

fun try_candidates :: "('x, 'p, 'z) plan_env_scheme \<Rightarrow> sys_traj \<Rightarrow> nat list \<Rightarrow> real \<Rightarrow> real list \<Rightarrow> sys_traj option throws" where
  "try_candidates E T movable h [] = Inr None"
| "try_candidates E T movable h (t_constant # ts) = bindE (foldE (stop_arm E t_constant) movable T) (\<lambda>sliced.
     bindE (TimeOfArmsCollision E sliced h) (\<lambda>c. case c of None \<Rightarrow> Inr (Some sliced) | Some _ \<Rightarrow> try_candidates E T movable h ts))"

definition approach_times :: "int \<Rightarrow> real \<Rightarrow> real \<Rightarrow> real list" where
  "approach_times num_slices t_min best = (if num_slices \<le> 1 then [best]
     else map (\<lambda>i. let alpha = real i / (real_of_int num_slices - 1) in t_min * alpha + best * (1 - alpha)) [0..<nat num_slices])"

definition BestApproachTrajectory :: "('x, 'p, 'z) plan_env_scheme \<Rightarrow> sys_traj \<Rightarrow> nat list \<Rightarrow> int \<Rightarrow> real \<Rightarrow> real option \<Rightarrow> real option \<Rightarrow> real
    \<Rightarrow> sys_traj option throws" where
  "BestApproachTrajectory E T movable num_slices h min_time max_time buffer = (if \<not> h > 0 then Inl ''DRAKE_DEMAND(step > 0)''
     else bindE (sysconf_at T 0) (\<lambda>now. bindE (client_ToGeneralizedPosition (pe_robot E) now kThrowOnMissing None) (\<lambda>_.
       bindE (collision_scan (\<lambda>t. bindE (started_sysconf_at T t) (arms_collide_in E now)) (final_time T) h 0) (\<lambda>c. case c of
           None \<Rightarrow> Inr (Some T)
         | Some t \<Rightarrow> (let best = t - buffer in
             if (case min_time of None \<Rightarrow> False | Some m \<Rightarrow> best < m) then Inr None
             else let best = (case max_time of None \<Rightarrow> best | Some m \<Rightarrow> if best > m then m else best) in
               try_candidates E T movable h (approach_times num_slices (case min_time of None \<Rightarrow> 0 | Some m \<Rightarrow> m) best))))))"

section \<open>Samples free of collision\<close>

lemma collision_scan_None:
  assumes "0 < h" "collision_scan f final h t = Inr None" "t + real k * h \<le> final"
  shows "f (t + real k * h) = Inr False"
  using assms
proof (induction f final h t arbitrary: k rule: collision_scan.induct)
  case (1 f final h t)
  have "0 \<le> real k * h" using 1(2) by simp
  then have t: "t \<le> final" using 1(4) by linarith
  then have f: "f t = Inr False" "collision_scan f final h (t + h) = Inr None"
    using 1(2,3) by (auto simp: collision_scan.simps [of f final h t] bindE_Inr_iff split: if_splits)
  show ?case
  proof (cases k)
    case 0
    then show ?thesis using f(1) by simp
  next
    case (Suc n)
    then have eq: "t + real k * h = t + h + real n * h" by (simp add: algebra_simps)
    show ?thesis using 1(1) [of False n] t 1(2,4) f(2) unfolding eq by simp
  qed
qed

lemma collision_scan_Some:
  assumes "0 < h" "collision_scan f final h t = Inr (Some u)"
  shows "\<exists>k. u = t + real k * h \<and> u \<le> final \<and> f u = Inr True \<and> (\<forall>j < k. f (t + real j * h) = Inr False)"
  using assms
proof (induction f final h t rule: collision_scan.induct)
  case (1 f final h t)
  have t: "t \<le> final" using 1(2,3) by (auto simp: collision_scan.simps [of f final h t] split: if_splits)
  obtain b where b: "f t = Inr b" using 1(2,3) t by (auto simp: collision_scan.simps [of f final h t] bindE_Inr_iff)
  show ?case
  proof (cases b)
    case True
    then have "u = t" using 1(2,3) t b by (simp add: collision_scan.simps [of f final h t])
    then show ?thesis using b True t by (intro exI [of _ 0]) simp
  next
    case False
    then have "collision_scan f final h (t + h) = Inr (Some u)" using 1(2,3) t b by (simp add: collision_scan.simps [of f final h t])
    then obtain k where k: "u = t + h + real k * h" "u \<le> final" "f u = Inr True" "\<forall>j < k. f (t + h + real j * h) = Inr False"
      using 1(1) [of False] t 1(2) False by auto
    have "f (t + real j * h) = Inr False" if "j < Suc k" for j
    proof (cases j)
      case 0
      then show ?thesis using b False by simp
    next
      case (Suc i)
      then have eq: "t + real j * h = t + h + real i * h" by (simp add: algebra_simps)
      show ?thesis using k(4) Suc that unfolding eq by simp
    qed
    then show ?thesis using k by (intro exI [of _ "Suc k"]) (simp add: algebra_simps)
  qed
qed

text \<open>No collision between arms at any sample, with what is missing taken from the configurations at the start.\<close>

definition samples_free :: "('x, 'p, 'z) plan_env_scheme \<Rightarrow> sys_traj \<Rightarrow> real \<Rightarrow> bool" where
  "samples_free E T h \<longleftrightarrow> (\<exists>now. sysconf_at T 0 = Inr now \<and> (\<forall>k. real k * h \<le> final_time T \<longrightarrow>
     (\<exists>c q. sysconf_at T (real k * h) = Inr c
       \<and> client_ToGeneralizedPosition (pe_robot E) c kCompleteFromReferenceOnMissing (Some now) = Inr q \<and> \<not> pe_arms_collide E q)))"

lemma arms_collide_in_False:
  "bindE m (arms_collide_in E now) = Inr b \<longleftrightarrow>
    (\<exists>c q. m = Inr c \<and> client_ToGeneralizedPosition (pe_robot E) c kCompleteFromReferenceOnMissing (Some now) = Inr q \<and> pe_arms_collide E q = b)"
  by (auto simp: arms_collide_in_def bindE_Inr_iff)

lemma no_collision_free: "TimeOfArmsCollision E T h = Inr None \<Longrightarrow> samples_free E T h"
proof -
  assume a: "TimeOfArmsCollision E T h = Inr None"
  then obtain now where n: "0 < h" "sysconf_at T 0 = Inr now"
      "collision_scan (\<lambda>t. bindE (sysconf_at T t) (arms_collide_in E now)) (final_time T) h 0 = Inr None"
    by (auto simp: TimeOfArmsCollision_def bindE_Inr_iff split: if_splits)
  show ?thesis unfolding samples_free_def
    using n(2) collision_scan_None [OF n(1,3)] by (intro exI [of _ now]) (simp add: arms_collide_in_False)
qed

lemma started_value: "started_sysconf_at T t = Inr c \<Longrightarrow> sysconf_at T t = Inr c"
  unfolding started_sysconf_at_def sysconf_at_def mapE_Inr_iff
  by (erule list_all2_mono) (auto split: if_splits)

text \<open>The time returned is that of the first sample at which arms collide; nothing returned means that no sample does.\<close>

theorem first_arm_collision:
  assumes "TimeOfArmsCollision E T h = Inr r"
  shows "case r of
      None \<Rightarrow> samples_free E T h
    | Some u \<Rightarrow> (\<exists>now k c q. sysconf_at T 0 = Inr now \<and> u = real k * h \<and> u \<le> final_time T \<and> sysconf_at T u = Inr c
        \<and> client_ToGeneralizedPosition (pe_robot E) c kCompleteFromReferenceOnMissing (Some now) = Inr q \<and> pe_arms_collide E q
        \<and> (\<forall>j < k. bindE (sysconf_at T (real j * h)) (arms_collide_in E now) = Inr False))"
proof (cases r)
  case None
  then show ?thesis using no_collision_free assms by simp
next
  case (Some u)
  then obtain now where n: "0 < h" "sysconf_at T 0 = Inr now"
      "collision_scan (\<lambda>t. bindE (sysconf_at T t) (arms_collide_in E now)) (final_time T) h 0 = Inr (Some u)"
    using assms by (auto simp: TimeOfArmsCollision_def bindE_Inr_iff split: if_splits)
  obtain k where k: "u = 0 + real k * h" "u \<le> final_time T" "bindE (sysconf_at T u) (arms_collide_in E now) = Inr True"
      "\<forall>j < k. bindE (sysconf_at T (0 + real j * h)) (arms_collide_in E now) = Inr False"
    using collision_scan_Some [OF n(1,3)] by blast
  then show ?thesis using Some n(2) by (simp add: arms_collide_in_False) blast
qed

section \<open>What the best approach keeps\<close>

lemma map_of_sys_put: "map_of (sys_put new T) = map_of T ++ map_of (rev new)"
proof (induction new arbitrary: T)
  case (Cons x new)
  have "map_of (sys_put (x # new) T) = map_of (sys_put new (AList.update (fst x) (snd x) T))" by (simp add: sys_put_def case_prod_beta)
  then show ?case unfolding Cons.IH by (cases x) (simp add: update_conv' map_of_append)
qed (simp add: sys_put_def)

lemma sys_put_other: "k \<notin> fst ` set new \<Longrightarrow> map_of (sys_put new T) k = map_of T k"
proof -
  assume "k \<notin> fst ` set new"
  then have "map_of (rev new) k = None" by (simp add: map_of_eq_None_iff)
  then show ?thesis by (simp add: map_of_sys_put map_add_def)
qed

definition arm_names :: "('x, 'p, 'z) plan_env_scheme \<Rightarrow> nat \<Rightarrow> string set" where
  "arm_names E a = (\<lambda>i. rb_names (pe_robot E) ! i) ` set (arm_instances (pe_arms E ! a))"

text \<open>The spliner of an arm only knows the instances of the arm.\<close>

definition entities_of_arm :: "('x, 'p, 'z) plan_env_scheme \<Rightarrow> bool" where
  "entities_of_arm E \<longleftrightarrow> (\<forall>a ppt. fst ` set (pe_entities E (Some a) ppt) \<subseteq> arm_names E a)"

lemma stop_models_others:
  assumes "foldE (stop_model E t) is (T, A) = Inr (T', A')" "\<forall>i \<in> set is. rb_names (pe_robot E) ! i \<noteq> k"
  shows "map_of T' k = map_of T k"
proof -
  have "map_of (fst (T', A')) k = map_of T k"
  proof (rule foldE_invariant [OF assms(1), where P = "\<lambda>s. map_of (fst s) k = map_of T k"])
    fix i s s' assume i: "i \<in> set is" "map_of (fst s) k = map_of T k" "stop_model E t i s = Inr s'"
    have "rb_names (pe_robot E) ! i \<noteq> k" using assms(2) i(1) by blast
    then show "map_of (fst s') k = map_of T k"
      using i(2,3) by (cases s) (auto simp: stop_model_def bindE_Inr_iff Let_def sys_put_other split: if_splits)
  qed simp
  then show ?thesis by simp
qed

lemma stop_arm_others:
  assumes "entities_of_arm E" "stop_arm E t a T = Inr T'" "k \<notin> arm_names E a"
  shows "map_of T' k = map_of T k"
proof -
  obtain T1 A path sc path' where s: "foldE (stop_model E t) (arm_instances (pe_arms E ! a)) (T, []) = Inr (T1, A)"
      "(case pe_toppra E (Some a) path' of None \<Rightarrow> Inr T1
        | Some timing \<Rightarrow> bindE (ToSystemTimedTrajectory E (Some a) (path', timing)) (\<lambda>new. Inr (sys_put new T1))) = Inr T'"
    using assms(2) by (auto simp: stop_arm_def bindE_Inr_iff split: if_splits)
  have 1: "map_of T1 k = map_of T k" by (rule stop_models_others [OF s(1)]) (use assms(3) in \<open>auto simp: arm_names_def\<close>)
  show ?thesis
  proof (cases "pe_toppra E (Some a) path'")
    case None
    then show ?thesis using s(2) 1 by simp
  next
    case (Some timing)
    then obtain new where new: "ToSystemTimedTrajectory E (Some a) (path', timing) = Inr new" "T' = sys_put new T1"
      using s(2) by (auto simp: bindE_Inr_iff)
    have "map fst new = map fst (pe_entities E (Some a) (path', timing))"
      using new(1) unfolding ToSystemTimedTrajectory_def mapE_Inr_iff
      by (induction rule: list_all2_induct) (auto simp: bindE_Inr_iff)
    then have "fst ` set new \<subseteq> arm_names E a" using assms(1) unfolding entities_of_arm_def by (metis list.set_map)
    then show ?thesis using assms(3) new(2) 1 sys_put_other [of k new T1] by auto
  qed
qed

lemma try_candidates_ok:
  assumes "try_candidates E T movable h ts = Inr (Some T')"
  shows "samples_free E T' h \<and> (\<exists>t \<in> set ts. foldE (stop_arm E t) movable T = Inr T')"
  using assms
proof (induction ts)
  case (Cons t ts)
  obtain S c where s: "foldE (stop_arm E t) movable T = Inr S" "TimeOfArmsCollision E S h = Inr c"
      "(case c of None \<Rightarrow> Inr (Some S) | Some _ \<Rightarrow> try_candidates E T movable h ts) = Inr (Some T')"
    using Cons.prems by (auto simp: bindE_Inr_iff)
  then show ?case using Cons.IH no_collision_free by (cases c) auto
qed simp

lemma best_approach_cases:
  assumes "BestApproachTrajectory E T movable num_slices h min_time max_time buffer = Inr (Some T')"
  shows "T' = T \<and> samples_free E T h \<or>
    \<not> samples_free E T h \<and> samples_free E T' h \<and> (\<exists>t. foldE (stop_arm E t) movable T = Inr T')"
proof -
  obtain now c where s: "0 < h" "sysconf_at T 0 = Inr now"
      "collision_scan (\<lambda>t. bindE (started_sysconf_at T t) (arms_collide_in E now)) (final_time T) h 0 = Inr c"
    and rest: "c = None \<and> T' = T \<or> c \<noteq> None \<and> (\<exists>ts. try_candidates E T movable h ts = Inr (Some T'))"
    using assms by (fastforce simp: BestApproachTrajectory_def bindE_Inr_iff Let_def split: if_splits option.splits)
  show ?thesis
  proof (cases c)
    case None
    have "bindE (sysconf_at T (real k * h)) (arms_collide_in E now) = Inr False" if sample: "real k * h \<le> final_time T" for k
    proof -
      obtain v where "started_sysconf_at T (real k * h) = Inr v" "bindE (Inr v) (arms_collide_in E now) = Inr False"
        using collision_scan_None [OF s(1) s(3) [unfolded None], of k] sample by (auto simp: bindE_Inr_iff)
      then show ?thesis using started_value by fastforce
    qed
    then have "samples_free E T h" unfolding samples_free_def using s(2) by (intro exI [of _ now]) (simp add: arms_collide_in_False)
    then show ?thesis using rest None by simp
  next
    case (Some u)
    then obtain ts where ts: "try_candidates E T movable h ts = Inr (Some T')" using rest by auto
    then obtain t where t: "samples_free E T' h" "foldE (stop_arm E t) movable T = Inr T'" using try_candidates_ok by blast
    obtain k where k: "u = 0 + real k * h" "u \<le> final_time T" "bindE (started_sysconf_at T u) (arms_collide_in E now) = Inr True"
      using collision_scan_Some [OF s(1) s(3) [unfolded Some]] by blast
    then obtain v q where v: "started_sysconf_at T u = Inr v"
        "client_ToGeneralizedPosition (pe_robot E) v kCompleteFromReferenceOnMissing (Some now) = Inr q" "pe_arms_collide E q"
      by (auto simp: arms_collide_in_False)
    have "\<not> samples_free E T h" using s(2) k(1,2) v started_value [OF v(1)] by (auto simp: samples_free_def)
    then show ?thesis using t by blast
  qed
qed

lemma best_approach_free: "BestApproachTrajectory E T movable n h a b c = Inr (Some T') \<Longrightarrow> samples_free E T' h"
  using best_approach_cases by blast

text \<open>C35: A best approach is free of collisions between arms at every sample, and the trajectories of robots that belong to no
  movable arm are the ones that were given; with no collision to avoid it is the trajectory that was given.\<close>

theorem best_approach_safe:
  assumes "BestApproachTrajectory E T movable num_slices h min_time max_time buffer = Inr (Some T')" "entities_of_arm E"
  shows "samples_free E T' h \<and> (samples_free E T h \<longrightarrow> T' = T) \<and> (\<forall>k. k \<notin> (\<Union>a \<in> set movable. arm_names E a) \<longrightarrow> map_of T' k = map_of T k)"
proof -
  have "map_of T' k = map_of T k" if k: "k \<notin> (\<Union>a \<in> set movable. arm_names E a)" and t: "foldE (stop_arm E t) movable T = Inr T'" for k t
    by (rule foldE_invariant [OF t, where P = "\<lambda>S. map_of S k = map_of T k"])
      (use stop_arm_others [OF assms(2)] k in auto)
  then show ?thesis using best_approach_cases [OF assms(1)] by auto
qed

text \<open>When TOPP-RA fails for an arm, its trajectory that was cut without slowing down is used all the same.\<close>

lemma failed_retiming_ignored:
  assumes "a < length (pe_arms E)" "foldE (stop_model E t) (arm_instances (pe_arms E ! a)) (T, []) = Inr (T1, A)"
    "ToPathParameterizedTrajectory E (Some a) A = Inr (path, sc)" "RemoveConstantPrepend (pe_drake E) path = Inr path'"
    "pe_toppra E (Some a) path' = None"
  shows "stop_arm E t a T = Inr T1"
  using assms by (simp add: stop_arm_def)

section \<open>Example\<close>

text \<open>Two robots of one joint, whose trajectories go from 0 to \<open>b\<close> with the time; the first must not be beyond 3/2.\<close>

definition two_robots :: robot where
  "two_robots = \<lparr> rb_plant = \<lparr> num_positions = 2, couplers = [], instance_masks = [(2, [True, False]), (3, [False, True])] \<rparr>,
     rb_names = [''world'', ''default'', ''left'', ''right''] \<rparr>"

definition line :: "real \<Rightarrow> piecewise" where
  "line b = \<lparr> pp_coefficients = [\<lparr> mx_rows = 1, mx_cols = [[0], [1]] \<rparr>], pp_breaks = [0, b], pp_dim = 1, pp_degree = 1 \<rparr>"

definition timed_line :: "real \<Rightarrow> timed" where "timed_line b = \<lparr> tt_path = line b, tt_scaling = line b, tt_offset = 0 \<rparr>"

definition two_env :: "(real, curve) plan_env" where
  "two_env = \<lparr> pe_planner = \<lparr> dr_robot = two_robots, dr_frame_instance = (\<lambda>_. Inr 1), dr_valid = (\<lambda>_. True), dr_collisions = (\<lambda>_. kNone),
       dr_SolveIk = sample_ik, dr_SolveGlobalIk = sample_ik, dr_closest_seeds = (\<lambda>_ q. [q]), dr_nearest_valid = (\<lambda>qs _ _. Some (hd qs)),
       dr_relative = (\<lambda>_ _ _. Inr 0), dr_mul = (+), dr_inverse = uminus, dr_translation = abs, dr_rotation = (\<lambda>_. 0),
       dr_interpolate = (\<lambda>a b u. a + u * (b - a)),
       mg_spline = (\<lambda>_. Inl ''no path''), mg_transit = (\<lambda>_ _ _. Inl ''no path''), mg_end_time = (\<lambda>p. fst (snd (snd p))), mg_combine = (\<lambda>_. Inl ''no path'') \<rparr>,
     pe_drake = sample_drake, pe_arms = [\<lparr> arm_instances = [2], arm_name = ''left'', arm_mask = [True] \<rparr>, \<lparr> arm_instances = [3], arm_name = ''right'', arm_mask = [True] \<rparr>],
     pe_arms_collide = (\<lambda>q. q ! 0 > 3 / 2), pe_slice = (\<lambda>p a b. Inr (p\<lparr> pp_breaks := [a, b] \<rparr>)),
     pe_spliner_models = (\<lambda>a. if a = Some 0 then [''left''] else if a = Some 1 then [''right''] else [''left'', ''right'']),
     pe_convert = (\<lambda>_ _. Inr ((0, 1, 1, \<lambda>s. [s]), (0, 1, 1, \<lambda>s. [s]))), pe_entities = (\<lambda>_ _. []), pe_toppra = (\<lambda>_ _. None) \<rparr>"

lemma line_ok: "0 < b \<Longrightarrow> pp_ok (line b)" "pp_dim (line b) = 1" "pp_start (line b) = 0" "pp_end (line b) = b"
  by (simp_all add: pp_ok_def line_def mx_ok_def matrix_degree_def pp_start_def pp_end_def)

lemma line_value: "0 < b \<Longrightarrow> Value (line b) t = Inr [clamp t 0 b]"
proof -
  assume b: "0 < b"
  have "in_segment (line b) 0 t" by (simp add: in_segment_def line_def)
  then show ?thesis using Value_eq [OF line_ok(1) [OF b], of 0 t]
    by (simp add: line_ok) (simp add: line_def poly_value_def vadd_def vscale_def)
qed

lemma clamp_clamp: "0 < b \<Longrightarrow> clamp (clamp t 0 b) 0 b = clamp t 0 (b :: real)"
  by (simp add: clamp_def)

lemma timed_line_value: "0 < b \<Longrightarrow> GlobalValue (timed_line b) t = Inr [clamp t 0 b]"
  by (simp add: GlobalValue_def tt_Value_def timed_line_def s_of_def front_def line_value clamp_clamp)

lemma timed_line_fields: "tt_offset (timed_line b) = 0" "end_time (timed_line b) = b" "global_start_time (timed_line b) = 0"
  "tt_path (timed_line b) = line b" "tt_scaling (timed_line b) = line b"
  by (simp_all add: timed_line_def end_time_def global_start_time_def line_ok)

lemma two_dim: "instance_dim (rb_plant two_robots) i = (if i = 2 \<or> i = 3 then 1 else 0)"
  by (simp add: instance_dim_def instance_positions_def mask_of_def two_robots_def upt_rec)

lemma two_positions: "instance_positions (rb_plant two_robots) 2 = [0]" "instance_positions (rb_plant two_robots) 3 = [1]"
  "num_positions (rb_plant two_robots) = 2" "rb_names two_robots = [''world'', ''default'', ''left'', ''right'']"
  by (simp_all add: instance_positions_def mask_of_def two_robots_def upt_rec)

lemma two_set: "SetPositionsInArray (rb_plant two_robots) 2 [x] [p, q] = Inr [x, q]" "SetPositionsInArray (rb_plant two_robots) 3 [x] [p, q] = Inr [p, x]"
  by (simp_all add: SetPositionsInArray_def two_dim two_positions fill_free_def)

abbreviation both :: "real \<Rightarrow> sys_traj" where "both b \<equiv> [(''left'', timed_line b), (''right'', timed_line 2)]"

lemma two_conf: "client_ToGeneralizedPosition two_robots [(''left'', [x]), (''right'', [y])] behavior r = Inr [x, y]"
proof -
  have "[0..<length (rb_names two_robots)] = [0, 1, 2, 3]" "replicate (num_positions (rb_plant two_robots)) (0 :: real) = [0, 0]"
    "rb_names two_robots ! 2 = ''left''" "rb_names two_robots ! 3 = ''right''"
    by (simp_all add: two_positions upt_rec numeral_2_eq_2)
  then show ?thesis by (simp add: client_ToGeneralizedPosition_def two_dim two_set)
qed

lemma two_planner: "dr_robot (pe_planner two_env) = two_robots" by (simp add: two_env_def)

lemma two_collide: "0 < b \<Longrightarrow> bindE (sysconf_at (both b) t) (arms_collide_in two_env now) = Inr (clamp t 0 b > 3 / 2)"
  by (simp add: sysconf_at_def timed_line_value arms_collide_in_def timed_line_fields) (simp add: two_env_def two_conf)

lemma both_started: "0 < b \<Longrightarrow> 0 \<le> t \<Longrightarrow> started_sysconf_at (both b) t = sysconf_at (both b) t"
  by (simp add: started_sysconf_at_def sysconf_at_def timed_line_fields)

lemma both_now: "0 < b \<Longrightarrow> sysconf_at (both b) 0 = Inr [(''left'', [0]), (''right'', [0])]"
  by (simp add: sysconf_at_def timed_line_value timed_line_fields clamp_def)

lemma both_final: "0 < b \<Longrightarrow> b \<le> 2 \<Longrightarrow> final_time (both b) = 2" by (simp add: final_time_def timed_line_fields)

theorem first_arm_collision_witness:
  "TimeOfArmsCollision two_env (both 2) 1 = Inr (Some 2) \<and> (\<exists>c q. sysconf_at (both 2) 2 = Inr c
    \<and> client_ToGeneralizedPosition two_robots c kCompleteFromReferenceOnMissing (Some [(''left'', [0]), (''right'', [0])]) = Inr q \<and> pe_arms_collide two_env q)"
proof -
  have r: "TimeOfArmsCollision two_env (both 2) 1 = Inr (Some 2)"
    by (simp add: TimeOfArmsCollision_def both_now both_final two_collide collision_scan.simps clamp_def)
  show ?thesis using r first_arm_collision [OF r] both_now [of 2] by (auto simp: two_env_def)
qed

lemma two_stopped: "stop_arm two_env (3 / 2) 0 (both 2) = Inr (both (3 / 2))"
proof -
  have s: "pe_slice two_env (line 2) 0 b = Inr (line b)" for b by (simp add: two_env_def line_def)
  have t: "TimedTrajectory (line (3 / 2)) (line (3 / 2)) 0 = Inr (timed_line (3 / 2))"
    by (simp add: TimedTrajectory_def line_ok s_of_def line_value front_def clamp_def IsApprox_def timed_line_def)
  have "rb_names two_robots ! 2 = ''left''" by (simp add: two_positions)
  then have m: "stop_model two_env (3 / 2) 2 (both 2, []) = Inr (both (3 / 2), [(''left'', timed_line (3 / 2))])"
    using s t by (simp add: stop_model_def sys_at_def timed_line_fields line_ok s_of_def line_value front_def clamp_def sys_put_def two_dim two_planner Let_def)
  have "RemoveConstantPrepend sample_drake p = Inr p" for p by (simp add: RemoveConstantPrepend_def sample_drake_def)
  then show ?thesis using m by (simp add: stop_arm_def) (simp add: two_env_def ToPathParameterizedTrajectory_def)
qed

theorem best_approach_safe_witness:
  "BestApproachTrajectory two_env (both 2) [0] 1 1 None None (1 / 2) = Inr (Some (both (3 / 2))) \<and> samples_free two_env (both (3 / 2)) 1"
proof -
  have "TimeOfArmsCollision two_env (both (3 / 2)) 1 = Inr None"
    by (simp add: TimeOfArmsCollision_def both_now both_final two_collide collision_scan.simps clamp_def)
  moreover have "collision_scan (\<lambda>t. bindE (started_sysconf_at (both 2) t) (arms_collide_in two_env now)) 2 1 0 = Inr (Some 2)" for now
    by (simp add: both_started two_collide collision_scan.simps clamp_def)
  moreover have "client_ToGeneralizedPosition (pe_robot two_env) [(''left'', [0]), (''right'', [0])] kThrowOnMissing None = Inr [0, 0]"
    by (simp add: two_env_def two_conf)
  ultimately have r: "BestApproachTrajectory two_env (both 2) [0] 1 1 None None (1 / 2) = Inr (Some (both (3 / 2)))"
    using two_stopped by (simp add: BestApproachTrajectory_def both_now both_final approach_times_def)
  have "entities_of_arm two_env" by (simp add: entities_of_arm_def two_env_def)
  then show ?thesis using r best_approach_safe [OF r] by blast
qed

end
