(* ===== verification/Plan_Solver.thy ===== *)
theory Plan_Solver
  imports Arm_Collisions
begin

text \<open>
  \<open>draco/planner/solve_plan_impl.cc\<close>: from a problem to a result that can be executed while other arms are moving.  A new plan is
  preceded by a pause for the latency and checked against the active trajectories; a generalized problem may stop short of a
  collision.  \<open>MotionPlanResult\<close> is the client's \<open>planner/motion_plan_result.h\<close>.  The solvers of the other kinds of problems,
  with problems of type \<open>'o\<close>, are members of \<open>solver_env\<close>; the clock is read into \<open>now\<close> (the time since the epoch) and
  \<open>elapsed\<close> (the time the checks took).  An invalid \<open>ArmIndex\<close> is \<open>None\<close>.
\<close>

section \<open>Results\<close>

datatype motion_result_type = kUndefined | kNewAndTargeted | kNewNotTargeted | kRunningNoUpdate | kUpdate | kEmpty

datatype success_status = success_kUndefined | kFull | kStoppedShort

datatype failure_status = failure_kUndefined | kInvalidStart | kInvalidGoal | kInverseKinematics | kAsyncCollision | kAsyncActiveResource | kGeneral

record plan_result =
  is_success :: bool
  system_timed_trajectory :: sys_traj
  resource_result_types :: "string \<Rightarrow> motion_result_type option"
  result_message :: string
  result_success :: success_status
  result_failure :: failure_status

definition MotionPlanResult :: plan_result where
  "MotionPlanResult = \<lparr> is_success = False, system_timed_trajectory = [], resource_result_types = (\<lambda>_. None), result_message = '''',
     result_success = success_kUndefined, result_failure = failure_kUndefined \<rparr>"

definition SetResourceResultType :: "string \<Rightarrow> motion_result_type \<Rightarrow> plan_result \<Rightarrow> plan_result" where
  "SetResourceResultType k ty r = r\<lparr> resource_result_types := (resource_result_types r)(k \<mapsto> ty) \<rparr>"

definition GetResourceResultType :: "plan_result \<Rightarrow> string \<Rightarrow> motion_result_type" where
  "GetResourceResultType r k = (case resource_result_types r k of None \<Rightarrow> kUndefined | Some ty \<Rightarrow> ty)"

definition SetSuccessStatus :: "success_status \<Rightarrow> plan_result \<Rightarrow> plan_result" where
  "SetSuccessStatus st r = r\<lparr> result_success := st, is_success := st \<noteq> success_kUndefined \<rparr>"

definition SetFailureStatus :: "failure_status \<Rightarrow> plan_result \<Rightarrow> plan_result" where
  "SetFailureStatus st r = r\<lparr> result_failure := st, is_success := st = failure_kUndefined \<rparr>"

definition SetMessage :: "string \<Rightarrow> plan_result \<Rightarrow> plan_result" where "SetMessage m r = r\<lparr> result_message := m \<rparr>"
definition SetSystemTimedTrajectory :: "sys_traj \<Rightarrow> plan_result \<Rightarrow> plan_result" where
  "SetSystemTimedTrajectory T r = r\<lparr> system_timed_trajectory := T \<rparr>"

definition CheckInvariants :: "plan_result \<Rightarrow> bool" where
  "CheckInvariants r = (if is_success r
     then result_failure r = failure_kUndefined \<and> result_success r \<noteq> success_kUndefined \<and> length (system_timed_trajectory r) > 0
     else result_success r = success_kUndefined \<and> result_failure r \<noteq> failure_kUndefined \<and> length (system_timed_trajectory r) = 0)"

section \<open>Problems\<close>

record 'x update_problem =
  up_current :: sys_traj
  up_wayposes :: "'x frame_relative_pose list"
  up_waypoints :: "system_conf list"

datatype ('x, 'o) planning_problem = GeneralizedMultimodal "'x generalized_problem" | OutOfViolation 'o | FixedFramesMotion 'o
  | UpdateTrajTowardWaypoints "'x update_problem" | GlobalIK 'o | MaxCartesianAcceleration string string 'o | OtherProblem

record ('x, 'p, 'o) solver_env = "('x, 'p) plan_env" +
  se_zero_order_hold :: "real list \<Rightarrow> vec list \<Rightarrow> 'p throws"
  se_out_of_violation :: "'o \<Rightarrow> system_conf \<Rightarrow> (string + 'p \<times> 'p) throws"
  se_fixed_frames :: "'o \<Rightarrow> system_conf \<Rightarrow> (string + 'p \<times> 'p) throws"
  se_global_ik :: "'o \<Rightarrow> (string + 'p \<times> 'p) throws"
  se_max_cartesian :: "string \<Rightarrow> string \<Rightarrow> 'o \<Rightarrow> system_conf \<Rightarrow> (string + 'p \<times> 'p) throws"
  se_update :: "'x update_problem \<Rightarrow> nat option option \<Rightarrow> (string + 'p \<times> 'p) throws"
  async_collision_checking_time_step :: real
  async_latency_check_per_call :: real
  latency_comms :: real
  partial_solution_time_buffer :: real

section \<open>The arms of a problem\<close>

definition arm_of_model :: "('x, 'p, 'z) plan_env_scheme \<Rightarrow> string \<Rightarrow> nat option throws" where
  "arm_of_model E k = bindE (model_named (pe_robot E) k) (\<lambda>i. Inr (get_arm_index (pe_arms E) i))"

definition arm_of_frame :: "('x, 'p, 'z) plan_env_scheme \<Rightarrow> string \<Rightarrow> nat option throws" where
  "arm_of_frame E f = bindE (dr_frame_instance (pe_planner E) f) (\<lambda>i. Inr (get_arm_index (pe_arms E) i))"

definition demand_arm :: "nat option \<Rightarrow> nat throws" where
  "demand_arm a = (case a of None \<Rightarrow> Inl ''DRAKE_DEMAND(arm_index.is_valid())'' | Some a \<Rightarrow> Inr a)"

definition insert_arm :: "nat option \<Rightarrow> nat set \<Rightarrow> nat set" where "insert_arm a A = (case a of None \<Rightarrow> A | Some a \<Rightarrow> insert a A)"

definition get_models_and_frames_in_anchor :: "'x anchor \<Rightarrow> string list \<times> string list" where
  "get_models_and_frames_in_anchor a = (map fst (an_conf a), concat (map (\<lambda>p. [frame_A p, frame_B p]) (an_poses a)))"

definition GetArmsInvolvedInProblem :: "('x, 'p, 'z) plan_env_scheme \<Rightarrow> 'x generalized_problem \<Rightarrow> nat set throws" where
  "GetArmsInvolvedInProblem E P = (let mf = map get_models_and_frames_in_anchor (gp_start_anchors P @ gp_goal_anchors P) in
     bindE (foldE (\<lambda>k A. bindE (arm_of_model E k) (\<lambda>a. bindE (demand_arm a) (\<lambda>a. Inr (insert a A)))) (concat (map fst mf)) {}) (\<lambda>A.
       foldE (\<lambda>f A. bindE (arm_of_frame E f) (\<lambda>a. Inr (insert_arm a A))) (concat (map snd mf)) A))"

definition GetArmsInvolvedInTwist :: "('x, 'p, 'z) plan_env_scheme \<Rightarrow> string \<Rightarrow> string \<Rightarrow> nat set throws" where
  "GetArmsInvolvedInTwist E fA fB = bindE (arm_of_frame E fA) (\<lambda>a. bindE (arm_of_frame E fB) (\<lambda>b. Inr (insert_arm b (insert_arm a {}))))"

text \<open>The state of the loops: \<open>None\<close> once the function has returned without an arm, then the arm seen so far.\<close>

definition claim :: "nat option \<Rightarrow> nat option option \<Rightarrow> nat option option" where
  "claim arm st = (case st of None \<Rightarrow> None | Some active \<Rightarrow> (case arm of None \<Rightarrow> Some active
     | Some a \<Rightarrow> if active \<noteq> None \<and> active \<noteq> Some a then None else Some (Some a)))"

definition claim_waypose :: "('x, 'p, 'z) plan_env_scheme \<Rightarrow> 'x frame_relative_pose \<Rightarrow> nat option option \<Rightarrow> nat option option throws" where
  "claim_waypose E p st = (if st = None then Inr None
     else bindE (arm_of_frame E (frame_A p)) (\<lambda>a. bindE (arm_of_frame E (frame_B p)) (\<lambda>b. Inr (claim b (claim a st)))))"

definition claim_model :: "('x, 'p, 'z) plan_env_scheme \<Rightarrow> string \<Rightarrow> nat option option \<Rightarrow> nat option option throws" where
  "claim_model E k st = (if st = None then Inr None
     else bindE (arm_of_model E k) (\<lambda>a. bindE (demand_arm a) (\<lambda>a. Inr (claim (Some a) st))))"

definition FindActiveArmIndex :: "('x, 'p, 'z) plan_env_scheme \<Rightarrow> 'x update_problem \<Rightarrow> nat option option throws" where
  "FindActiveArmIndex E U = (if length (pe_arms E) = 1 then Inr (Some (Some 0))
     else bindE (foldE (claim_waypose E) (up_wayposes U) (Some None)) (foldE (claim_model E) (concat (map (map fst) (up_waypoints U)))))"

section \<open>Types of resources\<close>

text \<open>Eigen's comparison, relative to the smaller of the two norms.\<close>

definition eigen_approx :: "vec \<Rightarrow> vec \<Rightarrow> real \<Rightarrow> bool" where
  "eigen_approx a b tol = ((vnorm (vminus a b))\<^sup>2 \<le> tol\<^sup>2 * min ((vnorm a)\<^sup>2) ((vnorm b)\<^sup>2))"

fun same_at_breaks :: "piecewise \<Rightarrow> vec \<Rightarrow> real \<Rightarrow> real list \<Rightarrow> bool throws" where
  "same_at_breaks pp v tol [] = Inr True"
| "same_at_breaks pp v tol (t # ts) = bindE (Value pp t) (\<lambda>w. if \<not> eigen_approx w v tol then Inr False else same_at_breaks pp v tol ts)"

definition IsConstant :: "piecewise \<Rightarrow> real \<Rightarrow> bool throws" where
  "IsConstant pp tol = bindE (Value pp (pp_start pp)) (\<lambda>v. same_at_breaks pp v tol (tl (pp_breaks pp)))"

definition default_tolerance :: real where "default_tolerance = 1 / 10 ^ 5"

definition type_of_new :: "bool \<Rightarrow> bool \<Rightarrow> motion_result_type" where
  "type_of_new targeted constant = (if targeted then kNewAndTargeted else if \<not> constant then kNewNotTargeted else kEmpty)"

definition set_new_type :: "('x, 'p, 'z) plan_env_scheme \<Rightarrow> nat set \<Rightarrow> string \<times> timed \<Rightarrow> plan_result \<Rightarrow> plan_result throws" where
  "set_new_type E active = (\<lambda>(k, tr) r. bindE (arm_of_model E k) (\<lambda>a. bindE (demand_arm a) (\<lambda>a.
     bindE (IsConstant (tt_path tr) default_tolerance) (\<lambda>c. Inr (SetResourceResultType k (type_of_new (a \<in> active) c) r)))))"

definition SetResourcesFromNewResult :: "('x, 'p, 'z) plan_env_scheme \<Rightarrow> nat set \<Rightarrow> plan_result \<Rightarrow> plan_result throws" where
  "SetResourcesFromNewResult E active r = foldE (set_new_type E active) (system_timed_trajectory r) r"

definition SetResourcesFromUpdatedResult :: "plan_result \<Rightarrow> plan_result" where
  "SetResourcesFromUpdatedResult r = fold (\<lambda>(k, _). SetResourceResultType k kUpdate) (system_timed_trajectory r) r"

section \<open>Latency\<close>

definition CalcLatencyTime :: "real \<Rightarrow> sys_traj \<Rightarrow> real \<Rightarrow> real \<Rightarrow> real \<Rightarrow> real \<Rightarrow> real" where
  "CalcLatencyTime duration active now step per_call comms =
     (let max_end_time = fold (\<lambda>(_, tr) m. max m (end_time tr + tt_offset tr - now)) active duration
      in real_of_int \<lceil>max_end_time / step\<rceil> * per_call + comms)"

definition PrependTrajectoryWithConstant :: "('x, 'p, 'o, 'z) solver_env_scheme \<Rightarrow> 'p \<times> 'p \<Rightarrow> real \<Rightarrow> real \<Rightarrow> ('p \<times> 'p) throws" where
  "PrependTrajectoryWithConstant E = (\<lambda>(path, timing) t_now delta. let D = pe_drake E in
     if \<not> \<bar>dk_start D path\<bar> < 1 / 10 ^ 6 then Inl ''DRAKE_DEMAND(std::abs(path->start_time()) < 1e-6)''
     else let q_start = dk_value D path (dk_start D path); t_switch = t_now + delta in
       bindE (se_zero_order_hold E [- delta, 0] [q_start, q_start]) (\<lambda>still. let time_still = MakeUniformTimingForPath D still t_now in
         if \<not> \<bar>dk_start D time_still - t_now\<bar> < 1 / 10 ^ 8 \<or> \<not> \<bar>dk_end D time_still - t_switch\<bar> < 1 / 10 ^ 8 then Inl ''DRAKE_DEMAND''
         else bindE (dk_concat D still path) (\<lambda>path. bindE (dk_concat D time_still (dk_shift D t_switch timing)) (\<lambda>timing. Inr (path, timing)))))"

section \<open>Solving a problem\<close>

text \<open>What the first part of \<open>SolvePlanImpl\<close> leaves: a new path, an updated trajectory, or a failure.\<close>

datatype 'p attempt = NewPath "string + 'p \<times> 'p" "nat set" "real option" "real option" | Updated plan_result sys_traj "nat option option" real
  | UpdateFailed string

definition common_offset :: "sys_traj \<Rightarrow> real throws" where
  "common_offset T = (case T of [] \<Rightarrow> Inl unless_throw
     | (_, tr) # rest \<Rightarrow> if list_all (\<lambda>(_, tr'). \<bar>tt_offset tr - tt_offset tr'\<bar> < 1 / 10 ^ 6) rest then Inr (tt_offset tr) else Inl unless_throw)"

definition need_start :: "system_conf option \<Rightarrow> system_conf throws" where
  "need_start c = (case c of None \<Rightarrow> Inl unless_throw | Some c \<Rightarrow> Inr c)"

definition solve_generalized :: "('x, 'p, 'o, 'z) solver_env_scheme \<Rightarrow> 'x generalized_problem \<Rightarrow> system_conf option \<Rightarrow> 'p attempt throws" where
  "solve_generalized E P start = bindE (need_start start) (\<lambda>c. bindE (GetArmsInvolvedInProblem E P) (\<lambda>active.
     bindE (SolveGeneralizedMultiModalPlan (pe_planner E) P c) (\<lambda>r. Inr (case r of
         Inl e \<Rightarrow> NewPath (Inl e) active None None
       | Inr m \<Rightarrow> NewPath (Inr (mr_trajectory m)) active (Some (mr_transit_start m)) (Some (mr_transit_end m))))))"

text \<open>The spliner of the active arm, if there is one arm of several; asking the map for an invalid index throws.\<close>

definition update_spliner :: "('x, 'p, 'z) plan_env_scheme \<Rightarrow> nat option option \<Rightarrow> nat option throws" where
  "update_spliner E maybe_arm = (case maybe_arm of
       Some arm \<Rightarrow> if length (pe_arms E) > 1 then (case arm of None \<Rightarrow> Inl out_of_range | Some a \<Rightarrow> Inr (Some a)) else Inr None
     | None \<Rightarrow> Inr None)"

definition solve_update :: "('x, 'p, 'o, 'z) solver_env_scheme \<Rightarrow> 'x update_problem \<Rightarrow> 'p attempt throws" where
  "solve_update E U = bindE (FindActiveArmIndex E U) (\<lambda>maybe_arm. bindE (common_offset (up_current U)) (\<lambda>offset.
     bindE (se_update E U maybe_arm) (\<lambda>r. case r of
         Inl e \<Rightarrow> Inr (UpdateFailed e)
       | Inr timed_path \<Rightarrow> bindE (update_spliner E maybe_arm) (\<lambda>sp. bindE (ToSystemTimedTrajectory E sp timed_path) (\<lambda>T.
           let T = map (\<lambda>(k, tr). (k, SetGlobalTimeOffset offset tr)) T
           in Inr (Updated (SetResourcesFromUpdatedResult (SetSystemTimedTrajectory T MotionPlanResult)) T maybe_arm
                (dk_end (pe_drake E) (snd timed_path))))))))"

definition solve_problem :: "('x, 'p, 'o, 'z) solver_env_scheme \<Rightarrow> ('x, 'o) planning_problem \<Rightarrow> system_conf option \<Rightarrow> 'p attempt throws" where
  "solve_problem E def start = (case def of
       GeneralizedMultimodal P \<Rightarrow> solve_generalized E P start
     | OutOfViolation x \<Rightarrow> bindE (need_start start) (\<lambda>c. bindE (se_out_of_violation E x c) (\<lambda>r. Inr (NewPath r {} None None)))
     | FixedFramesMotion x \<Rightarrow> bindE (need_start start) (\<lambda>c. bindE (se_fixed_frames E x c) (\<lambda>r. Inr (NewPath r {} None None)))
     | UpdateTrajTowardWaypoints U \<Rightarrow> solve_update E U
     | GlobalIK x \<Rightarrow> bindE (se_global_ik E x) (\<lambda>r. Inr (NewPath r {..<length (pe_arms E)} None None))
     | MaxCartesianAcceleration fA fB x \<Rightarrow> bindE (need_start start) (\<lambda>c. bindE (se_max_cartesian E fA fB x c) (\<lambda>r.
         bindE (GetArmsInvolvedInTwist E fA fB) (\<lambda>active. Inr (NewPath r active None None))))
     | OtherProblem \<Rightarrow> Inr (NewPath (Inl ''DracoPlanner: Not solved yet.'') {} None None))"

section \<open>New trajectories\<close>

definition failed_with :: "failure_status \<Rightarrow> string \<Rightarrow> plan_result \<Rightarrow> plan_result" where
  "failed_with st m r = SetSystemTimedTrajectory [] (SetFailureStatus st (SetMessage m r))"

text \<open>The trajectories of a new path, paused by the latency if others are moving; their offset is the end of the latency.\<close>

definition new_trajectory :: "('x, 'p, 'o, 'z) solver_env_scheme \<Rightarrow> 'p \<times> 'p \<Rightarrow> bool \<Rightarrow> real \<Rightarrow> real \<Rightarrow> nat set \<Rightarrow> (plan_result \<times> sys_traj) throws" where
  "new_trajectory E timed_path async now latency active =
     bindE (if async then PrependTrajectoryWithConstant E timed_path 0 latency else Inr timed_path) (\<lambda>timed_path.
       bindE (ToSystemTimedTrajectory E None timed_path) (\<lambda>T. let T = map (\<lambda>(k, tr). (k, SetGlobalTimeOffset (now + latency) tr)) T in
         bindE (SetResourcesFromNewResult E active (SetSystemTimedTrajectory T MotionPlanResult)) (\<lambda>r. Inr (r, T))))"

section \<open>Active trajectories\<close>

text \<open>The loop over the active trajectories: the result so far, the trajectories to be checked and the arms that are active; or the
  result that has been returned.\<close>

datatype active_loop = Going plan_result sys_traj "nat set" | Returned plan_result

definition slice_active :: "timed \<Rightarrow> real \<Rightarrow> timed throws" where
  "slice_active tr now = (let t = now - tt_offset tr in
     bindE (SliceFromTime tr t True) (\<lambda>sliced. let sliced = tt_ShiftTime (- t) sliced in
       if \<not> \<bar>start_time sliced\<bar> \<le> 1 / 10 ^ 6 then Inl ''DRAKE_DEMAND'' else Inr (SetGlobalTimeOffset now sliced)))"

definition active_step :: "('x, 'p, 'z) plan_env_scheme \<Rightarrow> real \<Rightarrow> string \<times> timed \<Rightarrow> active_loop \<Rightarrow> active_loop throws" where
  "active_step E now = (\<lambda>(k, tr) st. case st of
       Returned r \<Rightarrow> Inr st
     | Going r T arms \<Rightarrow> if k \<notin> set (rb_names (pe_robot E)) then Inr st
         else bindE (arm_of_model E k) (\<lambda>a. bindE (demand_arm a) (\<lambda>a. let arms = insert a arms in
           if map_of T k = None then Inr (Going r (sys_put [(k, tr)] T) arms)
           else case GetResourceResultType r k of
               kNewAndTargeted \<Rightarrow> Inr (Returned (failed_with kAsyncActiveResource ''Active trajectory resource is running but asked a different plan for it.'' r))
             | kUpdate \<Rightarrow> Inr (Going r T arms)
             | _ \<Rightarrow> (let r = SetResourceResultType k kRunningNoUpdate r in
                 if now - tt_offset tr > end_time tr then Inr (Going r T arms)
                 else bindE (slice_active tr now) (\<lambda>sliced. Inr (Going r (sys_put [(k, sliced)] T) arms))))))"

text \<open>Whether every active trajectory of another arm is constant.\<close>

fun others_constant :: "('x, 'p, 'z) plan_env_scheme \<Rightarrow> nat option option \<Rightarrow> sys_traj \<Rightarrow> bool throws" where
  "others_constant E maybe_arm [] = Inr True"
| "others_constant E maybe_arm ((k, tr) # rest) =
     (if k \<notin> set (rb_names (pe_robot E)) then others_constant E maybe_arm rest
      else case maybe_arm of None \<Rightarrow> Inl ''DRAKE_DEMAND(maybe_update_active_arm.has_value())''
        | Some arm \<Rightarrow> (case arm of None \<Rightarrow> Inl out_of_range
          | Some a \<Rightarrow> bindE (model_named (pe_robot E) k) (\<lambda>i.
              if i \<in> set (arm_instances (pe_arms E ! a)) then others_constant E maybe_arm rest
              else bindE (IsConstant (tt_path tr) default_tolerance) (\<lambda>c. if c then others_constant E maybe_arm rest else Inr False))))"

definition allows_async_partial :: "('x, 'o) planning_problem \<Rightarrow> bool" where
  "allows_async_partial def = (case def of GeneralizedMultimodal P \<Rightarrow> gp_async_partial P | _ \<Rightarrow> False)"

definition add_time :: "real option \<Rightarrow> real \<Rightarrow> real option" where "add_time t latency = (case t of None \<Rightarrow> None | Some t \<Rightarrow> Some (t + latency))"

text \<open>The collision check against the active trajectories.  \<open>max_time\<close> is \<open>None\<close> for infinity, which is also what it is compared as.\<close>

definition check_active :: "('x, 'p, 'o, 'z) solver_env_scheme \<Rightarrow> bool \<Rightarrow> plan_result \<Rightarrow> sys_traj \<Rightarrow> nat set \<Rightarrow> real option \<Rightarrow> real option
    \<Rightarrow> real \<Rightarrow> real \<Rightarrow> plan_result throws" where
  "check_active E partial r T arms min_time max_time latency elapsed =
     (let step = async_collision_checking_time_step E; movable = filter (\<lambda>a. a \<notin> arms) [0..<length (pe_arms E)];
          collides = failed_with kAsyncCollision ''The calculated trajectory collides with active trajectories of other arms.'' r in
      bindE (TimeOfArmsCollision E T step) (\<lambda>c. case c of
          Some _ \<Rightarrow> if \<not> partial then Inr collides
            else bindE (BestApproachTrajectory E T movable 10 step min_time max_time (partial_solution_time_buffer E)) (\<lambda>b. Inr (case b of
                None \<Rightarrow> collides
              | Some T' \<Rightarrow> SetSuccessStatus kStoppedShort (SetSystemTimedTrajectory T' r)))
        | None \<Rightarrow> Inr (if elapsed > latency then failed_with kGeneral ''The planner is too slow for the given latency requirements.'' r
            else SetSuccessStatus kFull (SetSystemTimedTrajectory T r))))"

definition with_active :: "('x, 'p, 'o, 'z) solver_env_scheme \<Rightarrow> ('x, 'o) planning_problem \<Rightarrow> nat option option option \<Rightarrow> plan_result \<Rightarrow> sys_traj
    \<Rightarrow> sys_traj \<Rightarrow> real option \<Rightarrow> real option \<Rightarrow> real \<Rightarrow> real \<Rightarrow> real \<Rightarrow> plan_result throws" where
  "with_active E def updated r T active_traj min_time max_time now latency elapsed =
     bindE (foldE (active_step E now) active_traj (Going r T {})) (\<lambda>st. case st of
         Returned r \<Rightarrow> Inr r
       | Going r T arms \<Rightarrow> bindE (case updated of None \<Rightarrow> Inr False | Some maybe_arm \<Rightarrow> others_constant E maybe_arm active_traj) (\<lambda>constant.
           if constant then Inr (SetSuccessStatus kFull r)
           else check_active E (allows_async_partial def) r T arms min_time max_time latency elapsed))"

definition latency_of :: "('x, 'p, 'o, 'z) solver_env_scheme \<Rightarrow> real \<Rightarrow> sys_traj \<Rightarrow> real \<Rightarrow> real" where
  "latency_of E duration active now = CalcLatencyTime duration active now (async_collision_checking_time_step E) (async_latency_check_per_call E) (latency_comms E)"

definition SolvePlanImpl :: "('x, 'p, 'o, 'z) solver_env_scheme \<Rightarrow> ('x, 'o) planning_problem \<Rightarrow> system_conf option \<Rightarrow> sys_traj option \<Rightarrow> real \<Rightarrow> real
    \<Rightarrow> plan_result throws" where
  "SolvePlanImpl E def start maybe_active now elapsed =
     (let active_traj = (case maybe_active of None \<Rightarrow> [] | Some T \<Rightarrow> T); async = active_traj \<noteq> [] in
      bindE (solve_problem E def start) (\<lambda>a. case a of
          UpdateFailed e \<Rightarrow> Inr (SetMessage e (SetFailureStatus kGeneral MotionPlanResult))
        | NewPath (Inl e) _ _ _ \<Rightarrow> Inr (SetMessage e (SetFailureStatus kGeneral MotionPlanResult))
        | NewPath (Inr timed_path) active min_time max_time \<Rightarrow>
            (let latency = latency_of E (dk_end (pe_drake E) (snd timed_path)) active_traj now in
             bindE (new_trajectory E timed_path async now latency active) (\<lambda>(r, T).
               if async then with_active E def None r T active_traj
                   (Some ((case min_time of None \<Rightarrow> 0 | Some t \<Rightarrow> t) + latency)) (add_time max_time latency) now latency elapsed
               else Inr (SetSuccessStatus kFull (SetSystemTimedTrajectory T r))))
        | Updated r T maybe_arm duration \<Rightarrow>
            if async then with_active E def (Some maybe_arm) r T active_traj None None now (latency_of E duration active_traj now) elapsed
            else Inr (SetSuccessStatus kFull (SetSystemTimedTrajectory T r))))"

section \<open>The operation of the planner\<close>

text \<open>\<open>DracoPlanner::SolvePlan\<close> in \<open>draco_planner.cc\<close>: the other kinds of problems become generalized ones, and only the resources with a
  new or updated trajectory stay in the result.  The overrides of the options are those of \<open>Override\<close>.\<close>

datatype ('x, 'o) request = Direct "('x, 'o) planning_problem" | StartToGoal "'x anchor" bool bool
  | CartesianLinearMove "'x anchor" "'x frame_relative_pose list" bool | Multimodal "'x multimodal_problem"

definition generalize :: "('x, 'p, 'z) plan_env_scheme \<Rightarrow> ('x, 'o) request \<Rightarrow> (string + ('x, 'o) planning_problem) throws" where
  "generalize E rq = (case rq of
       Direct p \<Rightarrow> Inr (Inr p)
     | StartToGoal goal fast async \<Rightarrow> Inr (Inr (GeneralizedMultimodal \<lparr> gp_start_anchors = [], gp_goal_anchors = [goal], gp_fast_estimate = fast,
         gp_partial_start = False, gp_partial_goal = False, gp_async_partial = async \<rparr>))
     | CartesianLinearMove start poses async \<Rightarrow>
         bindE (ConstructGeneralizedProblemFromCartesianLinearProblem (pe_planner E) start poses async (1 / 100) (2 / 100)) (\<lambda>r. Inr (case r of
           Inl e \<Rightarrow> Inl e | Inr P \<Rightarrow> Inr (GeneralizedMultimodal P)))
     | Multimodal P \<Rightarrow> bindE (ConstructGeneralizedProblemFromMultimodal (pe_planner E) P (1 / 100) (2 / 100)) (\<lambda>P. Inr (Inr (GeneralizedMultimodal P))))"

definition changes_resource :: "motion_result_type \<Rightarrow> bool" where
  "changes_resource ty \<longleftrightarrow> ty = kNewAndTargeted \<or> ty = kNewNotTargeted \<or> ty = kUpdate"

definition keep_changed :: "plan_result \<Rightarrow> plan_result" where
  "keep_changed r = SetSystemTimedTrajectory (filter (\<lambda>(k, _). changes_resource (GetResourceResultType r k)) (system_timed_trajectory r)) r"

definition SolvePlan :: "('x, 'p, 'o, 'z) solver_env_scheme \<Rightarrow> ('x, 'o) request \<Rightarrow> system_conf option \<Rightarrow> sys_traj option \<Rightarrow> real \<Rightarrow> real \<Rightarrow> plan_result throws" where
  "SolvePlan E rq start maybe_active now elapsed = bindE (generalize E rq) (\<lambda>g. case g of
       Inl e \<Rightarrow> Inr (SetMessage e (SetFailureStatus kGeneral MotionPlanResult))
     | Inr def \<Rightarrow> bindE (SolvePlanImpl E def start maybe_active now elapsed) (\<lambda>r. Inr (keep_changed r)))"

section \<open>Results are consistent\<close>

text \<open>A spliner returns the trajectory of at least one robot.\<close>

definition some_entity :: "('x, 'p, 'z) plan_env_scheme \<Rightarrow> bool" where "some_entity E \<longleftrightarrow> (\<forall>sp ppt. pe_entities E sp ppt \<noteq> [])"

lemma sys_put_nonempty: "T \<noteq> [] \<Longrightarrow> sys_put new T \<noteq> []"
proof (induction new arbitrary: T)
  case (Cons x new)
  obtain k tr where x: "x = (k, tr)" by (cases x)
  have "AList.update k tr T \<noteq> []" by (cases T) auto
  from Cons.IH [OF this] show ?case by (simp add: sys_put_def x)
qed (simp add: sys_put_def)

lemma system_nonempty: "some_entity E \<Longrightarrow> ToSystemTimedTrajectory E sp ppt = Inr T \<Longrightarrow> T \<noteq> []"
  by (cases ppt, cases "pe_entities E sp ppt") (auto simp: ToSystemTimedTrajectory_def some_entity_def bindE_Inr_iff)

lemma best_approach_nonempty:
  assumes "BestApproachTrajectory E T movable n h a b c = Inr (Some T')" "T \<noteq> []"
  shows "T' \<noteq> []"
proof -
  have arm: "U' \<noteq> []" if u: "stop_arm E t m U = Inr U'" "U \<noteq> []" for t m U U'
  proof -
    obtain U1 A path' where s: "foldE (stop_model E t) (arm_instances (pe_arms E ! m)) (U, []) = Inr (U1, A)"
        "(case pe_toppra E (Some m) path' of None \<Rightarrow> Inr U1
          | Some timing \<Rightarrow> bindE (ToSystemTimedTrajectory E (Some m) (path', timing)) (\<lambda>new. Inr (sys_put new U1))) = Inr U'"
      using u(1) by (auto simp: stop_arm_def bindE_Inr_iff split: if_splits)
    have "fst (U1, A) \<noteq> []"
      by (rule foldE_invariant [OF s(1)])
        (use u(2) in \<open>auto simp: stop_model_def bindE_Inr_iff Let_def sys_put_nonempty split: if_splits\<close>)
    then show ?thesis using s(2) by (auto simp: bindE_Inr_iff sys_put_nonempty split: option.splits)
  qed
  have "T' = T \<or> (\<exists>ts. try_candidates E T movable h ts = Inr (Some T'))"
    using assms(1) by (fastforce simp: BestApproachTrajectory_def bindE_Inr_iff Let_def split: if_splits option.splits)
  then show ?thesis
  proof (elim disjE exE)
    fix ts assume "try_candidates E T movable h ts = Inr (Some T')"
    then obtain t where t: "foldE (stop_arm E t) movable T = Inr T'" using try_candidates_ok by blast
    show ?thesis by (rule foldE_invariant [OF t, where P = "\<lambda>U. U \<noteq> []"]) (use arm assms(2) in blast)+
  qed (use assms(2) in simp)
qed

text \<open>A result under construction: no status yet.\<close>

definition undecided :: "plan_result \<Rightarrow> bool" where
  "undecided r \<longleftrightarrow> result_success r = success_kUndefined \<and> result_failure r = failure_kUndefined"

lemma undecided_results [simp]:
  "undecided MotionPlanResult" "undecided (SetSystemTimedTrajectory T r) = undecided r" "undecided (SetResourceResultType k ty r) = undecided r"
  "undecided r \<Longrightarrow> CheckInvariants (failed_with kGeneral m r)" "undecided r \<Longrightarrow> CheckInvariants (failed_with kAsyncCollision m r)"
  "undecided r \<Longrightarrow> CheckInvariants (failed_with kAsyncActiveResource m r)"
  "undecided r \<Longrightarrow> T \<noteq> [] \<Longrightarrow> CheckInvariants (SetSuccessStatus kFull (SetSystemTimedTrajectory T r))"
  "undecided r \<Longrightarrow> T \<noteq> [] \<Longrightarrow> CheckInvariants (SetSuccessStatus kStoppedShort (SetSystemTimedTrajectory T r))"
  "undecided r \<Longrightarrow> system_timed_trajectory r \<noteq> [] \<Longrightarrow> CheckInvariants (SetSuccessStatus kFull r)"
  "CheckInvariants (SetMessage m (SetFailureStatus kGeneral MotionPlanResult))"
  by (simp_all add: undecided_def MotionPlanResult_def SetSystemTimedTrajectory_def SetResourceResultType_def CheckInvariants_def
      failed_with_def SetFailureStatus_def SetMessage_def SetSuccessStatus_def)

lemma resource_types_trajectory [simp]: "system_timed_trajectory (SetResourceResultType k ty r) = system_timed_trajectory r"
  "system_timed_trajectory (SetSystemTimedTrajectory T r) = T"
  by (simp_all add: SetResourceResultType_def SetSystemTimedTrajectory_def)

lemma updated_fold:
  "undecided (fold (\<lambda>(k, _). SetResourceResultType k kUpdate) xs r) = undecided r"
  "system_timed_trajectory (fold (\<lambda>(k, _). SetResourceResultType k kUpdate) xs r) = system_timed_trajectory r"
  by (induction xs arbitrary: r) (simp_all add: case_prod_beta)

lemma updated_types:
  "undecided (SetResourcesFromUpdatedResult r) = undecided r" "system_timed_trajectory (SetResourcesFromUpdatedResult r) = system_timed_trajectory r"
  unfolding SetResourcesFromUpdatedResult_def by (rule updated_fold)+

lemma new_types: "SetResourcesFromNewResult E active r = Inr r' \<Longrightarrow> undecided r' = undecided r \<and> system_timed_trajectory r' = system_timed_trajectory r"
  unfolding SetResourcesFromNewResult_def
  by (erule foldE_invariant) (auto simp: set_new_type_def bindE_Inr_iff)

lemma new_trajectory_ok:
  assumes "new_trajectory E p async now latency active = Inr (r, T)" "some_entity E"
  shows "undecided r" "T \<noteq> []" "system_timed_trajectory r = T" "\<forall>(k, tr) \<in> set T. tt_offset tr = now + latency"
proof -
  obtain p' T0 where t: "ToSystemTimedTrajectory E None p' = Inr T0" "T = map (\<lambda>(k, tr). (k, SetGlobalTimeOffset (now + latency) tr)) T0"
      "SetResourcesFromNewResult E active (SetSystemTimedTrajectory T MotionPlanResult) = Inr r"
    using assms(1) by (auto simp: new_trajectory_def bindE_Inr_iff Let_def)
  show "undecided r" "system_timed_trajectory r = T" using new_types [OF t(3)] by simp_all
  show "T \<noteq> []" using system_nonempty [OF assms(2) t(1)] t(2) by simp
  show "\<forall>(k, tr) \<in> set T. tt_offset tr = now + latency" by (auto simp: t(2) SetGlobalTimeOffset_def)
qed

text \<open>The loop over the active trajectories keeps the result undecided and the trajectories there are, or returns a failure.\<close>

definition loop_ok :: "active_loop \<Rightarrow> bool" where
  "loop_ok st = (case st of Going r T arms \<Rightarrow> undecided r \<and> T \<noteq> [] \<and> system_timed_trajectory r \<noteq> [] | Returned r \<Rightarrow> CheckInvariants r \<and> \<not> is_success r)"

lemma active_step_ok: "loop_ok st \<Longrightarrow> active_step E now x st = Inr st' \<Longrightarrow> loop_ok st'"
  by (cases x; cases st)
    (auto simp: active_step_def loop_ok_def bindE_Inr_iff Let_def sys_put_nonempty failed_with_def SetSystemTimedTrajectory_def SetFailureStatus_def
      SetMessage_def CheckInvariants_def undecided_def SetResourceResultType_def split: if_splits motion_result_type.splits)

lemma with_active_ok:
  assumes "with_active E def updated r T A min_time max_time now latency elapsed = Inr r'" "undecided r" "T \<noteq> []" "system_timed_trajectory r \<noteq> []"
  shows "CheckInvariants r'"
proof -
  obtain st where st: "foldE (active_step E now) A (Going r T {}) = Inr st"
    and k: "(case st of Returned r \<Rightarrow> Inr r
       | Going r T arms \<Rightarrow> bindE (case updated of None \<Rightarrow> Inr False | Some maybe_arm \<Rightarrow> others_constant E maybe_arm A) (\<lambda>constant.
           if constant then Inr (SetSuccessStatus kFull r)
           else check_active E (allows_async_partial def) r T arms min_time max_time latency elapsed)) = Inr r'"
    using assms(1) by (auto simp: with_active_def bindE_Inr_iff)
  have "loop_ok (Going r T {})" using assms(2-4) by (simp add: loop_ok_def)
  then have ok: "loop_ok st" by (rule foldE_invariant [OF st]) (rule active_step_ok)
  show ?thesis
  proof (cases st)
    case (Returned r0)
    then show ?thesis using ok k by (simp add: loop_ok_def)
  next
    case (Going r0 T0 arms)
    then have g: "undecided r0" "T0 \<noteq> []" "system_timed_trajectory r0 \<noteq> []" using ok by (simp_all add: loop_ok_def)
    obtain still where c: "(if still then Inr (SetSuccessStatus kFull r0)
        else check_active E (allows_async_partial def) r0 T0 arms min_time max_time latency elapsed) = Inr r'"
      using k Going by (auto simp: bindE_Inr_iff)
    show ?thesis
    proof (cases still)
      case True
      then show ?thesis using c g by auto
    next
      case False
      then have "check_active E (allows_async_partial def) r0 T0 arms min_time max_time latency elapsed = Inr r'" using c by simp
      then show ?thesis using g
        by (auto simp: check_active_def Let_def bindE_Inr_iff dest!: best_approach_nonempty [OF _ g(2)] split: option.splits if_splits)
    qed
  qed
qed

lemma generalized_new: "solve_generalized E P start = Inr a \<Longrightarrow> \<exists>p A m n. a = NewPath p A m n"
proof -
  assume g: "solve_generalized E P start = Inr a"
  obtain c A r where "need_start start = Inr c" "GetArmsInvolvedInProblem E P = Inr A" "SolveGeneralizedMultiModalPlan (pe_planner E) P c = Inr r"
    using g unfolding solve_generalized_def bindE_Inr_iff by blast
  then show ?thesis using g by (cases r) (auto simp: solve_generalized_def)
qed

lemma solve_problem_updated:
  assumes "solve_problem E def start = Inr (Updated r T maybe_arm d)" "some_entity E"
  shows "undecided r" "T \<noteq> []" "system_timed_trajectory r = T" "\<exists>U. def = UpdateTrajTowardWaypoints U"
proof -
  obtain U where U: "def = UpdateTrajTowardWaypoints U" "solve_update E U = Inr (Updated r T maybe_arm d)"
    using assms(1) generalized_new [of E] by (cases "def") (fastforce simp: solve_problem_def bindE_Inr_iff)+
  obtain arm offset res where u: "FindActiveArmIndex E U = Inr arm" "common_offset (up_current U) = Inr offset" "se_update E U arm = Inr res"
    using U(2) unfolding solve_update_def bindE_Inr_iff by blast
  obtain p where p: "res = Inr p" using U(2) u by (cases res) (auto simp: solve_update_def)
  obtain sp T0 where t: "ToSystemTimedTrajectory E sp p = Inr T0" "T = map (\<lambda>(k, tr). (k, SetGlobalTimeOffset offset tr)) T0"
      "r = SetResourcesFromUpdatedResult (SetSystemTimedTrajectory T MotionPlanResult)"
    using U(2) u p by (auto simp: solve_update_def bindE_Inr_iff Let_def)
  show "undecided r" "T \<noteq> []" "system_timed_trajectory r = T" "\<exists>U. def = UpdateTrajTowardWaypoints U"
    using system_nonempty [OF assms(2) t(1)] t(2,3) U(1) by (simp_all add: updated_types)
qed

text \<open>C15: Whatever the problem, the active trajectories and the clock, a result keeps the invariants of its class: a success has a
  status of success, no status of failure and a trajectory; a failure has a status of failure and no trajectory.\<close>

theorem plan_result_consistent:
  assumes "SolvePlanImpl E def start maybe_active now elapsed = Inr r" "some_entity E"
  shows "CheckInvariants r"
proof -
  let ?A = "case maybe_active of None \<Rightarrow> [] | Some T \<Rightarrow> T"
  obtain a where a: "solve_problem E def start = Inr a" using assms(1) by (auto simp: SolvePlanImpl_def Let_def bindE_Inr_iff)
  show ?thesis
  proof (cases a)
    case (UpdateFailed e)
    then show ?thesis using assms(1) a by (auto simp: SolvePlanImpl_def Let_def)
  next
    case (Updated r0 T arm d)
    note u = solve_problem_updated [OF a [unfolded Updated] assms(2)]
    show ?thesis using assms(1) a Updated u(1-3) with_active_ok [of E "def" "Some arm" r0 T]
      by (auto simp: SolvePlanImpl_def Let_def split: if_splits)
  next
    case (NewPath p active mn mx)
    show ?thesis
    proof (cases p)
      case (Inl e)
      then show ?thesis using assms(1) a NewPath by (auto simp: SolvePlanImpl_def Let_def)
    next
      case (Inr timed_path)
      let ?l = "latency_of E (dk_end (pe_drake E) (snd timed_path)) ?A now"
      obtain r0 T where t: "new_trajectory E timed_path (?A \<noteq> []) now ?l active = Inr (r0, T)"
          "(if ?A \<noteq> [] then with_active E def None r0 T ?A (Some ((case mn of None \<Rightarrow> 0 | Some t \<Rightarrow> t) + ?l)) (add_time mx ?l) now ?l elapsed
            else Inr (SetSuccessStatus kFull (SetSystemTimedTrajectory T r0))) = Inr r"
        using assms(1) a NewPath Inr by (auto simp: SolvePlanImpl_def Let_def bindE_Inr_iff)
      note n = new_trajectory_ok [OF t(1) assms(2)]
      show ?thesis
      proof (cases "?A \<noteq> []")
        case True
        then have "with_active E def None r0 T ?A (Some ((case mn of None \<Rightarrow> 0 | Some t \<Rightarrow> t) + ?l)) (add_time mx ?l) now ?l elapsed = Inr r"
          using t(2) by simp
        from with_active_ok [OF this n(1,2)] n show ?thesis by simp
      next
        case False
        then show ?thesis using t(2) n(1,2) by auto
      qed
    qed
  qed
qed

section \<open>Plans beside active trajectories\<close>

definition targets :: "plan_result \<Rightarrow> string \<Rightarrow> bool" where "targets r k \<longleftrightarrow> GetResourceResultType r k = kNewAndTargeted"

lemma targets_simps [simp]:
  "targets (SetResourceResultType k ty r) k' \<longleftrightarrow> (if k' = k then ty = kNewAndTargeted else targets r k')"
  "targets (SetSuccessStatus st r) = targets r" "targets (SetSystemTimedTrajectory T r) = targets r" "\<not> targets MotionPlanResult k"
  by (auto simp: targets_def GetResourceResultType_def SetResourceResultType_def SetSuccessStatus_def SetSystemTimedTrajectory_def MotionPlanResult_def)

lemma returned_stays: "foldE (active_step E now) A (Returned r) = Inr st \<Longrightarrow> st = Returned r"
  by (induction A) (auto simp: active_step_def)

lemma active_step_going:
  assumes "active_step E now (k, tr) (Going r T arms) = Inr (Going r' T' arms')" "\<forall>k. targets r k \<longrightarrow> map_of T k \<noteq> None"
  shows "\<forall>k. targets r' k \<longrightarrow> map_of T' k \<noteq> None" "\<forall>k'. targets r' k' \<longrightarrow> targets r k'" "k \<in> set (rb_names (pe_robot E)) \<Longrightarrow> \<not> targets r' k"
proof -
  have c: "k \<notin> set (rb_names (pe_robot E)) \<and> r' = r \<and> T' = T \<or> map_of T k = None \<and> r' = r \<and> T' = sys_put [(k, tr)] T
      \<or> GetResourceResultType r k = kUpdate \<and> r' = r \<and> T' = T
      \<or> r' = SetResourceResultType k kRunningNoUpdate r \<and> (T' = T \<or> (\<exists>s. T' = sys_put [(k, s)] T))"
    using assms(1) by (cases "GetResourceResultType r k") (auto simp: active_step_def Let_def bindE_Inr_iff split: if_splits)
  have put: "map_of T j \<noteq> None \<Longrightarrow> map_of (sys_put [(k, s)] T) j \<noteq> None" for j s by (auto simp: map_of_sys_put)
  have not: "\<not> targets r k" if "map_of T k = None \<or> GetResourceResultType r k = kUpdate" using that assms(2) by (auto simp: targets_def)
  show "\<forall>k. targets r' k \<longrightarrow> map_of T' k \<noteq> None" using c put assms(2) by (elim disjE conjE exE) auto
  show "\<forall>k'. targets r' k' \<longrightarrow> targets r k'" using c by (elim disjE conjE) auto
  show "k \<in> set (rb_names (pe_robot E)) \<Longrightarrow> \<not> targets r' k" using c not by (elim disjE conjE) auto
qed

lemma active_loop_targets:
  assumes "foldE (active_step E now) A (Going r T arms) = Inr (Going r' T' arms')" "\<forall>k. targets r k \<longrightarrow> map_of T k \<noteq> None"
  shows "(\<forall>k. targets r' k \<longrightarrow> targets r k) \<and> (\<forall>k tr. (k, tr) \<in> set A \<longrightarrow> k \<in> set (rb_names (pe_robot E)) \<longrightarrow> \<not> targets r' k)"
  using assms
proof (induction A arbitrary: r T arms)
  case (Cons x A)
  obtain k tr where x: "x = (k, tr)" by (cases x)
  obtain st where st: "active_step E now (k, tr) (Going r T arms) = Inr st" "foldE (active_step E now) A st = Inr (Going r' T' arms')"
    using Cons.prems(1) by (auto simp: x bindE_Inr_iff)
  obtain r1 T1 arms1 where g: "st = Going r1 T1 arms1" using returned_stays st(2) by (cases st) blast+
  note s = active_step_going [OF st(1) [unfolded g] Cons.prems(2)]
  have "(\<forall>k. targets r' k \<longrightarrow> targets r1 k) \<and> (\<forall>k tr. (k, tr) \<in> set A \<longrightarrow> k \<in> set (rb_names (pe_robot E)) \<longrightarrow> \<not> targets r' k)"
    using Cons.IH st(2) g s(1) by blast
  then show ?case using s(2,3) x by auto
qed simp

lemma new_targets: "new_trajectory E p async now latency active = Inr (r, T) \<Longrightarrow> targets r k \<Longrightarrow> map_of T k \<noteq> None"
proof -
  assume n: "new_trajectory E p async now latency active = Inr (r, T)" and k: "targets r k"
  have r: "foldE (set_new_type E active) T (SetSystemTimedTrajectory T MotionPlanResult) = Inr r"
    using n by (auto simp: new_trajectory_def bindE_Inr_iff Let_def SetResourcesFromNewResult_def)
  have "\<forall>k. targets r k \<longrightarrow> (\<exists>tr. (k, tr) \<in> set T)"
    by (rule foldE_invariant [OF r, where P = "\<lambda>r. \<forall>k. targets r k \<longrightarrow> (\<exists>tr. (k, tr) \<in> set T)"])
      (force simp: set_new_type_def bindE_Inr_iff split: if_splits)+
  then obtain tr where "(k, tr) \<in> set T" using k by blast
  then show ?thesis by (auto simp: map_of_eq_None_iff rev_image_eqI)
qed

text \<open>C14: A new plan that succeeds while other trajectories are active has no sampled collision between arms, targets no resource that
  is active, and stops short only if the problem allows it.\<close>

theorem async_plan_safe:
  assumes "SolvePlanImpl E def start (Some A) now elapsed = Inr r" "A \<noteq> []" "is_success r" "\<nexists>U. def = UpdateTrajTowardWaypoints U"
    "some_entity E"
  shows "samples_free E (system_timed_trajectory r) (async_collision_checking_time_step E)
    \<and> (\<forall>k tr. (k, tr) \<in> set A \<and> k \<in> set (rb_names (pe_robot E)) \<longrightarrow> GetResourceResultType r k \<noteq> kNewAndTargeted)
    \<and> (result_success r = kStoppedShort \<longrightarrow> allows_async_partial def)"
proof -
  obtain a where a: "solve_problem E def start = Inr a" using assms(1) by (auto simp: SolvePlanImpl_def Let_def bindE_Inr_iff)
  have fail: "\<not> is_success (SetMessage e (SetFailureStatus kGeneral MotionPlanResult))" for e by (simp add: SetMessage_def SetFailureStatus_def)
  obtain timed_path active mn mx where p: "a = NewPath (Inr timed_path) active mn mx"
  proof (cases a)
    case (NewPath p active mn mx)
    then show ?thesis using that assms(1,3) a fail by (cases p) (auto simp: SolvePlanImpl_def Let_def)
  next
    case (Updated r T arm d)
    then show ?thesis using solve_problem_updated(4) [OF a [unfolded Updated] assms(5)] assms(4) by blast
  next
    case (UpdateFailed e)
    then show ?thesis using assms(1,3) a fail by (auto simp: SolvePlanImpl_def Let_def)
  qed
  let ?l = "latency_of E (dk_end (pe_drake E) (snd timed_path)) A now"
  obtain r0 T where t: "new_trajectory E timed_path True now ?l active = Inr (r0, T)"
      "with_active E def None r0 T A (Some ((case mn of None \<Rightarrow> 0 | Some t \<Rightarrow> t) + ?l)) (add_time mx ?l) now ?l elapsed = Inr r"
    using assms(1,2) a p by (auto simp: SolvePlanImpl_def Let_def bindE_Inr_iff)
  note n = new_trajectory_ok [OF t(1) assms(5)]
  obtain st where st: "foldE (active_step E now) A (Going r0 T {}) = Inr st"
    using t(2) by (auto simp: with_active_def bindE_Inr_iff)
  have k: "(case st of Returned r \<Rightarrow> Inr r
       | Going r T arms \<Rightarrow> check_active E (allows_async_partial def) r T arms (Some ((case mn of None \<Rightarrow> 0 | Some t \<Rightarrow> t) + ?l)) (add_time mx ?l) ?l elapsed) = Inr r"
    using t(2) st by (cases st) (simp_all add: with_active_def)
  have "loop_ok (Going r0 T {})" using n by (simp add: loop_ok_def)
  then have ok: "loop_ok st" by (rule foldE_invariant [OF st]) (rule active_step_ok)
  obtain r1 T1 arms where g: "st = Going r1 T1 arms" using ok k assms(3) by (cases st) (auto simp: loop_ok_def)
  have tg: "\<forall>k tr. (k, tr) \<in> set A \<longrightarrow> k \<in> set (rb_names (pe_robot E)) \<longrightarrow> \<not> targets r1 k"
    using active_loop_targets [OF st [unfolded g]] new_targets [OF t(1)] by blast
  have ch: "check_active E (allows_async_partial def) r1 T1 arms (Some ((case mn of None \<Rightarrow> 0 | Some t \<Rightarrow> t) + ?l)) (add_time mx ?l) ?l elapsed = Inr r"
    using k g by simp
  have no: "\<not> is_success (failed_with st m r1)" if "st \<noteq> failure_kUndefined" for st m
    using that by (simp add: failed_with_def SetSystemTimedTrajectory_def SetFailureStatus_def SetMessage_def)
  obtain c where c: "TimeOfArmsCollision E T1 (async_collision_checking_time_step E) = Inr c"
    using ch by (auto simp: check_active_def Let_def bindE_Inr_iff)
  show ?thesis
  proof (cases c)
    case None
    then have "r = SetSuccessStatus kFull (SetSystemTimedTrajectory T1 r1)"
      using ch c no assms(3) by (auto simp: check_active_def Let_def split: if_splits)
    then show ?thesis using no_collision_free c None tg
      by (auto simp: targets_def [symmetric]) (simp_all add: SetSuccessStatus_def SetSystemTimedTrajectory_def)
  next
    case (Some u)
    then obtain T2 where b: "BestApproachTrajectory E T1 (filter (\<lambda>a. a \<notin> arms) [0..<length (pe_arms E)]) 10 (async_collision_checking_time_step E)
          (Some ((case mn of None \<Rightarrow> 0 | Some t \<Rightarrow> t) + ?l)) (add_time mx ?l) (partial_solution_time_buffer E) = Inr (Some T2)"
        "r = SetSuccessStatus kStoppedShort (SetSystemTimedTrajectory T2 r1)" "allows_async_partial def"
      using ch c no assms(3) by (auto simp: check_active_def Let_def bindE_Inr_iff split: if_splits option.splits)
    then have "TimeOfArmsCollision E T1 (async_collision_checking_time_step E) \<noteq> Inr None" using c Some by simp
    have "samples_free E T2 (async_collision_checking_time_step E)" by (rule best_approach_free [OF b(1)])
    then show ?thesis using b(2,3) tg by (auto simp: targets_def [symmetric]) (simp_all add: SetSuccessStatus_def SetSystemTimedTrajectory_def)
  qed
qed

section \<open>The active arm\<close>

text \<open>The arms that the frames and models of an update name, if all of them exist and every model is of an arm.\<close>

definition update_arms :: "('x, 'p, 'z) plan_env_scheme \<Rightarrow> 'x update_problem \<Rightarrow> nat set" where
  "update_arms E U = {a. (\<exists>p \<in> set (up_wayposes U). arm_of_frame E (frame_A p) = Inr (Some a) \<or> arm_of_frame E (frame_B p) = Inr (Some a))
     \<or> (\<exists>c \<in> set (up_waypoints U). \<exists>(k, _) \<in> set c. arm_of_model E k = Inr (Some a))}"

definition update_named :: "('x, 'p, 'z) plan_env_scheme \<Rightarrow> 'x update_problem \<Rightarrow> bool" where
  "update_named E U \<longleftrightarrow> (\<forall>p \<in> set (up_wayposes U). is_ok (arm_of_frame E (frame_A p)) \<and> is_ok (arm_of_frame E (frame_B p)))
     \<and> (\<forall>c \<in> set (up_waypoints U). \<forall>(k, _) \<in> set c. \<exists>a. arm_of_model E k = Inr (Some a))"

text \<open>The state of the search after the arms \<open>S\<close>.\<close>

definition claimed :: "nat set \<Rightarrow> nat option option \<Rightarrow> bool" where
  "claimed S st \<longleftrightarrow> (case st of None \<Rightarrow> \<exists>a \<in> S. \<exists>b \<in> S. a \<noteq> b | Some None \<Rightarrow> S = {} | Some (Some a) \<Rightarrow> S = {a})"

lemma claim_step: "claimed S st \<Longrightarrow> claimed (insert_arm arm S) (claim arm st)"
  by (auto simp: claimed_def claim_def insert_arm_def split: option.splits)

lemma claim_wayposes:
  assumes "\<forall>p \<in> set ps. is_ok (arm_of_frame E (frame_A p)) \<and> is_ok (arm_of_frame E (frame_B p))" "claimed S st"
  shows "\<exists>st'. foldE (claim_waypose E) ps st = Inr st'
    \<and> claimed (S \<union> {a. \<exists>p \<in> set ps. arm_of_frame E (frame_A p) = Inr (Some a) \<or> arm_of_frame E (frame_B p) = Inr (Some a)}) st'"
  using assms
proof (induction ps arbitrary: S st)
  case (Cons p ps)
  obtain a b where ab: "arm_of_frame E (frame_A p) = Inr a" "arm_of_frame E (frame_B p) = Inr b" using Cons.prems(1) by (auto simp: is_ok_iff)
  have eq: "claim_waypose E p st = Inr (claim b (claim a st))" by (simp add: claim_waypose_def ab claim_def)
  have "claimed (insert_arm b (insert_arm a S)) (claim b (claim a st))" by (intro claim_step Cons.prems(2))
  from Cons.IH [OF _ this] obtain st' where st': "foldE (claim_waypose E) ps (claim b (claim a st)) = Inr st'"
      "claimed (insert_arm b (insert_arm a S) \<union> {a. \<exists>p \<in> set ps. arm_of_frame E (frame_A p) = Inr (Some a) \<or> arm_of_frame E (frame_B p) = Inr (Some a)}) st'"
    using Cons.prems(1) by auto
  moreover have "insert_arm b (insert_arm a S) \<union> {a. \<exists>p \<in> set ps. arm_of_frame E (frame_A p) = Inr (Some a) \<or> arm_of_frame E (frame_B p) = Inr (Some a)}
      = S \<union> {a. \<exists>p \<in> set (p # ps). arm_of_frame E (frame_A p) = Inr (Some a) \<or> arm_of_frame E (frame_B p) = Inr (Some a)}"
    by (auto simp: ab insert_arm_def split: option.splits)
  ultimately show ?case using eq by auto
qed simp

lemma claim_models:
  assumes "\<forall>k \<in> set ks. \<exists>a. arm_of_model E k = Inr (Some a)" "claimed S st"
  shows "\<exists>st'. foldE (claim_model E) ks st = Inr st' \<and> claimed (S \<union> {a. \<exists>k \<in> set ks. arm_of_model E k = Inr (Some a)}) st'"
  using assms
proof (induction ks arbitrary: S st)
  case (Cons k ks)
  obtain a where a: "arm_of_model E k = Inr (Some a)" using Cons.prems(1) by auto
  have eq: "claim_model E k st = Inr (claim (Some a) st)" by (simp add: claim_model_def a demand_arm_def claim_def)
  have "claimed (insert_arm (Some a) S) (claim (Some a) st)" by (rule claim_step [OF Cons.prems(2)])
  from Cons.IH [OF _ this] obtain st' where st': "foldE (claim_model E) ks (claim (Some a) st) = Inr st'"
      "claimed (insert_arm (Some a) S \<union> {a. \<exists>k \<in> set ks. arm_of_model E k = Inr (Some a)}) st'"
    using Cons.prems(1) by auto
  moreover have "insert_arm (Some a) S \<union> {a. \<exists>k \<in> set ks. arm_of_model E k = Inr (Some a)} = S \<union> {a. \<exists>k \<in> set (k # ks). arm_of_model E k = Inr (Some a)}"
    by (auto simp: a insert_arm_def)
  ultimately show ?case using eq by auto
qed simp

text \<open>The active arm of an update is the arm that its frames and models name if there is one, no arm (but a value) if they name
  none, and nothing if they name several; a robot of one arm is always the active one.\<close>

theorem active_arm_found:
  assumes "update_named E U"
  shows "\<exists>r. FindActiveArmIndex E U = Inr r \<and> (case r of
      None \<Rightarrow> length (pe_arms E) \<noteq> 1 \<and> (\<exists>a \<in> update_arms E U. \<exists>b \<in> update_arms E U. a \<noteq> b)
    | Some None \<Rightarrow> length (pe_arms E) \<noteq> 1 \<and> update_arms E U = {}
    | Some (Some a) \<Rightarrow> if length (pe_arms E) = 1 then a = 0 else update_arms E U = {a})"
proof (cases "length (pe_arms E) = 1")
  case True
  then show ?thesis by (simp add: FindActiveArmIndex_def)
next
  case False
  have f: "\<forall>p \<in> set (up_wayposes U). is_ok (arm_of_frame E (frame_A p)) \<and> is_ok (arm_of_frame E (frame_B p))"
    and k: "\<forall>k \<in> set (concat (map (map fst) (up_waypoints U))). \<exists>a. arm_of_model E k = Inr (Some a)"
    using assms by (fastforce simp: update_named_def)+
  have "claimed {} (Some None)" by (simp add: claimed_def)
  from claim_wayposes [OF f this] obtain st where st: "foldE (claim_waypose E) (up_wayposes U) (Some None) = Inr st"
      "claimed {a. \<exists>p \<in> set (up_wayposes U). arm_of_frame E (frame_A p) = Inr (Some a) \<or> arm_of_frame E (frame_B p) = Inr (Some a)} st" by auto
  from claim_models [OF k st(2)] obtain st' where st': "foldE (claim_model E) (concat (map (map fst) (up_waypoints U))) st = Inr st'"
      "claimed ({a. \<exists>p \<in> set (up_wayposes U). arm_of_frame E (frame_A p) = Inr (Some a) \<or> arm_of_frame E (frame_B p) = Inr (Some a)}
        \<union> {a. \<exists>k \<in> set (concat (map (map fst) (up_waypoints U))). arm_of_model E k = Inr (Some a)}) st'" by auto
  have "({a. \<exists>p \<in> set (up_wayposes U). arm_of_frame E (frame_A p) = Inr (Some a) \<or> arm_of_frame E (frame_B p) = Inr (Some a)}
        \<union> {a. \<exists>k \<in> set (concat (map (map fst) (up_waypoints U))). arm_of_model E k = Inr (Some a)}) = update_arms E U"
    by (fastforce simp: update_arms_def)
  then have "claimed (update_arms E U) st'" using st'(2) by simp
  moreover have "FindActiveArmIndex E U = Inr st'" using False st(1) st'(1) by (simp add: FindActiveArmIndex_def)
  ultimately show ?thesis using False by (auto simp: claimed_def split: option.splits)
qed

section \<open>Times and constants\<close>

text \<open>New trajectories and sliced active ones are compared at the same local time, which for the new ones is later by the latency.\<close>

lemma compared_times_differ:
  assumes "new_trajectory E p async now latency active = Inr (r, T)" "some_entity E" "(k, tr) \<in> set T" "slice_active old now = Inr s"
  shows "tt_Value tr t = GlobalValue tr (now + latency + t)" "tt_Value s t = GlobalValue s (now + t)"
proof -
  have "tt_offset tr = now + latency" using new_trajectory_ok(4) [OF assms(1,2)] assms(3) by blast
  moreover have "tt_offset s = now" using assms(4) by (auto simp: slice_active_def Let_def bindE_Inr_iff SetGlobalTimeOffset_def split: if_splits)
  ultimately show "tt_Value tr t = GlobalValue tr (now + latency + t)" "tt_Value s t = GlobalValue s (now + t)" by (simp_all add: GlobalValue_def)
qed

text \<open>A trajectory that only begins in the future, as every new one does, cannot be cut at the present time.\<close>

lemma future_trajectory_throws: "now < global_start_time tr \<Longrightarrow> \<exists>e. slice_active tr now = Inl e"
  by (simp add: slice_active_def SliceFromTime_def global_start_time_def start_time_def)

text \<open>A path that comes back to where it was at every break is constant for the planner.\<close>

definition there_and_back :: piecewise where
  "there_and_back = \<lparr> pp_coefficients = [\<lparr> mx_rows = 1, mx_cols = [[0], [1], [-1]] \<rparr>], pp_breaks = [0, 1], pp_dim = 1, pp_degree = 2 \<rparr>"

lemma there_and_back_value: "0 \<le> t \<Longrightarrow> t \<le> 1 \<Longrightarrow> Value there_and_back t = Inr [t - t\<^sup>2]"
proof -
  assume t: "0 \<le> t" "t \<le> 1"
  have ok: "pp_ok there_and_back" by (simp add: pp_ok_def there_and_back_def mx_ok_def matrix_degree_def)
  have "in_segment there_and_back 0 t" by (simp add: in_segment_def there_and_back_def)
  from Value_eq [OF ok this] show ?thesis
    using t by (simp add: there_and_back_def poly_value_def vadd_def vscale_def pp_start_def pp_end_def clamp_inside upt_rec power2_eq_square)
qed

lemma constant_only_at_breaks: "IsConstant there_and_back default_tolerance = Inr True" "Value there_and_back (1 / 2) = Inr [1 / 4]"
  using there_and_back_value [of 0] there_and_back_value [of 1] there_and_back_value [of "1 / 2"]
  by (simp_all add: IsConstant_def) (simp_all add: there_and_back_def pp_start_def eigen_approx_def vnorm_def vminus_def power2_eq_square)

text \<open>When all trajectories of a plan for no arm in particular are constant, the operation reports a success without any
  trajectory, which the invariants of the result exclude.\<close>

theorem constant_plan_emptied:
  assumes "se_out_of_violation E x c = Inr (Inr p)" "new_trajectory E p False now (latency_of E (dk_end (pe_drake E) (snd p)) [] now) {} = Inr (r, T)"
    "\<forall>(k, tr) \<in> set T. IsConstant (tt_path tr) default_tolerance = Inr True"
  shows "\<exists>r'. SolvePlan E (Direct (OutOfViolation x)) (Some c) None now elapsed = Inr r' \<and> is_success r' \<and> system_timed_trajectory r' = []
    \<and> \<not> CheckInvariants r'"
proof -
  have impl: "SolvePlanImpl E (OutOfViolation x) (Some c) None now elapsed = Inr (SetSuccessStatus kFull (SetSystemTimedTrajectory T r))"
    using assms(1,2) by (simp add: SolvePlanImpl_def solve_problem_def need_start_def)
  have rT: "foldE (set_new_type E {}) T (SetSystemTimedTrajectory T MotionPlanResult) = Inr r"
    using assms(2) by (auto simp: new_trajectory_def bindE_Inr_iff Let_def SetResourcesFromNewResult_def)
  have "\<forall>k. \<not> changes_resource (GetResourceResultType r k)"
  proof (rule foldE_invariant [OF rT, where P = "\<lambda>r. \<forall>k. \<not> changes_resource (GetResourceResultType r k)"])
    show "\<forall>k. \<not> changes_resource (GetResourceResultType (SetSystemTimedTrajectory T MotionPlanResult) k)"
      by (simp add: changes_resource_def GetResourceResultType_def MotionPlanResult_def SetSystemTimedTrajectory_def)
  next
    fix y s s' assume y: "y \<in> set T" "\<forall>k. \<not> changes_resource (GetResourceResultType s k)" "set_new_type E {} y s = Inr s'"
    obtain k tr where k: "y = (k, tr)" "IsConstant (tt_path tr) default_tolerance = Inr True" using assms(3) y(1) by (cases y) auto
    then have "s' = SetResourceResultType k kEmpty s" using y(3) by (auto simp: set_new_type_def bindE_Inr_iff type_of_new_def)
    then show "\<forall>k. \<not> changes_resource (GetResourceResultType s' k)"
      using y(2) by (simp add: changes_resource_def GetResourceResultType_def SetResourceResultType_def)
  qed
  then have none: "\<forall>k. \<not> changes_resource (GetResourceResultType (SetSuccessStatus kFull (SetSystemTimedTrajectory T r)) k)"
    by (simp add: GetResourceResultType_def SetSuccessStatus_def SetSystemTimedTrajectory_def)
  show ?thesis
    using impl none by (intro exI [of _ "keep_changed (SetSuccessStatus kFull (SetSystemTimedTrajectory T r))"])
      (simp add: SolvePlan_def generalize_def keep_changed_def, simp add: SetSuccessStatus_def SetSystemTimedTrajectory_def CheckInvariants_def)
qed

section \<open>Examples\<close>

text \<open>The two robots of \<open>Arm_Collisions\<close>, with a spliner that only knows the first, whose path is the argument.\<close>

definition two_solver :: "piecewise \<Rightarrow> (real, curve, unit) solver_env" where
  "two_solver path = \<lparr> pe_planner = pe_planner two_env, pe_drake = sample_drake\<lparr> dk_hold := \<lambda>ts _. (hd ts, last ts, 1, \<lambda>_. []) \<rparr>,
     pe_arms = pe_arms two_env, pe_arms_collide = pe_arms_collide two_env, pe_slice = pe_slice two_env, pe_spliner_models = (\<lambda>_. [''left'']),
     pe_convert = pe_convert two_env, pe_entities = (\<lambda>_ _. [(''left'', path, line 1)]), pe_toppra = (\<lambda>_ _. None),
     se_zero_order_hold = (\<lambda>ts vs. Inr (hd ts, last ts, 1, \<lambda>_. hd vs)),
     se_out_of_violation = (\<lambda>_ _. Inr (Inr ((0, 1, 1, \<lambda>s. [s]), (0, 1, 1, \<lambda>t. [t])))), se_fixed_frames = (\<lambda>_ _. Inr (Inl ''no path'')),
     se_global_ik = (\<lambda>_. Inr (Inl ''no path'')), se_max_cartesian = (\<lambda>_ _ _ _. Inr (Inl ''no path'')), se_update = (\<lambda>_ _. Inr (Inl ''no path'')),
     async_collision_checking_time_step = 1, async_latency_check_per_call = 0, latency_comms = 1, partial_solution_time_buffer = 0 \<rparr>"

lemma two_solver_fields: "dr_robot (pe_planner (two_solver p)) = two_robots" "pe_arms_collide (two_solver p) = pe_arms_collide two_env"
  "pe_arms (two_solver p) = pe_arms two_env" "pe_entities (two_solver p) sp t = [(''left'', p, line 1)]" "async_collision_checking_time_step (two_solver p) = 1"
  "async_latency_check_per_call (two_solver p) = 0" "latency_comms (two_solver p) = 1"
  "se_out_of_violation (two_solver p) x c = Inr (Inr ((0, 1, 1, \<lambda>s. [s]), (0, 1, 1, \<lambda>t. [t])))" "some_entity (two_solver p)"
  by (simp_all add: two_solver_def some_entity_def) (simp_all add: two_env_def)

lemma two_model: "model_named two_robots ''left'' = Inr 2" "model_named two_robots ''right'' = Inr 3"
proof -
  have "[0..<length (rb_names two_robots)] = [0, 1, 2, 3]" by (simp add: two_positions upt_rec)
  then show "model_named two_robots ''left'' = Inr 2" "model_named two_robots ''right'' = Inr 3" by (simp_all add: model_named_def two_positions)
qed

lemma two_arm_index: "get_arm_index (pe_arms two_env) 2 = Some 0" "get_arm_index (pe_arms two_env) 3 = Some 1"
proof -
  have "[0..<length (pe_arms two_env)] = [0, 1]" "arm_instances (pe_arms two_env ! 0) = [2]" "arm_instances (pe_arms two_env ! Suc 0) = [3]"
    by (simp_all add: two_env_def upt_rec)
  then show "get_arm_index (pe_arms two_env) 2 = Some 0" "get_arm_index (pe_arms two_env) 3 = Some 1" by (simp_all add: get_arm_index_def)
qed

lemma left_arm: "arm_of_model (two_solver p) ''left'' = Inr (Some 0)" "arm_of_model (two_solver p) ''right'' = Inr (Some 1)"
  by (simp_all add: arm_of_model_def two_solver_fields two_model two_arm_index)

lemma left_trajectory:
  assumes "path = line 1 \<or> path = there_and_back"
  shows "ToSystemTimedTrajectory (two_solver path) None t = Inr [(''left'', \<lparr> tt_path = path, tt_scaling = line 1, tt_offset = 0 \<rparr>)]"
proof -
  have "pp_start path = 0" "pp_end path = 1" using assms by (auto simp: line_ok) (simp_all add: there_and_back_def pp_start_def pp_end_def)
  then have "TimedTrajectory path (line 1) 0 = Inr \<lparr> tt_path = path, tt_scaling = line 1, tt_offset = 0 \<rparr>"
    by (simp add: TimedTrajectory_def line_ok s_of_def line_value front_def clamp_def IsApprox_def)
  then show ?thesis by (simp add: ToSystemTimedTrajectory_def two_solver_fields)
qed

lemma line_not_constant: "IsConstant (line 1) default_tolerance = Inr False"
proof -
  have "tl (pp_breaks (line 1)) = [1]" by (simp add: line_def)
  then show ?thesis by (simp add: IsConstant_def line_value line_ok clamp_def eigen_approx_def vnorm_def vminus_def)
qed

abbreviation left_at :: "piecewise \<Rightarrow> real \<Rightarrow> sys_traj" where
  "left_at path d \<equiv> [(''left'', \<lparr> tt_path = path, tt_scaling = line 1, tt_offset = d \<rparr>)]"

lemma left_new:
  assumes "path = line 1 \<or> path = there_and_back" "IsConstant path default_tolerance = Inr c"
    "(if async then PrependTrajectoryWithConstant (two_solver path) t 0 latency else Inr t) = Inr t'"
  shows "new_trajectory (two_solver path) t async now latency {}
    = Inr (SetResourceResultType ''left'' (type_of_new False c) (SetSystemTimedTrajectory (left_at path (now + latency)) MotionPlanResult), left_at path (now + latency))"
  using assms(2,3) by (simp add: new_trajectory_def left_trajectory [OF assms(1)] SetResourcesFromNewResult_def set_new_type_def left_arm demand_arm_def
    SetGlobalTimeOffset_def Let_def)

lemma two_latency: "latency_of (two_solver p) d A now = 1"
  by (simp add: latency_of_def CalcLatencyTime_def two_solver_fields)

theorem plan_result_consistent_witness:
  "\<exists>r. SolvePlanImpl (two_solver (line 1)) (OutOfViolation ()) (Some []) None 0 0 = Inr r \<and> is_success r \<and> CheckInvariants r"
proof -
  have "\<exists>r. SolvePlanImpl (two_solver (line 1)) (OutOfViolation ()) (Some []) None 0 0 = Inr r \<and> is_success r"
    using left_new [of "line 1" False False] line_not_constant
    by (simp add: SolvePlanImpl_def solve_problem_def need_start_def two_solver_fields two_latency SetSuccessStatus_def)
  then show ?thesis using plan_result_consistent two_solver_fields(9) by blast
qed

lemma left_beside_right:
  "SolvePlanImpl (two_solver (line 1)) (OutOfViolation ()) (Some []) (Some [(''right'', timed_line 2)]) (-1) 0
    = Inr (SetSuccessStatus kFull (SetSystemTimedTrajectory (both 1)
        (SetResourceResultType ''left'' kNewNotTargeted (SetSystemTimedTrajectory [(''left'', timed_line 1)] MotionPlanResult))))"
proof -
  let ?E = "two_solver (line 1)"
  let ?p = "((0, 1, 1, \<lambda>s. [s]), (0, 1, 1, \<lambda>t. [t])) :: curve \<times> curve"
  obtain p' where "PrependTrajectoryWithConstant ?E ?p 0 1 = Inr p'"
    by (simp add: PrependTrajectoryWithConstant_def MakeUniformTimingForPath_def Let_def two_solver_def sample_drake_def curve_value_def)
  then have n: "new_trajectory ?E ?p True (-1) 1 {}
      = Inr (SetResourceResultType ''left'' kNewNotTargeted (SetSystemTimedTrajectory (left_at (line 1) 0) MotionPlanResult), left_at (line 1) 0)"
    using left_new [of "line 1" False True ?p 1 p' "-1"] line_not_constant by (simp add: type_of_new_def)
  have "TimeOfArmsCollision two_env (both 1) 1 = Inr None"
    by (simp add: TimeOfArmsCollision_def both_now both_final two_collide collision_scan.simps clamp_def)
  then have c: "TimeOfArmsCollision ?E (both 1) 1 = Inr None"
    by (simp add: TimeOfArmsCollision_def arms_collide_in_def [abs_def] two_solver_fields two_planner)
  have l: "left_at (line 1) 0 = [(''left'', timed_line 1)]" by (simp add: timed_line_def)
  have "active_step ?E (-1) (''right'', timed_line 2) (Going r (left_at (line 1) 0) {}) = Inr (Going r (both 1) {1})" for r
    by (simp add: active_step_def two_solver_fields two_positions left_arm demand_arm_def l sys_put_def)
  then show ?thesis
    using n c l by (simp add: SolvePlanImpl_def solve_problem_def need_start_def two_solver_fields two_latency with_active_def check_active_def Let_def)
qed

theorem async_plan_safe_witness:
  "\<exists>r. SolvePlanImpl (two_solver (line 1)) (OutOfViolation ()) (Some []) (Some [(''right'', timed_line 2)]) (-1) 0 = Inr r
    \<and> samples_free (two_solver (line 1)) (system_timed_trajectory r) 1 \<and> GetResourceResultType r ''right'' \<noteq> kNewAndTargeted"
proof -
  note s = left_beside_right
  have "is_success (SetSuccessStatus kFull r)" for r by (simp add: SetSuccessStatus_def)
  from async_plan_safe [OF s _ this _ two_solver_fields(9)] show ?thesis using s by (auto simp: two_solver_fields two_positions)
qed

theorem active_arm_found_witness:
  "FindActiveArmIndex (two_solver (line 1)) \<lparr> up_current = [], up_wayposes = [], up_waypoints = [[(''right'', [0])]] \<rparr> = Inr (Some (Some 1))
    \<and> update_arms (two_solver (line 1)) \<lparr> up_current = [], up_wayposes = [], up_waypoints = [[(''right'', [0])]] \<rparr> = {1}"
proof -
  let ?U = "\<lparr> up_current = [], up_wayposes = [], up_waypoints = [[(''right'', [0])]] \<rparr> :: real update_problem"
  have "update_named (two_solver (line 1)) ?U" by (simp add: update_named_def left_arm)
  note r = active_arm_found [OF this]
  have a: "length (pe_arms (two_solver (line 1))) = 2" by (simp add: two_solver_fields) (simp add: two_env_def)
  then have "FindActiveArmIndex (two_solver (line 1)) ?U = Inr (Some (Some 1))"
    by (simp add: FindActiveArmIndex_def claim_model_def left_arm demand_arm_def claim_def)
  then show ?thesis using r a by auto
qed

theorem constant_plan_emptied_witness:
  "\<exists>r. SolvePlan (two_solver there_and_back) (Direct (OutOfViolation ())) (Some []) None 0 0 = Inr r \<and> is_success r \<and> system_timed_trajectory r = []"
proof -
  let ?p = "((0, 1, 1, \<lambda>s. [s]), (0, 1, 1, \<lambda>t. [t])) :: curve \<times> curve"
  note n = left_new [of there_and_back True False ?p 1 ?p 0, OF disjI2 [OF refl] constant_only_at_breaks(1)]
  show ?thesis
    using constant_plan_emptied [of "two_solver there_and_back" "()" "[]" ?p 0] n
    by (auto simp: two_solver_fields two_latency constant_only_at_breaks(1))
qed

end
