(* ===== verification/Robot_Constraints.thy ===== *)
theory Robot_Constraints
  imports Anchor_Sequences Timed_Trajectories Constraint_Adapters
begin

text \<open>
  \<open>motion/robot_constraints.cc\<close>: whether configurations, edges and trajectories satisfy the constraints of a robot, and the penalty of a
  configuration.  A constraint other than collisions is the record \<open>nc_constraint\<close>: Drake evaluates it (\<open>nc_eval\<close>), and a bound of
  \<open>None\<close> is infinite.  Drake's collision checker is the record \<open>collision_checker\<close>.  A penalty is a real or not a number, \<open>None\<close>.
  Each thread has its own contexts and all give the same answers, so a thread number is only checked.  The loop of OpenMP runs under a
  schedule: the list of the iterations that take their next step, so that every interleaving is one.  Logging and Meshcat are left out.
\<close>

section \<open>Penalties\<close>

definition MakePenaltyFunc :: "penalty_params \<Rightarrow> real \<Rightarrow> real" where
  "MakePenaltyFunc p x = (if x > mv_x0 p then 0
     else mv_m p * (exp (- mv_gamma p * x) - exp (- mv_gamma p * mv_x0 p)) / (1 - exp (- mv_gamma p * mv_x0 p)))"

text \<open>Numbers that may not be one.\<close>

type_synonym nan_real = "real option"

definition nan_add :: "nan_real \<Rightarrow> nan_real \<Rightarrow> nan_real" where
  "nan_add x y = (case x of None \<Rightarrow> None | Some a \<Rightarrow> map_option ((+) a) y)"

definition nan_sum :: "nan_real list \<Rightarrow> nan_real" where "nan_sum xs = fold (\<lambda>x s. nan_add s x) xs (Some 0)"

definition acos :: "real \<Rightarrow> nan_real" where "acos x = (if -1 \<le> x \<and> x \<le> 1 then Some (arccos x) else None)"

text \<open>The penalty at a distance from a bound; that from an infinite bound is beyond every influence.\<close>

definition bound_penalty :: "penalty_params \<Rightarrow> real option \<Rightarrow> real" where
  "bound_penalty p d = (case d of None \<Rightarrow> 0 | Some d \<Rightarrow> MakePenaltyFunc p d)"

definition over_lower :: "real \<Rightarrow> real option \<Rightarrow> real option" where "over_lower x lo = map_option (\<lambda>l. x - l) lo"

definition under_upper :: "real \<Rightarrow> real option \<Rightarrow> real option" where "under_upper x hi = map_option (\<lambda>u. u - x) hi"

definition MakePositionPenaltyFunc :: "penalty_params \<Rightarrow> real option list \<Rightarrow> real option list \<Rightarrow> (real list \<Rightarrow> nan_real throws) throws" where
  "MakePositionPenaltyFunc p lower upper = (if length lower \<noteq> length upper then Inl ''DRAKE_DEMAND(lower_bound.size() == upper_bound.size())''
     else Inr (\<lambda>out. if length out \<noteq> length lower then Inl ''DRAKE_DEMAND(output.size() == lower_bound.size())''
       else Inr (Some (\<Sum>i \<leftarrow> [0..<length out]. bound_penalty p (over_lower (out ! i) (lower ! i)) + bound_penalty p (under_upper (out ! i) (upper ! i))))))"

definition nan_penalty :: "penalty_params \<Rightarrow> nan_real \<Rightarrow> nan_real \<Rightarrow> nan_real" where
  "nan_penalty p x y = (case (x, y) of (Some a, Some b) \<Rightarrow> Some (MakePenaltyFunc p (a - b)) | _ \<Rightarrow> None)"

definition MakeAnglePenaltyFunc :: "penalty_params \<Rightarrow> real \<Rightarrow> real \<Rightarrow> real list \<Rightarrow> nan_real throws" where
  "MakeAnglePenaltyFunc p lower upper out = (if length out \<noteq> 1 then Inl ''DRAKE_DEMAND(output.size() == 1)''
     else Inr (nan_add (nan_penalty p (acos (out ! 0)) (acos upper)) (nan_penalty p (acos lower) (acos (out ! 0)))))"

section \<open>The constraints\<close>

record nc_constraint =
  nc_description :: string
  nc_eval :: "conf \<Rightarrow> real list"
  nc_lower :: "real option list"
  nc_upper :: "real option list"
  nc_penalty :: "real list \<Rightarrow> nan_real throws"
  nc_gradient :: "conf \<Rightarrow> real list list"

record collision_row =
  cl_robot :: nat
  cl_other :: nat
  cl_distance :: real
  cl_jacobian :: "real list"

record collision_checker =
  ck_free :: "conf \<Rightarrow> bool"
  ck_clearance :: "conf \<Rightarrow> real \<Rightarrow> collision_row list"

record robot_constraints =
  rc_robot :: robot
  rc_hm :: holonomic_mapping
  rc_arms :: "arm list"
  rc_body_model :: "nat \<Rightarrow> nat"
  rc_threads :: nat
  rc_constraints :: "nc_constraint list"
  rc_checker :: "collision_checker option"
  rc_collision_params :: penalty_params
  rc_describe :: "collision_row list \<Rightarrow> string"

text \<open>Drake's check of a constraint, up to the tolerance.\<close>

definition in_bounds :: "real \<Rightarrow> nc_constraint \<Rightarrow> real list \<Rightarrow> bool" where
  "in_bounds tol c out = list_all (\<lambda>i.
      (case nc_lower c ! i of None \<Rightarrow> True | Some l \<Rightarrow> l - tol \<le> out ! i) \<and> (case nc_upper c ! i of None \<Rightarrow> True | Some u \<Rightarrow> out ! i \<le> u + tol))
    [0..<length out]"

definition nc_satisfied :: "real \<Rightarrow> nc_constraint \<Rightarrow> conf \<Rightarrow> bool" where "nc_satisfied tol c x = in_bounds tol c (nc_eval c x)"

section \<open>One configuration\<close>

record check_options =
  co_parallel :: bool
  co_verbose :: bool
  co_threads :: nat
  co_tolerance :: real
  co_penalty :: bool
  co_models :: bool
  co_strings :: bool

definition CheckSatisfiedOptions :: "nat \<Rightarrow> check_options" where
  "CheckSatisfiedOptions hardware = \<lparr> co_parallel = True, co_verbose = False, co_threads = hardware, co_tolerance = 1 / 1000,
     co_penalty = False, co_models = False, co_strings = False \<rparr>"

record check_result =
  cr_satisfied :: bool
  cr_penalty :: "nan_real option"
  cr_failed :: "string list option"
  cr_models :: "string list option"

definition CheckSatisfiedResult :: "bool \<Rightarrow> check_result" where
  "CheckSatisfiedResult b = \<lparr> cr_satisfied = b, cr_penalty = None, cr_failed = None, cr_models = None \<rparr>"

definition fail_fast :: "check_options \<Rightarrow> bool" where
  "fail_fast opt \<longleftrightarrow> \<not> (co_models opt \<or> co_strings opt \<or> co_verbose opt \<or> co_penalty opt)"

definition start_result :: "check_options \<Rightarrow> check_result" where
  "start_result opt = \<lparr> cr_satisfied = True, cr_penalty = (if co_penalty opt then Some (Some 0) else None),
     cr_failed = (if co_strings opt then Some [] else None), cr_models = (if co_models opt then Some [] else None) \<rparr>"

definition add_satisfied :: "bool \<Rightarrow> check_result \<Rightarrow> check_result" where "add_satisfied b r = r\<lparr> cr_satisfied := cr_satisfied r \<and> b \<rparr>"

definition add_penalty :: "nan_real \<Rightarrow> check_result \<Rightarrow> check_result" where "add_penalty x r = r\<lparr> cr_penalty := map_option (\<lambda>p. nan_add p x) (cr_penalty r) \<rparr>"

definition add_failed :: "string list \<Rightarrow> check_result \<Rightarrow> check_result" where "add_failed xs r = r\<lparr> cr_failed := map_option (\<lambda>ys. ys @ xs) (cr_failed r) \<rparr>"

text \<open>The names are a \<open>std::set\<close>: sorted, without duplicates.\<close>

definition add_models :: "string list \<Rightarrow> check_result \<Rightarrow> check_result" where
  "add_models xs r = r\<lparr> cr_models := map_option (fold insort_insert xs) (cr_models r) \<rparr>"

text \<open>The models with positions whose name occurs in a text.\<close>

definition moving :: "robot_constraints \<Rightarrow> nat \<Rightarrow> bool" where "moving R i \<longleftrightarrow> instance_dim (rb_plant (rc_robot R)) i > 0"

definition model_name_of :: "robot_constraints \<Rightarrow> nat \<Rightarrow> string" where "model_name_of R i = rb_names (rc_robot R) ! i"

definition models_named_in :: "robot_constraints \<Rightarrow> string \<Rightarrow> string list" where
  "models_named_in R txt = map (model_name_of R) (filter (\<lambda>i. moving R i \<and> sublist (model_name_of R i) txt) (instances (rc_robot R)))"

text \<open>The loop over the constraints; the flag says that it returned.\<close>

fun check_loop :: "robot_constraints \<Rightarrow> check_options \<Rightarrow> conf \<Rightarrow> nc_constraint list \<Rightarrow> check_result \<Rightarrow> (bool \<times> check_result) throws" where
  "check_loop R opt x [] r = Inr (False, r)"
| "check_loop R opt x (c # cs) r = (let ok = nc_satisfied (co_tolerance opt) c x; r = add_satisfied ok r in
     bindE (if co_penalty opt then bindE (nc_penalty c (nc_eval c x)) (\<lambda>p. Inr (add_penalty p r)) else Inr r) (\<lambda>r.
       if ok then check_loop R opt x cs r
       else if fail_fast opt then Inr (True, CheckSatisfiedResult False)
       else check_loop R opt x cs (add_models (models_named_in R (nc_description c)) (add_failed [nc_description c] r))))"

text \<open>The models of the bodies that penetrate each other.\<close>

definition models_in_collision :: "robot_constraints \<Rightarrow> collision_row list \<Rightarrow> string list" where
  "models_in_collision R cl = concat (map (\<lambda>w. if cl_distance w < 0
       then map (model_name_of R) (filter (moving R) [rc_body_model R (cl_robot w), rc_body_model R (cl_other w)]) else []) cl)"

definition collision_penalties :: "robot_constraints \<Rightarrow> collision_row list \<Rightarrow> nan_real list" where
  "collision_penalties R cl = map (\<lambda>w. Some (MakePenaltyFunc (rc_collision_params R) (cl_distance w))) cl"

definition check_collisions :: "robot_constraints \<Rightarrow> check_options \<Rightarrow> conf \<Rightarrow> check_result \<Rightarrow> check_result" where
  "check_collisions R opt x r = (case rc_checker R of None \<Rightarrow> r
     | Some ck \<Rightarrow> let free = ck_free ck x; r = add_satisfied free r;
           detail = (\<not> free \<and> (co_verbose opt \<or> co_strings opt \<or> co_models opt));
           r = (if detail \<or> co_penalty opt then
                 let cl = ck_clearance ck x (if co_penalty opt then mv_x0 (rc_collision_params R) else 0);
                     r = (if free then r else add_models (models_in_collision R cl) (add_failed [rc_describe R cl] r))
                 in if co_penalty opt then fold add_penalty (collision_penalties R cl) r else r
               else r)
       in if \<not> free \<and> fail_fast opt then CheckSatisfiedResult False else r)"

text \<open>The positions with the mimicking joints, after the checks that every operation begins with.\<close>

definition lifted :: "robot_constraints \<Rightarrow> nat \<Rightarrow> conf \<Rightarrow> conf throws" where
  "lifted R thread q = (if \<not> thread < rc_threads R \<or> length q \<noteq> hm_m (rc_hm R) then Inl drake_throw else Lift (rc_hm R) q)"

definition CheckSatisfied :: "robot_constraints \<Rightarrow> conf \<Rightarrow> nat \<Rightarrow> check_options \<Rightarrow> check_result throws" where
  "CheckSatisfied R q thread opt = bindE (lifted R thread q) (\<lambda>x.
     bindE (check_loop R opt x (rc_constraints R) (start_result opt)) (\<lambda>(returned, r).
       Inr (if returned then r else check_collisions R opt x r)))"

definition in_bounds_exactly :: "nc_constraint \<Rightarrow> real list \<Rightarrow> bool" where "in_bounds_exactly = in_bounds 0"

definition CalcPenalty :: "robot_constraints \<Rightarrow> conf \<Rightarrow> nat \<Rightarrow> (nan_real \<times> bool) throws" where
  "CalcPenalty R q thread = bindE (lifted R thread q) (\<lambda>x.
     bindE (foldE (\<lambda>c (p, v). bindE (nc_penalty c (nc_eval c x)) (\<lambda>p'. Inr (nan_add p p', v \<and> in_bounds_exactly c (nc_eval c x))))
       (rc_constraints R) (Some 0, True)) (\<lambda>(p, v).
     Inr (case rc_checker R of None \<Rightarrow> (p, v)
       | Some ck \<Rightarrow> let cl = ck_clearance ck x (mv_x0 (rc_collision_params R)) in
           (fold (\<lambda>p' p. nan_add p p') (collision_penalties R cl) p, v \<and> list_all (\<lambda>w. \<not> cl_distance w < 0) cl))))"

section \<open>Many configurations\<close>

text \<open>The loop of OpenMP: each iteration reads the flag, then either gives up or checks its configuration and clears the flag if
  that fails.  An exception ends the process.\<close>

datatype omp_pc = Waiting | Checking | Finished

record omp_state =
  om_pc :: "nat \<Rightarrow> omp_pc"
  om_valid :: bool
  om_terminated :: bool

definition omp_init :: omp_state where "omp_init = \<lparr> om_pc = (\<lambda>_. Waiting), om_valid = True, om_terminated = False \<rparr>"

definition omp_next :: "(nat \<Rightarrow> bool throws) \<Rightarrow> nat \<Rightarrow> omp_state \<Rightarrow> omp_state" where
  "omp_next check i s = (case om_pc s i of
       Waiting \<Rightarrow> s\<lparr> om_pc := (om_pc s)(i := if om_valid s then Checking else Finished) \<rparr>
     | Checking \<Rightarrow> (case check i of
           Inl e \<Rightarrow> s\<lparr> om_pc := (om_pc s)(i := Finished), om_terminated := True \<rparr>
         | Inr b \<Rightarrow> s\<lparr> om_pc := (om_pc s)(i := Finished), om_valid := om_valid s \<and> b \<rparr>)
     | Finished \<Rightarrow> s)"

definition omp_run :: "(nat \<Rightarrow> bool throws) \<Rightarrow> nat list \<Rightarrow> omp_state" where "omp_run check sched = fold (omp_next check) sched omp_init"

text \<open>A schedule that lets each of \<open>n\<close> iterations take both of its steps.\<close>

definition complete_schedule :: "nat \<Rightarrow> nat list \<Rightarrow> bool" where
  "complete_schedule n sched \<longleftrightarrow> set sched \<subseteq> {..<n} \<and> (\<forall>i < n. count_list sched i \<ge> 2)"

text \<open>Each thread number is below the minimum of the threads asked for and of those there are.\<close>

definition check_parallel :: "robot_constraints \<Rightarrow> conf list \<Rightarrow> check_options \<Rightarrow> (nat \<Rightarrow> nat) \<Rightarrow> nat list \<Rightarrow> check_result throws" where
  "check_parallel R qs opt thread_of sched =
     (let s = omp_run (\<lambda>i. bindE (CheckSatisfied R (qs ! i) (thread_of i mod min (co_threads opt) (rc_threads R)) opt) (\<lambda>r. Inr (cr_satisfied r))) sched in
      if om_terminated s then Inl ''std::terminate'' else Inr (CheckSatisfiedResult (om_valid s)))"

definition merge_result :: "check_result \<Rightarrow> check_result \<Rightarrow> check_result" where
  "merge_result x r = (let r = add_satisfied (cr_satisfied x) r;
       r = (case cr_failed x of None \<Rightarrow> r | Some xs \<Rightarrow> add_failed xs r);
       r = (case cr_models x of None \<Rightarrow> r | Some xs \<Rightarrow> add_models xs r)
     in (case cr_penalty x of None \<Rightarrow> r | Some p \<Rightarrow> add_penalty p r))"

fun check_in_order :: "robot_constraints \<Rightarrow> check_options \<Rightarrow> conf list \<Rightarrow> check_result \<Rightarrow> check_result throws" where
  "check_in_order R opt [] r = Inr r"
| "check_in_order R opt (q # qs) r = bindE (CheckSatisfied R q 0 opt) (\<lambda>x. let r = merge_result x r in
     if \<not> cr_satisfied r \<and> fail_fast opt then Inr r else check_in_order R opt qs r)"

definition CheckSatisfiedVec :: "robot_constraints \<Rightarrow> conf list \<Rightarrow> check_options \<Rightarrow> (nat \<Rightarrow> nat) \<Rightarrow> nat list \<Rightarrow> check_result throws" where
  "CheckSatisfiedVec R qs opt thread_of sched = (if co_parallel opt \<and> fail_fast opt then check_parallel R qs opt thread_of sched
     else check_in_order R opt qs (start_result opt))"

section \<open>Edges and trajectories\<close>

definition between :: "conf \<Rightarrow> conf \<Rightarrow> real \<Rightarrow> conf" where "between q1 q2 c = vadd (vscale (1 - c) q1) (vscale c q2)"

definition edge_samples :: "conf \<Rightarrow> conf \<Rightarrow> real \<Rightarrow> conf list" where
  "edge_samples q1 q2 step = (let d = vnorm (vminus q1 q2) in if d < step then [q1, q2]
     else let n = nat \<lceil>d / step\<rceil> + 1 in map (\<lambda>i. between q1 q2 (real i / real (n - 1))) [0..<n])"

definition CheckSatisfiedEdge :: "robot_constraints \<Rightarrow> conf \<Rightarrow> conf \<Rightarrow> real \<Rightarrow> check_options \<Rightarrow> (nat \<Rightarrow> nat) \<Rightarrow> nat list \<Rightarrow> check_result throws" where
  "CheckSatisfiedEdge R q1 q2 step opt thread_of sched = (if \<not> step > 0 then Inl ''DRAKE_DEMAND(step > 0)''
     else CheckSatisfiedVec R (edge_samples q1 q2 step) opt thread_of sched)"

text \<open>A trajectory is its value at a time and its end.\<close>

function sample_times :: "real \<Rightarrow> real \<Rightarrow> real \<Rightarrow> real list" where
  "sample_times t end_t step = (if 0 < step \<and> t < end_t then t # sample_times (t + step) end_t step else [])"
  by pat_completeness auto
termination sample_times
proof (relation "measure (\<lambda>(t, end_t, step). nat (\<lceil>(end_t - t) / step\<rceil>))", goal_cases)
  case (2 t end_t step)
  have "0 < \<lceil>(end_t - t) / step\<rceil>" using 2 by (simp add: zero_less_ceiling)
  moreover have "(end_t - (t + step)) / step = (end_t - t) / step - 1" using 2 by (simp add: field_simps)
  ultimately show ?case by simp
qed simp

declare sample_times.simps [simp del]

definition CheckSatisfiedTrajectory :: "robot_constraints \<Rightarrow> (real \<Rightarrow> conf) \<Rightarrow> real \<Rightarrow> real \<Rightarrow> check_options \<Rightarrow> (nat \<Rightarrow> nat) \<Rightarrow> nat list
    \<Rightarrow> check_result throws" where
  "CheckSatisfiedTrajectory R traj end_t step opt thread_of sched = (if \<not> step > 0 then Inl ''DRAKE_DEMAND(step > 0)''
     else CheckSatisfiedVec R (map traj (sample_times 0 end_t step)) opt thread_of sched)"

section \<open>Penalties of many configurations\<close>

datatype penalty_aggregation = kSum | kMax

definition CalcPenaltyVec :: "robot_constraints \<Rightarrow> conf list \<Rightarrow> (nan_real list \<times> bool) throws" where
  "CalcPenaltyVec R qs = bindE (mapE (\<lambda>q. CalcPenalty R q 0) qs) (\<lambda>rs. Inr (map fst rs, list_all snd rs))"

text \<open>The maximum as the library computes it: a comparison with a value that is not a number fails.\<close>

definition nan_less :: "nan_real \<Rightarrow> nan_real \<Rightarrow> bool" where
  "nan_less x y = (case (x, y) of (Some a, Some b) \<Rightarrow> a < b | _ \<Rightarrow> False)"

definition max_element :: "nan_real list \<Rightarrow> nan_real" where
  "max_element xs = fold (\<lambda>x m. if nan_less m x then x else m) (tl xs) (hd xs)"

definition CalcPenaltyVecAggregated :: "robot_constraints \<Rightarrow> conf list \<Rightarrow> penalty_aggregation \<Rightarrow> (nan_real \<times> bool) throws" where
  "CalcPenaltyVecAggregated R qs agg = bindE (CalcPenaltyVec R qs) (\<lambda>(ps, v). Inr (if ps = [] then (Some 0, v)
     else case agg of kSum \<Rightarrow> (nan_sum ps, v) | kMax \<Rightarrow> (max_element ps, v)))"

section \<open>Collisions\<close>

definition CalcRobotClearance :: "robot_constraints \<Rightarrow> conf \<Rightarrow> nat \<Rightarrow> collision_row list throws" where
  "CalcRobotClearance R q thread = (case rc_checker R of None \<Rightarrow> Inr []
     | Some ck \<Rightarrow> bindE (lifted R thread q) (\<lambda>x. Inr (ck_clearance ck x 0)))"

definition arm_of_body :: "robot_constraints \<Rightarrow> nat \<Rightarrow> nat option" where "arm_of_body R b = get_arm_index (rc_arms R) (rc_body_model R b)"

definition collision_kind :: "robot_constraints \<Rightarrow> collision_row \<Rightarrow> collision_type throws" where
  "collision_kind R w = (case (arm_of_body R (cl_robot w), arm_of_body R (cl_other w)) of
       (Some a, Some b) \<Rightarrow> Inr (if a = b then kArmSelfOnly else kAcrossArmsOnly)
     | (None, None) \<Rightarrow> Inl ''RobotConstraints:ClassifyCollisions: collision between two non-arm bodies detected, which should not be possible.''
     | _ \<Rightarrow> Inr kArmEnvOnly)"

fun classify_rows :: "robot_constraints \<Rightarrow> collision_row list \<Rightarrow> collision_type option \<Rightarrow> collision_type throws" where
  "classify_rows R [] so_far = (case so_far of None \<Rightarrow> Inl ''DRAKE_DEMAND(collision_type_so_far.has_value())'' | Some k \<Rightarrow> Inr k)"
| "classify_rows R (w # ws) so_far = bindE (collision_kind R w) (\<lambda>k.
     if so_far \<noteq> None \<and> so_far \<noteq> Some k then Inr kMixed else classify_rows R ws (Some k))"

definition ClassifyCollisions :: "robot_constraints \<Rightarrow> collision_row list \<Rightarrow> collision_type throws" where
  "ClassifyCollisions R cl = (if cl = [] then Inr kNone else classify_rows R cl None)"

definition CalcAndClassifyCollisions :: "robot_constraints \<Rightarrow> conf \<Rightarrow> nat \<Rightarrow> collision_type throws" where
  "CalcAndClassifyCollisions R q thread = (if rc_checker R = None then Inr kNone
     else if \<not> thread < rc_threads R then Inl drake_throw
     else bindE (CalcRobotClearance R q thread) (ClassifyCollisions R))"

definition DoArmsCollide :: "robot_constraints \<Rightarrow> conf \<Rightarrow> nat \<Rightarrow> bool throws" where
  "DoArmsCollide R q thread = (if rc_checker R = None then Inl drake_throw
     else bindE (CalcRobotClearance R q thread) (\<lambda>cl. Inr (list_ex (\<lambda>w. case (arm_of_body R (cl_robot w), arm_of_body R (cl_other w)) of
         (Some a, Some b) \<Rightarrow> a \<noteq> b | _ \<Rightarrow> False) cl)))"

section \<open>The constructor\<close>

text \<open>Drake's limits of the positions; the indices of the continuous joints are those of the robot.\<close>

definition option_system_conf :: "robot \<Rightarrow> 'a list \<Rightarrow> (string \<times> 'a list) list throws" where
  "option_system_conf r q = (if length q \<noteq> num_positions (rb_plant r) then Inl drake_throw
     else Inr (sort_key fst (map (\<lambda>i. (rb_names r ! i, map ((!) q) (instance_positions (rb_plant r) i)))
       (filter (\<lambda>i. instance_dim (rb_plant r) i > 0) (instances r)))))"

definition unlimit :: "nat list \<Rightarrow> real option list \<Rightarrow> real option list" where "unlimit is q = fold (\<lambda>i q. q[i := None]) is q"

definition AddJointLimitToConstraintsAdapter :: "robot \<Rightarrow> nat list \<Rightarrow> real list \<Rightarrow> real list \<Rightarrow> constraints_adapter \<Rightarrow> constraints_adapter throws" where
  "AddJointLimitToConstraintsAdapter r revolute lower upper A =
     bindE (option_system_conf r (unlimit revolute (map Some lower))) (\<lambda>lo. bindE (option_system_conf r (unlimit revolute (map Some upper))) (\<lambda>hi.
       if length lo \<noteq> length hi then Inl ''DRAKE_DEMAND(system_conf_lower.size() == system_conf_upper.size())''
       else bindE (mapE (\<lambda>(k, l). case map_of hi k of None \<Rightarrow> Inl out_of_range
              | Some u \<Rightarrow> Inr \<lparr> jb_entity = k, jb_lower = l, jb_upper = u, jb_penalty = None \<rparr>) lo) (\<lambda>bs.
         Inr (A\<lparr> cn_joints := Some ((case cn_joints A of None \<Rightarrow> [] | Some js \<Rightarrow> js) @ bs) \<rparr>))))"

text \<open>Drake's kinematics: the point of a position constraint in its frame, the cosine of the angle between two vectors, their gradients,
  and the frames there are.  The descriptions are the serialised adapters.\<close>

record kinematics =
  kn_frame :: "string \<Rightarrow> bool"
  kn_point :: "string \<Rightarrow> string \<Rightarrow> real list \<Rightarrow> conf \<Rightarrow> real list"
  kn_cosine :: "string \<Rightarrow> string \<Rightarrow> real list \<Rightarrow> real list \<Rightarrow> conf \<Rightarrow> real"
  kn_point_gradient :: "string \<Rightarrow> string \<Rightarrow> real list \<Rightarrow> conf \<Rightarrow> real list list"
  kn_cosine_gradient :: "string \<Rightarrow> string \<Rightarrow> real list \<Rightarrow> real list \<Rightarrow> conf \<Rightarrow> real list"
  kn_save_position :: "position_adapter \<Rightarrow> string"
  kn_save_angle :: "angle_adapter \<Rightarrow> string"
  kn_save_joints :: "joint_box_adapter \<Rightarrow> string"

definition penalty_or_default :: "penalty_params option \<Rightarrow> penalty_params" where
  "penalty_or_default p = (case p of None \<Rightarrow> MinimumValuePenaltyParams | Some p \<Rightarrow> p)"

definition scoped_frame :: "kinematics \<Rightarrow> string \<Rightarrow> unit throws" where
  "scoped_frame K f = (if kn_frame K f then Inr () else Inl ''GetScopedFrameByName'')"

definition position_constraint :: "kinematics \<Rightarrow> position_adapter \<Rightarrow> nc_constraint throws" where
  "position_constraint K a = bindE (scoped_frame K (pa_frame_A a)) (\<lambda>_. bindE (scoped_frame K (pa_frame_B a)) (\<lambda>_.
     bindE (MakePositionPenaltyFunc (penalty_or_default (pa_penalty a)) (map Some (pa_lower a)) (map Some (pa_upper a))) (\<lambda>pen.
       Inr \<lparr> nc_description = kn_save_position K a, nc_eval = kn_point K (pa_frame_A a) (pa_frame_B a) (pa_BQ a),
         nc_lower = map Some (pa_lower a), nc_upper = map Some (pa_upper a), nc_penalty = pen,
         nc_gradient = kn_point_gradient K (pa_frame_A a) (pa_frame_B a) (pa_BQ a) \<rparr>)))"

definition angle_constraint :: "kinematics \<Rightarrow> angle_adapter \<Rightarrow> nc_constraint throws" where
  "angle_constraint K a = bindE (if aa_frame_A a = ''world'' then Inr () else scoped_frame K (aa_frame_A a)) (\<lambda>_. bindE (scoped_frame K (aa_frame_B a)) (\<lambda>_.
     Inr \<lparr> nc_description = kn_save_angle K a, nc_eval = (\<lambda>x. [kn_cosine K (aa_frame_A a) (aa_frame_B a) (aa_a a) (aa_b a) x]),
       nc_lower = [Some (cos (aa_upper a))], nc_upper = [Some (cos (aa_lower a))],
       nc_penalty = MakeAnglePenaltyFunc (penalty_or_default (aa_penalty a)) (aa_lower a) (aa_upper a),
       nc_gradient = (\<lambda>x. [kn_cosine_gradient K (aa_frame_A a) (aa_frame_B a) (aa_a a) (aa_b a) x]) \<rparr>))"

definition joint_constraint :: "kinematics \<Rightarrow> robot \<Rightarrow> joint_box_adapter \<Rightarrow> nc_constraint throws" where
  "joint_constraint K r a = bindE (model_named r (jb_entity a)) (\<lambda>i. bindE (GetModelStartIndex (rb_plant r) i) (\<lambda>start.
     let n = instance_dim (rb_plant r) i in
     bindE (MakePositionPenaltyFunc (penalty_or_default (jb_penalty a)) (jb_lower a) (jb_upper a)) (\<lambda>pen.
       Inr \<lparr> nc_description = ''joint_limits: '' @ kn_save_joints K a, nc_eval = (\<lambda>x. take n (drop start x)), nc_lower = jb_lower a, nc_upper = jb_upper a,
         nc_penalty = pen, nc_gradient = (\<lambda>x. map (\<lambda>k. map (\<lambda>j. if j = start + k then 1 else 0) [0..<num_positions (rb_plant r)]) [0..<n]) \<rparr>)))"

definition all_constraints :: "kinematics \<Rightarrow> robot \<Rightarrow> constraints_adapter \<Rightarrow> nc_constraint list throws" where
  "all_constraints K r A = bindE (mapE (position_constraint K) (case cn_position A of None \<Rightarrow> [] | Some xs \<Rightarrow> xs)) (\<lambda>ps.
     bindE (mapE (angle_constraint K) (case cn_angle A of None \<Rightarrow> [] | Some xs \<Rightarrow> xs)) (\<lambda>as.
     bindE (mapE (joint_constraint K r) (case cn_joints A of None \<Rightarrow> [] | Some xs \<Rightarrow> xs)) (\<lambda>js. Inr (ps @ as @ js))))"

section \<open>Projections and samples\<close>

definition ProjectConfToNonCollisionConstraints :: "(conf \<Rightarrow> conf \<Rightarrow> real \<Rightarrow> conf option) \<Rightarrow> robot_constraints \<Rightarrow> conf \<Rightarrow> nat \<Rightarrow> conf option \<Rightarrow> real
    \<Rightarrow> conf option throws" where
  "ProjectConfToNonCollisionConstraints solve R q thread guess cost = (if \<not> thread < rc_threads R then Inl drake_throw
     else bindE (Lift (rc_hm R) q) (\<lambda>x. bindE (case guess of None \<Rightarrow> Inr x | Some g \<Rightarrow> Lift (rc_hm R) g) (\<lambda>g.
       case solve x g cost of None \<Rightarrow> Inr None | Some y \<Rightarrow> bindE (Reduce (rc_hm R) y) (\<lambda>z. Inr (Some z)))))"

record sample_options =
  sm_truncate :: bool
  sm_projection :: bool
  sm_invalid :: bool

text \<open>The loop over the samples drawn, under a schedule: an iteration first looks whether enough have been found, then
  checks its sample.  The unprotected reads of the vector are atomic here.\<close>

record sample_state =
  ss_pc :: "nat \<Rightarrow> omp_pc"
  ss_valid :: "conf list"
  ss_terminated :: bool

definition try_sample :: "(conf \<Rightarrow> conf \<Rightarrow> real \<Rightarrow> conf option) \<Rightarrow> robot_constraints \<Rightarrow> check_options \<Rightarrow> sample_options \<Rightarrow> nat \<Rightarrow> conf \<Rightarrow> conf list
    \<Rightarrow> conf list throws" where
  "try_sample solve R opt S i q found = bindE (CheckSatisfied R q 0 opt) (\<lambda>r.
     if cr_satisfied r = (\<not> sm_invalid S) then Inr (found @ [q])
     else if \<not> sm_projection S \<or> found = [] then Inr found
     else bindE (ProjectConfToNonCollisionConstraints solve R q 0 (Some (found ! (i mod length found))) 10) (\<lambda>p. case p of
         None \<Rightarrow> Inr found
       | Some y \<Rightarrow> bindE (CheckSatisfied R y 0 (opt\<lparr> co_verbose := True \<rparr>)) (\<lambda>r. Inr (if cr_satisfied r then found @ [y] else found))))"

definition sample_next :: "(conf \<Rightarrow> conf \<Rightarrow> real \<Rightarrow> conf option) \<Rightarrow> robot_constraints \<Rightarrow> check_options \<Rightarrow> sample_options \<Rightarrow> nat \<Rightarrow> conf list \<Rightarrow> nat
    \<Rightarrow> sample_state \<Rightarrow> sample_state" where
  "sample_next solve R opt S desired drawn i s = (case ss_pc s i of
       Waiting \<Rightarrow> s\<lparr> ss_pc := (ss_pc s)(i := if length (ss_valid s) \<ge> desired then Finished else Checking) \<rparr>
     | Checking \<Rightarrow> (case try_sample solve R opt S i (drawn ! i) (ss_valid s) of
           Inl e \<Rightarrow> s\<lparr> ss_pc := (ss_pc s)(i := Finished), ss_terminated := True \<rparr>
         | Inr found \<Rightarrow> s\<lparr> ss_pc := (ss_pc s)(i := Finished), ss_valid := found \<rparr>)
     | Finished \<Rightarrow> s)"

definition GenerateSamples :: "(conf \<Rightarrow> conf \<Rightarrow> real \<Rightarrow> conf option) \<Rightarrow> robot_constraints \<Rightarrow> check_options \<Rightarrow> sample_options \<Rightarrow> nat \<Rightarrow> conf list \<Rightarrow> nat list
    \<Rightarrow> conf list throws" where
  "GenerateSamples solve R opt S desired drawn sched =
     (let s = fold (sample_next solve R opt S desired drawn) sched \<lparr> ss_pc = (\<lambda>_. Waiting), ss_valid = [], ss_terminated = False \<rparr> in
      if ss_terminated s then Inl ''std::terminate''
      else Inr (if sm_truncate S then take (min (length (ss_valid s)) desired) (ss_valid s) else ss_valid s))"

section \<open>The closest configuration\<close>

definition vdot :: "real list \<Rightarrow> real list \<Rightarrow> real" where "vdot u v = (\<Sum>(x, y) \<leftarrow> zip u v. x * y)"

definition normalized :: "conf \<Rightarrow> conf" where "normalized v = (if vnorm v > 0 then vscale (1 / vnorm v) v else v)"

partial_function (option) edge_scan :: "(conf \<Rightarrow> bool throws) \<Rightarrow> conf \<Rightarrow> conf \<Rightarrow> real \<Rightarrow> conf \<Rightarrow> conf option throws option" where
  "edge_scan check q stride reach cand = (if vnorm (vminus cand q) < reach
     then (case check cand of Inl e \<Rightarrow> Some (Inl e)
       | Inr b \<Rightarrow> if b then Some (Inr (Some cand)) else edge_scan check q stride reach (vadd cand stride))
     else Some (Inr None))"

definition CalcClosestSatisfyingConfigurationOnEdge :: "robot_constraints \<Rightarrow> conf \<Rightarrow> conf \<Rightarrow> nat \<Rightarrow> real \<Rightarrow> check_options \<Rightarrow> conf option throws option" where
  "CalcClosestSatisfyingConfigurationOnEdge R q q_valid thread step opt = (if \<not> step > 0 then Some (Inl ''DRAKE_DEMAND(step > 0)'')
     else case CheckSatisfied R q_valid thread opt of Inl e \<Rightarrow> Some (Inl e)
       | Inr r \<Rightarrow> if \<not> cr_satisfied r then Some (Inl ''CalcClosestSatisfyingConfigurationOnEdge: q_valid is not valid!'')
         else let reach = vnorm (vminus q_valid q) in
           if reach < step then Some (bindE (CheckSatisfied R q thread opt) (\<lambda>r. Inr (if cr_satisfied r then Some q else None)))
           else edge_scan (\<lambda>c. bindE (CheckSatisfied R c thread (opt\<lparr> co_verbose := False \<rparr>)) (\<lambda>r. Inr (cr_satisfied r))) q
                  (vscale step (normalized (vminus q_valid q))) reach q)"

text \<open>The linear equations that fix the positions of models, and the program that Drake solves.\<close>

definition fixed_positions :: "robot \<Rightarrow> conf \<Rightarrow> nat list \<Rightarrow> (nat \<times> real) list throws" where
  "fixed_positions r q fixed = bindE (mapE (\<lambda>i. let n = instance_dim (rb_plant r) i in if n = 0 then Inr []
       else bindE (GetModelStartIndex (rb_plant r) i) (\<lambda>start. Inr (map (\<lambda>k. (start + k, q ! (start + k))) [0..<n]))) fixed)
     (\<lambda>xs. Inr (concat xs))"

record closest_program =
  cp_fixed :: "(nat \<times> real) list"
  cp_constraints :: "nc_constraint list"
  cp_min_distance :: "(real \<times> real) option"
  cp_guess :: conf

definition CalcClosestSatisfyingConfiguration :: "(closest_program \<Rightarrow> conf option) \<Rightarrow> robot_constraints \<Rightarrow> conf \<Rightarrow> nat \<Rightarrow> nat list \<Rightarrow> real
    \<Rightarrow> conf option throws" where
  "CalcClosestSatisfyingConfiguration solve R q thread fixed influence = (if \<not> thread < rc_threads R then Inl drake_throw
     else if \<not> is_identity (rc_hm R) then Inl ''RobotConstraints:CalcClosestSatisfyingConfiguration: only supports identity holonomic mapping right now''
     else bindE (fixed_positions (rc_robot R) q fixed) (\<lambda>eqs. Inr (solve \<lparr> cp_fixed = eqs, cp_constraints = rc_constraints R,
       cp_min_distance = (if rc_checker R = None then None else Some (5 / 1000, influence)), cp_guess = q \<rparr>)))"

text \<open>A polyhedron: rows with their bounds.\<close>

type_synonym polyhedron = "(real list \<times> real) list"

definition in_polyhedron :: "polyhedron \<Rightarrow> conf \<Rightarrow> bool" where "in_polyhedron P x = list_all (\<lambda>(a, b). vdot a x \<le> b) P"

definition near_distance :: real where "near_distance = 5 / 100"

definition kTol :: real where "kTol = - 1 / 1000"

definition collision_face :: "conf \<Rightarrow> real \<Rightarrow> collision_row \<Rightarrow> real list \<times> real" where
  "collision_face q delta w = (vscale (-1) (cl_jacobian w), cl_distance w - delta - vdot (cl_jacobian w) q)"

definition constraint_faces :: "conf \<Rightarrow> real \<Rightarrow> nc_constraint \<Rightarrow> polyhedron" where
  "constraint_faces q tol c = concat (map (\<lambda>i. let v = nc_eval c q ! i; g = nc_gradient c q ! i in
       (case nc_lower c ! i of None \<Rightarrow> [] | Some l \<Rightarrow> if v - l < tol then [(vscale (-1) g, v - l - tol - vdot g q)] else [])
       @ (case nc_upper c ! i of None \<Rightarrow> [] | Some u \<Rightarrow> if u - v < tol then [(g, u - v - tol + vdot g q)] else []))
     [0..<length (nc_eval c q)])"

definition FindSatisfactionHPolyhedron :: "robot_constraints \<Rightarrow> conf \<Rightarrow> nat \<Rightarrow> polyhedron throws" where
  "FindSatisfactionHPolyhedron R q thread = (if \<not> thread < rc_threads R then Inl drake_throw
     else if \<not> is_identity (rc_hm R) then Inl ''RobotConstraints:FindSatisfactionHPolyhedron: only supports identity holonomic mapping right now''
     else case rc_checker R of None \<Rightarrow> Inl ''undefined: null collision_checker_''
       | Some ck \<Rightarrow> Inr (map (collision_face q near_distance) (ck_clearance ck q near_distance) @ concat (map (constraint_faces q kTol) (rc_constraints R))))"

text \<open>The geometries near a point with their distances are Drake's; a body has the geometries \<open>geos\<close>.\<close>

definition CalcPointDistanceToBody :: "(conf \<Rightarrow> (nat \<times> real) list) \<Rightarrow> nat list \<Rightarrow> robot_constraints \<Rightarrow> conf \<Rightarrow> real \<Rightarrow> nat \<Rightarrow> real option throws" where
  "CalcPointDistanceToBody distances geos R q influence thread = bindE (lifted R thread q) (\<lambda>x.
     if \<not> influence \<ge> 0 then Inl drake_throw
     else Inr (fold (\<lambda>(g, d) m. if g \<notin> set geos then m else case m of None \<Rightarrow> Some d | Some m \<Rightarrow> Some (min m d)) (distances x) None))"

end
