(* ===== verification/Robot_Checks.thy ===== *)
theory Robot_Checks
  imports Robot_Constraints
begin

text \<open>
  What the checks of \<open>motion/robot_constraints.cc\<close> (\<open>Robot_Constraints\<close>) decide: verdicts do not depend on diagnostics or on the schedule of the
  threads, edges and trajectories are covered by their samples, penalties say how far the constraints are satisfied, kinds of collisions are
  right, the search on an edge ends, the polyhedron linearises the constraints, and samples satisfy them.
\<close>

section \<open>What a check decides\<close>

definition satisfies :: "robot_constraints \<Rightarrow> real \<Rightarrow> conf \<Rightarrow> bool" where
  "satisfies R tol x \<longleftrightarrow> (\<forall>c \<in> set (rc_constraints R). nc_satisfied tol c x) \<and> (case rc_checker R of None \<Rightarrow> True | Some ck \<Rightarrow> ck_free ck x)"

text \<open>The constraints give outputs of the size that their penalties expect.\<close>

definition fits :: "nc_constraint list \<Rightarrow> conf \<Rightarrow> bool" where "fits cs x \<longleftrightarrow> (\<forall>c \<in> set cs. is_ok (nc_penalty c (nc_eval c x)))"

definition penalty_at :: "conf \<Rightarrow> nc_constraint \<Rightarrow> nan_real" where "penalty_at x c = projr (nc_penalty c (nc_eval c x))"

definition violated :: "check_options \<Rightarrow> conf \<Rightarrow> nc_constraint list \<Rightarrow> nc_constraint list" where
  "violated opt x = filter (\<lambda>c. \<not> nc_satisfied (co_tolerance opt) c x)"

lemma fits_Cons: "fits (c # cs) x \<longleftrightarrow> nc_penalty c (nc_eval c x) = Inr (penalty_at x c) \<and> fits cs x"
  by (auto simp: fits_def penalty_at_def is_ok_iff)

lemma violated_empty: "violated opt x cs = [] \<longleftrightarrow> (\<forall>c \<in> set cs. nc_satisfied (co_tolerance opt) c x)"
  by (auto simp: violated_def filter_empty_conv)

lemma lifted_ok: "thread < rc_threads R \<Longrightarrow> length q = hm_m (rc_hm R) \<Longrightarrow> \<exists>x. lifted R thread q = Inr x"
  by (simp add: lifted_def Lift_def)

lemma lifted_any: "lifted R thread q = Inr x \<Longrightarrow> thread' < rc_threads R \<Longrightarrow> lifted R thread' q = Inr x"
  by (simp add: lifted_def split: if_splits)

lemma check_loop_fast:
  assumes "fail_fast opt"
  shows "check_loop R opt x cs r = Inr (if violated opt x cs = [] then (False, r) else (True, CheckSatisfiedResult False))"
  using assms by (induction cs arbitrary: r) (simp_all add: violated_def add_satisfied_def Let_def fail_fast_def)

lemma check_loop_full:
  assumes "\<not> fail_fast opt" "fits cs x"
  shows "check_loop R opt x cs r = Inr (False, r\<lparr> cr_satisfied := cr_satisfied r \<and> violated opt x cs = [],
     cr_penalty := (if co_penalty opt then map_option (fold (\<lambda>p' p. nan_add p p') (map (penalty_at x) cs)) (cr_penalty r) else cr_penalty r),
     cr_failed := map_option (\<lambda>ys. ys @ map nc_description (violated opt x cs)) (cr_failed r),
     cr_models := map_option (fold insort_insert (concat (map (models_named_in R \<circ> nc_description) (violated opt x cs)))) (cr_models r) \<rparr>)"
  using assms
proof (induction cs arbitrary: r)
  case Nil
  then show ?case by (cases r) (simp add: violated_def option.map_id option.map_ident)
next
  case (Cons c cs)
  then show ?case
    by (simp add: fits_Cons violated_def add_satisfied_def add_penalty_def add_failed_def add_models_def Let_def option.map_comp comp_def)
qed

definition summary :: "robot_constraints \<Rightarrow> check_options \<Rightarrow> conf \<Rightarrow> check_result" where
  "summary R opt x = \<lparr> cr_satisfied = satisfies R (co_tolerance opt) x,
     cr_penalty = (if co_penalty opt then Some (fold (\<lambda>p' p. nan_add p p') (map (penalty_at x) (rc_constraints R) @ (case rc_checker R of None \<Rightarrow> []
       | Some ck \<Rightarrow> collision_penalties R (ck_clearance ck x (mv_x0 (rc_collision_params R))))) (Some 0)) else None),
     cr_failed = (if co_strings opt then Some (map nc_description (violated opt x (rc_constraints R)) @ (case rc_checker R of None \<Rightarrow> []
       | Some ck \<Rightarrow> if ck_free ck x then [] else [rc_describe R (ck_clearance ck x (if co_penalty opt then mv_x0 (rc_collision_params R) else 0))])) else None),
     cr_models = (if co_models opt then Some (fold insort_insert (concat (map (models_named_in R \<circ> nc_description) (violated opt x (rc_constraints R)))
       @ (case rc_checker R of None \<Rightarrow> [] | Some ck \<Rightarrow> if ck_free ck x then []
          else models_in_collision R (ck_clearance ck x (if co_penalty opt then mv_x0 (rc_collision_params R) else 0)))) []) else None) \<rparr>"

lemma fold_add_penalty: "fold add_penalty ps r = r\<lparr> cr_penalty := map_option (fold (\<lambda>p' p. nan_add p p') ps) (cr_penalty r) \<rparr>"
proof (induction ps arbitrary: r)
  case Nil
  show ?case by (cases r) (simp add: option.map_ident)
qed (simp add: add_penalty_def option.map_comp comp_def)

text \<open>What was asked for beside the verdict, and how, does not change the verdict.\<close>

lemma check_satisfied_summary:
  assumes "lifted R thread q = Inr x" "fits (rc_constraints R) x"
  shows "CheckSatisfied R q thread opt = Inr (summary R opt x)"
proof (cases "fail_fast opt")
  case True
  then have none: "\<not> co_models opt" "\<not> co_strings opt" "\<not> co_penalty opt" "\<not> co_verbose opt" by (simp_all add: fail_fast_def)
  show ?thesis
    using assms(1) True none by (auto simp: CheckSatisfied_def check_loop_fast summary_def start_result_def CheckSatisfiedResult_def satisfies_def
        check_collisions_def add_satisfied_def violated_empty Let_def split: option.splits)
next
  case False
  show ?thesis
  proof (cases "rc_checker R")
    case None
    then show ?thesis using assms False by (simp add: CheckSatisfied_def check_loop_full summary_def start_result_def satisfies_def
        check_collisions_def violated_empty)
  next
    case (Some ck)
    then show ?thesis using assms False
      by (cases "ck_free ck x") (auto simp: CheckSatisfied_def check_loop_full summary_def start_result_def satisfies_def check_collisions_def violated_empty
          add_satisfied_def add_failed_def add_models_def fold_add_penalty Let_def fold_append fail_fast_def)
  qed
qed

lemma CalcPenalty_value:
  assumes "lifted R thread q = Inr x" "fits (rc_constraints R) x"
  shows "CalcPenalty R q thread = Inr (the (cr_penalty (summary R (opt\<lparr> co_penalty := True \<rparr>) x)),
    (\<forall>c \<in> set (rc_constraints R). in_bounds_exactly c (nc_eval c x)) \<and> (case rc_checker R of None \<Rightarrow> True
      | Some ck \<Rightarrow> \<forall>w \<in> set (ck_clearance ck x (mv_x0 (rc_collision_params R))). \<not> cl_distance w < 0))"
proof -
  have "foldE (\<lambda>c (p, v). bindE (nc_penalty c (nc_eval c x)) (\<lambda>p'. Inr (nan_add p p', v \<and> in_bounds_exactly c (nc_eval c x)))) cs (p, v)
      = Inr (fold (\<lambda>p' p. nan_add p p') (map (penalty_at x) cs) p, v \<and> (\<forall>c \<in> set cs. in_bounds_exactly c (nc_eval c x)))" if "fits cs x" for cs p v
    using that by (induction cs arbitrary: p v) (auto simp: fits_Cons)
  note sum = this
  show ?thesis
    by (cases "rc_checker R") (use assms in \<open>simp_all add: CalcPenalty_def sum summary_def list_all_iff Let_def\<close>)
qed

lemma in_bounds_mono: "in_bounds_exactly c out \<Longrightarrow> 0 \<le> tol \<Longrightarrow> in_bounds tol c out"
  by (auto simp: in_bounds_exactly_def in_bounds_def list_all_iff split: option.splits)

section \<open>Schedules\<close>

definition omp_inv :: "(nat \<Rightarrow> bool throws) \<Rightarrow> nat \<Rightarrow> omp_state \<Rightarrow> bool" where
  "omp_inv check n s \<longleftrightarrow> \<not> om_terminated s \<and> (\<forall>i < n. om_pc s i = Finished \<longrightarrow> om_valid s \<longrightarrow> check i = Inr True)
     \<and> (om_valid s \<or> (\<exists>i < n. check i = Inr False))"

lemma omp_inv_step:
  assumes "omp_inv check n s" "i < n" "\<forall>i < n. is_ok (check i)"
  shows "omp_inv check n (omp_next check i s)"
proof -
  obtain b where b: "check i = Inr b" using assms(2,3) by (auto simp: is_ok_iff)
  show ?thesis using assms(1,2) b by (cases "om_pc s i") (auto simp: omp_next_def omp_inv_def)
qed

text \<open>The number of steps an iteration still has to take.\<close>

definition steps_left :: "omp_pc \<Rightarrow> nat" where "steps_left pc = (case pc of Waiting \<Rightarrow> 2 | Checking \<Rightarrow> 1 | Finished \<Rightarrow> 0)"

lemma omp_next_steps: "steps_left (om_pc (omp_next check i s) j) \<le> steps_left (om_pc s j) - (if i = j then 1 else 0)"
  by (auto simp: omp_next_def steps_left_def split: omp_pc.splits sum.splits)

lemma omp_run_steps: "steps_left (om_pc (fold (omp_next check) sched s) j) \<le> steps_left (om_pc s j) - count_list sched j"
proof (induction sched arbitrary: s)
  case (Cons i sched)
  have "steps_left (om_pc (fold (omp_next check) (i # sched) s) j) \<le> steps_left (om_pc (omp_next check i s) j) - count_list sched j"
    using Cons by simp
  then show ?case using omp_next_steps [of check i s j] by (auto split: if_splits)
qed simp

lemma omp_run_valid:
  assumes "complete_schedule n sched" "\<forall>i < n. is_ok (check i)"
  shows "\<not> om_terminated (omp_run check sched)" "om_valid (omp_run check sched) \<longleftrightarrow> (\<forall>i < n. check i = Inr True)"
proof -
  have init: "omp_inv check n omp_init" by (simp add: omp_inv_def omp_init_def)
  have "omp_inv check n (fold (omp_next check) sched s)" if "omp_inv check n s" "set sched \<subseteq> {..<n}" for s
    using that by (induction sched arbitrary: s) (simp_all add: omp_inv_step assms(2))
  then have inv: "omp_inv check n (omp_run check sched)" using init assms(1) by (simp add: omp_run_def complete_schedule_def)
  have fin: "om_pc (omp_run check sched) i = Finished" if "i < n" for i
    using omp_run_steps [of check sched omp_init i] that assms(1)
    by (auto simp: omp_run_def complete_schedule_def omp_init_def steps_left_def split: omp_pc.splits)
  show "\<not> om_terminated (omp_run check sched)" using inv by (simp add: omp_inv_def)
  show "om_valid (omp_run check sched) \<longleftrightarrow> (\<forall>i < n. check i = Inr True)"
    using inv fin by (auto simp: omp_inv_def)
qed

section \<open>Verdicts\<close>

lemma insort_insert_set: "set (fold insort_insert xs ys) = set xs \<union> set ys"
  by (induction xs arbitrary: ys) (auto simp: set_insort_insert)

text \<open>C22: A configuration satisfies the constraints exactly if Drake's checks all succeed, whatever diagnostics are asked for; the penalty
  is that of \<open>CalcPenalty\<close>, and no failed constraint is reported exactly if there is none.\<close>

theorem check_satisfied_exact:
  assumes "lifted R thread q = Inr x" "fits (rc_constraints R) x"
  shows "\<exists>r p v. CheckSatisfied R q thread opt = Inr r \<and> CalcPenalty R q thread = Inr (p, v) \<and> (cr_satisfied r \<longleftrightarrow> satisfies R (co_tolerance opt) x)
    \<and> cr_penalty r = (if co_penalty opt then Some p else None)
    \<and> (case cr_failed r of None \<Rightarrow> \<not> co_strings opt | Some ss \<Rightarrow> co_strings opt \<and> (ss = [] \<longleftrightarrow> cr_satisfied r))
    \<and> (cr_models r = None \<longleftrightarrow> \<not> co_models opt)"
proof -
  let ?r = "summary R opt x"
  have "\<not> (co_strings opt) \<or> (the (cr_failed ?r) = [] \<longleftrightarrow> cr_satisfied ?r)"
    by (cases "rc_checker R") (auto simp: summary_def satisfies_def violated_empty)
  then show ?thesis
    using check_satisfied_summary [OF assms, of opt] CalcPenalty_value [OF assms, of opt] by (auto simp: summary_def)
qed

definition config_ok :: "robot_constraints \<Rightarrow> check_options \<Rightarrow> conf \<Rightarrow> bool" where
  "config_ok R opt q \<longleftrightarrow> (\<exists>x. lifted R 0 q = Inr x \<and> satisfies R (co_tolerance opt) x)"

definition checkable :: "robot_constraints \<Rightarrow> conf \<Rightarrow> bool" where
  "checkable R q \<longleftrightarrow> 0 < rc_threads R \<and> length q = hm_m (rc_hm R) \<and> (\<forall>x. Lift (rc_hm R) q = Inr x \<longrightarrow> fits (rc_constraints R) x)"

lemma checkable_satisfied:
  assumes "checkable R q" "thread < rc_threads R"
  shows "\<exists>x. CheckSatisfied R q thread opt = Inr (summary R opt x) \<and> (cr_satisfied (summary R opt x) \<longleftrightarrow> config_ok R opt q)"
proof -
  obtain x where x: "lifted R thread q = Inr x" using lifted_ok [of thread R q] assms by (auto simp: checkable_def)
  then have "fits (rc_constraints R) x" "lifted R 0 q = Inr x"
    using assms by (auto simp: checkable_def lifted_def split: if_splits)
  then show ?thesis using check_satisfied_summary [OF x, of opt] by (auto simp: config_ok_def summary_def)
qed

lemma merge_satisfied: "cr_satisfied (merge_result x r) \<longleftrightarrow> cr_satisfied r \<and> cr_satisfied x"
  by (auto simp: merge_result_def Let_def add_satisfied_def add_failed_def add_models_def add_penalty_def split: option.splits)

lemma check_in_order_verdict:
  assumes "\<forall>q \<in> set qs. checkable R q" "cr_satisfied r \<or> \<not> fail_fast opt"
  shows "\<exists>r'. check_in_order R opt qs r = Inr r' \<and> (cr_satisfied r' \<longleftrightarrow> cr_satisfied r \<and> (\<forall>q \<in> set qs. config_ok R opt q))"
  using assms
proof (induction qs arbitrary: r)
  case (Cons q qs)
  then obtain x where x: "CheckSatisfied R q 0 opt = Inr (summary R opt x)" "cr_satisfied (summary R opt x) \<longleftrightarrow> config_ok R opt q"
    using checkable_satisfied [of R q 0 opt] by (auto simp: checkable_def)
  show ?case
  proof (cases "\<not> cr_satisfied (merge_result (summary R opt x) r) \<and> fail_fast opt")
    case True
    then show ?thesis using x Cons.prems by (auto simp: merge_satisfied)
  next
    case False
    then have "\<exists>r'. check_in_order R opt qs (merge_result (summary R opt x) r) = Inr r'
        \<and> (cr_satisfied r' \<longleftrightarrow> cr_satisfied (merge_result (summary R opt x) r) \<and> (\<forall>q \<in> set qs. config_ok R opt q))"
      using Cons by simp
    then show ?thesis using x False by (auto simp: merge_satisfied Let_def)
  qed
qed simp

lemma vec_verdict:
  assumes "\<forall>q \<in> set qs. checkable R q" "complete_schedule (length qs) sched" "0 < rc_threads R" "0 < co_threads opt"
  shows "\<exists>r. CheckSatisfiedVec R qs opt thread_of sched = Inr r \<and> (cr_satisfied r \<longleftrightarrow> (\<forall>q \<in> set qs. config_ok R opt q))"
proof (cases "co_parallel opt \<and> fail_fast opt")
  case True
  let ?thread = "\<lambda>i. thread_of i mod min (co_threads opt) (rc_threads R)"
  let ?check = "\<lambda>i. bindE (CheckSatisfied R (qs ! i) (?thread i) opt) (\<lambda>r. Inr (cr_satisfied r))"
  have check: "?check i = Inr (config_ok R opt (qs ! i))" if "i < length qs" for i
  proof -
    have "?thread i < min (co_threads opt) (rc_threads R)" using assms(3,4) by (intro mod_less_divisor) simp
    then have "?thread i < rc_threads R" by linarith
    moreover have "checkable R (qs ! i)" using that assms(1) by simp
    ultimately show ?thesis using checkable_satisfied [of R "qs ! i" "?thread i" opt] by auto
  qed
  then have ok: "\<forall>i < length qs. is_ok (?check i)" by simp
  have "om_valid (omp_run ?check sched) \<longleftrightarrow> (\<forall>q \<in> set qs. config_ok R opt q)"
    using omp_run_valid(2) [OF assms(2) ok] check by (simp add: all_set_conv_all_nth)
  then show ?thesis using omp_run_valid(1) [OF assms(2) ok] True by (simp add: CheckSatisfiedVec_def check_parallel_def CheckSatisfiedResult_def)
next
  case False
  then show ?thesis using check_in_order_verdict [OF assms(1), of "start_result opt" opt]
    by (simp add: CheckSatisfiedVec_def if_not_P [OF False] start_result_def)
qed

text \<open>C10: The verdict on many configurations is that all of them satisfy the constraints, in order or in parallel, under every schedule
  of the threads and whatever is collected.\<close>

theorem schedule_irrelevant:
  assumes "\<forall>q \<in> set qs. checkable R q" "complete_schedule (length qs) sched" "0 < rc_threads R" "0 < co_threads opt"
  shows "\<exists>r. CheckSatisfiedVec R qs opt thread_of sched = Inr r \<and> (cr_satisfied r \<longleftrightarrow> (\<forall>q \<in> set qs. config_ok R opt q))"
  by (rule vec_verdict [OF assms])

section \<open>Edges\<close>

lemma between_diff: "length q1 = length q2 \<Longrightarrow> vminus (between q1 q2 a) (between q1 q2 b) = vscale (a - b) (vminus q2 q1)"
  by (rule nth_equalityI) (simp_all add: between_def vminus_def vadd_def vscale_def algebra_simps)

lemma vnorm_vscale: "vnorm (vscale c v) = \<bar>c\<bar> * vnorm v"
proof -
  have "(\<Sum>x \<leftarrow> vscale c v. x\<^sup>2) = c\<^sup>2 * (\<Sum>x \<leftarrow> v. x\<^sup>2)" by (induction v) (simp_all add: vscale_def power_mult_distrib distrib_left)
  then show ?thesis by (simp add: vnorm_def real_sqrt_mult)
qed

lemma vnorm_swap: "length p = length q \<Longrightarrow> vnorm (vminus p q) = vnorm (vminus q p)"
proof -
  assume l: "length p = length q"
  have "vminus p q = vscale (-1) (vminus q p)" by (rule nth_equalityI) (use l in \<open>simp_all add: vminus_def vscale_def\<close>)
  then show ?thesis using vnorm_vscale [of "-1" "vminus q p"] by simp
qed

lemma nearest_fraction:
  fixes c :: real
  assumes "0 \<le> c" "c \<le> 1" "0 < n"
  shows "\<exists>i \<le> n. \<bar>c - real i / real n\<bar> \<le> 1 / (2 * real n)"
proof -
  let ?i = "nat \<lfloor>c * real n + 1 / 2\<rfloor>"
  have pos: "0 \<le> c * real n" using assms by simp
  then have "0 \<le> \<lfloor>c * real n + 1 / 2\<rfloor>" by simp
  then have i: "real ?i = of_int \<lfloor>c * real n + 1 / 2\<rfloor>" by simp
  have bounds: "real ?i \<le> c * real n + 1 / 2" "c * real n - 1 / 2 < real ?i" unfolding i by linarith+
  have "c * real n \<le> real n" using assms by (simp add: mult_left_le_one_le)
  then have "real ?i < real n + 1" using bounds(1) by linarith
  then have "?i \<le> n" by linarith
  moreover have "\<bar>c * real n - real ?i\<bar> \<le> 1 / 2" using bounds by linarith
  then have "\<bar>c - real ?i / real n\<bar> \<le> 1 / (2 * real n)"
  proof -
    assume a: "\<bar>c * real n - real ?i\<bar> \<le> 1 / 2"
    have "c - real ?i / real n = (c * real n - real ?i) / real n" using assms(3) by (simp add: diff_divide_distrib)
    then have "\<bar>c - real ?i / real n\<bar> = \<bar>c * real n - real ?i\<bar> / real n" by simp
    also have "\<dots> \<le> (1 / 2) / real n" using a assms(3) by (intro divide_right_mono) simp_all
    finally show ?thesis by simp
  qed
  ultimately show ?thesis by auto
qed

text \<open>Every point of an edge is within half a step of a sample.\<close>

lemma edge_covered:
  assumes "length q1 = length q2" "0 < step" "0 \<le> c" "c \<le> 1"
  shows "\<exists>q \<in> set (edge_samples q1 q2 step). vnorm (vminus (between q1 q2 c) q) \<le> step / 2"
proof -
  let ?d = "vnorm (vminus q1 q2)"
  have d: "vnorm (vminus (between q1 q2 c) (between q1 q2 a)) = \<bar>c - a\<bar> * ?d" for a
    using assms(1) by (simp add: between_diff vnorm_vscale vnorm_swap)
  have d0: "0 \<le> ?d" unfolding vnorm_def by (intro real_sqrt_ge_zero sum_list_nonneg) auto
  show ?thesis
  proof (cases "?d < step")
    case True
    have ends: "between q1 q2 0 = q1" "between q1 q2 1 = q2"
      using assms(1) by (auto intro!: nth_equalityI simp: between_def vadd_def vscale_def)
    have near: "\<bar>c - a\<bar> * ?d \<le> step / 2" if "\<bar>c - a\<bar> \<le> 1 / 2" for a
      using mult_mono [OF that less_imp_le [OF True]] d0 by simp
    have "\<bar>c - 0\<bar> \<le> 1 / 2 \<or> \<bar>c - 1\<bar> \<le> 1 / 2" using assms(3,4) by linarith
    then have "vnorm (vminus (between q1 q2 c) q1) \<le> step / 2 \<or> vnorm (vminus (between q1 q2 c) q2) \<le> step / 2"
      using near [of 0] near [of 1] d [of 0] d [of 1] unfolding ends by fastforce
    then show ?thesis using True by (auto simp: edge_samples_def)
  next
    case False
    let ?n = "nat \<lceil>?d / step\<rceil>"
    have "1 \<le> ?d / step" using False assms(2) by simp
    then have n: "0 < ?n" "?d / step \<le> real ?n" by (linarith, simp add: of_nat_ceiling)
    obtain i where i: "i \<le> ?n" "\<bar>c - real i / real ?n\<bar> \<le> 1 / (2 * real ?n)" using nearest_fraction [OF assms(3,4) n(1)] by auto
    have "\<bar>c - real i / real ?n\<bar> * ?d \<le> 1 / (2 * real ?n) * ?d" using i(2) d0 by (rule mult_right_mono)
    also have "\<dots> \<le> 1 / (2 * real ?n) * (real ?n * step)"
      using n(2) assms(2) by (intro mult_left_mono) (simp_all only: pos_divide_le_eq, simp)
    also have "\<dots> = step / 2"
    proof -
      have "1 / (2 * m) * (m * s) = s / 2" if "0 < m" for m s :: real using that by simp
      then show ?thesis using n(1) of_nat_0_less_iff by blast
    qed
    finally have "vnorm (vminus (between q1 q2 c) (between q1 q2 (real i / real ?n))) \<le> step / 2" by (simp add: d)
    moreover have "edge_samples q1 q2 step = map (\<lambda>i. between q1 q2 (real i / real ?n)) [0..<?n + 1]"
      using False by (simp add: edge_samples_def Let_def)
    then have "between q1 q2 (real i / real ?n) \<in> set (edge_samples q1 q2 step)"
      unfolding set_map set_upt by (simp only: set_map set_upt) (use i(1) in \<open>auto intro!: imageI simp del: of_nat_nat\<close>)
    ultimately show ?thesis by blast
  qed
qed

lemma edge_samples_length:
  "length q1 = n \<Longrightarrow> length q2 = n \<Longrightarrow> q \<in> set (edge_samples q1 q2 step) \<Longrightarrow> length q = n"
  by (auto simp: edge_samples_def Let_def between_def vadd_def vscale_def split: if_splits)

lemma edge_near:
  assumes "CheckSatisfiedEdge R q1 q2 step opt thread_of sched = Inr r" "cr_satisfied r" "0 \<le> c" "c \<le> 1"
    "checkable R q1" "checkable R q2" "\<forall>x. \<forall>y. Lift (rc_hm R) x = Inr y \<longrightarrow> fits (rc_constraints R) y"
    "complete_schedule (length (edge_samples q1 q2 step)) sched" "0 < co_threads opt"
  shows "\<exists>q. config_ok R opt q \<and> vnorm (vminus (between q1 q2 c) q) \<le> step / 2"
proof -
  have step: "0 < step" and vec: "CheckSatisfiedVec R (edge_samples q1 q2 step) opt thread_of sched = Inr r"
    using assms(1) by (auto simp: CheckSatisfiedEdge_def split: if_splits)
  have l: "length q1 = hm_m (rc_hm R)" "length q2 = hm_m (rc_hm R)" "0 < rc_threads R" using assms(5,6) by (simp_all add: checkable_def)
  have "\<forall>q \<in> set (edge_samples q1 q2 step). checkable R q"
    using edge_samples_length [OF l(1,2)] assms(7) l(3) by (auto simp: checkable_def)
  then have "\<forall>q \<in> set (edge_samples q1 q2 step). config_ok R opt q"
    using vec_verdict [OF _ assms(8) l(3) assms(9), of thread_of] vec assms(2) by auto
  then show ?thesis using edge_covered [OF _ step assms(3,4), of q1 q2] l by auto
qed

text \<open>C21: If an edge satisfies the constraints, every point of it is within half a step of a configuration that does.\<close>

theorem edge_check_covers:
  assumes "CheckSatisfiedEdge R q1 q2 step opt thread_of sched = Inr r" "cr_satisfied r" "0 \<le> c" "c \<le> 1"
    "checkable R q1" "checkable R q2" "\<forall>x. \<forall>y. Lift (rc_hm R) x = Inr y \<longrightarrow> fits (rc_constraints R) y"
    "complete_schedule (length (edge_samples q1 q2 step)) sched" "0 < co_threads opt"
  shows "\<exists>q. config_ok R opt q \<and> vnorm (vminus (between q1 q2 c) q) \<le> step / 2"
  by (rule edge_near [OF assms])

section \<open>Trajectories\<close>

lemma sample_times_set: "0 < step \<Longrightarrow> set (sample_times t end_t step) = {t + real n * step | n. t + real n * step < end_t}"
proof (induction t end_t step rule: sample_times.induct)
  case (1 t end_t step)
  show ?case
  proof (cases "t < end_t")
    case True
    have IH: "set (sample_times (t + step) end_t step) = {t + step + real n * step | n. t + step + real n * step < end_t}" using 1 True by simp
    show ?thesis unfolding sample_times.simps [of t end_t step]
    proof (intro set_eqI iffI)
      fix u assume "u \<in> set (if 0 < step \<and> t < end_t then t # sample_times (t + step) end_t step else [])"
      then consider "u = t" | n where "u = t + step + real n * step" "u < end_t" using True 1(2) IH by auto
      then show "u \<in> {t + real n * step | n. t + real n * step < end_t}"
      proof cases
        case 1
        then show ?thesis using True by (auto intro!: exI [of _ 0])
      next
        case (2 n)
        then have "u = t + real (Suc n) * step" by (simp add: algebra_simps)
        then show ?thesis using 2 by blast
      qed
    next
      fix u assume "u \<in> {t + real n * step | n. t + real n * step < end_t}"
      then obtain n where n: "u = t + real n * step" "u < end_t" by auto
      show "u \<in> set (if 0 < step \<and> t < end_t then t # sample_times (t + step) end_t step else [])"
      proof (cases n)
        case (Suc m)
        then have "u = t + step + real m * step" using n by (simp add: algebra_simps)
        then show ?thesis using n(2) True 1(2) IH by auto
      qed (use n True 1(2) in simp)
    qed
  next
    case False
    moreover have "\<not> t + real n * step < end_t" for n using mult_nonneg_nonneg [of "real n" step] 1(2) False by linarith
    ultimately show ?thesis by (auto simp: sample_times.simps [of t end_t step])
  qed
qed

lemma trajectory_verdict:
  assumes "0 < step" "\<forall>t. checkable R (traj t)" "complete_schedule (length (sample_times 0 end_t step)) sched" "0 < co_threads opt"
  shows "\<exists>r. CheckSatisfiedTrajectory R traj end_t step opt thread_of sched = Inr r
    \<and> (cr_satisfied r \<longleftrightarrow> (\<forall>n. real n * step < end_t \<longrightarrow> config_ok R opt (traj (real n * step))))"
proof -
  have "0 < rc_threads R" using assms(2) by (simp add: checkable_def)
  then have "\<exists>r. CheckSatisfiedVec R (map traj (sample_times 0 end_t step)) opt thread_of sched = Inr r
      \<and> (cr_satisfied r \<longleftrightarrow> (\<forall>q \<in> set (map traj (sample_times 0 end_t step)). config_ok R opt q))"
    using assms by (intro vec_verdict) auto
  then show ?thesis using assms(1) by (auto simp: CheckSatisfiedTrajectory_def sample_times_set)
qed

text \<open>C36: The check of a trajectory looks at the multiples of the step before its end and nowhere else: neither the end nor what lies
  before time zero is checked.\<close>

theorem trajectory_end_unchecked:
  assumes "0 < step" "\<forall>t. checkable R (traj t)" "complete_schedule (length (sample_times 0 end_t step)) sched" "0 < co_threads opt"
  shows "\<exists>r. CheckSatisfiedTrajectory R traj end_t step opt thread_of sched = Inr r
    \<and> (cr_satisfied r \<longleftrightarrow> (\<forall>n. real n * step < end_t \<longrightarrow> config_ok R opt (traj (real n * step))))
    \<and> (\<forall>q. checkable R q \<longrightarrow> CheckSatisfiedTrajectory R (traj(end_t := q)) end_t step opt thread_of sched = Inr r)"
proof -
  have "map (traj(end_t := q)) (sample_times 0 end_t step) = map traj (sample_times 0 end_t step)" for q
    using sample_times_set [OF assms(1), of 0 end_t] by auto
  then have "CheckSatisfiedTrajectory R (traj(end_t := q)) end_t step opt thread_of sched
      = CheckSatisfiedTrajectory R traj end_t step opt thread_of sched" for q
    unfolding CheckSatisfiedTrajectory_def by presburger
  then show ?thesis using trajectory_verdict [OF assms, of thread_of] by auto
qed

section \<open>Kinds of collisions\<close>

lemma classify_rows_Some:
  assumes "classify_rows R cl (Some k0) = Inr k"
  shows "(k = k0 \<and> (\<forall>w \<in> set cl. collision_kind R w = Inr k0)) \<or> (k = kMixed \<and> (\<exists>w \<in> set cl. collision_kind R w \<noteq> Inr k0))"
  using assms
proof (induction cl arbitrary: k0)
  case (Cons w cl)
  then obtain k1 where k1: "collision_kind R w = Inr k1" by (auto simp: bindE_Inr_iff)
  show ?case
  proof (cases "k1 = k0")
    case True
    then show ?thesis using Cons k1 by simp
  next
    case False
    then show ?thesis using Cons.prems k1 by simp
  qed
qed simp

lemma collision_kind_pure: "collision_kind R w \<noteq> Inr kMixed" "collision_kind R w \<noteq> Inr kNone"
  by (auto simp: collision_kind_def split: option.splits)

text \<open>What a kind says about every collision.\<close>

definition kinds_agree :: "robot_constraints \<Rightarrow> collision_row list \<Rightarrow> collision_type \<Rightarrow> bool" where
  "kinds_agree R cl k \<longleftrightarrow> (if k = kNone then cl = [] else if k = kMixed then \<exists>w \<in> set cl. \<exists>w' \<in> set cl. collision_kind R w \<noteq> collision_kind R w'
     else cl \<noteq> [] \<and> (\<forall>w \<in> set cl. collision_kind R w = Inr k))"

lemma classification_exact:
  assumes "ClassifyCollisions R cl = Inr k"
  shows "kinds_agree R cl k"
proof (cases cl)
  case (Cons w ws)
  then obtain k0 where k0: "collision_kind R w = Inr k0" "classify_rows R ws (Some k0) = Inr k"
    using assms by (auto simp: ClassifyCollisions_def bindE_Inr_iff)
  then show ?thesis using classify_rows_Some [OF k0(2)] collision_kind_pure [of R w] Cons by (auto simp: kinds_agree_def)
qed (use assms in \<open>simp add: ClassifyCollisions_def kinds_agree_def\<close>)

definition across :: "robot_constraints \<Rightarrow> collision_row \<Rightarrow> bool" where "across R w \<longleftrightarrow> collision_kind R w = Inr kAcrossArmsOnly"

lemma DoArmsCollide_across: "rc_checker R \<noteq> None \<Longrightarrow> CalcRobotClearance R q t = Inr cl \<Longrightarrow> DoArmsCollide R q t = Inr (\<exists>w \<in> set cl. across R w)"
  by (auto simp: DoArmsCollide_def list_ex_iff across_def collision_kind_def split: option.splits if_splits intro!: bexI)

text \<open>The kind of the collisions of a configuration is right about every collision, and it agrees with the check for collisions between arms.\<close>

theorem collisions_classified:
  assumes "CalcAndClassifyCollisions R q t = Inr k" "rc_checker R \<noteq> None"
  shows "\<exists>cl. CalcRobotClearance R q t = Inr cl \<and> kinds_agree R cl k \<and> (\<exists>b. DoArmsCollide R q t = Inr b
    \<and> (k = kAcrossArmsOnly \<longrightarrow> b) \<and> (k \<in> {kNone, kArmSelfOnly, kArmEnvOnly} \<longrightarrow> \<not> b))"
proof -
  obtain cl where cl: "CalcRobotClearance R q t = Inr cl" "ClassifyCollisions R cl = Inr k"
    using assms by (auto simp: CalcAndClassifyCollisions_def bindE_Inr_iff split: if_splits)
  have agree: "kinds_agree R cl k" by (rule classification_exact [OF cl(2)])
  have "(k = kAcrossArmsOnly \<longrightarrow> (\<exists>w \<in> set cl. across R w)) \<and> (k \<in> {kNone, kArmSelfOnly, kArmEnvOnly} \<longrightarrow> \<not> (\<exists>w \<in> set cl. across R w))"
    using agree by (cases k) (auto simp: kinds_agree_def across_def neq_Nil_conv)
  then show ?thesis using cl(1) agree DoArmsCollide_across [OF assms(2) cl(1)] by blast
qed

section \<open>Zero penalties and penalties that are not numbers\<close>

definition params_ok :: "penalty_params \<Rightarrow> bool" where "params_ok p \<longleftrightarrow> 0 < mv_m p \<and> mv_gamma p \<noteq> 0 \<and> 0 < mv_x0 p"

lemma MakePenaltyFunc_pos: "params_ok p \<Longrightarrow> x < mv_x0 p \<Longrightarrow> 0 < MakePenaltyFunc p x"
proof -
  assume p: "params_ok p" "x < mv_x0 p"
  show "0 < MakePenaltyFunc p x"
  proof (cases "0 < mv_gamma p")
    case True
    then have "0 < exp (- mv_gamma p * x) - exp (- mv_gamma p * mv_x0 p)" "0 < 1 - exp (- mv_gamma p * mv_x0 p)" using p by (simp_all add: params_ok_def)
    then show ?thesis using p by (simp add: MakePenaltyFunc_def params_ok_def)
  next
    case False
    then have "mv_gamma p < 0" using p by (simp add: params_ok_def)
    then have "exp (- mv_gamma p * x) - exp (- mv_gamma p * mv_x0 p) < 0" "1 - exp (- mv_gamma p * mv_x0 p) < 0"
      using mult_strict_left_mono_neg [OF p(2), of "mv_gamma p"] mult_neg_pos [of "mv_gamma p" "mv_x0 p"] p by (simp_all add: params_ok_def)
    then have "0 < (exp (- mv_gamma p * x) - exp (- mv_gamma p * mv_x0 p)) / (1 - exp (- mv_gamma p * mv_x0 p))" by (rule divide_neg_neg)
    then show ?thesis using p mult_pos_pos [of "mv_m p"] by (fastforce simp: MakePenaltyFunc_def params_ok_def)
  qed
qed

lemma MakePenaltyFunc_zero: "params_ok p \<Longrightarrow> MakePenaltyFunc p x = 0 \<longleftrightarrow> mv_x0 p \<le> x"
  using MakePenaltyFunc_pos [of p x] by (cases "x = mv_x0 p") (auto simp: MakePenaltyFunc_def)

lemma MakePenaltyFunc_nonneg: "params_ok p \<Longrightarrow> 0 \<le> MakePenaltyFunc p x"
  using MakePenaltyFunc_pos [of p x] MakePenaltyFunc_zero [of p x] by (cases "x < mv_x0 p") auto

lemma nan_fold_Some: "fold (\<lambda>p' p. nan_add p p') (map Some xs) (Some a) = Some (a + sum_list xs)"
  by (induction xs arbitrary: a) (simp_all add: nan_add_def)

lemma nan_fold_None: "None \<in> set ps \<or> p = None \<Longrightarrow> fold (\<lambda>p' p. nan_add p p') ps p = None"
  by (induction ps arbitrary: p) (auto simp: nan_add_def split: option.splits)

text \<open>A constraint whose outputs are penalised near their bounds.\<close>

definition box_like :: "nc_constraint \<Rightarrow> bool" where
  "box_like c \<longleftrightarrow> (\<exists>p. params_ok p \<and> MakePositionPenaltyFunc p (nc_lower c) (nc_upper c) = Inr (nc_penalty c))"

definition clear_by :: "real \<Rightarrow> real option \<Rightarrow> bool" where "clear_by m d \<longleftrightarrow> (case d of None \<Rightarrow> True | Some d \<Rightarrow> m \<le> d)"

lemma bound_penalty_nonneg: "params_ok p \<Longrightarrow> 0 \<le> bound_penalty p d"
  by (simp add: bound_penalty_def MakePenaltyFunc_nonneg split: option.splits)

lemma bound_penalty_zero: "params_ok p \<Longrightarrow> bound_penalty p d = 0 \<longleftrightarrow> clear_by (mv_x0 p) d"
  by (simp add: bound_penalty_def clear_by_def MakePenaltyFunc_zero split: option.splits)

lemma sum_list_zero_iff:
  fixes f :: "'a \<Rightarrow> real"
  assumes "\<forall>x \<in> set xs. 0 \<le> f x"
  shows "(\<Sum>x \<leftarrow> xs. f x) = 0 \<longleftrightarrow> (\<forall>x \<in> set xs. f x = 0)"
  using assms
proof (induction xs)
  case (Cons x xs)
  have "0 \<le> sum_list (map f xs)" by (rule sum_list_nonneg) (use Cons.prems in auto)
  then show ?case using Cons by (simp add: add_nonneg_eq_0_iff)
qed simp

lemma box_penalty:
  assumes "MakePositionPenaltyFunc p lo hi = Inr pen" "params_ok p" "pen out = Inr y"
  shows "\<exists>x. y = Some x \<and> 0 \<le> x \<and> (x = 0 \<longleftrightarrow> (\<forall>i < length out. clear_by (mv_x0 p) (over_lower (out ! i) (lo ! i)) \<and> clear_by (mv_x0 p) (under_upper (out ! i) (hi ! i))))"
proof -
  let ?f = "\<lambda>i. bound_penalty p (over_lower (out ! i) (lo ! i)) + bound_penalty p (under_upper (out ! i) (hi ! i))"
  have y: "y = Some (\<Sum>i \<leftarrow> [0..<length out]. ?f i)" using assms by (auto simp: MakePositionPenaltyFunc_def split: if_splits)
  have nn: "\<forall>i \<in> set [0..<length out]. 0 \<le> ?f i" using bound_penalty_nonneg [OF assms(2)] by (simp add: add_nonneg_nonneg)
  have "?f i = 0 \<longleftrightarrow> clear_by (mv_x0 p) (over_lower (out ! i) (lo ! i)) \<and> clear_by (mv_x0 p) (under_upper (out ! i) (hi ! i))" for i
    using bound_penalty_nonneg [OF assms(2)] bound_penalty_zero [OF assms(2)] by (simp add: add_nonneg_eq_0_iff)
  then show ?thesis using y sum_list_zero_iff [OF nn] sum_list_nonneg [of "map ?f [0..<length out]"] nn by (auto simp del: upt.simps)
qed

lemma box_like_penalty:
  assumes "box_like c" "nc_penalty c (nc_eval c x) = Inr y"
  shows "\<exists>z. y = Some z \<and> 0 \<le> z \<and> (z = 0 \<longrightarrow> in_bounds_exactly c (nc_eval c x))"
proof -
  obtain p where p: "params_ok p" "MakePositionPenaltyFunc p (nc_lower c) (nc_upper c) = Inr (nc_penalty c)"
    using assms(1) by (auto simp: box_like_def)
  then have "0 < mv_x0 p" by (simp add: params_ok_def)
  then show ?thesis using box_penalty [OF p(2,1) assms(2)]
    by (fastforce simp: in_bounds_exactly_def in_bounds_def clear_by_def over_lower_def under_upper_def list_all_iff split: option.splits)
qed

text \<open>The constraints that the constructor makes of the positions and joints of an adapter are of this kind; those of angles are not, and
  the theorem \<open>angle_penalty_nan\<close> below says what becomes of them.\<close>

definition penalties_ok :: "constraints_adapter \<Rightarrow> bool" where
  "penalties_ok A \<longleftrightarrow> (\<forall>ps. cn_position A = Some ps \<longrightarrow> (\<forall>a \<in> set ps. params_ok (penalty_or_default (pa_penalty a))))
     \<and> (\<forall>js. cn_joints A = Some js \<longrightarrow> (\<forall>a \<in> set js. params_ok (penalty_or_default (jb_penalty a))))"

lemma position_box_like: "position_constraint K a = Inr c \<Longrightarrow> params_ok (penalty_or_default (pa_penalty a)) \<Longrightarrow> box_like c"
  by (auto simp: position_constraint_def box_like_def bindE_Inr_iff)

lemma joint_box_like: "joint_constraint K r a = Inr c \<Longrightarrow> params_ok (penalty_or_default (jb_penalty a)) \<Longrightarrow> box_like c"
  by (auto simp: joint_constraint_def box_like_def bindE_Inr_iff Let_def)

lemma mapE_set: "mapE f xs = Inr ys \<Longrightarrow> y \<in> set ys \<Longrightarrow> \<exists>x \<in> set xs. f x = Inr y"
  by (induction xs arbitrary: ys) (auto simp: bindE_Inr_iff)

lemma constructed_boxes:
  assumes "all_constraints K r A = Inr cs" "cn_angle A = None \<or> cn_angle A = Some []" "penalties_ok A"
  shows "\<forall>c \<in> set cs. box_like c"
proof
  fix c assume c: "c \<in> set cs"
  obtain ps js where m: "mapE (position_constraint K) (case cn_position A of None \<Rightarrow> [] | Some xs \<Rightarrow> xs) = Inr ps"
    "mapE (joint_constraint K r) (case cn_joints A of None \<Rightarrow> [] | Some xs \<Rightarrow> xs) = Inr js" "cs = ps @ js"
    using assms(1,2) by (auto simp: all_constraints_def bindE_Inr_iff)
  show "box_like c"
  proof (cases "c \<in> set ps")
    case True
    then obtain a where "a \<in> set (case cn_position A of None \<Rightarrow> [] | Some xs \<Rightarrow> xs)" "position_constraint K a = Inr c" using mapE_set [OF m(1)] by blast
    then show ?thesis using position_box_like [of K a c] assms(3) by (cases "cn_position A") (auto simp: penalties_ok_def)
  next
    case False
    then have "c \<in> set js" using c m(3) by simp
    then obtain a where "a \<in> set (case cn_joints A of None \<Rightarrow> [] | Some xs \<Rightarrow> xs)" "joint_constraint K r a = Inr c" using mapE_set [OF m(2)] by blast
    then show ?thesis using joint_box_like [of K r a c] assms(3) by (cases "cn_joints A") (auto simp: penalties_ok_def)
  qed
qed

text \<open>C37: If every constraint is a box, as are those of positions and joints (\<open>constructed_boxes\<close>) but not those of angles, a penalty of
  zero means that the constraints hold exactly and that every pair of bodies Drake reports is at least the influence distance apart.\<close>

theorem zero_penalty_is_clear:
  assumes "CalcPenalty R q thread = Inr (Some 0, v)" "\<forall>c \<in> set (rc_constraints R). box_like c" "params_ok (rc_collision_params R)"
  shows "v \<and> (\<exists>x. lifted R thread q = Inr x \<and> (\<forall>c \<in> set (rc_constraints R). in_bounds_exactly c (nc_eval c x))
    \<and> (\<forall>ck. rc_checker R = Some ck \<longrightarrow> (\<forall>w \<in> set (ck_clearance ck x (mv_x0 (rc_collision_params R))). mv_x0 (rc_collision_params R) \<le> cl_distance w)))"
proof -
  obtain x where x: "lifted R thread q = Inr x" using assms(1) by (auto simp: CalcPenalty_def bindE_Inr_iff)
  have "is_ok (foldE (\<lambda>c (p, v). bindE (nc_penalty c (nc_eval c x)) (\<lambda>p'. Inr (nan_add p p', v \<and> in_bounds_exactly c (nc_eval c x)))) (rc_constraints R) (Some 0, True))"
    using assms(1) x by (auto simp: CalcPenalty_def bindE_Inr_iff)
  moreover have "fits cs x" if "is_ok (foldE (\<lambda>c (p, v). bindE (nc_penalty c (nc_eval c x)) (\<lambda>p'. Inr (nan_add p p', v \<and> in_bounds_exactly c (nc_eval c x)))) cs s)" for cs s
    using that
  proof (induction cs arbitrary: s)
    case (Cons c cs)
    obtain p v where s: "s = (p, v)" by (cases s)
    obtain y where y: "nc_penalty c (nc_eval c x) = Inr y" using Cons.prems s by (cases "nc_penalty c (nc_eval c x)") simp_all
    have "fits cs x" by (rule Cons.IH) (use Cons.prems s y in simp)
    then show ?case using y by (simp add: fits_def)
  qed (simp add: fits_def)
  ultimately have fit: "fits (rc_constraints R) x" by blast
  let ?zs = "map (\<lambda>c. the (penalty_at x c)) (rc_constraints R)"
  have box: "penalty_at x c = Some (the (penalty_at x c)) \<and> 0 \<le> the (penalty_at x c) \<and> (the (penalty_at x c) = 0 \<longrightarrow> in_bounds_exactly c (nc_eval c x))"
    if c: "c \<in> set (rc_constraints R)" for c
  proof -
    have "nc_penalty c (nc_eval c x) = Inr (penalty_at x c)" using fit c by (auto simp: fits_def penalty_at_def is_ok_iff)
    then show ?thesis using box_like_penalty [of c x "penalty_at x c"] assms(2) c by auto
  qed
  define cl where "cl = (case rc_checker R of None \<Rightarrow> [] | Some ck \<Rightarrow> ck_clearance ck x (mv_x0 (rc_collision_params R)))"
  define ds where "ds = map (\<lambda>w. MakePenaltyFunc (rc_collision_params R) (cl_distance w)) cl"
  have cp: "(case rc_checker R of None \<Rightarrow> [] | Some ck \<Rightarrow> collision_penalties R (ck_clearance ck x (mv_x0 (rc_collision_params R)))) = map Some ds"
    by (cases "rc_checker R") (simp_all add: ds_def cl_def collision_penalties_def)
  have ps: "map (penalty_at x) (rc_constraints R) = map Some ?zs" using box by simp
  define opt :: check_options where "opt = (CheckSatisfiedOptions 1)\<lparr> co_penalty := True \<rparr>"
  have s: "cr_penalty (summary R opt x) = Some (Some (sum_list (?zs @ ds)))"
    unfolding summary_def cp ps using nan_fold_Some [of "?zs @ ds" 0] by (simp add: opt_def)
  have o: "opt\<lparr> co_penalty := True \<rparr> = opt" by (simp add: opt_def)
  note val = CalcPenalty_value [OF x fit, of opt, unfolded o s assms(1)]
  have zero: "sum_list (?zs @ ds) = 0" using val by simp
  have nn: "\<forall>z \<in> set (?zs @ ds). 0 \<le> z" using box MakePenaltyFunc_nonneg [OF assms(3)] by (auto simp: ds_def)
  then have all0: "\<forall>z \<in> set (?zs @ ds). z = 0" using sum_list_zero_iff [of "?zs @ ds" id] zero by simp
  have inb: "\<forall>c \<in> set (rc_constraints R). in_bounds_exactly c (nc_eval c x)" using box all0 by simp
  have far: "\<forall>w \<in> set cl. mv_x0 (rc_collision_params R) \<le> cl_distance w"
    using all0 MakePenaltyFunc_zero [OF assms(3)] by (auto simp: ds_def)
  then have "\<forall>w \<in> set cl. \<not> cl_distance w < 0" using assms(3) by (auto simp: params_ok_def)
  then have "v" using val inb by (auto simp: cl_def split: option.splits)
  then show ?thesis using x inb far by (auto simp: cl_def)
qed

text \<open>An angle constraint whose upper bound is more than one radian makes the penalty of every configuration not a number: the
  bounds, which are angles, are taken for cosines.\<close>

theorem angle_penalty_nan:
  assumes "angle_constraint K a = Inr c" "c \<in> set (rc_constraints R)" "1 < aa_upper a" "lifted R thread q = Inr x" "fits (rc_constraints R) x"
  shows "\<exists>v. CalcPenalty R q thread = Inr (None, v)"
proof -
  have "nc_penalty c (nc_eval c x) = Inr None"
    using assms(1,3) by (auto simp: angle_constraint_def bindE_Inr_iff MakeAnglePenaltyFunc_def nan_penalty_def acos_def nan_add_def split: if_splits option.splits)
  then have "None \<in> set (map (penalty_at x) (rc_constraints R))" using assms(2) by (force simp: penalty_at_def)
  then have "the (cr_penalty (summary R ((CheckSatisfiedOptions 1)\<lparr> co_penalty := True \<rparr>) x)) = None"
    by (simp add: summary_def nan_fold_None)
  then show ?thesis using CalcPenalty_value [OF assms(4,5), of "CheckSatisfiedOptions 1"] by simp
qed

section \<open>The closest configuration on an edge\<close>

lemma vnorm_nonneg: "0 \<le> vnorm v"
  unfolding vnorm_def by (intro real_sqrt_ge_zero sum_list_nonneg) auto

lemma vnorm_normalized: "vnorm v > 0 \<Longrightarrow> vnorm (normalized v) = 1"
  by (simp add: normalized_def vnorm_vscale)

text \<open>The configuration after \<open>n\<close> strides.\<close>

definition strides :: "conf \<Rightarrow> conf \<Rightarrow> nat \<Rightarrow> conf" where "strides q s n = vadd q (vscale (real n) s)"

lemma strides_simps:
  assumes "length s = length q"
  shows "strides q s 0 = q" "vadd (strides q s n) s = strides q s (Suc n)" "vnorm (vminus (strides q s n) q) = real n * vnorm s"
proof -
  show "strides q s 0 = q" by (rule nth_equalityI) (use assms in \<open>simp_all add: strides_def vadd_def vscale_def\<close>)
  show "vadd (strides q s n) s = strides q s (Suc n)" by (rule nth_equalityI) (use assms in \<open>simp_all add: strides_def vadd_def vscale_def algebra_simps\<close>)
  have "vminus (strides q s n) q = vscale (real n) s" by (rule nth_equalityI) (use assms in \<open>simp_all add: strides_def vadd_def vscale_def vminus_def\<close>)
  then show "vnorm (vminus (strides q s n) q) = real n * vnorm s" by (simp add: vnorm_vscale)
qed

text \<open>The first configuration that is satisfactory among those after \<open>m\<close> strides, \<open>m\<close> inside, if there is one.\<close>

definition first_ok :: "(conf \<Rightarrow> bool) \<Rightarrow> conf \<Rightarrow> conf \<Rightarrow> (nat \<Rightarrow> bool) \<Rightarrow> conf option \<Rightarrow> bool" where
  "first_ok ok q s inside res \<longleftrightarrow> (case res of
       Some y \<Rightarrow> ok y \<and> (\<exists>m. y = strides q s m \<and> inside m \<and> (\<forall>k < m. \<not> ok (strides q s k)))
     | None \<Rightarrow> \<forall>m. inside m \<longrightarrow> \<not> ok (strides q s m))"

lemma edge_scan_result:
  assumes "length s = length q" "0 < vnorm s" "\<forall>n. check (strides q s n) = Inr (ok (strides q s n))" "\<forall>k < n. \<not> ok (strides q s k)"
  shows "\<exists>res. edge_scan check q s reach (strides q s n) = Some (Inr res) \<and> first_ok ok q s (\<lambda>m. real m * vnorm s < reach) res"
  using assms(4)
proof (induction "nat \<lceil>(reach - real n * vnorm s) / vnorm s\<rceil>" arbitrary: n rule: less_induct)
  case less
  note c = assms(3) [rule_format, of n]
  show ?case
  proof (cases "real n * vnorm s < reach")
    case False
    have "m < n" if "real m * vnorm s < reach" for m
    proof (rule ccontr)
      assume "\<not> m < n"
      then have "real n * vnorm s \<le> real m * vnorm s" using assms(2) by (intro mult_right_mono) simp_all
      then show False using that False by linarith
    qed
    then have "first_ok ok q s (\<lambda>m. real m * vnorm s < reach) None" using less.prems by (simp add: first_ok_def)
    then show ?thesis using False assms(1) by (subst edge_scan.simps) (simp add: strides_simps)
  next
    case True
    show ?thesis
    proof (cases "ok (strides q s n)")
      case True
      then have "first_ok ok q s (\<lambda>m. real m * vnorm s < reach) (Some (strides q s n))"
        using \<open>real n * vnorm s < reach\<close> less.prems by (auto simp: first_ok_def)
      then show ?thesis using \<open>real n * vnorm s < reach\<close> True c assms(1) by (subst edge_scan.simps) (simp add: strides_simps)
    next
      case False
      have e: "(reach - real (Suc n) * vnorm s) / vnorm s = (reach - real n * vnorm s) / vnorm s - 1" using assms(2) by (simp add: field_simps)
      have "0 < \<lceil>(reach - real n * vnorm s) / vnorm s\<rceil>" using True assms(2) by (simp add: zero_less_ceiling)
      then have d: "nat \<lceil>(reach - real (Suc n) * vnorm s) / vnorm s\<rceil> < nat \<lceil>(reach - real n * vnorm s) / vnorm s\<rceil>" unfolding e by simp
      have step: "edge_scan check q s reach (strides q s n) = edge_scan check q s reach (strides q s (Suc n))"
        using True False c assms(1) by (subst edge_scan.simps) (simp add: strides_simps)
      have "\<forall>k < Suc n. \<not> ok (strides q s k)" using less.prems False by (simp add: less_Suc_eq)
      then show ?thesis unfolding step by (rule less.hyps [OF d])
    qed
  qed
qed

text \<open>The configurations that are looked at.\<close>

definition stride :: "conf \<Rightarrow> conf \<Rightarrow> real \<Rightarrow> conf" where "stride q q_valid step = vscale step (normalized (vminus q_valid q))"

lemma closest_on_edge_total:
  assumes "0 < step" "length q = hm_m (rc_hm R)" "length q_valid = length q" "0 < rc_threads R" "\<forall>c. length c = length q \<longrightarrow> checkable R c" "config_ok R opt q_valid"
  shows "\<exists>res. CalcClosestSatisfyingConfigurationOnEdge R q q_valid 0 step opt = Some (Inr res)
    \<and> first_ok (config_ok R opt) q (stride q q_valid step) (\<lambda>m. m = 0 \<or> real m * step < vnorm (vminus q_valid q)) res"
proof -
  let ?s = "stride q q_valid step" and ?d = "vnorm (vminus q_valid q)"
  have ls: "length ?s = length q" using assms(3) by (simp add: stride_def normalized_def vscale_def vminus_def)
  have chk: "\<exists>x. CheckSatisfied R c 0 opt' = Inr (summary R opt' x) \<and> (cr_satisfied (summary R opt' x) \<longleftrightarrow> config_ok R opt' c)" if "length c = length q" for c opt'
    using checkable_satisfied [of R c 0 opt'] assms(4,5) that by simp
  have lst: "length (strides q ?s n) = length q" for n using ls by (simp add: strides_def vadd_def vscale_def)
  obtain xv where xv: "CheckSatisfied R q_valid 0 opt = Inr (summary R opt xv)" "cr_satisfied (summary R opt xv)" using chk [of q_valid opt] assms(3,6) by auto
  obtain xq where xq: "CheckSatisfied R q 0 opt = Inr (summary R opt xq)" "cr_satisfied (summary R opt xq) \<longleftrightarrow> config_ok R opt q" using chk [of q opt] by auto
  show ?thesis
  proof (cases "?d < step")
    case True
    have only: "m = 0" if "m = 0 \<or> real m * step < ?d" for m
    proof (rule ccontr)
      assume "m \<noteq> 0"
      then have "1 * step \<le> real m * step" using assms(1) by (intro mult_right_mono) simp_all
      then show False using that \<open>m \<noteq> 0\<close> True by simp
    qed
    have "first_ok (config_ok R opt) q ?s (\<lambda>m. m = 0 \<or> real m * step < ?d) (if config_ok R opt q then Some q else None)"
    proof (cases "config_ok R opt q")
      case True
      have "q = strides q ?s 0" by (simp add: strides_simps(1) [OF ls])
      then have "\<exists>m. q = strides q ?s m \<and> (m = 0 \<or> real m * step < ?d) \<and> (\<forall>k < m. \<not> config_ok R opt (strides q ?s k))" by (intro exI [of _ 0]) simp
      then show ?thesis using True by (simp add: first_ok_def)
    next
      case False
      then have "\<not> config_ok R opt (strides q ?s m)" if "m = 0 \<or> real m * step < ?d" for m using only [OF that] strides_simps(1) [OF ls] by simp
      then show ?thesis using False by (simp add: first_ok_def)
    qed
    moreover have "CalcClosestSatisfyingConfigurationOnEdge R q q_valid 0 step opt = Some (Inr (if config_ok R opt q then Some q else None))"
      using True assms(1) xv xq by (simp add: CalcClosestSatisfyingConfigurationOnEdge_def Let_def)
    ultimately show ?thesis by blast
  next
    case False
    let ?check = "\<lambda>c. bindE (CheckSatisfied R c 0 (opt\<lparr> co_verbose := False \<rparr>)) (\<lambda>r. Inr (cr_satisfied r))"
    have cfg: "config_ok R (opt\<lparr> co_verbose := False \<rparr>) c = config_ok R opt c" for c by (simp add: config_ok_def)
    have ck: "?check c = Inr (config_ok R opt c)" if "length c = length q" for c
      using chk [OF that, of "opt\<lparr> co_verbose := False \<rparr>"] unfolding cfg by (elim exE conjE) simp
    have ns: "vnorm ?s = step" using False assms(1) vnorm_normalized [of "vminus q_valid q"] by (simp add: stride_def vnorm_vscale)
    have d0: "0 < ?d" using False assms(1) by linarith
    have in0: "(\<lambda>m. m = 0 \<or> real m * step < ?d) = (\<lambda>m. real m * vnorm ?s < ?d)" using d0 unfolding ns by auto
    have "\<exists>res. edge_scan ?check q ?s ?d (strides q ?s 0) = Some (Inr res) \<and> first_ok (config_ok R opt) q ?s (\<lambda>m. real m * vnorm ?s < ?d) res"
      by (rule edge_scan_result [OF ls]) (use ns assms(1) ck lst in simp_all)
    then obtain res where res: "edge_scan ?check q ?s ?d q = Some (Inr res)" "first_ok (config_ok R opt) q ?s (\<lambda>m. real m * vnorm ?s < ?d) res"
      unfolding strides_simps(1) [OF ls] by blast
    have "CalcClosestSatisfyingConfigurationOnEdge R q q_valid 0 step opt = Some (Inr res)"
      using False assms(1) xv res(1) by (simp add: CalcClosestSatisfyingConfigurationOnEdge_def Let_def stride_def)
    then show ?thesis using res(2) unfolding in0 by blast
  qed
qed

text \<open>C38: The search for the closest configuration on an edge ends, and returns the first configuration that satisfies the constraints
  among those at whole strides strictly before the valid end; there may be none, although the end itself is valid.\<close>

theorem closest_on_edge_first:
  assumes "0 < step" "length q = hm_m (rc_hm R)" "length q_valid = length q" "0 < rc_threads R" "\<forall>c. length c = length q \<longrightarrow> checkable R c" "config_ok R opt q_valid"
  shows "\<exists>res. CalcClosestSatisfyingConfigurationOnEdge R q q_valid 0 step opt = Some (Inr res)
    \<and> first_ok (config_ok R opt) q (stride q q_valid step) (\<lambda>m. m = 0 \<or> real m * step < vnorm (vminus q_valid q)) res"
  by (rule closest_on_edge_total [OF assms])

section \<open>The linear approximation\<close>

lemma vdot_vminus: "length x = length y \<Longrightarrow> vdot a (vminus x y) = vdot a x - vdot a y"
proof (induction a arbitrary: x y)
  case (Cons c a)
  then show ?case by (cases x; cases y) (auto simp: vdot_def vminus_def algebra_simps)
qed (simp add: vdot_def)

lemma vdot_neg: "vdot (vscale (-1) a) x = - vdot a x"
  by (induction a x rule: list_induct2') (simp_all add: vdot_def vscale_def)

definition linearized :: "real list \<Rightarrow> real \<Rightarrow> conf \<Rightarrow> conf \<Rightarrow> real" where "linearized g v q x = v + vdot g (vminus x q)"

text \<open>What the polyhedron promises of the rows of the clearance and of the bounds that are violated or nearly so.\<close>

definition collision_side :: "conf \<Rightarrow> conf \<Rightarrow> collision_row \<Rightarrow> bool" where
  "collision_side q x w \<longleftrightarrow> near_distance \<le> linearized (cl_jacobian w) (cl_distance w) q x"

definition bound_sides :: "conf \<Rightarrow> conf \<Rightarrow> nc_constraint \<Rightarrow> nat \<Rightarrow> bool" where
  "bound_sides q x c i \<longleftrightarrow> (let v = nc_eval c q ! i; y = linearized (nc_gradient c q ! i) v q x in
     (\<forall>l. nc_lower c ! i = Some l \<longrightarrow> v - l < kTol \<longrightarrow> l + kTol \<le> y)
     \<and> (\<forall>u. nc_upper c ! i = Some u \<longrightarrow> u - v < kTol \<longrightarrow> y \<le> u - kTol))"

lemma in_polyhedron_append: "in_polyhedron (P @ Q) x \<longleftrightarrow> in_polyhedron P x \<and> in_polyhedron Q x"
  by (simp add: in_polyhedron_def)

lemma in_polyhedron_concat: "in_polyhedron (concat Ps) x \<longleftrightarrow> (\<forall>P \<in> set Ps. in_polyhedron P x)"
  by (induction Ps) (simp_all add: in_polyhedron_append, simp add: in_polyhedron_def)

lemma constraint_faces_iff:
  assumes "length x = length q"
  shows "in_polyhedron (constraint_faces q kTol c) x \<longleftrightarrow> (\<forall>i < length (nc_eval c q). bound_sides q x c i)"
proof -
  let ?faces = "\<lambda>i. let v = nc_eval c q ! i; g = nc_gradient c q ! i in
       (case nc_lower c ! i of None \<Rightarrow> [] | Some l \<Rightarrow> if v - l < kTol then [(vscale (-1) g, v - l - kTol - vdot g q)] else [])
       @ (case nc_upper c ! i of None \<Rightarrow> [] | Some u \<Rightarrow> if u - v < kTol then [(g, u - v - kTol + vdot g q)] else [])"
  have "in_polyhedron (?faces i) x \<longleftrightarrow> bound_sides q x c i" for i
    by (cases "nc_lower c ! i"; cases "nc_upper c ! i")
      (auto simp: in_polyhedron_def bound_sides_def Let_def linearized_def vdot_vminus [OF assms] vdot_neg)
  then show ?thesis by (auto simp: constraint_faces_def in_polyhedron_concat)
qed

text \<open>A point is in the polyhedron of \<open>FindSatisfactionHPolyhedron\<close> exactly if the linearisations there keep every pair of bodies
  nearby five centimetres apart and bring every violated constraint back up to the tolerance.\<close>

theorem polyhedron_linearizes:
  assumes "FindSatisfactionHPolyhedron R q thread = Inr P" "length x = length q"
  shows "in_polyhedron P x \<longleftrightarrow> (\<forall>ck. rc_checker R = Some ck \<longrightarrow> (\<forall>w \<in> set (ck_clearance ck q near_distance). collision_side q x w))
    \<and> (\<forall>c \<in> set (rc_constraints R). \<forall>i < length (nc_eval c q). bound_sides q x c i)"
proof -
  obtain ck where ck: "rc_checker R = Some ck" "P = map (collision_face q near_distance) (ck_clearance ck q near_distance) @ concat (map (constraint_faces q kTol) (rc_constraints R))"
    using assms(1) by (auto simp: FindSatisfactionHPolyhedron_def split: if_splits option.splits)
  have "in_polyhedron (map (collision_face q near_distance) ws) x \<longleftrightarrow> (\<forall>w \<in> set ws. collision_side q x w)" for ws
    by (induction ws) (auto simp: in_polyhedron_def collision_face_def collision_side_def linearized_def vdot_vminus [OF assms(2)] vdot_neg)
  then show ?thesis using ck by (simp add: in_polyhedron_append in_polyhedron_concat constraint_faces_iff [OF assms(2)])
qed

section \<open>Samples\<close>

lemma try_sample_valid:
  assumes "\<not> sm_invalid S" "try_sample solve R opt S i q found = Inr found'" "\<forall>y \<in> set found. config_ok R opt y"
    "\<forall>x. \<forall>r. CheckSatisfied R x 0 opt = Inr r \<longrightarrow> cr_satisfied r \<longrightarrow> config_ok R opt x"
    "\<forall>x. \<forall>r. CheckSatisfied R x 0 (opt\<lparr> co_verbose := True \<rparr>) = Inr r \<longrightarrow> cr_satisfied r \<longrightarrow> config_ok R opt x"
  shows "(\<forall>y \<in> set found'. config_ok R opt y) \<and> length found' \<le> Suc (length found)"
  using assms by (auto simp: try_sample_def bindE_Inr_iff split: if_splits option.splits)

text \<open>The check of any configuration that it accepts is right.\<close>

lemma CheckSatisfied_sound:
  assumes "CheckSatisfied R q 0 opt = Inr r" "cr_satisfied r" "\<forall>x. fits (rc_constraints R) x"
  shows "config_ok R opt q"
proof -
  obtain x where x: "lifted R 0 q = Inr x" using assms(1) by (auto simp: CheckSatisfied_def bindE_Inr_iff)
  then show ?thesis using check_satisfied_summary [OF x, of opt] assms by (auto simp: config_ok_def summary_def)
qed

definition samples_inv :: "robot_constraints \<Rightarrow> check_options \<Rightarrow> nat \<Rightarrow> sample_state \<Rightarrow> bool" where
  "samples_inv R opt n s \<longleftrightarrow> (\<forall>y \<in> set (ss_valid s). config_ok R opt y)
     \<and> length (ss_valid s) + card {i. i < n \<and> ss_pc s i \<noteq> Finished} \<le> n"

lemma sample_next_inv:
  assumes "samples_inv R opt n s" "i < n" "\<not> sm_invalid S" "\<forall>x. fits (rc_constraints R) x"
  shows "samples_inv R opt n (sample_next solve R opt S desired drawn i s)"
proof -
  have shrink: "card {j. j < n \<and> ((ss_pc s)(i := Finished)) j \<noteq> Finished} < card {j. j < n \<and> ss_pc s j \<noteq> Finished}" if "ss_pc s i \<noteq> Finished"
    using that assms(2) by (intro psubset_card_mono) auto
  have same: "{j. j < n \<and> ((ss_pc s)(i := Checking)) j \<noteq> Finished} = {j. j < n \<and> ss_pc s j \<noteq> Finished}" if "ss_pc s i \<noteq> Finished"
    using that by auto
  have sound: "config_ok R opt x" if "CheckSatisfied R x 0 (opt\<lparr> co_verbose := b \<rparr>) = Inr r" "cr_satisfied r" for x r b
    using CheckSatisfied_sound [OF that assms(4)] by (simp add: config_ok_def)
  show ?thesis
  proof (cases "ss_pc s i")
    case Waiting
    then show ?thesis using assms(1) shrink same by (auto simp: sample_next_def samples_inv_def)
  next
    case Checking
    show ?thesis
    proof (cases "try_sample solve R opt S i (drawn ! i) (ss_valid s)")
      case (Inl e)
      then show ?thesis using assms(1) Checking shrink by (auto simp: sample_next_def samples_inv_def)
    next
      case (Inr found)
      have "(\<forall>y \<in> set found. config_ok R opt y) \<and> length found \<le> Suc (length (ss_valid s))"
        using assms(1) sound [of _ "co_verbose opt"] sound [of _ True] by (intro try_sample_valid [OF assms(3) Inr]) (auto simp: samples_inv_def)
      then show ?thesis using assms(1) Checking Inr shrink by (auto simp: sample_next_def samples_inv_def)
    qed
  next
    case Finished
    then show ?thesis using assms(1) by (simp add: sample_next_def)
  qed
qed

text \<open>Under every schedule the samples that are generated satisfy the constraints, are at most as many as were drawn, and at most as
  many as asked for when they are truncated.\<close>

theorem samples_satisfy:
  assumes "GenerateSamples solve R opt S desired drawn sched = Inr found" "\<not> sm_invalid S" "\<forall>x. fits (rc_constraints R) x" "set sched \<subseteq> {..<length drawn}"
  shows "(\<forall>y \<in> set found. config_ok R opt y) \<and> length found \<le> length drawn \<and> (sm_truncate S \<longrightarrow> length found \<le> desired)"
proof -
  let ?s0 = "\<lparr> ss_pc = (\<lambda>_. Waiting), ss_valid = [], ss_terminated = False \<rparr>"
  have "samples_inv R opt (length drawn) (fold (sample_next solve R opt S desired drawn) sched s)" if "samples_inv R opt (length drawn) s" for s
    using that assms(4) by (induction sched arbitrary: s) (simp_all add: sample_next_inv assms(2,3))
  moreover have "samples_inv R opt (length drawn) ?s0" by (simp add: samples_inv_def)
  ultimately have inv: "samples_inv R opt (length drawn) (fold (sample_next solve R opt S desired drawn) sched ?s0)" by blast
  let ?v = "ss_valid (fold (sample_next solve R opt S desired drawn) sched ?s0)"
  have "(\<forall>y \<in> set ?v. config_ok R opt y) \<and> length ?v \<le> length drawn" using inv by (simp add: samples_inv_def)
  moreover have "found = ?v \<or> found = take (min (length ?v) desired) ?v" "sm_truncate S \<longrightarrow> length found \<le> desired"
    using assms(1) by (auto simp: GenerateSamples_def Let_def split: if_splits)
  ultimately show ?thesis by (auto dest: in_set_takeD)
qed

section \<open>Examples\<close>

text \<open>A robot with one position, between zero and one, that collides beyond three quarters.\<close>

definition unit_box :: nc_constraint where
  "unit_box = \<lparr> nc_description = ''joint_limits'', nc_eval = (\<lambda>x. [x ! 0]), nc_lower = [Some 0], nc_upper = [Some 1],
     nc_penalty = projr (MakePositionPenaltyFunc MinimumValuePenaltyParams [Some 0] [Some 1]), nc_gradient = (\<lambda>x. [[1]]) \<rparr>"

definition unit_checks :: "nc_constraint list \<Rightarrow> robot_constraints" where
  "unit_checks cs = \<lparr> rc_robot = sample_robot, rc_hm = \<lparr> hm_n = 1, hm_m = 1, is_identity = True, mimicking_joints = [], minimal_to_full = [], hm_instances = [] \<rparr>,
     rc_arms = [], rc_body_model = (\<lambda>b. 2), rc_threads = 2, rc_constraints = cs,
     rc_checker = Some \<lparr> ck_free = (\<lambda>x. x ! 0 < 3 / 4), ck_clearance = (\<lambda>x d. if 3 / 4 - x ! 0 \<le> d
       then [\<lparr> cl_robot = 1, cl_other = 2, cl_distance = 3 / 4 - x ! 0, cl_jacobian = [-1] \<rparr>] else []) \<rparr>,
     rc_collision_params = MinimumValuePenaltyParams, rc_describe = (\<lambda>cl. ''collision'') \<rparr>"

lemma default_options [simp]: "co_threads (CheckSatisfiedOptions n) = n" "\<not> co_penalty (CheckSatisfiedOptions n)"
  by (simp_all add: CheckSatisfiedOptions_def)

lemma unit_box_fits: "fits [unit_box] x"
  by (simp add: fits_def unit_box_def MakePositionPenaltyFunc_def)

lemma unit_checks_simps [simp]:
  "rc_constraints (unit_checks cs) = cs" "rc_threads (unit_checks cs) = 2" "hm_m (rc_hm (unit_checks cs)) = 1"
  "Lift (rc_hm (unit_checks cs)) q = Inr q" "rc_collision_params (unit_checks cs) = MinimumValuePenaltyParams"
  by (simp_all add: unit_checks_def Lift_def)

lemma unit_checkable: "checkable (unit_checks [unit_box]) q \<longleftrightarrow> length q = 1"
  using unit_box_fits by (simp add: checkable_def)

lemma unit_lifted: "length q = 1 \<Longrightarrow> lifted (unit_checks cs) 0 q = Inr q"
  by (simp add: lifted_def)

lemma unit_config_ok: "config_ok (unit_checks [unit_box]) (CheckSatisfiedOptions 4) [c] \<longleftrightarrow> - 1 / 1000 \<le> c \<and> c < 3 / 4"
  by (auto simp: config_ok_def unit_lifted satisfies_def nc_satisfied_def in_bounds_def unit_box_def CheckSatisfiedOptions_def unit_checks_def lifted_def Lift_def)

theorem check_satisfied_exact_witness:
  "\<exists>r p v. CheckSatisfied (unit_checks [unit_box]) [1] 0 (CheckSatisfiedOptions 4) = Inr r \<and> CalcPenalty (unit_checks [unit_box]) [1] 0 = Inr (p, v)
    \<and> \<not> cr_satisfied r"
  using check_satisfied_exact [of "unit_checks [unit_box]" 0 "[1]" "[1]" "CheckSatisfiedOptions 4", OF unit_lifted]
  by (auto simp: unit_box_fits satisfies_def unit_checks_def)

lemma two_by_two: "complete_schedule 2 [0, 1, 1, 0]"
  by (auto simp: complete_schedule_def less_2_cases_iff)

theorem schedule_irrelevant_witness:
  "\<exists>r. CheckSatisfiedVec (unit_checks [unit_box]) [[1 / 2], [1]] (CheckSatisfiedOptions 4) (\<lambda>i. i) [0, 1, 1, 0] = Inr r \<and> \<not> cr_satisfied r"
  using schedule_irrelevant [of "[[1 / 2], [1]]" "unit_checks [unit_box]" "[0, 1, 1, 0]" "CheckSatisfiedOptions 4" "\<lambda>i. i"] two_by_two
  by (auto simp: unit_checkable unit_config_ok numeral_2_eq_2 [symmetric])

lemma half_norm: "vnorm (vminus [0] [1 / 2]) < 1"
proof -
  have "sqrt ((1 / 2)\<^sup>2) < (1 :: real)" by (simp only: real_sqrt_abs)
  then show ?thesis by (simp add: vnorm_def vminus_def)
qed

theorem edge_check_covers_witness:
  "\<exists>q. config_ok (unit_checks [unit_box]) (CheckSatisfiedOptions 4) q \<and> vnorm (vminus (between [0] [1 / 2] (1 / 4)) q) \<le> 1 / 2"
proof -
  let ?R = "unit_checks [unit_box]" and ?opt = "CheckSatisfiedOptions 4"
  have s: "edge_samples [0] [1 / 2] 1 = [[0], [1 / 2]]" using half_norm by (simp add: edge_samples_def)
  have len: "complete_schedule (length [[0 :: real], [1 / 2]]) [0, 1, 1, 0]" using two_by_two by (simp add: numeral_2_eq_2)
  obtain r where r: "CheckSatisfiedVec ?R [[0], [1 / 2]] ?opt (\<lambda>i. i) [0, 1, 1, 0] = Inr r" "cr_satisfied r"
    using vec_verdict [of "[[0], [1 / 2]]" ?R "[0, 1, 1, 0]" ?opt "\<lambda>i. i", OF _ len] by (auto simp: unit_checkable unit_config_ok)
  show ?thesis
    by (rule edge_check_covers [of ?R "[0]" "[1 / 2]" 1 ?opt "\<lambda>i. i" "[0, 1, 1, 0]" r "1 / 4"])
      (use r len s unit_box_fits in \<open>simp_all add: CheckSatisfiedEdge_def unit_checkable\<close>)
qed

lemma two_samples: "sample_times 0 1 (1 / 2) = [0, 1 / 2]"
  by (simp add: sample_times.simps [of 0] sample_times.simps [of "1 / 2"] sample_times.simps [of 1])

theorem trajectory_end_unchecked_witness:
  "\<exists>r. CheckSatisfiedTrajectory (unit_checks [unit_box]) (\<lambda>t. [t]) 1 (1 / 2) (CheckSatisfiedOptions 4) (\<lambda>i. i) [0, 1, 1, 0] = Inr r
    \<and> cr_satisfied r \<and> \<not> config_ok (unit_checks [unit_box]) (CheckSatisfiedOptions 4) [1]"
proof -
  let ?R = "unit_checks [unit_box]" and ?opt = "CheckSatisfiedOptions 4"
  have len: "complete_schedule (length (sample_times 0 1 (1 / 2))) [0, 1, 1, 0]" using two_by_two unfolding two_samples by (simp add: numeral_2_eq_2)
  have ok: "config_ok ?R ?opt [real n * (1 / 2)]" if "real n * (1 / 2) < 1" for n
  proof -
    have "n < 2" using that by simp
    then show ?thesis by (auto simp: unit_config_ok less_2_cases_iff)
  qed
  show ?thesis
    using trajectory_end_unchecked [of "1 / 2" ?R "\<lambda>t. [t]" 1 "[0, 1, 1, 0]" ?opt "\<lambda>i. i", OF _ _ len] ok by (auto simp: unit_checkable unit_config_ok)
qed

theorem zero_penalty_is_clear_witness:
  "CalcPenalty (unit_checks [unit_box]) [1 / 2] 0 = Inr (Some 0, True) \<and> in_bounds_exactly unit_box (nc_eval unit_box [1 / 2])"
proof -
  have p: "nc_penalty unit_box [1 / 2] = Inr (Some 0)"
    by (simp add: unit_box_def MakePositionPenaltyFunc_def bound_penalty_def over_lower_def under_upper_def MakePenaltyFunc_def MinimumValuePenaltyParams_def)
  have e: "nc_eval unit_box [1 / 2] = [1 / 2]" by (simp add: unit_box_def)
  have c: "CalcPenalty (unit_checks [unit_box]) [1 / 2] 0 = Inr (Some 0, True)"
    by (simp add: CalcPenalty_def unit_lifted p e)
      (simp add: unit_checks_def nan_add_def collision_penalties_def in_bounds_exactly_def in_bounds_def unit_box_def MinimumValuePenaltyParams_def)
  have ok: "params_ok MinimumValuePenaltyParams" by (simp add: params_ok_def MinimumValuePenaltyParams_def)
  have "box_like unit_box" using ok by (auto simp: box_like_def unit_box_def MakePositionPenaltyFunc_def intro!: exI [of _ MinimumValuePenaltyParams])
  then show ?thesis using c zero_penalty_is_clear [OF c] ok by (auto simp: unit_lifted)
qed

definition right_angle :: angle_adapter where
  "right_angle = \<lparr> aa_frame_A = ''world'', aa_frame_B = ''tool'', aa_a = [0, 0, 1], aa_b = [0, 0, 1], aa_lower = 0, aa_upper = 3 / 2, aa_penalty = None \<rparr>"

definition tool_kinematics :: kinematics where
  "tool_kinematics = \<lparr> kn_frame = (\<lambda>f. f = ''tool''), kn_point = (\<lambda>f g p x. x), kn_cosine = (\<lambda>f g a b x. x ! 0), kn_point_gradient = (\<lambda>f g p x. []),
     kn_cosine_gradient = (\<lambda>f g a b x. [1]), kn_save_position = (\<lambda>a. ''position''), kn_save_angle = (\<lambda>a. ''angle''), kn_save_joints = (\<lambda>a. ''joints'') \<rparr>"

theorem angle_penalty_nan_witness: "\<exists>v. CalcPenalty (unit_checks [projr (angle_constraint tool_kinematics right_angle)]) [1 / 2] 0 = Inr (None, v)"
proof -
  obtain c where c: "angle_constraint tool_kinematics right_angle = Inr c" by (simp add: angle_constraint_def right_angle_def tool_kinematics_def scoped_frame_def)
  then have "fits [c] x" for x by (auto simp: fits_def angle_constraint_def bindE_Inr_iff MakeAnglePenaltyFunc_def split: if_splits)
  then show ?thesis using angle_penalty_nan [OF c, of "unit_checks [c]" 0 "[1 / 2]" "[1 / 2]"] c by (simp add: unit_lifted right_angle_def)
qed

theorem closest_on_edge_first_witness:
  "\<exists>res. CalcClosestSatisfyingConfigurationOnEdge (unit_checks [unit_box]) [1] [0] 0 (1 / 2) (CheckSatisfiedOptions 4) = Some (Inr res)"
  using closest_on_edge_first [of "1 / 2" "[1]" "unit_checks [unit_box]" "[0]" "CheckSatisfiedOptions 4"] by (auto simp: unit_checkable unit_config_ok)

end
