(* ===== verification/Collision_Setup.thy ===== *)
theory Collision_Setup
  imports Robot_Constraints Override Context_Store Kinematic_Hash
begin

text \<open>
  How the collision checker of a robot is set up, for good (\<open>RobotConstraints::CreateCollisionChecker\<close> in \<open>motion/robot_constraints.cc\<close>) and for one
  request (\<open>Draco::ApplyScopedCollisionOptions\<close> in \<open>draco/draco.cc\<close>), and what of it goes into the hash of the constraints.  A matrix is a
  list of rows.  Bodies are numbers; \<open>scene\<close> names the filter groups and the frames with their bodies.  Drake's checker keeps a padding
  matrix, a filter matrix, each of which it may refuse, and the shapes added to it, each with the identifier of its geometry.
\<close>

section \<open>Matrices over bodies\<close>

record scene =
  sc_groups :: "(string \<times> nat list) list"
  sc_frames :: "(string \<times> nat) list"
  sc_bodies :: "nat list"

type_synonym 'a grid = "'a list list"

definition entry :: "'a grid \<Rightarrow> nat \<Rightarrow> nat \<Rightarrow> 'a" where "entry m i j = m ! i ! j"

definition put_entry :: "nat \<Rightarrow> nat \<Rightarrow> 'a \<Rightarrow> 'a grid \<Rightarrow> 'a grid" where "put_entry i j x m = m[i := (m ! i)[j := x]]"

definition set_pair :: "'a \<Rightarrow> nat \<times> nat \<Rightarrow> 'a grid \<Rightarrow> 'a grid" where
  "set_pair x = (\<lambda>(i, j) m. if i = j then m else put_entry j i x (put_entry i j x m))"

definition known :: "scene \<Rightarrow> string \<Rightarrow> bool" where "known S k \<longleftrightarrow> k \<in> fst ` set (sc_groups S) \<or> k \<in> fst ` set (sc_frames S)"

text \<open>The bodies that a name stands for: all of them if it is not known, which the check lets pass for the empty name only.\<close>

definition bodies_named :: "scene \<Rightarrow> string \<Rightarrow> nat list" where
  "bodies_named S k = (case map_of (sc_groups S) k of Some bs \<Rightarrow> bs
     | None \<Rightarrow> (case map_of (sc_frames S) k of Some b \<Rightarrow> [b] | None \<Rightarrow> sc_bodies S))"

definition SetCollisionMatrix :: "scene \<Rightarrow> 'a \<Rightarrow> string \<Rightarrow> string \<Rightarrow> 'a grid \<Rightarrow> 'a grid throws" where
  "SetCollisionMatrix S x k1 k2 m = (if k1 \<noteq> '''' \<and> \<not> known S k1 then Inl ''body or group 1 not found''
     else if k2 \<noteq> '''' \<and> \<not> known S k2 then Inl ''body or group 2 not found''
     else Inr (fold (set_pair x) (List.product (bodies_named S k1) (bodies_named S k2)) m))"

definition SetFiltering :: "scene \<Rightarrow> string \<Rightarrow> string \<Rightarrow> int grid \<Rightarrow> int grid throws" where "SetFiltering S = SetCollisionMatrix S 1"

definition SetPadding :: "scene \<Rightarrow> real \<Rightarrow> string \<Rightarrow> string \<Rightarrow> real grid \<Rightarrow> real grid throws" where "SetPadding = SetCollisionMatrix"

text \<open>Drake's checker: which matrices it takes, and the filter that it got from the plant when it was first built, which later settings do
  not change.\<close>

record drake_checker =
  dc_accepts_filter :: "int grid \<Rightarrow> bool"
  dc_accepts_padding :: "real grid \<Rightarrow> bool"
  dc_nominal_filter :: "int grid"

definition CreateCollisionChecker :: "drake_checker \<Rightarrow> scene \<Rightarrow> checker_adapter \<Rightarrow> int grid \<Rightarrow> real grid \<Rightarrow> (int grid \<times> real grid) throws" where
  "CreateCollisionChecker D S A f p =
     bindE (foldE (\<lambda>k. SetFiltering S k '''') (case cc_groups A of None \<Rightarrow> [] | Some ks \<Rightarrow> ks) f) (\<lambda>f.
     bindE (foldE (\<lambda>(k1, k2). SetFiltering S k1 k2) (case cc_pairs A of None \<Rightarrow> [] | Some ks \<Rightarrow> ks) f) (\<lambda>f.
     if \<not> dc_accepts_filter D f then Inl ''SetCollisionFilterMatrix''
     else bindE (foldE (\<lambda>((k1, k2), d). SetPadding S d k1 k2) (case cc_paddings A of None \<Rightarrow> [] | Some ks \<Rightarrow> ks) p) (\<lambda>p.
       if \<not> dc_accepts_padding D p then Inl ''SetPaddingMatrix'' else Inr (f, p))))"

section \<open>Overriding for one request\<close>

record ('x, 's) shape_description =
  sd_name :: string
  sd_frame :: string
  sd_pose :: 'x
  sd_shape :: 's

record ('x, 's) collision_state =
  st_padding :: "real grid overrideable"
  st_filter :: "int grid overrideable"
  st_shapes :: "('x, 's) shape_description list overrideable"
  st_ids :: "(nat \<times> string) list"
  ck_padding :: "real grid"
  ck_filter :: "int grid"
  ck_shapes :: "(nat \<times> string \<times> 'x \<times> 's) list"
  ck_next_id :: nat

record ('x, 's) collision_env =
  ce_has_checker :: bool
  ce_scene :: scene
  ce_drake :: drake_checker
  ce_accepts_shape :: "'s \<Rightarrow> bool"
  ce_relative :: "string \<Rightarrow> 'x"
  ce_mul :: "'x \<Rightarrow> 'x \<Rightarrow> 'x"

text \<open>The part of the constructor of \<open>RobotConstraints\<close> that makes the checker and gives the overrideables their first values.  The matrices
  \<open>f\<close> and \<open>p\<close> are those of the clone of the default checker.  The padding kept for later is that of the new checker; the filter kept is
  the nominal one, and not the one just configured.\<close>

definition SetUpCollision :: "('x, 's) collision_env \<Rightarrow> checker_adapter option \<Rightarrow> int grid \<Rightarrow> real grid \<Rightarrow> nat \<Rightarrow> ('x, 's) collision_state throws" where
  "SetUpCollision E adapter f p next_id = (case adapter of
       None \<Rightarrow> Inr \<lparr> st_padding = Overrideable_default, st_filter = Overrideable_default, st_shapes = Overrideable_default, st_ids = [],
         ck_padding = [], ck_filter = [], ck_shapes = [], ck_next_id = next_id \<rparr>
     | Some A \<Rightarrow> bindE (CreateCollisionChecker (ce_drake E) (ce_scene E) A f p) (\<lambda>(f, p).
         bindE (initialize p Overrideable_default) (\<lambda>sp. bindE (initialize (dc_nominal_filter (ce_drake E)) Overrideable_default) (\<lambda>sf.
         bindE (initialize [] Overrideable_default) (\<lambda>ss.
         Inr \<lparr> st_padding = sp, st_filter = sf, st_shapes = ss, st_ids = [], ck_padding = p, ck_filter = f, ck_shapes = [], ck_next_id = next_id \<rparr>)))))"

definition SetActivePaddingMatrix :: "('x, 's) collision_env \<Rightarrow> (('x, 's) collision_state, unit) action" where
  "SetActivePaddingMatrix E s = (if \<not> ce_has_checker E then (Inl drake_throw, s) else case ov_value (st_padding s) of
       Inl e \<Rightarrow> (Inl e, s)
     | Inr m \<Rightarrow> if dc_accepts_padding (ce_drake E) m then (Inr (), s\<lparr> ck_padding := m \<rparr>) else (Inl ''SetPaddingMatrix'', s))"

definition SetActiveCollisionFilterMatrix :: "('x, 's) collision_env \<Rightarrow> (('x, 's) collision_state, unit) action" where
  "SetActiveCollisionFilterMatrix E s = (if \<not> ce_has_checker E then (Inl drake_throw, s) else case ov_value (st_filter s) of
       Inl e \<Rightarrow> (Inl e, s)
     | Inr m \<Rightarrow> if dc_accepts_filter (ce_drake E) m then (Inr (), s\<lparr> ck_filter := m \<rparr>) else (Inl ''SetCollisionFilterMatrix'', s))"

definition add_shape :: "('x, 's) collision_env \<Rightarrow> ('x, 's) shape_description \<Rightarrow> (('x, 's) collision_state, unit) action" where
  "add_shape E d s = (if sd_frame d \<noteq> ''world'' \<and> sd_frame d \<notin> fst ` set (sc_frames (ce_scene E)) then (Inl ''GetScopedFrameByName'', s)
     else if \<not> ce_accepts_shape E (sd_shape d) then (Inl ''Failed to add shape'', s)
     else let i = ck_next_id s in (Inr (), s\<lparr> ck_shapes := ck_shapes s @ [(i, sd_name d, ce_mul E (ce_relative E (sd_frame d)) (sd_pose d), sd_shape d)],
       ck_next_id := i + 1, st_ids := st_ids s @ [(i, sd_name d)] \<rparr>))"

definition AddCollisionShapes :: "('x, 's) collision_env \<Rightarrow> (('x, 's) collision_state, unit) action" where
  "AddCollisionShapes E s = (if \<not> ce_has_checker E then (Inl drake_throw, s)
     else case ov_value (st_shapes s) of Inl _ \<Rightarrow> (Inr (), s) | Inr ds \<Rightarrow> forX ds (add_shape E) s)"

text \<open>Drake removes all shapes added under a name.\<close>

definition RemoveAllAddedCollisionShapes :: "('x, 's) collision_env \<Rightarrow> (('x, 's) collision_state, unit) action" where
  "RemoveAllAddedCollisionShapes E s = (if \<not> ce_has_checker E then (Inl drake_throw, s)
     else (Inr (), s\<lparr> ck_shapes := fold (\<lambda>(_, k). filter (\<lambda>(_, k', _). k' \<noteq> k)) (st_ids s) (ck_shapes s), st_ids := [] \<rparr>))"

text \<open>The life of a \<open>ScopedOverride\<close> on a member of the state, with its callbacks: acquiring, setting and the destructor, in which an
  exception ends the process.\<close>

definition begin_scope :: "('s \<Rightarrow> 'v overrideable) \<Rightarrow> ('v overrideable \<Rightarrow> 's \<Rightarrow> 's) \<Rightarrow> token \<Rightarrow> ('s, unit) action" where
  "begin_scope get put tok s = (case set_owner tok True (get s) of Inl e \<Rightarrow> (Inl e, s) | Inr o' \<Rightarrow> (Inr (), put o' s))"

definition set_scope :: "('s \<Rightarrow> 'v overrideable) \<Rightarrow> ('v overrideable \<Rightarrow> 's \<Rightarrow> 's) \<Rightarrow> token \<Rightarrow> ('s, unit) action \<Rightarrow> 'v \<Rightarrow> ('s, unit) action" where
  "set_scope get put tok callback v s = (case ov_set tok v (get s) of Inl e \<Rightarrow> (Inl e, s) | Inr o' \<Rightarrow> callback (put o' s))"

definition end_scope :: "('s \<Rightarrow> 'v overrideable) \<Rightarrow> ('v overrideable \<Rightarrow> 's \<Rightarrow> 's) \<Rightarrow> token \<Rightarrow> ('s, unit) action \<Rightarrow> ('s, unit) action" where
  "end_scope get put tok callback s =
     (case (if overridden (get s) then (case ov_restore tok (get s) of Inl e \<Rightarrow> (Inl e, s) | Inr o' \<Rightarrow> callback (put o' s)) else (Inr (), s)) of
        (Inl e, s) \<Rightarrow> (Inl ''std::terminate'', s)
      | (Inr _, s) \<Rightarrow> (case ov_release tok (get s) of Inl e \<Rightarrow> (Inl ''std::terminate'', s) | Inr o' \<Rightarrow> (Inr (), put o' s)))"

text \<open>An exception in what follows first runs the destructor.\<close>

definition guarded :: "('s, unit) action \<Rightarrow> ('s, 'a) action \<Rightarrow> ('s, 'a) action" where
  "guarded cleanup act s = (case act s of
       (Inr x, s1) \<Rightarrow> (Inr x, s1)
     | (Inl e, s1) \<Rightarrow> if e = ''std::terminate'' then (Inl e, s1)
         else case cleanup s1 of (Inl e', s2) \<Rightarrow> (Inl e', s2) | (Inr _, s2) \<Rightarrow> (Inl e, s2))"

record ('x, 's) collision_options =
  op_paddings :: "((string \<times> string) \<times> real) list"
  op_filtered :: "(string \<times> string) list"
  op_shapes :: "(string \<times> string \<times> 'x \<times> 's) list"

text \<open>A shape comes with its type, the frame it is in and its pose there; it is named after its type and their number.\<close>

definition describe_shapes :: "(string \<times> string \<times> 'x \<times> 's) list \<Rightarrow> ('x, 's) shape_description list" where
  "describe_shapes shapes = snd (fold (\<lambda>(ty, frame, X, sh) (count, ds).
       (count(ty := count ty + 1), ds @ [\<lparr> sd_name = ty @ ''_'' @ decimal (count ty), sd_frame = (if frame = '''' then ''world'' else frame),
          sd_pose = X, sd_shape = sh \<rparr>])) shapes ((\<lambda>_. 0 :: nat), []))"

definition link_level :: "(string \<times> string) \<times> real \<Rightarrow> bool" where
  "link_level = (\<lambda>((k1, k2), _). sublist ''::'' k1 \<or> sublist ''::'' k2)"

text \<open>The paddings sorted so that those of links come last; the code only uses them for a message.\<close>

definition paddings_sorted :: "((string \<times> string) \<times> real) list \<Rightarrow> ((string \<times> string) \<times> real) list" where
  "paddings_sorted = sort_key link_level"

definition apply_shapes :: "('x, 's) collision_env \<Rightarrow> token \<Rightarrow> ('x, 's) collision_options \<Rightarrow> (('x, 's) collision_state, unit) action" where
  "apply_shapes E tok opt = bindX (\<lambda>s. (check_has_value (st_shapes s), s)) (\<lambda>ds.
     set_scope st_shapes (\<lambda>o' s. s\<lparr> st_shapes := o' \<rparr>) tok (AddCollisionShapes E) (ds @ describe_shapes (op_shapes opt)))"

definition apply_paddings :: "('x, 's) collision_env \<Rightarrow> token \<Rightarrow> ('x, 's) collision_options \<Rightarrow> (('x, 's) collision_state, unit) action" where
  "apply_paddings E tok opt = bindX (\<lambda>s. (check_has_value (st_padding s), s)) (\<lambda>m.
     bindX (liftX (foldE (\<lambda>((k1, k2), d). SetPadding (ce_scene E) d k1 k2) (op_paddings opt) m)) (\<lambda>m.
       set_scope st_padding (\<lambda>o' s. s\<lparr> st_padding := o' \<rparr>) tok (SetActivePaddingMatrix E) m))"

definition apply_filters :: "('x, 's) collision_env \<Rightarrow> token \<Rightarrow> ('x, 's) collision_options \<Rightarrow> (('x, 's) collision_state, unit) action" where
  "apply_filters E tok opt = bindX (\<lambda>s. (check_has_value (st_filter s), s)) (\<lambda>m.
     bindX (liftX (foldE (\<lambda>(k1, k2). SetFiltering (ce_scene E) k1 k2) (op_filtered opt) m)) (\<lambda>m.
       set_scope st_filter (\<lambda>o' s. s\<lparr> st_filter := o' \<rparr>) tok (SetActiveCollisionFilterMatrix E) m))"

text \<open>The destructors, whose callbacks are only there if there are options.\<close>

definition end_padding :: "('x, 's) collision_env \<Rightarrow> token \<Rightarrow> (('x, 's) collision_state, unit) action" where
  "end_padding E tok = end_scope st_padding (\<lambda>o' s. s\<lparr> st_padding := o' \<rparr>) tok (SetActivePaddingMatrix E)"

definition end_filter :: "('x, 's) collision_env \<Rightarrow> token \<Rightarrow> (('x, 's) collision_state, unit) action" where
  "end_filter E tok = end_scope st_filter (\<lambda>o' s. s\<lparr> st_filter := o' \<rparr>) tok (SetActiveCollisionFilterMatrix E)"

definition end_shapes :: "('x, 's) collision_env \<Rightarrow> token \<Rightarrow> (('x, 's) collision_state, unit) action" where
  "end_shapes E tok = end_scope st_shapes (\<lambda>o' s. s\<lparr> st_shapes := o' \<rparr>) tok (RemoveAllAddedCollisionShapes E)"

definition ApplyScopedCollisionOptions :: "('x, 's) collision_env \<Rightarrow> token \<times> token \<times> token \<Rightarrow> ('x, 's) collision_options option
    \<Rightarrow> (('x, 's) collision_state, unit) action" where
  "ApplyScopedCollisionOptions E = (\<lambda>(t1, t2, t3) maybe.
     bindX (begin_scope st_padding (\<lambda>o' s. s\<lparr> st_padding := o' \<rparr>) t1) (\<lambda>_. guarded (end_padding E t1)
     (bindX (begin_scope st_filter (\<lambda>o' s. s\<lparr> st_filter := o' \<rparr>) t2) (\<lambda>_. guarded (end_filter E t2)
     (bindX (begin_scope st_shapes (\<lambda>o' s. s\<lparr> st_shapes := o' \<rparr>) t3) (\<lambda>_. guarded (end_shapes E t3)
       (case maybe of None \<Rightarrow> returnX ()
        | Some opt \<Rightarrow> bindX (apply_shapes E t3 opt) (\<lambda>_. bindX (apply_paddings E t1 opt) (\<lambda>_. apply_filters E t2 opt)))))))))"

definition CollisionOptionsScope_end :: "('x, 's) collision_env \<Rightarrow> token \<times> token \<times> token \<Rightarrow> (('x, 's) collision_state, unit) action" where
  "CollisionOptionsScope_end E = (\<lambda>(t1, t2, t3). bindX (end_shapes E t3) (\<lambda>_. bindX (end_filter E t2) (\<lambda>_. end_padding E t1)))"

section \<open>The scope ends where it began\<close>

text \<open>A value that nobody overrides, and one that is held by the scope with token \<open>t\<close>, perhaps with another value.\<close>

definition quiet :: "'v overrideable \<Rightarrow> 'v \<Rightarrow> bool" where
  "quiet o' v \<longleftrightarrow> curr_value o' = Some v \<and> last_value o' = None \<and> \<not> overridden o' \<and> owner_token o' = 0"

definition held :: "token \<Rightarrow> 'v overrideable \<Rightarrow> 'v overrideable" where "held t o' = o'\<lparr> owner_token := t \<rparr>"

definition replaced :: "token \<Rightarrow> 'v \<Rightarrow> 'v overrideable \<Rightarrow> 'v overrideable" where
  "replaced t w o' = o'\<lparr> owner_token := t, last_value := curr_value o', overridden := True, curr_value := Some w \<rparr>"

text \<open>Ready for a request.  The padding kept is that of the checker; of the filter kept it is only known that Drake takes it.\<close>

definition kept_filter :: "('x, 's) collision_state \<Rightarrow> int grid" where "kept_filter s = the (curr_value (st_filter s))"

definition ready :: "('x, 's) collision_env \<Rightarrow> ('x, 's) collision_state \<Rightarrow> bool" where
  "ready E s \<longleftrightarrow> ce_has_checker E \<and> quiet (st_padding s) (ck_padding s) \<and> quiet (st_filter s) (kept_filter s) \<and> quiet (st_shapes s) []
     \<and> ck_shapes s = [] \<and> st_ids s = [] \<and> dc_accepts_padding (ce_drake E) (ck_padding s) \<and> dc_accepts_filter (ce_drake E) (kept_filter s)"

lemma set_up_ready:
  assumes "SetUpCollision E (Some A) f p i = Inr s" "ce_has_checker E" "dc_accepts_filter (ce_drake E) (dc_nominal_filter (ce_drake E))"
  shows "ready E s" "kept_filter s = dc_nominal_filter (ce_drake E)" "CreateCollisionChecker (ce_drake E) (ce_scene E) A f p = Inr (ck_filter s, ck_padding s)"
proof -
  obtain f' p' where c: "CreateCollisionChecker (ce_drake E) (ce_scene E) A f p = Inr (f', p')" using assms(1) by (auto simp: SetUpCollision_def bindE_Inr_iff)
  then have "dc_accepts_padding (ce_drake E) p'" by (auto simp: CreateCollisionChecker_def bindE_Inr_iff split: if_splits)
  then show "ready E s" "kept_filter s = dc_nominal_filter (ce_drake E)"
      "CreateCollisionChecker (ce_drake E) (ce_scene E) A f p = Inr (ck_filter s, ck_padding s)"
    using assms c by (auto simp: SetUpCollision_def initialize_def Overrideable_default_def ready_def quiet_def kept_filter_def)
qed

text \<open>Between its beginning and its end, a scope over \<open>s0\<close> is in a state like this.\<close>

definition padding_held :: "token \<Rightarrow> ('x, 's) collision_state \<Rightarrow> ('x, 's) collision_state \<Rightarrow> bool" where
  "padding_held t s0 s \<longleftrightarrow> (st_padding s = held t (st_padding s0) \<and> ck_padding s = ck_padding s0) \<or> (\<exists>w. st_padding s = replaced t w (st_padding s0))"

definition filter_held :: "token \<Rightarrow> ('x, 's) collision_state \<Rightarrow> ('x, 's) collision_state \<Rightarrow> bool" where
  "filter_held t s0 s \<longleftrightarrow> (st_filter s = held t (st_filter s0) \<and> ck_filter s = ck_filter s0) \<or> (\<exists>w. st_filter s = replaced t w (st_filter s0))"

definition shapes_held :: "token \<Rightarrow> ('x, 's) collision_state \<Rightarrow> ('x, 's) collision_state \<Rightarrow> bool" where
  "shapes_held t s0 s \<longleftrightarrow> (st_shapes s = held t (st_shapes s0) \<and> ck_shapes s = [] \<and> st_ids s = [])
     \<or> ((\<exists>w. st_shapes s = replaced t w (st_shapes s0)) \<and> (\<forall>(i, k, x) \<in> set (ck_shapes s). k \<in> snd ` set (st_ids s)))"

lemma held_release:
  assumes "quiet o' v"
  shows "ov_release t (held t o') = Inr o'" "\<not> overridden (held t o')"
  using assms by (cases o'; simp add: quiet_def held_def ov_release_def check_mutable_def)+

lemma replaced_restore:
  assumes "quiet o' v"
  shows "ov_restore t (replaced t w o') = Inr (held t o')" "overridden (replaced t w o')"
  using assms by (cases o'; simp add: quiet_def held_def replaced_def ov_restore_def check_mutable_def)+

lemma end_padding_back:
  assumes "ready E s0" "padding_held t s0 s"
  shows "end_padding E t s = (Inr (), s\<lparr> st_padding := st_padding s0, ck_padding := ck_padding s0 \<rparr>)"
  using assms(2) unfolding padding_held_def
proof (elim disjE exE conjE)
  assume "st_padding s = held t (st_padding s0)" "ck_padding s = ck_padding s0"
  moreover have q: "quiet (st_padding s0) (ck_padding s0)" using assms(1) by (simp add: ready_def)
  ultimately show ?thesis by (cases s) (simp add: end_padding_def end_scope_def held_release [OF q])
next
  fix w assume w: "st_padding s = replaced t w (st_padding s0)"
  have q: "quiet (st_padding s0) (ck_padding s0)" "ce_has_checker E" "dc_accepts_padding (ce_drake E) (ck_padding s0)" using assms(1) by (simp_all add: ready_def)
  then have "ov_value (held t (st_padding s0)) = Inr (ck_padding s0)" by (simp add: quiet_def held_def ov_value_def check_has_value_def)
  then show ?thesis using q w by (simp add: end_padding_def end_scope_def replaced_restore [OF q(1)] held_release(1) [OF q(1)] SetActivePaddingMatrix_def)
qed

text \<open>A filter that was set gives way to the one that was kept, which need not be the one that the checker had before.\<close>

lemma end_filter_back:
  assumes "ready E s0" "filter_held t s0 s"
  shows "end_filter E t s = (Inr (), s\<lparr> st_filter := st_filter s0, ck_filter := (if overridden (st_filter s) then kept_filter s0 else ck_filter s0) \<rparr>)"
  using assms(2) unfolding filter_held_def
proof (elim disjE exE conjE)
  assume "st_filter s = held t (st_filter s0)" "ck_filter s = ck_filter s0"
  moreover have q: "quiet (st_filter s0) (kept_filter s0)" using assms(1) by (simp add: ready_def)
  ultimately show ?thesis by (cases s) (simp add: end_filter_def end_scope_def held_release [OF q])
next
  fix w assume w: "st_filter s = replaced t w (st_filter s0)"
  have q: "quiet (st_filter s0) (kept_filter s0)" "ce_has_checker E" "dc_accepts_filter (ce_drake E) (kept_filter s0)" using assms(1) by (simp_all add: ready_def)
  then have "ov_value (held t (st_filter s0)) = Inr (kept_filter s0)" by (simp add: quiet_def held_def ov_value_def check_has_value_def)
  then show ?thesis using q w by (simp add: end_filter_def end_scope_def replaced_restore [OF q(1)] held_release(1) [OF q(1)] SetActiveCollisionFilterMatrix_def)
qed

lemma remove_named: "fold (\<lambda>(_, k). filter (\<lambda>(_, k', _). k' \<noteq> k)) ids xs = filter (\<lambda>(_, k', _). k' \<notin> snd ` set ids) xs"
  by (induction ids arbitrary: xs) (simp_all add: split_def conj_commute)

lemma end_shapes_back:
  assumes "ready E s0" "shapes_held t s0 s"
  shows "end_shapes E t s = (Inr (), s\<lparr> st_shapes := st_shapes s0, ck_shapes := [], st_ids := [] \<rparr>)"
  using assms(2) unfolding shapes_held_def
proof (elim disjE exE conjE)
  assume "st_shapes s = held t (st_shapes s0)" "ck_shapes s = []" "st_ids s = []"
  moreover have q: "quiet (st_shapes s0) []" using assms(1) by (simp add: ready_def)
  ultimately show ?thesis by (cases s) (simp add: end_shapes_def end_scope_def held_release [OF q])
next
  fix w assume w: "st_shapes s = replaced t w (st_shapes s0)" "\<forall>(i, k, x) \<in> set (ck_shapes s). k \<in> snd ` set (st_ids s)"
  have q: "quiet (st_shapes s0) []" "ce_has_checker E" using assms(1) by (simp_all add: ready_def)
  have "filter (\<lambda>(_, k', _). k' \<notin> snd ` set (st_ids s)) (ck_shapes s) = []" using w(2) by (fastforce simp: filter_empty_conv)
  then show ?thesis using q w
    by (simp add: end_shapes_def end_scope_def replaced_restore [OF q(1)] held_release(1) [OF q(1)] RemoveAllAddedCollisionShapes_def remove_named)
qed

definition not_terminated :: "'a throws \<Rightarrow> bool" where "not_terminated r \<longleftrightarrow> r \<noteq> Inl ''std::terminate''"

lemma ov_set_held: "quiet o' v \<Longrightarrow> ov_set t w (held t o') = Inr (replaced t w o')"
  by (cases o') (simp add: quiet_def held_def replaced_def ov_set_def check_mutable_def check_overridden_def)

lemma add_shape_cases:
  "add_shape E d s = (r, s') \<Longrightarrow> not_terminated r \<and> (s' = s \<or> (\<exists>x. s' = s\<lparr> ck_shapes := ck_shapes s @ [(ck_next_id s, sd_name d, x)],
     ck_next_id := ck_next_id s + 1, st_ids := st_ids s @ [(ck_next_id s, sd_name d)] \<rparr>))"
  by (auto simp: add_shape_def not_terminated_def Let_def split: if_splits)

text \<open>Adding shapes leaves the rest alone, and every shape added is on record.\<close>

definition shapes_only :: "('x, 's) collision_state \<Rightarrow> ('x, 's) collision_state \<Rightarrow> bool" where
  "shapes_only s s' \<longleftrightarrow> st_padding s' = st_padding s \<and> st_filter s' = st_filter s \<and> st_shapes s' = st_shapes s \<and> ck_padding s' = ck_padding s
     \<and> ck_filter s' = ck_filter s \<and> ((\<forall>(i, k, x) \<in> set (ck_shapes s). k \<in> snd ` set (st_ids s)) \<longrightarrow> (\<forall>(i, k, x) \<in> set (ck_shapes s'). k \<in> snd ` set (st_ids s')))"

lemma shapes_only_trans: "shapes_only s s' \<Longrightarrow> shapes_only s' s'' \<Longrightarrow> shapes_only s s''"
  by (auto simp: shapes_only_def)

lemma add_shape_only: "add_shape E d s = (r, s') \<Longrightarrow> not_terminated r \<and> shapes_only s s'"
  by (drule add_shape_cases) (auto simp: shapes_only_def)

lemma add_shapes_only: "forX ds (add_shape E) s = (r, s') \<Longrightarrow> not_terminated r \<and> shapes_only s s'"
proof (induction ds arbitrary: s)
  case (Cons d ds)
  obtain r1 s1 where a: "add_shape E d s = (r1, s1)" by (cases "add_shape E d s")
  show ?case
  proof (cases r1)
    case (Inl e)
    then show ?thesis using Cons.prems a add_shape_only [OF a] by (auto simp: bindX_def not_terminated_def)
  next
    case (Inr u)
    then have "forX ds (add_shape E) s1 = (r, s')" using Cons.prems a by (simp add: bindX_def)
    then show ?thesis using Cons.IH add_shape_only [OF a] shapes_only_trans by blast
  qed
qed (auto simp: returnX_def not_terminated_def shapes_only_def)

lemma apply_shapes_held:
  assumes "ready E s0" "st_shapes s = held t (st_shapes s0)" "ck_shapes s = []" "st_ids s = []" "apply_shapes E t opt s = (r, s')"
  shows "not_terminated r \<and> shapes_held t s0 s' \<and> st_padding s' = st_padding s \<and> st_filter s' = st_filter s \<and> ck_padding s' = ck_padding s \<and> ck_filter s' = ck_filter s"
proof -
  have q: "quiet (st_shapes s0) []" "ce_has_checker E" using assms(1) by (simp_all add: ready_def)
  have v: "check_has_value (held t (st_shapes s0)) = Inr []" using q(1) by (simp add: quiet_def held_def check_has_value_def)
  let ?w = "describe_shapes (op_shapes opt)" and ?o = "replaced t (describe_shapes (op_shapes opt)) (st_shapes s0)"
  have "ov_value ?o = Inr ?w" by (simp add: replaced_def ov_value_def check_has_value_def)
  then have "forX ?w (add_shape E) (s\<lparr> st_shapes := ?o \<rparr>) = (r, s')"
    using assms(5) q v by (simp add: apply_shapes_def bindX_def assms(2) set_scope_def ov_set_held [OF q(1)] AddCollisionShapes_def)
  then have "not_terminated r \<and> shapes_only (s\<lparr> st_shapes := ?o \<rparr>) s'" by (rule add_shapes_only)
  then show ?thesis using assms(3) by (auto simp: shapes_only_def shapes_held_def)
qed

lemma SetCollisionMatrix_error: "SetCollisionMatrix S x k1 k2 m = Inl e \<Longrightarrow> e \<noteq> ''std::terminate''"
  by (auto simp: SetCollisionMatrix_def split: if_splits)

lemma set_matrices_error: "foldE (\<lambda>x. SetCollisionMatrix S (v x) (k1 x) (k2 x)) xs m = Inl e \<Longrightarrow> e \<noteq> ''std::terminate''"
proof (induction xs arbitrary: m)
  case (Cons x xs)
  then show ?case by (cases "SetCollisionMatrix S (v x) (k1 x) (k2 x) m") (auto dest: SetCollisionMatrix_error)
qed simp

lemma apply_paddings_held:
  assumes "ready E s0" "st_padding s = held t (st_padding s0)" "ck_padding s = ck_padding s0" "apply_paddings E t opt s = (r, s')"
  shows "not_terminated r \<and> padding_held t s0 s' \<and> (\<exists>o' m. s' = s\<lparr> st_padding := o', ck_padding := m \<rparr>)
    \<and> (r = Inr () \<longrightarrow> foldE (\<lambda>((k1, k2), d). SetPadding (ce_scene E) d k1 k2) (op_paddings opt) (ck_padding s0) = Inr (ck_padding s'))"
proof -
  have q: "quiet (st_padding s0) (ck_padding s0)" "ce_has_checker E" using assms(1) by (simp_all add: ready_def)
  have v: "check_has_value (held t (st_padding s0)) = Inr (ck_padding s0)" using q(1) by (simp add: quiet_def held_def check_has_value_def)
  let ?fold = "foldE (\<lambda>((k1, k2), d). SetPadding (ce_scene E) d k1 k2) (op_paddings opt) (ck_padding s0)"
  have same: "\<exists>o' m. s = s\<lparr> st_padding := o', ck_padding := m \<rparr>" by (intro exI [of _ "st_padding s"] exI [of _ "ck_padding s"]) simp
  show ?thesis
  proof (cases ?fold)
    case (Inl e)
    have "e \<noteq> ''std::terminate''"
      using set_matrices_error [of "ce_scene E" snd "\<lambda>x. fst (fst x)" "\<lambda>x. snd (fst x)" "op_paddings opt" "ck_padding s0" e] Inl
      by (simp add: SetPadding_def split_def)
    moreover have "r = Inl e" "s' = s" using assms(4) v Inl by (simp_all add: apply_paddings_def bindX_def assms(2))
    ultimately show ?thesis using same assms(2,3) by (auto simp: not_terminated_def padding_held_def)
  next
    case (Inr m)
    let ?s = "s\<lparr> st_padding := replaced t m (st_padding s0) \<rparr>"
    have "ov_value (replaced t m (st_padding s0)) = Inr m" by (simp add: replaced_def ov_value_def check_has_value_def)
    then have res: "(r, s') = (if dc_accepts_padding (ce_drake E) m then (Inr (), ?s\<lparr> ck_padding := m \<rparr>) else (Inl ''SetPaddingMatrix'', ?s))"
      using assms(4) v Inr q(2) by (simp add: apply_paddings_def bindX_def assms(2) set_scope_def ov_set_held [OF q(1)] SetActivePaddingMatrix_def)
    then have s': "s' = ?s\<lparr> ck_padding := (if dc_accepts_padding (ce_drake E) m then m else ck_padding s) \<rparr>" by (auto split: if_splits)
    have "padding_held t s0 s'" unfolding padding_held_def s' by auto
    moreover have "\<exists>o' m. s' = s\<lparr> st_padding := o', ck_padding := m \<rparr>" unfolding s' by blast
    moreover have "not_terminated r \<and> (r = Inr () \<longrightarrow> ?fold = Inr (ck_padding s'))" using res Inr by (auto simp: not_terminated_def split: if_splits)
    ultimately show ?thesis by blast
  qed
qed

lemma apply_filters_held:
  assumes "ready E s0" "st_filter s = held t (st_filter s0)" "ck_filter s = ck_filter s0" "apply_filters E t opt s = (r, s')"
  shows "not_terminated r \<and> filter_held t s0 s' \<and> (\<exists>o' m. s' = s\<lparr> st_filter := o', ck_filter := m \<rparr>)
    \<and> (r = Inr () \<longrightarrow> overridden (st_filter s') \<and> foldE (\<lambda>(k1, k2). SetFiltering (ce_scene E) k1 k2) (op_filtered opt) (kept_filter s0) = Inr (ck_filter s'))"
proof -
  have q: "quiet (st_filter s0) (kept_filter s0)" "ce_has_checker E" using assms(1) by (simp_all add: ready_def)
  have v: "check_has_value (held t (st_filter s0)) = Inr (kept_filter s0)" using q(1) by (simp add: quiet_def held_def check_has_value_def)
  let ?fold = "foldE (\<lambda>(k1, k2). SetFiltering (ce_scene E) k1 k2) (op_filtered opt) (kept_filter s0)"
  have same: "\<exists>o' m. s = s\<lparr> st_filter := o', ck_filter := m \<rparr>" by (intro exI [of _ "st_filter s"] exI [of _ "ck_filter s"]) simp
  show ?thesis
  proof (cases ?fold)
    case (Inl e)
    have "e \<noteq> ''std::terminate''"
      using set_matrices_error [of "ce_scene E" "\<lambda>_. 1" fst snd "op_filtered opt" "kept_filter s0" e] Inl by (simp add: SetFiltering_def split_def)
    moreover have "r = Inl e" "s' = s" using assms(4) v Inl by (simp_all add: apply_filters_def bindX_def assms(2))
    ultimately show ?thesis using same assms(2,3) by (auto simp: not_terminated_def filter_held_def)
  next
    case (Inr m)
    let ?s = "s\<lparr> st_filter := replaced t m (st_filter s0) \<rparr>"
    have "ov_value (replaced t m (st_filter s0)) = Inr m" by (simp add: replaced_def ov_value_def check_has_value_def)
    then have res: "(r, s') = (if dc_accepts_filter (ce_drake E) m then (Inr (), ?s\<lparr> ck_filter := m \<rparr>) else (Inl ''SetCollisionFilterMatrix'', ?s))"
      using assms(4) v Inr q(2) by (simp add: apply_filters_def bindX_def assms(2) set_scope_def ov_set_held [OF q(1)] SetActiveCollisionFilterMatrix_def)
    then have s': "s' = ?s\<lparr> ck_filter := (if dc_accepts_filter (ce_drake E) m then m else ck_filter s) \<rparr>" by (auto split: if_splits)
    have "filter_held t s0 s'" unfolding filter_held_def s' by auto
    moreover have "\<exists>o' m. s' = s\<lparr> st_filter := o', ck_filter := m \<rparr>" unfolding s' by blast
    moreover have "not_terminated r \<and> (r = Inr () \<longrightarrow> overridden (st_filter s') \<and> ?fold = Inr (ck_filter s'))"
      using res Inr by (auto simp: not_terminated_def replaced_def split: if_splits)
    ultimately show ?thesis by blast
  qed
qed

definition begun :: "token \<times> token \<times> token \<Rightarrow> ('x, 's) collision_state \<Rightarrow> ('x, 's) collision_state" where
  "begun = (\<lambda>(t1, t2, t3) s. s\<lparr> st_padding := held t1 (st_padding s), st_filter := held t2 (st_filter s), st_shapes := held t3 (st_shapes s) \<rparr>)"

definition all_held :: "token \<times> token \<times> token \<Rightarrow> ('x, 's) collision_state \<Rightarrow> ('x, 's) collision_state \<Rightarrow> bool" where
  "all_held = (\<lambda>(t1, t2, t3) s0 s. padding_held t1 s0 s \<and> filter_held t2 s0 s \<and> shapes_held t3 s0 s)"

text \<open>What the options make of the matrices of the checker: they start from the padding that it has and from the filter that was kept.\<close>

definition overridden_matrices :: "('x, 's) collision_env \<Rightarrow> ('x, 's) collision_options \<Rightarrow> ('x, 's) collision_state \<Rightarrow> ('x, 's) collision_state \<Rightarrow> bool" where
  "overridden_matrices E opt s0 s \<longleftrightarrow> foldE (\<lambda>((k1, k2), d). SetPadding (ce_scene E) d k1 k2) (op_paddings opt) (ck_padding s0) = Inr (ck_padding s)
     \<and> foldE (\<lambda>(k1, k2). SetFiltering (ce_scene E) k1 k2) (op_filtered opt) (kept_filter s0) = Inr (ck_filter s)"

lemma options_held:
  assumes "ready E s0" "bindX (apply_shapes E t3 opt) (\<lambda>_. bindX (apply_paddings E t1 opt) (\<lambda>_. apply_filters E t2 opt)) (begun (t1, t2, t3) s0) = (r, s)"
  shows "not_terminated r \<and> all_held (t1, t2, t3) s0 s \<and> (r = Inr () \<longrightarrow> overridden (st_filter s) \<and> overridden_matrices E opt s0 s)"
proof -
  let ?s = "begun (t1, t2, t3) s0"
  have s: "st_padding ?s = held t1 (st_padding s0)" "st_filter ?s = held t2 (st_filter s0)" "st_shapes ?s = held t3 (st_shapes s0)"
    "ck_shapes ?s = []" "st_ids ?s = []" "ck_padding ?s = ck_padding s0" "ck_filter ?s = ck_filter s0" using assms(1) by (simp_all add: begun_def ready_def)
  obtain r1 s1 where a1: "apply_shapes E t3 opt ?s = (r1, s1)" by (cases "apply_shapes E t3 opt ?s")
  note h1 = apply_shapes_held [OF assms(1) s(3-5) a1]
  show ?thesis
  proof (cases r1)
    case (Inl e)
    then have "r = Inl e" "s = s1" using assms(2) a1 by (simp_all add: bindX_def)
    then show ?thesis using h1 Inl s by (auto simp: not_terminated_def all_held_def padding_held_def filter_held_def)
  next
    case (Inr u)
    have p1: "st_padding s1 = held t1 (st_padding s0)" "ck_padding s1 = ck_padding s0" using h1 s by simp_all
    obtain r2 s2 where a2: "apply_paddings E t1 opt s1 = (r2, s2)" by (cases "apply_paddings E t1 opt s1")
    note h2 = apply_paddings_held [OF assms(1) p1 a2]
    then have f2: "st_filter s2 = held t2 (st_filter s0)" "ck_filter s2 = ck_filter s0" and sh2: "shapes_held t3 s0 s2"
      using h1 s by (auto simp: shapes_held_def)
    show ?thesis
    proof (cases r2)
      case (Inl e)
      then have "r = Inl e" "s = s2" using assms(2) a1 \<open>r1 = Inr u\<close> a2 by (simp_all add: bindX_def)
      then show ?thesis using h2 Inl f2 sh2 by (auto simp: all_held_def filter_held_def not_terminated_def)
    next
      case (Inr u2)
      then have a3: "apply_filters E t2 opt s2 = (r, s)" using assms(2) a1 \<open>r1 = Inr u\<close> a2 by (simp add: bindX_def)
      note h3 = apply_filters_held [OF assms(1) f2 a3]
      then have "padding_held t1 s0 s" "shapes_held t3 s0 s" "ck_padding s = ck_padding s2" using h2 sh2 by (auto simp: padding_held_def shapes_held_def)
      then show ?thesis using h3 h2 Inr by (auto simp: all_held_def overridden_matrices_def)
    qed
  qed
qed

text \<open>The three destructors bring everything back but the counter of geometries and the filter, which is as before or the one that was kept.\<close>

definition restored :: "('x, 's) collision_state \<Rightarrow> ('x, 's) collision_state \<Rightarrow> bool" where
  "restored s0 s \<longleftrightarrow> s = s0\<lparr> ck_next_id := ck_next_id s, ck_filter := ck_filter s \<rparr> \<and> ck_filter s \<in> {ck_filter s0, kept_filter s0}"

lemma restored_ready: "restored s0 s \<Longrightarrow> ready E s0 \<Longrightarrow> ready E s" and restored_kept: "restored s0 s \<Longrightarrow> kept_filter s = kept_filter s0"
  and restored_padding: "restored s0 s \<Longrightarrow> ck_padding s = ck_padding s0" and restored_shapes: "restored s0 s \<Longrightarrow> ck_shapes s = ck_shapes s0"
proof -
  assume r: "restored s0 s"
  define u where "u = s0\<lparr> ck_next_id := ck_next_id s, ck_filter := ck_filter s \<rparr>"
  have u: "s = u" using r by (simp add: restored_def u_def)
  show k: "kept_filter s = kept_filter s0" unfolding u by (simp add: kept_filter_def u_def)
  show p: "ck_padding s = ck_padding s0" unfolding u by (simp add: u_def)
  show h: "ck_shapes s = ck_shapes s0" unfolding u by (simp add: u_def)
  have same: "st_padding s = st_padding s0" "st_filter s = st_filter s0" "st_shapes s = st_shapes s0" "st_ids s = st_ids s0"
    unfolding u by (simp_all add: u_def)
  show "ready E s" if "ready E s0" using that by (simp add: ready_def k p h same)
qed

lemma restored_trans: "restored s0 s \<Longrightarrow> restored s s' \<Longrightarrow> restored s0 s'"
proof -
  assume a: "restored s0 s" "restored s s'"
  have "ck_filter s' \<in> {ck_filter s0, kept_filter s0}" using a restored_kept [OF a(1)] by (auto simp: restored_def)
  moreover have "s' = s0\<lparr> ck_next_id := ck_next_id s', ck_filter := ck_filter s' \<rparr>"
    using a by (cases s0; cases s; cases s') (simp add: restored_def)
  ultimately show ?thesis by (simp add: restored_def)
qed

lemma ends_restore:
  assumes "ready E s0" "all_held (t1, t2, t3) s0 s"
  shows "\<exists>s4 s5 s6. end_shapes E t3 s = (Inr (), s4) \<and> end_filter E t2 s4 = (Inr (), s5) \<and> end_padding E t1 s5 = (Inr (), s6) \<and> restored s0 s6
    \<and> ck_filter s6 = (if overridden (st_filter s) then kept_filter s0 else ck_filter s0)"
proof -
  have h: "padding_held t1 s0 s" "filter_held t2 s0 s" "shapes_held t3 s0 s" using assms(2) by (simp_all add: all_held_def)
  let ?f = "if overridden (st_filter s) then kept_filter s0 else ck_filter s0"
  let ?s4 = "s\<lparr> st_shapes := st_shapes s0, ck_shapes := [], st_ids := [] \<rparr>"
  let ?s5 = "?s4\<lparr> st_filter := st_filter s0, ck_filter := ?f \<rparr>"
  let ?s6 = "?s5\<lparr> st_padding := st_padding s0, ck_padding := ck_padding s0 \<rparr>"
  have "end_shapes E t3 s = (Inr (), ?s4)" by (rule end_shapes_back [OF assms(1) h(3)])
  moreover have "filter_held t2 s0 ?s4" using h(2) by (simp add: filter_held_def)
  then have "end_filter E t2 ?s4 = (Inr (), ?s5)" using end_filter_back [OF assms(1), of t2 ?s4] by simp
  moreover have "end_padding E t1 ?s5 = (Inr (), ?s6)" by (rule end_padding_back [OF assms(1)]) (use h(1) in \<open>simp add: padding_held_def\<close>)
  moreover have "restored s0 ?s6" using assms(1) by (cases s; cases s0) (simp add: restored_def ready_def)
  moreover have "ck_filter ?s6 = ?f" by simp
  ultimately show ?thesis by blast
qed

lemma scopes_begin:
  assumes "ready E s0"
  shows "begin_scope st_padding (\<lambda>o' s. s\<lparr> st_padding := o' \<rparr>) t1 s0 = (Inr (), s0\<lparr> st_padding := held t1 (st_padding s0) \<rparr>)"
    "begin_scope st_filter (\<lambda>o' s. s\<lparr> st_filter := o' \<rparr>) t2 (s0\<lparr> st_padding := held t1 (st_padding s0) \<rparr>)
      = (Inr (), s0\<lparr> st_padding := held t1 (st_padding s0), st_filter := held t2 (st_filter s0) \<rparr>)"
    "begin_scope st_shapes (\<lambda>o' s. s\<lparr> st_shapes := o' \<rparr>) t3 (s0\<lparr> st_padding := held t1 (st_padding s0), st_filter := held t2 (st_filter s0) \<rparr>)
      = (Inr (), begun (t1, t2, t3) s0)"
  using assms by (simp_all add: begin_scope_def set_owner_def owned_def ready_def quiet_def held_def begun_def)

lemma collision_options_end:
  assumes "ready E s0"
  shows "case ApplyScopedCollisionOptions E toks maybe s0 of
      (Inl e, s) \<Rightarrow> e \<noteq> ''std::terminate'' \<and> restored s0 s
    | (Inr _, s) \<Rightarrow> (\<forall>opt. maybe = Some opt \<longrightarrow> overridden_matrices E opt s0 s)
        \<and> (\<exists>s'. CollisionOptionsScope_end E toks s = (Inr (), s') \<and> restored s0 s' \<and> ck_filter s' = (if maybe = None then ck_filter s0 else kept_filter s0))"
proof -
  obtain t1 t2 t3 where t: "toks = (t1, t2, t3)" by (cases toks)
  define body where "body = (case maybe of None \<Rightarrow> returnX () | Some opt \<Rightarrow> bindX (apply_shapes E t3 opt) (\<lambda>_. bindX (apply_paddings E t1 opt) (\<lambda>_. apply_filters E t2 opt)))"
  obtain r s where b: "body (begun (t1, t2, t3) s0) = (r, s)" by (cases "body (begun (t1, t2, t3) s0)")
  have h: "not_terminated r \<and> all_held (t1, t2, t3) s0 s
      \<and> (r = Inr () \<longrightarrow> overridden (st_filter s) = (maybe \<noteq> None) \<and> (\<forall>opt. maybe = Some opt \<longrightarrow> overridden_matrices E opt s0 s))"
  proof (cases maybe)
    case None
    then have "r = Inr ()" "s = begun (t1, t2, t3) s0" using b by (simp_all add: body_def)
    then show ?thesis using None assms
      by (simp add: not_terminated_def all_held_def begun_def padding_held_def filter_held_def shapes_held_def ready_def held_def quiet_def)
  next
    case (Some opt)
    then show ?thesis using options_held [OF assms, of t3 opt t1 t2 r s] b by (simp add: body_def)
  qed
  obtain s4 s5 s6 where e: "end_shapes E t3 s = (Inr (), s4)" "end_filter E t2 s4 = (Inr (), s5)" "end_padding E t1 s5 = (Inr (), s6)" "restored s0 s6"
    "ck_filter s6 = (if overridden (st_filter s) then kept_filter s0 else ck_filter s0)"
    using ends_restore [OF assms] h by blast
  have "ApplyScopedCollisionOptions E toks maybe s0 = (case r of Inl m \<Rightarrow> (Inl m, s6) | Inr _ \<Rightarrow> (r, s))"
    using b h e by (cases r) (simp_all add: ApplyScopedCollisionOptions_def t bindX_def scopes_begin [OF assms] body_def [symmetric] guarded_def not_terminated_def)
  then show ?thesis using h e by (cases r) (simp_all add: not_terminated_def CollisionOptionsScope_end_def t bindX_def)
qed

text \<open>The checker after some requests, each with its scope.\<close>

definition served :: "('x, 's) collision_env \<Rightarrow> ((token \<times> token \<times> token) \<times> ('x, 's) collision_options option) list
    \<Rightarrow> ('x, 's) collision_state \<Rightarrow> ('x, 's) collision_state" where
  "served E = fold (\<lambda>(toks, maybe) s. case ApplyScopedCollisionOptions E toks maybe s of
     (Inl _, s) \<Rightarrow> s | (Inr _, s) \<Rightarrow> snd (CollisionOptionsScope_end E toks s))"

lemma served_restored: "ready E s \<Longrightarrow> restored s (served E reqs s)"
proof (induction reqs arbitrary: s)
  case Nil
  show ?case by (simp add: served_def restored_def)
next
  case (Cons q reqs)
  obtain toks maybe where q: "q = (toks, maybe)" by (cases q)
  let ?s = "case ApplyScopedCollisionOptions E toks maybe s of (Inl _, s) \<Rightarrow> s | (Inr _, s) \<Rightarrow> snd (CollisionOptionsScope_end E toks s)"
  have r: "restored s ?s" using collision_options_end [OF Cons.prems, of maybe toks] by (auto split: prod.splits sum.splits)
  have "restored ?s (served E reqs ?s)" by (rule Cons.IH) (rule restored_ready [OF r Cons.prems])
  then show ?case using restored_trans [OF r] by (simp add: served_def q)
qed

text \<open>C11: What the checker is for, during and after each of any number of requests since it was set up.  Whether its options are refused by
  an exception or granted, at the end of a request the shapes it added are gone, and the padding and the three overrideables are as they were;
  no request ends the process.  The filter is different: a request with options starts from the nominal filter of the checker and leaves that
  behind, so the filter of the constraints of the robot is only there until the first of them.  A request without options changes nothing.\<close>

theorem collision_options_restored:
  assumes "SetUpCollision E (Some A) f p i = Inr c" "ce_has_checker E" "dc_accepts_filter (ce_drake E) (dc_nominal_filter (ce_drake E))"
  shows "restored c (served E reqs c) \<and> (case ApplyScopedCollisionOptions E toks maybe (served E reqs c) of
      (Inl e, s) \<Rightarrow> e \<noteq> ''std::terminate'' \<and> restored (served E reqs c) s
    | (Inr _, s) \<Rightarrow> (\<forall>opt. maybe = Some opt \<longrightarrow> overridden_matrices E opt c s)
        \<and> (\<exists>s'. CollisionOptionsScope_end E toks s = (Inr (), s') \<and> restored (served E reqs c) s'
          \<and> ck_filter s' = (if maybe = None then ck_filter (served E reqs c) else dc_nominal_filter (ce_drake E))))"
proof -
  have c: "ready E c" "kept_filter c = dc_nominal_filter (ce_drake E)" using set_up_ready [OF assms] by simp_all
  have r: "restored c (served E reqs c)" by (rule served_restored [OF c(1)])
  have o: "overridden_matrices E opt (served E reqs c) s = overridden_matrices E opt c s" for opt s
    by (simp add: overridden_matrices_def restored_padding [OF r] restored_kept [OF r])
  have k: "kept_filter (served E reqs c) = dc_nominal_filter (ce_drake E)" using restored_kept [OF r] c(2) by simp
  show ?thesis using r collision_options_end [OF restored_ready [OF r c(1)], of maybe toks] unfolding o k by (rule conjI)
qed

section \<open>What the matrices become\<close>

definition square :: "nat \<Rightarrow> 'a grid \<Rightarrow> bool" where "square n m \<longleftrightarrow> length m = n \<and> (\<forall>r \<in> set m. length r = n)"

definition symmetric :: "nat \<Rightarrow> 'a grid \<Rightarrow> bool" where "symmetric n m \<longleftrightarrow> (\<forall>i < n. \<forall>j < n. entry m i j = entry m j i)"

lemma put_entry_square: "square n m \<Longrightarrow> square n (put_entry i j x m)"
  by (cases "i < length m") (auto simp: square_def put_entry_def list_update_beyond dest!: set_update_subset_insert [THEN subsetD])

lemma put_entry_entry: "square n m \<Longrightarrow> i < n \<Longrightarrow> j < n \<Longrightarrow> entry (put_entry i j x m) k l = (if k = i \<and> l = j then x else entry m k l)"
  by (auto simp: square_def entry_def put_entry_def nth_list_update)

lemma set_pair_square: "square n m \<Longrightarrow> square n (set_pair x p m)"
  by (cases p) (simp add: set_pair_def put_entry_square)

lemma set_pair_entry:
  assumes "square n m" "fst p < n" "snd p < n"
  shows "entry (set_pair x p m) k l = (if k \<noteq> l \<and> {k, l} = {fst p, snd p} then x else entry m k l)"
proof -
  obtain a b where p: "p = (a, b)" by (cases p)
  have ab: "a < n" "b < n" using assms(2,3) p by simp_all
  have e1: "entry (put_entry a b x m) k l = (if k = a \<and> l = b then x else entry m k l)" by (rule put_entry_entry [OF assms(1) ab])
  have e2: "entry (put_entry b a x (put_entry a b x m)) k l = (if k = b \<and> l = a then x else entry (put_entry a b x m) k l)"
    by (rule put_entry_entry [OF put_entry_square [OF assms(1)] ab(2,1)])
  have i: "(k \<noteq> l \<and> {k, l} = {a, b}) \<longleftrightarrow> a \<noteq> b \<and> (k = b \<and> l = a \<or> k = a \<and> l = b)" unfolding doubleton_eq_iff by blast
  show ?thesis
  proof (cases "a = b")
    case False
    then have "set_pair x p m = put_entry b a x (put_entry a b x m)" by (simp add: p set_pair_def)
    then show ?thesis unfolding p fst_conv snd_conv i using False e1 e2 by presburger
  next
    case True
    then have "\<not> (k \<noteq> l \<and> {k, l} = {a, b})" using i by blast
    moreover have "set_pair x p m = m" using True by (simp add: p set_pair_def)
    ultimately show ?thesis unfolding p fst_conv snd_conv by presburger
  qed
qed

lemma set_pairs_square: "square n m \<Longrightarrow> square n (fold (set_pair x) ps m)"
  by (induction ps arbitrary: m) (simp_all add: set_pair_square)

lemma set_pairs_entry:
  "square n m \<Longrightarrow> \<forall>p \<in> set ps. fst p < n \<and> snd p < n \<Longrightarrow>
   entry (fold (set_pair x) ps m) k l = (if k \<noteq> l \<and> (\<exists>p \<in> set ps. {k, l} = {fst p, snd p}) then x else entry m k l)"
proof (induction ps arbitrary: m)
  case (Cons p ps)
  then show ?case by (simp add: set_pair_square set_pair_entry)
qed simp

definition scene_ok :: "nat \<Rightarrow> scene \<Rightarrow> bool" where
  "scene_ok n S \<longleftrightarrow> (\<forall>(k, bs) \<in> set (sc_groups S). \<forall>b \<in> set bs. b < n) \<and> (\<forall>(k, b) \<in> set (sc_frames S). b < n) \<and> (\<forall>b \<in> set (sc_bodies S). b < n)"

lemma bodies_named_ok: "scene_ok n S \<Longrightarrow> b \<in> set (bodies_named S k) \<Longrightarrow> b < n"
  by (auto simp: scene_ok_def bodies_named_def dest!: map_of_SomeD split: option.splits)

text \<open>Whether an entry is between bodies of two names.\<close>

definition covers :: "scene \<Rightarrow> string \<Rightarrow> string \<Rightarrow> nat \<Rightarrow> nat \<Rightarrow> bool" where
  "covers S k1 k2 i j \<longleftrightarrow> i \<noteq> j \<and> ((i \<in> set (bodies_named S k1) \<and> j \<in> set (bodies_named S k2)) \<or> (j \<in> set (bodies_named S k1) \<and> i \<in> set (bodies_named S k2)))"

lemma SetCollisionMatrix_entries:
  assumes "scene_ok n S" "square n m" "SetCollisionMatrix S x k1 k2 m = Inr m'"
  shows "square n m'" "entry m' i j = (if covers S k1 k2 i j then x else entry m i j)"
proof -
  have m': "m' = fold (set_pair x) (List.product (bodies_named S k1) (bodies_named S k2)) m" using assms(3) by (auto simp: SetCollisionMatrix_def split: if_splits)
  then show "square n m'" using set_pairs_square [OF assms(2)] by simp
  have "\<forall>p \<in> set (List.product (bodies_named S k1) (bodies_named S k2)). fst p < n \<and> snd p < n" using bodies_named_ok [OF assms(1)] by auto
  then show "entry m' i j = (if covers S k1 k2 i j then x else entry m i j)"
    using set_pairs_entry [OF assms(2), of "List.product (bodies_named S k1) (bodies_named S k2)" x i j] m'
    by (auto simp: covers_def doubleton_eq_iff)
qed

lemma covers_sym: "covers S k1 k2 i j = covers S k1 k2 j i"
  by (auto simp: covers_def)

lemma set_matrices_symmetric:
  assumes "scene_ok n S" "square n m" "symmetric n m" "foldE (\<lambda>x. SetCollisionMatrix S (v x) (k1 x) (k2 x)) xs m = Inr m'"
  shows "square n m' \<and> symmetric n m' \<and> (\<forall>i. entry m' i i = entry m i i)"
  using assms(2-4)
proof (induction xs arbitrary: m)
  case (Cons x xs)
  then obtain m1 where m1: "SetCollisionMatrix S (v x) (k1 x) (k2 x) m = Inr m1" by (auto simp: bindE_Inr_iff)
  note e = SetCollisionMatrix_entries [OF assms(1) Cons.prems(1) m1]
  have "symmetric n m1" using Cons.prems(2) e(2) covers_sym [of S] by (simp add: symmetric_def)
  moreover have "entry m1 i i = entry m i i" for i using e(2) [of i i] by (simp add: covers_def)
  ultimately show ?case using Cons.IH [OF e(1), of] Cons.prems(3) m1 by simp
qed simp

text \<open>The last of the settings that covers a pair decides.\<close>

definition last_setting :: "scene \<Rightarrow> ((string \<times> string) \<times> real) list \<Rightarrow> nat \<Rightarrow> nat \<Rightarrow> real \<Rightarrow> real" where
  "last_setting S ps i j x = fold (\<lambda>((k1, k2), d) x. if covers S k1 k2 i j then d else x) ps x"

lemma paddings_entry:
  assumes "scene_ok n S" "square n m" "foldE (\<lambda>((k1, k2), d). SetPadding S d k1 k2) ps m = Inr m'"
  shows "entry m' i j = last_setting S ps i j (entry m i j)"
  using assms(2,3)
proof (induction ps arbitrary: m)
  case (Cons p ps)
  obtain k1 k2 d where p: "p = ((k1, k2), d)" by (metis prod.collapse)
  obtain m1 where m1: "SetCollisionMatrix S d k1 k2 m = Inr m1" using Cons.prems by (auto simp: p SetPadding_def bindE_Inr_iff)
  note e = SetCollisionMatrix_entries [OF assms(1) Cons.prems(1) m1]
  show ?case using Cons.IH [OF e(1)] Cons.prems(2) m1 e(2) [of i j] by (simp add: p SetPadding_def last_setting_def)
qed (simp add: last_setting_def)

text \<open>C39: The paddings of a request take effect in the order in which they are given, so that a padding of a whole group overwrites that of
  a link given before it, although those of links are meant to win.\<close>

theorem later_padding_wins:
  assumes "ready E s0" "scene_ok n (ce_scene E)" "square n (ck_padding s0)" "ApplyScopedCollisionOptions E toks (Some opt) s0 = (Inr (), s)"
  shows "entry (ck_padding s) i j = last_setting (ce_scene E) (op_paddings opt) i j (entry (ck_padding s0) i j)"
proof -
  have "overridden_matrices E opt s0 s" using collision_options_end [OF assms(1), of "Some opt" toks] assms(4) by simp
  then show ?thesis using paddings_entry [OF assms(2,3)] by (simp add: overridden_matrices_def)
qed

section \<open>The hash of the constraints\<close>

datatype shape_item = HInt int | HNum real | HStr string | HSize nat

datatype shape = Box real real real | Capsule | Convex | Cylinder real real | HalfSpace | Mesh nat nat "real list" | MeshcatCone | Sphere real

text \<open>A shape that is not supported throws, in a function that may not.\<close>

definition ShapeHasher :: "shape \<Rightarrow> shape_item list throws" where
  "ShapeHasher sh = (case sh of
       Box w d h \<Rightarrow> Inr [HNum w, HNum d, HNum h, HStr ''Box'']
     | Cylinder r l \<Rightarrow> Inr [HNum r, HNum l, HStr ''Cylinder'']
     | Mesh v f c \<Rightarrow> Inr ([HSize v, HSize f] @ map HNum c @ [HStr ''Mesh''])
     | Sphere r \<Rightarrow> Inr [HNum r, HStr ''Sphere'']
     | Capsule \<Rightarrow> Inl ''Capsule'' | Convex \<Rightarrow> Inl ''Convex'' | HalfSpace \<Rightarrow> Inl ''HalfSpace'' | MeshcatCone \<Rightarrow> Inl ''MeshcatCone'')"

text \<open>The set of bodies already hashed is never added to, so every pair hashes the shapes of its first body again.\<close>

definition hash_pair :: "(nat \<Rightarrow> shape list) \<Rightarrow> int grid \<Rightarrow> real grid \<Rightarrow> nat \<times> nat \<Rightarrow> shape_item list throws" where
  "hash_pair geos f p = (\<lambda>(i, j). bindE (if entry f i j = -1 then Inr [] else mapE ShapeHasher (geos i)) (\<lambda>xs.
     Inr ([HInt (entry f i j), HNum (entry p i j)] @ concat xs)))"

definition HashCollisionGeos :: "(nat \<Rightarrow> shape list) \<Rightarrow> (int grid \<times> real grid) option \<Rightarrow> shape_item list throws" where
  "HashCollisionGeos geos checker = (case checker of None \<Rightarrow> Inr []
     | Some (f, p) \<Rightarrow> bindE (mapE (hash_pair geos f p) (concat (map (\<lambda>i. map (Pair i) [i + 1..<length f]) [0..<length f]))) (\<lambda>xs. Inr (concat xs)))"

definition frame_item :: "(string \<Rightarrow> nat throws) \<Rightarrow> string \<Rightarrow> shape_item list throws" where
  "frame_item index k = bindE (index k) (\<lambda>i. Inr [HSize i])"

definition HashPositionConstraints :: "(string \<Rightarrow> nat throws) \<Rightarrow> position_adapter list \<Rightarrow> shape_item list throws" where
  "HashPositionConstraints index cs = bindE (mapE (\<lambda>a. bindE (frame_item index (pa_frame_A a)) (\<lambda>x. bindE (frame_item index (pa_frame_B a)) (\<lambda>y.
     Inr (x @ y @ map HNum (pa_lower a) @ map HNum (pa_upper a) @ map HNum (pa_BQ a))))) cs) (\<lambda>xs. Inr (concat xs))"

definition HashAngularConstraints :: "(string \<Rightarrow> nat throws) \<Rightarrow> angle_adapter list \<Rightarrow> shape_item list throws" where
  "HashAngularConstraints index cs = bindE (mapE (\<lambda>a. bindE (if aa_frame_A a = ''world'' then Inr [HSize 0] else frame_item index (aa_frame_A a)) (\<lambda>x.
     bindE (frame_item index (aa_frame_B a)) (\<lambda>y. Inr (x @ y @ map HNum (aa_a a) @ map HNum (aa_b a) @ [HNum (aa_lower a), HNum (aa_upper a)])))) cs)
     (\<lambda>xs. Inr (concat xs))"

datatype bound_item = HBound "real option" | HName string

definition HashJointPositionConstraints :: "joint_box_adapter list \<Rightarrow> bound_item list" where
  "HashJointPositionConstraints cs = concat (map (\<lambda>a. [HName (jb_entity a)] @ map HBound (jb_lower a) @ map HBound (jb_upper a)) cs)"

definition HashConstraints :: "(string \<Rightarrow> nat throws) \<Rightarrow> constraints_adapter \<Rightarrow> (shape_item list \<times> bound_item list) throws" where
  "HashConstraints index A =
     bindE (case cn_position A of None \<Rightarrow> Inr [] | Some cs \<Rightarrow> HashPositionConstraints index cs) (\<lambda>ps.
     bindE (case cn_angle A of None \<Rightarrow> Inr [] | Some cs \<Rightarrow> HashAngularConstraints index cs) (\<lambda>as.
     Inr (ps @ as, case cn_joints A of None \<Rightarrow> [] | Some cs \<Rightarrow> HashJointPositionConstraints cs)))"

text \<open>First the hash of the robot model: the joints \<open>js\<close>, of which those count that have a body with shapes further down.  An exception here
  ends the process, as the function may not throw.\<close>

definition hash_append :: "('x \<Rightarrow> bool) \<Rightarrow> 'x hash_joint list \<Rightarrow> (nat \<Rightarrow> shape list) \<Rightarrow> (int grid \<times> real grid) option \<Rightarrow> (string \<Rightarrow> nat throws)
    \<Rightarrow> constraints_adapter \<Rightarrow> ('x hashed list \<times> shape_item list \<times> shape_item list \<times> bound_item list) throws" where
  "hash_append ident js geos checker index A = bindE (HashKinematics ident (\<lambda>b. geos b \<noteq> []) js) (\<lambda>ks.
     bindE (HashCollisionGeos geos checker) (\<lambda>xs. bindE (HashConstraints index A) (\<lambda>(ys, zs). Inr (ks, xs, ys, zs))))"

text \<open>The bodies whose shapes take part: those that can collide with a body of a higher index.\<close>

definition hashed_body :: "int grid \<Rightarrow> nat \<Rightarrow> bool" where "hashed_body f i \<longleftrightarrow> (\<exists>j \<in> {i<..<length f}. entry f i j \<noteq> -1)"

lemma mapE_cong: "\<forall>x \<in> set xs. f x = g x \<Longrightarrow> mapE f xs = mapE g xs"
  by (induction xs) auto

lemma hash_collision_cong:
  assumes "\<forall>i < length f. hashed_body f i \<longrightarrow> geos i = geos' i"
  shows "HashCollisionGeos geos (Some (f, p)) = HashCollisionGeos geos' (Some (f, p))"
proof -
  have "hash_pair geos f p ij = hash_pair geos' f p ij" if ij: "ij \<in> set (concat (map (\<lambda>i. map (Pair i) [i + 1..<length f]) [0..<length f]))" for ij
  proof -
    obtain i j where e: "ij = (i, j)" "i < length f" "i < j" "j < length f" using ij by auto
    show ?thesis
    proof (cases "entry f i j = -1")
      case False
      then have "hashed_body f i" using e by (auto simp: hashed_body_def)
      then show ?thesis using assms e by (simp add: hash_pair_def)
    qed (simp add: hash_pair_def e)
  qed
  then show ?thesis unfolding HashCollisionGeos_def by (simp only: option.case prod.case) (rule arg_cong2 [where f = bindE], rule mapE_cong, blast, rule refl)
qed

text \<open>C40: The hash of the constraints does not change with the collision shapes of the bodies whose pairs with all bodies of a higher
  index Drake marks with minus one, as it does for pairs of environment bodies, so for every environment body with a higher index than all
  bodies of robots: only the first body of a pair is hashed.  Such bodies may get other shapes, as long as those that had shapes keep some and
  those that had none get none; the hash of the joints sees that much.\<close>

theorem hash_ignores_environment:
  assumes "\<forall>i < length f. first \<le> i \<longrightarrow> (\<forall>j < length f. i < j \<longrightarrow> entry f i j = -1)" "\<forall>i < first. geos i = geos' i"
    "\<forall>i. geos i = [] \<longleftrightarrow> geos' i = []"
  shows "hash_append ident js geos (Some (f, p)) index A = hash_append ident js geos' (Some (f, p)) index A"
proof -
  have "\<forall>i < length f. hashed_body f i \<longrightarrow> geos i = geos' i" using assms(1,2) by (auto simp: hashed_body_def)
  then have "HashCollisionGeos geos (Some (f, p)) = HashCollisionGeos geos' (Some (f, p))" by (rule hash_collision_cong)
  moreover have "(\<lambda>i. geos i \<noteq> []) = (\<lambda>i. geos' i \<noteq> [])" using assms(3) by (intro ext) simp
  ultimately show ?thesis by (simp add: hash_append_def)
qed

text \<open>The hash does see it when a body that had no shapes gets one.\<close>

lemma hash_sees_first_shape:
  "hash_append ident [hinge 0 1 x x] (\<lambda>i. []) None index A = hash_append ident [hinge 0 1 x x] (\<lambda>i. if i = 1 then [Sphere r] else []) None index A
   \<Longrightarrow> \<exists>e. HashConstraints index A = Inl e"
  by (cases "HashConstraints index A")
    (auto simp: hash_append_def HashKinematics_def kinematic_tree_def kinematic_info_def world_node_def hinge_def mark_downstream_def propagate_from_def
      propagate.simps hash_node_def HashCollisionGeos_def)

section \<open>Examples\<close>

text \<open>A table and an arm of two links, the first of which is to keep further away from the table than the others.\<close>

definition table_scene :: scene where
  "table_scene = \<lparr> sc_groups = [(''arm'', [1, 2])], sc_frames = [(''table'', 0), (''arm::link'', 1), (''arm::hand'', 2)], sc_bodies = [0, 1, 2] \<rparr>"

definition table_env :: "(nat, shape) collision_env" where
  "table_env = \<lparr> ce_has_checker = True, ce_scene = table_scene, ce_drake = \<lparr> dc_accepts_filter = (\<lambda>m. length m = 3), dc_accepts_padding = (\<lambda>m. length m = 3),
       dc_nominal_filter = replicate 3 (replicate 3 0) \<rparr>,
     ce_accepts_shape = (\<lambda>sh. sh \<noteq> HalfSpace), ce_relative = (\<lambda>f. 0), ce_mul = (+) \<rparr>"

definition table_state :: "(nat, shape) collision_state" where
  "table_state = \<lparr> st_padding = Overrideable (replicate 3 (replicate 3 0)), st_filter = Overrideable (replicate 3 (replicate 3 0)), st_shapes = Overrideable [],
     st_ids = [], ck_padding = replicate 3 (replicate 3 0), ck_filter = replicate 3 (replicate 3 0), ck_shapes = [], ck_next_id = 7 \<rparr>"

definition table_options :: "(nat, shape) collision_options" where
  "table_options = \<lparr> op_paddings = [((''arm::link'', ''table''), 2 / 100), ((''arm'', ''table''), 1 / 100)], op_filtered = [], op_shapes = [(''sphere'', '''', 5, Sphere 1)] \<rparr>"

lemma table_ready: "ready table_env table_state"
  by (simp add: ready_def table_env_def table_state_def quiet_def kept_filter_def Overrideable_def)

lemma table_scene_ok: "scene_ok 3 table_scene" "square 3 (replicate 3 (replicate 3 (0 :: real)))"
  by (auto simp: scene_ok_def table_scene_def square_def)

definition table_adapter :: checker_adapter where
  "table_adapter = \<lparr> cc_groups = None, cc_pairs = Some [(''arm'', ''table'')], cc_paddings = None, cc_penalty = None \<rparr>"

text \<open>A robot configured to ignore the contact of its arm with the table: it does so until the first request with options, of whatever kind.\<close>

theorem collision_options_restored_witness:
  "\<exists>c s s'. SetUpCollision table_env (Some table_adapter) (replicate 3 (replicate 3 0)) (replicate 3 (replicate 3 0)) 7 = Inr c \<and> entry (ck_filter c) 1 0 = 1
    \<and> ApplyScopedCollisionOptions table_env (1, 2, 3) (Some table_options) (served table_env [] c) = (Inr (), s)
    \<and> CollisionOptionsScope_end table_env (1, 2, 3) s = (Inr (), s') \<and> ck_shapes s' = [] \<and> ck_padding s' = ck_padding c \<and> entry (ck_filter s') 1 0 = 0"
proof -
  let ?u = "SetUpCollision table_env (Some table_adapter) (replicate 3 (replicate 3 0)) (replicate 3 (replicate 3 0)) 7"
  let ?a = "\<lambda>c. ApplyScopedCollisionOptions table_env (1, 2, 3) (Some table_options) c"
  have v: "case ?u of Inr c \<Rightarrow> entry (ck_filter c) 1 0 = 1 \<and> ck_shapes c = [] \<and> fst (?a c) = Inr () | Inl e \<Rightarrow> False" by code_simp
  then obtain c where c: "?u = Inr c" by (cases ?u) simp_all
  obtain s where s: "?a (served table_env [] c) = (Inr (), s)" using v c by (cases "?a c") (simp add: served_def)
  have n: "dc_accepts_filter (ce_drake table_env) (dc_nominal_filter (ce_drake table_env))" "ce_has_checker table_env"
    "dc_nominal_filter (ce_drake table_env) = replicate 3 (replicate 3 0)" by (simp_all add: table_env_def)
  obtain s' where s': "CollisionOptionsScope_end table_env (1, 2, 3) s = (Inr (), s')" "restored c s'" "ck_filter s' = replicate 3 (replicate 3 0)"
    using collision_options_restored [OF c n(2,1), of "[]" "Some table_options" "(1, 2, 3)"] s n(3) by (auto simp: served_def)
  then show ?thesis using c s v restored_padding [OF s'(2)] restored_shapes [OF s'(2)] by (simp add: entry_def)
qed

text \<open>The padding of the link is asked for before that of its arm, and is lost.\<close>

theorem later_padding_wins_witness:
  "\<exists>s. ApplyScopedCollisionOptions table_env (1, 2, 3) (Some table_options) table_state = (Inr (), s) \<and> entry (ck_padding s) 1 0 = 1 / 100
    \<and> last_setting table_scene (paddings_sorted (op_paddings table_options)) 1 0 0 = 2 / 100"
proof -
  obtain r s where a: "ApplyScopedCollisionOptions table_env (1, 2, 3) (Some table_options) table_state = (r, s)"
    by (cases "ApplyScopedCollisionOptions table_env (1, 2, 3) (Some table_options) table_state")
  have c: "covers table_scene ''arm::link'' ''table'' 1 0" "covers table_scene ''arm'' ''table'' 1 0"
    by (simp_all add: covers_def bodies_named_def table_scene_def)
  have o: "sublist ''::'' ''arm::link''" "\<not> sublist ''::'' ''arm''" "\<not> sublist ''::'' ''table''" by code_simp+
  have l: "paddings_sorted (op_paddings table_options) = [((''arm'', ''table''), 1 / 100), ((''arm::link'', ''table''), 2 / 100)]"
    using o by (simp add: paddings_sorted_def link_level_def table_options_def)
  have "fst (ApplyScopedCollisionOptions table_env (1, 2, 3) (Some table_options) table_state) = Inr ()" by code_simp
  then have r: "r = Inr ()" using a by simp
  have e: "ck_padding table_state = replicate 3 (replicate 3 0)" "ce_scene table_env = table_scene"
    "op_paddings table_options = [((''arm::link'', ''table''), 2 / 100), ((''arm'', ''table''), 1 / 100)]"
    by (simp_all add: table_state_def table_env_def table_options_def)
  have "entry (ck_padding s) 1 0 = last_setting table_scene (op_paddings table_options) 1 0 (entry (ck_padding table_state) 1 0)"
    using later_padding_wins [OF table_ready, of 3 "(1, 2, 3)" table_options s] table_scene_ok a r e by simp
  then have "entry (ck_padding s) 1 0 = 1 / 100" using c by (simp add: e last_setting_def)
  then show ?thesis using a r c l by (simp add: last_setting_def)
qed

text \<open>The world, a robot, a table and the body for added shapes; the table grows from one metre to two.\<close>

definition table_filter :: "int grid" where "table_filter = [[0, 0, -1, -1], [0, 0, 0, 0], [-1, 0, 0, -1], [-1, 0, -1, 0]]"

definition table_shapes :: "real \<Rightarrow> nat \<Rightarrow> shape list" where "table_shapes w i = (if i = 1 then [Sphere 1] else if i = 2 then [Box w 1 1] else [])"

text \<open>The robot turns on the world, and the table hangs on a joint of its own.\<close>

theorem hash_ignores_environment_witness:
  "table_shapes 1 2 \<noteq> table_shapes 2 2
   \<and> hash_append (\<lambda>x. x = (0 :: nat)) [hinge 0 1 0 0, hinge 0 2 5 0] (table_shapes 1) (Some (table_filter, replicate 4 (replicate 4 0))) (\<lambda>k. Inr 0) ConstraintsAdapter
     = hash_append (\<lambda>x. x = 0) [hinge 0 1 0 0, hinge 0 2 5 0] (table_shapes 2) (Some (table_filter, replicate 4 (replicate 4 0))) (\<lambda>k. Inr 0) ConstraintsAdapter"
proof -
  have "\<forall>i < length table_filter. 2 \<le> i \<longrightarrow> (\<forall>j < length table_filter. i < j \<longrightarrow> entry table_filter i j = -1)"
  proof (intro allI impI)
    fix i j assume "i < length table_filter" "2 \<le> i" "j < length table_filter" "i < j"
    then have "i = 2" "j = 3" by (simp_all add: table_filter_def)
    then show "entry table_filter i j = -1" by (simp add: entry_def table_filter_def)
  qed
  moreover have "\<forall>i < 2. table_shapes 1 i = table_shapes 2 i" "\<forall>i. table_shapes 1 i = [] \<longleftrightarrow> table_shapes 2 i = []" by (simp_all add: table_shapes_def)
  ultimately have "hash_append (\<lambda>x. x = (0 :: nat)) [hinge 0 1 0 0, hinge 0 2 5 0] (table_shapes 1) (Some (table_filter, replicate 4 (replicate 4 0))) (\<lambda>k. Inr 0) ConstraintsAdapter
      = hash_append (\<lambda>x. x = 0) [hinge 0 1 0 0, hinge 0 2 5 0] (table_shapes 2) (Some (table_filter, replicate 4 (replicate 4 0))) (\<lambda>k. Inr 0) ConstraintsAdapter"
    by (rule hash_ignores_environment)
  then show ?thesis by (simp add: table_shapes_def)
qed

end
