(* ===== verification/Path_Building.thy ===== *)
theory Path_Building
  imports Robot_Checks Path_Math Geodesic_Math
begin

text \<open>
  How single paths are made: straight lines and the way out of a violation (\<open>motion/planning/straight_path_planner.cc\<close>), and cubic splines
  through waypoints, repaired until their samples are valid (\<open>motion/splining/cubic_spliner.cc\<close> with \<open>AreStatesValid\<close> of
  \<open>motion/planning/validity_checker.cc\<close>).  A matrix of waypoints is the list of its columns.  Drake's trajectories are those of
  \<open>Path_Math\<close>; the threads and schedules of the parallel checks are members of \<open>path_env\<close>.  Logging is left out.
\<close>

record 'p path_env =
  pb_drake :: "'p drake"
  pb_checks :: robot_constraints
  pb_continuous :: "nat list"
  pb_limits :: "(real option \<times> real option) list"
  pb_hardware :: nat
  pb_thread :: "nat \<Rightarrow> nat"
  pb_schedule :: "conf list \<Rightarrow> nat list"

definition default_checks :: "('p, 'z) path_env_scheme \<Rightarrow> check_options" where "default_checks E = CheckSatisfiedOptions (pb_hardware E)"

definition verbose_checks :: "('p, 'z) path_env_scheme \<Rightarrow> check_options" where "verbose_checks E = (default_checks E)\<lparr> co_verbose := True \<rparr>"

text \<open>\<open>CheckSatisfiedResult\<close> converts to a bool.\<close>

definition conf_valid :: "('p, 'z) path_env_scheme \<Rightarrow> check_options \<Rightarrow> conf \<Rightarrow> bool throws" where
  "conf_valid E opt q = bindE (CheckSatisfied (pb_checks E) q 0 opt) (\<lambda>r. Inr (cr_satisfied r))"

definition edge_valid :: "('p, 'z) path_env_scheme \<Rightarrow> conf \<Rightarrow> conf \<Rightarrow> real \<Rightarrow> bool throws" where
  "edge_valid E q1 q2 step = bindE (CheckSatisfiedEdge (pb_checks E) q1 q2 step (default_checks E) (pb_thread E) (pb_schedule E (edge_samples q1 q2 step)))
     (\<lambda>r. Inr (cr_satisfied r))"

section \<open>Straight lines\<close>

definition MaybeValidStraightLinePath :: "('p, 'z) path_env_scheme \<Rightarrow> conf \<Rightarrow> conf \<Rightarrow> real \<Rightarrow> 'p option throws" where
  "MaybeValidStraightLinePath E start_q end_q step = bindE (WrapConfiguration start_q (pb_continuous E) end_q) (\<lambda>w.
     bindE (edge_valid E start_q w step) (\<lambda>ok. Inr (if ok then Some (dk_hold (pb_drake E) [0, 1] [start_q, w]) else None)))"

text \<open>The walk along a gradient while the joints are in their limits.  Nothing bounds it if they have none: it may not return.\<close>

definition joint_limits_constraint :: "(real option \<times> real option) list \<Rightarrow> conf \<Rightarrow> bool" where
  "joint_limits_constraint lims q = list_all (\<lambda>(x, lo, hi). (case lo of None \<Rightarrow> True | Some l \<Rightarrow> l \<le> x) \<and> (case hi of None \<Rightarrow> True | Some u \<Rightarrow> x \<le> u))
     (zip q lims)"

partial_function (option) climb :: "(conf \<Rightarrow> bool throws) \<Rightarrow> (real option \<times> real option) list \<Rightarrow> conf \<Rightarrow> conf \<Rightarrow> conf option throws option" where
  "climb check lims incr q = (if joint_limits_constraint lims q
     then (case check (vadd q incr) of Inl e \<Rightarrow> Some (Inl e)
       | Inr b \<Rightarrow> if b then Some (Inr (Some (vadd q incr))) else climb check lims incr (vadd q incr))
     else Some (Inr None))"

definition nearest_valid :: "('p, 'z) path_env_scheme \<Rightarrow> (closest_program \<Rightarrow> conf option) \<Rightarrow> conf \<Rightarrow> real \<Rightarrow> real \<Rightarrow> nat \<Rightarrow> conf option
    \<Rightarrow> conf option throws option" where
  "nearest_valid E solve q influence clearance thread maybe_gradient = (case maybe_gradient of
       Some g \<Rightarrow> if \<not> vnorm g > 1 / 10 ^ 6 \<or> length g \<noteq> length q then Some (Inl unless_throw)
         else climb (conf_valid E (default_checks E)) (pb_limits E) (vscale clearance (normalized g)) q
     | None \<Rightarrow> Some (CalcClosestSatisfyingConfiguration solve (pb_checks E) q thread [] influence))"

definition kMaxNumTries :: nat where "kMaxNumTries = 10"

definition default_edge_step :: real where "default_edge_step = 1 / 1000"

definition cleared :: "conf \<Rightarrow> conf \<Rightarrow> real \<Rightarrow> nat \<Rightarrow> conf" where
  "cleared start_q q_valid clearance i = vadd q_valid (vscale (clearance * (1 - real i / real kMaxNumTries)) (normalized (vminus q_valid start_q)))"

fun try_clearances :: "('p, 'z) path_env_scheme \<Rightarrow> conf \<Rightarrow> conf \<Rightarrow> real \<Rightarrow> nat list \<Rightarrow> (string + 'p) throws" where
  "try_clearances E start_q q_valid clearance [] =
     Inr (Inl ''MaybeOutOfViolationPath: Failed to find a valid cleared configuration after 10 tries.'')"
| "try_clearances E start_q q_valid clearance (i # is) = (let q = cleared start_q q_valid clearance i in
     bindE (conf_valid E (verbose_checks E) q) (\<lambda>ok. if \<not> ok then try_clearances E start_q q_valid clearance is
       else bindE (edge_valid E q_valid q default_edge_step) (\<lambda>ok. if \<not> ok then try_clearances E start_q q_valid clearance is
         else Inr (Inr (dk_hold (pb_drake E) [0, 1] [start_q, q])))))"

definition MaybeOutOfViolationPath :: "('p, 'z) path_env_scheme \<Rightarrow> (closest_program \<Rightarrow> conf option) \<Rightarrow> conf \<Rightarrow> real \<Rightarrow> real \<Rightarrow> nat \<Rightarrow> conf option
    \<Rightarrow> (string + 'p) throws option" where
  "MaybeOutOfViolationPath E solve start_q influence clearance thread maybe_gradient =
     (case nearest_valid E solve start_q influence clearance thread maybe_gradient of
         None \<Rightarrow> None
       | Some (Inl e) \<Rightarrow> Some (Inl e)
       | Some (Inr None) \<Rightarrow> Some (Inr (Inl ''MaybeOutOfViolationPath: Nearest valid configuration optimization failed''))
       | Some (Inr (Some q_valid)) \<Rightarrow> Some (bindE (conf_valid E (verbose_checks E) q_valid) (\<lambda>ok.
           if \<not> ok then Inr (Inl ''MaybeOutOfViolationPath: The optimized configuration is invalid. It is a bug, numerical issue, or the influence distance is too small.'')
           else try_clearances E start_q q_valid clearance [0..<kMaxNumTries])))"

section \<open>Cubic splines\<close>

definition lin_spaced :: "nat \<Rightarrow> real \<Rightarrow> real \<Rightarrow> real list" where
  "lin_spaced n lo hi = map (\<lambda>i. lo + real i * (hi - lo) / real (n - 1)) [0..<n]"

definition ConstructCubicPath :: "('p, 'z) path_env_scheme \<Rightarrow> conf list \<Rightarrow> conf option \<Rightarrow> 'p throws" where
  "ConstructCubicPath E ws forward_tangent = (let n = length ws in if n < 2 then Inl out_of_range
     else dk_cubic (pb_drake E) (lin_spaced n 0 1) ws
       (case forward_tangent of Some v \<Rightarrow> v | None \<Rightarrow> vscale (real (n - 1)) (vminus (ws ! 1) (ws ! 0)))
       (vscale (real (n - 1)) (vminus (ws ! (n - 1)) (ws ! (n - 2)))))"

text \<open>Each iteration of the parallel loop writes its own entry; an exception in it ends the process.\<close>

definition AreStatesValid :: "('p, 'z) path_env_scheme \<Rightarrow> conf list \<Rightarrow> bool \<Rightarrow> bool list throws" where
  "AreStatesValid E qs verbose = (let R = pb_checks E;
       rs = map (\<lambda>i. CheckSatisfied R (qs ! i) (pb_thread E i mod rc_threads R) ((default_checks E)\<lparr> co_verbose := verbose \<rparr>)) [0..<length qs]
     in if list_all is_ok rs then Inr (map (cr_satisfied \<circ> projr) rs) else Inl ''std::terminate'')"

text \<open>The first sample from \<open>s\<close> on that is closest to a knot.\<close>

definition closest_sample :: "conf list \<Rightarrow> conf \<Rightarrow> nat \<Rightarrow> nat" where
  "closest_sample qs w s = fst (fold (\<lambda>t (best, d). let d' = vnorm (vminus (qs ! t) w) in if d' < d then (t, d') else (best, d))
     [s + 1..<length qs] (s, vnorm (vminus (qs ! s) w)))"

definition middle :: "conf \<Rightarrow> conf \<Rightarrow> conf" where "middle p q = vscale (1 / 2) (vadd p q)"

fun add_nodes :: "conf list \<Rightarrow> bool list \<Rightarrow> nat \<Rightarrow> conf \<Rightarrow> conf list \<Rightarrow> conf list" where
  "add_nodes qs valid s prev [] = []"
| "add_nodes qs valid s prev (w # ws) = (let s' = closest_sample qs w s; check_size = min (s' - s + 2) (length valid - s);
     obeys = list_all id (take check_size (drop s valid))
   in (if obeys then [] else [middle prev w]) @ w # add_nodes qs valid s' w ws)"

definition AddNodesToFixPath :: "conf list \<Rightarrow> conf list \<Rightarrow> bool list \<Rightarrow> conf list" where
  "AddNodesToFixPath ws qs valid = hd ws # add_nodes qs valid 0 (hd ws) (tl ws)"

text \<open>The tolerance is passed where the checker expects whether to be verbose.\<close>

definition limit_tol :: real where "limit_tol = 1 / 10 ^ 5"

definition sample_times_of :: "('p, 'z) path_env_scheme \<Rightarrow> 'p \<Rightarrow> real list" where
  "sample_times_of E p = lin_spaced 20 0 (dk_end (pb_drake E) p)"

definition samples_of :: "('p, 'z) path_env_scheme \<Rightarrow> 'p \<Rightarrow> conf list" where
  "samples_of E p = map (dk_value (pb_drake E) p) (sample_times_of E p)"

fun respline :: "('p, 'z) path_env_scheme \<Rightarrow> conf option \<Rightarrow> nat \<Rightarrow> conf list \<Rightarrow> 'p \<Rightarrow> ('p \<times> conf list) option throws" where
  "respline E tangent 0 ws path = Inr None"
| "respline E tangent (Suc n) ws path = bindE (AreStatesValid E (samples_of E path) (limit_tol \<noteq> 0)) (\<lambda>valid.
     if list_all id valid then Inr (Some (path, ws))
     else let ws' = AddNodesToFixPath ws (samples_of E path) valid in
       bindE (ConstructCubicPath E ws' tangent) (\<lambda>path'. respline E tangent n ws' path'))"

definition WayptsToValidPath :: "('p, 'z) path_env_scheme \<Rightarrow> conf list \<Rightarrow> nat \<Rightarrow> conf option \<Rightarrow> ('p \<times> conf list) option throws" where
  "WayptsToValidPath E ws max_resplines tangent = bindE (ConstructCubicPath E ws tangent) (respline E tangent max_resplines ws)"

definition default_resplines :: nat where "default_resplines = 10"

section \<open>What the checks say\<close>

definition env_ok :: "('p, 'z) path_env_scheme \<Rightarrow> bool" where
  "env_ok E \<longleftrightarrow> 0 < rc_threads (pb_checks E) \<and> 0 < pb_hardware E \<and> (\<forall>x. fits (rc_constraints (pb_checks E)) x)
     \<and> (\<forall>qs. complete_schedule (length qs) (pb_schedule E qs))"

text \<open>A configuration with valid constraints, by the default tolerance.\<close>

definition valid_conf :: "('p, 'z) path_env_scheme \<Rightarrow> conf \<Rightarrow> bool" where "valid_conf E = config_ok (pb_checks E) (default_checks E)"

lemma checks_tolerance: "config_ok R (opt\<lparr> co_verbose := b \<rparr>) = config_ok R opt"
  by (rule ext) (simp add: config_ok_def)

lemma env_checkable: "env_ok E \<Longrightarrow> checkable (pb_checks E) q \<longleftrightarrow> length q = hm_m (rc_hm (pb_checks E))"
  by (auto simp: env_ok_def checkable_def)

lemma conf_valid_sound:
  assumes "conf_valid E opt q = Inr True" "env_ok E" "co_tolerance opt = co_tolerance (default_checks E)"
  shows "valid_conf E q" "length q = hm_m (rc_hm (pb_checks E))"
proof -
  obtain r where r: "CheckSatisfied (pb_checks E) q 0 opt = Inr r" "cr_satisfied r" using assms(1) by (auto simp: conf_valid_def bindE_Inr_iff)
  then have "config_ok (pb_checks E) opt q" by (rule CheckSatisfied_sound) (use assms(2) in \<open>simp add: env_ok_def\<close>)
  then show "valid_conf E q" using assms(3) by (simp add: valid_conf_def config_ok_def)
  show "length q = hm_m (rc_hm (pb_checks E))" using r(1) by (auto simp: CheckSatisfied_def bindE_Inr_iff lifted_def split: if_splits)
qed

lemma verbose_tolerance [simp]: "co_tolerance (verbose_checks E) = co_tolerance (default_checks E)"
  by (simp add: verbose_checks_def)

lemma edge_valid_near:
  assumes "edge_valid E q1 q2 step = Inr True" "env_ok E" "length q1 = hm_m (rc_hm (pb_checks E))" "length q2 = length q1" "0 \<le> c" "c \<le> 1"
  shows "\<exists>q. valid_conf E q \<and> vnorm (vminus (between q1 q2 c) q) \<le> step / 2"
proof -
  obtain r where r: "CheckSatisfiedEdge (pb_checks E) q1 q2 step (default_checks E) (pb_thread E) (pb_schedule E (edge_samples q1 q2 step)) = Inr r"
      "cr_satisfied r"
    using assms(1) by (auto simp: edge_valid_def bindE_Inr_iff)
  show ?thesis unfolding valid_conf_def
    by (rule edge_near [OF r assms(5,6)]) (use assms(2,3,4) env_checkable [OF assms(2)] in \<open>simp_all add: env_ok_def default_checks_def\<close>)
qed

section \<open>The way out of a violation\<close>

text \<open>What Drake documents of \<open>FirstOrderHold\<close>.\<close>

definition hold_law :: "'p drake \<Rightarrow> bool" where
  "hold_law D \<longleftrightarrow> (\<forall>a b p q t. a < b \<and> length p = length q \<and> a \<le> t \<and> t \<le> b
     \<longrightarrow> dk_value D (dk_hold D [a, b] [p, q]) t = between p q ((t - a) / (b - a)))"

lemma hold_value: "hold_law D \<Longrightarrow> length p = length q \<Longrightarrow> 0 \<le> t \<Longrightarrow> t \<le> 1 \<Longrightarrow> dk_value D (dk_hold D [0, 1] [p, q]) t = between p q t"
  by (simp add: hold_law_def)

lemma between_simps [simp]: "length p = length q \<Longrightarrow> between p q 0 = p" "length p = length q \<Longrightarrow> between p q 1 = q"
  "length (between p q c) = min (length p) (length q)"
  by (auto intro!: nth_equalityI simp: between_def vadd_def vscale_def)

lemma between_nth: "k < length p \<Longrightarrow> k < length q \<Longrightarrow> between p q c ! k = (1 - c) * p ! k + c * q ! k"
  by (simp add: between_def vadd_def vscale_def)

lemma between_between: "length p = length q \<Longrightarrow> between (between p q a) q u = between p q (a + u * (1 - a))"
  by (rule nth_equalityI) (simp_all add: between_nth algebra_simps)

lemma cleared_length: "length a = length b \<Longrightarrow> length (cleared a b c i) = length b"
  by (simp add: cleared_def vadd_def vscale_def vminus_def normalized_def)

text \<open>A point cleared of a violation is beyond the valid point on the line from the start.\<close>

lemma cleared_beyond:
  assumes "length p = length v" "0 \<le> clearance" "i \<le> kMaxNumTries"
  shows "\<exists>s. 0 \<le> s \<and> s \<le> 1 \<and> between p (cleared p v clearance i) s = v"
proof -
  let ?d = "vnorm (vminus v p)" and ?c = "clearance * (1 - real i / real kMaxNumTries)" and ?q = "cleared p v clearance i"
  have c: "0 \<le> ?c" using assms(2,3) by (simp add: kMaxNumTries_def)
  have l: "length ?q = length p" using cleared_length [OF assms(1)] assms(1) by simp
  show ?thesis
  proof (cases "?d > 0")
    case True
    let ?s = "?d / (?d + ?c)"
    have pos: "0 < ?d + ?c" using True c by linarith
    have s: "0 \<le> ?s" "?s \<le> 1" using True c by simp_all
    have "between p ?q ?s = v"
    proof (rule nth_equalityI)
      fix k assume "k < length (between p ?q ?s)"
      then have k: "k < length p" using l by simp
      have q: "?q ! k = v ! k + ?c * (1 / ?d * (v ! k - p ! k))"
        using k assms(1) True by (simp add: cleared_def vadd_def vscale_def vminus_def normalized_def)
      have "(1 - d / (d + c)) * x + d / (d + c) * (y + c * (1 / d * (y - x))) = y" if d: "0 < d" "0 < d + c" for d c x y :: real
      proof -
        have "1 - d / (d + c) = c / (d + c)" using d(2) by (simp add: field_simps)
        moreover have "d / (d + c) * (y + c * (1 / d * (y - x))) = (d * y + c * (y - x)) / (d + c)" using d(1) by (simp add: distrib_left add_divide_distrib)
        ultimately have "(1 - d / (d + c)) * x + d / (d + c) * (y + c * (1 / d * (y - x))) = (c * x + (d * y + c * (y - x))) / (d + c)"
          by (simp add: add_divide_distrib)
        also have "c * x + (d * y + c * (y - x)) = y * (d + c)" by (simp add: algebra_simps)
        finally show ?thesis using d(2) by simp
      qed
      then show "between p ?q ?s ! k = v ! k" using True pos k l by (simp add: between_nth q)
    qed (use l assms(1) in simp)
    then show ?thesis using s by blast
  next
    case False
    have z: "vscale ?c (normalized (vminus v p)) = replicate (length p) 0" "v = p"
    proof -
      have "?d = 0" using False vnorm_nonneg [of "vminus v p"] by simp
      then have "(\<Sum>x \<leftarrow> vminus v p. x\<^sup>2) = 0" by (simp add: vnorm_def)
      then have "\<forall>x \<in> set (vminus v p). x\<^sup>2 = 0" by (subst (asm) sum_list_nonneg_eq_0_iff) auto
      then have zero: "\<forall>x \<in> set (vminus v p). x = 0" by simp
      have e: "\<forall>k < length p. v ! k - p ! k = 0"
      proof (intro allI impI)
        fix k assume k: "k < length p"
        then have "vminus v p ! k \<in> set (vminus v p)" using assms(1) by (intro nth_mem) (simp add: vminus_def)
        then show "v ! k - p ! k = 0" using zero k assms(1) by (fastforce simp: vminus_def)
      qed
      then show "v = p" using assms(1) by (auto intro!: nth_equalityI)
      then show "vscale ?c (normalized (vminus v p)) = replicate (length p) 0"
        using False by (auto intro!: nth_equalityI simp: vscale_def normalized_def vminus_def)
    qed
    then have "between p ?q 0 = v" using l by simp
    then show ?thesis by (intro exI [of _ 0]) simp
  qed
qed

lemma try_clearances_found:
  "try_clearances E p v clearance is = Inr (Inr path) \<Longrightarrow> \<exists>pre i post. is = pre @ i # post \<and> path = dk_hold (pb_drake E) [0, 1] [p, cleared p v clearance i]
     \<and> conf_valid E (verbose_checks E) (cleared p v clearance i) = Inr True \<and> edge_valid E v (cleared p v clearance i) default_edge_step = Inr True
     \<and> (\<forall>j \<in> set pre. conf_valid E (verbose_checks E) (cleared p v clearance j) = Inr False \<or> edge_valid E v (cleared p v clearance j) default_edge_step = Inr False)"
proof (induction "is")
  case (Cons i "is")
  let ?q = "cleared p v clearance i"
  have rest: ?case if f: "conf_valid E (verbose_checks E) ?q = Inr False \<or> edge_valid E v ?q default_edge_step = Inr False"
    and r: "try_clearances E p v clearance is = Inr (Inr path)"
  proof -
    obtain pre j post where *: "is = pre @ j # post" "path = dk_hold (pb_drake E) [0, 1] [p, cleared p v clearance j]"
      "conf_valid E (verbose_checks E) (cleared p v clearance j) = Inr True" "edge_valid E v (cleared p v clearance j) default_edge_step = Inr True"
      "\<forall>j \<in> set pre. conf_valid E (verbose_checks E) (cleared p v clearance j) = Inr False \<or> edge_valid E v (cleared p v clearance j) default_edge_step = Inr False"
      using Cons.IH [OF r] by blast
    show ?thesis by (rule exI [of _ "i # pre"], rule exI [of _ j], rule exI [of _ post]) (use * f in simp)
  qed
  obtain b1 where b1: "conf_valid E (verbose_checks E) ?q = Inr b1" using Cons.prems by (auto simp: Let_def bindE_Inr_iff)
  show ?case
  proof (cases b1)
    case True
    then obtain b2 where b2: "edge_valid E v ?q default_edge_step = Inr b2" using Cons.prems b1 by (auto simp: Let_def bindE_Inr_iff)
    show ?thesis
    proof (cases b2)
      case True
      show ?thesis by (rule exI [of _ "[]"], rule exI [of _ i], rule exI [of _ "is"]) (use Cons.prems b1 b2 True \<open>b1\<close> in simp)
    next
      case False
      then show ?thesis using rest Cons.prems b1 b2 True by simp
    qed
  next
    case False
    then show ?thesis using rest Cons.prems b1 by simp
  qed
qed simp

text \<open>The way out of a violation leads straight through the nearest valid configuration to a valid one beyond it, with the greatest tenth of
  the clearance for which this works; from the nearest valid configuration on, every point of it is within half a millirad of a valid
  configuration.\<close>

theorem out_of_violation_path:
  assumes "MaybeOutOfViolationPath E solve p influence clearance thread gradient = Some (Inr (Inr path))"
    "env_ok E" "hold_law (pb_drake E)" "0 \<le> clearance" "length p = hm_m (rc_hm (pb_checks E))"
  shows "\<exists>v i s. nearest_valid E solve p influence clearance thread gradient = Some (Inr (Some v)) \<and> valid_conf E v
    \<and> i < kMaxNumTries \<and> valid_conf E (cleared p v clearance i)
    \<and> (\<forall>j < i. conf_valid E (verbose_checks E) (cleared p v clearance j) = Inr False \<or> edge_valid E v (cleared p v clearance j) default_edge_step = Inr False)
    \<and> 0 \<le> s \<and> s \<le> 1 \<and> dk_value (pb_drake E) path 0 = p \<and> dk_value (pb_drake E) path s = v \<and> dk_value (pb_drake E) path 1 = cleared p v clearance i
    \<and> (\<forall>t. s \<le> t \<and> t \<le> 1 \<longrightarrow> (\<exists>q. valid_conf E q \<and> vnorm (vminus (dk_value (pb_drake E) path t) q) \<le> default_edge_step / 2))"
proof -
  obtain v where v: "nearest_valid E solve p influence clearance thread gradient = Some (Inr (Some v))"
      "conf_valid E (verbose_checks E) v = Inr True" "try_clearances E p v clearance [0..<kMaxNumTries] = Inr (Inr path)"
    using assms(1) by (auto simp: MaybeOutOfViolationPath_def bindE_Inr_iff split: option.splits sum.splits if_splits)
  have lv: "length v = length p" "valid_conf E v" using conf_valid_sound [OF v(2) assms(2)] assms(5) by simp_all
  obtain pre i post where t: "[0..<kMaxNumTries] = pre @ i # post" "path = dk_hold (pb_drake E) [0, 1] [p, cleared p v clearance i]"
      "conf_valid E (verbose_checks E) (cleared p v clearance i) = Inr True" "edge_valid E v (cleared p v clearance i) default_edge_step = Inr True"
      "\<forall>j \<in> set pre. conf_valid E (verbose_checks E) (cleared p v clearance j) = Inr False \<or> edge_valid E v (cleared p v clearance j) default_edge_step = Inr False"
    using try_clearances_found [OF v(3)] by blast
  have i: "i < kMaxNumTries" "set pre = {..<i}"
  proof -
    have "length pre < kMaxNumTries" using arg_cong [OF t(1), of length] by simp
    moreover have "[0..<kMaxNumTries] ! length pre = i" using t(1) by simp
    ultimately have "i = length pre" by simp
    moreover have "take (length pre) [0..<kMaxNumTries] = pre" using t(1) by simp
    ultimately have "pre = [0..<i]" using \<open>length pre < kMaxNumTries\<close> by (simp add: take_upt)
    then show "set pre = {..<i}" by auto
    show "i < kMaxNumTries" using \<open>i = length pre\<close> \<open>length pre < kMaxNumTries\<close> by simp
  qed
  let ?q = "cleared p v clearance i"
  have q: "valid_conf E ?q" "length ?q = length p" using conf_valid_sound [OF t(3) assms(2)] assms(5) by simp_all
  obtain s where s: "0 \<le> s" "s \<le> 1" "between p ?q s = v"
    using cleared_beyond [of p v clearance i] lv(1) assms(4) i(1) by auto
  have val: "dk_value (pb_drake E) path t = between p ?q t" if "0 \<le> t" "t \<le> 1" for t
    using hold_value [OF assms(3), of p ?q t] that q(2) t(2) by simp
  have near: "\<exists>q. valid_conf E q \<and> vnorm (vminus (dk_value (pb_drake E) path t) q) \<le> default_edge_step / 2" if st: "s \<le> t" "t \<le> 1" for t
  proof -
    obtain u where u: "0 \<le> u" "u \<le> 1" "t = s + u * (1 - s)"
    proof (cases "s = 1")
      case True then show ?thesis using st that [of 0] by simp
    next
      case False
      then have "0 < 1 - s" using s(2) by simp
      then show ?thesis using st that [of "(t - s) / (1 - s)"] by simp
    qed
    have "between v ?q u = dk_value (pb_drake E) path t"
      using between_between [of p ?q s u] q(2) s val [of t] st u(3) by simp
    then show ?thesis using edge_valid_near [OF t(4) assms(2) _ _ u(1,2)] lv(1) q(2) assms(5) by simp
  qed
  show ?thesis
    by (rule exI [of _ v], rule exI [of _ i], rule exI [of _ s])
      (use v(1) lv i t(5) q s val [of 0] val [of 1] val [of s] near in auto)
qed

section \<open>The walk along a gradient\<close>

lemma nth_vadd: "k < length q \<Longrightarrow> length d = length q \<Longrightarrow> vadd q d ! k = q ! k + d ! k" by (simp add: vadd_def)

lemma length_vadd [simp]: "length (vadd q d) = min (length q) (length d)" by (simp add: vadd_def)

lemma limits_coordinate:
  assumes "joint_limits_constraint lims q" "k < length q" "k < length lims"
  shows "snd (lims ! k) = Some u \<Longrightarrow> q ! k \<le> u" "fst (lims ! k) = Some l \<Longrightarrow> l \<le> q ! k"
proof -
  have "(q ! k, lims ! k) \<in> set (zip q lims)" using assms(2,3) by (auto simp: set_zip)
  then show "snd (lims ! k) = Some u \<Longrightarrow> q ! k \<le> u" "fst (lims ! k) = Some l \<Longrightarrow> l \<le> q ! k"
    using assms(1) by (fastforce simp: joint_limits_constraint_def list_all_iff)+
qed

text \<open>How far a coordinate is from the limit that it moves to.\<close>

definition slack :: "(real option \<times> real option) list \<Rightarrow> conf \<Rightarrow> nat \<Rightarrow> conf \<Rightarrow> real option" where
  "slack lims d k q = (if d ! k > 0 then map_option (\<lambda>u. (u - q ! k) / d ! k) (snd (lims ! k))
     else if d ! k < 0 then map_option (\<lambda>l. (l - q ! k) / d ! k) (fst (lims ! k)) else None)"

lemma slack_step: "k < length q \<Longrightarrow> length d = length q \<Longrightarrow> slack lims d k (vadd q d) = map_option (\<lambda>x. x - 1) (slack lims d k q)"
  by (cases "snd (lims ! k)"; cases "fst (lims ! k)") (auto simp: slack_def nth_vadd field_simps)

lemma slack_inside:
  assumes "joint_limits_constraint lims q" "k < length q" "k < length lims" "slack lims d k q = Some x"
  shows "0 \<le> x"
  using assms(4) limits_coordinate [OF assms(1-3)]
  by (auto simp: slack_def divide_nonpos_neg split: if_splits)

lemma climb_ends:
  assumes "length d = length q" "k < length q" "length lims = length q" "slack lims d k q \<noteq> None"
  shows "\<exists>r. climb check lims d q = Some r \<and> (\<forall>v. r = Inr (Some v) \<longrightarrow> check v = Inr True \<and> length v = length q)"
proof -
  obtain x where "slack lims d k q = Some x" using assms(4) by blast
  then show ?thesis using assms(1-3)
  proof (induction "nat (\<lfloor>x\<rfloor> + 1)" arbitrary: x q rule: less_induct)
    case less
    show ?case
    proof (cases "joint_limits_constraint lims q")
      case False
      then show ?thesis by (subst climb.simps) simp
    next
      case True
      then have x: "0 \<le> x" using slack_inside [OF True, of k d x] less.prems by simp
      then have fl: "0 \<le> \<lfloor>x\<rfloor>" by simp
      then have dec: "nat (\<lfloor>x - 1\<rfloor> + 1) < nat (\<lfloor>x\<rfloor> + 1)" by simp
      have s: "slack lims d k (vadd q d) = Some (x - 1)" using slack_step [of k q d lims] less.prems by simp
      have ls: "length d = length (vadd q d)" "k < length (vadd q d)" "length lims = length (vadd q d)" using less.prems by simp_all
      show ?thesis
      proof (cases "check (vadd q d)")
        case (Inl e)
        then show ?thesis using True by (subst climb.simps) simp
      next
        case (Inr b)
        show ?thesis
        proof (cases b)
          case True
          then show ?thesis using \<open>joint_limits_constraint lims q\<close> Inr less.prems by (subst climb.simps) simp
        next
          case False
          then have "climb check lims d q = climb check lims d (vadd q d)" using \<open>joint_limits_constraint lims q\<close> Inr by (subst climb.simps) simp
          then show ?thesis using less.hyps [OF dec s ls] less.prems(2) by simp
        qed
      qed
    qed
  qed
qed

text \<open>Without limits and without a valid configuration on the way the walk does not end.\<close>

lemma climb_returns_only:
  assumes "climb check lims d q = Some r"
  shows "lims = replicate (length lims) (None, None) \<Longrightarrow> (\<forall>v. check v = Inr False) \<Longrightarrow> False"
proof (induction rule: climb.raw_induct [OF _ assms])
  case (1 climb check lims d q r)
  have "joint_limits_constraint lims q"
    unfolding joint_limits_constraint_def
    by (subst 1(3)) (auto simp: list_all_iff dest: set_zip_rightD)
  then have "climb check lims d (vadd q d) = Some r" using 1(2,4) by simp
  then show ?case using 1 by blast
qed

text \<open>The search along a gradient returns if a joint that it moves has a limit in that direction, and what it finds is valid; if no joint has
  limits, as with continuous joints, and nothing on the way is valid, the loop never ends.\<close>

theorem gradient_search_returns:
  assumes "1 / 10 ^ 6 < vnorm g" "length g = length p" "0 < clearance" "length (pb_limits E) = length p" "k < length p"
    "(0 < g ! k \<and> snd (pb_limits E ! k) \<noteq> None) \<or> (g ! k < 0 \<and> fst (pb_limits E ! k) \<noteq> None)"
  shows "(\<exists>r. nearest_valid E solve p influence clearance thread (Some g) = Some r
      \<and> (\<forall>v. r = Inr (Some v) \<longrightarrow> conf_valid E (default_checks E) v = Inr True))
    \<and> (pb_limits F = replicate (length p) (None, None) \<and> (\<forall>v. conf_valid F (default_checks F) v = Inr False)
      \<longrightarrow> nearest_valid F solve p influence clearance thread (Some g) = None)"
proof -
  let ?d = "vscale clearance (normalized g)"
  have pos: "0 < vnorm g" by (rule less_trans [OF _ assms(1)]) simp
  have d: "?d ! k = clearance * (1 / vnorm g * g ! k)" "length ?d = length p"
    using assms(2,5) pos by (simp_all add: vscale_def normalized_def)
  have sign: "0 < ?d ! k \<longleftrightarrow> 0 < g ! k" "?d ! k < 0 \<longleftrightarrow> g ! k < 0"
    unfolding d(1) using pos assms(3) by (simp_all add: zero_less_mult_iff mult_less_0_iff zero_less_divide_iff divide_less_0_iff)
  have "slack (pb_limits E) ?d k p \<noteq> None" using assms(6) sign by (auto simp: slack_def)
  from climb_ends [OF d(2) assms(5) assms(4) this, of "conf_valid E (default_checks E)"]
  have ends: "\<exists>r. nearest_valid E solve p influence clearance thread (Some g) = Some r
      \<and> (\<forall>v. r = Inr (Some v) \<longrightarrow> conf_valid E (default_checks E) v = Inr True)"
    using assms(1,2) by (auto simp: nearest_valid_def)
  have "climb (conf_valid F (default_checks F)) (pb_limits F) ?d p = None"
    if F: "pb_limits F = replicate (length p) (None, None)" "\<forall>v. conf_valid F (default_checks F) v = Inr False"
  proof (cases "climb (conf_valid F (default_checks F)) (pb_limits F) ?d p")
    case (Some r)
    then show ?thesis using climb_returns_only [OF Some] F by simp
  qed
  then show ?thesis using ends assms(1,2) by (simp add: nearest_valid_def)
qed

section \<open>Splines\<close>

lemma fold_argmin:
  fixes f :: "nat \<Rightarrow> real"
  assumes "d = f b"
  shows "\<exists>b'. fold (\<lambda>t (best, d). let d' = f t in if d' < d then (t, d') else (best, d)) ts (b, d) = (b', f b')
    \<and> b' \<in> insert b (set ts) \<and> (\<forall>t \<in> insert b (set ts). f b' \<le> f t)"
  using assms
proof (induction ts arbitrary: b d)
  case (Cons t ts)
  show ?case
  proof (cases "f t < d")
    case True
    from Cons.IH [of "f t" t] obtain b' where "fold (\<lambda>t (best, d). let d' = f t in if d' < d then (t, d') else (best, d)) ts (t, f t) = (b', f b')"
      "b' \<in> insert t (set ts)" "\<forall>t' \<in> insert t (set ts). f b' \<le> f t'" by auto
    then show ?thesis using True Cons.prems by (intro exI [of _ b']) auto
  next
    case False
    from Cons.IH [OF Cons.prems] obtain b' where "fold (\<lambda>t (best, d). let d' = f t in if d' < d then (t, d') else (best, d)) ts (b, d) = (b', f b')"
      "b' \<in> insert b (set ts)" "\<forall>t' \<in> insert b (set ts). f b' \<le> f t'" by auto
    then show ?thesis using False Cons.prems by (intro exI [of _ b']) (auto intro: order_trans)
  qed
qed simp

lemma closest_sample_best:
  assumes "s < length qs"
  shows "s \<le> closest_sample qs w s" "closest_sample qs w s < length qs"
    "\<forall>t. s \<le> t \<and> t < length qs \<longrightarrow> vnorm (vminus (qs ! closest_sample qs w s) w) \<le> vnorm (vminus (qs ! t) w)"
proof -
  let ?f = "\<lambda>t. vnorm (vminus (qs ! t) w)"
  obtain b where b: "closest_sample qs w s = b" "b \<in> insert s (set [s + 1..<length qs])" "\<forall>t \<in> insert s (set [s + 1..<length qs]). ?f b \<le> ?f t"
    using fold_argmin [of "?f s" ?f s "[s + 1..<length qs]"] by (auto simp: closest_sample_def)
  then show "s \<le> closest_sample qs w s" "closest_sample qs w s < length qs" using assms by auto
  show "\<forall>t. s \<le> t \<and> t < length qs \<longrightarrow> ?f (closest_sample qs w s) \<le> ?f t"
    using b(1,3) by (auto simp: le_less)
qed

lemma add_nodes_subseq: "subseq ws (add_nodes qs valid s prev ws)"
proof (induction ws arbitrary: s prev)
  case (Cons w ws)
  have "subseq (w # ws) (w # add_nodes qs valid (closest_sample qs w s) w ws)" using Cons.IH by simp
  then show ?case unfolding add_nodes.simps Let_def by (rule list_emb_append2)
qed simp

lemma add_nodes_length: "length (add_nodes qs valid s prev ws) \<le> 2 * length ws"
proof (induction ws arbitrary: s prev)
  case (Cons w ws)
  have "length (add_nodes qs valid (closest_sample qs w s) w ws) \<le> 2 * length ws" by (rule Cons.IH)
  then show ?case by (simp add: Let_def)
qed simp

lemma add_nodes_last: "ws \<noteq> [] \<Longrightarrow> last (add_nodes qs valid s prev ws) = last ws \<and> add_nodes qs valid s prev ws \<noteq> []"
proof (induction ws arbitrary: s prev)
  case (Cons w ws)
  have "ws \<noteq> [] \<Longrightarrow> last (add_nodes qs valid (closest_sample qs w s) w ws) = last ws \<and> add_nodes qs valid (closest_sample qs w s) w ws \<noteq> []" by (rule Cons.IH)
  then show ?case by (cases ws) (simp_all add: Let_def)
qed simp

text \<open>The nodes that are added are in the middle between a waypoint and the one before it.\<close>

lemma add_nodes_middle:
  "x \<in> set (add_nodes qs valid s prev ws) \<Longrightarrow> x \<in> set ws \<or> (\<exists>k < length ws. x = middle ((prev # ws) ! k) (ws ! k))"
proof (induction ws arbitrary: s prev)
  case (Cons w ws)
  have "x = middle prev w \<or> x = w \<or> (\<exists>s'. x \<in> set (add_nodes qs valid s' w ws))" using Cons.prems by (auto simp: Let_def split: if_splits)
  then show ?case
  proof (elim disjE exE)
    assume "x = middle prev w"
    then have "x = middle ((prev # w # ws) ! 0) ((w # ws) ! 0)" by simp
    then show ?thesis by blast
  next
    fix s' assume "x \<in> set (add_nodes qs valid s' w ws)"
    from Cons.IH [OF this] show ?thesis
    proof (elim disjE exE conjE)
      fix k assume "k < length ws" "x = middle ((w # ws) ! k) (ws ! k)"
      then have "Suc k < length (w # ws) \<and> x = middle ((prev # w # ws) ! Suc k) ((w # ws) ! Suc k)" by simp
      then show ?thesis by blast
    qed simp
  qed simp
qed simp

text \<open>An invalid sample makes a node, if the last waypoint is closest to the last sample.\<close>

lemma add_nodes_progress:
  assumes "s < length qs" "length valid = length qs" "ws \<noteq> []" "length (add_nodes qs valid s prev ws) \<le> length ws"
    "\<forall>t < length qs - 1. vnorm (vminus (qs ! (length qs - 1)) (last ws)) < vnorm (vminus (qs ! t) (last ws))"
    "s \<le> i" "i < length qs"
  shows "valid ! i"
  using assms(1,3-6)
proof (induction ws arbitrary: s prev)
  case (Cons w ws)
  let ?s = "closest_sample qs w s"
  let ?n = "min (?s - s + 2) (length valid - s)"
  note c = closest_sample_best [OF Cons.prems(1), of w]
  have obeys: "list_all id (take ?n (drop s valid))"
  proof (rule ccontr)
    assume "\<not> ?thesis"
    then have "length (add_nodes qs valid s prev (w # ws)) = 2 + length (add_nodes qs valid ?s w ws)" by (simp add: Let_def)
    moreover have "length ws \<le> length (add_nodes qs valid ?s w ws)" using list_emb_length [OF add_nodes_subseq] .
    ultimately show False using Cons.prems(3) by simp
  qed
  have chunk: "valid ! i" if "i \<le> ?s"
  proof -
    have "i - s < ?s - s + 2" using that by linarith
    moreover have "i - s < length qs - s" using that c(2) Cons.prems(5) by linarith
    ultimately have "i - s < length (take ?n (drop s valid))" using assms(2) by simp
    moreover have "drop s valid ! (i - s) = valid ! i" using Cons.prems(1,5) assms(2) by simp
    ultimately have "take ?n (drop s valid) ! (i - s) = valid ! i" "i - s < length (take ?n (drop s valid))" by simp_all
    then show ?thesis using obeys by (metis id_apply list_all_length)
  qed
  show ?case
  proof (cases "ws = []")
    case True
    have "?s = length qs - 1"
    proof (rule ccontr)
      assume "?s \<noteq> length qs - 1"
      then have "?s < length qs - 1" using c(2) by simp
      then show False using Cons.prems(4) c(3) Cons.prems(1) True c(1) by (fastforce dest: spec [of _ "length qs - 1"])
    qed
    then show ?thesis using chunk assms(7) by simp
  next
    case False
    have l: "length (add_nodes qs valid ?s w ws) \<le> length ws" using Cons.prems(3) obeys by (simp add: Let_def)
    show ?thesis
    proof (cases "i \<le> ?s")
      case False
      have "\<forall>t < length qs - 1. vnorm (vminus (qs ! (length qs - 1)) (last ws)) < vnorm (vminus (qs ! t) (last ws))"
        using Cons.prems(4) \<open>ws \<noteq> []\<close> by simp
      from Cons.IH [OF c(2) \<open>ws \<noteq> []\<close> l this] False show ?thesis by simp
    qed (rule chunk)
  qed
qed simp

lemma AreStatesValid_sound:
  assumes "AreStatesValid E qs verbose = Inr bs" "list_all id bs" "env_ok E" "q \<in> set qs"
  shows "valid_conf E q"
proof -
  obtain i where i: "i < length qs" "q = qs ! i" using assms(4) by (auto simp: in_set_conv_nth)
  let ?R = "pb_checks E" and ?t = "pb_thread E i mod rc_threads (pb_checks E)" and ?opt = "(default_checks E)\<lparr> co_verbose := verbose \<rparr>"
  have "is_ok (CheckSatisfied ?R q ?t ?opt)" using assms(1) i by (auto simp: AreStatesValid_def Let_def list_all_iff split: if_splits)
  then obtain r where r: "CheckSatisfied ?R q ?t ?opt = Inr r" by (auto simp: is_ok_iff)
  have "bs ! i" "length bs = length qs" using assms(1,2) i by (auto simp: AreStatesValid_def Let_def list_all_length split: if_splits)
  then have "cr_satisfied r" using assms(1) i r by (auto simp: AreStatesValid_def Let_def split: if_splits)
  moreover have "checkable ?R q"
    using r env_checkable [OF assms(3)] by (auto simp: CheckSatisfied_def bindE_Inr_iff lifted_def split: if_splits)
  moreover have "?t < rc_threads ?R" using assms(3) by (simp add: env_ok_def)
  ultimately have "config_ok ?R ?opt q" using checkable_satisfied [of ?R q ?t ?opt] r by auto
  then show ?thesis by (simp only: valid_conf_def checks_tolerance)
qed

lemma AddNodes_keeps:
  assumes "ws \<noteq> []"
  shows "subseq ws (AddNodesToFixPath ws qs valid)" "hd (AddNodesToFixPath ws qs valid) = hd ws" "last (AddNodesToFixPath ws qs valid) = last ws"
    "length (AddNodesToFixPath ws qs valid) - 1 \<le> 2 * (length ws - 1)" "AddNodesToFixPath ws qs valid \<noteq> []"
proof -
  obtain w ws' where ws: "ws = w # ws'" using assms by (cases ws) auto
  show "subseq ws (AddNodesToFixPath ws qs valid)" using add_nodes_subseq by (simp add: AddNodesToFixPath_def ws)
  show "last (AddNodesToFixPath ws qs valid) = last ws"
    using add_nodes_last [of ws' qs valid 0 w] by (cases ws') (simp_all add: AddNodesToFixPath_def ws)
  show "length (AddNodesToFixPath ws qs valid) - 1 \<le> 2 * (length ws - 1)" using add_nodes_length by (simp add: AddNodesToFixPath_def ws)
qed (simp_all add: AddNodesToFixPath_def)

lemma respline_result:
  assumes "respline E tangent n ws path = Inr (Some (p, ws'))" "ConstructCubicPath E ws tangent = Inr path" "env_ok E" "ws \<noteq> []"
  shows "ConstructCubicPath E ws' tangent = Inr p \<and> (\<forall>q \<in> set (samples_of E p). valid_conf E q)
    \<and> subseq ws ws' \<and> hd ws' = hd ws \<and> last ws' = last ws \<and> length ws' - 1 \<le> (length ws - 1) * 2 ^ (n - 1)"
  using assms(1,2,4)
proof (induction n arbitrary: ws path)
  case (Suc n)
  obtain bs where bs: "AreStatesValid E (samples_of E path) (limit_tol \<noteq> 0) = Inr bs" using Suc.prems(1) by (auto simp: bindE_Inr_iff)
  show ?case
  proof (cases "list_all id bs")
    case True
    have "p = path" "ws' = ws" using Suc.prems(1) bs True by simp_all
    moreover have "length ws - 1 \<le> (length ws - 1) * 2 ^ n" by simp
    ultimately show ?thesis using AreStatesValid_sound [OF bs True assms(3)] Suc.prems(2) by simp
  next
    case False
    let ?ws = "AddNodesToFixPath ws (samples_of E path) bs"
    obtain path' where path': "ConstructCubicPath E ?ws tangent = Inr path'" "respline E tangent n ?ws path' = Inr (Some (p, ws'))"
      using Suc.prems(1) bs False by (auto simp: bindE_Inr_iff Let_def)
    note k = AddNodes_keeps [OF Suc.prems(3), of "samples_of E path" bs]
    note ih = Suc.IH [OF path'(2,1) k(5)]
    obtain m where n: "n = Suc m" using path'(2) by (cases n) simp_all
    have "length ws' - 1 \<le> (length ?ws - 1) * 2 ^ m" using ih n by simp
    also have "\<dots> \<le> (2 * (length ws - 1)) * 2 ^ m" using k(4) by (rule mult_right_mono) simp
    finally have "length ws' - 1 \<le> (length ws - 1) * 2 ^ (Suc n - 1)" using n by (simp add: mult_ac)
    then show ?thesis using ih k subseq_order.order_trans [OF k(1)] by auto
  qed
qed simp

text \<open>A spline that is returned goes through all the waypoints in their order, with nodes added between them (at most doubled with each try),
  and is valid at twenty equidistant samples.\<close>

theorem spline_valid:
  assumes "WayptsToValidPath E ws max_resplines tangent = Inr (Some (p, ws'))" "env_ok E"
  shows "ConstructCubicPath E ws' tangent = Inr p \<and> (\<forall>q \<in> set (samples_of E p). valid_conf E q)
    \<and> subseq ws ws' \<and> hd ws' = hd ws \<and> last ws' = last ws \<and> length ws' - 1 \<le> (length ws - 1) * 2 ^ (max_resplines - 1)"
proof -
  obtain path where path: "ConstructCubicPath E ws tangent = Inr path" "respline E tangent max_resplines ws path = Inr (Some (p, ws'))"
    using assms(1) by (auto simp: WayptsToValidPath_def bindE_Inr_iff)
  have "ws \<noteq> []" using path(1) by (auto simp: ConstructCubicPath_def)
  from respline_result [OF path(2,1) assms(2) this] show ?thesis .
qed

text \<open>A repair makes progress: if a sample is invalid and the last waypoint is closer to the last sample than to any other, the
  repaired waypoints have a new node, in the middle between two waypoints that follow each other.\<close>

theorem repair_progress:
  assumes "2 \<le> length ws" "length valid = length qs" "i < length qs" "\<not> valid ! i"
    "\<forall>t < length qs - 1. vnorm (vminus (qs ! (length qs - 1)) (last ws)) < vnorm (vminus (qs ! t) (last ws))"
  shows "length ws < length (AddNodesToFixPath ws qs valid)
    \<and> (\<forall>x \<in> set (AddNodesToFixPath ws qs valid). x \<in> set ws \<or> (\<exists>k. Suc k < length ws \<and> x = middle (ws ! k) (ws ! Suc k)))"
proof -
  obtain w ws' where ws: "ws = w # ws'" "ws' \<noteq> []" using assms(1) by (cases ws) (auto simp: Suc_le_length_iff)
  have "\<not> length (add_nodes qs valid 0 w ws') \<le> length ws'"
    using add_nodes_progress [of 0 qs valid ws' w i] assms ws by (cases qs) auto
  moreover have "x \<in> set ws \<or> (\<exists>k. Suc k < length ws \<and> x = middle (ws ! k) (ws ! Suc k))"
    if "x \<in> set (add_nodes qs valid 0 w ws')" for x
    using add_nodes_middle [OF that] by (auto simp: ws)
  ultimately show ?thesis by (auto simp: AddNodesToFixPath_def ws)
qed

end
