(* ===== verification/Spec2Isabelle.thy ===== *)
theory Spec2Isabelle
  imports Viz_Service Override Holonomic Gcs_Queries Iris_Inspector Manager_Spec Timed_Trajectories Robot_State Kinematic_Hash Anchor_Sequences Path_Math Plan_Solver Robot_Checks Collision_Setup Path_Building
begin

text \<open>
  The planning service: a gRPC server that keeps motion planners for the robot scenes of its clients, improves them
  with convex regions of collision-free configurations built in the background, and shows robots in visualizers.
  This development models the parts of it that are its own logic and can be checked without Drake, gRPC and
  a file system, and proves what makes each part correct.  Source files are named relative to
  \<open>src/planning_service\<close>, where not said otherwise.

  \<^bold>\<open>How the program is put together.\<close>  RPC handlers (\<open>comms/\<close>) run in the threads of the server.  They call the
  resource registry (planners by context id, in memory and on disk), the IRIS manager (a queue of build requests and a
  runner of jobs, drained by one run thread) and the visualizer service.  A planner owns a graph of configurations per
  mode, whose vertices and edges come from IRIS regions, and answers queries by a search on that graph.  Regions are
  looked up by the IRIS inspector, which has to consider the full turns of continuous joints.  The answers are timed
  trajectories, which clients cut, join and send on.

  \<^bold>\<open>Theories.\<close>
  \<^item> \<open>Prelude\<close>: results (\<open>'a throws\<close>), actions that may throw halfway, list and map lemmas.  \<open>Service_Types\<close>:
    \<open>service/types\<close>.
  \<^item> The service.  \<open>Request_Queue\<close> (\<open>service/utils/request_queue.h\<close>, locale \<open>request_fifo\<close>), \<open>Job_Runner\<close>
    (\<open>job_runner.h\<close>, locale \<open>job_store\<close>), \<open>Resource_Manager\<close> (\<open>resource_manager.h\<close>: sequential events, the step relation
    \<open>conc_step\<close> of the interleaved handlers, locale \<open>job_starter\<close>), \<open>Iris_Manager\<close> (\<open>service/iris\<close>), \<open>Manager_Spec\<close>: an
    abstract service of waiting, running and ended requests and the proof that the IRIS manager implements it.
    \<open>File_System\<close>, \<open>Context_Store\<close> (\<open>service/utils/utils.cc\<close>: contexts on disk), \<open>Resource_Registry\<close>
    (\<open>resource_registry.cc\<close>), \<open>Rpc_Services\<close> (\<open>comms/registry_service.cc\<close>, \<open>iris_service.cc\<close>, \<open>plan_service.cc\<close>),
    \<open>Override\<close> (\<open>common/override.h\<close>: scoped overrides on a heap).
  \<^item> Visualization.  \<open>Viz_Hub\<close> (\<open>service/visualization/visualizer_hub.cc\<close>) and \<open>Viz_Service\<close> (\<open>comms/viz_service.cc\<close> with
    the step relation of the streaming handlers).
  \<^item> Configurations.  \<open>Geodesic_Math\<close> (\<open>motion/planning/internal/geodesic_math.cc\<close>), \<open>Holonomic\<close>
    (\<open>motion/holonomic_mapping.cc\<close>), \<open>Config_Metric\<close> and \<open>Config_Graph\<close> (\<open>internal/graph.cc\<close>: distances, the graph, A*
    with edges added on demand, locale \<open>edge_supplier\<close>).
  \<^item> Planning in one mode (\<open>motion/planning/single_mode_gcs_planner.cc\<close>).  \<open>Connecting_Set\<close> (the boxes around connecting
    segments), \<open>Hop_Search\<close> (hop counts and descent), \<open>Gcs_Planner\<close> (the planner and its queries), \<open>Gcs_Queries\<close> (what
    the queries return), \<open>Iris_Inspector\<close> (\<open>motion/iris/iris_inspector.cc\<close>).
  \<^item> Trajectories of the client library (\<open>src/client/client/cpp/planning_service_client/trajectories.cc\<close>):
    \<open>Piecewise_Polynomials\<close> and \<open>Timed_Trajectories\<close> (a path and its time scaling: slices, merges).
  \<^item> The robot (\<open>motion/robot_model.cc\<close>, \<open>draco/client_conversions.cc\<close>).  \<open>Mobile_Groups\<close> (weld classes, kinematic
    chains), \<open>Robot_State\<close> (positions by model instance, arms, idle models; locale \<open>slots\<close>), \<open>Kinematic_Hash\<close>.
  \<^item> The constraints of a plan (\<open>motion/robot_constraints.cc\<close>).  \<open>Robot_Constraints\<close> (checks of configurations, edges and
    trajectories in parallel loops, penalties, samples, closest configurations) with its lemmas in \<open>Robot_Checks\<close>;
    \<open>Constraint_Adapters\<close> (\<open>motion/constraints_adapters.h\<close>: constraints as they are written to and read from YAML);
    \<open>Collision_Setup\<close> (the checker of a scene and \<open>draco/draco.cc\<close>: collision options in force for one request, hashes).
  \<^item> Single paths.  \<open>Path_Building\<close> (\<open>motion/planning/straight_path_planner.cc\<close>, \<open>motion/splining/cubic_spliner.cc\<close>): straight lines, the
    way out of a violation, splines through waypoints and their repair.
  \<^item> Planning across modes (\<open>draco/planner\<close>).  \<open>Anchor_Sequences\<close> (\<open>resolve_anchor.cc\<close>,
    \<open>solve_generalized_multimodal.cc\<close>: anchors, waypoints, multimodal plans), \<open>Path_Math\<close>
    (\<open>motion/splining/internal/path_math.cc\<close>), \<open>Arm_Collisions\<close> (collisions between moving arms, stopping short of one), \<open>Plan_Solver\<close>
    (\<open>solve_plan_impl.cc\<close> and \<open>SolvePlan\<close> of \<open>draco_planner.cc\<close>: new plans and updates beside active trajectories).

  \<^bold>\<open>Correspondence.\<close>  A class is a record with the names of its members (with the prefix of its component where names would
  clash), an enum a datatype, a method a definition with the name of the method.  A method that throws returns
  \<open>'a throws\<close>; a method that changes its object returns the new object with its result, so the state left by an exception is
  visible.  A \<open>std::map\<close> is an association list in key order or a map, a \<open>std::vector\<close> or \<open>std::deque\<close> a list.

  \<^bold>\<open>What the lemmas show.\<close>  Invariants of the queue, the runner, the manager and the registry under every sequence of
  operations, and of the concurrent manager and the streaming handlers under every interleaving; the outcomes of
  each registry operation, its error branches included; round trips of contexts on disk, of messages, of overrides, of
  hidden objects and of the reduction of mimicking joints; A* and hop search end and are optimal, also when the
  edges are only found while searching; the inspection of a configuration and the coverage of a set of points are exact;
  derivatives, slices and messages of piecewise polynomials are right; groups of welded bodies are the classes of a
  relation, positions survive the way through named instances, sequences of anchors are resolved one from the other; plans are
  joined without a jump, a plan beside active trajectories is free of sampled collisions, every result keeps the invariants of its class;
  checks of many configurations have the same verdict under every schedule of their parallel loop, and collision options leave the
  padding and the shapes of the checker as they were, exceptions included.  Where the code falls short of a round trip the theorem says how
  far it goes: a context comes back without the penalty parameters of its joint boxes, and the first request with collision options replaces
  the configured filter by the nominal one.  The refinement of the IRIS manager is about events that run one after the other and requests
  with a context id; what interleaved handlers do is in \<open>interleaving_safe\<close> and \<open>duplicate_guard_race\<close>.
  The way out of a violation enters the valid part and stays near valid configurations, a spline that is returned is valid at its samples and
  keeps its waypoints, and each repair adds a node (\<open>Path_Building\<close>, beside the properties).
  Theorems of kind error state behaviour that differs
  from what comments or names promise.

  \<^bold>\<open>Idealisations.\<close>  Doubles are reals (word types are kept where wrap-around matters: ids, sizes of empty vectors, timeouts).
  \<open>std::sort\<close> is taken to be stable where elements compare equal; no property depends on it.  Devices do not fail in the middle of an
  operation; planners are loaded in the order of the listing.  The run threads make whole passes; the waits between the passes
  are not modelled.  The solvers, collision checks and samplers of Drake and the robot model are arguments of the
  definitions, gRPC and Meshcat are the messages they exchange.  A* and the descent along hop counts are partial functions,
  whose termination is proved with their results.

  \<^bold>\<open>Not modelled.\<close>  Numerical optimisation (IRIS region growing, inverse kinematics, TOPP-RA, convex
  hull planning) and kinematics are calls of Drake with little logic of their own; OMPL planners; drawing; the
  Python bindings, applications and tools; logging.
\<close>

end
